(* ===== verification/Prelude.thy ===== *)
theory Prelude
  imports Complex_Main
begin

text \<open>
  Shared vocabulary of the development: Python's built-in values and string methods, exceptions
  as values, insertion-ordered dictionaries, SQL tables as lists of rows, rounding, and the
  interface locales that several components use.

  A Python \<open>str\<close> is a HOL \<open>string\<close> whose characters stand for the code points U+0000 to U+00FF.
  A Python \<open>float\<close> is an exact rational. Persian message texts appear as an English gloss.
\<close>

named_theorems pystr \<open>definitions of Python's string methods, for evaluating closed instances\<close>
named_theorems pynum \<open>definitions of Python's and SQLite's numeric conversions\<close>
named_theorems sql \<open>definitions of the table operations\<close>

section \<open>Strings\<close>

definition code :: "char \<Rightarrow> nat" where
  "code c = of_char c"

definition is_space :: "char \<Rightarrow> bool" where
  "is_space c = (let n = code c in 9 \<le> n \<and> n \<le> 13 \<or> 28 \<le> n \<and> n \<le> 32 \<or> n = 133 \<or> n = 160)"

definition ascii_digit :: "char \<Rightarrow> bool" where
  "ascii_digit c = (48 \<le> code c \<and> code c \<le> 57)"

definition isdigit_char :: "char \<Rightarrow> bool" where
  \<comment> \<open>\<open>str.isdigit\<close> also accepts the superscript digits U+00B2, U+00B3 and U+00B9\<close>
  "isdigit_char c = (ascii_digit c \<or> code c \<in> {178, 179, 185})"

definition isdigit :: "string \<Rightarrow> bool" where
  "isdigit s = (s \<noteq> [] \<and> list_all isdigit_char s)"

definition isalpha_char :: "char \<Rightarrow> bool" where
  "isalpha_char c = (let n = code c in
     65 \<le> n \<and> n \<le> 90 \<or> 97 \<le> n \<and> n \<le> 122 \<or> n \<in> {170, 181, 186} \<or>
     192 \<le> n \<and> n \<noteq> 215 \<and> n \<noteq> 247)"

definition isalnum_char :: "char \<Rightarrow> bool" where
  "isalnum_char c = (isalpha_char c \<or> isdigit_char c \<or> code c \<in> {188, 189, 190})"

definition lower_char :: "char \<Rightarrow> char" where
  "lower_char c = (let n = code c in
     if 65 \<le> n \<and> n \<le> 90 \<or> 192 \<le> n \<and> n \<le> 222 \<and> n \<noteq> 215 then char_of (n + 32) else c)"

definition lower :: "string \<Rightarrow> string" where
  "lower s = map lower_char s"

definition rstrip_by :: "(char \<Rightarrow> bool) \<Rightarrow> string \<Rightarrow> string" where
  "rstrip_by p s = rev (dropWhile p (rev s))"

definition strip :: "string \<Rightarrow> string" where
  "strip s = rstrip_by is_space (dropWhile is_space s)"

definition rstrip_char :: "char \<Rightarrow> string \<Rightarrow> string" where
  "rstrip_char c s = rstrip_by (\<lambda>x. x = c) s"

definition strip_char :: "char \<Rightarrow> string \<Rightarrow> string" where
  "strip_char c s = rstrip_char c (dropWhile (\<lambda>x. x = c) s)"

definition remove_char :: "char \<Rightarrow> string \<Rightarrow> string" where
  \<comment> \<open>\<open>s.replace(c, "")\<close>\<close>
  "remove_char c s = filter (\<lambda>x. x \<noteq> c) s"

definition startswith :: "string \<Rightarrow> string \<Rightarrow> bool" where
  "startswith s p = (take (length p) s = p)"

definition endswith :: "string \<Rightarrow> string \<Rightarrow> bool" where
  "endswith s p = (length p \<le> length s \<and> drop (length s - length p) s = p)"

fun contains :: "string \<Rightarrow> string \<Rightarrow> bool" where
  \<comment> \<open>\<open>needle in s\<close>\<close>
  "contains [] p = (p = [])"
| "contains (c # s) p = (startswith (c # s) p \<or> contains s p)"

fun split_on :: "char \<Rightarrow> string \<Rightarrow> string list" where
  "split_on d [] = [[]]"
| "split_on d (c # s) =
     (if c = d then [] # split_on d s
      else (case split_on d s of [] \<Rightarrow> [[c]] | p # ps \<Rightarrow> (c # p) # ps))"

fun join_with :: "string \<Rightarrow> string list \<Rightarrow> string" where
  "join_with d [] = []"
| "join_with d [s] = s"
| "join_with d (s # t # ss) = s @ d @ join_with d (t # ss)"

definition is_ascii :: "string \<Rightarrow> bool" where
  "is_ascii s = list_all (\<lambda>c. code c < 128) s"

function digits10 :: "int \<Rightarrow> string" where
  \<comment> \<open>decimal digits of a non-negative integer\<close>
  "digits10 n = (if n < 10 then [char_of (48 + nat n)] else digits10 (n div 10) @ [char_of (48 + nat (n mod 10))])"
  by pat_completeness auto
termination
  by (relation "measure nat") auto

declare digits10.simps [simp del]

definition str_int :: "int \<Rightarrow> string" where
  "str_int i = (if i < 0 then CHR ''-'' # digits10 (- i) else digits10 i)"

definition zfill :: "nat \<Rightarrow> string \<Rightarrow> string" where
  \<comment> \<open>the format \<open>{n:0w}\<close> of a natural number already printed\<close>
  "zfill w s = replicate (w - length s) (CHR ''0'') @ s"

definition digits_value :: "string \<Rightarrow> int" where
  "digits_value s = foldl (\<lambda>a c. a * 10 + (int (code c) - 48)) 0 s"

definition int_of_str :: "string \<Rightarrow> int option" where
  \<comment> \<open>\<open>int(s)\<close>: surrounding blanks, one sign, digits with single underscores between them\<close>
  "int_of_str s =
     (let t = strip s;
          neg = startswith t ''-'';
          u = (if neg \<or> startswith t ''+'' then tl t else t);
          ps = split_on (CHR ''_'') u
      in if list_all (\<lambda>p. p \<noteq> [] \<and> list_all ascii_digit p) ps
         then Some ((if neg then - 1 else 1) * digits_value (concat ps)) else None)"

declare code_def [pystr] is_space_def [pystr] ascii_digit_def [pystr] isdigit_char_def [pystr]
  isdigit_def [pystr] isalpha_char_def [pystr] isalnum_char_def [pystr] lower_char_def [pystr]
  lower_def [pystr] rstrip_by_def [pystr] strip_def [pystr] rstrip_char_def [pystr]
  strip_char_def [pystr] remove_char_def [pystr] startswith_def [pystr] endswith_def [pystr]
  is_ascii_def [pystr] digits10.simps [pystr] str_int_def [pystr] zfill_def [pystr]
  digits_value_def [pystr] int_of_str_def [pystr]

section \<open>Numbers\<close>

definition py_trunc :: "rat \<Rightarrow> int" where
  \<comment> \<open>\<open>int(x)\<close> of a float: towards zero\<close>
  "py_trunc x = (if 0 \<le> x then \<lfloor>x\<rfloor> else \<lceil>x\<rceil>)"

definition py_round :: "nat \<Rightarrow> rat \<Rightarrow> rat" where
  \<comment> \<open>\<open>round(x, n)\<close>: ties to the even neighbour\<close>
  "py_round n x =
     (let y = x * 10 ^ n; f = \<lfloor>y\<rfloor>; d = y - of_int f
      in of_int (if d < 1 / 2 then f else if 1 / 2 < d then f + 1 else if even f then f else f + 1)
         / 10 ^ n)"

definition sql_round :: "nat \<Rightarrow> rat \<Rightarrow> rat" where
  \<comment> \<open>SQLite's \<open>ROUND(x, n)\<close>: ties away from zero\<close>
  "sql_round n x =
     (let y = of_int \<lfloor>\<bar>x\<bar> * 10 ^ n + 1 / 2\<rfloor> / 10 ^ n in if x < 0 then - y else y)"

declare py_trunc_def [pynum] py_round_def [pynum] sql_round_def [pynum]

section \<open>JSON values and exceptions\<close>

datatype pyfloat = Fin rat | PosInf | NegInf | NaN

datatype json =
    JNull | JBool bool | JInt int | JFloat pyfloat | JStr string
  | JArr "json list" | JObj "(string \<times> json) list"

datatype exc =
    HTTPException nat string
  | AuthError string nat "string list"
  | RPCError string nat
  | ValueError string
  | TypeError
  | AttributeError
  | KeyError string
  | OverflowError
  | SysExit string

type_synonym 'a res = "exc + 'a"
type_synonym ('d, 'a) io = "'d \<times> 'a res"

fun truthy :: "json \<Rightarrow> bool" where
  "truthy JNull = False"
| "truthy (JBool b) = b"
| "truthy (JInt i) = (i \<noteq> 0)"
| "truthy (JFloat f) = (f \<noteq> Fin 0)"
| "truthy (JStr s) = (s \<noteq> [])"
| "truthy (JArr xs) = (xs \<noteq> [])"
| "truthy (JObj kvs) = (kvs \<noteq> [])"

fun jget :: "json \<Rightarrow> string \<Rightarrow> json option" where
  \<comment> \<open>\<open>d.get(k)\<close> of a dict; every other value has no such method\<close>
  "jget (JObj kvs) k = Some (case map_of kvs k of None \<Rightarrow> JNull | Some v \<Rightarrow> v)"
| "jget _ k = None"

section \<open>Dictionaries\<close>

text \<open>A Python dict keeps insertion order: a new key goes to the end, an old one keeps its place.\<close>

type_synonym ('k, 'v) dict = "('k \<times> 'v) list"

definition dget :: "('k, 'v) dict \<Rightarrow> 'k \<Rightarrow> 'v option" where
  "dget d k = map_of d k"

fun dput :: "'k \<Rightarrow> 'v \<Rightarrow> ('k, 'v) dict \<Rightarrow> ('k, 'v) dict" where
  "dput k v [] = [(k, v)]"
| "dput k v (p # d) = (if fst p = k then (k, v) # d else p # dput k v d)"

definition ddel :: "'k \<Rightarrow> ('k, 'v) dict \<Rightarrow> ('k, 'v) dict" where
  "ddel k d = filter (\<lambda>p. fst p \<noteq> k) d"

definition dkeys :: "('k, 'v) dict \<Rightarrow> 'k list" where
  "dkeys d = map fst d"

definition dict_ok :: "('k, 'v) dict \<Rightarrow> bool" where
  "dict_ok d = distinct (map fst d)"

section \<open>Tables\<close>

text \<open>
  A table is the list of its rows in rowid order. \<open>INSERT\<close> into a table with an
  \<open>INTEGER PRIMARY KEY\<close> gives the row the largest key plus one.
\<close>

definition next_rowid :: "int list \<Rightarrow> int" where
  "next_rowid ids = foldr max ids 0 + 1"

definition select_one :: "('r \<Rightarrow> bool) \<Rightarrow> 'r list \<Rightarrow> 'r option" where
  "select_one p rows = (case filter p rows of [] \<Rightarrow> None | r # _ \<Rightarrow> Some r)"

definition update_where :: "('r \<Rightarrow> bool) \<Rightarrow> ('r \<Rightarrow> 'r) \<Rightarrow> 'r list \<Rightarrow> 'r list" where
  "update_where p f rows = map (\<lambda>r. if p r then f r else r) rows"

definition delete_where :: "('r \<Rightarrow> bool) \<Rightarrow> 'r list \<Rightarrow> 'r list" where
  "delete_where p rows = filter (\<lambda>r. \<not> p r) rows"

declare select_one_def [sql] update_where_def [sql] delete_where_def [sql] next_rowid_def [sql]

section \<open>Lemmas on strings\<close>

lemma startswith_iff: "startswith s p \<longleftrightarrow> (\<exists>t. s = p @ t)"
  by (auto simp: startswith_def) (metis append_take_drop_id)

lemma split_on_nonempty [simp]: "split_on d s \<noteq> []"
  by (induction s) (auto split: list.splits)

lemma join_split_on: "join_with [d] (split_on d s) = s"
proof (induction s)
  case Nil
  then show ?case by simp
next
  case (Cons c s)
  obtain p ps where sp: "split_on d s = p # ps"
    by (cases "split_on d s") auto
  with Cons show ?case
    by (cases ps) auto
qed

lemma split_on_no_sep: "p \<in> set (split_on d s) \<Longrightarrow> d \<notin> set p"
  by (induction s arbitrary: p) (auto split: list.splits if_splits)

lemma set_rstrip_by: "set (rstrip_by p s) \<subseteq> set s"
  by (auto simp: rstrip_by_def dest: set_dropWhileD)

lemma set_strip: "set (strip s) \<subseteq> set s"
  using set_rstrip_by by (fastforce simp: strip_def dest: set_dropWhileD)

lemma length_rstrip_by: "length (rstrip_by p s) \<le> length s"
  using length_dropWhile_le [of p "rev s"] by (simp add: rstrip_by_def)

lemma length_strip: "length (strip s) \<le> length s"
  using length_rstrip_by [of is_space "dropWhile is_space s"] length_dropWhile_le [of is_space s]
  by (simp add: strip_def)

lemma length_lower [simp]: "length (lower s) = length s"
  by (simp add: lower_def)

lemma rstrip_by_last: "rstrip_by p s \<noteq> [] \<Longrightarrow> \<not> p (last (rstrip_by p s))"
  using hd_dropWhile [of p "rev s"] by (simp add: rstrip_by_def last_rev del: dropWhile_eq_Nil_conv)

lemma rstrip_char_no_trailing: "\<not> endswith (rstrip_char c s) [c]"
proof
  assume e: "endswith (rstrip_char c s) [c]"
  let ?t = "rstrip_char c s"
  from e have ne: "?t \<noteq> []" by (auto simp: endswith_def)
  from e have "last ?t = c"
    by (auto simp: endswith_def last_drop dest: arg_cong [where f = last])
  with ne show False
    using rstrip_by_last [of "\<lambda>x. x = c" s] by (simp add: rstrip_char_def)
qed

section \<open>Lemmas on numbers\<close>

lemma py_trunc_of_int [simp]: "py_trunc (of_int i) = i"
  by (simp add: py_trunc_def)

lemma py_trunc_le: "0 \<le> x \<Longrightarrow> of_int (py_trunc x) \<le> x \<and> x < of_int (py_trunc x) + 1"
  using floor_correct [of x] by (simp add: py_trunc_def)

lemma abs_unscale: "0 < c \<Longrightarrow> \<bar>a * c\<bar> \<le> 1 / 2 \<Longrightarrow> \<bar>a\<bar> \<le> 1 / (2 * c)" for a c :: rat
  by (simp add: abs_mult field_simps)

lemma py_round_error: "\<bar>py_round n x - x\<bar> \<le> 1 / (2 * 10 ^ n)"
proof -
  let ?y = "x * 10 ^ n"
  have pos: "(0::rat) < 10 ^ n" by simp
  have b: "of_int \<lfloor>?y\<rfloor> \<le> ?y" "?y < of_int \<lfloor>?y\<rfloor> + 1"
    using floor_correct [of ?y] by simp_all
  have "\<bar>py_round n x * 10 ^ n - ?y\<bar> \<le> 1 / 2"
    using b by (auto simp: py_round_def Let_def abs_le_iff)
  then have "\<bar>(py_round n x - x) * 10 ^ n\<bar> \<le> 1 / 2"
    by (simp add: left_diff_distrib)
  with pos show ?thesis
    by (rule abs_unscale)
qed

lemma sql_round_error: "\<bar>sql_round n x - x\<bar> \<le> 1 / (2 * 10 ^ n)"
proof -
  let ?y = "\<bar>x\<bar> * 10 ^ n"
  let ?r = "of_int \<lfloor>?y + 1 / 2\<rfloor> / 10 ^ n :: rat"
  have pos: "(0::rat) < 10 ^ n" by simp
  have b: "of_int \<lfloor>?y + 1 / 2\<rfloor> \<le> ?y + 1 / 2" "?y + 1 / 2 < of_int \<lfloor>?y + 1 / 2\<rfloor> + 1"
    using floor_correct [of "?y + 1 / 2"] by simp_all
  have "\<bar>of_int \<lfloor>?y + 1 / 2\<rfloor> - ?y\<bar> \<le> 1 / 2"
    using b by (simp only: abs_le_iff) linarith
  then have "\<bar>?r * 10 ^ n - ?y\<bar> \<le> 1 / 2"
    by simp
  then have "\<bar>(?r - \<bar>x\<bar>) * 10 ^ n\<bar> \<le> 1 / 2"
    by (simp add: left_diff_distrib)
  with pos have "\<bar>?r - \<bar>x\<bar>\<bar> \<le> 1 / (2 * 10 ^ n)"
    by (rule abs_unscale)
  then show ?thesis
    by (auto simp: sql_round_def Let_def abs_if split: if_splits)
qed

section \<open>Lemmas on dictionaries\<close>

lemma dget_Nil [simp]: "dget [] k = None"
  by (simp add: dget_def)

lemma dget_dput: "dget (dput k v d) = (dget d)(k \<mapsto> v)"
  by (induction d) (auto simp: dget_def fun_eq_iff)

lemma dget_ddel: "dget (ddel k d) = (dget d)(k := None)"
  by (induction d) (auto simp: dget_def ddel_def fun_eq_iff)

lemma dput_in_dom: "dget d k \<noteq> None \<Longrightarrow> dkeys (dput k v d) = dkeys d"
  by (induction d) (auto simp: dget_def dkeys_def)

lemma set_dkeys: "set (dkeys d) = dom (dget d)"
  by (induction d) (auto simp: dget_def dkeys_def)

lemma fst_set_dput: "fst ` set (dput k v d) = insert k (fst ` set d)"
  by (induction d) auto

lemma dict_ok_dput: "dict_ok d \<Longrightarrow> dict_ok (dput k v d)"
  by (induction d) (auto simp: dict_ok_def fst_set_dput)

lemma dict_ok_ddel: "dict_ok d \<Longrightarrow> dict_ok (ddel k d)"
  by (simp add: dict_ok_def ddel_def distinct_map_filter)

lemma dget_mem: "dict_ok d \<Longrightarrow> (k, v) \<in> set d \<longleftrightarrow> dget d k = Some v"
  by (simp add: dict_ok_def dget_def)

section \<open>Lemmas on tables\<close>

lemma less_next_rowid: "i \<in> set ids \<Longrightarrow> i < next_rowid ids"
  by (induction ids) (auto simp: next_rowid_def max_def)

lemma next_rowid_fresh [simp]: "next_rowid ids \<notin> set ids"
  using less_next_rowid by blast

lemma next_rowid_pos [simp]: "0 < next_rowid ids"
  by (induction ids) (auto simp: next_rowid_def max_def)

lemma select_one_Some: "select_one p rows = Some r \<Longrightarrow> r \<in> set rows \<and> p r"
  by (auto simp: select_one_def split: list.splits dest: filter_eq_ConsD)

lemma select_one_None: "select_one p rows = None \<longleftrightarrow> (\<forall>r \<in> set rows. \<not> p r)"
  by (auto simp: select_one_def filter_empty_conv split: list.splits dest: filter_eq_ConsD)

lemma set_update_where: "set (update_where p f rows) = (\<lambda>r. if p r then f r else r) ` set rows"
  by (simp add: update_where_def)

lemma set_delete_where [simp]: "set (delete_where p rows) = {r \<in> set rows. \<not> p r}"
  by (auto simp: delete_where_def)

lemma map_update_where:
  "(\<And>r. r \<in> set rows \<Longrightarrow> p r \<Longrightarrow> g (f r) = g r) \<Longrightarrow> map g (update_where p f rows) = map g rows"
  by (auto simp: update_where_def)

section \<open>Interfaces\<close>

text \<open>A component whose operations all keep an invariant keeps it over every run.\<close>

locale machine =
  fixes exec :: "'op \<Rightarrow> 's \<Rightarrow> 's"
    and inv :: "'s \<Rightarrow> bool"
  assumes exec_inv: "inv s \<Longrightarrow> inv (exec op s)"
begin

lemma run_inv: "inv s \<Longrightarrow> inv (fold exec ops s)"
  by (induction ops arbitrary: s) (auto intro: exec_inv)

end

text \<open>A dictionary: what a lookup returns after a store or a removal.\<close>

locale dictionary =
  fixes get :: "'d \<Rightarrow> 'k \<Rightarrow> 'v option"
    and put :: "'k \<Rightarrow> 'v \<Rightarrow> 'd \<Rightarrow> 'd"
    and del :: "'k \<Rightarrow> 'd \<Rightarrow> 'd"
    and ok :: "'d \<Rightarrow> bool"
  assumes get_put: "get (put k v d) = (get d)(k \<mapsto> v)"
    and get_del: "get (del k d) = (get d)(k := None)"
    and ok_put: "ok d \<Longrightarrow> ok (put k v d)"
    and ok_del: "ok d \<Longrightarrow> ok (del k d)"
begin

lemma get_fold_del: "get (fold del ks d) = (\<lambda>k. if k \<in> set ks then None else get d k)"
  by (induction ks arbitrary: d) (auto simp: get_del fun_eq_iff)

lemma ok_fold_del: "ok d \<Longrightarrow> ok (fold del ks d)"
  by (induction ks arbitrary: d) (auto intro: ok_del)

end

interpretation pydict: dictionary dget dput ddel dict_ok
  by unfold_locales (simp_all add: dget_dput dget_ddel dict_ok_dput dict_ok_ddel)

end
