(* ===== verification/Config.thy ===== *)
theory Config
  imports Prelude
begin

text \<open>
  The hub's settings (\<open>hub/icsd_hub/config.py\<close>), read from the environment. The environment is a
  parameter: a lookup function from variable names to values.
\<close>

type_synonym environ = "string \<Rightarrow> string option"

definition env_bool :: "environ \<Rightarrow> string \<Rightarrow> bool \<Rightarrow> bool" where
  "env_bool env name dflt =
     (case env name of
        None \<Rightarrow> dflt
      | Some v \<Rightarrow> lower (strip v) \<in> {''1'', ''true'', ''yes'', ''on''})"

definition env_get :: "environ \<Rightarrow> string \<Rightarrow> string \<Rightarrow> string" where
  "env_get env name dflt = (case env name of None \<Rightarrow> dflt | Some v \<Rightarrow> v)"

record config =
  data_dir :: string
  public_url :: string
  dist_dir :: string
  require_2fa :: bool
  secure_cookies :: bool
  sample_interval :: int
  session_idle_hours :: int
  session_max_days :: int
  keep_minutes_days :: int
  keep_hours_days :: int
  keep_events_days :: int

definition Settings_post_init :: "environ \<Rightarrow> config \<Rightarrow> config" where
  "Settings_post_init env s =
     s\<lparr>secure_cookies :=
          (case env ''ICSD_SECURE_COOKIES'' of
             None \<Rightarrow> startswith (public_url s) ''https://''
           | Some v \<Rightarrow> if v = [] then startswith (public_url s) ''https://''
                       else env_bool env ''ICSD_SECURE_COOKIES'' True),
       sample_interval := max 2 (min (sample_interval s) 60)\<rparr>"

definition Settings :: "environ \<Rightarrow> config res" where
  "Settings env =
     (case int_of_str (env_get env ''ICSD_SAMPLE_INTERVAL'' ''5'') of
        None \<Rightarrow> Inl (ValueError ''invalid literal for int()'')
      | Some i \<Rightarrow>
          Inr (Settings_post_init env
            \<lparr>data_dir = env_get env ''ICSD_DATA_DIR'' ''./data'',
             public_url = rstrip_char (CHR ''/'') (env_get env ''ICSD_PUBLIC_URL'' ''''),
             dist_dir = env_get env ''ICSD_DIST_DIR'' ''./dist'',
             require_2fa = env_bool env ''ICSD_REQUIRE_2FA'' True,
             secure_cookies = False,
             sample_interval = i,
             session_idle_hours = 12, session_max_days = 7,
             keep_minutes_days = 15, keep_hours_days = 400, keep_events_days = 180\<rparr>))"

definition db_path :: "config \<Rightarrow> string" where
  "db_path s = data_dir s @ ''/hub.db''"

text \<open>
  Whatever the environment says, the settings the hub runs with are sane: a sampling interval of 2
  to 60 seconds, a public address without a trailing slash, and two-factor login and secure cookies on
  unless they are switched off explicitly.
\<close>

theorem settings_sane:
  assumes "Settings env = Inr s"
  shows "2 \<le> sample_interval s \<and> sample_interval s \<le> 60
    \<and> \<not> endswith (public_url s) ''/''
    \<and> (env ''ICSD_REQUIRE_2FA'' = None \<longrightarrow> require_2fa s)
    \<and> (env ''ICSD_SECURE_COOKIES'' = None \<longrightarrow>
         secure_cookies s = startswith (public_url s) ''https://'')"
  using assms rstrip_char_no_trailing
  by (auto simp: Settings_def Settings_post_init_def env_bool_def split: option.splits)

theorem settings_sane_witness:
  "\<exists>s. Settings (\<lambda>n. if n = ''ICSD_PUBLIC_URL'' then Some ''https://p.ir/'' else None) = Inr s \<and>
       secure_cookies s \<and> require_2fa s \<and> sample_interval s = 5"
proof -
  let ?env = "\<lambda>n. if n = ''ICSD_PUBLIC_URL'' then Some ''https://p.ir/'' else None"
  obtain s where s: "Settings ?env = Inr s" and i: "sample_interval s = 5"
      and u: "public_url s = ''https://p.ir''"
    by (simp add: Settings_def Settings_post_init_def env_get_def pystr)
  show ?thesis
    using settings_sane [OF s] s i u by (auto simp: startswith_def)
qed

end
