(* ===== verification/Security.thy ===== *)
theory Security
  imports Prelude "HOL-Library.Word"
begin

unbundle bit_operations_syntax

text \<open>
  Passwords, digests and one-time codes (\<open>hub/icsd_hub/security.py\<close>). The digest functions and bcrypt
  are parameters, collected in the record \<open>crypto\<close>; base32, HOTP truncation (RFC 4226), the TOTP window
  and the provisioning address are modelled.
\<close>

type_synonym byte = "8 word"

record crypto =
  c_sha256 :: "string \<Rightarrow> string"
  c_hmac_sha1 :: "byte list \<Rightarrow> byte list \<Rightarrow> byte list"
  c_hashpw :: "string \<Rightarrow> string"
  c_checkpw :: "string \<Rightarrow> string \<Rightarrow> bool option"
  c_dummy_hash :: string

definition MIN_PASSWORD :: nat where
  "MIN_PASSWORD = 10"

definition hash_password :: "crypto \<Rightarrow> string \<Rightarrow> string" where
  "hash_password cr password = c_hashpw cr password"

definition verify_password :: "crypto \<Rightarrow> string \<Rightarrow> string \<Rightarrow> bool" where
  \<comment> \<open>\<open>None\<close> stands for the \<open>ValueError\<close> or \<open>TypeError\<close> of \<open>bcrypt.checkpw\<close>\<close>
  "verify_password cr password hashed =
     (case c_checkpw cr password hashed of None \<Rightarrow> False | Some b \<Rightarrow> b)"

definition sha256 :: "crypto \<Rightarrow> string \<Rightarrow> string" where
  "sha256 cr v = c_sha256 cr v"

definition same :: "string \<Rightarrow> string \<Rightarrow> bool" where
  "same a b = (a = b)"

section \<open>Base32\<close>

definition b32_alphabet :: string where
  "b32_alphabet = ''ABCDEFGHIJKLMNOPQRSTUVWXYZ234567''"

definition b32_char :: "nat \<Rightarrow> char" where
  "b32_char v = (if v < 26 then char_of (65 + v) else char_of (24 + v))"

definition b32_val :: "char \<Rightarrow> nat option" where
  "b32_val c = (let n = code c in
     if 65 \<le> n \<and> n \<le> 90 then Some (n - 65) else if 50 \<le> n \<and> n \<le> 55 then Some (n - 24) else None)"

fun to_bits :: "nat \<Rightarrow> nat \<Rightarrow> bool list" where
  \<comment> \<open>the \<open>w\<close> low bits of a number, most significant first\<close>
  "to_bits 0 v = []"
| "to_bits (Suc w) v = odd (v div 2 ^ w) # to_bits w v"

fun of_bits :: "bool list \<Rightarrow> nat" where
  "of_bits [] = 0"
| "of_bits (b # bs) = of_bool b * 2 ^ length bs + of_bits bs"

fun chunks :: "nat \<Rightarrow> 'a list \<Rightarrow> 'a list list" where
  \<comment> \<open>full chunks of \<open>n + 1\<close> elements; a shorter rest is dropped\<close>
  "chunks n xs = (if length xs \<le> n then [] else take (Suc n) xs # chunks n (drop (Suc n) xs))"

declare chunks.simps [simp del]

definition b32encode_unpadded :: "byte list \<Rightarrow> string" where
  \<comment> \<open>\<open>base64.b32encode(raw).decode().rstrip("=")\<close>, for whole groups of five bytes\<close>
  "b32encode_unpadded bs =
     map (b32_char \<circ> of_bits) (chunks 4 (concat (map (to_bits 8 \<circ> unat) bs)))"

definition b32decode :: "string \<Rightarrow> byte list res" where
  "b32decode s =
     (let body = rstrip_char (CHR ''='') s; pad = length s - length body in
      if length s mod 8 \<noteq> 0 then Inl (ValueError ''Incorrect padding'')
      else case those (map b32_val body) of
        None \<Rightarrow> Inl (ValueError ''Non-base32 digit found'')
      | Some vs \<Rightarrow>
          if pad \<in> {0, 1, 3, 4, 6}
          then Inr (map (word_of_nat \<circ> of_bits) (chunks 7 (concat (map (to_bits 5) vs))))
          else Inl (ValueError ''Incorrect padding''))"

definition ascii_upper_char :: "char \<Rightarrow> char" where
  "ascii_upper_char c = (if 97 \<le> code c \<and> code c \<le> 122 then char_of (code c - 32) else c)"

definition totp_key :: "string \<Rightarrow> byte list res" where
  "totp_key secret =
     b32decode (map ascii_upper_char secret @ replicate ((8 - length secret mod 8) mod 8) (CHR ''=''))"

definition new_totp_secret :: "byte list \<Rightarrow> string" where
  \<comment> \<open>the argument is \<open>secrets.token_bytes(20)\<close>\<close>
  "new_totp_secret raw = b32encode_unpadded raw"

section \<open>HOTP and TOTP\<close>

definition pack_be64 :: "int \<Rightarrow> byte list" where
  "pack_be64 n = map (\<lambda>i. word_of_int (n div 256 ^ i)) [7, 6, 5, 4, 3, 2, 1, 0]"

definition be_value :: "byte list \<Rightarrow> int" where
  "be_value bs = foldl (\<lambda>a b. 256 * a + uint b) 0 bs"

definition hotp :: "crypto \<Rightarrow> string \<Rightarrow> int \<Rightarrow> string res" where
  "hotp cr secret counter =
     (case totp_key secret of
        Inl e \<Rightarrow> Inl e
      | Inr key \<Rightarrow>
          if counter < 0 \<or> 2 ^ 64 \<le> counter then Inl (ValueError ''struct.error'')
          else
            let digest = c_hmac_sha1 cr key (pack_be64 counter) in
            if digest = [] then Inl (ValueError ''index out of range'')
            else
              let off = unat (last digest AND 15);
                  part = take 4 (drop off digest)
              in if length part \<noteq> 4 then Inl (ValueError ''struct.error'')
                 else Inr (zfill 6 (digits10 ((be_value part mod 2 ^ 31) mod 1000000))))"

definition compare_digest_str :: "string \<Rightarrow> string \<Rightarrow> bool res" where
  \<comment> \<open>\<open>hmac.compare_digest\<close> of two \<open>str\<close> refuses non-ASCII text\<close>
  "compare_digest_str a b = (if is_ascii a \<and> is_ascii b then Inr (a = b) else Inl TypeError)"

fun totp_scan :: "crypto \<Rightarrow> string \<Rightarrow> string \<Rightarrow> int \<Rightarrow> int list \<Rightarrow> int res" where
  "totp_scan cr secret c last_step [] = Inr 0"
| "totp_scan cr secret c last_step (s # ss) =
     (if last_step < s then
        (case hotp cr secret s of
           Inl e \<Rightarrow> Inl e
         | Inr h \<Rightarrow>
             (case compare_digest_str h c of
                Inl e \<Rightarrow> Inl e
              | Inr b \<Rightarrow> if b then Inr s else totp_scan cr secret c last_step ss))
      else totp_scan cr secret c last_step ss)"

definition totp_step :: "rat \<Rightarrow> int" where
  "totp_step tm = \<lfloor>tm / 30\<rfloor>"

definition clean_code :: "string \<Rightarrow> string" where
  "clean_code c = remove_char (CHR '' '') (strip c)"

definition verify_totp :: "crypto \<Rightarrow> string \<Rightarrow> string \<Rightarrow> int \<Rightarrow> rat \<Rightarrow> int res" where
  "verify_totp cr secret c0 last_step tm =
     (let c = clean_code c0 in
      if length c \<noteq> 6 \<or> \<not> isdigit c then Inr 0
      else let step = totp_step tm
           in totp_scan cr secret c last_step [step - 1, step, step + 1])"

definition totp_now :: "crypto \<Rightarrow> string \<Rightarrow> rat \<Rightarrow> string res" where
  "totp_now cr secret tm = hotp cr secret (totp_step tm)"

section \<open>Provisioning address\<close>

definition utf8_char :: "char \<Rightarrow> nat list" where
  "utf8_char c = (let n = code c in if n < 128 then [n] else [192 + n div 64, 128 + n mod 64])"

definition hex_digit :: "nat \<Rightarrow> char" where
  "hex_digit n = (if n < 10 then char_of (48 + n) else char_of (55 + n))"

definition quote_safe :: "nat \<Rightarrow> bool" where
  "quote_safe n = (48 \<le> n \<and> n \<le> 57 \<or> 65 \<le> n \<and> n \<le> 90 \<or> 97 \<le> n \<and> n \<le> 122 \<or> n \<in> {45, 46, 47, 95, 126})"

definition quote :: "string \<Rightarrow> string" where
  "quote s = concat (map (\<lambda>n. if quote_safe n then [char_of n]
     else [CHR ''%'', hex_digit (n div 16), hex_digit (n mod 16)]) (concat (map utf8_char s)))"

definition totp_uri :: "string \<Rightarrow> string \<Rightarrow> string" where
  "totp_uri secret account =
     ''otpauth://totp/'' @ quote ''ICSD Panel'' @ '':'' @ quote account @ ''?secret='' @ secret @
     ''&issuer='' @ quote ''ICSD Panel'' @ ''&algorithm=SHA1&digits=6&period=30''"

section \<open>Base32 round trip\<close>

lemma length_to_bits [simp]: "length (to_bits w v) = w"
  by (induction w) auto

lemma of_bits_less: "of_bits bs < 2 ^ length bs"
  by (induction bs) (auto simp: of_bool_def)

lemma of_bits_to_bits: "of_bits (to_bits w v) = v mod 2 ^ w"
proof (induction w)
  case 0
  then show ?case by simp
next
  case (Suc w)
  have "v mod 2 ^ Suc w = of_bool (odd (v div 2 ^ w)) * 2 ^ w + v mod 2 ^ w"
    using mod_mult2_eq [of v "2 ^ w" 2] by (simp only: power_Suc2 mod_2_eq_odd mult.commute add.commute)
  then show ?case by (simp add: Suc)
qed

lemma to_bits_mod: "to_bits w (v mod 2 ^ k) = to_bits w v" if "w \<le> k"
  using that
proof (induction w)
  case (Suc w)
  then have "odd (v mod 2 ^ k div 2 ^ w) = odd (v div 2 ^ w)"
    using Suc.prems by (simp add: even_drop_bit_iff_not_bit bit_take_bit_iff flip: take_bit_eq_mod drop_bit_eq_div)
  with Suc show ?case by simp
qed simp

lemma to_bits_of_bits: "to_bits (length bs) (of_bits bs) = bs"
proof (induction bs)
  case (Cons b bs)
  let ?v = "of_bits (b # bs)" and ?n = "length bs"
  have "to_bits ?n ?v = to_bits ?n (?v mod 2 ^ ?n)"
    by (rule to_bits_mod [symmetric]) simp
  also have "?v mod 2 ^ ?n = of_bits bs"
    by (simp add: of_bits_less)
  finally have rest: "to_bits ?n ?v = bs"
    by (simp only: Cons)
  have "?v div 2 ^ ?n = of_bool b"
    by (simp add: of_bits_less)
  then have "odd (?v div 2 ^ ?n) = b" by simp
  with rest show ?case by (simp only: list.size to_bits.simps add_Suc_right add_0_right)
qed simp

lemma concat_chunks: "Suc n dvd length xs \<Longrightarrow> concat (chunks n xs) = xs"
proof (induction n xs rule: chunks.induct)
  case (1 n xs)
  show ?case
  proof (cases "length xs \<le> n")
    case True
    with 1(2) have "xs = []" by (auto dest: dvd_imp_le)
    then show ?thesis by (simp add: chunks.simps)
  next
    case False
    then have "Suc n dvd length (drop (Suc n) xs)"
      using 1(2) by (auto simp: dvd_diff_nat)
    with False 1(1) show ?thesis
      by (simp add: chunks.simps [of n xs])
  qed
qed

lemma chunk_length: "c \<in> set (chunks n xs) \<Longrightarrow> length c = Suc n"
proof (induction n xs rule: chunks.induct)
  case (1 n xs)
  then show ?case
    by (cases "length xs \<le> n") (auto simp: chunks.simps [of n xs])
qed

lemma chunks_concat: "(\<forall>c \<in> set cs. length c = Suc n) \<Longrightarrow> chunks n (concat cs) = cs"
proof (induction cs)
  case Nil
  then show ?case by (simp add: chunks.simps)
next
  case (Cons c cs)
  then have c: "length c = Suc n" and rest: "chunks n (concat cs) = cs" by auto
  have "chunks n (c @ concat cs) = take (Suc n) (c @ concat cs) # chunks n (drop (Suc n) (c @ concat cs))"
    by (subst chunks.simps) (simp add: c)
  with c rest show ?case by simp
qed

lemma b32_val_char: "v < 32 \<Longrightarrow> b32_val (b32_char v) = Some v"
  by (auto simp: b32_val_def b32_char_def code_def Let_def)

lemma b32_char_not_pad: "v < 32 \<Longrightarrow> b32_char v \<noteq> CHR ''=''"
proof
  assume v: "v < 32" and "b32_char v = CHR ''=''"
  then have "b32_val (CHR ''='') = Some v" using b32_val_char [OF v] by simp
  then show False by (simp add: b32_val_def code_def)
qed

lemma b32_char_upper: "v < 32 \<Longrightarrow> ascii_upper_char (b32_char v) = b32_char v"
  by (auto simp: ascii_upper_char_def b32_char_def code_def)

lemma rstrip_char_none: "(\<forall>x \<in> set s. x \<noteq> c) \<Longrightarrow> rstrip_char c s = s"
proof -
  assume "\<forall>x \<in> set s. x \<noteq> c"
  then have "dropWhile (\<lambda>x. x = c) (rev s) = rev s"
    by (cases s rule: rev_cases) auto
  then show ?thesis by (simp add: rstrip_char_def rstrip_by_def)
qed

lemma those_map_Some: "(\<forall>x \<in> set xs. f x = Some (g x)) \<Longrightarrow> those (map f xs) = Some (map g xs)"
  by (induction xs) auto

lemma concat_map_length: "(\<forall>x \<in> set xs. length (f x) = k) \<Longrightarrow> length (concat (map f xs)) = k * length xs"
  by (induction xs) auto

lemma length_chunks: "length (chunks n xs) = length xs div Suc n"
proof (induction n xs rule: chunks.induct)
  case (1 n xs)
  show ?case
  proof (cases "length xs \<le> n")
    case True
    then show ?thesis by (simp add: chunks.simps)
  next
    case False
    with 1 show ?thesis
      by (simp add: chunks.simps [of n xs] le_div_geq)
  qed
qed

text \<open>
  The shared secret survives its text form: the 20 random bytes behind a new TOTP secret are exactly
  the key that HOTP later decodes from the stored base32 text (any whole number of 5-byte groups does).
\<close>

theorem totp_secret_roundtrip:
  assumes "5 dvd length raw"
  shows "totp_key (new_totp_secret raw) = Inr raw"
proof -
  let ?bits = "concat (map (to_bits 8 \<circ> unat) raw)"
  let ?vals = "map of_bits (chunks 4 ?bits)"
  let ?s = "map b32_char ?vals"
  have len: "length ?bits = 8 * length raw" by (simp add: concat_map_length)
  have small: "\<forall>v \<in> set ?vals. v < 32"
  proof -
    have "of_bits c < 32" if "c \<in> set (chunks 4 ?bits)" for c
      using of_bits_less [of c] chunk_length [OF that] by simp
    then show ?thesis by simp
  qed
  have s: "new_totp_secret raw = ?s" by (simp add: new_totp_secret_def b32encode_unpadded_def)
  obtain m where m: "length raw = 5 * m" using assms by (elim dvdE)
  have ls: "length ?s mod 8 = 0" by (simp add: length_chunks len m)
  have up: "map ascii_upper_char ?s = ?s" using small by (auto simp: b32_char_upper)
  have strip: "rstrip_char (CHR ''='') ?s = ?s"
    using small b32_char_not_pad by (intro rstrip_char_none) auto
  have vals: "those (map b32_val ?s) = Some ?vals"
    using small b32_val_char those_map_Some [of ?vals "b32_val \<circ> b32_char" "\<lambda>v. v"]
    by (simp add: comp_assoc)
  have "map (to_bits 5) ?vals = chunks 4 ?bits"
  proof -
    have "to_bits 5 (of_bits c) = c" if "c \<in> set (chunks 4 ?bits)" for c
      using to_bits_of_bits [of c] chunk_length [OF that] by simp
    then show ?thesis by (simp add: map_idI)
  qed
  then have bits: "concat (map (to_bits 5) ?vals) = ?bits"
    using concat_chunks [of 4 ?bits] by (simp add: len m)
  have "chunks 7 ?bits = map (to_bits 8 \<circ> unat) raw"
    by (intro chunks_concat) auto
  moreover have "(word_of_nat \<circ> of_bits) (to_bits 8 (unat b)) = b" for b :: byte
    using unsigned_less [of b, where ?'a = nat] by (simp add: of_bits_to_bits)
  ultimately have "map (word_of_nat \<circ> of_bits) (chunks 7 ?bits) = raw"
    by (simp add: map_idI)
  then show ?thesis
    unfolding totp_key_def s b32decode_def Let_def up using ls strip vals bits by simp
qed

theorem totp_secret_roundtrip_witness:
  "5 dvd length [1, 2, 3, 4, 255 :: byte] \<and> totp_key (new_totp_secret [1, 2, 3, 4, 255]) = Inr [1, 2, 3, 4, 255]"
proof -
  have h: "5 dvd length [1, 2, 3, 4, 255 :: byte]" by code_simp
  show ?thesis using h totp_secret_roundtrip [OF h] by (rule conjI)
qed

section \<open>One-time codes\<close>

lemma digits10_ascii: "0 \<le> n \<Longrightarrow> list_all ascii_digit (digits10 n)"
proof (induction n rule: digits10.induct)
  case (1 n)
  have "ascii_digit (char_of (48 + nat d))" if "0 \<le> d" "d < 10" for d
    using that by (auto simp: ascii_digit_def code_def)
  with 1 show ?case
    by (cases "n < 10") (auto simp: digits10.simps [of n])
qed

lemma length_digits10: "n < 10 ^ Suc k \<Longrightarrow> length (digits10 n) \<le> Suc k"
proof (induction k arbitrary: n)
  case 0
  then show ?case by (simp add: digits10.simps)
next
  case (Suc k)
  show ?case
  proof (cases "n < 10")
    case True
    then show ?thesis by (simp add: digits10.simps)
  next
    case False
    have "n div 10 < 10 ^ Suc k" using Suc.prems by (simp add: div_less_iff_less_mult)
    then show ?thesis using Suc.IH [of "n div 10"] False by (simp add: digits10.simps [of n])
  qed
qed

lemma digits_is_ascii: "list_all ascii_digit s \<Longrightarrow> is_ascii s"
  by (auto simp: is_ascii_def ascii_digit_def list_all_iff)

lemma hotp_six_digits:
  assumes "hotp cr secret n = Inr h"
  shows "length h = 6 \<and> list_all ascii_digit h"
proof -
  from assms obtain w where w: "h = zfill 6 (digits10 (w mod 1000000))"
    by (auto simp: hotp_def Let_def split: sum.splits if_splits)
  define v where "v = w mod 1000000"
  have v: "0 \<le> v" "v < 1000000" and h: "h = zfill 6 (digits10 v)"
    by (simp_all add: v_def w)
  have "length (digits10 v) \<le> 6"
    using length_digits10 [of v 5] v by simp
  then show ?thesis
    using digits10_ascii [OF v(1)]
    by (auto simp: h zfill_def list_all_iff ascii_digit_def code_def)
qed

lemma totp_scan_sound:
  "totp_scan cr secret c l ss = Inr s \<Longrightarrow> s \<noteq> 0 \<Longrightarrow> s \<in> set ss \<and> l < s \<and> hotp cr secret s = Inr c"
  by (induction ss) (auto simp: compare_digest_str_def split: if_splits sum.splits)

lemma totp_scan_no_error:
  assumes "is_ascii c" and "\<forall>s \<in> set ss. l < s \<longrightarrow> (\<exists>h. hotp cr secret s = Inr h)"
  shows "\<exists>s. totp_scan cr secret c l ss = Inr s"
  using assms(2)
proof (induction ss)
  case (Cons s ss)
  then show ?case
    using assms(1) hotp_six_digits digits_is_ascii
    by (fastforce simp: compare_digest_str_def split: sum.splits)
qed simp

lemma totp_scan_complete:
  assumes "is_ascii c" and "\<forall>s \<in> set ss. l < s \<longrightarrow> (\<exists>h. hotp cr secret s = Inr h)"
    and "s \<in> set ss" "l < s" "hotp cr secret s = Inr c" "0 \<notin> set ss"
  shows "\<exists>s'. totp_scan cr secret c l ss = Inr s' \<and> s' \<noteq> 0"
  using assms(2-)
proof (induction ss)
  case (Cons x ss)
  show ?case
  proof (cases "l < x \<and> hotp cr secret x = Inr c")
    case True
    then show ?thesis using assms(1) Cons.prems by (auto simp: compare_digest_str_def)
  next
    case False
    then have IH: "\<exists>s'. totp_scan cr secret c l ss = Inr s' \<and> s' \<noteq> 0"
      using Cons by auto
    show ?thesis
    proof (cases "l < x")
      case True
      then obtain h where h: "hotp cr secret x = Inr h" using Cons.prems by auto
      with False True have "h \<noteq> c" by auto
      then show ?thesis
        using IH True h assms(1) hotp_six_digits [OF h] digits_is_ascii
        by (auto simp: compare_digest_str_def)
    qed (use IH in simp)
  qed
qed simp

lemmas verify_totp_unfold = verify_totp_def Let_def

lemma verify_totp_sound:
  assumes "verify_totp cr secret c last_step tm = Inr s" and "s \<noteq> 0"
  shows "last_step < s \<and> \<bar>s - totp_step tm\<bar> \<le> 1 \<and> hotp cr secret s = Inr (clean_code c)"
  using assms totp_scan_sound [of cr secret "clean_code c" last_step "[totp_step tm - 1, totp_step tm, totp_step tm + 1]" s]
  by (auto simp: verify_totp_unfold simp del: totp_scan.simps split: if_splits)

subsection \<open>Replay protection as an interface\<close>

text \<open>
  \<open>otp_session\<close> runs a series of attempts the way login, elevation and re-enrolment of the second factor
  do: every accepted step becomes the new \<open>totp_last\<close>. It returns the accepted steps.
\<close>

fun otp_session :: "('c \<Rightarrow> int \<Rightarrow> rat \<Rightarrow> int res) \<Rightarrow> int \<Rightarrow> ('c \<times> rat) list \<Rightarrow> int list" where
  "otp_session verify l [] = []"
| "otp_session verify l ((c, tm) # rest) =
     (case verify c l tm of
        Inl e \<Rightarrow> otp_session verify l rest
      | Inr s \<Rightarrow> if s = 0 then otp_session verify l rest else s # otp_session verify s rest)"

locale otp_verifier =
  fixes verify :: "'c \<Rightarrow> int \<Rightarrow> rat \<Rightarrow> int res"
  assumes fresh: "verify c l tm = Inr s \<Longrightarrow> s \<noteq> 0 \<Longrightarrow> l < s"
begin

lemma session_above: "s \<in> set (otp_session verify l xs) \<Longrightarrow> l < s"
  by (induction xs arbitrary: l)
    (fastforce split: sum.splits if_splits dest: fresh)+

lemma session_increasing: "sorted_wrt (<) (otp_session verify l xs)"
  by (induction xs arbitrary: l) (auto split: sum.splits dest: session_above)

end

interpretation totp: otp_verifier "verify_totp cr secret" for cr secret
  by unfold_locales (use verify_totp_sound in blast)

text \<open>
  C7. No one-time code works twice: however many attempts are made, at whatever times, the time steps
  accepted for one secret are strictly increasing and later than the step stored before.
\<close>

theorem totp_steps_strictly_increase:
  "sorted_wrt (<) (last_step # otp_session (verify_totp cr secret) last_step attempts)"
  using totp.session_increasing totp.session_above by simp

definition demo_crypto :: crypto where
  \<comment> \<open>a concrete instance of the digest parameters, for evaluating closed examples\<close>
  "demo_crypto = \<lparr>c_sha256 = (\<lambda>s. ''#'' @ s), c_hmac_sha1 = (\<lambda>k m. replicate 19 (last m) @ [0]),
     c_hashpw = (\<lambda>p. ''$'' @ p), c_checkpw = (\<lambda>p h. Some (h = ''$'' @ p)), c_dummy_hash = ''''\<rparr>"

text \<open>
  The current code always works when it has not been used: with a decodable secret, a correct
  six-digit code for the current step is accepted as long as no later step was used before.
\<close>

theorem verify_totp_accepts_current:
  assumes "\<And>n. 0 \<le> n \<Longrightarrow> n < 2 ^ 64 \<Longrightarrow> \<exists>h. hotp cr secret n = Inr h"
    and "60 \<le> tm" "totp_step tm + 1 < 2 ^ 64"
    and "last_step < totp_step tm" and "totp_now cr secret tm = Inr c"
  shows "\<exists>s. verify_totp cr secret c last_step tm = Inr s \<and> s \<noteq> 0"
proof -
  let ?n = "totp_step tm"
  have n: "2 \<le> ?n" using assms(2) by (simp add: totp_step_def le_floor_iff)
  have h: "hotp cr secret ?n = Inr c" using assms(5) by (simp add: totp_now_def)
  note six = hotp_six_digits [OF h]
  have nosp: "\<not> is_space x \<and> x \<noteq> CHR '' ''" if "x \<in> set c" for x
    using six that by (auto simp: list_all_iff ascii_digit_def is_space_def code_def Let_def)
  have dw: "dropWhile is_space xs = xs" if "set xs \<subseteq> set c" for xs
    using that nosp by (cases xs) auto
  have "strip c = c" by (simp add: strip_def rstrip_by_def dw)
  then have c: "clean_code c = c"
    using nosp by (simp add: clean_code_def remove_char_def filter_id_conv)
  have dig: "isdigit c" using six by (auto simp: isdigit_def isdigit_char_def list_all_iff)
  have "\<exists>s'. totp_scan cr secret c last_step [?n - 1, ?n, ?n + 1] = Inr s' \<and> s' \<noteq> 0"
    using assms(1,3,4) n h six
    by (intro totp_scan_complete [where s = ?n]) (auto intro: digits_is_ascii)
  then show ?thesis using six dig by (simp add: verify_totp_unfold c del: totp_scan.simps)
qed

lemma demo_hotp_total: "0 \<le> n \<Longrightarrow> n < 2 ^ 64 \<Longrightarrow> \<exists>h. hotp demo_crypto ''AAAAAAAA'' n = Inr h"
proof -
  assume n: "0 \<le> n" "n < 2 ^ 64"
  have k: "totp_key ''AAAAAAAA'' = Inr [0, 0, 0, 0, 0]" by code_simp
  show ?thesis using n by (simp add: hotp_def k demo_crypto_def Let_def)
qed

theorem verify_totp_accepts_current_witness:
  "\<exists>s. verify_totp demo_crypto ''AAAAAAAA'' ''686018'' 1 70 = Inr s \<and> s \<noteq> 0"
proof -
  have c: "totp_now demo_crypto ''AAAAAAAA'' 70 = Inr ''686018''" by code_simp
  have st: "totp_step 70 = 2" by code_simp
  show ?thesis
    by (rule verify_totp_accepts_current [OF demo_hotp_total _ _ _ c]) (simp_all add: st)
qed

text \<open>
  C9. A six-character code with a non-ASCII digit (Persian and Arabic-Indic digits, superscripts)
  passes the \<open>isdigit\<close> check and then makes the comparison raise \<open>TypeError\<close> instead of being rejected as
  a wrong code.
\<close>

theorem verify_totp_non_ascii_raises:
  assumes "length (clean_code c) = 6" "isdigit (clean_code c)" "\<not> is_ascii (clean_code c)"
    and "last_step < totp_step tm - 1" "hotp cr secret (totp_step tm - 1) = Inr h"
  shows "verify_totp cr secret c last_step tm = Inl TypeError"
  using assms by (simp add: verify_totp_unfold compare_digest_str_def)

theorem verify_totp_non_ascii_raises_witness:
  "verify_totp demo_crypto ''AAAAAAAA'' (''12345'' @ [char_of (178::nat)]) 0 70 = Inl TypeError"
proof -
  let ?c = "''12345'' @ [char_of (178::nat)]"
  have h: "hotp demo_crypto ''AAAAAAAA'' (totp_step 70 - 1) = Inr ''843009''" by code_simp
  have c: "length (clean_code ?c) = 6" "isdigit (clean_code ?c)" "\<not> is_ascii (clean_code ?c)" by code_simp+
  have l: "0 < totp_step 70 - 1" by code_simp
  show ?thesis by (rule verify_totp_non_ascii_raises [OF c l h])
qed

text \<open>
  A code is accepted only for the previous, current or next 30-second step, only when that step is
  later than the last one used, and only when its six ASCII digits are the HOTP value of that step.
\<close>

theorem totp_accepts_only_fresh_window:
  assumes "verify_totp cr secret c last_step tm = Inr s" and "s \<noteq> 0"
  shows "last_step < s \<and> \<bar>s - totp_step tm\<bar> \<le> 1 \<and> hotp cr secret s = Inr (clean_code c)
    \<and> length (clean_code c) = 6 \<and> list_all ascii_digit (clean_code c)"
  using verify_totp_sound [OF assms] hotp_six_digits by blast

theorem totp_accepts_only_fresh_window_witness:
  "verify_totp demo_crypto ''AAAAAAAA'' '' 843 009'' 0 40 = Inr 1
   \<and> \<bar>1 - totp_step 40\<bar> \<le> 1 \<and> hotp demo_crypto ''AAAAAAAA'' 1 = Inr (clean_code '' 843 009'')"
proof -
  have v: "verify_totp demo_crypto ''AAAAAAAA'' '' 843 009'' 0 40 = Inr 1" by code_simp
  show ?thesis using v totp_accepts_only_fresh_window [OF v] by simp
qed

end
