(* ===== verification/Db.thy ===== *)
theory Db
  imports Prelude
begin

text \<open>
  The hub's SQLite storage (\<open>hub/icsd_hub/db.py\<close>): the schema and its migrations, one record per
  table row, the tables as fields of one state record, and the helpers every component calls
  (settings, audit, transactions). Component states extend the record of tables.
\<close>

section \<open>Schema and migrations\<close>

datatype ddl =
    CreateTable string "string list"
  | CreateIndex string string
  | AddColumn string string
  | UpdateRows string string

type_synonym schema = "(string, string list) dict"

fun exec_ddl :: "ddl \<Rightarrow> schema \<Rightarrow> exc + schema" where
  "exec_ddl (CreateTable t cols) s =
     (if dget s t = None then Inr (dput t cols s) else Inl (ValueError ''table already exists''))"
| "exec_ddl (CreateIndex i t) s =
     (if dget s t = None then Inl (ValueError ''no such table'') else Inr s)"
| "exec_ddl (AddColumn t c) s =
     (case dget s t of
        None \<Rightarrow> Inl (ValueError ''no such table'')
      | Some cols \<Rightarrow>
          if c \<in> set cols then Inl (ValueError ''duplicate column name'')
          else Inr (dput t (cols @ [c]) s))"
| "exec_ddl (UpdateRows t c) s =
     (case dget s t of
        None \<Rightarrow> Inl (ValueError ''no such table'')
      | Some cols \<Rightarrow> if c \<in> set cols then Inr s else Inl (ValueError ''no such column''))"

fun exec_script :: "ddl list \<Rightarrow> schema \<Rightarrow> exc + schema" where
  "exec_script [] s = Inr s"
| "exec_script (d # ds) s = (case exec_ddl d s of Inl e \<Rightarrow> Inl e | Inr s' \<Rightarrow> exec_script ds s')"

definition sample_cols :: "string list" where
  "sample_cols = [''server_id'', ''ts'', ''cpu'', ''cpu_max'', ''iowait'', ''steal'', ''mem'', ''swap'',
     ''load1'', ''disk'', ''rx'', ''tx'', ''rd'', ''wr'', ''tcp'']"

definition migration_1 :: "ddl list" where
  "migration_1 =
    [CreateTable ''users'' [''id'', ''username'', ''pw_hash'', ''role'', ''totp_secret'', ''totp_on'',
       ''totp_last'', ''created'', ''last_login''],
     CreateTable ''sessions'' [''id_hash'', ''user_id'', ''created'', ''seen'', ''ip'', ''ua''],
     CreateTable ''login_fail'' [''ip'', ''username'', ''ts''],
     CreateIndex ''login_fail_ts'' ''login_fail'',
     CreateTable ''servers'' [''id'', ''name'', ''created'', ''enroll_hash'', ''enroll_expires'',
       ''secret_hash'', ''host_json'', ''agent_version'', ''last_seen'', ''last_ip'', ''notes''],
     CreateTable ''samples_1m'' sample_cols,
     CreateTable ''samples_1h'' sample_cols,
     CreateTable ''rules'' [''id'', ''kind'', ''threshold'', ''for_s'', ''severity'', ''enabled''],
     CreateTable ''events'' [''id'', ''rule'', ''server_id'', ''subject'', ''severity'', ''value'',
       ''message'', ''started'', ''ended''],
     CreateIndex ''events_open'' ''events'',
     CreateIndex ''events_started'' ''events'',
     CreateTable ''checks'' [''id'', ''name'', ''url'', ''interval'', ''timeout'', ''expect'', ''keyword'',
       ''enabled'', ''created''],
     CreateTable ''check_log'' [''check_id'', ''ts'', ''ok'', ''ms'', ''code'', ''error''],
     CreateTable ''settings'' [''key'', ''value''],
     CreateTable ''audit'' [''id'', ''ts'', ''username'', ''ip'', ''action'', ''detail''],
     CreateIndex ''audit_ts'' ''audit'',
     CreateTable ''notify_log'' [''id'', ''ts'', ''channel'', ''ok'', ''error'']]"

definition migration_2 :: "ddl list" where
  "migration_2 = [AddColumn ''users'' ''totp_pending'', AddColumn ''samples_1m'' ''n'']"

definition migration_3 :: "ddl list" where
  "migration_3 =
    [AddColumn ''sessions'' ''elevated_until'',
     CreateTable ''backup_plans'' [''id'', ''server_id'', ''name'', ''kind'', ''target'', ''every_hours'',
       ''start_hour'', ''keep'', ''dest_server'', ''dest_keep'', ''delete_local'', ''enabled'',
       ''next_run'', ''created''],
     CreateTable ''backup_runs'' [''id'', ''plan_id'', ''server_id'', ''started'', ''ended'', ''state'',
       ''size'', ''path'', ''dest_server'', ''dest_path'', ''error'', ''trigger''],
     CreateIndex ''backup_runs_started'' ''backup_runs'']"

definition migration_4 :: "ddl list" where
  "migration_4 = [AddColumn ''backup_plans'' ''prefix'', UpdateRows ''backup_plans'' ''prefix'']"

definition MIGRATIONS :: "ddl list list" where
  "MIGRATIONS = [migration_1, migration_2, migration_3, migration_4]"

record db_file =
  user_version :: nat
  tables :: schema

text \<open>Each script runs in its own transaction; a failing one is not committed and stops the upgrade.\<close>

fun migrate_loop :: "ddl list list \<Rightarrow> nat \<Rightarrow> db_file \<Rightarrow> db_file \<times> exc option" where
  "migrate_loop [] i f = (f, None)"
| "migrate_loop (sql # rest) i f =
     (case exec_script sql (tables f) of
        Inl e \<Rightarrow> (f, Some e)
      | Inr t \<Rightarrow> migrate_loop rest (i + 1) (f\<lparr>tables := t, user_version := i\<rparr>))"

definition migrate :: "db_file \<Rightarrow> db_file \<times> exc option" where
  "migrate f = migrate_loop (drop (user_version f) MIGRATIONS) (user_version f + 1) f"

definition empty_file :: db_file where
  "empty_file = \<lparr>user_version = 0, tables = []\<rparr>"

definition release_file :: "nat \<Rightarrow> db_file" where
  \<comment> \<open>the file a release that shipped the first \<open>v\<close> migrations leaves behind\<close>
  "release_file v = fst (migrate_loop (take v MIGRATIONS) 1 empty_file)"

definition current_schema :: schema where
  "current_schema =
    [(''users'', [''id'', ''username'', ''pw_hash'', ''role'', ''totp_secret'', ''totp_on'',
       ''totp_last'', ''created'', ''last_login'', ''totp_pending'']),
     (''sessions'', [''id_hash'', ''user_id'', ''created'', ''seen'', ''ip'', ''ua'', ''elevated_until'']),
     (''login_fail'', [''ip'', ''username'', ''ts'']),
     (''servers'', [''id'', ''name'', ''created'', ''enroll_hash'', ''enroll_expires'',
       ''secret_hash'', ''host_json'', ''agent_version'', ''last_seen'', ''last_ip'', ''notes'']),
     (''samples_1m'', sample_cols @ [''n'']),
     (''samples_1h'', sample_cols),
     (''rules'', [''id'', ''kind'', ''threshold'', ''for_s'', ''severity'', ''enabled'']),
     (''events'', [''id'', ''rule'', ''server_id'', ''subject'', ''severity'', ''value'',
       ''message'', ''started'', ''ended'']),
     (''checks'', [''id'', ''name'', ''url'', ''interval'', ''timeout'', ''expect'', ''keyword'',
       ''enabled'', ''created'']),
     (''check_log'', [''check_id'', ''ts'', ''ok'', ''ms'', ''code'', ''error'']),
     (''settings'', [''key'', ''value'']),
     (''audit'', [''id'', ''ts'', ''username'', ''ip'', ''action'', ''detail'']),
     (''notify_log'', [''id'', ''ts'', ''channel'', ''ok'', ''error'']),
     (''backup_plans'', [''id'', ''server_id'', ''name'', ''kind'', ''target'', ''every_hours'',
       ''start_hour'', ''keep'', ''dest_server'', ''dest_keep'', ''delete_local'', ''enabled'',
       ''next_run'', ''created'', ''prefix'']),
     (''backup_runs'', [''id'', ''plan_id'', ''server_id'', ''started'', ''ended'', ''state'',
       ''size'', ''path'', ''dest_server'', ''dest_path'', ''error'', ''trigger''])]"

section \<open>Rows\<close>

record user_row =
  u_id :: int
  u_username :: string
  u_pw_hash :: string
  u_role :: string
  u_totp_secret :: "string option"
  u_totp_on :: bool
  u_totp_last :: int
  u_created :: int
  u_last_login :: "int option"
  u_totp_pending :: "string option"

record session_row =
  s_id_hash :: string
  s_user_id :: int
  s_created :: int
  s_seen :: int
  s_ip :: string
  s_ua :: string
  s_elevated_until :: int

record fail_row =
  f_ip :: string
  f_username :: string
  f_ts :: int

datatype host_text =
    Whole "(string, json) dict" \<comment> \<open>the JSON text of a dict\<close>
  | Cut \<comment> \<open>a JSON text cut off after 4000 characters, no longer JSON\<close>

record server_row =
  sv_id :: string
  sv_name :: string
  sv_created :: int
  sv_enroll_hash :: "string option"
  sv_enroll_expires :: "int option"
  sv_secret_hash :: "string option"
  sv_host :: "host_text option"
  sv_agent_version :: "string option"
  sv_last_seen :: "int option"
  sv_last_ip :: "string option"
  sv_notes :: string

record sample_row =
  sm_server :: string
  sm_ts :: int
  sm_n :: int
  sm_cpu_max :: rat
  sm_vals :: "rat list"

record rule_row =
  ru_kind :: string
  ru_threshold :: rat
  ru_for_s :: int
  ru_severity :: string
  ru_enabled :: bool

record event_row =
  ev_id :: int
  ev_rule :: string
  ev_server :: string
  ev_subject :: string
  ev_severity :: string
  ev_value :: rat
  ev_message :: string
  ev_started :: int
  ev_ended :: "int option"

record check_row =
  ck_id :: int
  ck_name :: string
  ck_url :: string
  ck_interval :: int
  ck_timeout :: int
  ck_expect :: string
  ck_keyword :: string
  ck_enabled :: bool
  ck_created :: int

record check_log_row =
  cl_check_id :: int
  cl_ts :: int
  cl_ok :: bool
  cl_ms :: "int option"
  cl_code :: "int option"
  cl_error :: string

record audit_row =
  au_id :: int
  au_ts :: int
  au_username :: "string option"
  au_ip :: "string option"
  au_action :: string
  au_detail :: string

record notify_row =
  nl_id :: int
  nl_ts :: int
  nl_channel :: string
  nl_ok :: bool
  nl_error :: string

datatype target = TDb string string string int | TFiles string "string list"

record plan_row =
  pl_id :: int
  pl_server :: string
  pl_name :: string
  pl_kind :: string
  pl_target :: target
  pl_every_hours :: int
  pl_start_hour :: int
  pl_keep :: int
  pl_dest_server :: "string option"
  pl_dest_keep :: int
  pl_delete_local :: bool
  pl_enabled :: bool
  pl_next_run :: "int option"
  pl_created :: int
  pl_prefix :: "string option"

record run_row =
  rn_id :: int
  rn_plan :: "int option"
  rn_server :: string
  rn_started :: int
  rn_ended :: "int option"
  rn_state :: string
  rn_size :: "int option"
  rn_path :: "string option"
  rn_dest_server :: "string option"
  rn_dest_path :: "string option"
  rn_error :: string
  rn_trigger :: string

section \<open>The database\<close>

record db =
  users :: "user_row list"
  sessions :: "session_row list"
  login_fail :: "fail_row list"
  servers :: "server_row list"
  samples_1m :: "sample_row list"
  samples_1h :: "sample_row list"
  rules :: "rule_row list"
  events :: "event_row list"
  checks :: "check_row list"
  check_log :: "check_log_row list"
  settings :: "(string, json) dict"
  audit_log :: "audit_row list"
  notify_log :: "notify_row list"
  backup_plans :: "plan_row list"
  backup_runs :: "run_row list"

definition empty_db :: db where
  "empty_db = \<lparr>users = [], sessions = [], login_fail = [], servers = [], samples_1m = [],
     samples_1h = [], rules = [], events = [], checks = [], check_log = [], settings = [],
     audit_log = [], notify_log = [], backup_plans = [], backup_runs = []\<rparr>"

text \<open>\<open>many\<close> runs all its statements in one transaction and rolls back on the first failure.\<close>

fun exec_many :: "('p \<Rightarrow> 'd \<Rightarrow> exc + 'd) \<Rightarrow> 'p list \<Rightarrow> 'd \<Rightarrow> exc + 'd" where
  "exec_many f [] d = Inr d"
| "exec_many f (p # ps) d = (case f p d of Inl e \<Rightarrow> Inl e | Inr d' \<Rightarrow> exec_many f ps d')"

definition many :: "('p \<Rightarrow> 'd \<Rightarrow> exc + 'd) \<Rightarrow> 'p list \<Rightarrow> 'd \<Rightarrow> 'd \<times> exc option" where
  "many f ps d = (case exec_many f ps d of Inl e \<Rightarrow> (d, Some e) | Inr d' \<Rightarrow> (d', None))"

definition get_setting :: "string \<Rightarrow> json \<Rightarrow> 'a db_scheme \<Rightarrow> json" where
  "get_setting key dflt d = (case dget (settings d) key of None \<Rightarrow> dflt | Some v \<Rightarrow> v)"

definition set_setting :: "string \<Rightarrow> json \<Rightarrow> 'a db_scheme \<Rightarrow> 'a db_scheme" where
  "set_setting key v d = d\<lparr>settings := dput key v (settings d)\<rparr>"

definition audit :: "int \<Rightarrow> string option \<Rightarrow> string \<Rightarrow> string \<Rightarrow> string option \<Rightarrow> 'a db_scheme \<Rightarrow> 'a db_scheme" where
  "audit now username action detail ip d =
     d\<lparr>audit_log := audit_log d @
        [\<lparr>au_id = next_rowid (map au_id (audit_log d)), au_ts = now, au_username = username,
          au_ip = ip, au_action = action, au_detail = take 500 detail\<rparr>]\<rparr>"

section \<open>Properties\<close>

lemma exec_script_append:
  "exec_script (xs @ ys) s = (case exec_script xs s of Inl e \<Rightarrow> Inl e | Inr t \<Rightarrow> exec_script ys t)"
  by (induction xs arbitrary: s) (auto split: sum.splits)

lemma migrate_loop_ok:
  "exec_script (concat ss) (tables f) = Inr t \<Longrightarrow>
   migrate_loop ss i f = (if ss = [] then f else f\<lparr>tables := t, user_version := i + length ss - 1\<rparr>, None)"
proof (induction ss arbitrary: i f)
  case Nil
  then show ?case by simp
next
  case (Cons s ss)
  then obtain u where u: "exec_script s (tables f) = Inr u" and rest: "exec_script (concat ss) u = Inr t"
    by (auto simp: exec_script_append split: sum.splits)
  have "migrate_loop ss (i + 1) (f\<lparr>tables := u, user_version := i\<rparr>) =
    (if ss = [] then f\<lparr>tables := u, user_version := i\<rparr>
     else f\<lparr>tables := t, user_version := i + length ss\<rparr>, None)"
    using Cons.IH [of "f\<lparr>tables := u, user_version := i\<rparr>" "i + 1"] rest by simp
  with u rest show ?case by (cases ss) auto
qed

lemma audit_frame [simp]:
  "users (audit n u a d i s) = users s" "sessions (audit n u a d i s) = sessions s"
  "login_fail (audit n u a d i s) = login_fail s" "servers (audit n u a d i s) = servers s"
  "events (audit n u a d i s) = events s" "rules (audit n u a d i s) = rules s"
  "backup_plans (audit n u a d i s) = backup_plans s" "backup_runs (audit n u a d i s) = backup_runs s"
  "checks (audit n u a d i s) = checks s" "settings (audit n u a d i s) = settings s"
  "samples_1m (audit n u a d i s) = samples_1m s" "samples_1h (audit n u a d i s) = samples_1h s"
  "db.more (audit n u a d i s) = db.more s"
  by (simp_all add: audit_def)

lemma get_set_setting: "get_setting k df (set_setting k' v d) = (if k = k' then v else get_setting k df d)"
  by (simp add: get_setting_def set_setting_def dget_dput)

lemma all_migrations_run: "exec_script (concat MIGRATIONS) [] = Inr current_schema"
  by code_simp

lemma release_tables: "v \<le> 4 \<Longrightarrow> exec_script (concat (take v MIGRATIONS)) [] = Inr (tables (release_file v))
    \<and> user_version (release_file v) = v"
proof -
  assume v: "v \<le> 4"
  have "\<exists>t. exec_script (concat (take v MIGRATIONS)) [] = Inr t"
    using all_migrations_run exec_script_append [of "concat (take v MIGRATIONS)" "concat (drop v MIGRATIONS)" "[]"]
    by (auto simp flip: concat_append split: sum.splits)
  then obtain t where t: "exec_script (concat (take v MIGRATIONS)) [] = Inr t" ..
  have len: "length (take v MIGRATIONS) = v" using v by (simp add: MIGRATIONS_def)
  from t show ?thesis
    using migrate_loop_ok [of "take v MIGRATIONS" empty_file t 1] len
    by (cases "v = 0") (auto simp: release_file_def empty_file_def)
qed

text \<open>
  C12. Upgrading works from every earlier release: the file left by a release with \<open>v\<close> migrations is
  brought to version 4 and exactly the schema the hub's queries use, without an error.
\<close>

theorem upgrade_from_any_release:
  assumes "v \<le> 4"
  shows "migrate (release_file v) = (\<lparr>user_version = 4, tables = current_schema\<rparr>, None)"
proof -
  have s: "exec_script (concat (drop v MIGRATIONS)) (tables (release_file v)) = Inr current_schema"
    using all_migrations_run release_tables [OF assms]
      exec_script_append [of "concat (take v MIGRATIONS)" "concat (drop v MIGRATIONS)" "[]"]
    by (simp flip: concat_append)
  have len: "length (drop v MIGRATIONS) = 4 - v" by (simp add: MIGRATIONS_def)
  show ?thesis
    using migrate_loop_ok [OF s, of "v + 1"] s len assms release_tables [OF assms]
    by (cases "v = 4") (auto simp: migrate_def)
qed

theorem upgrade_from_any_release_witness:
  "(2::nat) \<le> 4 \<and> migrate (release_file 2) = (\<lparr>user_version = 4, tables = current_schema\<rparr>, None)"
  using upgrade_from_any_release [of 2] by simp

end
