(* ===== verification/Auth.thy ===== *)
theory Auth
  imports Config Security Db
begin

text \<open>
  Accounts, sessions, brute-force limits and the guards of every route (\<open>hub/icsd_hub/auth.py\<close>).
  An operation takes the clock reading \<open>now\<close> (\<open>db.now()\<close>, whole seconds) and the database and returns the
  new database with its result or exception; fresh random tokens are arguments. Deleting a user
  deletes its sessions, as the schema's \<open>ON DELETE CASCADE\<close> does.
\<close>

section \<open>Constants and the user of a request\<close>

definition ROLES :: "string list" where
  "ROLES = [''admin'', ''viewer'']"

definition FAIL_WINDOW :: int where
  "FAIL_WINDOW = 15 * 60"

definition MAX_FAIL_IP :: nat where
  "MAX_FAIL_IP = 10"

definition MAX_FAIL_USER :: nat where
  "MAX_FAIL_USER = 8"

definition ELEVATE_SECONDS :: int where
  "ELEVATE_SECONDS = 15 * 60"

record user =
  us_id :: int
  us_username :: string
  us_role :: string
  us_totp_on :: bool
  us_session :: string
  us_elevated_until :: int

definition is_admin :: "user \<Rightarrow> bool" where
  "is_admin u = (us_role u = ''admin'')"

section \<open>Accounts\<close>

definition username_char :: "char \<Rightarrow> bool" where
  "username_char ch = (isalnum_char ch \<or> ch \<in> set ''._-'')"

definition clean_username :: "string \<Rightarrow> string res" where
  "clean_username username =
     (let u = lower (strip username) in
      if \<not> (3 \<le> length u \<and> length u \<le> 32) \<or> \<not> list_all username_char u
      then Inl (AuthError ''username: 3 to 32 characters, Latin letters, digits and . _ -'' 400 [])
      else Inr u)"

definition check_password :: "string \<Rightarrow> unit res" where
  "check_password password =
     (if length password < MIN_PASSWORD then Inl (AuthError ''password too short'' 400 []) else Inr ())"

definition create_user ::
  "crypto \<Rightarrow> int \<Rightarrow> string \<Rightarrow> string \<Rightarrow> string \<Rightarrow> 'a db_scheme \<Rightarrow> ('a db_scheme, int \<times> string \<times> string) io" where
  "create_user cr now username password role d =
     (case clean_username username of
        Inl e \<Rightarrow> (d, Inl e)
      | Inr u \<Rightarrow>
          (case check_password password of
             Inl e \<Rightarrow> (d, Inl e)
           | Inr _ \<Rightarrow>
               if role \<notin> set ROLES then (d, Inl (AuthError ''invalid role'' 400 []))
               else if select_one (\<lambda>r. u_username r = u) (users d) \<noteq> None
               then (d, Inl (AuthError ''username exists'' 400 []))
               else
                 let uid = next_rowid (map u_id (users d)) in
                 (d\<lparr>users := users d @
                     [\<lparr>u_id = uid, u_username = u, u_pw_hash = hash_password cr password, u_role = role,
                       u_totp_secret = None, u_totp_on = False, u_totp_last = 0, u_created = now,
                       u_last_login = None, u_totp_pending = None\<rparr>]\<rparr>,
                  Inr (uid, u, role))))"

definition list_users :: "'a db_scheme \<Rightarrow> user_row list" where
  "list_users d = sort_key u_id (users d)"

definition delete_user :: "int \<Rightarrow> 'a db_scheme \<Rightarrow> ('a db_scheme, unit) io" where
  "delete_user uid d =
     (case select_one (\<lambda>r. u_id r = uid) (users d) of
        None \<Rightarrow> (d, Inl (AuthError ''user not found'' 404 []))
      | Some tgt \<Rightarrow>
          if u_role tgt = ''admin'' \<and> length (filter (\<lambda>r. u_role r = ''admin'') (users d)) \<le> 1
          then (d, Inl (AuthError ''cannot delete the last admin'' 400 []))
          else (d\<lparr>users := delete_where (\<lambda>r. u_id r = uid) (users d),
                  sessions := delete_where (\<lambda>s. s_user_id s = uid) (sessions d)\<rparr>, Inr ()))"

definition set_password :: "crypto \<Rightarrow> int \<Rightarrow> string \<Rightarrow> 'a db_scheme \<Rightarrow> ('a db_scheme, unit) io" where
  "set_password cr uid password d =
     (case check_password password of
        Inl e \<Rightarrow> (d, Inl e)
      | Inr _ \<Rightarrow>
          (d\<lparr>users := update_where (\<lambda>r. u_id r = uid) (\<lambda>r. r\<lparr>u_pw_hash := hash_password cr password\<rparr>) (users d),
             sessions := delete_where (\<lambda>s. s_user_id s = uid) (sessions d)\<rparr>, Inr ()))"

definition reset_2fa :: "int \<Rightarrow> 'a db_scheme \<Rightarrow> 'a db_scheme" where
  "reset_2fa uid d =
     d\<lparr>users := update_where (\<lambda>r. u_id r = uid)
          (\<lambda>r. r\<lparr>u_totp_on := False, u_totp_secret := None, u_totp_pending := None, u_totp_last := 0\<rparr>) (users d),
       sessions := delete_where (\<lambda>s. s_user_id s = uid) (sessions d)\<rparr>"

section \<open>Brute force\<close>

definition too_many :: "int \<Rightarrow> string \<Rightarrow> string \<Rightarrow> 'a db_scheme \<Rightarrow> bool" where
  "too_many now ip username d =
     (let since = now - FAIL_WINDOW;
          by_ip = length (filter (\<lambda>f. f_ip f = ip \<and> since < f_ts f) (login_fail d));
          by_user = length (filter (\<lambda>f. f_username f = username \<and> since < f_ts f) (login_fail d))
      in MAX_FAIL_IP \<le> by_ip \<or> MAX_FAIL_USER \<le> by_user)"

definition fail :: "int \<Rightarrow> string \<Rightarrow> string \<Rightarrow> 'a db_scheme \<Rightarrow> 'a db_scheme" where
  "fail now ip username d =
     d\<lparr>login_fail := login_fail d @ [\<lparr>f_ip = ip, f_username = username, f_ts = now\<rparr>]\<rparr>"

definition session_expired :: "config \<Rightarrow> int \<Rightarrow> session_row \<Rightarrow> bool" where
  "session_expired cfg now s =
     (s_seen s < now - session_idle_hours cfg * 3600 \<or> s_created s < now - session_max_days cfg * 86400)"

definition prune :: "config \<Rightarrow> int \<Rightarrow> 'a db_scheme \<Rightarrow> 'a db_scheme" where
  "prune cfg now d =
     d\<lparr>login_fail := delete_where (\<lambda>f. f_ts f < now - FAIL_WINDOW) (login_fail d),
       sessions := delete_where (session_expired cfg now) (sessions d)\<rparr>"

section \<open>Login and sessions\<close>

definition verify_row_totp :: "crypto \<Rightarrow> string option \<Rightarrow> string \<Rightarrow> int \<Rightarrow> int \<Rightarrow> int res" where
  \<comment> \<open>\<open>verify_totp\<close> on a nullable column: a missing secret raises where HOTP would read it\<close>
  "verify_row_totp cr secret c last_step now =
     (case secret of
        Some s \<Rightarrow> verify_totp cr s c last_step (of_int now)
      | None \<Rightarrow> if length (clean_code c) \<noteq> 6 \<or> \<not> isdigit (clean_code c) \<or> totp_step (of_int now) + 1 \<le> last_step
                then Inr 0 else Inl AttributeError)"

definition set_totp_last :: "int \<Rightarrow> int \<Rightarrow> 'a db_scheme \<Rightarrow> 'a db_scheme" where
  "set_totp_last uid step d =
     d\<lparr>users := update_where (\<lambda>r. u_id r = uid) (\<lambda>r. r\<lparr>u_totp_last := step\<rparr>) (users d)\<rparr>"

definition open_session ::
  "crypto \<Rightarrow> int \<Rightarrow> string \<Rightarrow> string \<Rightarrow> string \<Rightarrow> string \<Rightarrow> user_row \<Rightarrow> 'a db_scheme \<Rightarrow> ('a db_scheme, string \<times> user) io" where
  "open_session cr now u ip ua raw row d =
     (let h = sha256 cr raw in
      if select_one (\<lambda>s. s_id_hash s = h) (sessions d) \<noteq> None
      then (d, Inl (ValueError ''UNIQUE constraint failed: sessions.id_hash''))
      else
        let d1 = d\<lparr>sessions := sessions d @ [\<lparr>s_id_hash = h, s_user_id = u_id row, s_created = now,
                     s_seen = now, s_ip = ip, s_ua = take 200 ua, s_elevated_until = 0\<rparr>],
                   users := update_where (\<lambda>r. u_id r = u_id row) (\<lambda>r. r\<lparr>u_last_login := Some now\<rparr>) (users d)\<rparr>
        in (audit now (Some u) ''login'' [] (Some ip) d1,
            Inr (raw, \<lparr>us_id = u_id row, us_username = u_username row, us_role = u_role row,
                       us_totp_on = u_totp_on row, us_session = [], us_elevated_until = 0\<rparr>)))"

definition login ::
  "crypto \<Rightarrow> int \<Rightarrow> string \<Rightarrow> string \<Rightarrow> string option \<Rightarrow> string \<Rightarrow> string \<Rightarrow> string \<Rightarrow> 'a db_scheme \<Rightarrow> ('a db_scheme, string \<times> user) io" where
  "login cr now username password otp ip ua raw d =
     (let u = take 64 (lower (strip username)) in
      if too_many now ip u d then (d, Inl (AuthError ''too many failed attempts'' 429 []))
      else
        let row = select_one (\<lambda>r. u_username r = u) (users d);
            ok = verify_password cr password (case row of Some r \<Rightarrow> u_pw_hash r | None \<Rightarrow> c_dummy_hash cr)
        in case (row, ok) of
             (Some r, True) \<Rightarrow>
               if u_totp_on r then
                 (case otp of
                    None \<Rightarrow> (d, Inl (AuthError ''enter the second factor'' 401 [''need_otp'']))
                  | Some c \<Rightarrow>
                      if c = [] then (d, Inl (AuthError ''enter the second factor'' 401 [''need_otp'']))
                      else
                        (case verify_row_totp cr (u_totp_secret r) c (u_totp_last r) now of
                           Inl e \<Rightarrow> (d, Inl e)
                         | Inr step \<Rightarrow>
                             if step = 0
                             then (audit now (Some u) ''login.fail'' ''otp'' (Some ip) (fail now ip u d),
                                   Inl (AuthError ''wrong second factor'' 401 [''need_otp'']))
                             else open_session cr now u ip ua raw r (set_totp_last (u_id r) step d)))
               else open_session cr now u ip ua raw r d
           | _ \<Rightarrow> (audit now (Some u) ''login.fail'' [] (Some ip) (fail now ip u d),
                   Inl (AuthError ''wrong username or password'' 401 [])))"

definition logout :: "crypto \<Rightarrow> string \<Rightarrow> 'a db_scheme \<Rightarrow> 'a db_scheme" where
  "logout cr raw d = d\<lparr>sessions := delete_where (\<lambda>s. s_id_hash s = sha256 cr raw) (sessions d)\<rparr>"

definition session_join :: "string \<Rightarrow> 'a db_scheme \<Rightarrow> (session_row \<times> user_row) option" where
  "session_join h d =
     (case select_one (\<lambda>s. s_id_hash s = h) (sessions d) of
        None \<Rightarrow> None
      | Some s \<Rightarrow> map_option (\<lambda>r. (s, r)) (select_one (\<lambda>r. u_id r = s_user_id s) (users d)))"

definition user_from_cookie ::
  "crypto \<Rightarrow> config \<Rightarrow> int \<Rightarrow> string option \<Rightarrow> 'a db_scheme \<Rightarrow> 'a db_scheme \<times> user option" where
  "user_from_cookie cr cfg now raw d =
     (case raw of
        None \<Rightarrow> (d, None)
      | Some c \<Rightarrow>
          if c = [] \<or> 200 < length c then (d, None)
          else
            let h = sha256 cr c in
            case session_join h d of
              None \<Rightarrow> (d, None)
            | Some (s, r) \<Rightarrow>
                if session_expired cfg now s
                then (d\<lparr>sessions := delete_where (\<lambda>s. s_id_hash s = h) (sessions d)\<rparr>, None)
                else
                  (if 60 < now - s_seen s
                   then d\<lparr>sessions := update_where (\<lambda>s. s_id_hash s = h) (\<lambda>s. s\<lparr>s_seen := now\<rparr>) (sessions d)\<rparr>
                   else d,
                   Some \<lparr>us_id = u_id r, us_username = u_username r, us_role = u_role r, us_totp_on = u_totp_on r,
                         us_session = h, us_elevated_until = s_elevated_until s\<rparr>))"

section \<open>Second factor set-up\<close>

definition begin_2fa ::
  "crypto \<Rightarrow> int \<Rightarrow> user \<Rightarrow> string option \<Rightarrow> byte list \<Rightarrow> 'a db_scheme \<Rightarrow> ('a db_scheme, string \<times> string) io" where
  "begin_2fa cr now user current_code rnd d =
     (let start = (\<lambda>d. let secret = new_totp_secret rnd in
            (d\<lparr>users := update_where (\<lambda>r. u_id r = us_id user) (\<lambda>r. r\<lparr>u_totp_pending := Some secret\<rparr>) (users d)\<rparr>,
             Inr (secret, totp_uri secret (us_username user))))
      in case select_one (\<lambda>r. u_id r = us_id user) (users d) of
           None \<Rightarrow> start d
         | Some r \<Rightarrow>
             if u_totp_on r then
               (case verify_row_totp cr (u_totp_secret r)
                       (case current_code of None \<Rightarrow> [] | Some c \<Rightarrow> c) (u_totp_last r) now of
                  Inl e \<Rightarrow> (d, Inl e)
                | Inr step \<Rightarrow>
                    if step = 0 then (d, Inl (AuthError ''enter the current code'' 400 [''need_current'']))
                    else start (set_totp_last (us_id user) step d))
             else start d)"

definition confirm_2fa :: "crypto \<Rightarrow> int \<Rightarrow> user \<Rightarrow> string \<Rightarrow> 'a db_scheme \<Rightarrow> ('a db_scheme, unit) io" where
  "confirm_2fa cr now user c d =
     (case select_one (\<lambda>r. u_id r = us_id user) (users d) of
        None \<Rightarrow> (d, Inl (AuthError ''start the set-up first'' 400 []))
      | Some r \<Rightarrow>
          (case u_totp_pending r of
             None \<Rightarrow> (d, Inl (AuthError ''start the set-up first'' 400 []))
           | Some p \<Rightarrow>
               if p = [] then (d, Inl (AuthError ''start the set-up first'' 400 []))
               else
                 (case verify_row_totp cr (Some p) c 0 now of
                    Inl e \<Rightarrow> (d, Inl e)
                  | Inr step \<Rightarrow>
                      if step = 0 then (d, Inl (AuthError ''wrong code'' 400 []))
                      else
                        (d\<lparr>users := update_where (\<lambda>r. u_id r = us_id user)
                              (\<lambda>r. r\<lparr>u_totp_secret := u_totp_pending r, u_totp_pending := None,
                                    u_totp_on := True, u_totp_last := step\<rparr>) (users d),
                           sessions := delete_where
                              (\<lambda>s. s_user_id s = us_id user \<and> s_id_hash s \<noteq> us_session user) (sessions d)\<rparr>,
                         Inr ()))))"

section \<open>Request guards\<close>

record request =
  rq_method :: string
  rq_cookie :: "string option"
  rq_x_icsd :: "string option"
  rq_origin :: "string option"
  rq_user_agent :: string
  rq_scheme :: string
  rq_netloc :: string
  rq_client :: "string option"

definition client_ip :: "request \<Rightarrow> string" where
  "client_ip rq = (case rq_client rq of Some h \<Rightarrow> h | None \<Rightarrow> ''?'')"

definition foreign_origin :: "config \<Rightarrow> request \<Rightarrow> bool" where
  "foreign_origin cfg rq =
     (case rq_origin rq of
        None \<Rightarrow> False
      | Some og \<Rightarrow> og \<noteq> [] \<and> rstrip_char (CHR ''/'') og \<noteq> rq_scheme rq @ ''://'' @ rq_netloc rq
                   \<and> rstrip_char (CHR ''/'') og \<noteq> public_url cfg)"

definition safe_method :: "request \<Rightarrow> bool" where
  "safe_method rq = (rq_method rq \<in> {''GET'', ''HEAD'', ''OPTIONS''})"

definition session_user :: "crypto \<Rightarrow> config \<Rightarrow> int \<Rightarrow> request \<Rightarrow> 'a db_scheme \<Rightarrow> ('a db_scheme, user) io" where
  "session_user cr cfg now rq d =
     (case user_from_cookie cr cfg now (rq_cookie rq) d of
        (d', None) \<Rightarrow> (d', Inl (HTTPException 401 ''log in first''))
      | (d', Some u) \<Rightarrow>
          if \<not> safe_method rq \<and> rq_x_icsd rq \<noteq> Some ''1''
          then (d', Inl (HTTPException 403 ''bad request (CSRF)''))
          else if \<not> safe_method rq \<and> foreign_origin cfg rq
          then (d', Inl (HTTPException 403 ''foreign origin''))
          else (d', Inr u))"

definition current_user_any :: "crypto \<Rightarrow> config \<Rightarrow> int \<Rightarrow> request \<Rightarrow> 'a db_scheme \<Rightarrow> ('a db_scheme, user) io" where
  "current_user_any = session_user"

definition current_user :: "crypto \<Rightarrow> config \<Rightarrow> int \<Rightarrow> request \<Rightarrow> 'a db_scheme \<Rightarrow> ('a db_scheme, user) io" where
  "current_user cr cfg now rq d =
     (case session_user cr cfg now rq d of
        (d', Inl e) \<Rightarrow> (d', Inl e)
      | (d', Inr u) \<Rightarrow>
          if require_2fa cfg \<and> \<not> us_totp_on u then (d', Inl (HTTPException 403 ''2fa_setup_required''))
          else (d', Inr u))"

definition elevate :: "crypto \<Rightarrow> int \<Rightarrow> user \<Rightarrow> string \<Rightarrow> 'a db_scheme \<Rightarrow> ('a db_scheme, int) io" where
  "elevate cr now user c d =
     (case select_one (\<lambda>r. u_id r = us_id user) (users d) of
        None \<Rightarrow> (d, Inl (AuthError ''turn the second factor on first'' 400 []))
      | Some r \<Rightarrow>
          if \<not> u_totp_on r then (d, Inl (AuthError ''turn the second factor on first'' 400 []))
          else
            (case verify_row_totp cr (u_totp_secret r) c (u_totp_last r) now of
               Inl e \<Rightarrow> (d, Inl e)
             | Inr step \<Rightarrow>
                 if step = 0 then (d, Inl (AuthError ''wrong second factor'' 400 []))
                 else
                   let until = now + ELEVATE_SECONDS;
                       d1 = set_totp_last (us_id user) step d
                   in (d1\<lparr>sessions := update_where (\<lambda>s. s_id_hash s = us_session user)
                            (\<lambda>s. s\<lparr>s_elevated_until := until\<rparr>) (sessions d1)\<rparr>, Inr until)))"

definition admin :: "crypto \<Rightarrow> config \<Rightarrow> int \<Rightarrow> request \<Rightarrow> 'a db_scheme \<Rightarrow> ('a db_scheme, user) io" where
  "admin cr cfg now rq d =
     (case current_user cr cfg now rq d of
        (d', Inl e) \<Rightarrow> (d', Inl e)
      | (d', Inr u) \<Rightarrow> if \<not> is_admin u then (d', Inl (HTTPException 403 ''admin only'')) else (d', Inr u))"

definition elevated :: "crypto \<Rightarrow> config \<Rightarrow> int \<Rightarrow> request \<Rightarrow> 'a db_scheme \<Rightarrow> ('a db_scheme, user) io" where
  "elevated cr cfg now rq d =
     (case admin cr cfg now rq d of
        (d', Inl e) \<Rightarrow> (d', Inl e)
      | (d', Inr u) \<Rightarrow>
          if us_elevated_until u < now then (d', Inl (HTTPException 403 ''elevation_required'')) else (d', Inr u))"

section \<open>Well-formed accounts\<close>

definition user_ok :: "user_row \<Rightarrow> bool" where
  "user_ok r = ((u_totp_on r \<longrightarrow> u_totp_secret r \<noteq> None) \<and> u_role r \<in> set ROLES
     \<and> clean_username (u_username r) = Inr (u_username r))"

definition accounts_ok :: "user_row list \<Rightarrow> session_row list \<Rightarrow> bool" where
  "accounts_ok us ss =
     (distinct (map u_id us) \<and> distinct (map u_username us) \<and> distinct (map s_id_hash ss)
      \<and> s_user_id ` set ss \<subseteq> set (map u_id us) \<and> (\<forall>r \<in> set us. user_ok r))"

abbreviation auth_inv :: "'a db_scheme \<Rightarrow> bool" where
  "auth_inv d \<equiv> accounts_ok (users d) (sessions d)"

lemma accounts_ok_sessions:
  assumes "accounts_ok us ss" and "\<And>s. s_id_hash (f s) = s_id_hash s" "\<And>s. s_user_id (f s) = s_user_id s"
  shows "accounts_ok us (map f (filter p ss))"
proof -
  have "s_id_hash \<circ> f = s_id_hash" using assms(2) by auto
  with assms show ?thesis
    by (auto simp: accounts_ok_def distinct_map_filter)
qed

lemma accounts_ok_users:
  assumes "accounts_ok us ss"
    and "\<And>r. r \<in> set us \<Longrightarrow> p r \<Longrightarrow> u_id (f r) = u_id r \<and> u_username (f r) = u_username r"
    and "\<And>r. r \<in> set us \<Longrightarrow> p r \<Longrightarrow> user_ok r \<Longrightarrow> user_ok (f r)"
  shows "accounts_ok (update_where p f us) ss"
proof -
  have k: "map u_id (update_where p f us) = map u_id us" "map u_username (update_where p f us) = map u_username us"
    using assms(2) by (auto intro!: map_update_where)
  have "\<forall>r \<in> set (update_where p f us). user_ok r"
    using assms by (auto simp: accounts_ok_def set_update_where)
  with assms(1) show ?thesis
    by (simp only: accounts_ok_def k simp_thms)
qed

lemma accounts_ok_delete_sessions: "accounts_ok us ss \<Longrightarrow> accounts_ok us (delete_where p ss)"
  using accounts_ok_sessions [of us ss "\<lambda>s. s" "\<lambda>s. \<not> p s"] by (simp add: delete_where_def)

lemma accounts_ok_update_sessions:
  assumes "accounts_ok us ss" "\<And>s. s_id_hash (f s) = s_id_hash s" "\<And>s. s_user_id (f s) = s_user_id s"
  shows "accounts_ok us (update_where p f ss)"
  using accounts_ok_sessions [of us ss "\<lambda>s. if p s then f s else s" "\<lambda>s. True"] assms
  by (simp add: update_where_def)

lemma select_one_key: "distinct (map k rows) \<Longrightarrow> r \<in> set rows \<Longrightarrow> select_one (\<lambda>x. k x = k r) rows = Some r"
proof (induction rows)
  case (Cons x rows)
  then show ?case
    by (cases "x = r") (auto simp: select_one_def image_iff filter_empty_conv split: list.splits)
qed simp

lemma set_totp_last_inv: "auth_inv d \<Longrightarrow> auth_inv (set_totp_last uid step d)"
  unfolding set_totp_last_def by (simp, rule accounts_ok_users) (auto simp: user_ok_def)

lemma create_user_inv: "auth_inv d \<Longrightarrow> auth_inv (fst (create_user cr now nm pw role d))"
proof -
  assume inv: "auth_inv d"
  have idem: "clean_username u = Inr u" if "clean_username nm = Inr u" for u
  proof -
    let ?l = "lower (strip nm)"
    have u: "u = ?l" "list_all username_char u" "3 \<le> length u" "length u \<le> 32"
      using that by (auto simp: clean_username_def Let_def split: if_splits)
    have nosp: "\<not> is_space c" if "username_char c" for c
      using that by (auto simp: username_char_def is_space_def isalnum_char_def isalpha_char_def
          isdigit_char_def ascii_digit_def code_def Let_def)
    have dw: "dropWhile is_space xs = xs" if "set xs \<subseteq> set u" for xs
      using that u(2) nosp by (cases xs) (auto simp: list_all_iff)
    have "strip u = u" by (simp add: strip_def rstrip_by_def dw)
    moreover have "lower u = u"
    proof -
      have "lower_char (lower_char c) = lower_char c" for c
        using nat_of_char_less_256 [of c]
        by (auto simp: lower_char_def code_def Let_def)
      then show ?thesis by (simp add: u(1) lower_def)
    qed
    ultimately show ?thesis using u by (simp add: clean_username_def Let_def)
  qed
  have fresh: "next_rowid (map u_id (users d)) \<noteq> u_id x" if "x \<in> set (users d)" for x
    using that next_rowid_fresh [of "map u_id (users d)"] by (metis image_eqI set_map)
  show ?thesis
    using inv idem fresh
    by (auto simp: create_user_def Let_def accounts_ok_def user_ok_def select_one_None
        split: sum.splits if_splits)
qed

lemma delete_user_inv: "auth_inv d \<Longrightarrow> auth_inv (fst (delete_user uid d))"
proof -
  assume inv: "auth_inv d"
  have "accounts_ok (delete_where (\<lambda>r. u_id r = uid) (users d)) (delete_where (\<lambda>s. s_user_id s = uid) (sessions d))"
    using inv by (auto simp: accounts_ok_def delete_where_def distinct_map_filter)
  with inv show ?thesis
    by (auto simp: delete_user_def split: option.splits)
qed

lemma set_password_inv: "auth_inv d \<Longrightarrow> auth_inv (fst (set_password cr uid pw d))"
  by (auto simp: set_password_def user_ok_def split: sum.splits
      intro!: accounts_ok_delete_sessions accounts_ok_users)

lemma reset_2fa_inv: "auth_inv d \<Longrightarrow> auth_inv (reset_2fa uid d)"
  by (auto simp: reset_2fa_def user_ok_def intro!: accounts_ok_delete_sessions accounts_ok_users)

lemma prune_inv: "auth_inv d \<Longrightarrow> auth_inv (prune cfg now d)"
  by (simp add: prune_def accounts_ok_delete_sessions)

lemma logout_inv: "auth_inv d \<Longrightarrow> auth_inv (logout cr raw d)"
  by (simp add: logout_def accounts_ok_delete_sessions)

lemma fail_frame [simp]: "users (fail n i u d) = users d" "sessions (fail n i u d) = sessions d"
  by (simp_all add: fail_def)

lemma accounts_ok_add_session:
  "accounts_ok us ss \<Longrightarrow> s_user_id s \<in> set (map u_id us) \<Longrightarrow> s_id_hash s \<notin> set (map s_id_hash ss)
   \<Longrightarrow> accounts_ok us (ss @ [s])"
  by (auto simp: accounts_ok_def)

lemma open_session_inv:
  "auth_inv d \<Longrightarrow> u_id row \<in> set (map u_id (users d)) \<Longrightarrow> auth_inv (fst (open_session cr now u ip ua raw row d))"
proof -
  assume inv: "auth_inv d" and row: "u_id row \<in> set (map u_id (users d))"
  let ?us = "update_where (\<lambda>r. u_id r = u_id row) (\<lambda>r. r\<lparr>u_last_login := Some now\<rparr>) (users d)"
  have us: "accounts_ok ?us (sessions d)"
    using inv by (intro accounts_ok_users) (auto simp: user_ok_def)
  have "map u_id ?us = map u_id (users d)" by (rule map_update_where) simp
  with us row inv show ?thesis
    by (auto simp: open_session_def Let_def select_one_None simp del: set_map
        intro!: accounts_ok_add_session) auto
qed

lemma login_inv: "auth_inv d \<Longrightarrow> auth_inv (fst (login cr now un pw otp ip ua raw d))"
proof -
  assume inv: "auth_inv d"
  have ids: "map u_id (users (set_totp_last i st d)) = map u_id (users d)" for i st
    by (simp add: set_totp_last_def map_update_where)
  have opened: "auth_inv (fst (open_session cr now u ip ua raw r d))"
    "auth_inv (fst (open_session cr now u ip ua raw r (set_totp_last (u_id r) st d)))"
    if "select_one p (users d) = Some r" for r u st p
    using that inv select_one_Some [OF that]
    by (auto intro!: open_session_inv set_totp_last_inv simp: ids simp del: set_map) (simp_all)
  show ?thesis
    using inv by (auto simp: login_def Let_def opened split: option.splits bool.splits sum.splits)
qed

lemma begin_2fa_inv: "auth_inv d \<Longrightarrow> auth_inv (fst (begin_2fa cr now user cc rnd d))"
proof -
  assume inv: "auth_inv d"
  have "auth_inv (e\<lparr>users := update_where (\<lambda>r. u_id r = us_id user) (\<lambda>r. r\<lparr>u_totp_pending := x\<rparr>) (users e)\<rparr>)"
    if "auth_inv e" for e :: "'a db_scheme" and x
    using that by (auto simp: user_ok_def intro!: accounts_ok_users)
  with inv set_totp_last_inv [OF inv] show ?thesis
    by (auto simp: begin_2fa_def Let_def split: option.splits sum.splits)
qed

lemma confirm_2fa_inv: "auth_inv d \<Longrightarrow> auth_inv (fst (confirm_2fa cr now user c d))"
proof -
  assume inv: "auth_inv d"
  have "accounts_ok (update_where (\<lambda>r. u_id r = us_id user)
      (\<lambda>r. r\<lparr>u_totp_secret := u_totp_pending r, u_totp_pending := None, u_totp_on := True, u_totp_last := st\<rparr>) (users d)) ss"
    if "accounts_ok (users d) ss" "select_one (\<lambda>r. u_id r = us_id user) (users d) = Some r" "u_totp_pending r = Some p"
    for st r p ss
  proof (rule accounts_ok_users [OF that(1)])
    fix x assume x: "x \<in> set (users d)" "u_id x = us_id user"
    have "distinct (map u_id (users d))" using inv by (simp add: accounts_ok_def)
    then have "x = r" using select_one_key [of u_id "users d" x] x that(2) by simp
    with that(3) show "user_ok x \<Longrightarrow> user_ok (x\<lparr>u_totp_secret := u_totp_pending x, u_totp_pending := None,
        u_totp_on := True, u_totp_last := st\<rparr>)" by (simp add: user_ok_def)
  qed auto
  with inv show ?thesis
    by (auto simp: confirm_2fa_def accounts_ok_delete_sessions split: option.splits sum.splits)
qed

lemma elevate_inv: "auth_inv d \<Longrightarrow> auth_inv (fst (elevate cr now user c d))"
  by (auto simp: elevate_def Let_def split: option.splits sum.splits
      dest: set_totp_last_inv intro!: accounts_ok_update_sessions)

section \<open>What a guard may change\<close>

text \<open>A guard may only drop sessions or move their \<open>seen\<close> time.\<close>

definition touched :: "'a db_scheme \<Rightarrow> 'a db_scheme \<Rightarrow> bool" where
  "touched d d' = (\<exists>p f. (\<forall>s. \<exists>t. f s = s\<lparr>s_seen := t\<rparr>) \<and> d' = d\<lparr>sessions := map f (filter p (sessions d))\<rparr>)"

lemma seen_id: "\<exists>t. s = s\<lparr>s_seen := t\<rparr>"
  by (rule exI [of _ "s_seen s"]) simp

lemma touchedI:
  "(\<And>s. \<exists>t. f s = s\<lparr>s_seen := t\<rparr>) \<Longrightarrow> touched d (d\<lparr>sessions := map f (filter p (sessions d))\<rparr>)"
  unfolding touched_def by blast

lemma touched_delete: "touched d (d\<lparr>sessions := delete_where p (sessions d)\<rparr>)"
  using touchedI [OF seen_id, of d "\<lambda>s. \<not> p s"] by (simp add: delete_where_def)

lemma touched_seen: "touched d (d\<lparr>sessions := update_where p (\<lambda>s. s\<lparr>s_seen := n\<rparr>) (sessions d)\<rparr>)"
proof -
  have "\<exists>t. (if p s then s\<lparr>s_seen := n\<rparr> else s) = s\<lparr>s_seen := t\<rparr>" for s
    using seen_id [of s] by auto
  from touchedI [OF this, of d "\<lambda>s. True"] show ?thesis by (simp add: update_where_def)
qed

lemma touched_refl: "touched d d"
  using touchedI [OF seen_id, of d "\<lambda>s. True"] by simp

lemmas touched_intros = touched_refl touched_delete touched_seen

lemma touchedD:
  assumes "touched d d'"
  shows "users d' = users d" "login_fail d' = login_fail d"
    "s' \<in> set (sessions d') \<Longrightarrow> \<exists>s \<in> set (sessions d). \<exists>t. s' = s\<lparr>s_seen := t\<rparr>"
proof -
  obtain p f where f: "\<And>s. \<exists>t. f s = s\<lparr>s_seen := t\<rparr>"
    and d': "d' = d\<lparr>sessions := map f (filter p (sessions d))\<rparr>"
    using assms by (auto simp only: touched_def)
  show "users d' = users d" "login_fail d' = login_fail d" by (simp_all add: d')
  assume "s' \<in> set (sessions d')"
  then obtain s where s: "s \<in> set (sessions d)" "s' = f s" by (auto simp: d')
  from f [of s] s show "\<exists>s \<in> set (sessions d). \<exists>t. s' = s\<lparr>s_seen := t\<rparr>" by blast
qed

lemma touched_inv: "touched d d' \<Longrightarrow> auth_inv d \<Longrightarrow> auth_inv d'"
proof -
  assume t: "touched d d'" and inv: "auth_inv d"
  then obtain p f where f: "\<forall>s. \<exists>t. f s = s\<lparr>s_seen := t\<rparr>"
    and d': "d' = d\<lparr>sessions := map f (filter p (sessions d))\<rparr>" by (auto simp only: touched_def)
  have "s_id_hash (f s) = s_id_hash s" "s_user_id (f s) = s_user_id s" for s
    using f [rule_format, of s] by auto
  with inv show ?thesis by (simp add: d' accounts_ok_sessions)
qed

lemma user_from_cookie_touched: "user_from_cookie cr cfg now raw d = (d', ou) \<Longrightarrow> touched d d'"
  by (auto simp: user_from_cookie_def Let_def touched_intros split: option.splits if_splits)

lemma session_user_touched: "session_user cr cfg now rq d = (d', r) \<Longrightarrow> touched d d'"
  by (auto simp: session_user_def split: prod.splits option.splits if_splits dest: user_from_cookie_touched)

lemma current_user_touched: "current_user cr cfg now rq d = (d', r) \<Longrightarrow> touched d d'"
  by (auto simp: current_user_def split: prod.splits sum.splits if_splits dest: session_user_touched)

lemma admin_touched: "admin cr cfg now rq d = (d', r) \<Longrightarrow> touched d d'"
  by (auto simp: admin_def split: prod.splits sum.splits if_splits dest: current_user_touched)

lemma elevated_touched: "elevated cr cfg now rq d = (d', r) \<Longrightarrow> touched d d'"
  by (auto simp: elevated_def split: prod.splits sum.splits if_splits dest: admin_touched)

lemmas guard_touched = session_user_touched current_user_touched admin_touched elevated_touched

section \<open>What the guards let through\<close>

definition session_of :: "crypto \<Rightarrow> config \<Rightarrow> int \<Rightarrow> request \<Rightarrow> 'a db_scheme \<Rightarrow> session_row \<Rightarrow> user_row \<Rightarrow> bool" where
  \<comment> \<open>the request carries the cookie of a live session \<open>s\<close> of the account \<open>r\<close>\<close>
  "session_of cr cfg now rq d s r =
     (case rq_cookie rq of
        None \<Rightarrow> False
      | Some c \<Rightarrow> c \<noteq> [] \<and> length c \<le> 200 \<and> session_join (sha256 cr c) d = Some (s, r)
                  \<and> \<not> session_expired cfg now s)"

definition csrf_ok :: "config \<Rightarrow> request \<Rightarrow> bool" where
  "csrf_ok cfg rq = (safe_method rq \<or> (rq_x_icsd rq = Some ''1'' \<and> \<not> foreign_origin cfg rq))"

lemma session_join_Some:
  "session_join h d = Some (s, r) \<Longrightarrow>
   s \<in> set (sessions d) \<and> s_id_hash s = h \<and> r \<in> set (users d) \<and> u_id r = s_user_id s"
  by (auto simp: session_join_def split: option.splits dest!: select_one_Some)

lemma session_user_iff:
  "(\<exists>d'. session_user cr cfg now rq d = (d', Inr u)) \<longleftrightarrow>
   csrf_ok cfg rq \<and> (\<exists>s r. session_of cr cfg now rq d s r \<and>
     u = \<lparr>us_id = u_id r, us_username = u_username r, us_role = u_role r, us_totp_on = u_totp_on r,
          us_session = s_id_hash s, us_elevated_until = s_elevated_until s\<rparr>)"
  by (auto simp: session_user_def user_from_cookie_def session_of_def csrf_ok_def Let_def
      split: option.splits if_splits prod.splits dest: session_join_Some)

lemma current_user_iff:
  "(\<exists>d'. current_user cr cfg now rq d = (d', Inr u)) \<longleftrightarrow>
   (\<exists>d'. session_user cr cfg now rq d = (d', Inr u)) \<and> (require_2fa cfg \<longrightarrow> us_totp_on u)"
  by (auto simp: current_user_def split: prod.splits sum.splits)

lemma admin_iff:
  "(\<exists>d'. admin cr cfg now rq d = (d', Inr u)) \<longleftrightarrow>
   (\<exists>d'. current_user cr cfg now rq d = (d', Inr u)) \<and> us_role u = ''admin''"
  by (auto simp: admin_def is_admin_def split: prod.splits sum.splits)

lemma elevated_iff:
  "(\<exists>d'. elevated cr cfg now rq d = (d', Inr u)) \<longleftrightarrow>
   (\<exists>d'. admin cr cfg now rq d = (d', Inr u)) \<and> now \<le> us_elevated_until u"
  by (auto simp: elevated_def split: prod.splits sum.splits)

text \<open>
  C1. The guard of every dangerous route admits a request exactly when it carries the cookie of a live
  session of an administrator (with the second factor on, where it is mandatory), is not a
  cross-site request, and the session was confirmed with a code that has not run out.
\<close>

theorem elevated_guard_exact:
  "(\<exists>d' u. elevated cr cfg now rq d = (d', Inr u)) \<longleftrightarrow>
   csrf_ok cfg rq \<and> (\<exists>s r. session_of cr cfg now rq d s r \<and> u_role r = ''admin''
     \<and> (require_2fa cfg \<longrightarrow> u_totp_on r) \<and> now \<le> s_elevated_until s)"
proof -
  have "(\<exists>d' u. elevated cr cfg now rq d = (d', Inr u)) \<longleftrightarrow> (\<exists>u. \<exists>d'. elevated cr cfg now rq d = (d', Inr u))"
    by blast
  then show ?thesis
    unfolding elevated_iff admin_iff current_user_iff session_user_iff by fastforce
qed

section \<open>Sessions over time\<close>

lemma user_from_cookie_Some:
  assumes "user_from_cookie cr cfg now raw d = (d', Some u)"
  shows "\<exists>s r. raw \<noteq> None \<and> session_join (sha256 cr (the raw)) d = Some (s, r) \<and> us_id u = u_id r
    \<and> us_session u = s_id_hash s"
proof -
  have h: "s_id_hash s = h" if "session_join h d = Some (s, r)" for h s r
    using session_join_Some [OF that] by blast
  from assms show ?thesis
    by (auto simp: user_from_cookie_def Let_def h split: option.splits if_splits)
qed

lemma no_session_no_user:
  assumes "\<forall>s \<in> set (sessions d). P s \<longrightarrow> s_user_id s \<noteq> uid" and "user_from_cookie cr cfg t raw d = (d', Some u)"
    and "\<forall>s \<in> set (sessions d). s_id_hash s = us_session u \<longrightarrow> P s"
  shows "us_id u \<noteq> uid"
proof -
  obtain s r where j: "session_join (sha256 cr (the raw)) d = Some (s, r)" "us_id u = u_id r"
      "us_session u = s_id_hash s"
    using user_from_cookie_Some [OF assms(2)] by blast
  from session_join_Some [OF j(1)] j assms(1,3) show ?thesis by auto
qed

text \<open>
  C6. Changing a password or resetting the second factor logs the account out everywhere: afterwards no
  cookie at all authenticates as that account until it logs in again.
\<close>

theorem credential_change_ends_sessions:
  assumes "d1 = fst (set_password cr uid pw d) \<and> snd (set_password cr uid pw d) = Inr () \<or> d1 = reset_2fa uid d"
    and "user_from_cookie cr cfg t raw d1 = (d2, Some u)"
  shows "us_id u \<noteq> uid"
proof (rule no_session_no_user [where P = "\<lambda>s. True", OF _ assms(2)])
  show "\<forall>s \<in> set (sessions d1). True \<longrightarrow> s_user_id s \<noteq> uid"
    using assms(1) by (auto simp: set_password_def reset_2fa_def split: sum.splits)
qed simp

text \<open>
  Confirming a new second factor ends every other session of the account: afterwards only the session
  that confirmed it can authenticate as that account.
\<close>

theorem confirm_2fa_keeps_one_session:
  assumes "confirm_2fa cr now user c d = (d1, Inr ())"
    and "user_from_cookie cr cfg t raw d1 = (d2, Some u)" and "us_id u = us_id user"
  shows "us_session u = us_session user"
proof (rule ccontr)
  assume ne: "us_session u \<noteq> us_session user"
  have "us_id u \<noteq> us_id user"
    by (rule no_session_no_user [where P = "\<lambda>s. s_id_hash s \<noteq> us_session user", OF _ assms(2)])
      (use assms(1) ne in \<open>auto simp: confirm_2fa_def split: option.splits sum.splits if_splits\<close>)
  with assms(3) show False by simp
qed

section \<open>Brute force\<close>

type_synonym attempt = "int \<times> string \<times> string \<times> string option \<times> string \<times> string \<times> string"

fun login_run :: "crypto \<Rightarrow> attempt list \<Rightarrow> 'a db_scheme \<Rightarrow> 'a db_scheme" where
  "login_run cr [] d = d"
| "login_run cr ((now, un, pw, otp, ip, ua, raw) # rest) d =
     login_run cr rest (fst (login cr now un pw otp ip ua raw d))"

definition fails_in_window :: "(fail_row \<Rightarrow> bool) \<Rightarrow> int \<Rightarrow> fail_row list \<Rightarrow> nat" where
  "fails_in_window p T fs = length (filter (\<lambda>f. p f \<and> T - FAIL_WINDOW < f_ts f \<and> f_ts f \<le> T) fs)"

lemma fails_append:
  assumes "\<And>T. fails_in_window p T fs \<le> k" and "\<forall>f \<in> set fs. f_ts f \<le> f_ts x"
    and "length (filter (\<lambda>f. p f \<and> f_ts x - FAIL_WINDOW < f_ts f) fs) < k"
  shows "fails_in_window p T (fs @ [x]) \<le> k"
proof (cases "f_ts x \<le> T")
  case False
  then show ?thesis using assms(1) [of T] by (simp add: fails_in_window_def)
next
  case True
  have "length (filter (\<lambda>f. p f \<and> T - FAIL_WINDOW < f_ts f \<and> f_ts f \<le> T) fs)
      \<le> length (filter (\<lambda>f. p f \<and> f_ts x - FAIL_WINDOW < f_ts f) fs)"
    using True by (induction fs) auto
  with assms(3) show ?thesis by (simp add: fails_in_window_def)
qed

lemma open_session_fails: "login_fail (fst (open_session cr now u ip ua raw r d)) = login_fail d"
  by (simp add: open_session_def Let_def)

lemma set_totp_last_fails [simp]: "login_fail (set_totp_last i st d) = login_fail d"
  by (simp add: set_totp_last_def)

lemma login_fails:
  "login_fail (fst (login cr now un pw otp ip ua raw d)) = login_fail d \<or>
   (\<not> too_many now ip (take 64 (lower (strip un))) d \<and>
    login_fail (fst (login cr now un pw otp ip ua raw d)) =
      login_fail d @ [\<lparr>f_ip = ip, f_username = take 64 (lower (strip un)), f_ts = now\<rparr>])"
  by (auto simp: login_def Let_def fail_def open_session_fails split: option.splits bool.splits sum.splits)

definition fails_bounded :: "fail_row list \<Rightarrow> bool" where
  "fails_bounded fs = (\<forall>T x. fails_in_window (\<lambda>f. f_username f = x) T fs \<le> MAX_FAIL_USER
     \<and> fails_in_window (\<lambda>f. f_ip f = x) T fs \<le> MAX_FAIL_IP)"

lemma login_fails_bounded:
  assumes "fails_bounded (login_fail d)" "\<forall>f \<in> set (login_fail d). f_ts f \<le> now"
  shows "fails_bounded (login_fail (fst (login cr now un pw otp ip ua raw d)))"
    and "\<forall>f \<in> set (login_fail (fst (login cr now un pw otp ip ua raw d))). f_ts f \<le> now"
proof -
  let ?u = "take 64 (lower (strip un))"
  let ?x = "\<lparr>f_ip = ip, f_username = ?u, f_ts = now\<rparr>"
  show "\<forall>f \<in> set (login_fail (fst (login cr now un pw otp ip ua raw d))). f_ts f \<le> now"
    using login_fails [of cr now un pw otp ip ua raw d] assms(2) by auto
  have "fails_in_window (\<lambda>f. f_username f = y) T (login_fail d @ [?x]) \<le> MAX_FAIL_USER
      \<and> fails_in_window (\<lambda>f. f_ip f = y) T (login_fail d @ [?x]) \<le> MAX_FAIL_IP"
    if n: "\<not> too_many now ip ?u d" for y T
  proof -
    have old: "fails_in_window (\<lambda>f. f_username f = y) T (login_fail d) \<le> MAX_FAIL_USER"
      "fails_in_window (\<lambda>f. f_ip f = y) T (login_fail d) \<le> MAX_FAIL_IP" for T y
      using assms(1) by (auto simp: fails_bounded_def)
    have u: "fails_in_window (\<lambda>f. f_username f = ?u) T (login_fail d @ [?x]) \<le> MAX_FAIL_USER"
      using n assms(2) by (intro fails_append old) (auto simp: too_many_def Let_def)
    have i: "fails_in_window (\<lambda>f. f_ip f = ip) T (login_fail d @ [?x]) \<le> MAX_FAIL_IP"
      using n assms(2) by (intro fails_append old) (auto simp: too_many_def Let_def)
    have "fails_in_window p T (login_fail d @ [?x]) = fails_in_window p T (login_fail d)" if "\<not> p ?x" for p
      using that by (simp add: fails_in_window_def)
    then show ?thesis using u i old by (cases "y = ?u"; cases "y = ip") auto
  qed
  then show "fails_bounded (login_fail (fst (login cr now un pw otp ip ua raw d)))"
    using login_fails [of cr now un pw otp ip ua raw d] assms(1) by (auto simp: fails_bounded_def)
qed

lemma login_run_bounded:
  "fails_bounded (login_fail d) \<Longrightarrow> \<forall>f \<in> set (login_fail d). \<forall>a \<in> set as. f_ts f \<le> fst a \<Longrightarrow>
   sorted (map fst as) \<Longrightarrow> fails_bounded (login_fail (login_run cr as d))"
proof (induction cr as d rule: login_run.induct)
  case (2 cr now un pw otp ip ua raw rest d)
  then have le: "\<forall>f \<in> set (login_fail d). f_ts f \<le> now" by auto
  note step = login_fails_bounded [OF "2.prems"(1) le, of cr un pw otp ip ua raw]
  then have "\<forall>f \<in> set (login_fail (fst (login cr now un pw otp ip ua raw d))). \<forall>a \<in> set rest. f_ts f \<le> fst a"
    using "2.prems"(3) by force
  with 2 step show ?case by simp
qed simp


text \<open>
  The periodic clean-up never weakens the brute-force limit: it drops only failures that no later
  check would count.
\<close>

theorem prune_keeps_lockout:
  assumes "now \<le> later"
  shows "too_many later ip name (prune cfg now d) = too_many later ip name d"
proof -
  have "filter (\<lambda>f. p f \<and> later - FAIL_WINDOW < f_ts f) (delete_where (\<lambda>f. f_ts f < now - FAIL_WINDOW) fs)
      = filter (\<lambda>f. p f \<and> later - FAIL_WINDOW < f_ts f) fs" for p and fs :: "fail_row list"
    using assms by (induction fs) (auto simp: delete_where_def)
  then show ?thesis by (simp add: too_many_def prune_def Let_def)
qed

section \<open>Closed examples\<close>

definition demo_cfg :: config where
  "demo_cfg = \<lparr>data_dir = ''./data'', public_url = ''https://p.ir'', dist_dir = ''./dist'', require_2fa = True,
     secure_cookies = True, sample_interval = 5, session_idle_hours = 12, session_max_days = 7,
     keep_minutes_days = 15, keep_hours_days = 400, keep_events_days = 180\<rparr>"

definition demo_user :: "int \<Rightarrow> string \<Rightarrow> string \<Rightarrow> user_row" where
  "demo_user i name role = \<lparr>u_id = i, u_username = name, u_pw_hash = ''$longpassword'', u_role = role,
     u_totp_secret = Some ''AAAAAAAA'', u_totp_on = True, u_totp_last = 0, u_created = 0, u_last_login = None,
     u_totp_pending = Some ''AAAAAAAA''\<rparr>"

definition demo_session :: "string \<Rightarrow> int \<Rightarrow> session_row" where
  "demo_session tok uid = \<lparr>s_id_hash = ''#'' @ tok, s_user_id = uid, s_created = 30, s_seen = 30, s_ip = ''1.2.3.4'',
     s_ua = ''ua'', s_elevated_until = 500\<rparr>"

definition demo_db :: db where
  "demo_db = empty_db\<lparr>users := [demo_user 1 ''root'' ''admin'', demo_user 2 ''other'' ''viewer''],
     sessions := [demo_session ''tok'' 1, demo_session ''tik'' 2]\<rparr>"

definition demo_rq :: "string \<Rightarrow> string \<Rightarrow> request" where
  "demo_rq meth tok = \<lparr>rq_method = meth, rq_cookie = Some tok, rq_x_icsd = Some ''1'', rq_origin = Some ''https://p.ir/'',
     rq_user_agent = ''ua'', rq_scheme = ''http'', rq_netloc = ''localhost'', rq_client = Some ''1.2.3.4''\<rparr>"

lemmas demo_defs = demo_cfg_def demo_user_def demo_session_def demo_db_def demo_rq_def demo_crypto_def empty_db_def

theorem elevated_guard_exact_witness:
  "\<exists>d' u. elevated demo_crypto demo_cfg 40 (demo_rq ''POST'' ''tok'') demo_db = (d', Inr u)"
proof -
  have c: "csrf_ok demo_cfg (demo_rq ''POST'' ''tok'')" by code_simp
  have s: "session_of demo_crypto demo_cfg 40 (demo_rq ''POST'' ''tok'') demo_db (demo_session ''tok'' 1)
      (demo_user 1 ''root'' ''admin'')"
    by (simp add: session_of_def session_join_def select_one_def session_expired_def sha256_def demo_defs)
  have "u_role (demo_user 1 ''root'' ''admin'') = ''admin''" "u_totp_on (demo_user 1 ''root'' ''admin'')"
    "40 \<le> s_elevated_until (demo_session ''tok'' 1)" by (simp_all add: demo_defs)
  with c s show ?thesis
    unfolding elevated_guard_exact by blast
qed

lemma demo_cookie:
  "user_from_cookie demo_crypto demo_cfg 40 (Some ''tik'') (reset_2fa 1 demo_db) =
   (reset_2fa 1 demo_db, Some \<lparr>us_id = 2, us_username = ''other'', us_role = ''viewer'', us_totp_on = True,
      us_session = ''#tik'', us_elevated_until = 500\<rparr>)"
  by (simp add: user_from_cookie_def session_join_def sha256_def reset_2fa_def session_expired_def Let_def sql demo_defs)

theorem credential_change_ends_sessions_witness:
  "us_id \<lparr>us_id = 2, us_username = ''other'', us_role = ''viewer'', us_totp_on = True,
      us_session = ''#tik'', us_elevated_until = 500\<rparr> \<noteq> 1"
  by (rule credential_change_ends_sessions [OF _ demo_cookie]) (rule disjI2, rule refl)

definition demo_actor :: user where
  "demo_actor = \<lparr>us_id = 1, us_username = ''root'', us_role = ''admin'', us_totp_on = True,
     us_session = ''#tok'', us_elevated_until = 500\<rparr>"

theorem confirm_2fa_keeps_one_session_witness:
  "\<exists>d1 d2 u. confirm_2fa demo_crypto 40 demo_actor ''843009'' demo_db = (d1, Inr ())
     \<and> user_from_cookie demo_crypto demo_cfg 40 (Some ''tok'') d1 = (d2, Some u)
     \<and> us_session u = us_session demo_actor"
proof -
  let ?c = "confirm_2fa demo_crypto 40 demo_actor ''843009'' demo_db"
  let ?f = "user_from_cookie demo_crypto demo_cfg 40 (Some ''tok'') (fst ?c)"
  have c: "snd ?c = Inr ()" by code_simp
  have f: "map_option us_id (snd ?f) = Some (us_id demo_actor)" by code_simp
  then obtain u where u: "snd ?f = Some u" "us_id u = us_id demo_actor" by auto
  have "us_session u = us_session demo_actor"
    by (rule confirm_2fa_keeps_one_session [of demo_crypto 40 demo_actor "''843009''" demo_db "fst ?c"
          demo_cfg 40 "Some ''tok''" "fst ?f"]) (use c u in \<open>simp_all add: prod_eq_iff\<close>)
  with c u show ?thesis
    by (intro exI [of _ "fst ?c"] exI [of _ "fst ?f"] exI [of _ u]) (simp add: prod_eq_iff)
qed


theorem prune_keeps_lockout_witness:
  "(40::int) \<le> 50 \<and> too_many 50 ''9'' ''root'' (prune demo_cfg 40 demo_db) = too_many 50 ''9'' ''root'' demo_db"
  using prune_keeps_lockout [of 40 50] by simp

end
