(* ===== verification/Accounts.thy ===== *)
theory Accounts
  imports Auth
begin

text \<open>
  The account routes of the JSON API (\<open>hub/icsd_hub/api.py\<close>: login, logout, second factor, elevation,
  password, users, audit) and the command line (\<open>hub/icsd_hub/__main__.py\<close>). \<open>account_step\<close> is one call to
  any of them; runs are sequences of calls with the clock readings they saw.
\<close>

section \<open>Responses\<close>

definition VERSION :: string where
  "VERSION = ''2.1.0''"

record cookie =
  co_value :: string
  co_httponly :: bool
  co_samesite :: string
  co_path :: string
  co_secure :: bool
  co_max_age :: int

definition set_cookie :: "config \<Rightarrow> string \<Rightarrow> cookie" where
  "set_cookie cfg raw = \<lparr>co_value = raw, co_httponly = True, co_samesite = ''strict'', co_path = ''/'',
     co_secure = secure_cookies cfg, co_max_age = session_max_days cfg * 86400\<rparr>"

record me_out =
  me_username :: string
  me_role :: string
  me_totp_on :: bool
  me_elevated_until :: int
  me_must_setup_2fa :: bool
  me_version :: string

definition me_view :: "config \<Rightarrow> user \<Rightarrow> me_out" where
  "me_view cfg u = \<lparr>me_username = us_username u, me_role = us_role u, me_totp_on = us_totp_on u,
     me_elevated_until = us_elevated_until u, me_must_setup_2fa = (require_2fa cfg \<and> \<not> us_totp_on u),
     me_version = VERSION\<rparr>"

fun err_http :: "exc \<Rightarrow> exc" where
  "err_http (AuthError m st ex) = HTTPException st m"
| "err_http e = e"

definition depends :: "('d \<Rightarrow> ('d, user) io) \<Rightarrow> (user \<Rightarrow> 'd \<Rightarrow> ('d, 'r) io) \<Rightarrow> 'd \<Rightarrow> ('d, 'r) io" where
  \<comment> \<open>a route with a guard: the guard runs first and its exception ends the request\<close>
  "depends guard h d = (case guard d of (d', Inl e) \<Rightarrow> (d', Inl e) | (d', Inr u) \<Rightarrow> h u d')"

section \<open>Routes\<close>

definition api_login ::
  "crypto \<Rightarrow> config \<Rightarrow> int \<Rightarrow> request \<Rightarrow> string \<Rightarrow> string \<Rightarrow> string option \<Rightarrow> string \<Rightarrow> 'a db_scheme
   \<Rightarrow> ('a db_scheme, cookie \<times> me_out) io" where
  "api_login cr cfg now rq username password otp raw d =
     (if 64 < length username \<or> 256 < length password \<or> (case otp of None \<Rightarrow> False | Some c \<Rightarrow> 10 < length c)
      then (d, Inl (HTTPException 422 ''validation''))
      else if rq_x_icsd rq \<noteq> Some ''1'' then (d, Inl (HTTPException 403 ''bad request (CSRF)''))
      else case login cr now username password otp (client_ip rq) (rq_user_agent rq) raw d of
             (d', Inl e) \<Rightarrow> (d', Inl (err_http e))
           | (d', Inr (tok, u)) \<Rightarrow> (d', Inr (set_cookie cfg tok, me_view cfg u)))"

definition api_logout :: "crypto \<Rightarrow> request \<Rightarrow> 'a db_scheme \<Rightarrow> 'a db_scheme" where
  "api_logout cr rq d =
     (case rq_cookie rq of None \<Rightarrow> d | Some raw \<Rightarrow> if raw = [] then d else logout cr raw d)"

definition api_me :: "crypto \<Rightarrow> config \<Rightarrow> int \<Rightarrow> request \<Rightarrow> 'a db_scheme \<Rightarrow> ('a db_scheme, me_out) io" where
  "api_me cr cfg now rq = depends (current_user_any cr cfg now rq) (\<lambda>u d. (d, Inr (me_view cfg u)))"

definition api_twofa_begin ::
  "crypto \<Rightarrow> config \<Rightarrow> int \<Rightarrow> request \<Rightarrow> string option \<Rightarrow> byte list \<Rightarrow> 'a db_scheme \<Rightarrow> ('a db_scheme, string \<times> string) io" where
  "api_twofa_begin cr cfg now rq c rnd =
     depends (current_user_any cr cfg now rq) (\<lambda>u d.
       if (case c of None \<Rightarrow> False | Some x \<Rightarrow> 10 < length x) then (d, Inl (HTTPException 422 ''validation''))
       else case begin_2fa cr now u c rnd d of (d', Inl e) \<Rightarrow> (d', Inl (err_http e)) | (d', Inr x) \<Rightarrow> (d', Inr x))"

definition api_twofa_confirm ::
  "crypto \<Rightarrow> config \<Rightarrow> int \<Rightarrow> request \<Rightarrow> string \<Rightarrow> 'a db_scheme \<Rightarrow> ('a db_scheme, me_out) io" where
  "api_twofa_confirm cr cfg now rq c =
     depends (current_user_any cr cfg now rq) (\<lambda>u d.
       if 10 < length c then (d, Inl (HTTPException 422 ''validation''))
       else case confirm_2fa cr now u c d of
              (d', Inl e) \<Rightarrow> (d', Inl (err_http e))
            | (d', Inr _) \<Rightarrow>
                (audit now (Some (us_username u)) ''2fa.enable'' [] (Some (client_ip rq)) d',
                 Inr (me_view cfg (u\<lparr>us_totp_on := True\<rparr>))))"

definition api_elevate ::
  "crypto \<Rightarrow> config \<Rightarrow> int \<Rightarrow> request \<Rightarrow> string \<Rightarrow> 'a db_scheme \<Rightarrow> ('a db_scheme, int) io" where
  "api_elevate cr cfg now rq c =
     depends (admin cr cfg now rq) (\<lambda>u d.
       if 10 < length c then (d, Inl (HTTPException 422 ''validation''))
       else case elevate cr now u c d of
              (d', Inl e) \<Rightarrow> (d', Inl (err_http e))
            | (d', Inr until) \<Rightarrow>
                (audit now (Some (us_username u)) ''elevate'' [] (Some (client_ip rq)) d', Inr until))"

definition api_change_password ::
  "crypto \<Rightarrow> config \<Rightarrow> int \<Rightarrow> request \<Rightarrow> string \<Rightarrow> string \<Rightarrow> 'a db_scheme \<Rightarrow> ('a db_scheme, unit) io" where
  "api_change_password cr cfg now rq old_pw new_pw =
     depends (current_user cr cfg now rq) (\<lambda>u d.
       if 256 < length old_pw \<or> 256 < length new_pw then (d, Inl (HTTPException 422 ''validation''))
       else case select_one (\<lambda>r. u_id r = us_id u) (users d) of
              None \<Rightarrow> (d, Inl (HTTPException 400 ''current password is wrong''))
            | Some row \<Rightarrow>
                if \<not> verify_password cr old_pw (u_pw_hash row)
                then (d, Inl (HTTPException 400 ''current password is wrong''))
                else case set_password cr (us_id u) new_pw d of
                       (d', Inl e) \<Rightarrow> (d', Inl (err_http e))
                     | (d', Inr _) \<Rightarrow>
                         (audit now (Some (us_username u)) ''password.change'' [] (Some (client_ip rq)) d', Inr ()))"

definition api_users :: "crypto \<Rightarrow> config \<Rightarrow> int \<Rightarrow> request \<Rightarrow> 'a db_scheme \<Rightarrow> ('a db_scheme, user_row list) io" where
  "api_users cr cfg now rq = depends (admin cr cfg now rq) (\<lambda>u d. (d, Inr (list_users d)))"

definition api_add_user ::
  "crypto \<Rightarrow> config \<Rightarrow> int \<Rightarrow> request \<Rightarrow> string \<Rightarrow> string \<Rightarrow> string \<Rightarrow> 'a db_scheme \<Rightarrow> ('a db_scheme, user_row list) io" where
  "api_add_user cr cfg now rq username password role =
     depends (elevated cr cfg now rq) (\<lambda>u d.
       if 32 < length username \<or> 256 < length password then (d, Inl (HTTPException 422 ''validation''))
       else case create_user cr now username password role d of
              (d', Inl e) \<Rightarrow> (d', Inl (err_http e))
            | (d', Inr (uid, un, ro)) \<Rightarrow>
                let d2 = audit now (Some (us_username u)) ''user.add'' (un @ '' ('' @ ro @ '')'') (Some (client_ip rq)) d'
                in (d2, Inr (list_users d2)))"

definition api_remove_user ::
  "crypto \<Rightarrow> config \<Rightarrow> int \<Rightarrow> request \<Rightarrow> int \<Rightarrow> 'a db_scheme \<Rightarrow> ('a db_scheme, user_row list) io" where
  "api_remove_user cr cfg now rq uid =
     depends (elevated cr cfg now rq) (\<lambda>u d.
       if uid = us_id u then (d, Inl (HTTPException 400 ''you cannot delete yourself''))
       else case delete_user uid d of
              (d', Inl e) \<Rightarrow> (d', Inl (err_http e))
            | (d', Inr _) \<Rightarrow>
                let d2 = audit now (Some (us_username u)) ''user.delete'' (str_int uid) (Some (client_ip rq)) d'
                in (d2, Inr (list_users d2)))"

definition api_user_reset_2fa ::
  "crypto \<Rightarrow> config \<Rightarrow> int \<Rightarrow> request \<Rightarrow> int \<Rightarrow> 'a db_scheme \<Rightarrow> ('a db_scheme, user_row list) io" where
  "api_user_reset_2fa cr cfg now rq uid =
     depends (elevated cr cfg now rq) (\<lambda>u d.
       let d2 = audit now (Some (us_username u)) ''user.reset_2fa'' (str_int uid) (Some (client_ip rq)) (reset_2fa uid d)
       in (d2, Inr (list_users d2)))"

definition api_audit :: "crypto \<Rightarrow> config \<Rightarrow> int \<Rightarrow> request \<Rightarrow> 'a db_scheme \<Rightarrow> ('a db_scheme, audit_row list) io" where
  "api_audit cr cfg now rq =
     depends (admin cr cfg now rq) (\<lambda>u d. (d, Inr (take 200 (sort_key (\<lambda>a. - au_id a) (audit_log d)))))"

section \<open>Command line\<close>

datatype pw_input = Piped string | Typed string string

definition cli_password :: "pw_input \<Rightarrow> string res" where
  "cli_password inp =
     (case inp of
        Piped line \<Rightarrow> Inr (rstrip_char (CHR ''\<newline>'') line)
      | Typed p1 p2 \<Rightarrow> if p1 \<noteq> p2 then Inl (SysExit ''passwords differ'') else Inr p1)"

definition cli_user :: "string \<Rightarrow> 'a db_scheme \<Rightarrow> int res" where
  "cli_user name d =
     (case select_one (\<lambda>r. u_username r = lower (strip name)) (users d) of
        None \<Rightarrow> Inl (SysExit ''no such user'')
      | Some r \<Rightarrow> Inr (u_id r))"

fun exit_on_auth :: "exc \<Rightarrow> exc" where
  "exit_on_auth (AuthError m st ex) = SysExit m"
| "exit_on_auth e = e"

definition cli_main ::
  "crypto \<Rightarrow> int \<Rightarrow> string list \<Rightarrow> string \<Rightarrow> pw_input \<Rightarrow> 'a db_scheme \<Rightarrow> ('a db_scheme, unit) io" where
  \<comment> \<open>arguments: the command line, the line typed at the username prompt, the password input\<close>
  "cli_main cr now argv line pw d =
     (case argv of
        [] \<Rightarrow> (d, Inl (SysExit ''usage''))
      | cmd # args \<Rightarrow>
          if cmd = ''create-admin'' then
            (let name = (case args of a # _ \<Rightarrow> a | [] \<Rightarrow> if strip line = [] then ''admin'' else strip line) in
             case cli_password pw of
               Inl e \<Rightarrow> (d, Inl e)
             | Inr p \<Rightarrow> (case create_user cr now name p ''admin'' d of
                           (d', Inl e) \<Rightarrow> (d', Inl (exit_on_auth e)) | (d', Inr _) \<Rightarrow> (d', Inr ())))
          else if cmd = ''set-password'' \<and> args \<noteq> [] then
            (case cli_user (hd args) d of
               Inl e \<Rightarrow> (d, Inl e)
             | Inr uid \<Rightarrow>
                 (case cli_password pw of
                    Inl e \<Rightarrow> (d, Inl e)
                  | Inr p \<Rightarrow> (case set_password cr uid p d of
                                (d', Inl e) \<Rightarrow> (d', Inl (exit_on_auth e)) | (d', Inr _) \<Rightarrow> (d', Inr ()))))
          else if cmd = ''reset-2fa'' \<and> args \<noteq> [] then
            (case cli_user (hd args) d of Inl e \<Rightarrow> (d, Inl e) | Inr uid \<Rightarrow> (reset_2fa uid d, Inr ()))
          else if cmd = ''users'' then (d, Inr ())
          else (d, Inl (SysExit ''usage'')))"

section \<open>Runs\<close>

datatype account_call =
    CLogin request string string "string option" string
  | CLogout request
  | CMe request
  | CBegin request "string option" "byte list"
  | CConfirm request string
  | CElevate request string
  | CPassword request string string
  | CUsers request
  | CAddUser request string string string
  | CRemoveUser request int
  | CResetUser request int
  | CAudit request
  | CCli "string list" string pw_input
  | CPrune

fun account_call_db :: "crypto \<Rightarrow> config \<Rightarrow> int \<Rightarrow> account_call \<Rightarrow> 'a db_scheme \<Rightarrow> 'a db_scheme" where
  "account_call_db cr cfg now (CLogin rq un pw otp raw) d = fst (api_login cr cfg now rq un pw otp raw d)"
| "account_call_db cr cfg now (CLogout rq) d = api_logout cr rq d"
| "account_call_db cr cfg now (CMe rq) d = fst (api_me cr cfg now rq d)"
| "account_call_db cr cfg now (CBegin rq c rnd) d = fst (api_twofa_begin cr cfg now rq c rnd d)"
| "account_call_db cr cfg now (CConfirm rq c) d = fst (api_twofa_confirm cr cfg now rq c d)"
| "account_call_db cr cfg now (CElevate rq c) d = fst (api_elevate cr cfg now rq c d)"
| "account_call_db cr cfg now (CPassword rq po pn) d = fst (api_change_password cr cfg now rq po pn d)"
| "account_call_db cr cfg now (CUsers rq) d = fst (api_users cr cfg now rq d)"
| "account_call_db cr cfg now (CAddUser rq un pw ro) d = fst (api_add_user cr cfg now rq un pw ro d)"
| "account_call_db cr cfg now (CRemoveUser rq uid) d = fst (api_remove_user cr cfg now rq uid d)"
| "account_call_db cr cfg now (CResetUser rq uid) d = fst (api_user_reset_2fa cr cfg now rq uid d)"
| "account_call_db cr cfg now (CAudit rq) d = fst (api_audit cr cfg now rq d)"
| "account_call_db cr cfg now (CCli argv line pw) d = fst (cli_main cr now argv line pw d)"
| "account_call_db cr cfg now CPrune d = prune cfg now d"

text \<open>A successful elevation is logged with the session it was granted to and the time.\<close>

fun elevation_of :: "crypto \<Rightarrow> config \<Rightarrow> int \<Rightarrow> account_call \<Rightarrow> 'a db_scheme \<Rightarrow> (string \<times> int) list" where
  "elevation_of cr cfg now (CElevate rq c) d =
     (case (snd (admin cr cfg now rq d), snd (api_elevate cr cfg now rq c d)) of
        (Inr u, Inr _) \<Rightarrow> [(us_session u, now)]
      | _ \<Rightarrow> [])"
| "elevation_of cr cfg now _ d = []"

definition account_step ::
  "crypto \<Rightarrow> config \<Rightarrow> int \<times> account_call \<Rightarrow> 'a db_scheme \<times> (string \<times> int) list
   \<Rightarrow> 'a db_scheme \<times> (string \<times> int) list" where
  "account_step cr cfg op st =
     (account_call_db cr cfg (fst op) (snd op) (fst st), snd st @ elevation_of cr cfg (fst op) (snd op) (fst st))"

section \<open>Invariants of every run\<close>

text \<open>
  What the account operations promise about a predicate of the database; the routes then keep it, since
  they add only guards and audit entries. Elevation is left out: it alone extends a session's rights.
\<close>

locale account_contract =
  fixes P :: "'a db_scheme \<Rightarrow> bool"
  assumes P_touched: "P d \<Longrightarrow> touched d d' \<Longrightarrow> P d'"
    and P_audit: "P d \<Longrightarrow> P (audit now aun act det aip d)"
    and P_create: "P d \<Longrightarrow> P (fst (create_user cr now nm pw role d))"
    and P_delete: "P d \<Longrightarrow> P (fst (delete_user uid d))"
    and P_password: "P d \<Longrightarrow> P (fst (set_password cr uid pw d))"
    and P_reset: "P d \<Longrightarrow> P (reset_2fa uid d)"
    and P_login: "P d \<Longrightarrow> P (fst (login cr now nm pw otp ip ua raw d))"
    and P_begin: "P d \<Longrightarrow> P (fst (begin_2fa cr now u oc rnd d))"
    and P_confirm: "P d \<Longrightarrow> P (fst (confirm_2fa cr now u c d))"
    and P_prune: "P d \<Longrightarrow> P (prune cfg now d)"
begin

lemma P_depends:
  assumes "P d" and "\<And>d' r. guard d = (d', r) \<Longrightarrow> touched d d'"
    and "\<And>d' u. P d' \<Longrightarrow> P (fst (h u d'))"
  shows "P (fst (depends guard h d))"
proof (cases "guard d")
  case (Pair d' r)
  then have "P d'" using assms(1) P_touched assms(2) by blast
  with assms(3) Pair show ?thesis by (cases r) (auto simp: depends_def)
qed

lemma P_out:
  "create_user cr now nm pw role d = (d', r1) \<Longrightarrow> P d \<Longrightarrow> P d'"
  "delete_user uid d = (d', r2) \<Longrightarrow> P d \<Longrightarrow> P d'"
  "set_password cr uid pw d = (d', r2) \<Longrightarrow> P d \<Longrightarrow> P d'"
  "begin_2fa cr now u oc rnd d = (d', r3) \<Longrightarrow> P d \<Longrightarrow> P d'"
  "confirm_2fa cr now u c d = (d', r2) \<Longrightarrow> P d \<Longrightarrow> P d'"
  "login cr now nm pw otp ip ua raw d = (d', r4) \<Longrightarrow> P d \<Longrightarrow> P d'"
  using P_create [of d cr now nm pw role] P_delete [of d uid] P_password [of d cr uid pw]
    P_begin [of d cr now u oc rnd] P_confirm [of d cr now u c] P_login [of d cr now nm pw otp ip ua raw]
  by simp_all

lemma P_logout: "P d \<Longrightarrow> P (api_logout cr rq d)"
  using P_touched touched_delete by (auto simp: api_logout_def logout_def split: option.splits)

lemma P_cli: "P d \<Longrightarrow> P (fst (cli_main cr now argv line pw d))"
proof (cases argv)
  case (Cons cmd args)
  have c: "P (fst (case create_user cr now nm p ''admin'' d of
        (d', Inl e) \<Rightarrow> (d', Inl (exit_on_auth e)) | (d', Inr _) \<Rightarrow> (d', Inr ())))" if "P d" for nm p
    using that by (auto split: prod.splits sum.splits dest: P_out)
  have w: "P (fst (case set_password cr uid p d of
        (d', Inl e) \<Rightarrow> (d', Inl (exit_on_auth e)) | (d', Inr _) \<Rightarrow> (d', Inr ())))" if "P d" for uid p
    using that by (auto split: prod.splits sum.splits dest: P_out)
  assume "P d"
  with Cons c w P_reset show ?thesis
    by (simp add: cli_main_def Let_def split: sum.split)
qed (simp add: cli_main_def)

lemma P_api_login: "P d \<Longrightarrow> P (fst (api_login cr cfg now rq un pw otp raw d))"
  by (auto simp: api_login_def split: prod.splits sum.splits dest: P_out)

lemma P_call:
  assumes "P d" and "\<And>rq c. call \<noteq> CElevate rq c"
  shows "P (account_call_db cr cfg now call d)"
proof (cases call)
  case (CBegin rq c rnd)
  have "P (fst (api_twofa_begin cr cfg now rq c rnd d))"
    unfolding api_twofa_begin_def current_user_any_def
    by (rule P_depends [OF assms(1) session_user_touched])
      (auto split: prod.splits sum.splits dest: P_out)
  with CBegin show ?thesis by simp
next
  case (CConfirm rq c)
  have "P (fst (api_twofa_confirm cr cfg now rq c d))"
    unfolding api_twofa_confirm_def current_user_any_def
    by (rule P_depends [OF assms(1) session_user_touched])
      (auto split: prod.splits sum.splits intro!: P_audit dest: P_out)
  with CConfirm show ?thesis by simp
next
  case (CPassword rq po pn)
  have "P (fst (api_change_password cr cfg now rq po pn d))"
    unfolding api_change_password_def
    by (rule P_depends [OF assms(1) current_user_touched])
      (auto split: prod.splits sum.splits option.splits intro!: P_audit dest: P_out)
  with CPassword show ?thesis by simp
next
  case (CAddUser rq un pw ro)
  have "P (fst (api_add_user cr cfg now rq un pw ro d))"
    unfolding api_add_user_def
    by (rule P_depends [OF assms(1) elevated_touched])
      (auto simp: Let_def split: prod.splits sum.splits intro!: P_audit dest: P_out)
  with CAddUser show ?thesis by simp
next
  case (CRemoveUser rq uid)
  have "P (fst (api_remove_user cr cfg now rq uid d))"
    unfolding api_remove_user_def
    by (rule P_depends [OF assms(1) elevated_touched])
      (auto simp: Let_def split: prod.splits sum.splits intro!: P_audit dest: P_out)
  with CRemoveUser show ?thesis by simp
next
  case (CResetUser rq uid)
  have "P (fst (api_user_reset_2fa cr cfg now rq uid d))"
    unfolding api_user_reset_2fa_def
    by (rule P_depends [OF assms(1) elevated_touched]) (auto simp: Let_def intro!: P_audit P_reset)
  with CResetUser show ?thesis by simp
next
  case (CMe rq)
  have "P (fst (api_me cr cfg now rq d))"
    unfolding api_me_def current_user_any_def by (rule P_depends [OF assms(1) session_user_touched]) auto
  with CMe show ?thesis by simp
next
  case (CUsers rq)
  have "P (fst (api_users cr cfg now rq d))"
    unfolding api_users_def by (rule P_depends [OF assms(1) admin_touched]) auto
  with CUsers show ?thesis by simp
next
  case (CAudit rq)
  have "P (fst (api_audit cr cfg now rq d))"
    unfolding api_audit_def by (rule P_depends [OF assms(1) admin_touched]) auto
  with CAudit show ?thesis by simp
qed (use assms in \<open>simp_all add: P_logout P_cli P_api_login P_prune\<close>)

end

definition grants_ok :: "(string \<times> int) list \<Rightarrow> session_row list \<Rightarrow> bool" where
  \<comment> \<open>an elevated session was granted its elevation by a logged call\<close>
  "grants_ok lg ss = (\<forall>s \<in> set ss. s_elevated_until s = 0 \<or>
     (\<exists>t. (s_id_hash s, t) \<in> set lg \<and> s_elevated_until s = t + ELEVATE_SECONDS))"

definition has_admin :: "'a db_scheme \<Rightarrow> bool" where
  "has_admin d = (''admin'' \<in> u_role ` set (users d))"

lemma grants_ok_mono: "grants_ok lg ss \<Longrightarrow> set ss' \<subseteq> set ss \<Longrightarrow> set lg \<subseteq> set lg' \<Longrightarrow> grants_ok lg' ss'"
  unfolding grants_ok_def by blast

lemma grants_ok_delete: "grants_ok lg ss \<Longrightarrow> grants_ok lg (delete_where p ss)"
  by (erule grants_ok_mono) auto

lemma touched_grants: "grants_ok lg (sessions d) \<Longrightarrow> touched d d' \<Longrightarrow> grants_ok lg (sessions d')"
  unfolding grants_ok_def by (auto dest!: touchedD(3))

lemma sessions_set_totp_last [simp]: "sessions (set_totp_last i st d) = sessions d"
  by (simp add: set_totp_last_def)

lemma open_session_grants:
  "grants_ok lg (sessions d) \<Longrightarrow> grants_ok lg (sessions (fst (open_session cr now u ip ua raw r d)))"
  by (auto simp: open_session_def Let_def grants_ok_def)

interpretation wf: account_contract auth_inv
  by unfold_locales
    (auto intro: touched_inv create_user_inv delete_user_inv set_password_inv reset_2fa_inv login_inv
      begin_2fa_inv confirm_2fa_inv prune_inv)

interpretation grants: account_contract "\<lambda>d. grants_ok lg (sessions d)" for lg
proof unfold_locales
  show "grants_ok lg (sessions (fst (create_user cr now nm pw role d)))" if "grants_ok lg (sessions d)"
    for cr now nm pw role and d :: "'a db_scheme"
    using that by (auto simp: create_user_def Let_def split: sum.splits)
  show "grants_ok lg (sessions (fst (login cr now nm pw otp ip ua raw d)))" if "grants_ok lg (sessions d)"
    for cr now nm pw otp ip ua raw and d :: "'a db_scheme"
    using that by (auto simp: login_def Let_def open_session_grants split: option.splits bool.splits sum.splits)
  show "grants_ok lg (sessions (fst (begin_2fa cr now u oc rnd d)))" if "grants_ok lg (sessions d)"
    for cr now u oc rnd and d :: "'a db_scheme"
    using that by (auto simp: begin_2fa_def Let_def split: option.splits sum.splits)
  show "grants_ok lg (sessions (fst (confirm_2fa cr now u c d)))" if "grants_ok lg (sessions d)"
    for cr now u c and d :: "'a db_scheme"
    using that by (auto simp: confirm_2fa_def grants_ok_delete split: option.splits sum.splits)
qed (auto intro: touched_grants simp: delete_user_def set_password_def reset_2fa_def prune_def
    grants_ok_delete split: option.splits sum.splits)

lemma roles_update_where:
  assumes "\<And>r. u_role (f r) = u_role r"
  shows "u_role ` set (update_where p f us) = u_role ` set us"
proof -
  have "set (map u_role (update_where p f us)) = set (map u_role us)"
    using assms by (simp only: map_update_where)
  then show ?thesis by simp
qed

lemma open_session_roles: "u_role ` set (users (fst (open_session cr now u ip ua raw r d))) = u_role ` set (users d)"
  by (auto simp: open_session_def Let_def roles_update_where)

lemma set_totp_last_roles: "u_role ` set (users (set_totp_last i st d)) = u_role ` set (users d)"
  by (simp add: set_totp_last_def roles_update_where)

lemma login_roles: "u_role ` set (users (fst (login cr now nm pw otp ip ua raw d))) = u_role ` set (users d)"
  by (auto simp: login_def Let_def open_session_roles set_totp_last_roles split: option.splits bool.splits sum.splits)

lemma begin_2fa_roles: "u_role ` set (users (fst (begin_2fa cr now u oc rnd d))) = u_role ` set (users d)"
  by (auto simp: begin_2fa_def Let_def roles_update_where set_totp_last_roles split: option.splits sum.splits)

lemma confirm_2fa_roles: "u_role ` set (users (fst (confirm_2fa cr now u c d))) = u_role ` set (users d)"
  by (auto simp: confirm_2fa_def roles_update_where split: option.splits sum.splits)

lemma create_user_roles: "u_role ` set (users d) \<subseteq> u_role ` set (users (fst (create_user cr now nm pw role d)))"
  by (auto simp: create_user_def Let_def split: sum.splits)

lemma set_password_roles: "u_role ` set (users (fst (set_password cr uid pw d))) = u_role ` set (users d)"
  by (auto simp: set_password_def roles_update_where split: sum.splits)

lemma reset_2fa_roles: "u_role ` set (users (reset_2fa uid d)) = u_role ` set (users d)"
  by (simp add: reset_2fa_def roles_update_where)

lemma two_of_kind:
  "distinct (map k rows) \<Longrightarrow> 1 < length (filter q rows) \<Longrightarrow> \<exists>r \<in> set rows. q r \<and> k r \<noteq> x"
proof -
  assume dist: "distinct (map k rows)" and two: "1 < length (filter q rows)"
  then obtain a b rest where ab: "filter q rows = a # b # rest"
    by (cases "filter q rows"; cases "tl (filter q rows)") auto
  have "distinct (map k (filter q rows))" using dist by (simp add: distinct_map_filter)
  then have "k a \<noteq> k b" by (simp add: ab)
  moreover have "{a, b} \<subseteq> set (filter q rows)" unfolding ab by simp
  then have "{a, b} \<subseteq> {r \<in> set rows. q r}" unfolding set_filter .
  ultimately show ?thesis by auto
qed

lemma has_admin_iff: "has_admin d \<longleftrightarrow> (\<exists>r \<in> set (users d). u_role r = ''admin'')"
  unfolding has_admin_def by force

lemma delete_user_admin:
  assumes inv: "auth_inv d" and adm: "has_admin d"
  shows "has_admin (fst (delete_user uid d))"
proof (cases "select_one (\<lambda>r. u_id r = uid) (users d)")
  case None
  with adm show ?thesis by (simp add: delete_user_def)
next
  case (Some tgt)
  have dist: "distinct (map u_id (users d))" using inv by (simp add: accounts_ok_def)
  have other: "\<exists>r \<in> set (users d). u_role r = ''admin'' \<and> u_id r \<noteq> uid"
    if "u_role tgt \<noteq> ''admin'' \<or> 1 < length (filter (\<lambda>r. u_role r = ''admin'') (users d))"
  proof (cases "u_role tgt = ''admin''")
    case True
    with that two_of_kind [OF dist] show ?thesis by blast
  next
    case False
    from adm obtain r where r: "r \<in> set (users d)" "u_role r = ''admin''" by (auto simp: has_admin_def)
    have "u_id r \<noteq> uid"
      using select_one_key [OF dist r(1)] Some False r(2) by auto
    with r show ?thesis by blast
  qed
  show ?thesis
    using Some adm other by (auto simp: delete_user_def has_admin_iff not_le)
qed

interpretation last_admin: account_contract "\<lambda>d. auth_inv d \<and> has_admin d"
proof unfold_locales
  have roles: "has_admin d'" if "has_admin d" "u_role ` set (users d) \<subseteq> u_role ` set (users d')"
    for d d' :: "'a db_scheme" using that unfolding has_admin_def by blast
  fix d :: "'a db_scheme"
  assume P: "auth_inv d \<and> has_admin d"
  then have a: "has_admin d" by simp
  show "auth_inv d' \<and> has_admin d'" if "touched d d'" for d'
    using touched_inv [OF that] P touchedD(1) [OF that] by (simp add: has_admin_def)
  show "auth_inv (audit now aun act det aip d) \<and> has_admin (audit now aun act det aip d)" for now aun act det aip
    using P by (simp add: has_admin_def)
  show "auth_inv (fst (create_user cr now nm pw role d)) \<and> has_admin (fst (create_user cr now nm pw role d))"
    for cr now nm pw role
    using P create_user_inv roles [OF a create_user_roles] by blast
  show "auth_inv (fst (delete_user uid d)) \<and> has_admin (fst (delete_user uid d))" for uid
    using P delete_user_inv delete_user_admin by blast
  show "auth_inv (fst (set_password cr uid pw d)) \<and> has_admin (fst (set_password cr uid pw d))" for cr uid pw
    using P set_password_inv roles [OF a] set_password_roles by blast
  show "auth_inv (reset_2fa uid d) \<and> has_admin (reset_2fa uid d)" for uid
    using P reset_2fa_inv roles [OF a] reset_2fa_roles by blast
  show "auth_inv (fst (login cr now nm pw otp ip ua raw d)) \<and> has_admin (fst (login cr now nm pw otp ip ua raw d))"
    for cr now nm pw otp ip ua raw
    using P login_inv by (auto simp: login_roles intro!: roles [OF a])
  show "auth_inv (fst (begin_2fa cr now u oc rnd d)) \<and> has_admin (fst (begin_2fa cr now u oc rnd d))" for cr now u oc rnd
    using P begin_2fa_inv by (auto simp: begin_2fa_roles intro!: roles [OF a])
  show "auth_inv (fst (confirm_2fa cr now u c d)) \<and> has_admin (fst (confirm_2fa cr now u c d))" for cr now u c
    using P confirm_2fa_inv by (auto simp: confirm_2fa_roles intro!: roles [OF a])
  show "auth_inv (prune cfg now d) \<and> has_admin (prune cfg now d)" for cfg now
    using P prune_inv [of d cfg now] by (auto simp: prune_def has_admin_def)
qed

section \<open>Elevation\<close>

lemma depends_cases:
  assumes "depends guard h d = (d', x)"
  obtains e where "guard d = (d', Inl e)" "x = Inl e"
  | u d1 where "guard d = (d1, Inr u)" "h u d1 = (d', x)"
  using assms by (auto simp: depends_def split: prod.splits sum.splits)

lemma elevate_roles: "u_role ` set (users (fst (elevate cr now u c d))) = u_role ` set (users d)"
  by (auto simp: elevate_def Let_def set_totp_last_roles split: option.splits sum.splits)

lemma elevate_sessions:
  assumes "elevate cr now u c d = (d', x)"
  shows "(\<exists>e. x = Inl e \<and> d' = d) \<or>
    (x = Inr (now + ELEVATE_SECONDS) \<and> sessions d' = update_where (\<lambda>s. s_id_hash s = us_session u)
       (\<lambda>s. s\<lparr>s_elevated_until := now + ELEVATE_SECONDS\<rparr>) (sessions d))"
  using assms by (cases x) (auto simp: elevate_def Let_def split: option.splits sum.splits if_splits)

lemma api_elevate_cases:
  fixes d :: "'a db_scheme"
  obtains (refused) e where "touched d (fst (api_elevate cr cfg now rq c d))" "snd (api_elevate cr cfg now rq c d) = Inl e"
  | (granted) d1 d2 u where "admin cr cfg now rq d = (d1, Inr u)" "elevate cr now u c d1 = (d2, Inr (now + ELEVATE_SECONDS))"
      "fst (api_elevate cr cfg now rq c d) = audit now (Some (us_username u)) ''elevate'' [] (Some (client_ip rq)) d2"
      "snd (api_elevate cr cfg now rq c d) = Inr (now + ELEVATE_SECONDS)"
proof (cases "admin cr cfg now rq d")
  case (Pair d1 x)
  note t = admin_touched [OF Pair]
  show thesis
  proof (cases x)
    case (Inl e)
    with Pair t show ?thesis by (intro refused) (simp_all add: api_elevate_def depends_def)
  next
    case (Inr u)
    obtain d2 y where e: "elevate cr now u c d1 = (d2, y)" by fastforce
    from elevate_sessions [OF e] show ?thesis
    proof (elim disjE exE conjE)
      fix er assume "y = Inl er" "d2 = d1"
      with Pair Inr t e show ?thesis
        by (cases "10 < length c") (auto simp: api_elevate_def depends_def intro: refused)
    next
      assume "y = Inr (now + ELEVATE_SECONDS)"
      with Pair Inr t e show ?thesis
        by (cases "10 < length c") (auto simp: api_elevate_def depends_def intro: refused granted)
    qed
  qed
qed

lemma api_elevate_inv: "auth_inv d \<Longrightarrow> auth_inv (fst (api_elevate cr cfg now rq c d))"
proof (cases rule: api_elevate_cases [of d cr cfg now rq c])
  case (granted d1 d2 u)
  assume "auth_inv d"
  with granted elevate_inv [of d1 cr now u c] show ?thesis by (simp add: touched_inv [OF admin_touched])
qed (simp add: touched_inv)

lemma api_elevate_admin: "has_admin d \<Longrightarrow> has_admin (fst (api_elevate cr cfg now rq c d))"
proof (cases rule: api_elevate_cases [of d cr cfg now rq c])
  case (granted d1 d2 u)
  assume "has_admin d"
  with granted elevate_roles [of cr now u c d1] touchedD(1) [OF admin_touched [OF granted(1)]]
  show ?thesis by (simp add: has_admin_def)
qed (simp add: has_admin_def touchedD(1))

lemma grants_ok_granted:
  assumes "grants_ok lg ss"
  shows "grants_ok (lg @ [(h, now)])
    (update_where (\<lambda>s. s_id_hash s = h) (\<lambda>s. s\<lparr>s_elevated_until := now + ELEVATE_SECONDS\<rparr>) ss)"
  using assms by (auto simp: grants_ok_def set_update_where)

lemma api_elevate_grants:
  assumes "grants_ok lg (sessions d)"
  shows "grants_ok (lg @ elevation_of cr cfg now (CElevate rq c) d) (sessions (fst (api_elevate cr cfg now rq c d)))"
proof (cases rule: api_elevate_cases [of d cr cfg now rq c])
  case (granted d1 d2 u)
  have "grants_ok lg (sessions d1)" using assms touched_grants admin_touched granted(1) by blast
  with granted elevate_sessions [OF granted(2)] show ?thesis by (simp add: grants_ok_granted)
next
  case (refused e)
  with touched_grants [OF assms refused(1)] show ?thesis by (simp split: sum.splits)
qed

section \<open>Runs\<close>

abbreviation granted_inv :: "'a db_scheme \<times> (string \<times> int) list \<Rightarrow> bool" where
  "granted_inv st \<equiv> auth_inv (fst st) \<and> grants_ok (snd st) (sessions (fst st))"

lemma call_inv: "auth_inv d \<Longrightarrow> auth_inv (account_call_db cr cfg now call d)"
  by (cases "\<exists>rq c. call = CElevate rq c") (auto simp: api_elevate_inv intro: wf.P_call)

lemma call_admin: "auth_inv d \<and> has_admin d \<Longrightarrow> auth_inv (account_call_db cr cfg now call d) \<and> has_admin (account_call_db cr cfg now call d)"
  using last_admin.P_call [of d call cr cfg now]
  by (cases "\<exists>rq c. call = CElevate rq c") (auto simp: api_elevate_inv api_elevate_admin)

lemma call_grants:
  "grants_ok lg (sessions d) \<Longrightarrow>
   grants_ok (lg @ elevation_of cr cfg now call d) (sessions (account_call_db cr cfg now call d))"
proof (cases "\<exists>rq c. call = CElevate rq c")
  case False
  moreover assume "grants_ok lg (sessions d)"
  moreover have "elevation_of cr cfg now call d = []" using False by (cases call) auto
  ultimately show ?thesis using grants.P_call [of lg d call cr cfg now] by auto
qed (auto dest: api_elevate_grants simp del: elevation_of.simps)

interpretation wf_run: machine "account_step cr cfg" "\<lambda>st. auth_inv (fst st)" for cr cfg
  by unfold_locales (auto simp: account_step_def call_inv)

interpretation account_run: machine "account_step cr cfg" granted_inv for cr cfg
  by unfold_locales (auto simp: account_step_def call_inv call_grants)

interpretation admin_run: machine "account_step cr cfg" "\<lambda>st. auth_inv (fst st) \<and> has_admin (fst st)" for cr cfg
proof unfold_locales
  fix st :: "'b db_scheme \<times> (string \<times> int) list" and op :: "int \<times> account_call"
  assume "auth_inv (fst st) \<and> has_admin (fst st)"
  from call_admin [OF this] show "auth_inv (fst (account_step cr cfg op st)) \<and> has_admin (fst (account_step cr cfg op st))"
    by (simp add: account_step_def)
qed

text \<open>
  Whatever calls the API and the command line receive, in any order and at any times, the accounts
  stay well formed: unique ids and normalised unique names, known roles, a stored secret wherever the second
  factor is on, unique session tokens, and no session without its account.
\<close>

theorem accounts_always_well_formed:
  assumes "accounts_ok (users d) (sessions d)"
  shows "accounts_ok (users (fst (fold (account_step cr cfg) calls (d, [])))) (sessions (fst (fold (account_step cr cfg) calls (d, []))))"
  using wf_run.run_inv [of "(d, [])" cr cfg calls] assms by simp

text \<open>
  The hub can never lose its last administrator: as long as one exists, no sequence of API calls,
  command-line calls and clean-ups removes the last one.
\<close>

theorem last_admin_survives:
  assumes "accounts_ok (users d) (sessions d)" and "''admin'' \<in> u_role ` set (users d)"
  shows "''admin'' \<in> u_role ` set (users (fst (fold (account_step cr cfg) calls (d, lg))))"
  using admin_run.run_inv [of "(d, lg)" cr cfg calls] assms by (simp add: has_admin_def)


section \<open>Life of a session\<close>

lemma open_session_Inr:
  assumes "open_session cr now nm ip ua raw row d = (d1, Inr (tok, v))"
  shows "tok = raw" "\<forall>s \<in> set (sessions d). s_id_hash s \<noteq> sha256 cr raw"
    "sessions d1 = sessions d @ [\<lparr>s_id_hash = sha256 cr raw, s_user_id = u_id row, s_created = now,
       s_seen = now, s_ip = ip, s_ua = take 200 ua, s_elevated_until = 0\<rparr>]"
    "users d1 = update_where (\<lambda>r. u_id r = u_id row) (\<lambda>r. r\<lparr>u_last_login := Some now\<rparr>) (users d)"
    "us_id v = u_id row"
  using assms by (auto simp: open_session_def Let_def select_one_None split: if_splits)

lemma login_Inr:
  assumes "login cr now nm pw otp ip ua raw d = (d1, Inr (tok, v))"
  obtains row d0 where "row \<in> set (users d)" "verify_password cr pw (u_pw_hash row)"
    "u_username row = take 64 (lower (strip nm))"
    "open_session cr now (take 64 (lower (strip nm))) ip ua raw row d0 = (d1, Inr (tok, v))"
    "sessions d0 = sessions d" "map u_id (users d0) = map u_id (users d)"
proof -
  let ?u = "take 64 (lower (strip nm))"
  obtain row where row: "select_one (\<lambda>r. u_username r = ?u) (users d) = Some row" "verify_password cr pw (u_pw_hash row)"
    using assms by (auto simp: login_def Let_def split: option.splits bool.splits if_splits)
  then obtain d0 where "open_session cr now ?u ip ua raw row d0 = (d1, Inr (tok, v))"
      "d0 = d \<or> (\<exists>st. d0 = set_totp_last (u_id row) st d)"
    using assms by (auto simp: login_def Let_def split: option.splits bool.splits if_splits sum.splits)
  moreover from this(2) have "sessions d0 = sessions d" "map u_id (users d0) = map u_id (users d)"
    by (auto simp: set_totp_last_def intro!: map_update_where)
  ultimately show thesis using that [of row d0] row select_one_Some [OF row(1)] by simp
qed

lemma select_one_append_new:
  "\<forall>r \<in> set rows. \<not> p r \<Longrightarrow> p x \<Longrightarrow> select_one p (rows @ [x]) = Some x"
  by (auto simp: select_one_def filter_empty_conv)

text \<open>
  C4. A successful login had the right password, and the cookie it hands out authenticates exactly that
  account, without elevation, for as long as neither the idle limit nor the maximum age is over.
\<close>

theorem login_opens_session:
  assumes "login cr now nm pw otp ip ua raw d = (d1, Inr (tok, v))"
    and "raw \<noteq> []" and "length raw \<le> 200"
  shows "tok = raw \<and> (\<exists>row \<in> set (users d). u_id row = us_id v \<and> verify_password cr pw (u_pw_hash row)) \<and>
    map_option (\<lambda>u. (us_id u, us_elevated_until u)) (snd (user_from_cookie cr cfg t (Some raw) d1)) =
     (if t \<le> now + session_idle_hours cfg * 3600 \<and> t \<le> now + session_max_days cfg * 86400
      then Some (us_id v, 0) else None)"
proof -
  obtain row d0 where row: "row \<in> set (users d)" "verify_password cr pw (u_pw_hash row)"
    and os: "open_session cr now (take 64 (lower (strip nm))) ip ua raw row d0 = (d1, Inr (tok, v))"
    and d0: "sessions d0 = sessions d" "map u_id (users d0) = map u_id (users d)"
    using login_Inr [OF assms(1)] by metis
  note os1 = open_session_Inr [OF os]
  have ids: "map u_id (users d1) = map u_id (users d)"
    using os1(4) d0(2) by (simp add: map_update_where)
  have "u_id row \<in> u_id ` set (users d1)"
    using arg_cong [OF ids, of set] row(1) by simp
  then obtain r where r: "select_one (\<lambda>r. u_id r = u_id row) (users d1) = Some r"
    by (cases "select_one (\<lambda>r. u_id r = u_id row) (users d1)") (auto simp: select_one_None)
  have rid: "u_id r = us_id v" using select_one_Some [OF r] os1(5) by simp
  have join: "session_join (sha256 cr raw) d1 = Some (\<lparr>s_id_hash = sha256 cr raw, s_user_id = u_id row, s_created = now,
       s_seen = now, s_ip = ip, s_ua = take 200 ua, s_elevated_until = 0\<rparr>, r)"
    using os1(2,3) r by (simp add: session_join_def select_one_append_new)
  have "map_option (\<lambda>u. (us_id u, us_elevated_until u)) (snd (user_from_cookie cr cfg t (Some raw) d1)) =
     (if t \<le> now + session_idle_hours cfg * 3600 \<and> t \<le> now + session_max_days cfg * 86400
      then Some (us_id v, 0) else None)"
    using rid assms(2,3) by (simp add: user_from_cookie_def Let_def join session_expired_def not_le)
  moreover have "\<exists>row \<in> set (users d). u_id row = us_id v \<and> verify_password cr pw (u_pw_hash row)"
    using row os1(5) by auto
  ultimately show ?thesis using os1(1) by simp
qed

section \<open>Closed examples\<close>

definition demo_calls :: "(int \<times> account_call) list" where
  "demo_calls = [(40, CLogin (demo_rq ''POST'' ''new'') ''root'' ''longpassword'' (Some ''843009'') ''new''),
     (75, CElevate (demo_rq ''POST'' ''new'') ''686018''), (80, CRemoveUser (demo_rq ''POST'' ''new'') 2)]"

definition demo_fresh :: db where
  "demo_fresh = demo_db\<lparr>sessions := []\<rparr>"

lemma demo_fresh_ok: "accounts_ok (users demo_fresh) (sessions demo_fresh)"
  by code_simp

lemma demo_fresh_sessions: "sessions demo_fresh = []"
  by code_simp

theorem accounts_always_well_formed_witness:
  "accounts_ok (users demo_fresh) (sessions demo_fresh) \<and>
   accounts_ok (users (fst (fold (account_step demo_crypto demo_cfg) demo_calls (demo_fresh, []))))
     (sessions (fst (fold (account_step demo_crypto demo_cfg) demo_calls (demo_fresh, []))))"
  using demo_fresh_ok accounts_always_well_formed [OF demo_fresh_ok] by blast

theorem last_admin_survives_witness:
  "''admin'' \<in> u_role ` set (users (fst (fold (account_step demo_crypto demo_cfg) demo_calls (demo_fresh, []))))"
  by (rule last_admin_survives [OF demo_fresh_ok]) code_simp


theorem login_opens_session_witness:
  "\<exists>d1 v. login demo_crypto 40 ''root'' ''longpassword'' (Some ''843009'') ''1'' ''ua'' ''new'' demo_fresh = (d1, Inr (''new'', v))
     \<and> map_option (\<lambda>u. (us_id u, us_elevated_until u)) (snd (user_from_cookie demo_crypto demo_cfg 100 (Some ''new'') d1))
       = Some (us_id v, 0)"
proof -
  let ?l = "login demo_crypto 40 ''root'' ''longpassword'' (Some ''843009'') ''1'' ''ua'' ''new'' demo_fresh"
  have "case snd ?l of Inl e \<Rightarrow> False | Inr p \<Rightarrow> fst p = ''new''" by code_simp
  then obtain v where v: "snd ?l = Inr (''new'', v)" by (auto split: sum.splits)
  then have l: "?l = (fst ?l, Inr (''new'', v))" by (metis prod.collapse)
  have "map_option (\<lambda>u. (us_id u, us_elevated_until u)) (snd (user_from_cookie demo_crypto demo_cfg 100 (Some ''new'') (fst ?l)))
       = Some (us_id v, 0)"
    using login_opens_session [OF l, of demo_cfg 100] by (simp add: demo_cfg_def)
  with l show ?thesis by blast
qed

end
