(* ===== verification/Jalali.thy ===== *)
theory Jalali
  imports Prelude
begin

text \<open>
  The dates in notifications and views (\<open>jalali\<close> in \<open>hub/icsd_hub/notify.py\<close>): the Iranian calendar in Tehran
  time, computed by integer arithmetic. \<open>ord2ymd\<close> models the standard library's \<open>datetime\<close>. Persian
  digits appear as ASCII digits.
\<close>

section \<open>The Jalali date of a notification\<close>

definition days_before_month :: "int list" where
  "days_before_month = [0, 31, 59, 90, 120, 151, 181, 212, 243, 273, 304, 334]"

definition is_leap :: "int \<Rightarrow> bool" where
  "is_leap y = (y mod 4 = 0 \<and> (y mod 100 \<noteq> 0 \<or> y mod 400 = 0))"

definition month_start :: "bool \<Rightarrow> nat \<Rightarrow> int" where
  "month_start leap i = days_before_month ! i + (if 2 \<le> i \<and> leap then 1 else 0)"

definition ord2ymd :: "int \<Rightarrow> int \<times> int \<times> int" where
  \<comment> \<open>\<open>datetime\<close>: year, month and day of a day number (day 0 is 1 January of year 1)\<close>
  "ord2ymd n0 =
     (let n400 = n0 div 146097; n = n0 mod 146097;
          n100 = n div 36524; n' = n mod 36524;
          n4 = n' div 1461; n'' = n' mod 1461;
          n1 = n'' div 365; k = n'' mod 365;
          y = n400 * 400 + 1 + n100 * 100 + n4 * 4 + n1
      in if n1 = 4 \<or> n100 = 4 then (y - 1, 12, 31)
         else let i = length (filter (\<lambda>i. month_start (is_leap y) i \<le> k) [1..<12])
              in (y, int i + 1, k - month_start (is_leap y) i + 1))"

definition TEHRAN :: int where
  "TEHRAN = 3 * 3600 + 30 * 60"

definition month_day :: "int \<Rightarrow> int \<times> int" where
  \<comment> \<open>month and day of a day of the year\<close>
  "month_day days =
     (if days < 186 then 1 + days div 31 else 7 + (days - 186) div 30,
      1 + (if days < 186 then days mod 31 else (days - 186) mod 30))"

definition jalali_of_days :: "int \<Rightarrow> int \<times> int \<times> int" where
  "jalali_of_days days0 =
     (let jy = - 1595 + 33 * (days0 div 12053);
          days = days0 mod 12053;
          jy = jy + 4 * (days div 1461);
          days = days mod 1461;
          (jy, days) = (if 365 < days then (jy + (days - 1) div 365, (days - 1) mod 365) else (jy, days))
      in (jy, month_day days))"

definition jalali_days :: "int \<times> int \<times> int \<Rightarrow> int" where
  "jalali_days ymd =
     (case ymd of (gy, gm, gd) \<Rightarrow>
        let gy2 = (if 2 < gm then gy + 1 else gy)
        in 355666 + 365 * gy + (gy2 + 3) div 4 - (gy2 + 99) div 100 + (gy2 + 399) div 400 + gd
           + days_before_month ! nat (gm - 1))"

definition jalali_ymd :: "int \<Rightarrow> int \<times> int \<times> int" where
  \<comment> \<open>the Jalali date of a day number of the proleptic Gregorian calendar\<close>
  "jalali_ymd n = jalali_of_days (jalali_days (ord2ymd n))"

definition jalali :: "int \<Rightarrow> string" where
  "jalali ts =
     (let loc = ts + TEHRAN; day = loc div 86400 + 719162; sec = loc mod 86400;
          (jy, jm, jd) = jalali_ymd day
      in str_int jy @ ''/'' @ zfill 2 (str_int jm) @ ''/'' @ zfill 2 (str_int jd) @ '' ''
         @ zfill 2 (str_int (sec div 3600)) @ '':'' @ zfill 2 (str_int (sec mod 3600 div 60)))"

section \<open>The calendar is right\<close>

lemma div_mod_eq:
  fixes x c q :: int
  assumes "c * q \<le> x" "x < c * q + c"
  shows "x div c = q" "x mod c = x - c * q"
proof -
  show "x div c = q" by (rule int_div_pos_eq [of x c q "x - c * q"]) (use assms in auto)
  then show "x mod c = x - c * q" by (simp add: minus_mult_div_eq_mod [symmetric])
qed

lemma greg_digits:
  fixes n :: int
  defines "a \<equiv> n div 146097" and "m \<equiv> n mod 146097"
  defines "b \<equiv> m div 36524" and "m' \<equiv> m mod 36524"
  defines "c \<equiv> m' div 1461" and "m'' \<equiv> m' mod 1461"
  defines "e \<equiv> m'' div 365" and "k \<equiv> m'' mod 365"
  shows "n = 146097 * a + 36524 * b + 1461 * c + 365 * e + k" "0 \<le> b" "b \<le> 4" "0 \<le> c" "c \<le> 24"
    "0 \<le> e" "e \<le> 4" "0 \<le> k" "k < 365" "b = 4 \<Longrightarrow> c = 0 \<and> e = 0 \<and> k = 0" "e = 4 \<Longrightarrow> k = 0"
    "c = 24 \<Longrightarrow> e \<le> 3"
proof -
  have n: "n = 146097 * a + m" "0 \<le> m" "m < 146097" unfolding a_def m_def by simp_all
  have m: "m = 36524 * b + m'" "0 \<le> m'" "m' < 36524" unfolding b_def m'_def by simp_all
  have m': "m' = 1461 * c + m''" "0 \<le> m''" "m'' < 1461" unfolding c_def m''_def by simp_all
  have m'': "m'' = 365 * e + k" "0 \<le> k" "k < 365" unfolding e_def k_def by simp_all
  show "n = 146097 * a + 36524 * b + 1461 * c + 365 * e + k" using n m m' m'' by linarith
  show "0 \<le> b" "b \<le> 4" "0 \<le> c" "c \<le> 24" "0 \<le> e" "e \<le> 4" "0 \<le> k" "k < 365"
    using n m m' m'' by linarith+
  show "c = 0 \<and> e = 0 \<and> k = 0" if "b = 4"
  proof -
    have "m' = 0" using that n m by linarith
    then have "c = 0" using m' by linarith
    with \<open>m' = 0\<close> m' have "m'' = 0" by simp
    with m'' have "e = 0" by linarith
    with \<open>c = 0\<close> \<open>m'' = 0\<close> m'' show ?thesis by simp
  qed
  show "k = 0" if "e = 4" using that m' m'' by linarith
  show "e \<le> 3" if "c = 24" using that m m' m'' by linarith
qed

lemma leap_digits:
  assumes "0 \<le> b" "b \<le> 3" "0 \<le> c" "c \<le> 24" "0 \<le> e" "e \<le> (3::int)"
  shows "is_leap (400 * a + 100 * b + 4 * c + e + 1) \<longleftrightarrow> e = 3 \<and> (c \<noteq> 24 \<or> b = 3)"
proof -
  let ?y = "400 * a + 100 * b + 4 * c + e + 1"
  have "?y mod 4 = 0 \<longleftrightarrow> e = 3"
    using div_mod_eq(2) [of 4 "100 * a + 25 * b + c" ?y] div_mod_eq(2) [of 4 "100 * a + 25 * b + c + 1" ?y] assms
    by (cases "e = 3") auto
  moreover have "?y mod 100 = 0 \<longleftrightarrow> c = 24 \<and> e = 3"
    using div_mod_eq(2) [of 100 "4 * a + b" ?y] div_mod_eq(2) [of 100 "4 * a + b + 1" ?y] assms
    by (cases "c = 24 \<and> e = 3") auto
  moreover have "?y mod 400 = 0 \<longleftrightarrow> b = 3 \<and> c = 24 \<and> e = 3"
    using div_mod_eq(2) [of 400 a ?y] div_mod_eq(2) [of 400 "a + 1" ?y] assms
    by (cases "b = 3 \<and> c = 24 \<and> e = 3") auto
  ultimately show ?thesis by (auto simp: is_leap_def)
qed

lemma jalali_days_month:
  assumes "0 \<le> b" "b \<le> 3" "0 \<le> c" "c \<le> 24" "0 \<le> e" "e \<le> (3::int)" "i < 12"
    and y: "y = 400 * a + 100 * b + 4 * c + e + 1"
  shows "jalali_days (y, int i + 1, k - month_start (is_leap y) i + 1) =
    356033 + 146097 * a + 36524 * b + 1461 * c + 365 * e + k"
proof -
  have d1: "(y + 3) div 4 = 100 * a + 25 * b + c + 1" "(y + 99) div 100 = 4 * a + b + 1" "(y + 399) div 400 = a + 1"
    unfolding y using assms(1-6) by (auto intro!: div_mod_eq(1))
  have d2: "(y + 4) div 4 = 100 * a + 25 * b + c + 1 + (if e = 3 then 1 else 0)"
    "(y + 100) div 100 = 4 * a + b + 1 + (if c = 24 \<and> e = 3 then 1 else 0)"
    "(y + 400) div 400 = a + 1 + (if b = 3 \<and> c = 24 \<and> e = 3 then 1 else 0)"
    unfolding y using assms(1-6) by (auto intro!: div_mod_eq(1))
  have l: "is_leap y \<longleftrightarrow> e = 3 \<and> (c \<noteq> 24 \<or> b = 3)" unfolding y by (rule leap_digits) (use assms in auto)
  show ?thesis
  proof (cases "2 \<le> i")
    case True
    then show ?thesis using d2 l by (simp add: jalali_days_def month_start_def Let_def y)
  next
    case False
    then show ?thesis using d1 by (simp add: jalali_days_def month_start_def Let_def y)
  qed
qed

lemma jalali_days_ord: "jalali_days (ord2ymd n) = n + 356033"
proof -
  define a where "a = n div 146097"
  define b where "b = n mod 146097 div 36524"
  define c where "c = n mod 146097 mod 36524 div 1461"
  define e where "e = n mod 146097 mod 36524 mod 1461 div 365"
  define k where "k = n mod 146097 mod 36524 mod 1461 mod 365"
  note g = greg_digits [of n, folded a_def b_def c_def e_def k_def]
  define y where "y = a * 400 + 1 + b * 100 + c * 4 + e"
  have o: "ord2ymd n = (if e = 4 \<or> b = 4 then (y - 1, 12, 31)
     else let i = length (filter (\<lambda>i. month_start (is_leap y) i \<le> k) [1..<12])
          in (y, int i + 1, k - month_start (is_leap y) i + 1))"
    by (simp only: ord2ymd_def Let_def a_def b_def c_def e_def k_def y_def)
  show ?thesis
  proof (cases "e = 4 \<or> b = 4")
    case True
    have "jalali_days (y - 1, 12, 31) = n + 356033"
    proof -
      have "jalali_days (y - 1, 12, 31) = 356030 + 365 * (y - 1) + (y + 3) div 4 - (y + 99) div 100 + (y + 399) div 400 + 1"
        by (simp add: jalali_days_def days_before_month_def)
      moreover from True have "e = 4 \<and> b \<le> 3 \<and> k = 0 \<and> c \<le> 23 \<or> b = 4 \<and> c = 0 \<and> e = 0 \<and> k = 0" using g by force
      then have "(y + 3) div 4 = 100 * a + 25 * b + c + 1 + (if e = 4 then 1 else 0)
          \<and> (y + 99) div 100 = 4 * a + b + 1 \<and> (y + 399) div 400 = a + 1 + (if b = 4 then 1 else 0)"
        unfolding y_def using g(2-9) by (auto intro!: div_mod_eq(1))
      ultimately show ?thesis using True g(1,10,11) by (auto simp: y_def)
    qed
    with True o show ?thesis by simp
  next
    case False
    let ?i = "length (filter (\<lambda>i. month_start (is_leap y) i \<le> k) [1..<12])"
    have "?i < 12" using length_filter_le [of _ "[1..<12]"] by (rule le_less_trans) simp
    with False g have "jalali_days (y, int ?i + 1, k - month_start (is_leap y) ?i + 1) = n + 356033"
      by (subst jalali_days_month [of b c e ?i y a k]) (auto simp: y_def)
    with False o show ?thesis by (simp add: Let_def)
  qed
qed

definition jalali_leap :: "int \<Rightarrow> bool" where
  \<comment> \<open>the leap years of the 33-year cycle of the Iranian calendar\<close>
  "jalali_leap y = (y mod 33 \<in> {1, 5, 9, 13, 17, 22, 26, 30})"

definition jalali_month_len :: "int \<Rightarrow> int \<Rightarrow> int" where
  "jalali_month_len y m = (if m \<le> 6 then 31 else if m \<le> 11 then 30 else if jalali_leap y then 30 else 29)"

definition next_jalali :: "int \<times> int \<times> int \<Rightarrow> int \<times> int \<times> int" where
  "next_jalali ymd = (case ymd of (y, m, d) \<Rightarrow>
     if d < jalali_month_len y m then (y, m, d + 1) else if m < 12 then (y, m + 1, 1) else (y + 1, 1, 1))"

definition jalali_valid :: "int \<times> int \<times> int \<Rightarrow> bool" where
  "jalali_valid ymd = (case ymd of (y, m, d) \<Rightarrow> 1 \<le> m \<and> m \<le> 12 \<and> 1 \<le> d \<and> d \<le> jalali_month_len y m)"

lemma jalali_leap_digits:
  assumes "0 \<le> b" "b \<le> 8" "0 \<le> q" "q \<le> 3" "b = 8 \<longrightarrow> q = 0"
  shows "jalali_leap (- 1595 + 33 * a + 4 * b + q) \<longleftrightarrow> q = 0 \<and> b \<le> 7"
proof -
  have "(- 1595 + 33 * a + 4 * b + q) mod 33 = (if 4 * b + q < 11 then 22 + 4 * b + q else 4 * b + q - 11)"
    using assms
      div_mod_eq(2) [of 33 "a - 49" "- 1595 + 33 * a + 4 * b + q"] div_mod_eq(2) [of 33 "a - 48" "- 1595 + 33 * a + 4 * b + q"]
    by auto
  moreover have "b = 0 \<or> b = 1 \<or> b = 2 \<or> b = 3 \<or> b = 4 \<or> b = 5 \<or> b = 6 \<or> b = 7 \<or> b = 8"
    "q = 0 \<or> q = 1 \<or> q = 2 \<or> q = 3" using assms(1-4) by linarith+
  ultimately show ?thesis
    unfolding jalali_leap_def using assms(5) by (elim disjE) simp_all
qed

lemma jalali_digits:
  obtains a b q t where "N = 12053 * a + 1461 * b + 365 * q + (if q = 0 then 0 else 1) + t"
    "0 \<le> b" "b \<le> 8" "0 \<le> q" "q \<le> 3" "b = 8 \<longrightarrow> q = 0" "0 \<le> t"
    "t < 365 + (if q = 0 \<and> b \<le> 7 then 1 else 0)"
    "jalali_of_days N = (- 1595 + 33 * a + 4 * b + q, month_day t)"
proof -
  define a where "a = N div 12053"
  define r where "r = N mod 12053"
  define b where "b = r div 1461"
  define s where "s = r mod 1461"
  define q where "q = (if 365 < s then (s - 1) div 365 else 0)"
  define t where "t = (if 365 < s then (s - 1) mod 365 else s)"
  have N: "N = 12053 * a + r" "0 \<le> r" "r < 12053" unfolding a_def r_def by simp_all
  have r: "r = 1461 * b + s" "0 \<le> s" "s < 1461" unfolding b_def s_def by simp_all
  have q3: "1 \<le> (s - 1) div 365" "(s - 1) div 365 \<le> 3" "s = 365 * ((s - 1) div 365) + 1 + (s - 1) mod 365" if "365 < s"
    using that r(3) by (simp_all add: pos_imp_zdiv_pos_iff int_one_le_iff_zero_less)
  have s: "s = 365 * q + (if q = 0 then 0 else 1) + t" "0 \<le> q" "q \<le> 3" "0 \<le> t" "t < 365 + (if q = 0 then 1 else 0)"
    using r(2,3) q3 unfolding q_def t_def by (auto simp: not_less)
  have b: "0 \<le> b" "b \<le> 8" using N r by linarith+
  have b8: "q = 0 \<and> t < 365" if "b = 8"
  proof -
    have "s < 365" using that N r by linarith
    then show ?thesis by (simp add: q_def t_def)
  qed
  have J: "jalali_of_days N = (- 1595 + 33 * a + 4 * b + q, month_day t)"
    by (simp add: jalali_of_days_def Let_def q_def t_def a_def [symmetric] r_def [symmetric] b_def [symmetric] s_def [symmetric])
  show thesis
  proof (rule that [of a b q t])
    show "N = 12053 * a + 1461 * b + 365 * q + (if q = 0 then 0 else 1) + t" using N(1) r(1) s(1) by linarith
    show "t < 365 + (if q = 0 \<and> b \<le> 7 then 1 else 0)" using s(5) b8 b by (cases "b = 8") (auto split: if_splits)
  qed (use s b b8 J in simp_all)
qed

lemma month_day_valid:
  assumes "0 \<le> t" "t < 365 + (if jalali_leap y then 1 else 0)"
  shows "jalali_valid (y, month_day t)"
proof (cases "t < 186")
  case True
  have "1 + t div 31 \<le> 6" "1 + t mod 31 \<le> 31" "0 \<le> t div 31" "0 \<le> t mod 31" using True assms(1) by presburger+
  with True show ?thesis by (simp add: jalali_valid_def month_day_def jalali_month_len_def)
next
  case False
  have "7 + (t - 186) div 30 \<le> 12" "0 \<le> (t - 186) div 30" "0 \<le> (t - 186) mod 30" "(t - 186) mod 30 < 30"
    "7 + (t - 186) div 30 = 12 \<Longrightarrow> 1 + (t - 186) mod 30 \<le> (if jalali_leap y then 30 else 29)"
    using False assms by (auto split: if_splits) presburger+
  with False show ?thesis by (auto simp: jalali_valid_def month_day_def jalali_month_len_def)
qed

lemma month_day_next:
  assumes "0 \<le> t" "t < 365 + (if jalali_leap y then 1 else 0)"
  shows "next_jalali (y, month_day t) =
    (if t + 1 < 365 + (if jalali_leap y then 1 else 0) then (y, month_day (t + 1)) else (y + 1, month_day 0))"
proof -
  consider "t < 185" | "t = 185" | "186 \<le> t" by linarith
  then show ?thesis
  proof cases
    case 1
    define i where "i = t div 31"
    define j where "j = t mod 31"
    have ij: "t = 31 * i + j" "0 \<le> j" "j < 31" unfolding i_def j_def by simp_all
    have i: "0 \<le> i" "i \<le> 5" "i = 5 \<Longrightarrow> j < 30" using ij 1 assms(1) by linarith+
    have "(t + 1) div 31 = (if j < 30 then i else i + 1)" "(t + 1) mod 31 = (if j < 30 then j + 1 else 0)"
      using ij div_mod_eq [of 31 i "t + 1"] div_mod_eq [of 31 "i + 1" "t + 1"] by auto
    with 1 ij i show ?thesis
      by (auto simp: next_jalali_def month_day_def jalali_month_len_def i_def [symmetric] j_def [symmetric])
  next
    case 2
    then show ?thesis by (simp add: next_jalali_def month_day_def jalali_month_len_def)
  next
    case 3
    define i where "i = (t - 186) div 30"
    define j where "j = (t - 186) mod 30"
    have ij: "t - 186 = 30 * i + j" "0 \<le> j" "j < 30" unfolding i_def j_def by simp_all
    have i: "0 \<le> i" "i \<le> 5" using ij 3 assms(2) by (auto split: if_splits)
    have s: "(t + 1 - 186) div 30 = (if j < 29 then i else i + 1)" "(t + 1 - 186) mod 30 = (if j < 29 then j + 1 else 0)"
      using ij div_mod_eq [of 30 i "t + 1 - 186"] div_mod_eq [of 30 "i + 1" "t + 1 - 186"] by auto
    have 0: "month_day 0 = (1, 1)" by (simp add: month_day_def)
    have "month_day t = (7 + i, 1 + j)" "month_day (t + 1) = (if j < 29 then (7 + i, 2 + j) else (8 + i, 1))"
      using 3 s by (auto simp: month_day_def i_def j_def)
    with 3 ij i 0 assms(2) show ?thesis by (auto simp: next_jalali_def jalali_month_len_def)
  qed
qed

lemma year_digits:
  fixes a b q t a' b' q' t' :: int
  assumes N: "N = 12053 * a + 1461 * b + 365 * q + (if q = 0 then 0 else 1) + t"
    and r: "0 \<le> b" "b \<le> 8" "0 \<le> q" "q \<le> 3" "b = 8 \<longrightarrow> q = 0" "0 \<le> t"
    and t: "t < 365 + (if q = 0 \<and> b \<le> 7 then 1 else 0)"
    and N': "M = 12053 * a' + 1461 * b' + 365 * q' + (if q' = 0 then 0 else 1) + t'"
    and r': "0 \<le> b'" "b' \<le> 8" "0 \<le> q'" "q' \<le> 3" "b' = 8 \<longrightarrow> q' = 0" "0 \<le> t'"
    and t': "t' < 365 + (if q' = 0 \<and> b' \<le> 7 then 1 else 0)" and eq: "N = M"
  shows "a = a' \<and> b = b' \<and> q = q' \<and> t = t'"
proof -
  have y: "0 \<le> 365 * q + (if q = 0 then 0 else 1) + t" "365 * q + (if q = 0 then 0 else 1) + t < (if b = 8 then 365 else 1461)"
    "0 \<le> 365 * q' + (if q' = 0 then 0 else 1) + t'" "365 * q' + (if q' = 0 then 0 else 1) + t' < (if b' = 8 then 365 else 1461)"
    using r r' t t' by (auto split: if_splits)
  have "1461 * b + (365 * q + (if q = 0 then 0 else 1) + t) < 12053"
    "1461 * b' + (365 * q' + (if q' = 0 then 0 else 1) + t') < 12053"
    using y r r' by (cases "b = 8"; cases "b' = 8"; simp)+
  then have c: "a = a'" using N N' eq y(1,3) r(1) r'(1) by linarith
  have d: "b = b'"
    using N N' eq y c r r' by (auto split: if_splits)
  have "q = q'"
    using N N' eq c d r r' t t' by (auto split: if_splits)
  with c d N N' eq show ?thesis by simp
qed

lemma jalali_of_days_next:
  "jalali_valid (jalali_of_days N) \<and> jalali_of_days (N + 1) = next_jalali (jalali_of_days N)"
proof -
  obtain a b q t where N: "N = 12053 * a + 1461 * b + 365 * q + (if q = 0 then 0 else 1) + t"
    and r: "0 \<le> b" "b \<le> 8" "0 \<le> q" "q \<le> 3" "b = 8 \<longrightarrow> q = 0" "0 \<le> t"
    and t: "t < 365 + (if q = 0 \<and> b \<le> 7 then 1 else 0)"
    and J: "jalali_of_days N = (- 1595 + 33 * a + 4 * b + q, month_day t)"
    by (rule jalali_digits [of N])
  obtain a' b' q' t' where N': "N + 1 = 12053 * a' + 1461 * b' + 365 * q' + (if q' = 0 then 0 else 1) + t'"
    and r': "0 \<le> b'" "b' \<le> 8" "0 \<le> q'" "q' \<le> 3" "b' = 8 \<longrightarrow> q' = 0" "0 \<le> t'"
    and t': "t' < 365 + (if q' = 0 \<and> b' \<le> 7 then 1 else 0)"
    and J': "jalali_of_days (N + 1) = (- 1595 + 33 * a' + 4 * b' + q', month_day t')"
    by (rule jalali_digits [of "N + 1"])
  let ?y = "- 1595 + 33 * a + 4 * b + q"
  let ?len = "365 + (if jalali_leap ?y then 1 else 0) :: int"
  have l: "jalali_leap ?y \<longleftrightarrow> q = 0 \<and> b \<le> 7" by (rule jalali_leap_digits) (use r in auto)
  have tl: "t < ?len" using t l by simp
  note u = year_digits [OF _ _ _ _ _ _ _ _ N' r' t']
  have "jalali_of_days (N + 1) = (if t + 1 < ?len then (?y, month_day (t + 1)) else (?y + 1, month_day 0))"
  proof (cases "t + 1 < ?len")
    case True
    with u [of "N + 1" a b q "t + 1"] N r l have "a = a' \<and> b = b' \<and> q = q' \<and> t + 1 = t'" by auto
    with J' True show ?thesis by simp
  next
    case False
    then have t1: "t + 1 = ?len" using tl by simp
    consider "b = 8" | "b \<le> 7" "q = 3" | "b \<le> 7" "q \<le> 2" using r by linarith
    then have "- 1595 + 33 * a' + 4 * b' + q' = ?y + 1 \<and> t' = 0"
    proof cases
      case 1
      with u [of "N + 1" "a + 1" 0 0 0] N r l t1 show ?thesis by auto
    next
      case 2
      have "N + 1 = 12053 * a + 1461 * (b + 1) + 365 * 0 + (if 0 = (0::int) then 0 else 1) + 0"
        using 2 N l t1 by simp
      from u [OF this] 2 r have "a = a' \<and> b + 1 = b' \<and> 0 = q' \<and> 0 = t'" by (cases "b \<le> 6") auto
      with 2 show ?thesis by auto
    next
      case 3
      with u [of "N + 1" a b "q + 1" 0] N r l t1 show ?thesis by (auto split: if_splits)
    qed
    with False J' show ?thesis by simp
  qed
  moreover have "jalali_valid (?y, month_day t)" by (rule month_day_valid) (use r tl in simp_all)
  moreover have "next_jalali (?y, month_day t) =
      (if t + 1 < ?len then (?y, month_day (t + 1)) else (?y + 1, month_day 0))"
    by (rule month_day_next) (use r tl in simp_all)
  ultimately show ?thesis using J by simp
qed

text \<open>
  C14. The dates in the notifications follow the Iranian calendar without a third-party library: 1 January 1970
  is 11 Dey 1348, every day gets a date that exists, and each day's date is the calendar successor of the
  day before, with the leap years of the 33-year cycle.
\<close>

theorem jalali_calendar:
  "jalali_ymd 719162 = (1348, 10, 11) \<and> jalali_valid (jalali_ymd n) \<and> jalali_ymd (n + 1) = next_jalali (jalali_ymd n)"
proof -
  have "jalali_ymd 719162 = (1348, 10, 11)" by code_simp
  moreover have "jalali_ymd (n + 1) = jalali_of_days (n + 356033 + 1)" by (simp add: jalali_ymd_def jalali_days_ord)
  moreover have "jalali_ymd n = jalali_of_days (n + 356033)" by (simp add: jalali_ymd_def jalali_days_ord)
  ultimately show ?thesis using jalali_of_days_next [of "n + 356033"] by simp
qed

end
