(* ===== verification/Notify.thy ===== *)
theory Notify
  imports Accounts Jalali
begin

text \<open>
  Notifications to Telegram and Bale (\<open>hub/icsd_hub/notify.py\<close>) and their settings routes in \<open>api.py\<close>. The
  network is a parameter: what each HTTP call returned. \<open>fire\<close> only queues a text; the queue is the
  field \<open>outbox\<close>. \<open>str()\<close> of floats, lists and objects is the parameter \<open>rp\<close>; Persian digits of dates
  appear as ASCII digits.
\<close>

section \<open>Settings\<close>

record hub_n = db +
  outbox :: "string list"

fun py_str :: "(json \<Rightarrow> string) \<Rightarrow> json \<Rightarrow> string" where
  "py_str rp JNull = ''None''"
| "py_str rp (JBool b) = (if b then ''True'' else ''False'')"
| "py_str rp (JInt i) = str_int i"
| "py_str rp (JStr s) = s"
| "py_str rp v = rp v"

definition DEFAULTS :: "(string, json) dict" where
  "DEFAULTS =
    [(''telegram_on'', JBool False), (''telegram_token'', JStr ''''), (''telegram_chat'', JStr ''''),
     (''telegram_api'', JStr ''https://api.telegram.org''),
     (''bale_on'', JBool False), (''bale_token'', JStr ''''), (''bale_chat'', JStr ''''),
     (''bale_api'', JStr ''https://tapi.bale.ai'')]"

definition SECRET_KEYS :: "string list" where
  "SECRET_KEYS = [''telegram_token'', ''bale_token'']"

definition cget :: "(string, json) dict \<Rightarrow> string \<Rightarrow> json" where
  \<comment> \<open>\<open>cfg[k]\<close>, for the keys that \<open>DEFAULTS\<close> provides\<close>
  "cget cfg k = (case dget cfg k of Some v \<Rightarrow> v | None \<Rightarrow> JNull)"

definition notify_load :: "'a db_scheme \<Rightarrow> (string, json) dict res" where
  "notify_load d =
     (let v = get_setting ''notify'' (JObj []) d in
      if \<not> truthy v then Inr DEFAULTS
      else case v of JObj kvs \<Rightarrow> Inr (fold (\<lambda>(k, x). dput k x) kvs DEFAULTS) | _ \<Rightarrow> Inl TypeError)"

definition hide_secret :: "string \<Rightarrow> (string, json) dict \<Rightarrow> (string, json) dict" where
  "hide_secret k cfg = dput k (JStr '''') (dput (k @ ''_set'') (JBool (truthy (cget cfg k))) cfg)"

definition public_view :: "'a db_scheme \<Rightarrow> (string, json) dict res" where
  "public_view d = (case notify_load d of Inl e \<Rightarrow> Inl e | Inr cfg \<Rightarrow> Inr (fold hide_secret SECRET_KEYS cfg))"

definition upd_get :: "(string, json) dict \<Rightarrow> string \<Rightarrow> json" where
  "upd_get u k = (case dget u k of Some v \<Rightarrow> v | None \<Rightarrow> JNull)"

definition api_change_unsafe :: "(json \<Rightarrow> string) \<Rightarrow> (string, json) dict \<Rightarrow> (string, json) dict \<Rightarrow> string \<Rightarrow> bool" where
  "api_change_unsafe rp update cfg ch =
     (let v = upd_get update (ch @ ''_api'');
          new_api = rstrip_char (CHR ''/'') (strip (py_str rp (if truthy v then v else cget cfg (ch @ ''_api''))))
      in JStr new_api \<noteq> cget cfg (ch @ ''_api'') \<and> truthy (cget cfg (ch @ ''_token''))
         \<and> \<not> truthy (upd_get update (ch @ ''_token'')))"

definition save_field :: "(json \<Rightarrow> string) \<Rightarrow> (string, json) dict \<Rightarrow> string \<times> json \<Rightarrow> (string, json) dict \<Rightarrow> (string, json) dict" where
  "save_field rp update kd cfg =
     (case dget update (fst kd) of
        None \<Rightarrow> cfg
      | Some v \<Rightarrow>
          if fst kd \<in> set SECRET_KEYS \<and> \<not> truthy v then cfg
          else dput (fst kd)
                 (case snd kd of JBool _ \<Rightarrow> JBool (truthy v) | _ \<Rightarrow> JStr (take 300 (strip (py_str rp v)))) cfg)"

definition fix_api :: "(string, json) dict res \<Rightarrow> string \<Rightarrow> (string, json) dict res" where
  "fix_api r k =
     (case r of
        Inl e \<Rightarrow> Inl e
      | Inr cfg \<Rightarrow>
          (case cget cfg k of
             JStr s \<Rightarrow>
               (case if startswith s ''https://'' then JStr s else cget DEFAULTS k of
                  JStr t \<Rightarrow> Inr (dput k (JStr (rstrip_char (CHR ''/'') t)) cfg)
                | _ \<Rightarrow> Inl AttributeError)
           | _ \<Rightarrow> Inl AttributeError))"

definition notify_save ::
  "(json \<Rightarrow> string) \<Rightarrow> (string, json) dict \<Rightarrow> 'a db_scheme \<Rightarrow> ('a db_scheme, (string, json) dict) io" where
  "notify_save rp update d =
     (case notify_load d of
        Inl e \<Rightarrow> (d, Inl e)
      | Inr cfg \<Rightarrow>
          if list_ex (api_change_unsafe rp update cfg) [''telegram'', ''bale'']
          then (d, Inl (ValueError ''enter the bot token again to change the API address''))
          else
            case foldl fix_api (Inr (fold (save_field rp update) DEFAULTS cfg)) [''telegram_api'', ''bale_api''] of
              Inl e \<Rightarrow> (d, Inl e)
            | Inr cfg' \<Rightarrow>
                let d' = set_setting ''notify'' (JObj cfg') d in (d', public_view d'))"

section \<open>Sending\<close>

type_synonym job = "string \<times> json \<times> json \<times> json"

datatype http_reply = Raised string | Reply int bool json

fun bot :: "(json \<Rightarrow> string) \<Rightarrow> http_reply \<Rightarrow> string option" where
  \<comment> \<open>the text of the exception the call ends with, or \<open>None\<close> when it returns\<close>
  "bot rp (Raised msg) = Some msg"
| "bot rp (Reply status is_json content) =
     (case (if is_json then content else JObj []) of
        JObj kvs \<Rightarrow>
          if status \<noteq> 200 \<or> \<not> truthy (cget kvs ''ok'')
          then Some (if truthy (cget kvs ''description'') then py_str rp (cget kvs ''description'')
                     else ''HTTP '' @ str_int status)
          else None
      | _ \<Rightarrow> Some ''object has no attribute get'')"

definition jobs_of :: "(string, json) dict \<Rightarrow> job list" where
  "jobs_of cfg =
     (let add = (\<lambda>ch. if truthy (cget cfg (ch @ ''_on'')) \<and> truthy (cget cfg (ch @ ''_token'')) \<and> truthy (cget cfg (ch @ ''_chat''))
                      then [(ch, cget cfg (ch @ ''_api''), cget cfg (ch @ ''_token''), cget cfg (ch @ ''_chat''))] else [])
      in add ''telegram'' @ add ''bale'')"

function replace :: "string \<Rightarrow> string \<Rightarrow> string \<Rightarrow> string" where
  \<comment> \<open>\<open>s.replace(t, r)\<close> for a non-empty \<open>t\<close>: leftmost occurrences, not overlapping\<close>
  "replace [] t r = []"
| "replace (c # s) t r =
     (if t \<noteq> [] \<and> startswith (c # s) t then r @ replace (drop (length t) (c # s)) t r else c # replace s t r)"
  by pat_completeness auto
termination
  by (relation "measure (\<lambda>(s, t, r). length s)") (auto simp: neq_Nil_conv)

definition redact :: "(json \<Rightarrow> string) \<Rightarrow> (string, json) dict \<Rightarrow> string \<Rightarrow> string" where
  "redact rp cfg err =
     fold (\<lambda>k e. if truthy (cget cfg k) then replace e (py_str rp (cget cfg k)) ''***'' else e) SECRET_KEYS err"

record send_result =
  sr_channel :: string
  sr_ok :: bool
  sr_error :: string

definition send_one ::
  "(json \<Rightarrow> string) \<Rightarrow> (string, json) dict \<Rightarrow> int \<Rightarrow> job \<times> http_reply \<Rightarrow> 'a db_scheme \<times> send_result list \<Rightarrow> 'a db_scheme \<times> send_result list" where
  "send_one rp cfg now jr st =
     (let err = redact rp cfg (case bot rp (snd jr) of None \<Rightarrow> [] | Some m \<Rightarrow> m); d = fst st
      in (d\<lparr>notify_log := notify_log d @ [\<lparr>nl_id = next_rowid (map nl_id (notify_log d)), nl_ts = now,
              nl_channel = fst (fst jr), nl_ok = (err = []), nl_error = take 300 err\<rparr>]\<rparr>,
          snd st @ [\<lparr>sr_channel = fst (fst jr), sr_ok = (err = []), sr_error = err\<rparr>]))"

definition send ::
  "(json \<Rightarrow> string) \<Rightarrow> (job \<Rightarrow> string \<Rightarrow> http_reply) \<Rightarrow> int \<Rightarrow> string \<Rightarrow> 'a db_scheme \<Rightarrow> ('a db_scheme, send_result list) io" where
  "send rp net now txt d =
     (case notify_load d of
        Inl e \<Rightarrow> (d, Inl e)
      | Inr cfg \<Rightarrow>
          let jobs = jobs_of cfg;
              st = fold (send_one rp cfg now) (map (\<lambda>j. (j, net j txt)) jobs) (d, [])
          in (fst st, Inr (snd st)))"

definition fire :: "string \<Rightarrow> 'a hub_n_scheme \<Rightarrow> 'a hub_n_scheme" where
  "fire txt d = d\<lparr>outbox := outbox d @ [txt]\<rparr>"

definition deliver ::
  "(json \<Rightarrow> string) \<Rightarrow> (job \<Rightarrow> string \<Rightarrow> http_reply) \<Rightarrow> int \<Rightarrow> 'a hub_n_scheme \<Rightarrow> 'a hub_n_scheme" where
  \<comment> \<open>one queued background task runs\<close>
  "deliver rp net now d =
     (case outbox d of [] \<Rightarrow> d | txt # rest \<Rightarrow> fst (send rp net now txt (d\<lparr>outbox := rest\<rparr>)))"

section \<open>Routes\<close>

definition api_get_notify :: "crypto \<Rightarrow> config \<Rightarrow> int \<Rightarrow> request \<Rightarrow> 'a db_scheme \<Rightarrow> ('a db_scheme, (string, json) dict) io" where
  "api_get_notify cr cfg now rq = depends (admin cr cfg now rq) (\<lambda>u d. (d, public_view d))"

definition api_put_notify ::
  "(json \<Rightarrow> string) \<Rightarrow> crypto \<Rightarrow> config \<Rightarrow> int \<Rightarrow> request \<Rightarrow> (string, json) dict \<Rightarrow> 'a db_scheme \<Rightarrow> ('a db_scheme, (string, json) dict) io" where
  "api_put_notify rp cr cfg now rq content =
     depends (elevated cr cfg now rq) (\<lambda>u d.
       case notify_save rp content d of
         (d', Inl (ValueError m)) \<Rightarrow> (d', Inl (HTTPException 400 m))
       | (d', Inl e) \<Rightarrow> (d', Inl e)
       | (d', Inr v) \<Rightarrow> (audit now (Some (us_username u)) ''notify.edit'' [] (Some (client_ip rq)) d', Inr v))"

definition api_test_notify ::
  "(json \<Rightarrow> string) \<Rightarrow> (job \<Rightarrow> string \<Rightarrow> http_reply) \<Rightarrow> crypto \<Rightarrow> config \<Rightarrow> int \<Rightarrow> request \<Rightarrow> 'a db_scheme \<Rightarrow> ('a db_scheme, send_result list) io" where
  "api_test_notify rp net cr cfg now rq =
     depends (admin cr cfg now rq) (\<lambda>u d.
       case send rp net now (''ICSD Panel test message '' @ jalali now) d of
         (d', Inl e) \<Rightarrow> (d', Inl e)
       | (d', Inr res) \<Rightarrow> if res = [] then (d', Inl (HTTPException 400 ''no channel is enabled and complete'')) else (d', Inr res))"

section \<open>Tokens do not leak\<close>

lemma replace_startswith:
  "CHR ''*'' \<notin> set u \<Longrightarrow> startswith (replace s t ''***'') u \<Longrightarrow> startswith s u"
proof (induction s t "''***''" arbitrary: u rule: replace.induct)
  case (2 c s t)
  then show ?case by (cases u) (auto simp: startswith_def split: if_splits)
qed simp

lemma contains_iff: "contains s u \<longleftrightarrow> (\<exists>p q. s = p @ u @ q)"
proof (induction s)
  case (Cons c s)
  have "contains (c # s) u \<longleftrightarrow> (\<exists>q. c # s = u @ q) \<or> (\<exists>p q. s = p @ u @ q)"
    using Cons by (simp add: startswith_iff)
  also have "\<dots> \<longleftrightarrow> (\<exists>p q. c # s = p @ u @ q)"
  proof (intro iffI; elim disjE exE)
    fix q assume "c # s = u @ q" then show "\<exists>p q. c # s = p @ u @ q" by (intro exI [of _ "[]"] exI [of _ q]) simp
  next
    fix p q assume "s = p @ u @ q" then show "\<exists>p q. c # s = p @ u @ q" by (intro exI [of _ "c # p"] exI [of _ q]) simp
  next
    fix p q assume "c # s = p @ u @ q" then show "(\<exists>q. c # s = u @ q) \<or> (\<exists>p q. s = p @ u @ q)" by (cases p) auto
  qed
  finally show ?case .
qed auto

lemma contains_append: "contains b u \<Longrightarrow> contains (a @ b) u"
  unfolding contains_iff by (metis append.assoc)

lemma contains_take: "contains (take n s) u \<Longrightarrow> contains s u"
  unfolding contains_iff by (metis append.assoc append_take_drop_id)

lemma star_no_start: "CHR ''*'' \<notin> set u \<Longrightarrow> u \<noteq> [] \<Longrightarrow> \<not> startswith (CHR ''*'' # x) u"
  by (cases u) (auto simp: startswith_def)

lemma contains_stars:
  "CHR ''*'' \<notin> set u \<Longrightarrow> u \<noteq> [] \<Longrightarrow> contains (''***'' @ s) u = contains s u"
  by (simp add: star_no_start)

lemma replace_step:
  "replace (c # s) t ''***'' = (if t \<noteq> [] \<and> startswith (c # s) t then ''***'' @ replace (drop (length t) (c # s)) t ''***''
     else c # replace s t ''***'')"
  by (rule replace.simps(2))

lemma replace_contains:
  "CHR ''*'' \<notin> set u \<Longrightarrow> u \<noteq> [] \<Longrightarrow> contains (replace s t ''***'') u \<Longrightarrow> contains s u"
proof (induction s t "''***''" rule: replace.induct)
  case (2 c s t)
  show ?case
  proof (cases "t \<noteq> [] \<and> startswith (c # s) t")
    case True
    with "2.prems" have "contains (replace (drop (length t) (c # s)) t ''***'') u"
      by (simp only: replace_step if_True simp_thms contains_stars)
    with 2 True have "contains (drop (length t) (c # s)) u" by blast
    then show ?thesis using contains_append [of "drop (length t) (c # s)" u "take (length t) (c # s)"]
      by (simp only: append_take_drop_id)
  next
    case False
    then have r: "replace (c # s) t ''***'' = c # replace s t ''***''" by (simp only: replace_step if_False)
    with "2.prems" have "startswith (replace (c # s) t ''***'') u \<or> contains (replace s t ''***'') u" by simp
    with 2 False replace_startswith [of u "c # s" t] show ?thesis by (metis contains.simps(2))
  qed
qed simp

lemma replace_removes:
  "CHR ''*'' \<notin> set t \<Longrightarrow> t \<noteq> [] \<Longrightarrow> \<not> contains (replace s t ''***'') t"
proof (induction s t "''***''" rule: replace.induct)
  case (2 c s t)
  show ?case
  proof (cases "startswith (c # s) t")
    case True
    with 2 show ?thesis by (simp only: replace_step if_True simp_thms contains_stars)
  next
    case False
    then have r: "replace (c # s) t ''***'' = c # replace s t ''***''" by (simp only: replace_step if_False simp_thms)
    have "\<not> startswith (c # replace s t ''***'') t"
      using False replace_startswith [of t "c # s" t] "2.prems" r by metis
    moreover have "\<not> contains (replace s t ''***'') t" using 2 False by blast
    ultimately show ?thesis unfolding r by simp
  qed
qed (simp add: neq_Nil_conv)

definition token_of :: "(string, json) dict \<Rightarrow> string \<Rightarrow> string \<Rightarrow> bool" where
  \<comment> \<open>\<open>t\<close> is the token stored under \<open>k\<close>; bot tokens are made of letters, digits, colon, dash and underscore\<close>
  "token_of cfg k t = (k \<in> set SECRET_KEYS \<and> cget cfg k = JStr t \<and> t \<noteq> [] \<and> CHR ''*'' \<notin> set t)"

lemma redact_clean: "token_of cfg k t \<Longrightarrow> \<not> contains (redact rp cfg err) t"
proof -
  assume t: "token_of cfg k t"
  define A where "A = (if truthy (cget cfg ''telegram_token'') then replace err (py_str rp (cget cfg ''telegram_token'')) ''***'' else err)"
  have r: "redact rp cfg err = (if truthy (cget cfg ''bale_token'') then replace A (py_str rp (cget cfg ''bale_token'')) ''***'' else A)"
    by (simp add: redact_def SECRET_KEYS_def A_def)
  from t consider "k = ''telegram_token''" | "k = ''bale_token''" by (auto simp: token_of_def SECRET_KEYS_def)
  then show ?thesis
  proof cases
    case 1
    with t have "\<not> contains A t" using replace_removes [of t err] by (simp add: token_of_def A_def)
    with t r show ?thesis using replace_contains [of t A] by (auto simp: token_of_def)
  next
    case 2
    with t r show ?thesis using replace_removes [of t A] by (simp add: token_of_def)
  qed
qed

lemma send_fold_clean:
  assumes "token_of cfg k t" and "\<forall>l \<in> set (notify_log (fst st)). \<not> contains (nl_error l) t"
    and "\<forall>r \<in> set (snd st). \<not> contains (sr_error r) t"
  shows "(\<forall>l \<in> set (notify_log (fst (fold (send_one rp cfg now) jrs st))). \<not> contains (nl_error l) t) \<and>
    (\<forall>r \<in> set (snd (fold (send_one rp cfg now) jrs st)). \<not> contains (sr_error r) t)"
  using assms
proof (induction jrs arbitrary: st)
  case (Cons jr jrs)
  have "\<not> contains (take 300 (redact rp cfg e)) t" for e
    using redact_clean [OF Cons.prems(1)] contains_take by blast
  with redact_clean [OF Cons.prems(1)] Cons.prems(2,3)
  have "\<forall>l \<in> set (notify_log (fst (send_one rp cfg now jr st))). \<not> contains (nl_error l) t"
    "\<forall>r \<in> set (snd (send_one rp cfg now jr st)). \<not> contains (sr_error r) t"
    by (simp_all add: send_one_def Let_def)
  from Cons.IH [OF Cons.prems(1) this] show ?case by simp
qed simp

text \<open>
  C13. Whatever the bot servers answer, and even when the HTTP library quotes the request address (which
  contains the token) in its error, a stored bot token never reaches the notification log or the
  result shown to the user.
\<close>

theorem send_never_leaks_token:
  assumes "send rp net now txt d = (d', Inr results)" and "notify_load d = Inr cfg" and "token_of cfg k t"
    and "\<forall>l \<in> set (notify_log d). \<not> contains (nl_error l) t"
  shows "(\<forall>l \<in> set (notify_log d'). \<not> contains (nl_error l) t) \<and> (\<forall>r \<in> set results. \<not> contains (sr_error r) t)"
  using assms(1,2) send_fold_clean [OF assms(3), of "(d, [])" rp now "map (\<lambda>j. (j, net j txt)) (jobs_of cfg)"] assms(4)
  by (auto simp: send_def Let_def)

text \<open>
  A send that fails with an exception without a text (as a network timeout does) is recorded and shown as
  delivered, because success is read off the empty error text.
\<close>

theorem silent_failure_counts_as_sent:
  assumes "notify_load d = Inr cfg" and "jobs_of cfg = [j]" and "net j txt = Raised []"
  shows "\<exists>d'. send rp net now txt d = (d', Inr [\<lparr>sr_channel = fst j, sr_ok = True, sr_error = []\<rparr>])"
proof -
  have "redact rp cfg [] = []" by (simp add: redact_def SECRET_KEYS_def)
  with assms show ?thesis by (simp add: send_def send_one_def Let_def)
qed

section \<open>Saving the settings\<close>

definition rp_plain :: "(json \<Rightarrow> string) \<Rightarrow> bool" where
  \<comment> \<open>\<open>str()\<close> of a float, a list or a dict starts with a digit, a sign, a letter of nan or inf, or a bracket\<close>
  "rp_plain rp = (\<forall>v. \<not> startswith (strip (rp v)) ''https://'')"

definition api_normal :: "string \<Rightarrow> bool" where
  "api_normal s = (rstrip_char (CHR ''/'') s = s \<and> length s \<le> 300)"

lemma cget_dput: "cget (dput k v c) x = (if x = k then v else cget c x)"
  by (simp add: cget_def dget_dput)

lemma save_field_other: "k \<noteq> fst kd \<Longrightarrow> cget (save_field rp u kd c) k = cget c k"
  by (auto simp: save_field_def cget_dput split: option.splits)

lemma dict_ok_save_field: "dict_ok c \<Longrightarrow> dict_ok (save_field rp u kd c)"
  by (auto simp: save_field_def dict_ok_dput split: option.splits)

lemma dict_ok_fold: "dict_ok c \<Longrightarrow> (\<And>x c. dict_ok c \<Longrightarrow> dict_ok (f x c)) \<Longrightarrow> dict_ok (fold f xs c)"
  by (induction xs arbitrary: c) auto

lemma dict_ok_DEFAULTS: "dict_ok DEFAULTS"
  by code_simp

lemma fix_api_step:
  assumes "fix_api (Inr c) k = Inr c'" and "cget DEFAULTS k = JStr df"
  shows "\<exists>s. cget c k = JStr s \<and> c' = dput k (JStr (rstrip_char (CHR ''/'') (if startswith s ''https://'' then s else df))) c"
  using assms unfolding fix_api_def by (cases "cget c k") (auto split: if_splits)

lemma rstrip_char_split: "\<exists>n. s = rstrip_char c s @ replicate n c"
proof -
  have "rev s = takeWhile (\<lambda>x. x = c) (rev s) @ dropWhile (\<lambda>x. x = c) (rev s)" by simp
  moreover have "takeWhile (\<lambda>x. x = c) xs = replicate (length (takeWhile (\<lambda>x. x = c) xs)) c" for xs
    by (induction xs) auto
  ultimately have "rev s = replicate (length (takeWhile (\<lambda>x. x = c) (rev s))) c @ dropWhile (\<lambda>x. x = c) (rev s)"
    by metis
  then have "s = rev (dropWhile (\<lambda>x. x = c) (rev s)) @ replicate (length (takeWhile (\<lambda>x. x = c) (rev s))) c"
    by (metis rev_append rev_replicate rev_rev_ident)
  then show ?thesis unfolding rstrip_char_def rstrip_by_def by blast
qed

lemma rstrip_char_append: "rstrip_char c (s @ replicate n c) = rstrip_char c s"
proof -
  have "dropWhile (\<lambda>x. x = c) (replicate n c @ xs) = dropWhile (\<lambda>x. x = c) xs" for xs
    by (induction n) auto
  then show ?thesis by (simp add: rstrip_char_def rstrip_by_def)
qed

lemma rstrip_take:
  assumes "rstrip_char c w = a" "rstrip_char c a = a" "length a \<le> n"
  shows "rstrip_char c (take n w) = a"
proof -
  obtain m where "w = a @ replicate m c" using rstrip_char_split [of w c] assms(1) by auto
  with assms(3) have "take n w = a @ replicate (min (n - length a) m) c" by (simp add: take_replicate)
  with assms(2) show ?thesis by (simp add: rstrip_char_append)
qed

lemma cget_DEFAULTS:
  "cget DEFAULTS ''telegram_api'' = JStr ''https://api.telegram.org''" "cget DEFAULTS ''bale_api'' = JStr ''https://tapi.bale.ai''"
  by code_simp+

lemma startswith_take: "startswith (take n s) p \<Longrightarrow> startswith s p"
  unfolding startswith_iff by (metis append.assoc append_take_drop_id)

lemma falsy_plain:
  assumes "rp_plain rp" "\<not> truthy v"
  shows "\<not> startswith (take 300 (strip (py_str rp v))) ''https://''"
proof -
  have "\<not> startswith (strip (py_str rp v)) ''https://''"
  proof (cases v)
    case JNull
    have "\<not> startswith (strip ''None'') ''https://''" by code_simp
    with JNull show ?thesis by simp
  next
    case (JBool b)
    have "\<not> startswith (strip ''False'') ''https://''" by code_simp
    with JBool assms(2) show ?thesis by simp
  next
    case (JInt i)
    have "\<not> startswith (strip (str_int 0)) ''https://''" by code_simp
    with JInt assms(2) show ?thesis by simp
  next
    case (JStr s)
    have "\<not> startswith (strip []) ''https://''" by code_simp
    with JStr assms(2) show ?thesis by simp
  qed (use assms(1) in \<open>simp_all add: rp_plain_def\<close>)
  then show ?thesis using startswith_take by blast
qed

definition api_out :: "string \<Rightarrow> string \<Rightarrow> string" where
  "api_out ch s = rstrip_char (CHR ''/'') (if startswith s ''https://'' then s
     else if ch = ''telegram'' then ''https://api.telegram.org'' else ''https://tapi.bale.ai'')"

lemma save_field_cong: "cget c k = cget c' k \<Longrightarrow> cget (save_field rp u (k, x) c) k = cget (save_field rp u (k, x) c') k"
  by (auto simp: save_field_def cget_dput split: option.splits)

lemma fold_save_other: "k \<notin> fst ` set kds \<Longrightarrow> cget (fold (save_field rp u) kds c) k = cget c k"
  by (induction kds arbitrary: c) (auto simp: save_field_other)

lemma fold_save_distinct:
  "distinct (map fst kds) \<Longrightarrow> (k, x) \<in> set kds \<Longrightarrow>
   cget (fold (save_field rp u) kds c) k = cget (save_field rp u (k, x) c) k"
proof (induction kds arbitrary: c)
  case (Cons kd kds)
  show ?case
  proof (cases "kd = (k, x)")
    case True
    with Cons.prems show ?thesis by (simp add: fold_save_other)
  next
    case False
    with Cons.prems have m: "(k, x) \<in> set kds" by auto
    then have "k \<in> fst ` set kds" by (rule image_eqI [rotated]) simp
    moreover have "fst kd \<notin> fst ` set kds" using Cons.prems(1) by simp
    ultimately have "k \<noteq> fst kd" by metis
    with m Cons.IH [of "save_field rp u kd c"] Cons.prems show ?thesis
      by (simp add: save_field_cong [OF save_field_other])
  qed
qed simp

lemma fold_save_str:
  assumes "(k, JStr x) \<in> set DEFAULTS"
  shows "cget (fold (save_field rp u) DEFAULTS c) k = cget (save_field rp u (k, JStr []) c) k"
proof -
  have "save_field rp u (k, JStr x) c = save_field rp u (k, JStr []) c"
    by (auto simp: save_field_def split: option.split)
  then show ?thesis
    using fold_save_distinct [OF dict_ok_DEFAULTS [unfolded dict_ok_def] assms] by simp
qed

lemma DEFAULTS_mem:
  "(''telegram_api'', JStr ''https://api.telegram.org'') \<in> set DEFAULTS" "(''bale_api'', JStr ''https://tapi.bale.ai'') \<in> set DEFAULTS"
  "(''telegram_token'', JStr '''') \<in> set DEFAULTS" "(''bale_token'', JStr '''') \<in> set DEFAULTS"
  by code_simp+

lemma save_stored:
  assumes "notify_save rp upd d = (d', Inr v)" and "notify_load d = Inr cfg" and "ch \<in> {''telegram'', ''bale''}"
  obtains cfg' s where "settings d' = dput ''notify'' (JObj cfg') (settings d)"
    "\<not> api_change_unsafe rp upd cfg ch"
    "cget (save_field rp upd (ch @ ''_api'', JStr []) cfg) (ch @ ''_api'') = JStr s"
    "cget cfg' (ch @ ''_api'') = JStr (api_out ch s)"
    "cget cfg' (ch @ ''_token'') = cget (save_field rp upd (ch @ ''_token'', JStr []) cfg) (ch @ ''_token'')"
    "public_view d' = Inr v"
proof -
  let ?c = "fold (save_field rp upd) DEFAULTS cfg"
  have un: "\<not> api_change_unsafe rp upd cfg ch" using assms by (auto simp: notify_save_def split: if_splits)
  obtain cfg' where cfg': "foldl fix_api (Inr ?c) [''telegram_api'', ''bale_api''] = Inr cfg'"
    and d': "d' = set_setting ''notify'' (JObj cfg') d" "public_view d' = Inr v"
    using assms(1,2) by (auto simp: notify_save_def Let_def split: if_splits sum.splits)
  have f: "cget ?c (ch @ ''_api'') = cget (save_field rp upd (ch @ ''_api'', JStr []) cfg) (ch @ ''_api'')"
    "cget ?c (ch @ ''_token'') = cget (save_field rp upd (ch @ ''_token'', JStr []) cfg) (ch @ ''_token'')"
    using assms(3) by (auto simp: fold_save_str [OF DEFAULTS_mem(1)] fold_save_str [OF DEFAULTS_mem(2)]
      fold_save_str [OF DEFAULTS_mem(3)] fold_save_str [OF DEFAULTS_mem(4)])
  from cfg' obtain c1 where c1: "fix_api (Inr ?c) ''telegram_api'' = Inr c1" and c2: "fix_api (Inr c1) ''bale_api'' = Inr cfg'"
    by (cases "fix_api (Inr ?c) ''telegram_api''") (auto simp: fix_api_def)
  obtain st where st: "cget ?c ''telegram_api'' = JStr st" "c1 = dput ''telegram_api'' (JStr (api_out ''telegram'' st)) ?c"
    using fix_api_step [OF c1 cget_DEFAULTS(1)] by (auto simp: api_out_def)
  obtain sb where sb: "cget c1 ''bale_api'' = JStr sb" "cfg' = dput ''bale_api'' (JStr (api_out ''bale'' sb)) c1"
    using fix_api_step [OF c2 cget_DEFAULTS(2)] by (auto simp: api_out_def)
  have k: "''bale_api'' \<noteq> ''telegram_api''" "''bale_token'' \<noteq> ''telegram_api''" "''bale_token'' \<noteq> ''bale_api''"
    "''telegram_token'' \<noteq> ''telegram_api''" "''telegram_token'' \<noteq> ''bale_api''" by simp_all
  have "\<exists>s. cget ?c (ch @ ''_api'') = JStr s \<and> cget cfg' (ch @ ''_api'') = JStr (api_out ch s)
      \<and> cget cfg' (ch @ ''_token'') = cget ?c (ch @ ''_token'')"
  proof (cases "ch = ''telegram''")
    case True
    with st sb k show ?thesis by (intro exI [of _ st]) (simp add: cget_dput del: fold.simps)
  next
    case False
    then have "ch = ''bale''" using assms(3) by simp
    with st sb k show ?thesis by (intro exI [of _ sb]) (simp add: cget_dput)
  qed
  then obtain s where s: "cget ?c (ch @ ''_api'') = JStr s" "cget cfg' (ch @ ''_api'') = JStr (api_out ch s)"
    "cget cfg' (ch @ ''_token'') = cget ?c (ch @ ''_token'')" by blast
  show thesis
    by (rule that [of cfg' s]) (use un d' f s in \<open>simp_all add: set_setting_def\<close>)
qed

text \<open>
  An administrator's session cannot be used to send a stored bot token somewhere else: saving the
  notification settings without typing the token again keeps the token, and keeps the server address of
  that channel or falls back to the official one.
\<close>

theorem token_stays_with_its_server:
  assumes "rp_plain rp" and "ch \<in> {''telegram'', ''bale''}" and "notify_load d = Inr cfg"
    and "cget cfg (ch @ ''_api'') = JStr api" and "api_normal api" and "truthy (cget cfg (ch @ ''_token''))"
    and "\<not> truthy (upd_get update (ch @ ''_token''))" and "notify_save rp update d = (d', Inr v)"
  shows "\<exists>cfg'. dget (settings d') ''notify'' = Some (JObj cfg') \<and> cget cfg' (ch @ ''_token'') = cget cfg (ch @ ''_token'')
    \<and> cget cfg' (ch @ ''_api'') \<in> {JStr api, JStr (api_out ch [])}"
proof -
  obtain cfg' s where st: "settings d' = dput ''notify'' (JObj cfg') (settings d)"
    and un: "\<not> api_change_unsafe rp update cfg ch"
    and s: "cget (save_field rp update (ch @ ''_api'', JStr []) cfg) (ch @ ''_api'') = JStr s"
    and out: "cget cfg' (ch @ ''_api'') = JStr (api_out ch s)"
    and tok: "cget cfg' (ch @ ''_token'') = cget (save_field rp update (ch @ ''_token'', JStr []) cfg) (ch @ ''_token'')"
    by (rule save_stored [OF assms(8,3,2)])
  have t: "cget cfg' (ch @ ''_token'') = cget cfg (ch @ ''_token'')"
    using tok assms(2,7) by (auto simp: save_field_def SECRET_KEYS_def upd_get_def cget_dput split: option.splits)
  have n: "rstrip_char (CHR ''/'') api = api" "length api \<le> 300" using assms(5) by (simp_all add: api_normal_def)
  have d: "\<not> startswith x ''https://'' \<Longrightarrow> api_out ch x = api_out ch []" for x by (simp add: api_out_def startswith_def)
  have "api_out ch s \<in> {api, api_out ch []}"
  proof (cases "dget update (ch @ ''_api'')")
    case None
    then have "s = api" using s assms(4) by (simp add: save_field_def)
    with n d [of s] show ?thesis by (cases "startswith s ''https://''") (simp_all add: api_out_def)
  next
    case (Some u)
    have k: "ch @ ''_api'' \<notin> set SECRET_KEYS" using assms(2) by (auto simp: SECRET_KEYS_def)
    have su: "s = take 300 (strip (py_str rp u))" using s Some k by (simp add: save_field_def cget_dput)
    show ?thesis
    proof (cases "truthy u")
      case True
      then have "rstrip_char (CHR ''/'') (strip (py_str rp u)) = api"
        using un Some assms(4,6,7) by (simp add: api_change_unsafe_def upd_get_def Let_def)
      from rstrip_take [OF this n] d [of s] su show ?thesis
        by (cases "startswith s ''https://''") (simp_all add: api_out_def)
    next
      case False
      have "\<not> startswith s ''https://''"
        using False assms(1) su falsy_plain by blast
      with d show ?thesis by simp
    qed
  qed
  with st t out show ?thesis by (simp add: dget_dput)
qed

section \<open>Closed examples\<close>

definition demo_rp :: "json \<Rightarrow> string" where
  "demo_rp v = ''[]''"

definition demo_notify_db :: db where
  "demo_notify_db = empty_db\<lparr>settings := [(''notify'', JObj [(''telegram_on'', JBool True),
     (''telegram_token'', JStr ''12:ab''), (''telegram_chat'', JStr ''7''), (''telegram_api'', JStr ''https://m.ir'')])]\<rparr>"

theorem send_never_leaks_token_witness:
  "\<exists>d' results. send demo_rp (\<lambda>j t. Raised ''cannot reach https://m.ir/bot12:ab/sendMessage'') 5 ''hi'' demo_notify_db = (d', Inr results)
     \<and> length results = 1 \<and> (\<forall>r \<in> set results. \<not> contains (sr_error r) ''12:ab'')"
proof -
  let ?s = "send demo_rp (\<lambda>j t. Raised ''cannot reach https://m.ir/bot12:ab/sendMessage'') 5 ''hi'' demo_notify_db"
  have "case snd ?s of Inl e \<Rightarrow> False | Inr rs \<Rightarrow> length rs = 1" by code_simp
  then obtain rs where rs: "snd ?s = Inr rs" "length rs = 1" by (auto split: sum.splits)
  then have s: "?s = (fst ?s, Inr rs)" by (metis prod.collapse)
  have "case notify_load demo_notify_db of Inl e \<Rightarrow> False | Inr c \<Rightarrow> token_of c ''telegram_token'' ''12:ab''" by code_simp
  then obtain c where c: "notify_load demo_notify_db = Inr c" "token_of c ''telegram_token'' ''12:ab''" by (auto split: sum.splits)
  have l: "\<forall>l \<in> set (notify_log demo_notify_db). \<not> contains (nl_error l) ''12:ab''" by code_simp
  from send_never_leaks_token [OF s c l] rs s show ?thesis by blast
qed

theorem silent_failure_counts_as_sent_witness:
  "\<exists>d'. send demo_rp (\<lambda>j t. Raised []) 5 ''hi'' demo_notify_db = (d', Inr [\<lparr>sr_channel = ''telegram'', sr_ok = True, sr_error = []\<rparr>])"
proof -
  let ?j = "(''telegram'', JStr ''https://m.ir'', JStr ''12:ab'', JStr ''7'')"
  have "case notify_load demo_notify_db of Inl e \<Rightarrow> False | Inr c \<Rightarrow> jobs_of c = [?j]" by code_simp
  then obtain c where c: "notify_load demo_notify_db = Inr c" "jobs_of c = [?j]"
    by (cases "notify_load demo_notify_db") auto
  show ?thesis
    using silent_failure_counts_as_sent [OF c, of "\<lambda>j t. Raised []" "''hi''" demo_rp 5] by simp
qed

theorem token_stays_with_its_server_witness:
  "\<exists>d' v cfg'. notify_save demo_rp [(''telegram_chat'', JStr ''8'')] demo_notify_db = (d', Inr v)
     \<and> dget (settings d') ''notify'' = Some (JObj cfg') \<and> cget cfg' ''telegram_token'' = JStr ''12:ab''"
proof -
  let ?s = "notify_save demo_rp [(''telegram_chat'', JStr ''8'')] demo_notify_db"
  have "case snd ?s of Inl e \<Rightarrow> False | Inr rs \<Rightarrow> True" by code_simp
  then obtain v where v: "snd ?s = Inr v" by (auto split: sum.splits)
  then have s: "?s = (fst ?s, Inr v)" by (metis prod.collapse)
  have p: "rp_plain demo_rp"
  proof -
    have "\<not> startswith (strip ''[]'') ''https://''" by code_simp
    then show ?thesis by (simp add: rp_plain_def demo_rp_def)
  qed
  have "case notify_load demo_notify_db of Inl e \<Rightarrow> False | Inr c \<Rightarrow>
      cget c (''telegram'' @ ''_api'') = JStr ''https://m.ir'' \<and> cget c (''telegram'' @ ''_token'') = JStr ''12:ab''" by code_simp
  then obtain c where c: "notify_load demo_notify_db = Inr c" "cget c (''telegram'' @ ''_api'') = JStr ''https://m.ir''"
      "cget c (''telegram'' @ ''_token'') = JStr ''12:ab''"
    by (cases "notify_load demo_notify_db") auto
  have n: "api_normal ''https://m.ir''" by code_simp
  have u: "\<not> truthy (upd_get [(''telegram_chat'', JStr ''8'')] (''telegram'' @ ''_token''))" by code_simp
  have "\<exists>cfg'. dget (settings (fst ?s)) ''notify'' = Some (JObj cfg') \<and> cget cfg' (''telegram'' @ ''_token'') = cget c (''telegram'' @ ''_token'')
    \<and> cget cfg' (''telegram'' @ ''_api'') \<in> {JStr ''https://m.ir'', JStr (api_out ''telegram'' [])}"
    by (rule token_stays_with_its_server [OF p _ c(1,2) n _ u s]) (use c(3) in simp_all)
  with s c(3) show ?thesis by (metis append_Cons append_Nil)
qed

end
