(* ===== verification/Live.thy ===== *)
theory Live
  imports Notify
begin

text \<open>
  The live state of every server and the per-minute rollup (\<open>hub/icsd_hub/live.py\<close>). \<open>clean_sample\<close> turns the
  JSON an agent sent into a \<open>sample\<close>; \<open>ingest\<close> merges it into the server's \<open>live\<close> record; \<open>flush\<close> writes the
  averaged minute. The identity of a
  WebSocket is a number; \<open>lv_pending\<close> holds the ids of the requests waiting for an answer.
\<close>

section \<open>Reading numbers and strings\<close>

definition FIELDS :: "string list" where
  "FIELDS = [''cpu'', ''iowait'', ''steal'', ''mem'', ''swap'', ''load1'', ''disk'', ''rx'', ''tx'', ''rd'', ''wr'', ''tcp'']"

definition RING :: nat where
  "RING = 720"

definition MAX_DISKS :: nat where
  "MAX_DISKS = 64"

definition MAX_TOP :: nat where
  "MAX_TOP = 32"

definition MAX_CONTAINERS :: nat where
  "MAX_CONTAINERS = 500"

definition float_limit :: int where
  \<comment> \<open>the least integer that no longer rounds to a finite double\<close>
  "float_limit = 2 ^ 1024 - 2 ^ 970"

definition digit_run :: "string \<Rightarrow> string option" where
  \<comment> \<open>digits with single underscores between them\<close>
  "digit_run s = (let ps = split_on (CHR ''_'') s in
     if list_all (\<lambda>p. p \<noteq> [] \<and> list_all ascii_digit p) ps then Some (concat ps) else None)"

definition decimal :: "string \<Rightarrow> rat option" where
  "decimal s =
     (case split_on (CHR ''.'') s of
        [a] \<Rightarrow> map_option (\<lambda>x. of_int (digits_value x)) (digit_run a)
      | [a, b] \<Rightarrow>
          if a = [] \<and> b = [] then None
          else (case (if a = [] then Some [] else digit_run a, if b = [] then Some [] else digit_run b) of
                  (Some x, Some y) \<Rightarrow> Some (of_int (digits_value (x @ y)) / 10 ^ length y)
                | _ \<Rightarrow> None)
      | _ \<Rightarrow> None)"

definition signed :: "string \<Rightarrow> bool \<times> string" where
  "signed s = (if startswith s ''-'' then (True, tl s) else if startswith s ''+'' then (False, tl s) else (False, s))"

definition float_of_str :: "string \<Rightarrow> pyfloat option" where
  \<comment> \<open>\<open>float(s)\<close>: blanks around, sign, digits, fraction, exponent, \<open>inf\<close> and \<open>nan\<close>\<close>
  "float_of_str s =
     (let (neg, t) = signed (lower (strip s)) in
      if t \<in> {''inf'', ''infinity''} then Some (if neg then NegInf else PosInf)
      else if t = ''nan'' then Some NaN
      else
        let num = (case split_on (CHR ''e'') t of
                     [m] \<Rightarrow> decimal m
                   | [m, ex] \<Rightarrow>
                       (case (decimal m, digit_run (snd (signed ex))) of
                          (Some x, Some e) \<Rightarrow>
                            Some (if fst (signed ex) then x / 10 ^ nat (digits_value e) else x * 10 ^ nat (digits_value e))
                        | _ \<Rightarrow> None)
                   | _ \<Rightarrow> None)
        in map_option (\<lambda>x. if of_int float_limit \<le> x then (if neg then NegInf else PosInf)
                           else Fin (if neg then - x else x)) num)"

fun py_float :: "json \<Rightarrow> pyfloat res" where
  "py_float JNull = Inl TypeError"
| "py_float (JBool b) = Inr (Fin (if b then 1 else 0))"
| "py_float (JInt i) = (if \<bar>i\<bar> < float_limit then Inr (Fin (of_int i)) else Inl OverflowError)"
| "py_float (JFloat f) = Inr f"
| "py_float (JStr s) = (case float_of_str s of None \<Rightarrow> Inl (ValueError ''could not convert string to float'') | Some f \<Rightarrow> Inr f)"
| "py_float (JArr xs) = Inl TypeError"
| "py_float (JObj kvs) = Inl TypeError"

definition num :: "json \<Rightarrow> rat res" where
  \<comment> \<open>\<open>_f\<close>\<close>
  "num v = (case py_float v of
     Inl TypeError \<Rightarrow> Inr 0 | Inl (ValueError m) \<Rightarrow> Inr 0 | Inl e \<Rightarrow> Inl e
   | Inr (Fin x) \<Rightarrow> Inr x | Inr f \<Rightarrow> Inr 0)"

definition text_of :: "(json \<Rightarrow> string) \<Rightarrow> json \<Rightarrow> nat \<Rightarrow> string" where
  \<comment> \<open>\<open>_s\<close>\<close>
  "text_of rp v n = (if v = JNull then [] else take n (py_str rp v))"

definition rbind :: "'a res \<Rightarrow> ('a \<Rightarrow> 'b res) \<Rightarrow> 'b res" where
  "rbind r f = (case r of Inl e \<Rightarrow> Inl e | Inr x \<Rightarrow> f x)"

fun mapM :: "('a \<Rightarrow> 'b res) \<Rightarrow> 'a list \<Rightarrow> 'b list res" where
  "mapM f [] = Inr []"
| "mapM f (x # xs) = rbind (f x) (\<lambda>y. rbind (mapM f xs) (\<lambda>ys. Inr (y # ys)))"

definition nums :: "json \<Rightarrow> string list \<Rightarrow> (string, rat) dict res" where
  \<comment> \<open>\<open>{k: _f(v.get(k)) for k in keys}\<close>\<close>
  "nums v keys = mapM (\<lambda>k. case jget v k of None \<Rightarrow> Inl AttributeError | Some x \<Rightarrow> rbind (num x) (\<lambda>r. Inr (k, r))) keys"

definition nget :: "(string, rat) dict \<Rightarrow> string \<Rightarrow> rat" where
  "nget d k = (case dget d k of Some x \<Rightarrow> x | None \<Rightarrow> 0)"

section \<open>Samples\<close>

record disk =
  dk_mount :: string
  dk_device :: string
  dk_fs :: string
  dk_nums :: "(string, rat) dict"

record proc =
  pr_pid :: int
  pr_name :: string
  pr_user :: string
  pr_cpu :: rat
  pr_rss :: rat

record container =
  cn_id :: string
  cn_name :: string
  cn_image :: string
  cn_state :: string
  cn_health :: string
  cn_status :: string
  cn_cpu :: rat
  cn_mem :: rat

record sample =
  sa_ts :: int
  sa_cpu :: "(string, rat) dict"
  sa_load :: "rat list"
  sa_mem :: "(string, rat) dict"
  sa_io :: "(string, rat) dict"
  sa_net :: "(string, rat) dict"
  sa_tcp :: int
  sa_procs :: int
  sa_uptime :: int
  sa_disks :: "disk list option"
  sa_top :: "proc list option"
  sa_containers :: "container list option"
  sa_docker_err :: "string option"

definition rget :: "(string, json) dict \<Rightarrow> string \<Rightarrow> json" where
  "rget raw k = (case dget raw k of Some v \<Rightarrow> v | None \<Rightarrow> JNull)"

definition or_obj :: "json \<Rightarrow> json" where
  \<comment> \<open>\<open>v or {}\<close>\<close>
  "or_obj v = (if truthy v then v else JObj [])"

definition py_list :: "json \<Rightarrow> json list res" where
  \<comment> \<open>\<open>list(v)\<close>\<close>
  "py_list v = (case v of JArr xs \<Rightarrow> Inr xs | JStr s \<Rightarrow> Inr (map (\<lambda>c. JStr [c]) s)
     | JObj kvs \<Rightarrow> Inr (map (\<lambda>p. JStr (fst p)) kvs) | _ \<Rightarrow> Inl TypeError)"

fun is_obj :: "json \<Rightarrow> bool" where
  "is_obj (JObj kvs) = True"
| "is_obj _ = False"

definition oget :: "json \<Rightarrow> string \<Rightarrow> json" where
  \<comment> \<open>\<open>d.get(k)\<close> of a value known to be a dict\<close>
  "oget v k = (case jget v k of Some x \<Rightarrow> x | None \<Rightarrow> JNull)"

definition clean_disk :: "(json \<Rightarrow> string) \<Rightarrow> json \<Rightarrow> disk res" where
  "clean_disk rp d =
     rbind (nums d [''total'', ''used'', ''free'', ''pct'', ''inodes_pct'']) (\<lambda>ns.
       Inr \<lparr>dk_mount = text_of rp (oget d ''mount'') 200, dk_device = text_of rp (oget d ''device'') 200,
            dk_fs = text_of rp (oget d ''fs'') 20, dk_nums = ns\<rparr>)"

definition clean_proc :: "(json \<Rightarrow> string) \<Rightarrow> json \<Rightarrow> proc res" where
  "clean_proc rp p =
     rbind (num (oget p ''pid'')) (\<lambda>pid. rbind (num (oget p ''cpu'')) (\<lambda>c. rbind (num (oget p ''rss'')) (\<lambda>r.
       Inr \<lparr>pr_pid = py_trunc pid, pr_name = text_of rp (oget p ''name'') 64, pr_user = text_of rp (oget p ''user'') 32,
            pr_cpu = c, pr_rss = r\<rparr>)))"

definition clean_container :: "(json \<Rightarrow> string) \<Rightarrow> json \<Rightarrow> container res" where
  "clean_container rp c =
     rbind (num (oget c ''cpu'')) (\<lambda>x. rbind (num (oget c ''mem'')) (\<lambda>y.
       Inr \<lparr>cn_id = text_of rp (oget c ''id'') 64, cn_name = text_of rp (oget c ''name'') 128,
            cn_image = text_of rp (oget c ''image'') 200, cn_state = text_of rp (oget c ''state'') 20,
            cn_health = text_of rp (oget c ''health'') 20, cn_status = text_of rp (oget c ''status'') 100,
            cn_cpu = x, cn_mem = y\<rparr>))"

definition clean_list :: "(json \<Rightarrow> 'b res) \<Rightarrow> nat \<Rightarrow> json \<Rightarrow> 'b list option res" where
  \<comment> \<open>a list-valued part: capped, non-dict elements dropped; absent when it is not a list\<close>
  "clean_list f n v = (case v of JArr xs \<Rightarrow> rbind (mapM f (filter is_obj (take n xs))) (\<lambda>ys. Inr (Some ys)) | _ \<Rightarrow> Inr None)"

definition clean_sample :: "(json \<Rightarrow> string) \<Rightarrow> (string, json) dict \<Rightarrow> sample res" where
  "clean_sample rp raw =
     (let load = (if truthy (rget raw ''load'') then rget raw ''load'' else JArr [JInt 0, JInt 0, JInt 0]) in
      rbind (num (rget raw ''ts'')) (\<lambda>ts.
      rbind (nums (or_obj (rget raw ''cpu'')) [''pct'', ''user'', ''system'', ''iowait'', ''steal'']) (\<lambda>cpu.
      rbind (rbind (py_list load) (\<lambda>l. mapM num (take 3 l))) (\<lambda>ld.
      rbind (nums (or_obj (rget raw ''mem'')) [''total'', ''used'', ''available'', ''cached'', ''pct'',
               ''swap_total'', ''swap_used'', ''swap_pct'']) (\<lambda>mem.
      rbind (nums (or_obj (rget raw ''io'')) [''read_bps'', ''write_bps'']) (\<lambda>io.
      rbind (nums (or_obj (rget raw ''net'')) [''rx_bps'', ''tx_bps'']) (\<lambda>net.
      rbind (num (rget raw ''tcp'')) (\<lambda>tcp.
      rbind (num (rget raw ''procs'')) (\<lambda>procs.
      rbind (num (rget raw ''uptime'')) (\<lambda>up.
      rbind (clean_list (clean_disk rp) MAX_DISKS (rget raw ''disks'')) (\<lambda>disks.
      rbind (clean_list (clean_proc rp) MAX_TOP (rget raw ''top'')) (\<lambda>top.
      rbind (clean_list (clean_container rp) MAX_CONTAINERS (rget raw ''containers'')) (\<lambda>conts.
        Inr \<lparr>sa_ts = py_trunc ts, sa_cpu = cpu, sa_load = ld @ replicate (3 - length ld) 0, sa_mem = mem, sa_io = io,
             sa_net = net, sa_tcp = py_trunc tcp, sa_procs = py_trunc procs, sa_uptime = py_trunc up,
             sa_disks = disks, sa_top = top, sa_containers = conts,
             sa_docker_err = (if truthy (rget raw ''docker_err'') then Some (text_of rp (rget raw ''docker_err'') 200)
                              else None)\<rparr>)))))))))))))"

section \<open>Live state\<close>

record live =
  lv_server_id :: string
  lv_ws :: "nat option"
  lv_ip :: string
  lv_version :: string
  lv_connected_at :: rat
  lv_last_ts :: rat
  lv_last :: "sample option"
  lv_ring :: "(int \<times> rat list) list"
  lv_acc_minute :: int
  lv_acc :: "rat list"
  lv_acc_cpu_max :: rat
  lv_acc_n :: int
  lv_seen_written :: rat
  lv_caps :: "(string, json) dict"
  lv_pending :: "string list"

definition new_live :: "string \<Rightarrow> live" where
  "new_live sid = \<lparr>lv_server_id = sid, lv_ws = None, lv_ip = [], lv_version = [], lv_connected_at = 0, lv_last_ts = 0,
     lv_last = None, lv_ring = [], lv_acc_minute = 0, lv_acc = replicate 12 0, lv_acc_cpu_max = 0, lv_acc_n = 0,
     lv_seen_written = 0, lv_caps = [], lv_pending = []\<rparr>"

record hub_l = hub_n +
  lives :: "(string, live) dict"

definition connected :: "live \<Rightarrow> bool" where
  "connected lv = (lv_ws lv \<noteq> None)"

definition status :: "config \<Rightarrow> rat \<Rightarrow> live \<Rightarrow> string" where
  "status cfg now lv =
     (if connected lv \<and> now - lv_last_ts lv < of_int (sample_interval cfg * 3 + 10) then ''online'' else ''offline'')"

definition live_get :: "string \<Rightarrow> 'a hub_l_scheme \<Rightarrow> live \<times> 'a hub_l_scheme" where
  "live_get sid d =
     (case dget (lives d) sid of
        Some lv \<Rightarrow> (lv, d)
      | None \<Rightarrow> (new_live sid, d\<lparr>lives := dput sid (new_live sid) (lives d)\<rparr>))"

definition peek :: "string \<Rightarrow> 'a hub_l_scheme \<Rightarrow> live option" where
  "peek sid d = dget (lives d) sid"

definition live_forget :: "string \<Rightarrow> 'a hub_l_scheme \<Rightarrow> 'a hub_l_scheme" where
  "live_forget sid d = d\<lparr>lives := ddel sid (lives d)\<rparr>"

definition py_max :: "rat \<Rightarrow> rat list \<Rightarrow> rat" where
  \<comment> \<open>\<open>max(xs, default=v)\<close>\<close>
  "py_max v xs = (case xs of [] \<Rightarrow> v | y # ys \<Rightarrow> fold max ys y)"

definition point_of :: "sample \<Rightarrow> rat list" where
  "point_of s =
     [nget (sa_cpu s) ''pct'', nget (sa_cpu s) ''iowait'', nget (sa_cpu s) ''steal'',
      nget (sa_mem s) ''pct'', nget (sa_mem s) ''swap_pct'', sa_load s ! 0,
      py_max 0 (map (\<lambda>k. nget (dk_nums k) ''pct'') (case sa_disks s of None \<Rightarrow> [] | Some ds \<Rightarrow> ds)),
      nget (sa_net s) ''rx_bps'', nget (sa_net s) ''tx_bps'', nget (sa_io s) ''read_bps'', nget (sa_io s) ''write_bps'',
      of_int (sa_tcp s)]"

definition merge_row :: "sample_row \<Rightarrow> sample_row \<Rightarrow> sample_row" where
  \<comment> \<open>the \<open>ON CONFLICT\<close> clause: old row, excluded row\<close>
  "merge_row r e =
     r\<lparr>sm_vals := map2 (\<lambda>c x. sql_round 2 ((c * of_int (sm_n r) + x * of_int (sm_n e)) / of_int (sm_n r + sm_n e)))
          (sm_vals r) (sm_vals e),
       sm_cpu_max := max (sm_cpu_max r) (sm_cpu_max e), sm_n := sm_n r + sm_n e\<rparr>"

definition upsert_1m :: "sample_row \<Rightarrow> 'a db_scheme \<Rightarrow> 'a db_scheme" where
  "upsert_1m e d =
     (let same_key = (\<lambda>r. sm_server r = sm_server e \<and> sm_ts r = sm_ts e) in
      if select_one same_key (samples_1m d) = None then d\<lparr>samples_1m := samples_1m d @ [e]\<rparr>
      else d\<lparr>samples_1m := update_where same_key (\<lambda>r. merge_row r e) (samples_1m d)\<rparr>)"

definition flush :: "live \<Rightarrow> 'a db_scheme \<Rightarrow> live \<times> 'a db_scheme" where
  "flush lv d =
     (if lv_acc_n lv = 0 then (lv, d)
      else (lv\<lparr>lv_acc := replicate 12 0, lv_acc_cpu_max := 0, lv_acc_n := 0\<rparr>,
            upsert_1m \<lparr>sm_server = lv_server_id lv, sm_ts = lv_acc_minute lv, sm_n = lv_acc_n lv,
              sm_cpu_max = py_round 2 (lv_acc_cpu_max lv),
              sm_vals = map (\<lambda>v. py_round 2 (v / of_int (lv_acc_n lv))) (lv_acc lv)\<rparr> d))"

definition accumulate :: "int \<Rightarrow> rat list \<Rightarrow> live \<Rightarrow> 'a db_scheme \<Rightarrow> live \<times> 'a db_scheme" where
  "accumulate ts p lv d =
     (let minute = ts - ts mod 60;
          (lv, d) = (if lv_acc_n lv \<noteq> 0 \<and> minute \<noteq> lv_acc_minute lv then flush lv d else (lv, d));
          lv = (if lv_acc_n lv = 0 then lv\<lparr>lv_acc_minute := minute\<rparr> else lv)
      in (lv\<lparr>lv_acc := map2 (+) (lv_acc lv) p, lv_acc_cpu_max := max (lv_acc_cpu_max lv) (p ! 0),
             lv_acc_n := lv_acc_n lv + 1\<rparr>, d))"

definition keep_slow :: "(string, json) dict \<Rightarrow> sample option \<Rightarrow> sample \<Rightarrow> sample" where
  "keep_slow raw old s =
     (if dget raw ''disks'' = None \<and> dget raw ''top'' = None then
        (case old of
           None \<Rightarrow> s
         | Some l \<Rightarrow>
             s\<lparr>sa_disks := (case sa_disks l of None \<Rightarrow> sa_disks s | x \<Rightarrow> x),
               sa_top := (case sa_top l of None \<Rightarrow> sa_top s | x \<Rightarrow> x),
               sa_containers := (case sa_containers l of None \<Rightarrow> sa_containers s | x \<Rightarrow> x),
               sa_docker_err := (case sa_docker_err l of None \<Rightarrow> sa_docker_err s | x \<Rightarrow> x)\<rparr>)
      else s)"

definition sample_time :: "rat \<Rightarrow> sample \<Rightarrow> rat" where
  "sample_time now s =
     (let ts = (if sa_ts s \<noteq> 0 then of_int (sa_ts s) / 1000 else now)
      in if now + 60 < ts \<or> ts < now - 900 then now else ts)"

definition ring_append :: "'x \<Rightarrow> 'x list \<Rightarrow> 'x list" where
  \<comment> \<open>\<open>deque(maxlen=RING).append\<close>\<close>
  "ring_append x xs = (let ys = xs @ [x] in drop (length ys - RING) ys)"

definition ingest ::
  "(json \<Rightarrow> string) \<Rightarrow> rat \<Rightarrow> (string, json) dict \<Rightarrow> live \<Rightarrow> 'a db_scheme \<Rightarrow> live \<times> 'a db_scheme \<times> sample res" where
  "ingest rp now raw lv d =
     (case clean_sample rp raw of
        Inl e \<Rightarrow> (lv, d, Inl e)
      | Inr s0 \<Rightarrow>
          let ts = sample_time now s0;
              s = keep_slow raw (lv_last lv) (s0\<lparr>sa_ts := py_trunc (ts * 1000)\<rparr>);
              p = point_of s;
              lv1 = lv\<lparr>lv_last := Some s, lv_last_ts := now, lv_ring := ring_append (py_trunc ts, p) (lv_ring lv)\<rparr>;
              (lv2, d2) = accumulate (py_trunc ts) p lv1 d
          in if 60 < now - lv_seen_written lv2
             then (lv2\<lparr>lv_seen_written := now\<rparr>,
                   d2\<lparr>servers := update_where (\<lambda>r. sv_id r = lv_server_id lv2)
                                   (\<lambda>r. r\<lparr>sv_last_seen := Some (py_trunc now)\<rparr>) (servers d2)\<rparr>, Inr s)
             else (lv2, d2, Inr s))"

fun flush_list :: "(string, live) dict \<Rightarrow> 'a db_scheme \<Rightarrow> (string, live) dict \<times> 'a db_scheme" where
  "flush_list [] d = ([], d)"
| "flush_list ((k, lv) # rest) d =
     (let (lv', d1) = flush lv d; (rest', d2) = flush_list rest d1 in ((k, lv') # rest', d2))"

definition flush_all :: "'a hub_l_scheme \<Rightarrow> 'a hub_l_scheme" where
  "flush_all d = (let (ls, d') = flush_list (lives d) d in d'\<lparr>lives := ls\<rparr>)"

section \<open>Samples are capped\<close>

lemma rbind_Inr [simp]: "rbind r f = Inr y \<longleftrightarrow> (\<exists>x. r = Inr x \<and> f x = Inr y)"
  by (auto simp: rbind_def split: sum.splits)

lemma mapM_Inr: "mapM f xs = Inr ys \<Longrightarrow> list_all2 (\<lambda>x y. f x = Inr y) xs ys"
  by (induction xs arbitrary: ys) auto

lemma mapM_length: "mapM f xs = Inr ys \<Longrightarrow> length ys = length xs"
  by (drule mapM_Inr) (simp add: list_all2_lengthD)

lemma mapM_all: "mapM f xs = Inr ys \<Longrightarrow> (\<And>x y. f x = Inr y \<Longrightarrow> P y) \<Longrightarrow> y \<in> set ys \<Longrightarrow> P y"
  by (drule mapM_Inr) (auto simp: list_all2_conv_all_nth in_set_conv_nth)

lemma length_filter_take: "length (filter p (take n xs)) \<le> n"
  using length_filter_le [of p "take n xs"] by simp

lemma clean_list_len: "clean_list f n v = Inr (Some ys) \<Longrightarrow> length ys \<le> n"
  by (auto simp: clean_list_def length_filter_take split: json.splits dest!: mapM_length)

lemma clean_list_all:
  "clean_list f n v = Inr (Some ys) \<Longrightarrow> (\<And>x y. f x = Inr y \<Longrightarrow> P y) \<Longrightarrow> y \<in> set ys \<Longrightarrow> P y"
  by (auto simp: clean_list_def split: json.splits intro: mapM_all)

lemma text_of_len: "length (text_of rp v n) \<le> n"
  by (simp add: text_of_def)

definition sample_capped :: "sample \<Rightarrow> bool" where
  "sample_capped s =
     (length (sa_load s) = 3 \<and>
      (\<forall>ds. sa_disks s = Some ds \<longrightarrow> length ds \<le> MAX_DISKS \<and> list_all (\<lambda>k. length (dk_mount k) \<le> 200) ds) \<and>
      (\<forall>ps. sa_top s = Some ps \<longrightarrow> length ps \<le> MAX_TOP \<and> list_all (\<lambda>p. length (pr_name p) \<le> 64) ps) \<and>
      (\<forall>cs. sa_containers s = Some cs \<longrightarrow> length cs \<le> MAX_CONTAINERS \<and>
         list_all (\<lambda>c. length (cn_name c) \<le> 128 \<and> length (cn_state c) \<le> 20 \<and> length (cn_status c) \<le> 100) cs) \<and>
      (\<forall>e. sa_docker_err s = Some e \<longrightarrow> length e \<le> 200))"

lemma clean_disk_cap: "clean_disk rp v = Inr k \<Longrightarrow> length (dk_mount k) \<le> 200"
  by (auto simp: clean_disk_def text_of_len)

lemma clean_proc_cap: "clean_proc rp v = Inr p \<Longrightarrow> length (pr_name p) \<le> 64"
  by (auto simp: clean_proc_def text_of_len)

lemma clean_container_cap:
  "clean_container rp v = Inr c \<Longrightarrow> length (cn_name c) \<le> 128 \<and> length (cn_state c) \<le> 20 \<and> length (cn_status c) \<le> 100"
  by (auto simp: clean_container_def text_of_len)

lemma clean_sample_capped:
  assumes "clean_sample rp raw = Inr s"
  shows "sample_capped s"
proof -
  obtain l ld disks top conts where ld: "mapM num (take 3 l) = Inr ld" "sa_load s = ld @ replicate (3 - length ld) 0"
    and parts: "clean_list (clean_disk rp) MAX_DISKS (rget raw ''disks'') = Inr disks"
      "clean_list (clean_proc rp) MAX_TOP (rget raw ''top'') = Inr top"
      "clean_list (clean_container rp) MAX_CONTAINERS (rget raw ''containers'') = Inr conts"
    and s: "sa_disks s = disks" "sa_top s = top" "sa_containers s = conts"
      "sa_docker_err s = (if truthy (rget raw ''docker_err'') then Some (text_of rp (rget raw ''docker_err'') 200) else None)"
    using assms unfolding clean_sample_def Let_def by (auto simp del: mapM.simps)
  have "length (sa_load s) = 3" using mapM_length [OF ld(1)] ld(2) by simp
  moreover have "length ds \<le> MAX_DISKS \<and> list_all (\<lambda>k. length (dk_mount k) \<le> 200) ds" if "disks = Some ds" for ds
    using parts(1) that clean_list_len
      clean_list_all [of "clean_disk rp" MAX_DISKS "rget raw ''disks''" ds "\<lambda>k. length (dk_mount k) \<le> 200"] clean_disk_cap
    unfolding list_all_iff by blast
  moreover have "length ps \<le> MAX_TOP \<and> list_all (\<lambda>p. length (pr_name p) \<le> 64) ps" if "top = Some ps" for ps
    using parts(2) that clean_list_len
      clean_list_all [of "clean_proc rp" MAX_TOP "rget raw ''top''" ps "\<lambda>p. length (pr_name p) \<le> 64"] clean_proc_cap
    unfolding list_all_iff by blast
  moreover have "length cs \<le> MAX_CONTAINERS \<and>
      list_all (\<lambda>c. length (cn_name c) \<le> 128 \<and> length (cn_state c) \<le> 20 \<and> length (cn_status c) \<le> 100) cs" if "conts = Some cs" for cs
    using parts(3) that clean_list_len
      clean_list_all [of "clean_container rp" MAX_CONTAINERS "rget raw ''containers''" cs
        "\<lambda>c. length (cn_name c) \<le> 128 \<and> length (cn_state c) \<le> 20 \<and> length (cn_status c) \<le> 100"] clean_container_cap
    unfolding list_all_iff by blast
  ultimately show ?thesis using s by (simp add: sample_capped_def text_of_len)
qed

lemma keep_slow_capped:
  "sample_capped s \<Longrightarrow> (\<And>l. old = Some l \<Longrightarrow> sample_capped l) \<Longrightarrow> sample_capped (keep_slow raw old s)"
  by (auto simp: sample_capped_def keep_slow_def split: option.splits)

lemma sample_time_window: "now - 900 \<le> sample_time now s \<and> sample_time now s \<le> now + 60"
  by (simp add: sample_time_def Let_def)

section \<open>No sample is lost or counted twice\<close>

abbreviation sample_key :: "sample_row \<Rightarrow> string \<times> int" where
  "sample_key r \<equiv> (sm_server r, sm_ts r)"

definition sample_count :: "string \<Rightarrow> sample_row list \<Rightarrow> int" where
  "sample_count sid rows = sum_list (map sm_n (filter (\<lambda>r. sm_server r = sid) rows))"

lemma sample_count_simps [simp]:
  "sample_count sid [] = 0"
  "sample_count sid (r # rows) = (if sm_server r = sid then sm_n r else 0) + sample_count sid rows"
  "sample_count sid (xs @ ys) = sample_count sid xs + sample_count sid ys"
  by (simp_all add: sample_count_def)

lemma merge_row_frame [simp]: "sm_server (merge_row r e) = sm_server r" "sm_ts (merge_row r e) = sm_ts r"
  "sm_n (merge_row r e) = sm_n r + sm_n e"
  by (simp_all add: merge_row_def)

lemma update_count_absent:
  "\<forall>r \<in> set rows. sample_key r \<noteq> sample_key e \<Longrightarrow>
   update_where (\<lambda>r. sm_server r = sm_server e \<and> sm_ts r = sm_ts e) f rows = rows"
  by (auto simp: update_where_def intro!: map_idI)

lemma update_count:
  "distinct (map sample_key rows) \<Longrightarrow> sample_key e \<in> set (map sample_key rows) \<Longrightarrow>
   sample_count sid (update_where (\<lambda>r. sm_server r = sm_server e \<and> sm_ts r = sm_ts e) (\<lambda>r. merge_row r e) rows) =
   sample_count sid rows + (if sm_server e = sid then sm_n e else 0)"
proof (induction rows)
  case (Cons r rows)
  show ?case
  proof (cases "sample_key r = sample_key e")
    case True
    have "\<forall>x \<in> set rows. sample_key x \<noteq> sample_key e"
    proof
      fix x assume "x \<in> set rows"
      then have "sample_key x \<in> set (map sample_key rows)" by simp
      moreover have "sample_key e \<notin> set (map sample_key rows)" using Cons.prems(1) True by simp
      ultimately show "sample_key x \<noteq> sample_key e" by metis
    qed
    from update_count_absent [OF this] True show ?thesis by (auto simp: update_where_def)
  next
    case False
    with Cons show ?thesis by (auto simp: update_where_def)
  qed
qed simp

lemma upsert_1m_count:
  assumes "distinct (map sample_key (samples_1m d))"
  shows "distinct (map sample_key (samples_1m (upsert_1m e d)))"
    "sample_count sid (samples_1m (upsert_1m e d)) = sample_count sid (samples_1m d) + (if sm_server e = sid then sm_n e else 0)"
proof -
  let ?k = "\<lambda>r. sm_server r = sm_server e \<and> sm_ts r = sm_ts e"
  have none: "select_one ?k (samples_1m d) = None \<longleftrightarrow> sample_key e \<notin> set (map sample_key (samples_1m d))"
    by (auto simp: select_one_None image_iff)
  have "map sample_key (update_where ?k (\<lambda>r. merge_row r e) (samples_1m d)) = map sample_key (samples_1m d)"
    by (rule map_update_where) simp
  with assms none show "distinct (map sample_key (samples_1m (upsert_1m e d)))"
    by (auto simp: upsert_1m_def Let_def simp del: set_map split: if_splits)
  show "sample_count sid (samples_1m (upsert_1m e d)) = sample_count sid (samples_1m d) + (if sm_server e = sid then sm_n e else 0)"
    using none update_count [OF assms, of e sid] by (auto simp: upsert_1m_def Let_def simp del: set_map)
qed

abbreviation pending_count :: "live \<times> 'a db_scheme \<Rightarrow> int" where
  "pending_count st \<equiv> sample_count (lv_server_id (fst st)) (samples_1m (snd st)) + lv_acc_n (fst st)"

definition rows_ok :: "live \<times> 'a db_scheme \<Rightarrow> bool" where
  "rows_ok st = distinct (map sample_key (samples_1m (snd st)))"

lemma flush_count:
  assumes "rows_ok (lv, d)"
  shows "rows_ok (flush lv d)" "pending_count (flush lv d) = pending_count (lv, d)"
    "lv_server_id (fst (flush lv d)) = lv_server_id lv"
  using assms upsert_1m_count [OF assms [unfolded rows_ok_def snd_conv]] by (simp_all add: rows_ok_def flush_def)

lemma accumulate_count:
  assumes "rows_ok (lv, d)"
  shows "rows_ok (accumulate ts p lv d)" "pending_count (accumulate ts p lv d) = pending_count (lv, d) + 1"
    "lv_server_id (fst (accumulate ts p lv d)) = lv_server_id lv"
  using assms flush_count [OF assms] by (auto simp: accumulate_def rows_ok_def Let_def split: prod.splits)

datatype live_op = LIngest rat "(string, json) dict" | LFlush

fun live_exec :: "(json \<Rightarrow> string) \<Rightarrow> live_op \<Rightarrow> live \<times> 'a db_scheme \<times> nat \<Rightarrow> live \<times> 'a db_scheme \<times> nat" where
  \<comment> \<open>the last component counts the samples that were accepted\<close>
  "live_exec rp (LIngest now raw) (lv, d, k) =
     (case ingest rp now raw lv d of (lv', d', Inl e) \<Rightarrow> (lv', d', k) | (lv', d', Inr s) \<Rightarrow> (lv', d', Suc k))"
| "live_exec rp LFlush (lv, d, k) = (let (lv', d') = flush lv d in (lv', d', k))"

lemma ingest_count:
  assumes "rows_ok (lv, d)" and "ingest rp now raw lv d = (lv', d', r)"
  shows "rows_ok (lv', d')"
    "pending_count (lv', d') = pending_count (lv, d) + (case r of Inl e \<Rightarrow> 0 | Inr s \<Rightarrow> 1)"
    "lv_server_id lv' = lv_server_id lv"
proof -
  have "rows_ok (lv', d') \<and> pending_count (lv', d') = pending_count (lv, d) + (case r of Inl e \<Rightarrow> 0 | Inr s \<Rightarrow> 1)
      \<and> lv_server_id lv' = lv_server_id lv"
  proof (cases "clean_sample rp raw")
    case (Inl e)
    with assms show ?thesis by (cases r) (auto simp: ingest_def)
  next
    case (Inr s0)
    let ?s = "keep_slow raw (lv_last lv) (s0\<lparr>sa_ts := py_trunc (sample_time now s0 * 1000)\<rparr>)"
    let ?l = "lv\<lparr>lv_last := Some ?s, lv_last_ts := now,
        lv_ring := ring_append (py_trunc (sample_time now s0), point_of ?s) (lv_ring lv)\<rparr>"
    obtain l2 d2 where a: "accumulate (py_trunc (sample_time now s0)) (point_of ?s) ?l d = (l2, d2)" by fastforce
    have "rows_ok (?l, d)" using assms(1) by (simp add: rows_ok_def)
    note c = accumulate_count [OF this, of "py_trunc (sample_time now s0)" "point_of ?s", unfolded a]
    show ?thesis
      using assms(2) c by (auto simp: ingest_def Let_def Inr a rows_ok_def split: if_splits)
  qed
  then show "rows_ok (lv', d')"
    "pending_count (lv', d') = pending_count (lv, d) + (case r of Inl e \<Rightarrow> 0 | Inr s \<Rightarrow> 1)"
    "lv_server_id lv' = lv_server_id lv" by auto
qed

definition counted :: "string \<Rightarrow> int \<Rightarrow> live \<times> 'a db_scheme \<times> nat \<Rightarrow> bool" where
  \<comment> \<open>stored and pending samples of the server are the initial ones and the \<open>k\<close> accepted since\<close>
  "counted sid n0 st = (case st of (lv, d, k) \<Rightarrow>
     rows_ok (lv, d) \<and> lv_server_id lv = sid \<and> sample_count sid (samples_1m d) + lv_acc_n lv = n0 + int k)"

interpretation live_run: machine "live_exec rp" "counted sid n0" for rp sid n0
proof unfold_locales
  fix st :: "live \<times> 'b db_scheme \<times> nat" and op
  assume c: "counted sid n0 st"
  obtain lv d k where st: "st = (lv, d, k)" by (cases st)
  have ok: "rows_ok (lv, d)" using c by (simp add: counted_def st)
  show "counted sid n0 (live_exec rp op st)"
  proof (cases op)
    case (LIngest now raw)
    obtain lv' d' r where i: "ingest rp now raw lv d = (lv', d', r)" by (cases "ingest rp now raw lv d") auto
    from ingest_count [OF ok i] c show ?thesis by (cases r) (auto simp: LIngest st i counted_def)
  next
    case LFlush
    from flush_count [OF ok] c show ?thesis by (auto simp: LFlush st counted_def Let_def split: prod.splits)
  qed
qed

text \<open>
  C11. No sample is lost and none is counted twice on its way to disk: however ingests and flushes of a server
  interleave (reconnects flush in the middle of a minute), the weights of its stored minutes plus the
  samples still being averaged grow by exactly one per accepted sample.
\<close>

theorem samples_conserved:
  assumes "distinct (map (\<lambda>r. (sm_server r, sm_ts r)) (samples_1m d))"
    and "fold (live_exec rp) ops (lv, d, 0) = (lv', d', k)"
  shows "sample_count (lv_server_id lv) (samples_1m d') + lv_acc_n lv' =
    sample_count (lv_server_id lv) (samples_1m d) + lv_acc_n lv + int k"
  using live_run.run_inv [of "lv_server_id lv" "sample_count (lv_server_id lv) (samples_1m d) + lv_acc_n lv" "(lv, d, 0)" rp ops] assms
  by (simp add: counted_def rows_ok_def)

section \<open>Averages\<close>

text \<open>
  Merging a flush into an already stored minute keeps the weighted mean: each stored value is within one
  hundredth of the mean over all samples of both parts, and the stored peak is the larger of both.
\<close>

theorem flush_keeps_mean:
  assumes "0 < sm_n r" and "0 < lv_acc_n lv" and "i < length (sm_vals r)" and "i < length (lv_acc lv)"
    and "samples_1m d = [r]" and "sm_server r = lv_server_id lv" and "sm_ts r = lv_acc_minute lv"
    and "flush lv d = (lv', d')"
  shows "\<exists>r'. samples_1m d' = [r'] \<and> sm_n r' = sm_n r + lv_acc_n lv \<and> sm_cpu_max r \<le> sm_cpu_max r' \<and>
    \<bar>sm_vals r' ! i - (sm_vals r ! i * of_int (sm_n r) + lv_acc lv ! i) / of_int (sm_n r + lv_acc_n lv)\<bar> \<le> 1 / 100"
proof -
  define n m :: rat where "n = of_int (sm_n r)" and "m = of_int (lv_acc_n lv)"
  define c a where "c = sm_vals r ! i" and "a = lv_acc lv ! i"
  define x where "x = py_round 2 (a / m)"
  have pos: "0 < n" "0 < m" using assms(1,2) by (simp_all add: n_def m_def)
  let ?r = "merge_row r \<lparr>sm_server = lv_server_id lv, sm_ts = lv_acc_minute lv, sm_n = lv_acc_n lv,
      sm_cpu_max = py_round 2 (lv_acc_cpu_max lv), sm_vals = map (\<lambda>v. py_round 2 (v / of_int (lv_acc_n lv))) (lv_acc lv)\<rparr>"
  have r': "samples_1m d' = [?r]"
    using assms(2,5-8) by (auto simp: flush_def upsert_1m_def select_one_def update_where_def)
  have v: "sm_vals ?r ! i = sql_round 2 ((c * n + x * m) / (n + m))"
    using assms(3,4) by (simp add: merge_row_def c_def a_def n_def m_def x_def)
  have e1: "\<bar>sm_vals ?r ! i - (c * n + x * m) / (n + m)\<bar> \<le> 1 / 200"
    unfolding v using sql_round_error [of 2 "(c * n + x * m) / (n + m)"] by simp
  have "(c * n + x * m) / (n + m) - (c * n + a) / (n + m) = (x - a / m) * (m / (n + m))"
    using pos by (simp add: left_diff_distrib flip: diff_divide_distrib)
  then have "\<bar>(c * n + x * m) / (n + m) - (c * n + a) / (n + m)\<bar> = \<bar>x - a / m\<bar> * (m / (n + m))"
    using pos by (simp only: abs_mult) simp
  also have "\<dots> \<le> 1 / 200 * 1"
    using py_round_error [of 2 "a / m"] pos by (intro mult_mono) (simp_all add: x_def)
  finally have "\<bar>sm_vals ?r ! i - (c * n + a) / (n + m)\<bar> \<le> 1 / 100" using e1 by linarith
  with r' show ?thesis
    by (intro exI [of _ ?r]) (simp add: c_def a_def n_def m_def, simp add: merge_row_def)
qed

section \<open>One ingest\<close>

lemma ring_append_len: "length xs \<le> RING \<Longrightarrow> length (ring_append x xs) \<le> RING"
  by (simp add: ring_append_def Let_def)

lemma ring_append_last: "last (ring_append x xs) = x" "ring_append x xs \<noteq> []"
  by (simp_all add: ring_append_def Let_def RING_def last_drop)

lemma accumulate_ring: "lv_ring (fst (accumulate ts p lv d)) = lv_ring lv" "lv_last (fst (accumulate ts p lv d)) = lv_last lv"
  by (auto simp: accumulate_def flush_def Let_def split: prod.splits)

lemma py_trunc_window:
  assumes "now - 900 \<le> t" "t \<le> now + 60"
  shows "now - 901 < of_int (py_trunc t) \<and> of_int (py_trunc t) < now + 61"
proof (cases "0 \<le> t")
  case True
  with py_trunc_le [OF True] assms show ?thesis by linarith
next
  case False
  have "t \<le> of_int \<lceil>t\<rceil>" "of_int \<lceil>t\<rceil> < t + 1" using ceiling_correct [of t] by linarith+
  with assms have "now - 901 < of_int \<lceil>t\<rceil>" "of_int \<lceil>t\<rceil> < now + 61" by linarith+
  with False show ?thesis by (simp add: py_trunc_def)
qed

text \<open>
  An agent cannot grow the hub's memory or forge history: whatever JSON it sends, the accepted sample is
  capped (64 disks, 32 processes, 500 containers, bounded strings), the ring keeps at most 720 points, and
  the point is filed at a time no more than 15 minutes before and one minute after the hub's clock.
\<close>

theorem ingest_bounded:
  assumes "ingest rp now raw lv d = (lv', d', Inr s)" and "length (lv_ring lv) \<le> 720"
    and "\<And>l. lv_last lv = Some l \<Longrightarrow> sample_capped l"
  shows "sample_capped s \<and> lv_last lv' = Some s \<and> length (lv_ring lv') \<le> 720 \<and> lv_ring lv' \<noteq> [] \<and>
    now - 901 < of_int (fst (last (lv_ring lv'))) \<and> of_int (fst (last (lv_ring lv'))) < now + 61"
proof -
  obtain s0 where s0: "clean_sample rp raw = Inr s0"
    using assms(1) by (auto simp: ingest_def split: sum.splits)
  let ?t = "sample_time now s0"
  let ?s = "keep_slow raw (lv_last lv) (s0\<lparr>sa_ts := py_trunc (?t * 1000)\<rparr>)"
  have cap: "sample_capped (s0\<lparr>sa_ts := py_trunc (?t * 1000)\<rparr>)"
    using clean_sample_capped [OF s0] by (simp add: sample_capped_def)
  have "s = ?s \<and> lv_last lv' = Some ?s \<and> lv_ring lv' = ring_append (py_trunc ?t, point_of ?s) (lv_ring lv)"
    using assms(1) accumulate_ring [of "py_trunc ?t" "point_of ?s"
        "lv\<lparr>lv_last := Some ?s, lv_last_ts := now, lv_ring := ring_append (py_trunc ?t, point_of ?s) (lv_ring lv)\<rparr>" d]
    by (auto simp: ingest_def Let_def s0 split: prod.splits if_splits)
  with cap keep_slow_capped [OF cap assms(3)] ring_append_len [of "lv_ring lv"] assms(2)
    py_trunc_window [of now ?t] sample_time_window [of now s0]
  show ?thesis by (auto simp: ring_append_last RING_def)
qed

section \<open>Closed examples\<close>

definition demo_raw :: "(string, json) dict" where
  "demo_raw = [(''ts'', JInt 100000), (''cpu'', JObj [(''pct'', JFloat (Fin 50))]), (''load'', JArr [JInt 1]),
     (''disks'', JArr [JObj [(''mount'', JStr ''/''), (''pct'', JStr ''91.5'')], JInt 3])]"

theorem samples_conserved_witness:
  "\<exists>lv' d' k. fold (live_exec demo_rp) [LIngest 100 demo_raw, LFlush, LIngest 105 demo_raw] (new_live ''s1'', empty_db, 0) = (lv', d', k)
     \<and> k = 2 \<and> sample_count ''s1'' (samples_1m d') + lv_acc_n lv' = 2"
proof -
  let ?r = "fold (live_exec demo_rp) [LIngest 100 demo_raw, LFlush, LIngest 105 demo_raw] (new_live ''s1'', empty_db, 0)"
  have k: "snd (snd ?r) = 2" by code_simp
  obtain lv' d' k where r: "?r = (lv', d', k)" by (cases ?r)
  have "distinct (map (\<lambda>r. (sm_server r, sm_ts r)) (samples_1m empty_db))" by (simp add: empty_db_def)
  from samples_conserved [OF this r] have "sample_count ''s1'' (samples_1m d') + lv_acc_n lv' = int k"
    by (simp add: new_live_def empty_db_def)
  with r k show ?thesis by auto
qed

definition demo_row :: sample_row where
  "demo_row = \<lparr>sm_server = ''s1'', sm_ts = 60, sm_n = 2, sm_cpu_max = 9, sm_vals = [4, 5]\<rparr>"

definition demo_live :: live where
  "demo_live = (new_live ''s1'')\<lparr>lv_acc := [7, 8], lv_acc_n := 1, lv_acc_minute := 60\<rparr>"

theorem flush_keeps_mean_witness:
  "\<exists>r'. samples_1m (snd (flush demo_live (empty_db\<lparr>samples_1m := [demo_row]\<rparr>))) = [r'] \<and> sm_n r' = 3
     \<and> \<bar>sm_vals r' ! 0 - 5\<bar> \<le> 1 / 100"
  using flush_keeps_mean [of demo_row demo_live 0 "empty_db\<lparr>samples_1m := [demo_row]\<rparr>"
      "fst (flush demo_live (empty_db\<lparr>samples_1m := [demo_row]\<rparr>))" "snd (flush demo_live (empty_db\<lparr>samples_1m := [demo_row]\<rparr>))"]
  by (auto simp: demo_row_def demo_live_def new_live_def)

theorem ingest_bounded_witness:
  "\<exists>lv' d' s. ingest demo_rp 100 demo_raw (new_live ''s1'') empty_db = (lv', d', Inr s) \<and> sample_capped s"
proof -
  let ?i = "ingest demo_rp 100 demo_raw (new_live ''s1'') empty_db"
  have "case snd (snd ?i) of Inl e \<Rightarrow> False | Inr s \<Rightarrow> True" by code_simp
  then obtain lv' d' s where i: "?i = (lv', d', Inr s)" by (cases ?i) (auto split: sum.splits)
  have "sample_capped s"
    using ingest_bounded [OF i] by (simp add: new_live_def)
  with i show ?thesis by blast
qed

end
