(* ===== verification/Metrics.thy ===== *)
theory Metrics
  imports Live
begin

text \<open>
  History (\<open>hub/icsd_hub/metrics.py\<close>): which table answers which range, the hourly rollup, retention and the
  sparkline of the overview. A row of \<open>samples_1h\<close> has no weight column; its \<open>sm_n\<close> is 1.
\<close>

section \<open>Queries\<close>

definition RANGES :: "(string, int) dict" where
  "RANGES = [(''1h'', 3600), (''6h'', 6 * 3600), (''24h'', 86400), (''7d'', 7 * 86400), (''30d'', 30 * 86400),
     (''90d'', 90 * 86400), (''1y'', 365 * 86400)]"

definition rows_of :: "string \<Rightarrow> (int \<Rightarrow> bool) \<Rightarrow> sample_row list \<Rightarrow> sample_row list" where
  \<comment> \<open>\<open>WHERE server_id=? AND \<dots> ORDER BY ts\<close>\<close>
  "rows_of sid p rows = sort_key sm_ts (filter (\<lambda>r. sm_server r = sid \<and> p (sm_ts r)) rows)"

definition column :: "nat \<Rightarrow> sample_row list \<Rightarrow> rat list" where
  "column i rows = map (\<lambda>r. sm_vals r ! i) rows"

definition average :: "rat list \<Rightarrow> rat" where
  "average xs = sum_list xs / of_nat (length xs)"

definition aggregate :: "string \<Rightarrow> int \<Rightarrow> sample_row list \<Rightarrow> sample_row" where
  \<comment> \<open>the grouped row of one server and hour\<close>
  "aggregate sid hour rows =
     \<lparr>sm_server = sid, sm_ts = hour * 3600, sm_n = 1, sm_cpu_max = py_max 0 (map sm_cpu_max rows),
      sm_vals = map (\<lambda>i. sql_round 2 (average (column i rows))) [0..<12]\<rparr>"

definition hours_of :: "sample_row list \<Rightarrow> int list" where
  "hours_of rows = sort (remdups (map (\<lambda>r. sm_ts r div 3600) rows))"

definition hourly_from_minutes :: "string \<Rightarrow> int \<Rightarrow> 'a db_scheme \<Rightarrow> sample_row list" where
  "hourly_from_minutes sid since d =
     (let rows = rows_of sid (\<lambda>t. since \<le> t) (samples_1m d)
      in map (\<lambda>h. aggregate sid h (filter (\<lambda>r. sm_ts r div 3600 = h) rows)) (hours_of rows))"

record series_out =
  so_step :: int
  so_t :: "int list"
  so_cols :: "(string, rat list) dict"

definition columns :: "(int \<times> rat list) list \<Rightarrow> (string, rat list) dict" where
  "columns pts = map (\<lambda>(i, n). (n, map (\<lambda>p. snd p ! i) pts)) (zip [0..<12] FIELDS)"

definition ring_points :: "string \<Rightarrow> int \<Rightarrow> live \<Rightarrow> 'a db_scheme \<Rightarrow> (int \<times> rat list) list" where
  "ring_points sid since lv d =
     (let start = fst (hd (lv_ring lv));
          older = (if since < start then rows_of sid (\<lambda>t. since \<le> t \<and> t < start - start mod 60) (samples_1m d) else [])
      in map (\<lambda>r. (sm_ts r, sm_vals r)) older @ filter (\<lambda>p. since \<le> fst p) (lv_ring lv))"

definition series :: "config \<Rightarrow> int \<Rightarrow> string \<Rightarrow> string \<Rightarrow> 'a hub_l_scheme \<Rightarrow> series_out" where
  "series cfg now sid rng d =
     (let span = (case dget RANGES rng of Some s \<Rightarrow> s | None \<Rightarrow> 3600);
          since = now - span;
          from_table = (\<lambda>_::unit.
            let (table, stp) = (if span \<le> 2 * 86400 then (samples_1m d, 60) else (samples_1h d, 3600));
                rows = rows_of sid (\<lambda>t. since \<le> t) table;
                rows = (if 2 * 86400 < span \<and> span \<le> 30 * 86400
                        then rows @ hourly_from_minutes sid ((if rows = [] then since else sm_ts (last rows)) + 3600) d else rows)
            in \<lparr>so_step = stp, so_t = map sm_ts rows,
                so_cols = (''cpu_max'', map sm_cpu_max rows) # columns (map (\<lambda>r. (sm_ts r, sm_vals r)) rows)\<rparr>)
      in case peek sid d of
           None \<Rightarrow> from_table ()
         | Some lv \<Rightarrow>
             if span \<le> 3600 \<and> lv_ring lv \<noteq> [] then
               let pts = ring_points sid since lv d
               in \<lparr>so_step = sample_interval cfg, so_t = map fst pts,
                   so_cols = columns pts @ [(''cpu_max'', map (\<lambda>p. snd p ! 0) pts)]\<rparr>
             else from_table ())"

section \<open>Rollup and retention\<close>

abbreviation hour_key :: "sample_row \<Rightarrow> string \<times> int" where
  "hour_key r \<equiv> (sm_server r, sm_ts r div 3600)"

definition replace_1h :: "sample_row \<Rightarrow> sample_row list \<Rightarrow> sample_row list" where
  \<comment> \<open>\<open>INSERT OR REPLACE\<close>\<close>
  "replace_1h e rows = delete_where (\<lambda>r. sm_server r = sm_server e \<and> sm_ts r = sm_ts e) rows @ [e]"

definition rollup_rows :: "int \<Rightarrow> sample_row list \<Rightarrow> sample_row list" where
  "rollup_rows now minutes =
     (let this_hour = now - now mod 3600;
          rows = filter (\<lambda>r. this_hour - 6 * 3600 \<le> sm_ts r \<and> sm_ts r < this_hour) minutes
      in map (\<lambda>k. aggregate (fst k) (snd k) (filter (\<lambda>r. hour_key r = k) rows)) (remdups (map hour_key rows)))"

definition rollup :: "int \<Rightarrow> 'a db_scheme \<Rightarrow> 'a db_scheme" where
  "rollup now d = d\<lparr>samples_1h := fold replace_1h (rollup_rows now (samples_1m d)) (samples_1h d)\<rparr>"

definition metrics_prune :: "config \<Rightarrow> int \<Rightarrow> 'a db_scheme \<Rightarrow> 'a db_scheme" where
  "metrics_prune cfg now d =
     d\<lparr>samples_1m := delete_where (\<lambda>r. sm_ts r < now - keep_minutes_days cfg * 86400) (samples_1m d),
       samples_1h := delete_where (\<lambda>r. sm_ts r < now - keep_hours_days cfg * 86400) (samples_1h d),
       check_log := delete_where (\<lambda>r. cl_ts r < now - 30 * 86400) (check_log d),
       events := delete_where (\<lambda>e. case ev_ended e of None \<Rightarrow> False | Some t \<Rightarrow> t < now - keep_events_days cfg * 86400) (events d),
       audit_log := delete_where (\<lambda>a. au_ts a < now - 365 * 86400) (audit_log d),
       notify_log := delete_where (\<lambda>l. nl_ts l < now - 30 * 86400) (notify_log d)\<rparr>"

definition bucket :: "nat \<Rightarrow> nat \<Rightarrow> 'x list \<Rightarrow> 'x list" where
  \<comment> \<open>\<open>data[int(i * size):int((i + 1) * size)]\<close> with \<open>size = len(data) / points\<close>\<close>
  "bucket points i xs =
     (let cut = (\<lambda>j. nat \<lfloor>(of_nat j * (of_nat (length xs) / of_nat points)) :: rat\<rfloor>)
      in take (cut (i + 1) - cut i) (drop (cut i) xs))"

definition sparkline :: "int \<Rightarrow> string \<Rightarrow> nat \<Rightarrow> 'a hub_l_scheme \<Rightarrow> rat list" where
  "sparkline now sid points d =
     (let data = (case peek sid d of
                    Some lv \<Rightarrow>
                      if 4 \<le> length (lv_ring lv) then map (\<lambda>p. snd p ! 0) (drop (length (lv_ring lv) - 360) (lv_ring lv))
                      else column 0 (rows_of sid (\<lambda>t. now - 1800 \<le> t) (samples_1m d))
                  | None \<Rightarrow> column 0 (rows_of sid (\<lambda>t. now - 1800 \<le> t) (samples_1m d)))
      in if length data \<le> points then map (py_round 1) data
         else map (\<lambda>i. py_round 1 (py_max 0 (bucket points i data))) [0..<points])"

section \<open>The rollup is idempotent\<close>

lemma fold_replace_1h:
  "distinct (map (\<lambda>r. (sm_server r, sm_ts r)) es) \<Longrightarrow>
   fold replace_1h es rows = filter (\<lambda>r. (sm_server r, sm_ts r) \<notin> set (map (\<lambda>r. (sm_server r, sm_ts r)) es)) rows @ es"
proof (induction es arbitrary: rows)
  case (Cons e es)
  have ne: "(sm_server e, sm_ts e) \<notin> set (map (\<lambda>r. (sm_server r, sm_ts r)) es)" using Cons.prems by simp
  have IH: "fold replace_1h es (replace_1h e rows) =
      filter (\<lambda>r. (sm_server r, sm_ts r) \<notin> set (map (\<lambda>r. (sm_server r, sm_ts r)) es)) (replace_1h e rows) @ es"
    using Cons by simp
  have "filter (\<lambda>r. (sm_server r, sm_ts r) \<notin> set (map (\<lambda>r. (sm_server r, sm_ts r)) es)) (replace_1h e rows) =
      filter (\<lambda>r. (sm_server r, sm_ts r) \<notin> set (map (\<lambda>r. (sm_server r, sm_ts r)) (e # es))) rows @ [e]"
    using ne by (auto simp: replace_1h_def delete_where_def intro!: filter_cong)
  with IH show ?case by simp
qed simp

lemma rollup_keys_distinct: "distinct (map (\<lambda>r. (sm_server r, sm_ts r)) (rollup_rows now minutes))"
proof -
  have "(\<lambda>r. (sm_server r, sm_ts r)) \<circ> (\<lambda>k. aggregate (fst k) (snd k) (f k)) = (\<lambda>k. (fst k, snd k * 3600))"
    for f :: "string \<times> int \<Rightarrow> sample_row list" by (simp add: fun_eq_iff aggregate_def)
  moreover have "inj_on (\<lambda>k. (fst k, snd k * 3600 :: int)) A" for A :: "(string \<times> int) set"
    by (auto intro!: inj_onI simp: prod_eq_iff)
  ultimately show ?thesis
    by (simp add: rollup_rows_def Let_def distinct_map)
qed

text \<open>
  The hourly rollup may run any number of times: running it again changes nothing, it leaves exactly one
  row for every server and hour it covers, with the minutes' mean to two digits, and it leaves all other
  rows as they were.
\<close>

theorem rollup_idempotent:
  "rollup now (rollup now d) = rollup now d \<and>
   samples_1h (rollup now d) =
     filter (\<lambda>r. (sm_server r, sm_ts r) \<notin> set (map (\<lambda>r. (sm_server r, sm_ts r)) (rollup_rows now (samples_1m d)))) (samples_1h d)
     @ rollup_rows now (samples_1m d)"
proof -
  let ?es = "rollup_rows now (samples_1m d)"
  have 1: "fold replace_1h ?es rows = filter (\<lambda>r. (sm_server r, sm_ts r) \<notin> set (map (\<lambda>r. (sm_server r, sm_ts r)) ?es)) rows @ ?es" for rows
    by (rule fold_replace_1h [OF rollup_keys_distinct])
  have "filter (\<lambda>r. (sm_server r, sm_ts r) \<notin> set (map (\<lambda>r. (sm_server r, sm_ts r)) ?es)) ?es = []"
    by (auto simp: filter_empty_conv)
  then show ?thesis by (simp add: rollup_def 1 del: set_map)
qed

section \<open>The sparkline keeps the peak\<close>

lemma fold_max: "fold max ys (y::rat) \<in> set (y # ys) \<and> (\<forall>z \<in> set (y # ys). z \<le> fold max ys y)"
proof (induction ys arbitrary: y)
  case (Cons a ys)
  from Cons [of "max a y"] show ?case by (auto simp: max_def split: if_splits)
qed simp

lemma py_max_in: "xs \<noteq> [] \<Longrightarrow> py_max v xs \<in> set xs \<and> (\<forall>z \<in> set xs. z \<le> py_max v xs)"
  using fold_max by (cases xs) (auto simp: py_max_def)

lemma cut_exists:
  fixes f :: "nat \<Rightarrow> nat"
  assumes "f 0 = 0" "j < f n"
  shows "\<exists>i < n. f i \<le> j \<and> j < f (i + 1)"
  using assms(2)
proof (induction n)
  case (Suc n)
  then show ?case by (cases "j < f n") (auto intro: less_SucI)
qed (simp add: assms(1))

lemma bucket_covers:
  assumes "j < length xs" "0 < points"
  shows "\<exists>i < points. xs ! j \<in> set (bucket points i xs)"
proof -
  define cut where "cut = (\<lambda>j. nat \<lfloor>(of_nat j * (of_nat (length xs) / of_nat points)) :: rat\<rfloor>)"
  have "cut 0 = 0" "cut points = length xs" using assms(2) by (simp_all add: cut_def)
  then obtain i where i: "i < points" "cut i \<le> j" "j < cut (i + 1)"
    using cut_exists [of cut j points] assms(1) by auto
  have "xs ! j = take (cut (i + 1) - cut i) (drop (cut i) xs) ! (j - cut i)" using i assms(1) by simp
  moreover have "j - cut i < length (take (cut (i + 1) - cut i) (drop (cut i) xs))" using i assms(1) by auto
  ultimately have "xs ! j \<in> set (take (cut (i + 1) - cut i) (drop (cut i) xs))" by (metis nth_mem)
  with i(1) show ?thesis by (auto simp: bucket_def Let_def cut_def)
qed

lemma bucket_subset: "set (bucket points i xs) \<subseteq> set xs"
  unfolding bucket_def Let_def using set_take_subset set_drop_subset by fastforce

text \<open>
  Thinning the overview's CPU curve to 40 points never hides a peak: the result has at most the asked number
  of points and the highest value of the window appears in it, rounded to one digit.
\<close>

theorem sparkline_keeps_peak:
  assumes "peek sid d = Some lv" and "4 \<le> length (lv_ring lv)" and "0 < points"
  shows "length (sparkline now sid points d) \<le> points \<and>
    py_round 1 (py_max 0 (map (\<lambda>p. snd p ! 0) (drop (length (lv_ring lv) - 360) (lv_ring lv)))) \<in> set (sparkline now sid points d)"
proof -
  define xs where "xs = map (\<lambda>p. snd p ! 0) (drop (length (lv_ring lv) - 360) (lv_ring lv))"
  have ne: "xs \<noteq> []" using assms(2) by (simp add: xs_def)
  have sp: "sparkline now sid points d = (if length xs \<le> points then map (py_round 1) xs
      else map (\<lambda>i. py_round 1 (py_max 0 (bucket points i xs))) [0..<points])"
    using assms(1,2) by (simp add: sparkline_def xs_def)
  note mx = py_max_in [OF ne, of 0]
  have "py_round 1 (py_max 0 xs) \<in> set (sparkline now sid points d)"
  proof (cases "length xs \<le> points")
    case True
    with mx show ?thesis by (simp add: sp)
  next
    case False
    obtain j where j: "j < length xs" "xs ! j = py_max 0 xs" using mx by (metis in_set_conv_nth)
    obtain i where i: "i < points" "xs ! j \<in> set (bucket points i xs)" using bucket_covers [OF j(1) assms(3)] by blast
    have "bucket points i xs \<noteq> []" using i(2) by auto
    from py_max_in [OF this, of 0] have "py_max 0 (bucket points i xs) = py_max 0 xs"
      using mx i(2) j(2) bucket_subset [of points i xs] by (metis antisym subsetD)
    with i(1) False show ?thesis by (auto simp: sp image_iff intro: bexI [of _ i])
  qed
  then show ?thesis by (simp add: sp xs_def)
qed

definition demo_ring :: "(int \<times> rat list) list" where
  "demo_ring = map (\<lambda>i. (i, [of_int i])) [1..50]"

definition demo_hub_l :: hub_l where
  "demo_hub_l = \<lparr>users = [], sessions = [], login_fail = [], servers = [], samples_1m = [], samples_1h = [], rules = [],
     events = [], checks = [], check_log = [], settings = [], audit_log = [], notify_log = [], backup_plans = [],
     backup_runs = [], outbox = [], lives = [(''s1'', (new_live ''s1'')\<lparr>lv_ring := demo_ring\<rparr>)]\<rparr>"

theorem sparkline_keeps_peak_witness:
  "length (sparkline 9 ''s1'' 40 demo_hub_l) \<le> 40 \<and> 50 \<in> set (sparkline 9 ''s1'' 40 demo_hub_l)"
proof -
  let ?lv = "(new_live ''s1'')\<lparr>lv_ring := demo_ring\<rparr>"
  have p: "peek ''s1'' demo_hub_l = Some ?lv" by (simp add: peek_def demo_hub_l_def dget_def)
  have l: "4 \<le> length (lv_ring ?lv)" by code_simp
  have m: "py_round 1 (py_max 0 (map (\<lambda>p. snd p ! 0) (drop (length (lv_ring ?lv) - 360) (lv_ring ?lv)))) = 50" by code_simp
  from sparkline_keeps_peak [OF p l, of 40 9] show ?thesis unfolding m by simp
qed

end
