(* ===== verification/Alerts.thy ===== *)
theory Alerts
  imports Metrics
begin

text \<open>
  Alert rules (\<open>hub/icsd_hub/alerts.py\<close>): per (rule, server, subject) a small state since when the condition is
  bad and which event is open for it. The module's globals are the fields \<open>rules_mem\<close>, \<open>astate\<close> and \<open>started\<close>
  of the hub's state; every operation is an explicit state transformer with the clock as argument. The
  marks that isolate Latin text in Persian messages are not part of the gloss.
\<close>

section \<open>Rules and state\<close>

record rule_default =
  rd_threshold :: rat
  rd_for_s :: int
  rd_severity :: string
  rd_label :: string
  rd_unit :: string

definition DEFAULT_RULES :: "(string, rule_default) dict" where
  "DEFAULT_RULES =
    [(''offline'', \<lparr>rd_threshold = 120, rd_for_s = 0, rd_severity = ''critical'', rd_label = ''server unreachable'', rd_unit = ''s silent''\<rparr>),
     (''cpu'', \<lparr>rd_threshold = 90, rd_for_s = 600, rd_severity = ''warning'', rd_label = ''high CPU'', rd_unit = ''%''\<rparr>),
     (''mem'', \<lparr>rd_threshold = 90, rd_for_s = 300, rd_severity = ''warning'', rd_label = ''memory running out'', rd_unit = ''%''\<rparr>),
     (''disk'', \<lparr>rd_threshold = 85, rd_for_s = 0, rd_severity = ''warning'', rd_label = ''disk filling up'', rd_unit = ''%''\<rparr>),
     (''disk_full'', \<lparr>rd_threshold = 95, rd_for_s = 0, rd_severity = ''critical'', rd_label = ''disk almost full'', rd_unit = ''%''\<rparr>),
     (''inodes'', \<lparr>rd_threshold = 90, rd_for_s = 0, rd_severity = ''warning'', rd_label = ''inodes running out'', rd_unit = ''%''\<rparr>),
     (''load'', \<lparr>rd_threshold = 2, rd_for_s = 600, rd_severity = ''warning'', rd_label = ''high load'', rd_unit = ''per core''\<rparr>),
     (''steal'', \<lparr>rd_threshold = 20, rd_for_s = 600, rd_severity = ''warning'', rd_label = ''high CPU steal'', rd_unit = ''%''\<rparr>),
     (''container'', \<lparr>rd_threshold = 0, rd_for_s = 60, rd_severity = ''critical'', rd_label = ''container down'', rd_unit = ''''\<rparr>),
     (''check'', \<lparr>rd_threshold = 2, rd_for_s = 0, rd_severity = ''critical'', rd_label = ''address does not answer'', rd_unit = ''failures''\<rparr>),
     (''cert'', \<lparr>rd_threshold = 14, rd_for_s = 0, rd_severity = ''warning'', rd_label = ''SSL certificate expires soon'', rd_unit = ''days''\<rparr>),
     (''backup'', \<lparr>rd_threshold = 1, rd_for_s = 0, rd_severity = ''critical'', rd_label = ''backup failed'', rd_unit = ''''\<rparr>)]"

definition STARTUP_GRACE :: rat where
  "STARTUP_GRACE = 90"

type_synonym akey = "string \<times> string \<times> string"

record alert_state =
  as_since :: rat
  as_event :: "int option"
  as_value :: rat
  as_message :: "string option"

record hub_a = hub_l +
  rules_mem :: "(string, rule_row) dict"
  astate :: "(akey, alert_state) dict"
  started :: rat

definition default_row :: "string \<times> rule_default \<Rightarrow> rule_row" where
  "default_row p = \<lparr>ru_kind = fst p, ru_threshold = rd_threshold (snd p), ru_for_s = rd_for_s (snd p),
     ru_severity = rd_severity (snd p), ru_enabled = True\<rparr>"

definition insert_or_ignore :: "rule_row \<Rightarrow> rule_row list \<Rightarrow> rule_row list" where
  "insert_or_ignore r rows = (if select_one (\<lambda>x. ru_kind x = ru_kind r) rows = None then rows @ [r] else rows)"

definition reload :: "'a hub_a_scheme \<Rightarrow> 'a hub_a_scheme" where
  "reload d = d\<lparr>rules_mem := fold (\<lambda>r m. if dget DEFAULT_RULES (ru_kind r) \<noteq> None then dput (ru_kind r) r m else m)
     (rules d) []\<rparr>"

definition ev_key :: "event_row \<Rightarrow> akey" where
  "ev_key e = (ev_rule e, ev_server e, ev_subject e)"

definition seed :: "'a hub_a_scheme \<Rightarrow> 'a hub_a_scheme" where
  "seed d =
     (let d1 = reload (d\<lparr>rules := fold (\<lambda>p. insert_or_ignore (default_row p)) DEFAULT_RULES (rules d)\<rparr>)
      in d1\<lparr>astate := fold (\<lambda>e. dput (ev_key e) \<lparr>as_since = of_int (ev_started e), as_event = Some (ev_id e),
                               as_value = ev_value e, as_message = None\<rparr>)
              (filter (\<lambda>e. ev_ended e = None) (events d1)) []\<rparr>)"

definition rule_order :: "string \<Rightarrow> nat" where
  "rule_order k = length (takeWhile (\<lambda>x. x \<noteq> k) (dkeys DEFAULT_RULES))"

definition rules_view :: "'a hub_a_scheme \<Rightarrow> rule_row list" where
  "rules_view d = sort_key (\<lambda>r. rule_order (ru_kind r)) (map snd (rules_mem d))"

definition update_rule :: "string \<Rightarrow> rat \<Rightarrow> int \<Rightarrow> string \<Rightarrow> bool \<Rightarrow> 'a hub_a_scheme \<Rightarrow> ('a hub_a_scheme, unit) io" where
  "update_rule kind thr for_s severity en d =
     (if dget DEFAULT_RULES kind = None then (d, Inl (ValueError ''unknown rule''))
      else if severity \<notin> {''warning'', ''critical''} then (d, Inl (ValueError ''bad severity''))
      else (reload (d\<lparr>rules := update_where (\<lambda>r. ru_kind r = kind)
              (\<lambda>r. r\<lparr>ru_threshold := thr, ru_for_s := max 0 (min for_s 86400), ru_severity := severity, ru_enabled := en\<rparr>)
              (rules d)\<rparr>), Inr ()))"

section \<open>Message texts\<close>

definition server_name :: "string \<Rightarrow> 'a db_scheme \<Rightarrow> string" where
  "server_name sid d =
     (if sid = [] then ''URL checks''
      else case select_one (\<lambda>r. sv_id r = sid) (servers d) of Some r \<Rightarrow> sv_name r | None \<Rightarrow> sid)"

definition duration :: "rat \<Rightarrow> string" where
  "duration seconds =
     (let m = \<lfloor>seconds / 60\<rfloor> in
      if m < 1 then ''less than a minute''
      else if m < 60 then str_int m @ '' minutes''
      else let h = m div 60; m' = m mod 60
           in if m' \<noteq> 0 then str_int h @ '' hours and '' @ str_int m' @ '' minutes'' else str_int h @ '' hours'')"

definition fmt_fixed :: "nat \<Rightarrow> rat \<Rightarrow> string" where
  \<comment> \<open>\<open>f"{v:.nf}"\<close>\<close>
  "fmt_fixed n v =
     (let k = \<lfloor>py_round n \<bar>v\<bar> * 10 ^ n\<rfloor>; s = (if n = 0 then digits10 k else
            let t = zfill (n + 1) (digits10 k) in take (length t - n) t @ ''.'' @ drop (length t - n) t)
      in (if v < 0 then ''-'' else []) @ s)"

fun size_units :: "rat \<Rightarrow> string list \<Rightarrow> string" where
  "size_units n [] = fmt_fixed 1 n @ '' TB''"
| "size_units n (u # us) =
     (if \<bar>n\<bar> < 1024 \<or> u = ''TB''
      then (if u \<in> {''B'', ''KB''} \<or> 10 \<le> n then fmt_fixed 0 n else fmt_fixed 1 n) @ '' '' @ u
      else size_units (n / 1024) us)"

definition size_text :: "rat \<Rightarrow> string" where
  "size_text n = size_units n [''B'', ''KB'', ''MB'', ''GB'', ''TB'']"

section \<open>The state machine\<close>

definition label_of :: "string \<Rightarrow> string" where
  "label_of kind = (case dget DEFAULT_RULES kind of Some r \<Rightarrow> rd_label r | None \<Rightarrow> [])"

definition open_event :: "rule_row \<Rightarrow> akey \<Rightarrow> alert_state \<Rightarrow> rat \<Rightarrow> string \<Rightarrow> rat \<Rightarrow> 'a hub_a_scheme \<Rightarrow> 'a hub_a_scheme" where
  "open_event rule key st v message now d =
     (let eid = next_rowid (map ev_id (events d)); (kind, sid, subject) = key;
          d1 = d\<lparr>events := events d @ [\<lparr>ev_id = eid, ev_rule = kind, ev_server = sid, ev_subject = subject,
                   ev_severity = ru_severity rule, ev_value = v, ev_message = message,
                   ev_started = py_trunc (as_since st), ev_ended = None\<rparr>],
                 astate := dput key (st\<lparr>as_event := Some eid, as_message := Some message\<rparr>) (astate d)\<rparr>
      in fire ((if ru_severity rule = ''critical'' then ''red '' else ''orange '') @ label_of kind @ '' - '' @ server_name sid d1
           @ ''\<newline>'' @ message @ ''\<newline>'' @ jalali \<lfloor>now\<rfloor>) d1)"

definition close_event :: "bool \<Rightarrow> akey \<Rightarrow> alert_state \<Rightarrow> rat \<Rightarrow> 'a hub_a_scheme \<Rightarrow> 'a hub_a_scheme" where
  "close_event quiet key st now d =
     (case as_event st of
        None \<Rightarrow> d
      | Some eid \<Rightarrow>
          let (kind, sid, subject) = key;
              d1 = d\<lparr>events := update_where (\<lambda>e. ev_id e = eid) (\<lambda>e. e\<lparr>ev_ended := Some (py_trunc now)\<rparr>) (events d)\<rparr>;
              stored = (case select_one (\<lambda>e. ev_id e = eid) (events d1) of Some e \<Rightarrow> ev_message e | None \<Rightarrow> []);
              msg = (case as_message st of Some m \<Rightarrow> if m = [] then stored else m | None \<Rightarrow> stored)
          in if quiet then d1
             else fire (''green resolved: '' @ label_of kind @ '' - '' @ server_name sid d1 @ ''\<newline>'' @ msg @ ''\<newline>''
                        @ duration (now - as_since st)) d1)"

definition step :: "string \<Rightarrow> string \<Rightarrow> string \<Rightarrow> bool \<Rightarrow> rat \<Rightarrow> string \<Rightarrow> rat \<Rightarrow> bool \<Rightarrow> 'a hub_a_scheme \<Rightarrow> 'a hub_a_scheme" where
  "step kind sid subject bad v message now quiet d =
     (let key = (kind, sid, subject) in
      case (dget (rules_mem d) kind, dget (astate d) key) of
        (Some rule, ost) \<Rightarrow>
          if bad \<and> ru_enabled rule then
            let st = (case ost of None \<Rightarrow> \<lparr>as_since = now, as_event = None, as_value = v, as_message = None\<rparr>
                        | Some s \<Rightarrow> s\<lparr>as_value := v\<rparr>);
                d1 = d\<lparr>astate := dput key st (astate d)\<rparr>
            in if as_event st = None \<and> of_int (ru_for_s rule) \<le> now - as_since st
               then open_event rule key st v message now d1 else d1
          else (case ost of
                  None \<Rightarrow> d
                | Some st \<Rightarrow> let d1 = close_event quiet key st now d in d1\<lparr>astate := ddel key (astate d1)\<rparr>)
      | (None, None) \<Rightarrow> d
      | (None, Some st) \<Rightarrow> let d1 = close_event quiet key st now d in d1\<lparr>astate := ddel key (astate d1)\<rparr>)"

definition settle :: "string list \<Rightarrow> string \<Rightarrow> (string \<times> string) list \<Rightarrow> rat \<Rightarrow> 'a hub_a_scheme \<Rightarrow> 'a hub_a_scheme" where
  "settle kinds sid seen now d =
     fold (\<lambda>k d. step (fst k) sid (snd (snd k)) False 0 [] now False d)
       (filter (\<lambda>k. fst k \<in> set kinds \<and> fst (snd k) = sid \<and> (fst k, snd (snd k)) \<notin> set seen) (dkeys (astate d))) d"

definition forget_subject :: "string \<Rightarrow> string \<Rightarrow> rat \<Rightarrow> 'a hub_a_scheme \<Rightarrow> 'a hub_a_scheme" where
  "forget_subject kind subject now d =
     fold (\<lambda>k d. step kind (fst (snd k)) subject False 0 [] now True d)
       (filter (\<lambda>k. fst k = kind \<and> snd (snd k) = subject) (dkeys (astate d))) d"

definition forget_server :: "string \<Rightarrow> rat \<Rightarrow> 'a hub_a_scheme \<Rightarrow> 'a hub_a_scheme" where
  "forget_server sid now d =
     d\<lparr>events := update_where (\<lambda>e. ev_server e = sid \<and> ev_ended e = None) (\<lambda>e. e\<lparr>ev_ended := Some (py_trunc now)\<rparr>) (events d),
       astate := fold ddel (filter (\<lambda>k. fst (snd k) = sid) (dkeys (astate d))) (astate d)\<rparr>"

section \<open>Evaluators\<close>

definition chk :: "string \<Rightarrow> rat \<Rightarrow> string \<Rightarrow> string \<Rightarrow> rat \<Rightarrow> string \<Rightarrow> 'a hub_a_scheme \<Rightarrow> 'a hub_a_scheme" where
  "chk sid now kind subject v message d =
     step kind sid subject (case dget (rules_mem d) kind of None \<Rightarrow> False | Some r \<Rightarrow> ru_threshold r \<le> v) v message now False d"

definition disk_steps :: "string \<Rightarrow> rat \<Rightarrow> disk \<Rightarrow> 'a hub_a_scheme \<Rightarrow> 'a hub_a_scheme" where
  "disk_steps sid now k d =
     (let pct = nget (dk_nums k) ''pct''; ino = nget (dk_nums k) ''inodes_pct'';
          msg = ''disk '' @ dk_mount k @ '': '' @ fmt_fixed 0 pct @ ''% full - '' @ size_text (nget (dk_nums k) ''free'') @ '' free''
      in chk sid now ''inodes'' (dk_mount k) ino (''disk '' @ dk_mount k @ '': inode '' @ fmt_fixed 0 ino @ ''%'')
           (chk sid now ''disk_full'' (dk_mount k) pct msg (chk sid now ''disk'' (dk_mount k) pct msg d)))"

definition container_broken :: "container \<Rightarrow> bool" where
  "container_broken c =
     (cn_state c \<in> {''restarting'', ''dead''} \<or> cn_health c = ''unhealthy'' \<or>
      cn_state c = ''exited'' \<and> \<not> startswith (cn_status c) ''Exited (0)'')"

definition container_step :: "string \<Rightarrow> rat \<Rightarrow> container \<Rightarrow> 'a hub_a_scheme \<Rightarrow> 'a hub_a_scheme" where
  "container_step sid now c d =
     step ''container'' sid (cn_name c) (container_broken c) 0
       (''container '' @ cn_name c @ '': '' @ (if cn_status c = [] then cn_state c else cn_status c)) now False d"

definition sample_disks :: "sample \<Rightarrow> disk list" where
  "sample_disks s = (case sa_disks s of None \<Rightarrow> [] | Some ds \<Rightarrow> ds)"

definition seen_disks :: "sample \<Rightarrow> (string \<times> string) list" where
  "seen_disks s = concat (map (\<lambda>k. [(''disk'', dk_mount k), (''disk_full'', dk_mount k), (''inodes'', dk_mount k)]) (sample_disks s))"

definition seen_base :: "(string \<times> string) list" where
  "seen_base = [(''cpu'', []), (''mem'', []), (''load'', []), (''steal'', [])]"

definition containers_part :: "string \<Rightarrow> sample \<Rightarrow> rat \<Rightarrow> 'a hub_a_scheme \<Rightarrow> 'a hub_a_scheme" where
  "containers_part sid s now d =
     (case sa_containers s of
        None \<Rightarrow> d
      | Some cs \<Rightarrow>
          if (case sa_docker_err s of None \<Rightarrow> False | Some e \<Rightarrow> e \<noteq> []) then d
          else settle [''container''] sid (seen_base @ seen_disks s @ map (\<lambda>c. (''container'', cn_name c)) cs) now
                 (fold (container_step sid now) cs d))"

definition seen_all :: "sample \<Rightarrow> (string \<times> string) list" where
  "seen_all s = seen_base @ seen_disks s @
     (case sa_containers s of
        None \<Rightarrow> []
      | Some cs \<Rightarrow> if (case sa_docker_err s of None \<Rightarrow> False | Some e \<Rightarrow> e \<noteq> []) then []
                   else map (\<lambda>c. (''container'', cn_name c)) cs)"

definition evaluate_sample :: "string \<Rightarrow> sample \<Rightarrow> int \<Rightarrow> rat \<Rightarrow> 'a hub_a_scheme \<Rightarrow> ('a hub_a_scheme, unit) io" where
  "evaluate_sample sid s cpus now d =
     (case dget (rules_mem d) ''cpu'' of
        None \<Rightarrow> (d, Inl (KeyError ''cpu''))
      | Some rc \<Rightarrow>
          let cpu = nget (sa_cpu s) ''pct'';
              d1 = chk sid now ''cpu'' [] cpu (''CPU '' @ fmt_fixed 0 cpu @ ''% - threshold '' @ fmt_fixed 0 (ru_threshold rc) @ ''%'') d
          in case dget (rules_mem d1) ''mem'' of
               None \<Rightarrow> (d1, Inl (KeyError ''mem''))
             | Some rm \<Rightarrow>
                 let mem = nget (sa_mem s) ''pct'';
                     d2 = chk sid now ''mem'' [] mem (''memory '' @ fmt_fixed 0 mem @ ''% - threshold '' @ fmt_fixed 0 (ru_threshold rm) @ ''%'') d1;
                     load = sa_load s ! 0;
                     per_core = load / of_int (max cpus 1);
                     d3 = chk sid now ''load'' [] per_core (''load '' @ fmt_fixed 2 load @ '' on '' @ str_int cpus @ '' cores ('' @ fmt_fixed 2 per_core @ '' each)'') d2;
                     steal = nget (sa_cpu s) ''steal'';
                     d4 = chk sid now ''steal'' [] steal (''steal '' @ fmt_fixed 0 steal @ ''%'') d3;
                     d5 = fold (disk_steps sid now) (sample_disks s) d4;
                     d6 = containers_part sid s now d5;
                     d7 = settle [''cpu'', ''mem'', ''load'', ''steal''] sid (seen_all s) now d6
                 in (if sa_disks s \<noteq> None then settle [''disk'', ''disk_full'', ''inodes''] sid (seen_all s) now d7 else d7, Inr ()))"

definition offline_step :: "config \<Rightarrow> rat \<Rightarrow> server_row \<Rightarrow> 'a hub_a_scheme \<Rightarrow> 'a hub_a_scheme" where
  "offline_step cfg now srv d =
     (let lv = peek (sv_id srv) d;
          seen = (case sv_last_seen srv of None \<Rightarrow> 0 | Some t \<Rightarrow> of_int t);
          last = max seen (case lv of None \<Rightarrow> 0 | Some l \<Rightarrow> lv_last_ts l);
          silent = now - last;
          bad = (case dget (rules_mem d) ''offline'' of None \<Rightarrow> False
                 | Some r \<Rightarrow> ru_threshold r \<le> silent \<and> \<not> (case lv of None \<Rightarrow> False | Some l \<Rightarrow> status cfg now l = ''online''))
      in step ''offline'' (sv_id srv) [] bad silent
           ''no report from the agent: the server is off, its network is down or the agent stopped.'' now False d)"

definition evaluate_offline :: "config \<Rightarrow> rat \<Rightarrow> 'a hub_a_scheme \<Rightarrow> 'a hub_a_scheme" where
  "evaluate_offline cfg now d =
     (if now - started d < STARTUP_GRACE then d
      else fold (offline_step cfg now)
             (filter (\<lambda>r. sv_secret_hash r \<noteq> None \<and> sv_last_seen r \<noteq> None) (servers d)) d)"

definition is_open :: "akey \<Rightarrow> 'a hub_a_scheme \<Rightarrow> bool" where
  "is_open key d = (case dget (astate d) key of None \<Rightarrow> False | Some st \<Rightarrow> as_event st \<noteq> None)"

definition threshold :: "string \<Rightarrow> 'a hub_a_scheme \<Rightarrow> rat res" where
  "threshold kind d =
     (case dget (rules_mem d) kind of
        Some r \<Rightarrow> Inr (ru_threshold r)
      | None \<Rightarrow> (case dget DEFAULT_RULES kind of Some r \<Rightarrow> Inr (rd_threshold r) | None \<Rightarrow> Inl (KeyError kind)))"

definition evaluate_check ::
  "int \<Rightarrow> string \<Rightarrow> string \<Rightarrow> int \<Rightarrow> string \<Rightarrow> rat option \<Rightarrow> rat \<Rightarrow> 'a hub_a_scheme \<Rightarrow> 'a hub_a_scheme" where
  "evaluate_check cid name url fails error cert_days now d =
     (let thr = (\<lambda>k dflt d. case dget (rules_mem d) k of Some r \<Rightarrow> ru_threshold r | None \<Rightarrow> dflt);
          d1 = step ''check'' [] (str_int cid) (thr ''check'' 2 d \<le> of_int fails) (of_int fails)
                 (name @ '' ('' @ url @ '')\<newline>'' @ error) now False d
      in case cert_days of
           None \<Rightarrow> d1
         | Some c \<Rightarrow> step ''cert'' [] (str_int cid) (c \<le> thr ''cert'' 14 d1) c
                       (name @ '': certificate expires in '' @ str_int (py_trunc c) @ '' days'') now False d1)"

definition open_events :: "'a db_scheme \<Rightarrow> event_row list" where
  "open_events d = sort_key (\<lambda>e. - ev_started e) (filter (\<lambda>e. ev_ended e = None) (events d))"

definition history :: "nat \<Rightarrow> int option \<Rightarrow> 'a db_scheme \<Rightarrow> event_row list" where
  "history limit before d =
     (let b = (case before of Some x \<Rightarrow> if x = 0 then 2 ^ 31 else x | None \<Rightarrow> 2 ^ 31)
      in take (min limit 500) (sort_key (\<lambda>e. - ev_started e) (filter (\<lambda>e. ev_started e < b) (events d))))"

definition firing_count :: "string \<Rightarrow> 'a hub_a_scheme \<Rightarrow> nat" where
  "firing_count sid d = length (filter (\<lambda>p. fst (snd (fst p)) = sid \<and> as_event (snd p) \<noteq> None) (astate d))"

section \<open>The state mirrors the open events\<close>

definition st_open :: "(akey, alert_state) dict \<Rightarrow> akey \<Rightarrow> int \<Rightarrow> bool" where
  "st_open m key eid = (\<exists>st. dget m key = Some st \<and> as_event st = Some eid)"

definition ev_open :: "event_row list \<Rightarrow> akey \<Rightarrow> int \<Rightarrow> bool" where
  "ev_open es key eid = (\<exists>e \<in> set es. ev_id e = eid \<and> ev_key e = key \<and> ev_ended e = None)"

definition alert_ok :: "(akey, alert_state) dict \<Rightarrow> event_row list \<Rightarrow> bool" where
  "alert_ok m es = (dict_ok m \<and> distinct (map ev_id es) \<and> (\<forall>key eid. st_open m key eid \<longleftrightarrow> ev_open es key eid))"

abbreviation alert_inv :: "'a hub_a_scheme \<Rightarrow> bool" where
  "alert_inv d \<equiv> alert_ok (astate d) (events d)"

lemma alert_okD: "alert_ok m es \<Longrightarrow> st_open m key eid = ev_open es key eid"
  unfolding alert_ok_def by blast

lemma st_open_dput: "st_open (dput k st m) key eid = (if key = k then as_event st = Some eid else st_open m key eid)"
  by (simp add: st_open_def dget_dput)

lemma st_open_ddel: "st_open (ddel k m) key eid = (key \<noteq> k \<and> st_open m key eid)"
  by (simp add: st_open_def dget_ddel)

lemma alert_ok_value:
  assumes "alert_ok m es" and "\<And>eid. as_event st = Some eid \<longleftrightarrow> st_open m k eid"
  shows "alert_ok (dput k st m) es"
  using assms by (auto simp: alert_ok_def dict_ok_dput st_open_dput)

lemma alert_ok_open:
  assumes ok: "alert_ok m es" and k: "\<And>eid. \<not> st_open m k eid" and e: "ev_id e \<notin> set (map ev_id es)"
    "ev_key e = k" "ev_ended e = None" and st: "as_event st = Some (ev_id e)"
  shows "alert_ok (dput k st m) (es @ [e])"
proof -
  have "ev_open (es @ [e]) key eid \<longleftrightarrow> ev_open es key eid \<or> key = k \<and> eid = ev_id e" for key eid
    using e by (auto simp: ev_open_def)
  with ok k st e(1) show ?thesis by (auto simp: alert_ok_def dict_ok_dput st_open_dput)
qed

lemma alert_ok_close:
  assumes ok: "alert_ok m es" and st: "dget m k = Some st" "as_event st = Some i"
  shows "alert_ok (ddel k m) (update_where (\<lambda>e. ev_id e = i) (\<lambda>e. e\<lparr>ev_ended := Some t\<rparr>) es)"
proof -
  let ?es = "update_where (\<lambda>e. ev_id e = i) (\<lambda>e. e\<lparr>ev_ended := Some t\<rparr>) es"
  have ids: "map ev_id ?es = map ev_id es" by (rule map_update_where) simp
  have open': "ev_open ?es key eid \<longleftrightarrow> ev_open es key eid \<and> eid \<noteq> i" for key eid
    by (auto simp: ev_open_def set_update_where ev_key_def)
  have "st_open m k i" using st by (simp add: st_open_def)
  then have k: "ev_open es k i" using alert_okD [OF ok] by simp
  have uniq: "key = k" if o: "ev_open es key i" for key
  proof -
    obtain e where "e \<in> set es" "ev_id e = i" "ev_key e = key" using o by (auto simp: ev_open_def)
    moreover obtain e' where "e' \<in> set es" "ev_id e' = i" "ev_key e' = k" using k by (auto simp: ev_open_def)
    moreover have "inj_on ev_id (set es)" using ok by (simp add: alert_ok_def distinct_map)
    ultimately show ?thesis by (metis inj_onD)
  qed
  have ki: "eid = i" if "ev_open es k eid" for eid
    using that st unfolding alert_okD [OF ok, symmetric] st_open_def by simp
  have "st_open (ddel k m) key eid \<longleftrightarrow> ev_open ?es key eid" for key eid
    unfolding st_open_ddel open' alert_okD [OF ok] using uniq ki by blast
  with ok ids show ?thesis by (simp add: alert_ok_def dict_ok_ddel)
qed

lemma alert_ok_drop: "alert_ok m es \<Longrightarrow> (\<And>eid. \<not> st_open m k eid) \<Longrightarrow> alert_ok (ddel k m) es"
  by (auto simp: alert_ok_def dict_ok_ddel st_open_ddel)

lemma fire_frame [simp]: "events (fire t d) = events d" "astate (fire t d) = astate d" "rules_mem (fire t d) = rules_mem d"
  "servers (fire t d) = servers d" "rules (fire t d) = rules d" "lives (fire t d) = lives d" "started (fire t d) = started d"
  "outbox (fire t d) = outbox d @ [t]"
  by (simp_all add: fire_def)

lemma open_event_inv:
  assumes "alert_ok m (events d)" "astate d = dput key st m" "\<And>eid. \<not> st_open m key eid"
  shows "alert_inv (open_event rule key st v msg now d)"
proof -
  obtain kind sid sub where key: "key = (kind, sid, sub)" by (cases key)
  have dd: "dput key x (dput key y z) = dput key x z" for x y :: alert_state and z
    by (induction z) auto
  let ?e = "\<lparr>ev_id = next_rowid (map ev_id (events d)), ev_rule = kind, ev_server = sid, ev_subject = sub,
      ev_severity = ru_severity rule, ev_value = v, ev_message = msg, ev_started = py_trunc (as_since st), ev_ended = None\<rparr>"
  let ?st = "st\<lparr>as_event := Some (next_rowid (map ev_id (events d))), as_message := Some msg\<rparr>"
  have "alert_ok (dput key ?st m) (events d @ [?e])"
    by (rule alert_ok_open) (use assms in \<open>simp_all add: ev_key_def key del: set_map\<close>)
  then show ?thesis using assms(2) by (simp add: open_event_def Let_def key dd [unfolded key])
qed

lemma close_event_events:
  "events (close_event q key st now d) = (case as_event st of None \<Rightarrow> events d
     | Some i \<Rightarrow> update_where (\<lambda>e. ev_id e = i) (\<lambda>e. e\<lparr>ev_ended := Some (py_trunc now)\<rparr>) (events d))"
  "astate (close_event q key st now d) = astate d" "rules_mem (close_event q key st now d) = rules_mem d"
  by (auto simp: close_event_def Let_def split: option.splits prod.splits)

lemma close_step_inv:
  assumes "alert_inv d" "dget (astate d) key = Some st"
  shows "alert_ok (ddel key (astate d)) (events (close_event q key st now d))"
proof (cases "as_event st")
  case None
  with assms show ?thesis by (auto simp: close_event_events st_open_def intro!: alert_ok_drop)
next
  case (Some i)
  with alert_ok_close [OF assms Some, of "py_trunc now"] show ?thesis by (simp add: close_event_events)
qed

lemma step_inv: "alert_inv d \<Longrightarrow> alert_inv (step kind sid sub bad v msg now q d)"
proof -
  assume inv: "alert_inv d"
  let ?key = "(kind, sid, sub)"
  have close: "alert_inv (let d1 = close_event q ?key st now d in d1\<lparr>astate := ddel ?key (astate d1)\<rparr>)"
    if "dget (astate d) ?key = Some st" for st
    using close_step_inv [OF inv that] by (simp add: close_event_events)
  have bad_new: "alert_inv (let d1 = d\<lparr>astate := dput ?key st (astate d)\<rparr>
      in if as_event st = None \<and> c then open_event rule ?key st v msg now d1 else d1)"
    if "\<And>eid. as_event st = Some eid \<longleftrightarrow> st_open (astate d) ?key eid" for st c rule
    using inv that alert_ok_value [OF inv, of st ?key] by (auto simp: Let_def intro!: open_event_inv)
  have st: "as_event (case ost of None \<Rightarrow> \<lparr>as_since = now, as_event = None, as_value = v, as_message = None\<rparr>
      | Some s \<Rightarrow> s\<lparr>as_value := v\<rparr>) = Some eid \<longleftrightarrow> st_open (astate d) ?key eid"
    if "dget (astate d) ?key = ost" for ost eid
    using that by (auto simp: st_open_def split: option.splits)
  show ?thesis
    unfolding step_def Let_def [of ?key] using inv close bad_new [OF st [OF refl]]
    by (auto split: option.splits simp: Let_def)
qed

section \<open>Everything is a sequence of steps\<close>

text \<open>
  What a single step keeps for a group of keys, every evaluator keeps, because evaluators only take steps.
  \<open>ok\<close> says for which keys the step is promised to keep \<open>P\<close>.
\<close>

locale step_client =
  fixes P :: "'a hub_a_scheme \<Rightarrow> bool"
    and ok :: "akey \<Rightarrow> bool"
  assumes P_step: "ok (kind, sid, sub) \<Longrightarrow> P d \<Longrightarrow> P (step kind sid sub bad v msg now q d)"
begin

lemma P_fold: "(\<And>x d. x \<in> set xs \<Longrightarrow> P d \<Longrightarrow> P (f x d)) \<Longrightarrow> P d \<Longrightarrow> P (fold f xs d)"
  by (induction xs arbitrary: d) auto

lemma P_settle:
  assumes "\<And>k sub. k \<in> set kinds \<Longrightarrow> (k, sub) \<notin> set seen \<Longrightarrow> ok (k, sid, sub)" "P d"
  shows "P (settle kinds sid seen now d)"
  unfolding settle_def using assms by (intro P_fold) (auto intro: P_step)

lemma P_forget_subject: "(\<And>sid. ok (kind, sid, sub)) \<Longrightarrow> P d \<Longrightarrow> P (forget_subject kind sub now d)"
  unfolding forget_subject_def by (intro P_fold) (auto intro: P_step)

lemma P_chk: "ok (kind, sid, sub) \<Longrightarrow> P d \<Longrightarrow> P (chk sid now kind sub v msg d)"
  unfolding chk_def by (rule P_step)

lemma P_disk:
  "ok (''disk'', sid, dk_mount k) \<Longrightarrow> ok (''disk_full'', sid, dk_mount k) \<Longrightarrow> ok (''inodes'', sid, dk_mount k) \<Longrightarrow>
   P d \<Longrightarrow> P (disk_steps sid now k d)"
  unfolding disk_steps_def Let_def by (intro P_chk)

lemma P_containers:
  assumes "\<And>sub. ok (''container'', sid, sub)" "P d"
  shows "P (containers_part sid s now d)"
  unfolding containers_part_def container_step_def using assms
  by (auto split: option.splits intro!: P_settle P_fold intro: P_step)

lemma P_evaluate_sample:
  assumes "\<And>k sub. k \<in> {''cpu'', ''mem'', ''load'', ''steal'', ''container''} \<Longrightarrow> ok (k, sid, sub)"
    and "\<And>k sub. sa_disks s \<noteq> None \<Longrightarrow> k \<in> {''disk'', ''disk_full'', ''inodes''} \<Longrightarrow> ok (k, sid, sub)" and "P d"
  shows "P (fst (evaluate_sample sid s cpus now d))"
proof -
  have disks: "P (fold (disk_steps sid now) (sample_disks s) x)" if "P x" for x
  proof (cases "sa_disks s")
    case None
    with that show ?thesis by (simp add: sample_disks_def)
  next
    case (Some ds)
    with assms(2) that show ?thesis by (intro P_fold P_disk) auto
  qed
  have rest: "P (settle [''disk'', ''disk_full'', ''inodes''] sid se now x)" if "P x" "sa_disks s \<noteq> None" for x se
    using assms(2) that by (intro P_settle) auto
  have base: "P (settle [''cpu'', ''mem'', ''load'', ''steal''] sid se now x)" if "P x" for x se
    using assms(1) that by (intro P_settle) auto
  show ?thesis
    unfolding evaluate_sample_def Let_def using assms(1,3)
    by (auto split: option.splits intro!: rest base P_containers disks P_chk)
qed

lemma P_evaluate_offline: "(\<And>sid. ok (''offline'', sid, [])) \<Longrightarrow> P d \<Longrightarrow> P (evaluate_offline cfg now d)"
  unfolding evaluate_offline_def offline_step_def Let_def by (auto intro!: P_fold intro: P_step)

lemma P_evaluate_check:
  "ok (''check'', [], str_int cid) \<Longrightarrow> ok (''cert'', [], str_int cid) \<Longrightarrow> P d \<Longrightarrow>
   P (evaluate_check cid name url fails err cert now d)"
  unfolding evaluate_check_def Let_def by (auto split: option.splits intro!: P_step)

end

interpretation mirror: step_client alert_inv "\<lambda>_. True"
  by unfold_locales (rule step_inv)

lemma step_other:
  "key \<noteq> (kind, sid, sub) \<Longrightarrow> dget (astate (step kind sid sub bad v msg now q d)) key = dget (astate d) key"
  by (auto simp: step_def open_event_def Let_def dget_dput dget_ddel close_event_events split: option.splits prod.splits)

interpretation other: step_client "\<lambda>d. dget (astate d) key = x" "\<lambda>k. k \<noteq> key" for key x
  by unfold_locales (simp add: step_other)

lemma step_rules: "rules_mem (step kind sid sub bad v msg now q d) = rules_mem d"
  by (auto simp: step_def open_event_def Let_def close_event_events split: option.splits prod.splits)

interpretation same_rules: step_client "\<lambda>d. rules_mem d = m" "\<lambda>_. True" for m
  by unfold_locales (simp add: step_rules)

section \<open>Restart\<close>

lemma fold_put_notin:
  "key \<notin> ev_key ` set es \<Longrightarrow> dget (fold (\<lambda>e. dput (ev_key e) (f e)) es m) key = dget m key"
  by (induction es arbitrary: m) (auto simp: dget_dput)

lemma fold_put_in:
  "distinct (map ev_key es) \<Longrightarrow> e \<in> set es \<Longrightarrow> dget (fold (\<lambda>e. dput (ev_key e) (f e)) es m) (ev_key e) = Some (f e)"
proof (induction es arbitrary: m)
  case (Cons x es)
  then show ?case by (cases "e = x") (auto simp: fold_put_notin dget_dput)
qed simp

lemma dict_ok_fold_put: "dict_ok m \<Longrightarrow> dict_ok (fold (\<lambda>e. dput (k e) (f e)) es m)"
  by (induction es arbitrary: m) (auto simp: dict_ok_dput)

lemma open_keys_distinct:
  assumes "alert_ok m es"
  shows "distinct (map ev_key (filter (\<lambda>e. ev_ended e = None) es))"
proof -
  have "inj_on ev_key (set (filter (\<lambda>e. ev_ended e = None) es))"
  proof (rule inj_onI)
    fix x y assume x: "x \<in> set (filter (\<lambda>e. ev_ended e = None) es)" and y: "y \<in> set (filter (\<lambda>e. ev_ended e = None) es)"
      and k: "ev_key x = ev_key y"
    have "ev_open es (ev_key x) (ev_id x)" "ev_open es (ev_key x) (ev_id y)"
      using x y k by (auto simp: ev_open_def)
    then have "ev_id x = ev_id y" unfolding alert_okD [OF assms, symmetric] st_open_def by auto
    moreover have "inj_on ev_id (set es)" using assms by (simp add: alert_ok_def distinct_map)
    ultimately show "x = y" using x y by (auto dest: inj_onD)
  qed
  moreover have "distinct es" using assms by (simp add: alert_ok_def distinct_map)
  ultimately show ?thesis by (simp add: distinct_map)
qed

lemma seed_open:
  assumes "alert_inv d"
  shows "events (seed d) = events d" "outbox (seed d) = outbox d" "st_open (astate (seed d)) = st_open (astate d)"
    "dict_ok (astate (seed d))"
proof -
  show ev: "events (seed d) = events d" "outbox (seed d) = outbox d" by (simp_all add: seed_def Let_def reload_def)
  let ?es = "filter (\<lambda>e. ev_ended e = None) (events d)"
  let ?f = "\<lambda>e. \<lparr>as_since = of_int (ev_started e), as_event = Some (ev_id e), as_value = ev_value e, as_message = None\<rparr>"
  have m: "astate (seed d) = fold (\<lambda>e. dput (ev_key e) (?f e)) ?es []"
    by (simp add: seed_def Let_def reload_def)
  show "dict_ok (astate (seed d))" unfolding m by (rule dict_ok_fold_put) (simp add: dict_ok_def)
  have "st_open (astate (seed d)) key eid = ev_open (events d) key eid" for key eid
  proof (cases "key \<in> ev_key ` set ?es")
    case True
    then obtain e where e: "e \<in> set ?es" "ev_key e = key" by blast
    have "dget (astate (seed d)) (ev_key e) = Some (?f e)"
      unfolding m by (rule fold_put_in [OF open_keys_distinct [OF assms] e(1)])
    then have "dget (astate (seed d)) key = Some (?f e)" by (simp only: e(2))
    then have "st_open (astate (seed d)) key eid \<longleftrightarrow> ev_id e = eid" by (simp add: st_open_def)
    also have "\<dots> \<longleftrightarrow> ev_open (events d) key eid"
    proof -
      have "ev_open (events d) key (ev_id e)" using e by (auto simp: ev_open_def)
      then show ?thesis unfolding alert_okD [OF assms, symmetric] st_open_def by auto
    qed
    finally show ?thesis .
  next
    case False
    then have "dget (astate (seed d)) key = None" unfolding m by (simp add: fold_put_notin)
    with False show ?thesis by (auto simp: st_open_def ev_open_def)
  qed
  then show "st_open (astate (seed d)) = st_open (astate d)" using alert_okD [OF assms] by (simp add: fun_eq_iff)
qed

lemma seed_inv: "alert_inv d \<Longrightarrow> alert_inv (seed d)"
  using seed_open [of d] unfolding alert_ok_def by simp

lemma is_open_st: "is_open key d \<longleftrightarrow> (\<exists>eid. st_open (astate d) key eid)"
  by (auto simp: is_open_def st_open_def split: option.splits)
section \<open>Runs\<close>

datatype alert_op =
    ASample string sample int rat
  | AOffline config rat
  | ACheck int string string int string "rat option" rat
  | AStep string string string bool rat string rat
  | AForgetSubject string string rat
  | AForgetServer string rat
  | AUpdateRule string rat int string bool
  | APrune config int
  | ARestart rat

fun alert_exec :: "alert_op \<Rightarrow> 'a hub_a_scheme \<Rightarrow> 'a hub_a_scheme" where
  "alert_exec (ASample sid s cpus now) d = fst (evaluate_sample sid s cpus now d)"
| "alert_exec (AOffline cfg now) d = evaluate_offline cfg now d"
| "alert_exec (ACheck cid name url fails err cert now) d = evaluate_check cid name url fails err cert now d"
| "alert_exec (AStep kind sid sub bad v msg now) d = step kind sid sub bad v msg now False d"
| "alert_exec (AForgetSubject kind sub now) d = forget_subject kind sub now d"
| "alert_exec (AForgetServer sid now) d = forget_server sid now d"
| "alert_exec (AUpdateRule kind thr for_s sev en) d = fst (update_rule kind thr for_s sev en d)"
| "alert_exec (APrune cfg now) d = metrics_prune cfg now d"
| "alert_exec (ARestart t) d = (seed d)\<lparr>started := t\<rparr>"

lemma forget_server_inv: "alert_inv d \<Longrightarrow> alert_inv (forget_server sid now d)"
proof -
  assume inv: "alert_inv d"
  let ?es = "update_where (\<lambda>e. ev_server e = sid \<and> ev_ended e = None) (\<lambda>e. e\<lparr>ev_ended := Some (py_trunc now)\<rparr>) (events d)"
  let ?m = "fold ddel (filter (\<lambda>k. fst (snd k) = sid) (dkeys (astate d))) (astate d)"
  have m: "dget ?m key = (if fst (snd key) = sid then None else dget (astate d) key)" for key
    unfolding pydict.get_fold_del by (auto simp: set_dkeys domIff)
  have "map ev_id ?es = map ev_id (events d)" by (rule map_update_where) simp
  moreover have "ev_open ?es key eid \<longleftrightarrow> ev_open (events d) key eid \<and> fst (snd key) \<noteq> sid" for key eid
    by (auto simp: ev_open_def set_update_where ev_key_def)
  moreover have "st_open ?m key eid \<longleftrightarrow> st_open (astate d) key eid \<and> fst (snd key) \<noteq> sid" for key eid
    by (auto simp: st_open_def m)
  moreover have "dict_ok ?m" using inv by (intro pydict.ok_fold_del) (simp add: alert_ok_def)
  ultimately show ?thesis
    using inv alert_okD [OF inv] unfolding alert_ok_def by (simp add: forget_server_def)
qed

lemma metrics_prune_inv: "alert_inv d \<Longrightarrow> alert_inv (metrics_prune cfg now d)"
proof -
  assume inv: "alert_inv d"
  have "ev_open (delete_where (\<lambda>e. case ev_ended e of None \<Rightarrow> False | Some t \<Rightarrow> p t) es) key eid = ev_open es key eid"
    for p es key eid by (auto simp: ev_open_def)
  with inv alert_okD [OF inv] show ?thesis
    unfolding alert_ok_def by (simp add: metrics_prune_def delete_where_def distinct_map_filter)
qed

lemma update_rule_frame: "astate (fst (update_rule k t f s e d)) = astate d" "events (fst (update_rule k t f s e d)) = events d"
  by (auto simp: update_rule_def reload_def)

interpretation alert_run: machine alert_exec alert_inv
proof unfold_locales
  fix d :: "'b hub_a_scheme" and op
  assume "alert_inv d"
  then show "alert_inv (alert_exec op d)"
    by (cases op) (auto simp: update_rule_frame seed_inv forget_server_inv metrics_prune_inv step_inv
        intro: mirror.P_evaluate_sample mirror.P_evaluate_offline mirror.P_evaluate_check mirror.P_forget_subject)
qed

lemma distinct_key_filter: "distinct (map k xs) \<Longrightarrow> length (filter (\<lambda>x. k x = c) xs) \<le> 1"
proof (induction xs)
  case (Cons x xs)
  then show ?case by (cases "k x = c") (auto simp: filter_empty_conv image_iff)
qed simp

text \<open>
  C9. The alert state and the database never disagree: after any sequence of samples, timers, checks, rule
  changes, deletions, clean-ups and hub restarts, a condition is marked as firing exactly when the database holds
  an open event for it, and no condition has two open events.
\<close>

theorem alert_state_mirrors_events:
  fixes ops :: "alert_op list"
  assumes "events d = []" and "astate d = []"
  shows "(is_open key (fold alert_exec ops d) \<longleftrightarrow>
      (\<exists>e \<in> set (events (fold alert_exec ops d)). ev_key e = key \<and> ev_ended e = None)) \<and>
    length (filter (\<lambda>e. ev_key e = key \<and> ev_ended e = None) (events (fold alert_exec ops d))) \<le> 1"
proof -
  let ?d = "fold alert_exec ops d"
  have "alert_inv d" using assms by (simp add: alert_ok_def dict_ok_def st_open_def ev_open_def)
  then have inv: "alert_inv ?d" by (rule alert_run.run_inv)
  have "is_open key ?d \<longleftrightarrow> (\<exists>e \<in> set (events ?d). ev_key e = key \<and> ev_ended e = None)"
    unfolding is_open_st alert_okD [OF inv] ev_open_def by blast
  moreover have "length (filter (\<lambda>e. ev_key e = key \<and> ev_ended e = None) (events ?d)) \<le> 1"
  proof -
    let ?o = "filter (\<lambda>e. ev_ended e = None) (events ?d)"
    have "distinct (map ev_key ?o)" by (rule open_keys_distinct [OF inv])
    from distinct_key_filter [OF this, of key] show ?thesis by (simp add: conj_commute)
  qed
  ultimately show ?thesis by blast
qed

section \<open>Notifications\<close>

lemma open_event_out: "\<exists>t. outbox (open_event rule key st v msg now d) = outbox d @ [t]"
  "dget (astate (open_event rule key st v msg now d)) key =
     Some (st\<lparr>as_event := Some (next_rowid (map ev_id (events d))), as_message := Some msg\<rparr>)"
  by (auto simp: open_event_def Let_def dget_dput split: prod.splits)

lemma close_event_out:
  "(\<exists>t. outbox (close_event q key st now d) = outbox d @ (if as_event st = None \<or> q then [] else [t]))"
  by (auto simp: close_event_def Let_def split: option.splits prod.splits)

lemma step_bad_eq:
  assumes "dget (rules_mem d) kind = Some rule" "bad" "ru_enabled rule"
  shows "step kind sid sub bad v msg now q d =
    (let d1 = d\<lparr>astate := dput (kind, sid, sub) (case dget (astate d) (kind, sid, sub) of
             None \<Rightarrow> \<lparr>as_since = now, as_event = None, as_value = v, as_message = None\<rparr> | Some s \<Rightarrow> s\<lparr>as_value := v\<rparr>) (astate d)\<rparr>
     in if as_event (case dget (astate d) (kind, sid, sub) of
             None \<Rightarrow> \<lparr>as_since = now, as_event = None, as_value = v, as_message = None\<rparr> | Some s \<Rightarrow> s\<lparr>as_value := v\<rparr>) = None
           \<and> of_int (ru_for_s rule) \<le> now - as_since (case dget (astate d) (kind, sid, sub) of
             None \<Rightarrow> \<lparr>as_since = now, as_event = None, as_value = v, as_message = None\<rparr> | Some s \<Rightarrow> s\<lparr>as_value := v\<rparr>)
        then open_event rule (kind, sid, sub) (case dget (astate d) (kind, sid, sub) of
             None \<Rightarrow> \<lparr>as_since = now, as_event = None, as_value = v, as_message = None\<rparr> | Some s \<Rightarrow> s\<lparr>as_value := v\<rparr>) v msg now d1
        else d1)"
  using assms by (simp add: step_def Let_def)

lemma step_good_eq:
  assumes "\<not> (\<exists>r. dget (rules_mem d) kind = Some r \<and> bad \<and> ru_enabled r)"
  shows "step kind sid sub bad v msg now q d =
    (case dget (astate d) (kind, sid, sub) of
       None \<Rightarrow> d
     | Some st \<Rightarrow> let d1 = close_event q (kind, sid, sub) st now d in d1\<lparr>astate := ddel (kind, sid, sub) (astate d1)\<rparr>)"
  using assms by (auto simp: step_def Let_def split: option.splits)

text \<open>
  Notify once, resolve once: a step sends a notification exactly when the condition starts firing or stops
  firing (a quiet step does not announce the end), and never while it stays as it is.
\<close>

theorem step_notifies_on_change:
  "\<exists>t. outbox (step kind sid sub bad v msg now q d) =
     outbox d @ (if is_open (kind, sid, sub) d = is_open (kind, sid, sub) (step kind sid sub bad v msg now q d) \<or>
                    (q \<and> is_open (kind, sid, sub) d) then [] else [t])"
proof -
  let ?key = "(kind, sid, sub)"
  let ?goal = "\<lambda>d'. \<exists>t. outbox d' = outbox d @ (if is_open ?key d = is_open ?key d' \<or> (q \<and> is_open ?key d) then [] else [t])"
  have closed: "?goal (let d1 = close_event q ?key st now d in d1\<lparr>astate := ddel ?key (astate d1)\<rparr>)"
    if "dget (astate d) ?key = Some st" for st
    using that close_event_out [of q ?key st now d]
    by (auto simp: is_open_def dget_ddel close_event_events Let_def split: option.splits)
  have opn: "?goal (let d1 = d\<lparr>astate := dput ?key st (astate d)\<rparr>
      in if as_event st = None \<and> c then open_event rule ?key st v msg now d1 else d1)"
    if "as_event st \<noteq> None \<longleftrightarrow> is_open ?key d" for st c rule
    using that open_event_out [of rule ?key st v msg now "d\<lparr>astate := dput ?key st (astate d)\<rparr>"]
    by (auto simp: is_open_def dget_dput Let_def split: option.splits)
  have st: "as_event (case dget (astate d) ?key of None \<Rightarrow> \<lparr>as_since = now, as_event = None, as_value = v, as_message = None\<rparr>
      | Some s \<Rightarrow> s\<lparr>as_value := v\<rparr>) \<noteq> None \<longleftrightarrow> is_open ?key d"
    by (auto simp: is_open_def split: option.splits)
  show ?thesis
  proof (cases "\<exists>r. dget (rules_mem d) kind = Some r \<and> bad \<and> ru_enabled r")
    case True
    then obtain r where r: "dget (rules_mem d) kind = Some r" "bad" "ru_enabled r" by blast
    show ?thesis unfolding step_bad_eq [OF r] by (rule opn [OF st])
  next
    case False
    note e = step_good_eq [OF this, of sid sub v msg now q]
    show ?thesis
    proof (cases "dget (astate d) ?key")
      case None
      then show ?thesis unfolding e by simp
    next
      case (Some st)
      have e': "step kind sid sub bad v msg now q d = (let d1 = close_event q ?key st now d in d1\<lparr>astate := ddel ?key (astate d1)\<rparr>)"
        using e Some by simp
      show ?thesis unfolding e' by (rule closed [OF Some])
    qed
  qed
qed

section \<open>How long a condition must last\<close>

lemma step_bad:
  assumes "dget (rules_mem d) kind = Some r" "ru_enabled r"
  shows "\<exists>st. dget (astate (step kind sid sub True v msg now q d)) (kind, sid, sub) = Some st \<and>
    as_since st = (case dget (astate d) (kind, sid, sub) of None \<Rightarrow> now | Some s \<Rightarrow> as_since s) \<and>
    (as_event st \<noteq> None \<longleftrightarrow> is_open (kind, sid, sub) d \<or> of_int (ru_for_s r) \<le> now - as_since st)"
  using assms
  by (auto simp: step_def Let_def dget_dput is_open_def open_event_out(2) split: option.splits)

fun bad_run :: "akey \<Rightarrow> (rat \<times> rat \<times> string) list \<Rightarrow> 'a hub_a_scheme \<Rightarrow> 'a hub_a_scheme" where
  "bad_run key [] d = d"
| "bad_run key ((t, v, m) # rest) d = bad_run key rest (step (fst key) (fst (snd key)) (snd (snd key)) True v m t False d)"

lemma bad_run_open:
  assumes "dget (rules_mem d) kind = Some r" "ru_enabled r"
    and "dget (astate d) (kind, sid, sub) = Some st"
  shows "is_open (kind, sid, sub) (bad_run (kind, sid, sub) obs d) \<longleftrightarrow>
    is_open (kind, sid, sub) d \<or> (\<exists>x \<in> set obs. of_int (ru_for_s r) \<le> fst x - as_since st)"
  using assms
proof (induction "(kind, sid, sub)" obs d arbitrary: st rule: bad_run.induct)
  case (2 t v m rest d)
  let ?d = "step kind sid sub True v m t False d"
  obtain st' where st': "dget (astate ?d) (kind, sid, sub) = Some st'"
    "as_since st' = (case dget (astate d) (kind, sid, sub) of None \<Rightarrow> t | Some s \<Rightarrow> as_since s)"
    "as_event st' \<noteq> None \<longleftrightarrow> is_open (kind, sid, sub) d \<or> of_int (ru_for_s r) \<le> t - as_since st'"
    using step_bad [OF "2.prems"(1,2), of sid sub v m t False] by blast
  then have since: "as_since st' = as_since st" using "2.prems"(3) by simp
  have "is_open (kind, sid, sub) ?d \<longleftrightarrow> is_open (kind, sid, sub) d \<or> of_int (ru_for_s r) \<le> t - as_since st"
    using st'(1,3) since by (simp add: is_open_def [of _ ?d])
  with "2.hyps" [of st'] "2.prems" st'(1) since show ?case by (auto simp: step_rules)
qed simp

text \<open>
  Only a lasting problem alerts: while a condition stays bad, observed at the times of the list, an event is open
  exactly when some observation came at least the rule's duration after the first; a shorter spike never
  opens one.
\<close>

theorem alert_needs_duration:
  assumes "dget (rules_mem d) kind = Some r" and "ru_enabled r" and "dget (astate d) (kind, sid, sub) = None"
  shows "is_open (kind, sid, sub) (bad_run (kind, sid, sub) ((t0, v0, m0) # obs) d) \<longleftrightarrow>
    (\<exists>t \<in> set (t0 # map fst obs). of_int (ru_for_s r) \<le> t - t0)"
proof -
  let ?d = "step kind sid sub True v0 m0 t0 False d"
  obtain st where st: "dget (astate ?d) (kind, sid, sub) = Some st" "as_since st = t0"
    "as_event st \<noteq> None \<longleftrightarrow> of_int (ru_for_s r) \<le> t0 - t0"
    using step_bad [OF assms(1,2), of sid sub v0 m0 t0 False] assms(3) by (auto simp: is_open_def)
  have "is_open (kind, sid, sub) ?d \<longleftrightarrow> of_int (ru_for_s r) \<le> t0 - t0" using st by (simp add: is_open_def)
  moreover have "dget (rules_mem ?d) kind = Some r" using assms(1) by (simp add: step_rules)
  ultimately show ?thesis
    using bad_run_open [OF _ assms(2) st(1), of obs] st(2) by auto
qed

section \<open>Scope of a sample\<close>

lemma step_false_gone: "dget (astate (step kind sid sub False v msg now q d)) (kind, sid, sub) = None"
  by (auto simp: step_def Let_def dget_ddel close_event_events split: option.splits)

lemma step_false_stays:
  "dget (astate d) key = None \<Longrightarrow> dget (astate (step kind sid sub False v msg now q d)) key = None"
  by (cases "key = (kind, sid, sub)") (simp_all add: step_false_gone step_other)

lemma fold_false_gone:
  "key \<in> set ks \<or> dget (astate d) key = None \<Longrightarrow> (\<forall>k \<in> set ks. fst (snd k) = sid) \<Longrightarrow>
   dget (astate (fold (\<lambda>k d. step (fst k) sid (snd (snd k)) False 0 [] now False d) ks d)) key = None"
proof (induction ks arbitrary: d)
  case (Cons k ks)
  have "dget (astate (step (fst k) sid (snd (snd k)) False 0 [] now False d)) key = None"
    if "key = k \<or> dget (astate d) key = None"
    using that
  proof
    assume "key = k"
    then have "key = (fst k, sid, snd (snd k))" using Cons.prems(2) by (cases k) auto
    then show ?thesis using step_false_gone by metis
  qed (rule step_false_stays)
  with Cons show ?case by auto
qed simp

lemma settle_gone:
  assumes "k \<in> set kinds" "(k, sub) \<notin> set seen"
  shows "dget (astate (settle kinds sid seen now d)) (k, sid, sub) = None"
  unfolding settle_def
  by (rule fold_false_gone) (use assms in \<open>auto simp: set_dkeys domIff\<close>)

text \<open>
  A sample acts only where it has evidence: it never changes the alert state of another server, and a sample
  without a disk list (they arrive every few samples, and not at all right after a restart) leaves every disk
  alert of its server as it is.
\<close>

theorem sample_leaves_others:
  assumes "sid' \<noteq> sid \<or> (sa_disks s = None \<and> kind \<in> {''disk'', ''disk_full'', ''inodes''})"
  shows "dget (astate (fst (evaluate_sample sid s cpus now d))) (kind, sid', sub) = dget (astate d) (kind, sid', sub)"
  using assms by (intro other.P_evaluate_sample) auto

text \<open>
  What vanished is resolved: after a sample that carries the disk list, every disk alert still pending or open for
  that server belongs to a disk of the list, and each disappeared disk's alert is closed.
\<close>

theorem vanished_disks_resolved:
  assumes "evaluate_sample sid s cpus now d = (d', Inr ())" and "sa_disks s = Some ds"
    and "kind \<in> {''disk'', ''disk_full'', ''inodes''}" and "sub \<notin> dk_mount ` set ds"
  shows "dget (astate d') (kind, sid, sub) = None"
proof -
  obtain x where "d' = settle [''disk'', ''disk_full'', ''inodes''] sid (seen_all s) now x"
    using assms(1,2) by (auto simp: evaluate_sample_def Let_def split: option.splits)
  moreover have "(kind, sub) \<notin> set (seen_all s)"
    using assms(2-4) by (auto simp: seen_all_def seen_base_def seen_disks_def sample_disks_def split: option.splits if_splits)
  ultimately show ?thesis using assms(3) by (auto intro!: settle_gone)
qed

text \<open>
  A hub restart neither repeats nor forgets an alert: whatever happened before, rebuilding the state from the
  database leaves exactly the same conditions firing, sends nothing and changes no event.
\<close>

theorem restart_keeps_alerts:
  fixes ops :: "alert_op list"
  assumes "events d = []" and "astate d = []" and "d1 = fold alert_exec ops d"
  shows "is_open key (alert_exec (ARestart t) d1) = is_open key d1 \<and>
    outbox (alert_exec (ARestart t) d1) = outbox d1 \<and> events (alert_exec (ARestart t) d1) = events d1"
proof -
  have "alert_inv d" using assms by (simp add: alert_ok_def dict_ok_def st_open_def ev_open_def)
  then have inv: "alert_inv d1" unfolding assms(3) by (rule alert_run.run_inv)
  from seed_open [OF inv] show ?thesis by (simp add: is_open_st)
qed

section \<open>Closed examples\<close>

definition demo_hub_a :: hub_a where
  "demo_hub_a = seed \<lparr>users = [], sessions = [], login_fail = [], servers = [], samples_1m = [], samples_1h = [], rules = [],
     events = [], checks = [], check_log = [], settings = [], audit_log = [], notify_log = [], backup_plans = [],
     backup_runs = [], outbox = [], lives = [], rules_mem = [], astate = [], started = 0\<rparr>"

definition demo_sample :: "disk list option \<Rightarrow> sample" where
  "demo_sample ds = \<lparr>sa_ts = 0, sa_cpu = [(''pct'', 99)], sa_load = [1, 1, 1], sa_mem = [(''pct'', 20)], sa_io = [],
     sa_net = [], sa_tcp = 0, sa_procs = 0, sa_uptime = 0, sa_disks = ds, sa_top = None, sa_containers = None,
     sa_docker_err = None\<rparr>"

definition demo_disk :: "string \<Rightarrow> disk" where
  "demo_disk m = \<lparr>dk_mount = m, dk_device = m, dk_fs = ''ext4'', dk_nums = [(''pct'', 97), (''inodes_pct'', 1), (''free'', 5)]\<rparr>"

definition demo_ops :: "alert_op list" where
  "demo_ops = [ASample ''s1'' (demo_sample (Some [demo_disk ''/'', demo_disk ''/x''])) 1 100, ASample ''s1'' (demo_sample None) 1 105]"

lemma demo_hub_a_empty: "events demo_hub_a = []" "astate demo_hub_a = []"
  by code_simp+

theorem alert_state_mirrors_events_witness:
  "is_open (''disk'', ''s1'', ''/'') (fold alert_exec demo_ops demo_hub_a) \<and>
   (\<exists>e \<in> set (events (fold alert_exec demo_ops demo_hub_a)). ev_key e = (''disk'', ''s1'', ''/'') \<and> ev_ended e = None)"
proof -
  have o: "is_open (''disk'', ''s1'', ''/'') (fold alert_exec demo_ops demo_hub_a)" by code_simp
  with alert_state_mirrors_events [OF demo_hub_a_empty, of "(''disk'', ''s1'', ''/'')" demo_ops] show ?thesis by blast
qed

theorem restart_keeps_alerts_witness:
  "is_open (''disk'', ''s1'', ''/'') (alert_exec (ARestart 200) (fold alert_exec demo_ops demo_hub_a))"
proof -
  have "is_open (''disk'', ''s1'', ''/'') (fold alert_exec demo_ops demo_hub_a)" by code_simp
  with restart_keeps_alerts [OF demo_hub_a_empty refl, of "(''disk'', ''s1'', ''/'')" 200 demo_ops] show ?thesis by blast
qed

theorem alert_needs_duration_witness:
  "\<exists>r. dget (rules_mem demo_hub_a) ''cpu'' = Some r \<and> ru_for_s r = 600 \<and>
     is_open (''cpu'', ''s1'', []) (bad_run (''cpu'', ''s1'', []) [(100, 95, ''m''), (400, 95, ''m''), (700, 95, ''m'')] demo_hub_a)"
proof -
  have "case dget (rules_mem demo_hub_a) ''cpu'' of None \<Rightarrow> False | Some r \<Rightarrow> ru_enabled r \<and> ru_for_s r = 600" by code_simp
  then obtain r where r: "dget (rules_mem demo_hub_a) ''cpu'' = Some r" "ru_enabled r" "ru_for_s r = 600"
    by (auto split: option.splits)
  have n: "dget (astate demo_hub_a) (''cpu'', ''s1'', []) = None" by (simp add: demo_hub_a_empty)
  from alert_needs_duration [OF r(1,2) n, of 100 95 "''m''" "[(400, 95, ''m''), (700, 95, ''m'')]"] r
  show ?thesis by simp
qed

theorem sample_leaves_others_witness:
  "dget (astate (fst (evaluate_sample ''s1'' (demo_sample None) 1 105 (fold alert_exec demo_ops demo_hub_a)))) (''disk'', ''s1'', ''/'') =
   dget (astate (fold alert_exec demo_ops demo_hub_a)) (''disk'', ''s1'', ''/'')"
  by (rule sample_leaves_others) (simp add: demo_sample_def)

theorem vanished_disks_resolved_witness:
  "\<exists>d'. evaluate_sample ''s1'' (demo_sample (Some [demo_disk ''/''])) 1 110 (fold alert_exec demo_ops demo_hub_a) = (d', Inr ())
     \<and> dget (astate d') (''disk'', ''s1'', ''/x'') = None"
proof -
  let ?e = "evaluate_sample ''s1'' (demo_sample (Some [demo_disk ''/''])) 1 110 (fold alert_exec demo_ops demo_hub_a)"
  have "snd ?e = Inr ()" by code_simp
  then have e: "?e = (fst ?e, Inr ())" by (metis prod.collapse)
  have "dget (astate (fst ?e)) (''disk'', ''s1'', ''/x'') = None"
    by (rule vanished_disks_resolved [OF e, of "[demo_disk ''/'']"]) (simp_all add: demo_sample_def demo_disk_def)
  with e show ?thesis by blast
qed

section \<open>The abstract alert machine\<close>

text \<open>
  What the engine promises about one subject, without tables, events and messages: it is quiet, or a violation has been pending since some time, or the alert has
  been firing. The detailed \<open>step\<close> implements this machine.
\<close>

datatype phase = Quiet | Pending rat | Firing rat

definition phase_of :: "akey \<Rightarrow> 'a hub_a_scheme \<Rightarrow> phase" where
  "phase_of key d =
     (case dget (astate d) key of
        None \<Rightarrow> Quiet
      | Some st \<Rightarrow> (case as_event st of None \<Rightarrow> Pending (as_since st) | Some e \<Rightarrow> Firing (as_since st)))"

fun next_phase :: "rule_row option \<Rightarrow> bool \<Rightarrow> rat \<Rightarrow> phase \<Rightarrow> phase" where
  "next_phase None bad now ph = Quiet"
| "next_phase (Some r) bad now ph =
     (if \<not> (bad \<and> ru_enabled r) then Quiet
      else case ph of
             Firing t \<Rightarrow> Firing t
           | Quiet \<Rightarrow> if ru_for_s r \<le> 0 then Firing now else Pending now
           | Pending t \<Rightarrow> if of_int (ru_for_s r) \<le> now - t then Firing t else Pending t)"

record observation =
  ob_key :: akey
  ob_bad :: bool
  ob_value :: rat
  ob_message :: string
  ob_now :: rat
  ob_quiet :: bool

fun observe :: "observation \<Rightarrow> 'a hub_a_scheme \<Rightarrow> 'a hub_a_scheme" where
  "observe ob d = (case ob_key ob of (kind, sid, sub) \<Rightarrow> step kind sid sub (ob_bad ob) (ob_value ob) (ob_message ob) (ob_now ob) (ob_quiet ob) d)"

lemma phase_step: "phase_of (kind, sid, sub) (step kind sid sub bad v msg now q d) = next_phase (dget (rules_mem d) kind) bad now (phase_of (kind, sid, sub) d)"
proof (cases "\<exists>r. dget (rules_mem d) kind = Some r \<and> bad \<and> ru_enabled r")
  case True
  then obtain r where r: "dget (rules_mem d) kind = Some r" "bad" "ru_enabled r" by blast
  show ?thesis unfolding step_bad_eq [OF r] phase_of_def
    by (cases "dget (astate d) (kind, sid, sub)") (use r in \<open>auto simp: Let_def open_event_out dget_dput split: option.split\<close>)
next
  case False
  note e = step_good_eq [OF this, of sid sub v msg now q]
  have "next_phase (dget (rules_mem d) kind) bad now ph = Quiet" for ph using False by (cases "dget (rules_mem d) kind") auto
  then show ?thesis unfolding e phase_of_def by (auto simp: Let_def dget_ddel close_event_events split: option.split)
qed

text \<open>
  C8. The alert engine refines a three-phase machine: seen through its phases, one step of the engine is one step of the abstract machine for its own subject and
  nothing for every other, so after any sequence of observations of all subjects the phase of each is what the abstract machine computes from its own
  observations alone.
\<close>

theorem engine_refines_phases:
  "phase_of key (fold observe obs d) =
     fold (\<lambda>ob. if ob_key ob = key then next_phase (dget (rules_mem d) (fst key)) (ob_bad ob) (ob_now ob) else id) obs (phase_of key d)"
proof (induction obs arbitrary: d)
  case (Cons ob obs)
  obtain kind sid sub where k: "ob_key ob = (kind, sid, sub)" by (cases "ob_key ob")
  have r: "rules_mem (observe ob d) = rules_mem d" by (simp add: k step_rules)
  have "phase_of key (observe ob d) = (if ob_key ob = key then next_phase (dget (rules_mem d) (fst key)) (ob_bad ob) (ob_now ob) (phase_of key d) else phase_of key d)"
    using phase_step [of kind sid sub "ob_bad ob" "ob_value ob" "ob_message ob" "ob_now ob" "ob_quiet ob" d]
      step_other [of key kind sid sub "ob_bad ob" "ob_value ob" "ob_message ob" "ob_now ob" "ob_quiet ob" d] by (auto simp: k phase_of_def)
  then show ?case using Cons.IH [of "observe ob d"] unfolding r by (simp del: observe.simps)
qed simp

end
