(* ===== verification/Rpc.thy ===== *)
theory Rpc
  imports Alerts
begin

text \<open>
  Requests to agents (\<open>hub/icsd_hub/rpc.py\<close>) and the state record of the whole hub. A request is registered
  under a fresh id, its future is resolved by the agent's answer or failed by a disconnect, and the caller
  always removes the id again. \<open>call\<close> is one request seen by its caller: what the agent does is a parameter,
  a function from the trace of requests so far to the outcome of the last one.
\<close>

section \<open>The hub's state\<close>

datatype future = Waiting | Result json | Failure exc

record chk_state =
  ch_next :: rat
  ch_fails :: int
  ch_cert_at :: rat
  ch_cert_days :: "rat option"
  ch_last_at :: "int option"
  ch_last_ok :: "bool option"
  ch_last_ms :: "int option"
  ch_last_code :: "int option"
  ch_last_error :: string

record hub = hub_a +
  futures :: "(string, string \<times> future) dict" \<comment> \<open>request id to the server asked and its future\<close>
  cstate :: "(int, chk_state) dict" \<comment> \<open>state of the URL checks\<close>
  running :: "int list" \<comment> \<open>backup plans with a running task\<close>
  dom_cache :: "(string, rat \<times> json) dict" \<comment> \<open>certificates and sites per server\<close>
  dns_cache :: "(string, rat \<times> json) dict" \<comment> \<open>DNS answers\<close>

definition upd_live :: "string \<Rightarrow> (live \<Rightarrow> live) \<Rightarrow> 'a hub_scheme \<Rightarrow> 'a hub_scheme" where
  \<comment> \<open>mutate the live object of a server, if it is still registered\<close>
  "upd_live sid f d = (case dget (lives d) sid of None \<Rightarrow> d | Some lv \<Rightarrow> d\<lparr>lives := dput sid (f lv) (lives d)\<rparr>)"

section \<open>One request, step by step\<close>

definition caps_mode :: "live \<Rightarrow> json" where
  "caps_mode lv = rget (lv_caps lv) ''mode''"

definition call_refused :: "string \<Rightarrow> 'a hub_l_scheme \<Rightarrow> exc option" where
  "call_refused sid d =
     (case peek sid d of
        None \<Rightarrow> Some (RPCError ''server not connected'' 503)
      | Some lv \<Rightarrow>
          if lv_ws lv = None then Some (RPCError ''server not connected'' 503)
          else if caps_mode lv \<noteq> JStr ''manage'' then Some (RPCError ''monitoring only'' 409)
          else None)"

definition rpc_begin :: "string \<Rightarrow> string \<Rightarrow> 'a hub_scheme \<Rightarrow> ('a hub_scheme, unit) io" where
  "rpc_begin rid sid d =
     (case call_refused sid d of
        Some e \<Rightarrow> (d, Inl e)
      | None \<Rightarrow> (upd_live sid (\<lambda>lv. lv\<lparr>lv_pending := lv_pending lv @ [rid]\<rparr>) (d\<lparr>futures := dput rid (sid, Waiting) (futures d)\<rparr>),
                 Inr ()))"

definition reply_value :: "(json \<Rightarrow> string) \<Rightarrow> json \<Rightarrow> json res" where
  "reply_value rp msg =
     (if truthy (oget msg ''error'') then Inl (RPCError (take 1000 (py_str rp (oget msg ''error''))) 400)
      else Inr (oget msg ''d''))"

datatype wait_end = SendFailed | Expired | Ready

definition rpc_finish :: "(json \<Rightarrow> string) \<Rightarrow> wait_end \<Rightarrow> string \<Rightarrow> string \<Rightarrow> 'a hub_scheme \<Rightarrow> ('a hub_scheme, json) io" where
  "rpc_finish rp w rid sid d =
     (upd_live sid (\<lambda>lv. lv\<lparr>lv_pending := filter (\<lambda>r. r \<noteq> rid) (lv_pending lv)\<rparr>) d,
      case w of
        SendFailed \<Rightarrow> Inl (RPCError ''connection to the agent lost'' 503)
      | Expired \<Rightarrow> Inl (RPCError ''agent did not answer in time'' 504)
      | Ready \<Rightarrow>
          (case dget (futures d) rid of
             Some (s, Result msg) \<Rightarrow> reply_value rp msg
           | Some (s, Failure e) \<Rightarrow> Inl e
           | _ \<Rightarrow> Inl (RPCError ''agent did not answer in time'' 504)))"

fun reply_id :: "(json \<Rightarrow> string) \<Rightarrow> json \<Rightarrow> string" where
  \<comment> \<open>\<open>str(msg.get("id", ""))\<close>\<close>
  "reply_id rp (JObj kvs) = (case map_of kvs ''id'' of None \<Rightarrow> [] | Some v \<Rightarrow> py_str rp v)"
| "reply_id rp _ = []"

definition answer :: "(json \<Rightarrow> string) \<Rightarrow> string \<Rightarrow> json \<Rightarrow> 'a hub_scheme \<Rightarrow> 'a hub_scheme" where
  \<comment> \<open>the agent of \<open>sid\<close> sent a message of kind \<open>res\<close>\<close>
  "answer rp sid msg d =
     (case peek sid d of
        None \<Rightarrow> d
      | Some lv \<Rightarrow>
          let rid = reply_id rp msg in
          if rid \<notin> set (lv_pending lv) then d
          else
            let d1 = upd_live sid (\<lambda>lv. lv\<lparr>lv_pending := filter (\<lambda>r. r \<noteq> rid) (lv_pending lv)\<rparr>) d
            in case dget (futures d1) rid of
                 Some (s, Waiting) \<Rightarrow> d1\<lparr>futures := dput rid (s, Result msg) (futures d1)\<rparr>
               | _ \<Rightarrow> d1)"

definition fail_pending :: "string \<Rightarrow> 'a hub_scheme \<Rightarrow> 'a hub_scheme" where
  \<comment> \<open>the connection of \<open>sid\<close> ended: every waiting future fails\<close>
  "fail_pending sid d =
     (case peek sid d of
        None \<Rightarrow> d
      | Some lv \<Rightarrow>
          upd_live sid (\<lambda>lv. lv\<lparr>lv_pending := []\<rparr>)
            (d\<lparr>futures := map (\<lambda>(r, s, f). (r, s, if r \<in> set (lv_pending lv) \<and> f = Waiting
                 then Failure (RPCError ''connection to the agent lost'' 503) else f)) (futures d)\<rparr>))"

section \<open>Calls as their callers see them\<close>

record rpc_call =
  rc_sid :: string
  rc_op :: string
  rc_args :: "(string, json) dict"

datatype outcome = Answered json | Dropped | TimedOut

type_synonym agent = "rpc_call list \<Rightarrow> outcome"

definition call ::
  "(json \<Rightarrow> string) \<Rightarrow> agent \<Rightarrow> 'a hub_l_scheme \<Rightarrow> string \<Rightarrow> string \<Rightarrow> (string, json) dict \<Rightarrow> rpc_call list \<Rightarrow> rpc_call list \<times> json res" where
  "call rp ag d sid op args tr =
     (case call_refused sid d of
        Some e \<Rightarrow> (tr, Inl e)
      | None \<Rightarrow>
          let tr' = tr @ [\<lparr>rc_sid = sid, rc_op = op, rc_args = args\<rparr>]
          in (tr', case ag tr' of
                     Answered msg \<Rightarrow> reply_value rp msg
                   | Dropped \<Rightarrow> Inl (RPCError ''connection to the agent lost'' 503)
                   | TimedOut \<Rightarrow> Inl (RPCError ''agent did not answer in time'' 504)))"

section \<open>Background jobs\<close>

fun wait_loop :: "json res list \<Rightarrow> nat \<Rightarrow> json res" where
  \<comment> \<open>the list holds what each poll returned, for as long as the deadline allows another poll\<close>
  "wait_loop [] misses = Inl (RPCError ''the job took too long'' 504)"
| "wait_loop (Inl e # rs) misses =
     (case e of
        RPCError m st \<Rightarrow> if st \<in> {503, 504} \<and> misses < 40 then wait_loop rs (misses + 1) else Inl (RPCError m st)
      | _ \<Rightarrow> Inl e)"
| "wait_loop (Inr j # rs) misses =
     (case jget j ''state'' of
        None \<Rightarrow> Inl AttributeError
      | Some st \<Rightarrow> if st \<noteq> JStr ''running'' then Inr j else wait_loop rs 0)"

definition MAX_POLLS :: nat where
  \<comment> \<open>six hours at one poll every three seconds\<close>
  "MAX_POLLS = 7200"

fun polls :: "(json \<Rightarrow> string) \<Rightarrow> agent \<Rightarrow> 'a hub_l_scheme \<Rightarrow> string \<Rightarrow> json \<Rightarrow> nat \<Rightarrow> rpc_call list \<Rightarrow> json res list" where
  "polls rp ag d sid jid 0 tr = []"
| "polls rp ag d sid jid (Suc n) tr =
     (let (tr', r) = call rp ag d sid ''job.status'' [(''id'', jid)] tr in r # polls rp ag d sid jid n tr')"

definition wait_job :: "(json \<Rightarrow> string) \<Rightarrow> agent \<Rightarrow> 'a hub_l_scheme \<Rightarrow> string \<Rightarrow> json \<Rightarrow> rpc_call list \<Rightarrow> json res" where
  "wait_job rp ag d sid jid tr = wait_loop (polls rp ag d sid jid MAX_POLLS tr) 0"

section \<open>Requests and answers\<close>

lemma upd_live_frame [simp]: "futures (upd_live sid f d) = futures d" "events (upd_live sid f d) = events d"
  "astate (upd_live sid f d) = astate d" "servers (upd_live sid f d) = servers d" "rules_mem (upd_live sid f d) = rules_mem d"
  "outbox (upd_live sid f d) = outbox d"
  by (auto simp: upd_live_def split: option.splits)

lemma peek_upd_live: "peek s (upd_live sid f d) = (if s = sid then map_option f (peek sid d) else peek s d)"
  by (auto simp: upd_live_def peek_def dget_dput split: option.splits)

datatype rpc_op = RBegin string string | RAnswer string json | RDisconnect string | RFinish wait_end string string

fun rpc_exec :: "(json \<Rightarrow> string) \<Rightarrow> rpc_op \<Rightarrow> 'a hub_scheme \<Rightarrow> 'a hub_scheme" where
  "rpc_exec rp (RBegin rid sid) d = fst (rpc_begin rid sid d)"
| "rpc_exec rp (RAnswer sid msg) d = answer rp sid msg d"
| "rpc_exec rp (RDisconnect sid) d = fail_pending sid d"
| "rpc_exec rp (RFinish w rid sid) d = fst (rpc_finish rp w rid sid d)"

fun begun :: "rpc_op list \<Rightarrow> string list" where
  "begun [] = []"
| "begun (RBegin rid sid # ops) = rid # begun ops"
| "begun (op # ops) = begun ops"

definition rpc_ok :: "(json \<Rightarrow> string) \<Rightarrow> rpc_op list \<Rightarrow> 'a hub_scheme \<Rightarrow> bool" where
  \<comment> \<open>what holds after the operations \<open>H\<close>\<close>
  "rpc_ok rp H d =
     ((\<forall>sid lv rid. peek sid d = Some lv \<longrightarrow> rid \<in> set (lv_pending lv) \<longrightarrow> (\<exists>f. dget (futures d) rid = Some (sid, f))) \<and>
      (\<forall>rid sid msg. dget (futures d) rid = Some (sid, Result msg) \<longrightarrow> RAnswer sid msg \<in> set H \<and> reply_id rp msg = rid) \<and>
      (\<forall>rid. dget (futures d) rid \<noteq> None \<longrightarrow> rid \<in> set (begun H)))"

lemma begun_append: "begun (xs @ ys) = begun xs @ begun ys"
  by (induction xs rule: begun.induct) auto

lemma rpc_okD:
  assumes "rpc_ok rp H d"
  shows "peek sid d = Some lv \<Longrightarrow> rid \<in> set (lv_pending lv) \<Longrightarrow> \<exists>f. dget (futures d) rid = Some (sid, f)"
    "dget (futures d) rid = Some (sid, Result msg) \<Longrightarrow> RAnswer sid msg \<in> set H \<and> reply_id rp msg = rid"
    "dget (futures d) rid \<noteq> None \<Longrightarrow> rid \<in> set (begun H)"
  using assms unfolding rpc_ok_def by blast+

lemma rpc_okI:
  assumes "\<And>sid lv rid. peek sid d = Some lv \<Longrightarrow> rid \<in> set (lv_pending lv) \<Longrightarrow> \<exists>f. dget (futures d) rid = Some (sid, f)"
    and "\<And>rid sid msg. dget (futures d) rid = Some (sid, Result msg) \<Longrightarrow> RAnswer sid msg \<in> set H \<and> reply_id rp msg = rid"
    and "\<And>rid. dget (futures d) rid \<noteq> None \<Longrightarrow> rid \<in> set (begun H)"
  shows "rpc_ok rp H d"
  unfolding rpc_ok_def using assms by blast

lemma rpc_ok_begin:
  assumes "rpc_ok rp H d" "rid \<notin> set (begun H)"
  shows "rpc_ok rp (H @ [RBegin rid sid]) (fst (rpc_begin rid sid d))"
proof -
  have no: "dget (futures d) rid = None" using rpc_okD(3) [OF assms(1), of rid] assms(2) by (cases "dget (futures d) rid") auto
  have pend: "rid' \<noteq> rid" if "peek s d = Some lv" "rid' \<in> set (lv_pending lv)" for s lv rid'
    using rpc_okD(1) [OF assms(1) that] no by auto
  have pd: "peek s (d\<lparr>futures := x\<rparr>) = peek s d" for s x by (simp add: peek_def)
  show ?thesis
    using assms(1) rpc_okD [OF assms(1)] pend
    unfolding rpc_ok_def [of rp "H @ _"]
    by (auto simp: rpc_begin_def peek_upd_live pd dget_dput begun_append split: option.splits if_splits)
qed

lemma dget_map_vals: "dget (map (\<lambda>(r, s, f). (r, s, g r f)) m) rid = map_option (\<lambda>(s, f). (s, g rid f)) (dget m rid)"
  by (induction m) (auto simp: dget_def)

lemma rpc_ok_mono: "rpc_ok rp H d \<Longrightarrow> rpc_ok rp (H @ [op]) d"
  unfolding rpc_ok_def by (auto simp: begun_append)

lemma rpc_ok_answer:
  assumes "rpc_ok rp H d"
  shows "rpc_ok rp (H @ [RAnswer sid msg]) (answer rp sid msg d)"
proof (cases "peek sid d")
  case None
  with rpc_ok_mono [OF assms] show ?thesis by (simp add: answer_def)
next
  case (Some lv)
  let ?r = "reply_id rp msg"
  let ?d = "upd_live sid (\<lambda>lv. lv\<lparr>lv_pending := filter (\<lambda>r. r \<noteq> ?r) (lv_pending lv)\<rparr>) d"
  have pd: "peek s (d\<lparr>futures := x\<rparr>) = peek s d" for s x and d :: "'a hub_scheme" by (simp add: peek_def)
  show ?thesis
  proof (cases "?r \<in> set (lv_pending lv)")
    case False
    with Some rpc_ok_mono [OF assms] show ?thesis by (simp add: answer_def)
  next
    case True
    then obtain f where f: "dget (futures d) ?r = Some (sid, f)" using rpc_okD(1) [OF assms Some] by blast
    have fil: "rpc_ok rp (H @ [RAnswer sid msg]) ?d"
      using rpc_okD [OF assms] unfolding rpc_ok_def by (auto simp: peek_upd_live begun_append split: if_splits) 
    have "answer rp sid msg d = (if f = Waiting then ?d\<lparr>futures := dput ?r (sid, Result msg) (futures ?d)\<rparr> else ?d)"
      using Some True f by (simp add: answer_def Let_def split: future.split)
    moreover have "rpc_ok rp (H @ [RAnswer sid msg]) (?d\<lparr>futures := dput ?r (sid, Result msg) (futures ?d)\<rparr>)"
    proof (rule rpc_okI)
      fix s l r assume "peek s (?d\<lparr>futures := dput ?r (sid, Result msg) (futures ?d)\<rparr>) = Some l" "r \<in> set (lv_pending l)"
      then have "\<exists>g. dget (futures ?d) r = Some (s, g)" using rpc_okD(1) [OF fil, of s l r] pd by metis
      then show "\<exists>g. dget (futures (?d\<lparr>futures := dput ?r (sid, Result msg) (futures ?d)\<rparr>)) r = Some (s, g)"
        using f by (auto simp: dget_dput)
    next
      fix r s m assume "dget (futures (?d\<lparr>futures := dput ?r (sid, Result msg) (futures ?d)\<rparr>)) r = Some (s, Result m)"
      then show "RAnswer s m \<in> set (H @ [RAnswer sid msg]) \<and> reply_id rp m = r"
        using rpc_okD(2) [OF fil, of r s m] by (auto simp: dget_dput split: if_splits)
    next
      fix r assume "dget (futures (?d\<lparr>futures := dput ?r (sid, Result msg) (futures ?d)\<rparr>)) r \<noteq> None"
      then show "r \<in> set (begun (H @ [RAnswer sid msg]))"
        using rpc_okD(3) [OF fil, of r] rpc_okD(3) [OF fil, of ?r] f by (auto simp: dget_dput split: if_splits)
    qed
    ultimately show ?thesis using fil by simp
  qed
qed

lemma rpc_ok_disconnect:
  assumes "rpc_ok rp H d"
  shows "rpc_ok rp (H @ [RDisconnect sid]) (fail_pending sid d)"
proof (cases "peek sid d")
  case None
  with rpc_ok_mono [OF assms] show ?thesis by (simp add: fail_pending_def)
next
  case (Some lv)
  have pd: "peek s (d\<lparr>futures := x\<rparr>) = peek s d" for s x by (simp add: peek_def)
  define g where "g = (\<lambda>r f. if r \<in> set (lv_pending lv) \<and> f = Waiting then Failure (RPCError ''connection to the agent lost'' 503) else f)"
  have e: "fail_pending sid d = upd_live sid (\<lambda>lv. lv\<lparr>lv_pending := []\<rparr>) (d\<lparr>futures := map (\<lambda>(r, s, f). (r, s, g r f)) (futures d)\<rparr>)"
    using Some by (simp add: fail_pending_def g_def)
  have gr: "g r f = Result m \<longleftrightarrow> f = Result m" for r f m by (auto simp: g_def)
  show ?thesis
  proof (rule rpc_okI)
    fix s l r assume "peek s (fail_pending sid d) = Some l" "r \<in> set (lv_pending l)"
    then have "\<exists>f. dget (futures d) r = Some (s, f)"
      using rpc_okD(1) [OF assms, of s] by (auto simp: e peek_upd_live pd split: if_splits)
    then show "\<exists>f. dget (futures (fail_pending sid d)) r = Some (s, f)" by (auto simp: e dget_map_vals)
  next
    fix r s m assume "dget (futures (fail_pending sid d)) r = Some (s, Result m)"
    then show "RAnswer s m \<in> set (H @ [RDisconnect sid]) \<and> reply_id rp m = r"
      using rpc_okD(2) [OF assms, of r s m] by (auto simp: e dget_map_vals gr)
  next
    fix r assume "dget (futures (fail_pending sid d)) r \<noteq> None"
    then show "r \<in> set (begun (H @ [RDisconnect sid]))"
      using rpc_okD(3) [OF assms, of r] by (auto simp: e dget_map_vals begun_append)
  qed
qed

lemma rpc_ok_finish:
  assumes "rpc_ok rp H d"
  shows "rpc_ok rp (H @ [RFinish w rid sid]) (fst (rpc_finish rp w rid sid d))"
  using rpc_okD [OF assms] unfolding rpc_ok_def
  by (auto simp: rpc_finish_def peek_upd_live begun_append split: if_splits)

lemma rpc_run_ok:
  assumes "rpc_ok rp [] d" and "distinct (begun ops)"
  shows "rpc_ok rp ops (fold (rpc_exec rp) ops d)"
  using assms(2)
proof (induction ops rule: rev_induct)
  case Nil
  with assms(1) show ?case by simp
next
  case (snoc op ops)
  have IH: "rpc_ok rp ops (fold (rpc_exec rp) ops d)" using snoc by (simp add: begun_append)
  show ?case
    using snoc.prems rpc_ok_begin [OF IH] rpc_ok_answer [OF IH] rpc_ok_disconnect [OF IH] rpc_ok_finish [OF IH]
    by (cases op) (auto simp: begun_append)
qed

text \<open>
  C12. Answers reach the right caller: with fresh request ids, whatever agents send and whenever connections
  break, a request is only ever resolved by an answer that carries its id and came from the very server it was
  sent to; an agent cannot answer another server's request.
\<close>

theorem answers_only_from_asked_agent:
  assumes "futures d = []" and "\<And>sid lv. peek sid d = Some lv \<Longrightarrow> lv_pending lv = []" and "distinct (begun ops)"
    and "dget (futures (fold (rpc_exec rp) ops d)) rid = Some (sid, Result msg)"
  shows "RAnswer sid msg \<in> set ops \<and> reply_id rp msg = rid \<and> rid \<in> set (begun ops)"
proof -
  have "rpc_ok rp [] d" using assms(1,2) by (auto simp: rpc_ok_def)
  from rpc_okD [OF rpc_run_ok [OF this assms(3)]] assms(4) show ?thesis by blast
qed

section \<open>Patience\<close>

fun transient :: "json res \<Rightarrow> bool" where
  "transient (Inl (RPCError m st)) = (st \<in> {503, 504})"
| "transient _ = False"

fun still_running :: "json res \<Rightarrow> bool" where
  "still_running (Inr j) = (jget j ''state'' = Some (JStr ''running''))"
| "still_running _ = False"

fun gaps_ok :: "json res list \<Rightarrow> nat \<Rightarrow> bool" where
  \<comment> \<open>never more than 40 lost polls in a row\<close>
  "gaps_ok [] k = True"
| "gaps_ok (r # rs) k = (if transient r then k < 40 \<and> gaps_ok rs (k + 1) else still_running r \<and> gaps_ok rs 0)"

text \<open>
  Waiting for a background job survives a reconnecting agent: as long as at most 40 polls in a row are lost,
  the first answer that reports the job as no longer running is returned.
\<close>

theorem wait_job_patient:
  assumes "gaps_ok ps k" and "jget j ''state'' = Some st" and "st \<noteq> JStr ''running''"
  shows "wait_loop (ps @ Inr j # rest) k = Inr j"
  using assms(1)
proof (induction ps k rule: gaps_ok.induct)
  case 1
  with assms(2,3) show ?case by simp
next
  case (2 r rs k)
  then show ?case
    by (cases r rule: transient.cases) (auto split: if_splits)
qed

text \<open>
  The other way round: a result is always the last poll's answer, and more than 40 lost polls in a row end the wait.
\<close>

lemma wait_loop_result: "wait_loop rs k = Inr j \<Longrightarrow> Inr j \<in> set rs \<and> jget j ''state'' \<noteq> Some (JStr ''running'')"
proof (induction rs k rule: wait_loop.induct)
  case (2 e rs misses)
  then show ?case by (auto split: exc.splits if_splits)
qed (auto split: option.splits if_splits)

section \<open>Closed examples\<close>

definition demo_hub :: hub where
  "demo_hub = hub_a.extend demo_hub_a \<lparr>futures = [], cstate = [], running = [], dom_cache = [], dns_cache = []\<rparr>
     \<lparr>lives := [(''s1'', (new_live ''s1'')\<lparr>lv_ws := Some 1, lv_caps := [(''mode'', JStr ''manage'')]\<rparr>)]\<rparr>"

theorem answers_only_from_asked_agent_witness:
  "dget (futures (fold (rpc_exec demo_rp) [RBegin ''r1'' ''s1'', RAnswer ''s1'' (JObj [(''id'', JStr ''r1'')])] demo_hub)) ''r1''
     = Some (''s1'', Result (JObj [(''id'', JStr ''r1'')])) \<and>
   RAnswer ''s1'' (JObj [(''id'', JStr ''r1'')]) \<in> set [RBegin ''r1'' ''s1'', RAnswer ''s1'' (JObj [(''id'', JStr ''r1'')])]"
proof -
  let ?ops = "[RBegin ''r1'' ''s1'', RAnswer ''s1'' (JObj [(''id'', JStr ''r1'')])]"
  have f: "futures demo_hub = []" by code_simp
  have p: "lv_pending lv = []" if "peek sid demo_hub = Some lv" for sid lv
    using that by (auto simp: peek_def dget_def demo_hub_def hub_a.defs new_live_def split: if_splits)
  have r: "dget (futures (fold (rpc_exec demo_rp) ?ops demo_hub)) ''r1'' = Some (''s1'', Result (JObj [(''id'', JStr ''r1'')]))"
    by code_simp
  from answers_only_from_asked_agent [OF f p _ r] r show ?thesis by simp
qed

theorem wait_job_patient_witness:
  "wait_loop ([Inl (RPCError ''lost'' 503), Inr (JObj [(''state'', JStr ''running'')])] @ Inr (JObj [(''state'', JStr ''done'')]) # []) 0
   = Inr (JObj [(''state'', JStr ''done'')])"
  by (rule wait_job_patient [of _ _ _ "JStr ''done''"]) simp_all

end
