(* ===== verification/Agents.thy ===== *)
theory Agents
  imports Rpc
begin

text \<open>
  Servers, enrollment and the agents' WebSocket (\<open>hub/icsd_hub/agents.py\<close>), and the server routes of \<open>api.py\<close>.
  A connection is a number; accepting it, each message and its end are separate steps. Random ids, tokens
  and secrets are arguments. \<open>jl\<close> is the length of a dict's JSON text, which the hub cuts at 4000
  characters. Deleting a server applies the schema's \<open>ON DELETE\<close> clauses.
\<close>

section \<open>Servers\<close>

definition MAX_MESSAGE :: nat where
  "MAX_MESSAGE = 4 * 1024 * 1024"

definition ENROLL_TTL :: int where
  "ENROLL_TTL = 24 * 3600"

definition new_server_id :: "string \<Rightarrow> string" where
  \<comment> \<open>from seven random characters of the alphabet\<close>
  "new_server_id rnd = CHR ''s'' # rnd"

record server_view =
  vw_id :: string
  vw_name :: string
  vw_created :: int
  vw_host :: "(string, json) dict"
  vw_agent_version :: "string option"
  vw_last_seen :: "int option"
  vw_last_ip :: "string option"
  vw_notes :: string
  vw_enrolled :: bool
  vw_enroll_expires :: "int option"

definition load_host :: "host_text option \<Rightarrow> (string, json) dict res" where
  \<comment> \<open>\<open>json.loads(host_json or "{}")\<close>\<close>
  "load_host h = (case h of None \<Rightarrow> Inr [] | Some (Whole kvs) \<Rightarrow> Inr kvs | Some Cut \<Rightarrow> Inl (ValueError ''invalid JSON''))"

definition get_server :: "int \<Rightarrow> string \<Rightarrow> 'a db_scheme \<Rightarrow> server_view res" where
  \<comment> \<open>\<open>server_row\<close>\<close>
  "get_server now sid d =
     (case select_one (\<lambda>r. sv_id r = sid) (servers d) of
        None \<Rightarrow> Inl (HTTPException 404 ''server not found'')
      | Some r \<Rightarrow>
          (case load_host (sv_host r) of
             Inl e \<Rightarrow> Inl e
           | Inr host \<Rightarrow>
               Inr \<lparr>vw_id = sv_id r, vw_name = sv_name r, vw_created = sv_created r, vw_host = host,
                    vw_agent_version = sv_agent_version r, vw_last_seen = sv_last_seen r, vw_last_ip = sv_last_ip r,
                    vw_notes = sv_notes r, vw_enrolled = (sv_secret_hash r \<noteq> None),
                    vw_enroll_expires = (case sv_enroll_expires r of None \<Rightarrow> None
                       | Some t \<Rightarrow> if t \<noteq> 0 \<and> t < now then None else Some t)\<rparr>))"

definition create_server ::
  "crypto \<Rightarrow> int \<Rightarrow> string \<Rightarrow> string \<Rightarrow> string \<Rightarrow> 'a db_scheme \<Rightarrow> ('a db_scheme, server_view \<times> string) io" where
  "create_server cr now rnd tok name d =
     (let nm = take 60 (strip name); sid = new_server_id rnd in
      if nm = [] then (d, Inl (HTTPException 400 ''a name is required''))
      else if select_one (\<lambda>r. sv_id r = sid) (servers d) \<noteq> None then (d, Inl (ValueError ''UNIQUE constraint failed: servers.id''))
      else
        let d' = d\<lparr>servers := servers d @ [\<lparr>sv_id = sid, sv_name = nm, sv_created = now, sv_enroll_hash = Some (sha256 cr tok),
                     sv_enroll_expires = Some (now + ENROLL_TTL), sv_secret_hash = None, sv_host = None,
                     sv_agent_version = None, sv_last_seen = None, sv_last_ip = None, sv_notes = []\<rparr>]\<rparr>
        in (d', case get_server now sid d' of Inl e \<Rightarrow> Inl e | Inr v \<Rightarrow> Inr (v, tok)))"

definition new_enroll_token :: "crypto \<Rightarrow> int \<Rightarrow> string \<Rightarrow> string \<Rightarrow> 'a db_scheme \<Rightarrow> ('a db_scheme, string) io" where
  "new_enroll_token cr now tok sid d =
     (if select_one (\<lambda>r. sv_id r = sid) (servers d) = None then (d, Inl (HTTPException 404 ''server not found''))
      else (d\<lparr>servers := update_where (\<lambda>r. sv_id r = sid)
                (\<lambda>r. r\<lparr>sv_enroll_hash := Some (sha256 cr tok), sv_enroll_expires := Some (now + ENROLL_TTL)\<rparr>) (servers d)\<rparr>, Inr tok))"

definition domains_forget :: "string \<Rightarrow> 'a hub_scheme \<Rightarrow> 'a hub_scheme" where
  "domains_forget sid d = d\<lparr>dom_cache := ddel sid (dom_cache d)\<rparr>"

definition delete_server_row :: "string \<Rightarrow> 'a db_scheme \<Rightarrow> 'a db_scheme" where
  \<comment> \<open>\<open>DELETE FROM servers\<close> with its cascades\<close>
  "delete_server_row sid d =
     (let gone = (\<lambda>i. \<exists>p \<in> set (backup_plans d). pl_server p = sid \<and> pl_id p = i) in
      d\<lparr>servers := delete_where (\<lambda>r. sv_id r = sid) (servers d),
        backup_runs := update_where (\<lambda>r. case rn_plan r of None \<Rightarrow> False | Some i \<Rightarrow> gone i) (\<lambda>r. r\<lparr>rn_plan := None\<rparr>) (backup_runs d),
        backup_plans := delete_where (\<lambda>p. pl_server p = sid) (backup_plans d)\<rparr>)"

definition delete_server :: "string \<Rightarrow> rat \<Rightarrow> 'a hub_scheme \<Rightarrow> 'a hub_scheme" where
  "delete_server sid now d =
     (let d1 = domains_forget sid (forget_server sid now (live_forget sid d));
          d2 = d1\<lparr>samples_1m := delete_where (\<lambda>r. sm_server r = sid) (samples_1m d1),
                  samples_1h := delete_where (\<lambda>r. sm_server r = sid) (samples_1h d1)\<rparr>
      in delete_server_row sid d2)"

definition install_command :: "string \<Rightarrow> string \<Rightarrow> string" where
  "install_command base tok = ''curl -fsSL '' @ base @ ''/install.sh | sudo bash -s -- --token '' @ tok"

definition base_url :: "config \<Rightarrow> request \<Rightarrow> string" where
  "base_url cfg rq = (if public_url cfg \<noteq> [] then public_url cfg
     else rstrip_char (CHR ''/'') (rq_scheme rq @ ''://'' @ rq_netloc rq @ ''/''))"

section \<open>Enrollment\<close>

fun scalar :: "json \<Rightarrow> bool" where
  \<comment> \<open>\<open>isinstance(v, (str, int, float))\<close>\<close>
  "scalar (JStr s) = True"
| "scalar (JInt i) = True"
| "scalar (JBool b) = True"
| "scalar (JFloat f) = True"
| "scalar _ = False"

definition host_json :: "((string, json) dict \<Rightarrow> nat) \<Rightarrow> (string, json) dict \<Rightarrow> host_text" where
  \<comment> \<open>\<open>json.dumps(host)[:4000]\<close>\<close>
  "host_json jl host = (if jl host \<le> 4000 then Whole host else Cut)"

definition enroll ::
  "(json \<Rightarrow> string) \<Rightarrow> ((string, json) dict \<Rightarrow> nat) \<Rightarrow> crypto \<Rightarrow> config \<Rightarrow> int \<Rightarrow> request \<Rightarrow> string \<Rightarrow> string \<Rightarrow> (string, json) dict \<Rightarrow> string
   \<Rightarrow> 'a db_scheme \<Rightarrow> ('a db_scheme, string \<times> string \<times> int) io" where
  "enroll rp jl cr cfg now rq secret token host0 version d =
     (let ip = client_ip rq in
      if 10 \<le> length (filter (\<lambda>f. f_ip f = ip \<and> f_username f = ''~enroll'' \<and> now - 900 < f_ts f) (login_fail d))
      then (d, Inl (HTTPException 429 ''too many attempts''))
      else
        let row = select_one (\<lambda>r. sv_enroll_hash r = Some (sha256 cr (strip token))) (servers d);
            denied = (fail now ip ''~enroll'' d, Inl (HTTPException 403 ''token invalid or expired''))
        in case row of
             None \<Rightarrow> denied
           | Some r \<Rightarrow>
               if (case sv_enroll_expires r of None \<Rightarrow> 0 | Some t \<Rightarrow> t) < now then denied
               else
                 let host = filter (\<lambda>kv. scalar (snd kv)) host0;
                     d1 = d\<lparr>servers := update_where (\<lambda>x. sv_id x = sv_id r)
                            (\<lambda>x. x\<lparr>sv_secret_hash := Some (sha256 cr secret), sv_enroll_hash := None, sv_enroll_expires := None,
                                  sv_host := Some (host_json jl host), sv_agent_version := Some (take 20 version), sv_last_ip := Some ip\<rparr>)
                            (servers d)\<rparr>
                 in (audit now None ''agent.enroll'' (sv_id r @ '' '' @ (case dget host ''hostname'' of None \<Rightarrow> [] | Some v \<Rightarrow> py_str rp v)) (Some ip) d1,
                     Inr (sv_id r, secret, sample_interval cfg)))"

section \<open>The agent socket\<close>

definition partition_at :: "char \<Rightarrow> string \<Rightarrow> string \<times> string" where
  \<comment> \<open>\<open>s.partition(c)\<close> without the separator\<close>
  "partition_at c s = (takeWhile (\<lambda>x. x \<noteq> c) s, drop 1 (dropWhile (\<lambda>x. x \<noteq> c) s))"

definition authenticate :: "crypto \<Rightarrow> string \<Rightarrow> 'a db_scheme \<Rightarrow> string option" where
  "authenticate cr header d =
     (if \<not> startswith header ''Bearer '' \<or> CHR '':'' \<notin> set header then None
      else
        let (sid, secret) = partition_at (CHR '':'') (strip (drop 7 header)) in
        case select_one (\<lambda>r. sv_id r = take 16 sid) (servers d) of
          None \<Rightarrow> None
        | Some r \<Rightarrow>
            (case sv_secret_hash r of
               None \<Rightarrow> None
             | Some h \<Rightarrow> if h \<noteq> [] \<and> same (sha256 cr secret) h then Some sid else None))"

definition agent_connect ::
  "crypto \<Rightarrow> nat \<Rightarrow> rat \<Rightarrow> string \<Rightarrow> string \<Rightarrow> string \<Rightarrow> 'a hub_scheme \<Rightarrow> ('a hub_scheme, string \<times> (string, json) dict) io" where
  \<comment> \<open>arguments: connection, clock, \<open>Authorization\<close> header, version header, client address\<close>
  "agent_connect cr ws now header version ip d =
     (case authenticate cr header d of
        None \<Rightarrow> (d, Inl (HTTPException 4401 ''unauthorized''))
      | Some sid \<Rightarrow>
          if sid = [] then (d, Inl (HTTPException 4401 ''unauthorized''))
          else
            let d1 = snd (live_get sid d);
                d2 = upd_live sid (\<lambda>lv. lv\<lparr>lv_ws := Some ws, lv_ip := ip, lv_connected_at := now, lv_version := take 20 version\<rparr>) d1;
                d3 = d2\<lparr>servers := update_where (\<lambda>r. sv_id r = sid)
                        (\<lambda>r. r\<lparr>sv_last_ip := Some ip, sv_agent_version := Some (take 20 version)\<rparr>) (servers d2)\<rparr>
            in (d3, case load_host (case select_one (\<lambda>r. sv_id r = sid) (servers d3) of None \<Rightarrow> None | Some r \<Rightarrow> sv_host r) of
                      Inl e \<Rightarrow> Inl e
                    | Inr host \<Rightarrow> Inr (sid, host)))"

definition py_int :: "json \<Rightarrow> int res" where
  \<comment> \<open>\<open>int(v)\<close>\<close>
  "py_int v = (case v of
     JInt i \<Rightarrow> Inr i
   | JBool b \<Rightarrow> Inr (if b then 1 else 0)
   | JFloat (Fin x) \<Rightarrow> Inr (py_trunc x)
   | JFloat NaN \<Rightarrow> Inl (ValueError ''cannot convert float NaN to integer'')
   | JFloat f \<Rightarrow> Inl OverflowError
   | JStr s \<Rightarrow> (case int_of_str s of Some i \<Rightarrow> Inr i | None \<Rightarrow> Inl (ValueError ''invalid literal for int()''))
   | _ \<Rightarrow> Inl TypeError)"

definition host_cpus :: "(string, json) dict \<Rightarrow> int res" where
  "host_cpus host = (let v = rget host ''cpus'' in py_int (if truthy v then v else JInt 1))"

definition on_sample ::
  "(json \<Rightarrow> string) \<Rightarrow> rat \<Rightarrow> string \<Rightarrow> (string, json) dict \<Rightarrow> (string, json) dict \<Rightarrow> 'a hub_scheme \<Rightarrow> ('a hub_scheme, unit) io" where
  "on_sample rp now sid host raw d =
     (case peek sid d of
        None \<Rightarrow> (d, Inl (ValueError ''connection closed''))
      | Some lv \<Rightarrow>
          let (lv', d1, r) = ingest rp now raw lv d; d2 = d1\<lparr>lives := dput sid lv' (lives d1)\<rparr>
          in case r of
               Inl e \<Rightarrow> (d2, Inl e)
             | Inr s \<Rightarrow> (case host_cpus host of Inl e \<Rightarrow> (d2, Inl e) | Inr n \<Rightarrow> evaluate_sample sid s n now d2))"

definition on_hello ::
  "((string, json) dict \<Rightarrow> nat) \<Rightarrow> string \<Rightarrow> (string, json) dict \<Rightarrow> (string, json) dict \<Rightarrow> 'a hub_scheme \<Rightarrow> 'a hub_scheme \<times> (string, json) dict" where
  "on_hello jl sid msg host0 d =
     (let host = filter (\<lambda>kv. scalar (snd kv)) host0;
          d1 = d\<lparr>servers := update_where (\<lambda>r. sv_id r = sid) (\<lambda>r. r\<lparr>sv_host := Some (host_json jl host)\<rparr>) (servers d)\<rparr>
      in (upd_live sid (\<lambda>lv. lv\<lparr>lv_caps := (case rget msg ''caps'' of JObj c \<Rightarrow> c | _ \<Rightarrow> [(''mode'', JStr ''monitor'')])\<rparr>) d1, host))"

definition agent_message ::
  "(json \<Rightarrow> string) \<Rightarrow> ((string, json) dict \<Rightarrow> nat) \<Rightarrow> rat \<Rightarrow> string \<Rightarrow> (string, json) dict \<Rightarrow> nat \<Rightarrow> json option
   \<Rightarrow> 'a hub_scheme \<Rightarrow> 'a hub_scheme \<times> (string, json) dict \<times> unit res" where
  \<comment> \<open>one turn of the receive loop: text length, parsed text; returns the handler's \<open>host\<close> too\<close>
  "agent_message rp jl now sid host len parsed d =
     (if MAX_MESSAGE < len then (d, host, Inr ())
      else case parsed of
             Some (JObj msg) \<Rightarrow>
               (case (rget msg ''t'', rget msg ''d'', rget msg ''host'') of
                  (JStr k, dv, hv) \<Rightarrow>
                    if k = ''m'' then
                      (case dv of JObj raw \<Rightarrow> (let (d', r) = on_sample rp now sid host raw d in (d', host, r)) | _ \<Rightarrow> (d, host, Inr ()))
                    else if k = ''res'' then (answer rp sid (JObj msg) d, host, Inr ())
                    else if k = ''hello'' then
                      (case hv of JObj h \<Rightarrow> (let (d', host') = on_hello jl sid msg h d in (d', host', Inr ())) | _ \<Rightarrow> (d, host, Inr ()))
                    else (d, host, Inr ())
                | _ \<Rightarrow> (d, host, Inr ()))
           | _ \<Rightarrow> (d, host, Inr ()))"

definition agent_disconnect :: "nat \<Rightarrow> rat \<Rightarrow> string \<Rightarrow> 'a hub_scheme \<Rightarrow> 'a hub_scheme" where
  \<comment> \<open>the \<open>finally\<close> clause of the socket handler\<close>
  "agent_disconnect ws now sid d =
     (case peek sid d of
        None \<Rightarrow> d
      | Some lv \<Rightarrow>
          if lv_ws lv \<noteq> Some ws then d
          else
            let d1 = upd_live sid (\<lambda>lv. lv\<lparr>lv_ws := None\<rparr>) (fail_pending sid d)
            in if select_one (\<lambda>r. sv_id r = sid) (servers d1) = None then d1
               else case peek sid d1 of
                      None \<Rightarrow> d1
                    | Some lv1 \<Rightarrow>
                        let (lv2, d2) = flush lv1 d1;
                            d3 = d2\<lparr>lives := dput sid lv2 (lives d2)\<rparr>
                        in d3\<lparr>servers := update_where (\<lambda>r. sv_id r = sid)
                                (\<lambda>r. r\<lparr>sv_last_seen := Some (py_trunc (if lv_last_ts lv2 = 0 then now else lv_last_ts lv2))\<rparr>) (servers d3)\<rparr>)"

section \<open>Server routes\<close>

definition api_add_server ::
  "crypto \<Rightarrow> config \<Rightarrow> int \<Rightarrow> request \<Rightarrow> string \<Rightarrow> string \<Rightarrow> string \<Rightarrow> 'a db_scheme \<Rightarrow> ('a db_scheme, server_view \<times> string) io" where
  "api_add_server cr cfg now rq rnd tok name =
     depends (elevated cr cfg now rq) (\<lambda>u d.
       if name = [] \<or> 60 < length name then (d, Inl (HTTPException 422 ''validation''))
       else case create_server cr now rnd tok name d of
              (d', Inl e) \<Rightarrow> (d', Inl e)
            | (d', Inr (srv, t)) \<Rightarrow>
                (audit now (Some (us_username u)) ''server.add'' (vw_id srv @ '' '' @ vw_name srv) (Some (client_ip rq)) d',
                 Inr (srv, install_command (base_url cfg rq) t)))"

definition api_edit_server ::
  "crypto \<Rightarrow> config \<Rightarrow> int \<Rightarrow> request \<Rightarrow> string \<Rightarrow> string option \<Rightarrow> string option \<Rightarrow> 'a db_scheme \<Rightarrow> ('a db_scheme, server_view) io" where
  "api_edit_server cr cfg now rq sid name notes =
     depends (admin cr cfg now rq) (\<lambda>u d.
       if (case name of None \<Rightarrow> False | Some n \<Rightarrow> 60 < length n) \<or> (case notes of None \<Rightarrow> False | Some n \<Rightarrow> 2000 < length n)
       then (d, Inl (HTTPException 422 ''validation''))
       else case get_server now sid d of
              Inl e \<Rightarrow> (d, Inl e)
            | Inr _ \<Rightarrow>
                let d1 = (case name of None \<Rightarrow> d | Some n \<Rightarrow> if strip n = [] then d
                            else d\<lparr>servers := update_where (\<lambda>r. sv_id r = sid) (\<lambda>r. r\<lparr>sv_name := strip n\<rparr>) (servers d)\<rparr>);
                    d2 = (case notes of None \<Rightarrow> d1
                            | Some n \<Rightarrow> d1\<lparr>servers := update_where (\<lambda>r. sv_id r = sid) (\<lambda>r. r\<lparr>sv_notes := n\<rparr>) (servers d1)\<rparr>)
                in (d2, get_server now sid d2))"

definition api_reenroll ::
  "crypto \<Rightarrow> config \<Rightarrow> int \<Rightarrow> request \<Rightarrow> string \<Rightarrow> string \<Rightarrow> 'a db_scheme \<Rightarrow> ('a db_scheme, string \<times> int) io" where
  "api_reenroll cr cfg now rq tok sid =
     depends (elevated cr cfg now rq) (\<lambda>u d.
       case new_enroll_token cr now tok sid d of
         (d', Inl e) \<Rightarrow> (d', Inl e)
       | (d', Inr t) \<Rightarrow>
           (audit now (Some (us_username u)) ''server.token'' sid (Some (client_ip rq)) d',
            Inr (install_command (base_url cfg rq) t, now + ENROLL_TTL)))"

definition api_remove_server ::
  "crypto \<Rightarrow> config \<Rightarrow> int \<Rightarrow> request \<Rightarrow> string \<Rightarrow> 'a hub_scheme \<Rightarrow> ('a hub_scheme, unit) io" where
  "api_remove_server cr cfg now rq sid =
     depends (elevated cr cfg now rq) (\<lambda>u d.
       case get_server now sid d of
         Inl e \<Rightarrow> (d, Inl e)
       | Inr v \<Rightarrow>
           (audit now (Some (us_username u)) ''server.delete'' (sid @ '' '' @ vw_name v) (Some (client_ip rq))
              (delete_server sid (of_int now) d), Inr ()))"

section \<open>Enrollment is single use\<close>

lemma update_where_cases:
  assumes "y \<in> set (update_where p f rows)"
  obtains (hit) x where "x \<in> set rows" "p x" "y = f x" | (miss) "y \<in> set rows" "\<not> p y"
  using assms unfolding set_update_where by (elim imageE) (simp split: if_splits)

lemma select_one_by_key:
  assumes "c \<in> key ` set rows"
  obtains y where "select_one (\<lambda>r. key r = c) rows = Some y"
  using assms by (cases "select_one (\<lambda>r. key r = c) rows") (auto simp: select_one_None)

lemma update_where_all:
  assumes "\<And>x. x \<in> set rows \<Longrightarrow> p x \<Longrightarrow> P (f x)" "\<And>x. x \<in> set rows \<Longrightarrow> \<not> p x \<Longrightarrow> P x"
  shows "\<forall>y \<in> set (update_where p f rows). P y"
  using assms by (auto simp: set_update_where)

definition enrolled_row :: "crypto \<Rightarrow> string \<Rightarrow> host_text \<Rightarrow> string \<Rightarrow> string \<Rightarrow> server_row \<Rightarrow> server_row" where
  "enrolled_row cr secret h ver ip x = x\<lparr>sv_secret_hash := Some (sha256 cr secret), sv_enroll_hash := None,
     sv_enroll_expires := None, sv_host := Some h, sv_agent_version := Some (take 20 ver), sv_last_ip := Some ip\<rparr>"

lemma enrolled_row_frame [simp]: "sv_id (enrolled_row cr secret h ver ip x) = sv_id x"
  "sv_enroll_hash (enrolled_row cr secret h ver ip x) = None"
  "sv_secret_hash (enrolled_row cr secret h ver ip x) = Some (sha256 cr secret)"
  by (simp_all add: enrolled_row_def)

lemma enroll_Inr:
  assumes "enroll rp jl cr cfg now rq secret tok host ver d = (d1, Inr (sid, s, iv))"
  obtains r h where "select_one (\<lambda>r. sv_enroll_hash r = Some (sha256 cr (strip tok))) (servers d) = Some r" "sid = sv_id r" "s = secret"
    "servers d1 = update_where (\<lambda>x. sv_id x = sid) (enrolled_row cr secret h ver (client_ip rq)) (servers d)"
proof (cases "10 \<le> length (filter (\<lambda>f. f_ip f = client_ip rq \<and> f_username f = ''~enroll'' \<and> now - 900 < f_ts f) (login_fail d))")
  case True
  with assms show ?thesis by (simp add: enroll_def)
next
  case False
  show ?thesis
  proof (cases "select_one (\<lambda>r. sv_enroll_hash r = Some (sha256 cr (strip tok))) (servers d)")
    case None
    with assms False show ?thesis by (simp add: enroll_def)
  next
    case (Some r)
    have "\<not> (case sv_enroll_expires r of None \<Rightarrow> 0 | Some t \<Rightarrow> t) < now"
    proof
      assume "(case sv_enroll_expires r of None \<Rightarrow> 0 | Some t \<Rightarrow> t) < now"
      with assms False Some show False by (simp add: enroll_def)
    qed
    with assms False Some have e: "sid = sv_id r" "s = secret"
      "servers d1 = update_where (\<lambda>x. sv_id x = sv_id r) (enrolled_row cr secret (host_json jl (filter (\<lambda>kv. scalar (snd kv)) host)) ver (client_ip rq)) (servers d)"
      by (auto simp: enroll_def Let_def enrolled_row_def [abs_def])
    show ?thesis by (rule that [OF Some]) (use e in simp_all)
  qed
qed

text \<open>
  The token in an install command is worthless once used: after it enrolled a server, presenting it again,
  from anywhere and at any time, is refused.
\<close>

theorem enroll_token_single_use:
  assumes "enroll rp jl cr cfg now rq secret tok host ver d = (d1, Inr (sid, s, iv))"
    and "\<And>a b. a \<in> set (servers d) \<Longrightarrow> b \<in> set (servers d) \<Longrightarrow> sv_enroll_hash a = sv_enroll_hash b \<Longrightarrow> sv_enroll_hash a \<noteq> None
      \<Longrightarrow> sv_id a = sv_id b"
  shows "\<exists>st m. snd (enroll rp jl cr cfg now' rq' secret' tok host' ver' d1) = Inl (HTTPException st m)"
proof -
  from assms(1) obtain r h where r: "select_one (\<lambda>r. sv_enroll_hash r = Some (sha256 cr (strip tok))) (servers d) = Some r" "sid = sv_id r"
    and s1: "servers d1 = update_where (\<lambda>x. sv_id x = sid) (enrolled_row cr secret h ver (client_ip rq)) (servers d)"
    by (rule enroll_Inr)
  note r' = select_one_Some [OF r(1)]
  have "sv_enroll_hash y \<noteq> Some (sha256 cr (strip tok))" if "y \<in> set (servers d1)" for y
  proof -
    from that obtain x where x: "x \<in> set (servers d)" "y = (if sv_id x = sid then enrolled_row cr secret h ver (client_ip rq) x else x)"
      by (auto simp: s1 set_update_where)
    show ?thesis
    proof (cases "sv_id x = sid")
      case True
      with x show ?thesis by simp
    next
      case False
      with x r' assms(2) [of x r] r(2) show ?thesis by auto
    qed
  qed
  then have n: "select_one (\<lambda>r. sv_enroll_hash r = Some (sha256 cr (strip tok))) (servers d1) = None"
    by (simp add: select_one_None)
  show ?thesis unfolding enroll_def Let_def n by simp
qed

lemma strip_no_space:
  assumes "list_all (\<lambda>c. \<not> is_space c) s"
  shows "strip s = s"
proof -
  have dw: "dropWhile is_space xs = xs" if "list_all (\<lambda>c. \<not> is_space c) xs" for xs
    using that by (cases xs) auto
  show ?thesis using dw [of s] dw [of "rev s"] assms by (simp add: strip_def rstrip_by_def list_all_iff)
qed

definition bearer :: "string \<Rightarrow> string \<Rightarrow> string" where
  "bearer sid secret = ''Bearer '' @ sid @ '':'' @ secret"

lemma authenticate_bearer:
  assumes "list_all (\<lambda>c. \<not> is_space c) (sid @ secret)" "CHR '':'' \<notin> set sid" "length sid \<le> 16"
  shows "authenticate cr (bearer sid secret) d =
    (case select_one (\<lambda>r. sv_id r = sid) (servers d) of
       None \<Rightarrow> None
     | Some r \<Rightarrow> (case sv_secret_hash r of None \<Rightarrow> None | Some h \<Rightarrow> if h \<noteq> [] \<and> sha256 cr secret = h then Some sid else None))"
proof -
  have colon: "\<not> is_space (CHR '':'')" by code_simp
  have st: "strip (sid @ CHR '':'' # secret) = sid @ CHR '':'' # secret"
    using assms(1) colon by (intro strip_no_space) simp
  have p: "partition_at (CHR '':'') (sid @ CHR '':'' # secret) = (sid, secret)"
    using assms(2) by (simp add: partition_at_def takeWhile_append dropWhile_append)
  show ?thesis
    using assms(3) by (simp add: authenticate_def bearer_def startswith_def st p same_def split: option.split)
qed

text \<open>
  Enrollment hands out a working identity and revokes the old one: the secret it returns authenticates the agent
  as exactly that server, and no secret with another digest does, so a re-install locks the previous
  agent out.
\<close>

theorem enroll_then_authenticate:
  assumes "enroll rp jl cr cfg now rq secret tok host ver d = (d1, Inr (sid, s, iv))"
    and "list_all (\<lambda>c. \<not> is_space c) (sid @ secret)" and "CHR '':'' \<notin> set sid" and "length sid \<le> 16" and "sha256 cr secret \<noteq> []"
    and "list_all (\<lambda>c. \<not> is_space c) other" and "sha256 cr other \<noteq> sha256 cr secret"
  shows "authenticate cr (bearer sid s) d1 = Some sid \<and> authenticate cr (bearer sid other) d1 = None"
proof -
  from assms(1) obtain r h where r: "select_one (\<lambda>r. sv_enroll_hash r = Some (sha256 cr (strip tok))) (servers d) = Some r" "sid = sv_id r" "s = secret"
    and s1: "servers d1 = update_where (\<lambda>x. sv_id x = sid) (enrolled_row cr secret h ver (client_ip rq)) (servers d)"
    by (rule enroll_Inr)
  have "map sv_id (servers d1) = map sv_id (servers d)" unfolding s1 by (rule map_update_where) simp
  then have "sv_id ` set (servers d1) = sv_id ` set (servers d)" by (metis set_map)
  then have "sid \<in> sv_id ` set (servers d1)" using select_one_Some [OF r(1)] r(2) by simp
  then obtain x where x: "select_one (\<lambda>r. sv_id r = sid) (servers d1) = Some x" by (rule select_one_by_key)
  from select_one_Some [OF x] have "x \<in> set (servers d1)" "sv_id x = sid" by simp_all
  then have k: "sv_secret_hash x = Some (sha256 cr secret)" unfolding s1 by (elim update_where_cases) simp_all
  have sp: "list_all (\<lambda>c. \<not> is_space c) (sid @ other)" using assms(2,6) by simp
  have "authenticate cr (bearer sid s) d1 = Some sid"
    unfolding authenticate_bearer [OF assms(2-4)] r(3) using x k assms(5) by simp
  moreover have "authenticate cr (bearer sid other) d1 = None"
    unfolding authenticate_bearer [OF sp assms(3,4)] using x k assms(7) by simp
  ultimately show ?thesis ..
qed

section \<open>A deleted server is gone\<close>

text \<open>
  C10. Deleting a server removes every trace that could act or alert: no agent can authenticate as it, its live
  state and history are gone, its backup plans are deleted with it, and it has neither open events nor pending
  alert state, while the state stays consistent.
\<close>

theorem deleted_server_gone:
  assumes "alert_ok (astate d) (events d)" and "d1 = delete_server sid now d"
  shows "(authenticate cr header d1 = Some x \<longrightarrow> take 16 x \<noteq> sid) \<and> peek sid d1 = None \<and> (\<forall>r \<in> set (samples_1m d1 @ samples_1h d1). sm_server r \<noteq> sid)
      \<and> (\<forall>p \<in> set (backup_plans d1). pl_server p \<noteq> sid)
      \<and> (\<forall>e \<in> set (events d1). ev_server e = sid \<longrightarrow> ev_ended e \<noteq> None)
      \<and> (\<forall>kind sub. dget (astate d1) (kind, sid, sub) = None) \<and> alert_ok (astate d1) (events d1)"
proof -
  let ?f = "forget_server sid now (live_forget sid d)"
  have inv: "alert_inv ?f" by (rule forget_server_inv) (use assms(1) in \<open>simp add: live_forget_def\<close>)
  have e: "events d1 = events ?f" "astate d1 = astate ?f" "lives d1 = lives ?f"
    by (simp_all add: assms(2) delete_server_def delete_server_row_def domains_forget_def Let_def)
  have m: "dget (astate ?f) (kind, sid, sub) = None" for kind sub
    by (auto simp: forget_server_def live_forget_def pydict.get_fold_del set_dkeys domIff)
  have s: "\<forall>r \<in> set (servers d1). sv_id r \<noteq> sid"
    by (simp add: assms(2) delete_server_def delete_server_row_def Let_def)
  have a: "take 16 x \<noteq> sid" if "authenticate cr header d1 = Some x"
    using that s by (auto simp: authenticate_def Let_def split: if_splits prod.splits option.splits dest!: select_one_Some)
  have p: "peek sid d1 = None" by (simp add: peek_def e forget_server_def live_forget_def dget_ddel)
  have o: "\<forall>e \<in> set (events d1). ev_server e = sid \<longrightarrow> ev_ended e \<noteq> None"
    unfolding e(1) forget_server_def live_forget_def by (simp, rule update_where_all) simp_all
  have rows: "\<forall>r \<in> set (samples_1m d1 @ samples_1h d1). sm_server r \<noteq> sid" "\<forall>p \<in> set (backup_plans d1). pl_server p \<noteq> sid"
    by (auto simp: assms(2) delete_server_def delete_server_row_def Let_def)
  show ?thesis using a p rows o m inv e by simp
qed

section \<open>An overlong host description\<close>

text \<open>
  The hub cuts the stored host description at 4000 characters, which breaks its JSON: after an agent said hello
  with a longer one, every view of that server raises instead of answering, and the agent's next connection
  fails although it authenticates, leaving the dead connection registered.
\<close>

theorem long_host_breaks_server:
  assumes "select_one (\<lambda>r. sv_id r = sid) (servers d) = Some r"
    and "4000 < jl (filter (\<lambda>kv. scalar (snd kv)) host)" and "on_hello jl sid msg host d = (d1, h)"
    and "authenticate cr header d1 = Some sid" and "sid \<noteq> []"
  shows "get_server now sid d1 = Inl (ValueError ''invalid JSON'') \<and>
    (\<exists>d2 lv. agent_connect cr ws t header ver ip d1 = (d2, Inl (ValueError ''invalid JSON'')) \<and> peek sid d2 = Some lv \<and> lv_ws lv = Some ws)"
proof -
  have sd: "servers d1 = update_where (\<lambda>r. sv_id r = sid) (\<lambda>r. r\<lparr>sv_host := Some (host_json jl (filter (\<lambda>kv. scalar (snd kv)) host))\<rparr>) (servers d)"
    using arg_cong [OF assms(3), of "\<lambda>p. servers (fst p)"] by (simp add: on_hello_def Let_def)
  have cut: "\<forall>x \<in> set (servers d1). sv_id x = sid \<longrightarrow> sv_host x = Some Cut"
    unfolding sd by (rule update_where_all) (use assms(2) in \<open>simp_all add: host_json_def\<close>)
  have ids: "map sv_id (servers d1) = map sv_id (servers d)"
    unfolding sd by (rule map_update_where) simp
  then have "sv_id ` set (servers d1) = sv_id ` set (servers d)" by (metis set_map)
  then have "sid \<in> sv_id ` set (servers d1)" using select_one_Some [OF assms(1)] by auto
  then obtain x where x: "select_one (\<lambda>r. sv_id r = sid) (servers d1) = Some x" by (rule select_one_by_key)
  then have "sv_host x = Some Cut" using cut select_one_Some [OF x] by blast
  with x have g: "get_server now sid d1 = Inl (ValueError ''invalid JSON'')" by (simp add: get_server_def load_host_def)
  let ?d1 = "snd (live_get sid d1)"
  let ?d2 = "upd_live sid (\<lambda>lv. lv\<lparr>lv_ws := Some ws, lv_ip := ip, lv_connected_at := t, lv_version := take 20 ver\<rparr>) ?d1"
  let ?d3 = "?d2\<lparr>servers := update_where (\<lambda>r. sv_id r = sid) (\<lambda>r. r\<lparr>sv_last_ip := Some ip, sv_agent_version := Some (take 20 ver)\<rparr>) (servers ?d2)\<rparr>"
  have sv: "servers ?d1 = servers d1" by (auto simp: live_get_def split: option.split)
  have "\<forall>y \<in> set (servers ?d3). sv_id y = sid \<longrightarrow> sv_host y = Some Cut"
    using update_where_all [of "servers d1" "\<lambda>r. sv_id r = sid" "\<lambda>y. sv_id y = sid \<longrightarrow> sv_host y = Some Cut"
      "\<lambda>r. r\<lparr>sv_last_ip := Some ip, sv_agent_version := Some (take 20 ver)\<rparr>"] cut by (simp add: sv)
  moreover have "map sv_id (servers ?d3) = map sv_id (servers d1)" by (simp add: sv map_update_where)
  then have "sid \<in> sv_id ` set (servers ?d3)" using select_one_Some [OF x] by (metis image_eqI set_map)
  then obtain y where y: "select_one (\<lambda>r. sv_id r = sid) (servers ?d3) = Some y" by (rule select_one_by_key)
  ultimately have yc: "sv_host y = Some Cut" using select_one_Some [OF y] by blast
  obtain lv where lv: "peek sid ?d1 = Some lv" 
    by (cases "dget (lives d1) sid") (simp_all add: live_get_def peek_def dget_dput)
  have "peek sid ?d3 = Some (lv\<lparr>lv_ws := Some ws, lv_ip := ip, lv_connected_at := t, lv_version := take 20 ver\<rparr>)"
    using peek_upd_live [of sid sid _ ?d1] lv by (simp add: peek_def)
  moreover have "agent_connect cr ws t header ver ip d1 = (?d3, Inl (ValueError ''invalid JSON''))"
    using assms(4,5) y yc by (simp add: agent_connect_def load_host_def Let_def)
  ultimately show ?thesis using g by simp
qed

section \<open>Closed examples\<close>

definition demo_server :: "string \<Rightarrow> server_row" where
  \<comment> \<open>a server waiting for its agent, its install token \<open>tok\<close>\<close>
  "demo_server sid = \<lparr>sv_id = sid, sv_name = ''web'', sv_created = 10, sv_enroll_hash = Some (sha256 demo_crypto ''tok''),
     sv_enroll_expires = Some 1000, sv_secret_hash = None, sv_host = None, sv_agent_version = None,
     sv_last_seen = None, sv_last_ip = None, sv_notes = []\<rparr>"

abbreviation demo_enroll where
  "demo_enroll \<equiv> enroll demo_rp length demo_crypto demo_cfg 40 (demo_rq ''POST'' ''x'') ''secret'' ''tok'' [(''hostname'', JStr ''h'')] ''2.0''
     (demo_hub\<lparr>servers := [demo_server ''s1'']\<rparr>)"

theorem enroll_token_single_use_witness:
  "\<exists>d1 iv st m. demo_enroll = (d1, Inr (''s1'', ''secret'', iv)) \<and>
     snd (enroll demo_rp length demo_crypto demo_cfg 50 (demo_rq ''POST'' ''x'') ''other'' ''tok'' [] ''2.0'' d1) = Inl (HTTPException st m)"
proof -
  have e: "demo_enroll = (fst demo_enroll, Inr (''s1'', ''secret'', 5))" by code_simp
  from enroll_token_single_use [OF e, of 50 "demo_rq ''POST'' ''x''" "''other''" "[]" "''2.0''"] e show ?thesis by auto
qed

theorem enroll_then_authenticate_witness:
  "\<exists>d1. demo_enroll = (d1, Inr (''s1'', ''secret'', 5)) \<and> authenticate demo_crypto (bearer ''s1'' ''secret'') d1 = Some ''s1''
     \<and> authenticate demo_crypto (bearer ''s1'' ''zzz'') d1 = None"
proof -
  have e: "demo_enroll = (fst demo_enroll, Inr (''s1'', ''secret'', 5))" by code_simp
  have s: "list_all (\<lambda>c. \<not> is_space c) (''s1'' @ ''secret'')" "list_all (\<lambda>c. \<not> is_space c) ''zzz''"
    "sha256 demo_crypto ''secret'' \<noteq> []" "sha256 demo_crypto ''zzz'' \<noteq> sha256 demo_crypto ''secret''" by code_simp+
  from enroll_then_authenticate [OF e s(1) _ _ s(3,2,4)] e show ?thesis by auto
qed

theorem deleted_server_gone_witness:
  "peek ''s1'' (delete_server ''s1'' 100 (demo_hub\<lparr>servers := [demo_server ''s1'']\<rparr>)) = None \<and> peek ''s1'' demo_hub \<noteq> None"
proof -
  let ?d = "demo_hub\<lparr>servers := [demo_server ''s1'']\<rparr>"
  have ok: "alert_ok (astate ?d) (events ?d)"
    using demo_hub_a_empty by (simp add: demo_hub_def hub_a.defs alert_ok_def dict_ok_def dkeys_def st_open_def ev_open_def)
  have "peek ''s1'' demo_hub \<noteq> None" by code_simp
  with deleted_server_gone [OF ok refl, THEN conjunct2, THEN conjunct1] show ?thesis by (rule conjI)
qed

abbreviation demo_hello where
  "demo_hello \<equiv> on_hello (\<lambda>_. 5000) ''s1'' [] [] (fst demo_enroll)"

theorem long_host_breaks_server_witness:
  "get_server 60 ''s1'' (fst demo_hello) = Inl (ValueError ''invalid JSON'') \<and>
   (\<exists>d2. agent_connect demo_crypto 7 60 (bearer ''s1'' ''secret'') ''2.0'' ''1.2.3.4'' (fst demo_hello) = (d2, Inl (ValueError ''invalid JSON'')))"
proof -
  have a: "authenticate demo_crypto (bearer ''s1'' ''secret'') (fst demo_hello) = Some ''s1''" by code_simp
  have s: "select_one (\<lambda>r. sv_id r = ''s1'') (servers (fst demo_enroll)) = Some (hd (servers (fst demo_enroll)))" by code_simp
  have h: "demo_hello = (fst demo_hello, snd demo_hello)" by simp
  show ?thesis using long_host_breaks_server [OF s _ h a, of 60 7 60 "''2.0''" "''1.2.3.4''"] by simp blast
qed

end
