(* ===== verification/Checks.thy ===== *)
theory Checks
  imports Agents
begin

text \<open>
  URL checks (\<open>hub/icsd_hub/checks.py\<close>) and their routes. The HTTP client and the TLS connection are a record of
  functions: what a \<open>GET\<close> of a check comes to, and the expiry of the certificate a host presents. \<open>brk\<close> says what the
  interpreter's \<open>urlparse\<close> accepts between the brackets of an IPv6 host, which differs between its versions.
  One turn of \<open>run_due\<close> probes all due checks and then records the results one by one.
\<close>

section \<open>urlparse\<close>

definition scheme_char :: "char \<Rightarrow> bool" where
  "scheme_char c = (code c < 128 \<and> (isalnum_char c \<or> c \<in> {CHR ''+'', CHR ''-'', CHR ''.''}))"

definition rpartition_at :: "char \<Rightarrow> string \<Rightarrow> string" where
  \<comment> \<open>\<open>s.rpartition(c)[2]\<close>\<close>
  "rpartition_at c s = rev (takeWhile (\<lambda>x. x \<noteq> c) (rev s))"

definition urlsplit :: "(string \<Rightarrow> bool) \<Rightarrow> string \<Rightarrow> (string \<times> string) res" where
  \<comment> \<open>scheme and netloc\<close>
  "urlsplit brk url =
     (let u = filter (\<lambda>c. c \<notin> {CHR 0x09, CHR 0x0A, CHR 0x0D}) (dropWhile (\<lambda>c. code c \<le> 32) url);
          pre = takeWhile (\<lambda>c. c \<noteq> CHR '':'') u;
          has = (pre \<noteq> [] \<and> length pre < length u \<and> code (hd pre) < 128 \<and> isalpha_char (hd pre) \<and> list_all scheme_char pre);
          rest = (if has then drop (length pre + 1) u else u);
          netloc = (if startswith rest ''//'' then takeWhile (\<lambda>c. c \<notin> {CHR ''/'', CHR ''?'', CHR ''#''}) (drop 2 rest) else [])
      in if (CHR ''['' \<in> set netloc) \<noteq> (CHR '']'' \<in> set netloc) then Inl (ValueError ''Invalid IPv6 URL'')
         else if CHR ''['' \<in> set netloc \<and> \<not> brk netloc then Inl (ValueError ''invalid bracketed host'')
         else Inr (if has then lower pre else [], netloc))"

definition hostinfo :: "string \<Rightarrow> string option \<times> string option" where
  \<comment> \<open>host and port text of a netloc\<close>
  "hostinfo netloc =
     (let hi = rpartition_at (CHR ''@'') netloc;
          (h, p) = (if CHR ''['' \<in> set hi
                    then let (h, r) = partition_at (CHR '']'') (snd (partition_at (CHR ''['') hi)) in (h, snd (partition_at (CHR '':'') r))
                    else partition_at (CHR '':'') hi);
          (a, z) = partition_at (CHR ''%'') h
      in (if h = [] then None else Some (lower a @ (if CHR ''%'' \<in> set h then CHR ''%'' # z else [])),
          if p = [] then None else Some p))"

definition url_port :: "string \<Rightarrow> int option res" where
  "url_port netloc =
     (case snd (hostinfo netloc) of
        None \<Rightarrow> Inr None
      | Some p \<Rightarrow>
          if list_all ascii_digit p \<and> digits_value p \<le> 65535 then Inr (Some (digits_value p))
          else Inl (ValueError ''Port could not be cast to integer value''))"

section \<open>Validation\<close>

record check_form =
  cf_name :: string
  cf_url :: string
  cf_interval :: int
  cf_timeout :: int
  cf_expect :: string
  cf_keyword :: string
  cf_enabled :: bool

definition dflt :: "(string, json) dict \<Rightarrow> string \<Rightarrow> json \<Rightarrow> json" where
  \<comment> \<open>\<open>d.get(k, x)\<close>\<close>
  "dflt d k x = (case dget d k of Some v \<Rightarrow> v | None \<Rightarrow> x)"

definition orv :: "json \<Rightarrow> json \<Rightarrow> json" where
  \<comment> \<open>\<open>v or x\<close>\<close>
  "orv v x = (if truthy v then v else x)"

definition expect_part :: "string \<Rightarrow> bool" where
  "expect_part p = (length p = 3 \<and> (isdigit p \<or> (hd p \<in> set ''12345'' \<and> tl p = ''xx'')))"

definition clamp :: "int \<Rightarrow> int \<Rightarrow> int \<Rightarrow> int" where
  "clamp lo hi v = max lo (min v hi)"

definition validate :: "(json \<Rightarrow> string) \<Rightarrow> (string \<Rightarrow> bool) \<Rightarrow> (string, json) dict \<Rightarrow> check_form res" where
  "validate rp brk data =
     (let url = strip (py_str rp (dflt data ''url'' (JStr []))) in
      rbind (urlsplit brk url) (\<lambda>(scheme, netloc).
        case fst (hostinfo netloc) of
          None \<Rightarrow> Inl (ValueError ''the address must start with http:// or https://'')
        | Some host \<Rightarrow>
            if scheme \<notin> {''http'', ''https''} then Inl (ValueError ''the address must start with http:// or https://'')
            else
              let e0 = remove_char (CHR '' '') (py_str rp (dflt data ''expect'' (JStr ''2xx,3xx'')));
                  ex = (if e0 = [] then ''2xx,3xx'' else e0)
              in if \<not> list_all expect_part (split_on (CHR '','') ex) then Inl (ValueError ''expected code like 200 or 2xx,3xx'')
                 else rbind (py_int (orv (rget data ''interval'') (JInt 60))) (\<lambda>iv.
                      rbind (py_int (orv (rget data ''timeout'') (JInt 10))) (\<lambda>tm.
                      Inr \<lparr>cf_name = take 80 (strip (py_str rp (orv (rget data ''name'') (JStr host)))),
                           cf_url = take 500 url, cf_interval = clamp 30 3600 iv, cf_timeout = clamp 2 60 tm,
                           cf_expect = ex, cf_keyword = take 100 (py_str rp (orv (rget data ''keyword'') (JStr []))),
                           cf_enabled = truthy (dflt data ''enabled'' (JBool True))\<rparr>))))"

section \<open>Probing\<close>

definition status_ok :: "int \<Rightarrow> string \<Rightarrow> bool" where
  "status_ok st ex = list_ex (\<lambda>p. (endswith p ''xx'' \<and> hd (str_int st) = hd p) \<or> p = str_int st) (split_on (CHR '','') ex)"

datatype http_get =
    Response int int string \<comment> \<open>milliseconds, status, text\<close>
  | Timeout
  | ConnectError string
  | HTTPError string string \<comment> \<open>\<open>str(e)\<close> and the class name\<close>
  | OtherError exc \<comment> \<open>an exception that is no \<open>HTTPError\<close>, such as \<open>InvalidURL\<close>\<close>

record net =
  nt_get :: "check_row \<Rightarrow> http_get"
  nt_peer :: "string \<Rightarrow> int \<Rightarrow> int \<Rightarrow> rat res" \<comment> \<open>host, port, timeout: \<open>notAfter\<close> of the certificate\<close>
  nt_clock :: rat
  nt_brk :: "string \<Rightarrow> bool"

record probe_out =
  po_ok :: bool
  po_ms :: "int option"
  po_code :: "int option"
  po_error :: string

definition CERT_EVERY :: rat where
  "CERT_EVERY = 6 * 3600"

definition after_last :: "string \<Rightarrow> string \<Rightarrow> string" where
  \<comment> \<open>\<open>s.split(n)[-1]\<close>\<close>
  "after_last n s =
     (case filter (\<lambda>t. startswith t n) (map (\<lambda>i. drop i s) [0..<length s]) of
        [] \<Rightarrow> s | ts \<Rightarrow> drop (length n) (last ts))"

definition strip_set :: "string \<Rightarrow> string \<Rightarrow> string" where
  \<comment> \<open>\<open>s.strip(cs)\<close>\<close>
  "strip_set cs s = rstrip_by (\<lambda>c. c \<in> set cs) (dropWhile (\<lambda>c. c \<in> set cs) s)"

abbreviation cert_failed :: string where
  "cert_failed \<equiv> ''CERTIFICATE_VERIFY_FAILED''"

definition down :: "string \<Rightarrow> probe_out" where
  "down e = \<lparr>po_ok = False, po_ms = None, po_code = None, po_error = e\<rparr>"

definition connect_error :: "string \<Rightarrow> string" where
  "connect_error msg =
     (if contains msg cert_failed then ''SSL certificate is invalid: '' @ take 200 (strip_set '' ]:()'' (after_last cert_failed msg))
      else if contains msg ''Name or service not known'' \<or> contains msg ''nodename nor servname'' \<or> contains msg ''getaddrinfo''
      then ''domain name not found (DNS)''
      else ''no connection (server down or port closed)'')"

definition probe :: "net \<Rightarrow> check_row \<Rightarrow> probe_out res" where
  "probe net c =
     (case nt_get net c of
        Response ms st body \<Rightarrow>
          (let good = status_ok st (ck_expect c) in
           if good \<and> ck_keyword c \<noteq> [] \<and> \<not> contains body (ck_keyword c)
           then Inr \<lparr>po_ok = False, po_ms = Some ms, po_code = Some st, po_error = ''the page lacks '' @ ck_keyword c\<rparr>
           else Inr \<lparr>po_ok = good, po_ms = Some ms, po_code = Some st, po_error = (if good then [] else ''HTTP '' @ str_int st)\<rparr>)
      | Timeout \<Rightarrow> Inr (down (''no answer within '' @ str_int (ck_timeout c) @ '' seconds''))
      | ConnectError msg \<Rightarrow> Inr (down (connect_error msg))
      | HTTPError s cls \<Rightarrow>
          (let msg = (if s = [] then cls else s);
               msg = (if contains msg cert_failed then ''SSL certificate is invalid: '' @ strip_set '' ]:()'' (after_last cert_failed msg) else msg)
           in Inr (down (take 300 msg)))
      | OtherError e \<Rightarrow> Inl e)"

definition cert_days :: "net \<Rightarrow> string \<Rightarrow> int \<Rightarrow> rat option res" where
  "cert_days net url timeout =
     rbind (urlsplit (nt_brk net) url) (\<lambda>(scheme, netloc).
       case fst (hostinfo netloc) of
         None \<Rightarrow> Inr None
       | Some host \<Rightarrow>
           if scheme \<noteq> ''https'' then Inr None
           else rbind (url_port netloc) (\<lambda>p.
                rbind (nt_peer net host (case p of None \<Rightarrow> 443 | Some n \<Rightarrow> if n = 0 then 443 else n) timeout) (\<lambda>na.
                Inr (Some (py_round 1 ((na - nt_clock net) / 86400))))))"

section \<open>The checking round\<close>

definition due_checks :: "rat \<Rightarrow> 'a hub_scheme \<Rightarrow> check_row list" where
  "due_checks now d = filter (\<lambda>c. ck_enabled c \<and> (case dget (cstate d) (ck_id c) of None \<Rightarrow> 0 | Some st \<Rightarrow> ch_next st) \<le> now) (checks d)"

definition first_state :: "int \<Rightarrow> 'a hub_scheme \<Rightarrow> chk_state" where
  \<comment> \<open>what the round starts from for a check without state\<close>
  "first_state cid d =
     \<lparr>ch_next = 0, ch_fails = (if is_open (''check'', [], str_int cid) d then (case threshold ''check'' d of Inr t \<Rightarrow> py_trunc t | Inl _ \<Rightarrow> 0) else 0), ch_cert_at = 0,
      ch_cert_days = None, ch_last_at = None, ch_last_ok = None, ch_last_ms = None, ch_last_code = None, ch_last_error = []\<rparr>"

definition cert_part :: "net \<Rightarrow> rat \<Rightarrow> check_row \<Rightarrow> chk_state \<Rightarrow> chk_state" where
  "cert_part net now c st =
     (if startswith (ck_url c) ''https://'' \<and> CERT_EVERY < now - ch_cert_at st then
        (case cert_days net (ck_url c) (ck_timeout c) of
           Inl _ \<Rightarrow> st\<lparr>ch_cert_at := now\<rparr>
         | Inr v \<Rightarrow> st\<lparr>ch_cert_at := now, ch_cert_days := v\<rparr>)
      else st)"

definition next_state :: "net \<Rightarrow> rat \<Rightarrow> check_row \<Rightarrow> probe_out \<Rightarrow> chk_state \<Rightarrow> chk_state" where
  "next_state net now c r st =
     cert_part net now c
       (st\<lparr>ch_next := now + of_int (ck_interval c), ch_fails := (if po_ok r then 0 else ch_fails st + 1),
           ch_last_at := Some (py_trunc now), ch_last_ok := Some (po_ok r), ch_last_ms := po_ms r, ch_last_code := po_code r,
           ch_last_error := po_error r\<rparr>)"

definition log_result :: "rat \<Rightarrow> check_row \<Rightarrow> probe_out \<Rightarrow> check_log_row list \<Rightarrow> check_log_row list" where
  \<comment> \<open>\<open>INSERT OR REPLACE INTO check_log\<close>\<close>
  "log_result now c r rows =
     delete_where (\<lambda>l. cl_check_id l = ck_id c \<and> cl_ts l = py_trunc now) rows
     @ [\<lparr>cl_check_id = ck_id c, cl_ts = py_trunc now, cl_ok = po_ok r, cl_ms = po_ms r, cl_code = po_code r, cl_error = po_error r\<rparr>]"

definition record_result :: "net \<Rightarrow> rat \<Rightarrow> check_row \<times> probe_out \<Rightarrow> 'a hub_scheme \<Rightarrow> 'a hub_scheme" where
  "record_result net now cr d =
     (let (c, r) = cr;
          st0 = (case dget (cstate d) (ck_id c) of Some st \<Rightarrow> st | None \<Rightarrow> first_state (ck_id c) d);
          st = next_state net now c r st0;
          d1 = d\<lparr>cstate := dput (ck_id c) st (cstate d), check_log := log_result now c r (check_log d)\<rparr>
      in evaluate_check (ck_id c) (ck_name c) (ck_url c) (ch_fails st) (po_error r) (ch_cert_days st) now d1)"

definition run_due :: "net \<Rightarrow> rat \<Rightarrow> 'a hub_scheme \<Rightarrow> ('a hub_scheme, unit) io" where
  "run_due net now d =
     (let due = due_checks now d in
      case mapM (probe net) due of
        Inl e \<Rightarrow> (d, Inl e)
      | Inr rs \<Rightarrow> (fold (record_result net now) (zip due rs) d, Inr ()))"

definition checks_forget :: "int \<Rightarrow> rat \<Rightarrow> 'a hub_scheme \<Rightarrow> 'a hub_scheme" where
  "checks_forget cid now d =
     step ''cert'' [] (str_int cid) False 0 [] now True
       (step ''check'' [] (str_int cid) False 0 [] now True (d\<lparr>cstate := ddel cid (cstate d)\<rparr>))"

definition edited :: "int \<Rightarrow> bool \<Rightarrow> rat \<Rightarrow> 'a hub_scheme \<Rightarrow> 'a hub_scheme" where
  "edited cid enabled now d =
     (if \<not> enabled then checks_forget cid now d
      else case dget (cstate d) cid of
             None \<Rightarrow> d
           | Some st \<Rightarrow> d\<lparr>cstate := dput cid (st\<lparr>ch_next := 0, ch_cert_at := 0\<rparr>) (cstate d)\<rparr>)"

section \<open>Views and routes\<close>

record check_view =
  cv_row :: check_row
  cv_state :: "chk_state option"
  cv_uptime :: "rat option"
  cv_avg_ms :: "int option"

definition checks_view :: "int \<Rightarrow> 'a hub_scheme \<Rightarrow> check_view list" where
  "checks_view now d =
     map (\<lambda>c. let rows = filter (\<lambda>l. cl_check_id l = ck_id c \<and> now - 86400 \<le> cl_ts l) (check_log d);
                  mss = map the (filter (\<lambda>x. x \<noteq> None) (map cl_ms rows))
              in \<lparr>cv_row = c, cv_state = dget (cstate d) (ck_id c),
                  cv_uptime = (if rows = [] then None
                               else Some (py_round 2 (average (map (\<lambda>l. if cl_ok l then 1 else 0) rows) * 100))),
                  cv_avg_ms = (if mss = [] then None else Some (py_trunc (average (map of_int mss))))\<rparr>)
       (sort_key ck_id (checks d))"

record log_out =
  lo_t :: "int list"
  lo_ms :: "int option list"
  lo_ok :: "bool list"
  lo_errors :: "check_log_row list"

definition log_of :: "int \<Rightarrow> int \<Rightarrow> int \<Rightarrow> 'a db_scheme \<Rightarrow> log_out" where
  "log_of now cid hours d =
     (let rows = sort_key cl_ts (filter (\<lambda>l. cl_check_id l = cid \<and> now - hours * 3600 \<le> cl_ts l) (check_log d));
          bad = filter (\<lambda>l. \<not> cl_ok l) rows
      in \<lparr>lo_t = map cl_ts rows, lo_ms = map cl_ms rows, lo_ok = map cl_ok rows, lo_errors = drop (length bad - 50) bad\<rparr>)"

definition api_list_checks :: "crypto \<Rightarrow> config \<Rightarrow> int \<Rightarrow> request \<Rightarrow> 'a hub_scheme \<Rightarrow> ('a hub_scheme, check_view list) io" where
  "api_list_checks cr cfg now rq = depends (current_user cr cfg now rq) (\<lambda>u d. (d, Inr (checks_view now d)))"

definition api_check_log :: "crypto \<Rightarrow> config \<Rightarrow> int \<Rightarrow> request \<Rightarrow> int \<Rightarrow> int \<Rightarrow> 'a hub_scheme \<Rightarrow> ('a hub_scheme, log_out) io" where
  "api_check_log cr cfg now rq cid hours =
     depends (current_user cr cfg now rq) (\<lambda>u d. (d, Inr (log_of now cid (clamp 1 (24 * 30) hours) d)))"

fun bad_request :: "exc \<Rightarrow> exc" where
  \<comment> \<open>\<open>except (ValueError, TypeError)\<close>\<close>
  "bad_request (ValueError m) = HTTPException 400 m"
| "bad_request TypeError = HTTPException 400 ''TypeError''"
| "bad_request e = e"

definition api_add_check ::
  "(json \<Rightarrow> string) \<Rightarrow> (string \<Rightarrow> bool) \<Rightarrow> crypto \<Rightarrow> config \<Rightarrow> int \<Rightarrow> request \<Rightarrow> (string, json) dict \<Rightarrow> 'a hub_scheme \<Rightarrow> ('a hub_scheme, int \<times> check_view list) io" where
  "api_add_check rp brk cr cfg now rq content =
     depends (elevated cr cfg now rq) (\<lambda>u d.
       case validate rp brk content of
         Inl e \<Rightarrow> (d, Inl (bad_request e))
       | Inr c \<Rightarrow>
           (let cid = next_rowid (map ck_id (checks d));
                d1 = d\<lparr>checks := checks d @ [\<lparr>ck_id = cid, ck_name = cf_name c, ck_url = cf_url c, ck_interval = cf_interval c,
                         ck_timeout = cf_timeout c, ck_expect = cf_expect c, ck_keyword = cf_keyword c, ck_enabled = cf_enabled c,
                         ck_created = now\<rparr>]\<rparr>;
                d2 = audit now (Some (us_username u)) ''check.add'' (cf_url c) (Some (client_ip rq)) d1
            in (d2, Inr (cid, checks_view now d2))))"

definition api_edit_check ::
  "(json \<Rightarrow> string) \<Rightarrow> (string \<Rightarrow> bool) \<Rightarrow> crypto \<Rightarrow> config \<Rightarrow> int \<Rightarrow> request \<Rightarrow> int \<Rightarrow> (string, json) dict \<Rightarrow> 'a hub_scheme \<Rightarrow> ('a hub_scheme, check_view list) io" where
  "api_edit_check rp brk cr cfg now rq cid content =
     depends (elevated cr cfg now rq) (\<lambda>u d.
       if select_one (\<lambda>c. ck_id c = cid) (checks d) = None then (d, Inl (HTTPException 404 ''not found''))
       else case validate rp brk content of
              Inl e \<Rightarrow> (d, Inl (bad_request e))
            | Inr c \<Rightarrow>
                (let d1 = d\<lparr>checks := update_where (\<lambda>r. ck_id r = cid)
                            (\<lambda>r. r\<lparr>ck_name := cf_name c, ck_url := cf_url c, ck_interval := cf_interval c, ck_timeout := cf_timeout c,
                                  ck_expect := cf_expect c, ck_keyword := cf_keyword c, ck_enabled := cf_enabled c\<rparr>) (checks d)\<rparr>;
                     d2 = edited cid (cf_enabled c) (of_int now) d1
                 in (d2, Inr (checks_view now d2))))"

definition api_remove_check ::
  "crypto \<Rightarrow> config \<Rightarrow> int \<Rightarrow> request \<Rightarrow> int \<Rightarrow> 'a hub_scheme \<Rightarrow> ('a hub_scheme, check_view list) io" where
  "api_remove_check cr cfg now rq cid =
     depends (elevated cr cfg now rq) (\<lambda>u d.
       let d1 = d\<lparr>checks := delete_where (\<lambda>c. ck_id c = cid) (checks d),
                  check_log := delete_where (\<lambda>l. cl_check_id l = cid) (check_log d)\<rparr>;
           d2 = checks_forget cid (of_int now) d1;
           d3 = audit now (Some (us_username u)) ''check.delete'' (str_int cid) (Some (client_ip rq)) d2
       in (d3, Inr (checks_view now d3)))"

section \<open>What validation guarantees\<close>

text \<open>
  Every stored check is safe to run: its interval is between 30 seconds and an hour, its timeout between 2 and 60 seconds,
  every expected status has three characters, and the texts are capped, whatever the request said.
\<close>

theorem validate_bounds:
  assumes "validate rp brk data = Inr c"
  shows "30 \<le> cf_interval c \<and> cf_interval c \<le> 3600 \<and> 2 \<le> cf_timeout c \<and> cf_timeout c \<le> 60
    \<and> length (cf_name c) \<le> 80 \<and> length (cf_url c) \<le> 500 \<and> length (cf_keyword c) \<le> 100
    \<and> (\<forall>p \<in> set (split_on (CHR '','') (cf_expect c)). length p = 3)"
proof -
  from assms obtain sn where "urlsplit brk (strip (py_str rp (dflt data ''url'' (JStr [])))) = Inr sn"
    by (cases "urlsplit brk (strip (py_str rp (dflt data ''url'' (JStr []))))") (auto simp: validate_def rbind_def)
  with assms show ?thesis
    by (auto simp: validate_def Let_def rbind_Inr clamp_def list_all_iff expect_part_def split: prod.splits option.splits if_splits)
qed

section \<open>Decimal texts are unique\<close>

lemma digits_value_snoc: "digits_value (s @ [c]) = digits_value s * 10 + (int (code c) - 48)"
  by (simp add: digits_value_def)

lemma code_digit: "0 \<le> n \<Longrightarrow> n < 10 \<Longrightarrow> int (code (char_of (48 + nat n))) = 48 + n"
  by (simp add: code_def)

lemma digits_value_digits10: "0 \<le> n \<Longrightarrow> digits_value (digits10 n) = n"
proof (induction n rule: digits10.induct)
  case (1 n)
  show ?case
  proof (cases "n < 10")
    case True
    then have "digits10 n = [char_of (48 + nat n)]" by (subst digits10.simps) simp
    with 1(2) True show ?thesis using code_digit [of n] by (simp add: digits_value_def)
  next
    case False
    then have "digits_value (digits10 (n div 10)) = n div 10" using 1 by simp
    moreover have "digits10 n = digits10 (n div 10) @ [char_of (48 + nat (n mod 10))]" using False by (subst digits10.simps) simp
    ultimately show ?thesis using code_digit [of "n mod 10"] by (simp add: digits_value_snoc)
  qed
qed

lemma hd_digits10: "0 \<le> n \<Longrightarrow> digits10 n \<noteq> [] \<and> hd (digits10 n) \<noteq> CHR ''-''"
proof (induction n rule: digits10.induct)
  case (1 n)
  show ?case
  proof (cases "n < 10")
    case True
    then have "digits10 n = [char_of (48 + nat n)]" by (subst digits10.simps) simp
    moreover have "code (char_of (48 + nat n)) \<noteq> code (CHR ''-'')" using True 1 code_digit [of n] by (simp add: code_def)
    ultimately show ?thesis by auto
  next
    case False
    then have "digits10 n = digits10 (n div 10) @ [char_of (48 + nat (n mod 10))]" by (subst digits10.simps) simp
    with 1 False show ?thesis by simp
  qed
qed

lemma str_int_inj: "str_int i = str_int j \<longleftrightarrow> i = j"
proof
  assume e: "str_int i = str_int j"
  consider "i < 0" "j < 0" | "i < 0" "0 \<le> j" | "0 \<le> i" "j < 0" | "0 \<le> i" "0 \<le> j" by linarith
  then show "i = j"
  proof cases
    case 1
    with e have "digits10 (- i) = digits10 (- j)" by (simp add: str_int_def)
    from arg_cong [OF this, of digits_value] 1 show ?thesis by (simp add: digits_value_digits10)
  next
    case 2
    with e have "digits10 j = CHR ''-'' # digits10 (- i)" by (simp add: str_int_def)
    with 2 hd_digits10 [of j] show ?thesis by simp
  next
    case 3
    with e have "digits10 i = CHR ''-'' # digits10 (- j)" by (simp add: str_int_def)
    with 3 hd_digits10 [of i] show ?thesis by simp
  next
    case 4
    with e have "digits10 i = digits10 j" by (simp add: str_int_def)
    from arg_cong [OF this, of digits_value] 4 show ?thesis by (simp add: digits_value_digits10)
  qed
qed simp

section \<open>Counting failures\<close>

definition round_op :: "net \<Rightarrow> rat \<times> check_row \<times> probe_out \<Rightarrow> 'a hub_scheme \<Rightarrow> 'a hub_scheme" where
  "round_op net x = record_result net (fst x) (snd x)"

definition results_of :: "int \<Rightarrow> (rat \<times> check_row \<times> probe_out) list \<Rightarrow> probe_out list" where
  "results_of cid xs = map (snd \<circ> snd) (filter (\<lambda>x. ck_id (fst (snd x)) = cid) xs)"

definition trailing_failures :: "probe_out list \<Rightarrow> int" where
  "trailing_failures rs = int (length (takeWhile (\<lambda>r. \<not> po_ok r) (rev rs)))"

lemma trailing_failures_snoc [simp]:
  "trailing_failures [] = 0" "trailing_failures (rs @ [r]) = (if po_ok r then 0 else trailing_failures rs + 1)"
  by (simp_all add: trailing_failures_def)

lemma results_of_snoc:
  "results_of cid [] = []" "results_of cid (xs @ [x]) = (if ck_id (fst (snd x)) = cid then results_of cid xs @ [snd (snd x)] else results_of cid xs)"
  by (simp_all add: results_of_def)

lemma step_cstate [simp]: "cstate (step kind sid sub bad v msg now q d) = cstate d" for d :: "'a hub_scheme"
  by (auto simp: step_def open_event_def close_event_def fire_def Let_def split: option.splits prod.splits)

lemma evaluate_check_frame [simp]:
  "cstate (evaluate_check cid name url fails err cert now d) = cstate d"
  "rules_mem (evaluate_check cid name url fails err cert now d) = rules_mem d" for d :: "'a hub_scheme"
  by (auto simp: evaluate_check_def Let_def step_rules split: option.splits)

lemma evaluate_check_astate:
  assumes "dget (rules_mem d) ''check'' = Some r" "ru_enabled r"
  shows "dget (astate (evaluate_check cid name url fails err cert now d)) (''check'', [], sub) =
    (if sub = str_int cid
     then dget (astate (step ''check'' [] sub (ru_threshold r \<le> of_int fails) (of_int fails) (name @ '' ('' @ url @ '')\<newline>'' @ err) now False d)) (''check'', [], sub)
     else dget (astate d) (''check'', [], sub))"
  using assms by (auto simp: evaluate_check_def Let_def step_other split: option.splits)

lemma next_state_fails [simp]: "ch_fails (next_state net now c r st) = (if po_ok r then 0 else ch_fails st + 1)"
  by (simp add: next_state_def cert_part_def split: sum.split)

lemma record_result_frame [simp]:
  "rules_mem (record_result net now cr d) = rules_mem d"
  "cid \<noteq> ck_id (fst cr) \<Longrightarrow> dget (cstate (record_result net now cr d)) cid = dget (cstate d) cid" for d :: "'a hub_scheme"
  by (cases cr, simp add: record_result_def Let_def dget_dput)+

lemma record_result_other:
  assumes "dget (rules_mem d) ''check'' = Some r" "ru_enabled r" "cid \<noteq> ck_id (fst cr)"
  shows "dget (astate (record_result net now cr d)) (''check'', [], str_int cid) = dget (astate d) (''check'', [], str_int cid)"
  using assms by (cases cr) (simp add: record_result_def Let_def evaluate_check_astate str_int_inj)

definition settled :: "akey \<Rightarrow> 'a hub_a_scheme \<Rightarrow> bool" where
  "settled key d = (dget (astate d) key = None \<or> is_open key d)"

lemma same_key:
  assumes "dget (astate d') key = dget (astate d) key"
  shows "settled key d' = settled key d" "is_open key d' = is_open key d"
  using assms by (simp_all add: settled_def is_open_def)

lemma step_settled:
  assumes "dget (rules_mem d) kind = Some r" "ru_enabled r" "ru_for_s r = 0" "settled (kind, sid, sub) d"
  shows "settled (kind, sid, sub) (step kind sid sub bad v msg now q d)
    \<and> (is_open (kind, sid, sub) (step kind sid sub bad v msg now q d) \<longleftrightarrow> bad)"
proof (cases bad)
  case True
  with step_bad [OF assms(1,2), of sid sub v msg now q] assms(3,4) show ?thesis
    by (auto simp: settled_def is_open_def split: option.splits)
next
  case False
  then show ?thesis by (simp add: settled_def is_open_def step_false_gone)
qed

lemma evaluate_check_open:
  assumes "dget (rules_mem d) ''check'' = Some r" "ru_enabled r" "ru_for_s r = 0" "settled (''check'', [], str_int cid) d"
  shows "settled (''check'', [], str_int cid) (evaluate_check cid name url fails err cert now d)
    \<and> (is_open (''check'', [], str_int cid) (evaluate_check cid name url fails err cert now d) \<longleftrightarrow> ru_threshold r \<le> of_int fails)"
proof -
  have "dget (astate (evaluate_check cid name url fails err cert now d)) (''check'', [], str_int cid) =
    dget (astate (step ''check'' [] (str_int cid) (ru_threshold r \<le> of_int fails) (of_int fails) (name @ '' ('' @ url @ '')\<newline>'' @ err) now False d))
      (''check'', [], str_int cid)"
    by (simp add: evaluate_check_astate [OF assms(1,2)])
  from same_key [OF this] step_settled [OF assms] show ?thesis by blast
qed

definition prior :: "check_row \<Rightarrow> 'a hub_scheme \<Rightarrow> chk_state" where
  "prior c d = (case dget (cstate d) (ck_id c) of Some st \<Rightarrow> st | None \<Rightarrow> first_state (ck_id c) d)"

lemma record_result_eq:
  "record_result net now (c, p) d =
    (let st = next_state net now c p (prior c d) in
     evaluate_check (ck_id c) (ck_name c) (ck_url c) (ch_fails st) (po_error p) (ch_cert_days st) now
       (d\<lparr>cstate := dput (ck_id c) st (cstate d), check_log := log_result now c p (check_log d)\<rparr>))"
  by (simp only: record_result_def prior_def Let_def prod.case)

lemma record_result_own:
  assumes "dget (rules_mem d) ''check'' = Some r" "ru_enabled r" "ru_for_s r = 0" "settled (''check'', [], str_int (ck_id c)) d"
  shows "\<exists>st. dget (cstate (record_result net now (c, p) d)) (ck_id c) = Some st
    \<and> ch_fails st = (if po_ok p then 0 else ch_fails (prior c d) + 1)
    \<and> settled (''check'', [], str_int (ck_id c)) (record_result net now (c, p) d)
    \<and> (is_open (''check'', [], str_int (ck_id c)) (record_result net now (c, p) d) \<longleftrightarrow> ru_threshold r \<le> of_int (ch_fails st))"
proof -
  define st where "st = next_state net now c p (prior c d)"
  define d1 where "d1 = d\<lparr>cstate := dput (ck_id c) st (cstate d), check_log := log_result now c p (check_log d)\<rparr>"
  have "dget (rules_mem d1) ''check'' = Some r" using assms(1) by (simp add: d1_def)
  moreover have "settled (''check'', [], str_int (ck_id c)) d1" using assms(4) by (simp add: settled_def is_open_def d1_def)
  ultimately have "settled (''check'', [], str_int (ck_id c)) (evaluate_check (ck_id c) (ck_name c) (ck_url c) (ch_fails st) (po_error p) (ch_cert_days st) now d1)
    \<and> (is_open (''check'', [], str_int (ck_id c)) (evaluate_check (ck_id c) (ck_name c) (ck_url c) (ch_fails st) (po_error p) (ch_cert_days st) now d1)
         \<longleftrightarrow> ru_threshold r \<le> of_int (ch_fails st))"
    using assms(2,3) by (intro evaluate_check_open)
  moreover have "record_result net now (c, p) d =
      evaluate_check (ck_id c) (ck_name c) (ck_url c) (ch_fails st) (po_error p) (ch_cert_days st) now d1"
    unfolding record_result_eq Let_def st_def d1_def ..
  moreover have "dget (cstate d1) (ck_id c) = Some st" by (simp add: d1_def dget_dput)
  moreover have "ch_fails st = (if po_ok p then 0 else ch_fails (prior c d) + 1)" by (simp add: st_def)
  ultimately show ?thesis by simp
qed


section \<open>Restart\<close>

text \<open>
  A restart of the hub is no recovery: when the alert of a check is open and the first probe after the restart
  fails again, the same event stays open. The counter starts at the threshold for this purpose.
\<close>

theorem restart_is_no_recovery:
  assumes "dget (rules_mem d) ''check'' = Some r" "ru_enabled r" "0 \<le> ru_threshold r"
    and "dget (cstate d) (ck_id c) = None" and "dget (astate d) (''check'', [], str_int (ck_id c)) = Some st" and "as_event st = Some eid"
    and "\<not> po_ok p"
  shows "\<exists>st'. dget (astate (record_result net now (c, p) d)) (''check'', [], str_int (ck_id c)) = Some st' \<and> as_event st' = Some eid"
proof -
  let ?key = "(''check'', [], str_int (ck_id c))"
  define cs where "cs = next_state net now c p (prior c d)"
  define d1 where "d1 = d\<lparr>cstate := dput (ck_id c) cs (cstate d), check_log := log_result now c p (check_log d)\<rparr>"
  have "threshold ''check'' d = Inr (ru_threshold r)" using assms(1) by (simp add: threshold_def)
  then have "ch_fails cs = py_trunc (ru_threshold r) + 1"
    using assms(4-7) by (simp add: cs_def prior_def first_state_def is_open_def)
  then have bad: "ru_threshold r \<le> of_int (ch_fails cs)" using py_trunc_le [OF assms(3)] by simp
  have r1: "dget (rules_mem d1) ''check'' = Some r" and a1: "dget (astate d1) ?key = Some st" using assms(1,5) by (simp_all add: d1_def)
  have e: "record_result net now (c, p) d = evaluate_check (ck_id c) (ck_name c) (ck_url c) (ch_fails cs) (po_error p) (ch_cert_days cs) now d1"
    unfolding record_result_eq Let_def cs_def d1_def ..
  show ?thesis
    unfolding e evaluate_check_astate [OF r1 assms(2)] using bad a1 assms(6)
    by (simp add: step_bad_eq [OF r1 _ assms(2)] Let_def dget_dput)
qed

section \<open>One unusable address\<close>

text \<open>
  One check can stop all of them: if the request of any due check raises something that is no HTTP error (a URL with an
  invalid port, say), the whole round is abandoned. Nothing is recorded for any check, none is rescheduled, and
  so the next round fails the same way.
\<close>

theorem bad_url_stops_all_checks:
  assumes "c \<in> set (due_checks now d)" and "nt_get net c = OtherError e" and "now \<le> later"
  shows "\<exists>e'. run_due net now d = (d, Inl e') \<and> c \<in> set (due_checks later d)"
proof -
  have "\<exists>e'. mapM (probe net) cs = Inl e'" if "c \<in> set cs" for cs
    using that
  proof (induction cs)
    case (Cons x cs)
    then show ?case using assms(2) by (cases "probe net x") (auto simp: rbind_def probe_def)
  qed simp
  with assms(1) obtain e' where "mapM (probe net) (due_checks now d) = Inl e'" by blast
  then have "run_due net now d = (d, Inl e')" by (simp add: run_due_def)
  moreover have "c \<in> set (due_checks later d)" using assms(1,3) by (auto simp: due_checks_def)
  ultimately show ?thesis by blast
qed

section \<open>Deleting a check\<close>

lemma checks_forget_gone:
  "dget (cstate (checks_forget cid now d)) cid = None"
  "dget (astate (checks_forget cid now d)) (''check'', [], str_int cid) = None"
  "dget (astate (checks_forget cid now d)) (''cert'', [], str_int cid) = None"
  by (simp_all add: checks_forget_def dget_ddel step_false_gone step_other)

lemma checks_forget_inv: "alert_inv d \<Longrightarrow> alert_inv (checks_forget cid now d)"
  unfolding checks_forget_def by (intro step_inv) simp

lemma step_tables [simp]:
  "checks (step kind sid sub bad v msg now q d) = checks d" "check_log (step kind sid sub bad v msg now q d) = check_log d"
  by (auto simp: step_def open_event_def close_event_def fire_def Let_def split: option.splits prod.splits)

text \<open>
  Deleting a check ends it: afterwards the check, its log, its counter and both its alerts are gone, and no message
  claims that the address recovered.
\<close>

theorem removed_check_is_gone:
  assumes "elevated cr cfg now rq d = (d1, Inr u)" and "api_remove_check cr cfg now rq cid d = (d2, Inr v)"
  shows "(\<forall>c \<in> set (checks d2). ck_id c \<noteq> cid) \<and> (\<forall>l \<in> set (check_log d2). cl_check_id l \<noteq> cid) \<and> dget (cstate d2) cid = None
    \<and> dget (astate d2) (''check'', [], str_int cid) = None \<and> dget (astate d2) (''cert'', [], str_int cid) = None \<and> outbox d2 = outbox d1"
proof -
  let ?e = "d1\<lparr>checks := delete_where (\<lambda>c. ck_id c = cid) (checks d1), check_log := delete_where (\<lambda>l. cl_check_id l = cid) (check_log d1)\<rparr>"
  have d2: "d2 = audit now (Some (us_username u)) ''check.delete'' (str_int cid) (Some (client_ip rq)) (checks_forget cid (of_int now) ?e)"
    using assms by (simp add: api_remove_check_def depends_def Let_def)
  have q: "outbox (step k s b False x m t True d) = outbox d" for k s b x m t and d :: "'a hub_scheme"
    by (cases "dget (astate d) (k, s, b)") (auto simp: step_good_eq Let_def close_event_def split: option.splits)
  have "checks (checks_forget cid (of_int now) ?e) = checks ?e" "check_log (checks_forget cid (of_int now) ?e) = check_log ?e"
    by (simp_all add: checks_forget_def)
  moreover have "outbox (checks_forget cid (of_int now) ?e) = outbox d1" by (simp add: checks_forget_def q)
  ultimately show ?thesis unfolding d2 using checks_forget_gone [of cid "of_int now" ?e] by (simp add: audit_def)
qed

section \<open>Closed examples\<close>

definition demo_check :: "int \<Rightarrow> check_row" where
  "demo_check i = \<lparr>ck_id = i, ck_name = ''site'', ck_url = ''http://a.ir'', ck_interval = 60, ck_timeout = 10, ck_expect = ''2xx,3xx'',
     ck_keyword = [], ck_enabled = True, ck_created = 0\<rparr>"

definition demo_net :: net where
  "demo_net = \<lparr>nt_get = (\<lambda>c. if ck_id c = 2 then OtherError (ValueError ''Invalid port'') else Response 5 500 []),
     nt_peer = (\<lambda>h p t. Inr 0), nt_clock = 0, nt_brk = (\<lambda>_. True)\<rparr>"

abbreviation demo_rounds :: "(rat \<times> check_row \<times> probe_out) list" where
  "demo_rounds \<equiv> [(1, demo_check 1, down ''x''), (2, demo_check 3, down ''x''), (3, demo_check 1, down ''x'')]"

theorem validate_bounds_witness:
  "\<exists>c. validate demo_rp (\<lambda>_. True) [(''url'', JStr ''https://a.ir/x''), (''interval'', JInt 5)] = Inr c \<and> cf_interval c = 30 \<and> cf_interval c \<le> 3600"
proof -
  let ?v = "validate demo_rp (\<lambda>_. True) [(''url'', JStr ''https://a.ir/x''), (''interval'', JInt 5)]"
  have e: "?v = Inr (projr ?v)" and i: "cf_interval (projr ?v) = 30" by code_simp+
  from validate_bounds [OF e] e i show ?thesis by blast
qed


theorem restart_is_no_recovery_witness:
  "is_open (''check'', [], str_int 1) (record_result demo_net 9 (demo_check 1, down ''x'')
     ((seed (fold (round_op demo_net) demo_rounds demo_hub))\<lparr>cstate := []\<rparr>))"
proof -
  let ?d = "(seed (fold (round_op demo_net) demo_rounds demo_hub))\<lparr>cstate := []\<rparr>"
  let ?r = "the (dget (rules_mem ?d) ''check'')" and ?st = "the (dget (astate ?d) (''check'', [], str_int 1))"
  have id: "ck_id (demo_check 1) = 1" by (simp add: demo_check_def)
  have "dget (rules_mem ?d) ''check'' = Some ?r" "ru_enabled ?r" "0 \<le> ru_threshold ?r" "dget (cstate ?d) (ck_id (demo_check 1)) = None"
    "dget (astate ?d) (''check'', [], str_int (ck_id (demo_check 1))) = Some ?st" "as_event ?st = Some 1" "\<not> po_ok (down ''x'')" by code_simp+
  from restart_is_no_recovery [OF this, of demo_net 9] show ?thesis unfolding id is_open_def by auto
qed

theorem bad_url_stops_all_checks_witness:
  "\<exists>e. run_due demo_net 5 (demo_hub\<lparr>checks := [demo_check 1, demo_check 2]\<rparr>) = (demo_hub\<lparr>checks := [demo_check 1, demo_check 2]\<rparr>, Inl e)"
proof -
  have "demo_check 2 \<in> set (due_checks 5 (demo_hub\<lparr>checks := [demo_check 1, demo_check 2]\<rparr>))"
    "nt_get demo_net (demo_check 2) = OtherError (ValueError ''Invalid port'')" by code_simp+
  from bad_url_stops_all_checks [OF this, of 5] show ?thesis by auto
qed

definition demo_hub_admin :: hub where
  \<comment> \<open>the hub with two accounts and an elevated session \<open>tok\<close>\<close>
  "demo_hub_admin = demo_hub\<lparr>users := users demo_db, sessions := sessions demo_db, checks := [demo_check 1],
     servers := [demo_server ''s1''\<lparr>sv_secret_hash := Some ''#secret''\<rparr>]\<rparr>"

theorem removed_check_is_gone_witness:
  "\<exists>d2 v. api_remove_check demo_crypto demo_cfg 40 (demo_rq ''POST'' ''tok'') 1 demo_hub_admin = (d2, Inr v) \<and> dget (cstate d2) 1 = None
     \<and> (\<forall>c \<in> set (checks d2). ck_id c \<noteq> 1)"
proof -
  let ?e = "elevated demo_crypto demo_cfg 40 (demo_rq ''POST'' ''tok'') demo_hub_admin"
  let ?a = "api_remove_check demo_crypto demo_cfg 40 (demo_rq ''POST'' ''tok'') 1 demo_hub_admin"
  have "isl (snd ?e) = False" "isl (snd ?a) = False" by code_simp+
  then have "?e = (fst ?e, Inr (projr (snd ?e)))" "?a = (fst ?a, Inr (projr (snd ?a)))" by (metis prod.collapse sum.collapse(2))+
  from removed_check_is_gone [OF this] this(2) show ?thesis by blast
qed

end
