(* ===== verification/Base64.thy ===== *)
theory Base64
  imports Live
begin

text \<open>
  Base64 as the hub uses it for file contents: \<open>base64.b64encode\<close> and \<open>base64.b64decode\<close>, which skips characters outside
  the alphabet and stops at complete padding. Bytes are naturals below 256.
\<close>

definition b64_char :: "nat \<Rightarrow> char" where
  "b64_char v = char_of (if v < 26 then 65 + v else if v < 52 then 71 + v else if v < 62 then v - 4 else if v = 62 then 43 else (47::nat))"

definition b64_val :: "char \<Rightarrow> nat option" where
  "b64_val c =
     (let n = code c in
      if 65 \<le> n \<and> n \<le> 90 then Some (n - 65) else if 97 \<le> n \<and> n \<le> 122 then Some (n - 71)
      else if 48 \<le> n \<and> n \<le> 57 then Some (n + 4) else if n = 43 then Some 62 else if n = 47 then Some 63 else None)"

fun b64encode :: "nat list \<Rightarrow> string" where
  "b64encode [] = []"
| "b64encode [a] = [b64_char (a div 4), b64_char (a mod 4 * 16), CHR ''='', CHR ''='']"
| "b64encode [a, b] = [b64_char (a div 4), b64_char (a mod 4 * 16 + b div 16), b64_char (b mod 16 * 4), CHR ''='']"
| "b64encode (a # b # c # bs) =
     b64_char (a div 4) # b64_char (a mod 4 * 16 + b div 16) # b64_char (b mod 16 * 4 + c div 64) # b64_char (c mod 64) # b64encode bs"

fun quad_bytes :: "nat list \<Rightarrow> nat list" where
  \<comment> \<open>the bytes that two, three or four sextets complete\<close>
  "quad_bytes [p, q] = [p * 4 + q div 16]"
| "quad_bytes [p, q, r] = [p * 4 + q div 16, q mod 16 * 16 + r div 4]"
| "quad_bytes [p, q, r, s] = [p * 4 + q div 16, q mod 16 * 16 + r div 4, r mod 4 * 64 + s]"
| "quad_bytes _ = []"

fun b64_scan :: "nat list \<Rightarrow> nat \<Rightarrow> string \<Rightarrow> nat list res" where
  "b64_scan quad pads [] = (if quad = [] then Inr [] else Inl (ValueError ''Incorrect padding''))"
| "b64_scan quad pads (c # s) =
     (if c = CHR ''='' then
        (if 2 \<le> length quad then (if 4 \<le> length quad + (pads + 1) then Inr (quad_bytes quad) else b64_scan quad (pads + 1) s)
         else b64_scan quad pads s)
      else case b64_val c of
             None \<Rightarrow> b64_scan quad pads s
           | Some v \<Rightarrow>
               if length quad = 3 then rbind (b64_scan [] 0 s) (\<lambda>bs. Inr (quad_bytes (quad @ [v]) @ bs))
               else b64_scan (quad @ [v]) 0 s)"

definition b64decode :: "string \<Rightarrow> nat list res" where
  "b64decode s = (if is_ascii s then b64_scan [] 0 s else Inl (ValueError ''string argument should contain only ASCII characters''))"

lemma code_b64_char: "v < 64 \<Longrightarrow> code (b64_char v) = (if v < 26 then 65 + v else if v < 52 then 71 + v else if v < 62 then v - 4 else if v = 62 then 43 else 47)"
  by (simp add: b64_char_def code_def)

lemma b64_val_char [simp]: "v < 64 \<Longrightarrow> b64_val (b64_char v) = Some v"
  by (auto simp: b64_val_def code_b64_char Let_def)

lemma b64_char_not_pad [simp]: "v < 64 \<Longrightarrow> b64_char v \<noteq> CHR ''=''"
proof
  assume "v < 64" "b64_char v = CHR ''=''"
  then have "b64_val (CHR ''='') = Some v" using b64_val_char [of v] by simp
  then show False by (simp add: b64_val_def code_def)
qed

lemma b64_char_ascii [simp]: "v < 64 \<Longrightarrow> code (b64_char v) < 128"
  by (auto simp: code_b64_char)

lemma sextet_less [simp]: "b < 256 \<Longrightarrow> a mod 4 * 16 + b div 16 < (64::nat)" "c < 256 \<Longrightarrow> b mod 16 * 4 + c div 64 < (64::nat)"
proof -
  assume "b < 256"
  then have "b div 16 < 16" by simp
  moreover have "a mod 4 \<le> 3" using mod_less_divisor [of 4 a] by linarith
  ultimately show "a mod 4 * 16 + b div 16 < 64" by linarith
next
  assume "c < 256"
  then have "c div 64 < 4" by simp
  moreover have "b mod 16 \<le> 15" using mod_less_divisor [of 16 b] by linarith
  ultimately show "b mod 16 * 4 + c div 64 < 64" by linarith
qed

lemma sextet_simple [simp]: "a < 256 \<Longrightarrow> a div 4 < (64::nat)" "a mod 4 * 16 < (64::nat)" "b mod 16 * 4 < (64::nat)"
  using sextet_less(1) [of 0 a] sextet_less(2) [of 0 b] by auto

lemma b64_ascii: "\<forall>b \<in> set bs. b < 256 \<Longrightarrow> is_ascii (b64encode bs)"
proof -
  have "code (CHR ''='') < 128" by (simp add: code_def)
  then show "\<forall>b \<in> set bs. b < 256 \<Longrightarrow> is_ascii (b64encode bs)"
    by (induction bs rule: b64encode.induct) (simp_all add: is_ascii_def)
qed

lemma byte_high: "b < 256 \<Longrightarrow> b div 16 div 16 = (0::nat)" "b < 256 \<Longrightarrow> b div 16 mod 16 = (b::nat) div 16"
  "c < 256 \<Longrightarrow> c div 64 div 4 = (0::nat)" "c < 256 \<Longrightarrow> c div 64 mod 4 = (c::nat) div 64"
  by simp_all

lemma b64_roundtrip: "\<forall>b \<in> set bs. b < 256 \<Longrightarrow> b64decode (b64encode bs) = Inr bs"
proof -
  assume "\<forall>b \<in> set bs. b < 256"
  then have "b64_scan [] 0 (b64encode bs) = Inr bs"
    by (induction bs rule: b64encode.induct) (simp_all add: byte_high rbind_def)
  with b64_ascii show ?thesis using \<open>\<forall>b \<in> set bs. b < 256\<close> by (simp add: b64decode_def)
qed

end
