(* ===== verification/Backups.thy ===== *)
theory Backups
  imports Checks Base64
begin

text \<open>
  Scheduled backups (\<open>hub/icsd_hub/backups.py\<close>). Tehran time is a fixed offset. A run is a sequence of calls to agents: \<open>env\<close> says
  what \<open>rpc.call\<close> comes to after a given sequence of attempted calls, an answer or an exception, so every behaviour
  of agents and connections is covered. \<open>fuel\<close> bounds the polls of a job and the chunks of a copy.
\<close>

section \<open>Schedule\<close>

definition CHUNK :: int where
  "CHUNK = 512 * 1024"

definition MAX_PARALLEL :: nat where
  "MAX_PARALLEL = 2"

definition tehran_offset :: int where
  "tehran_offset = 12600"

function next_loop :: "int \<Rightarrow> rat \<Rightarrow> int \<Rightarrow> int" where
  \<comment> \<open>\<open>while t <= after: t += step\<close>\<close>
  "next_loop stp after t = (if of_int t \<le> after then next_loop stp after (t + max 3600 stp) else t)"
  by pat_completeness auto
termination
proof (relation "measure (\<lambda>(stp, after, t). nat (\<lfloor>after\<rfloor> + 1 - t))")
  show "wf (measure (\<lambda>(stp, after, t). nat (\<lfloor>after\<rfloor> + 1 - t)))" by simp
next
  fix stp t :: int and after :: rat
  assume "of_int t \<le> after"
  then have "t \<le> \<lfloor>after\<rfloor>" by (simp add: le_floor_iff)
  then show "((stp, after, t + max 3600 stp), stp, after, t) \<in> measure (\<lambda>(stp, after, t). nat (\<lfloor>after\<rfloor> + 1 - t))" by simp
qed

declare next_loop.simps [simp del]

definition anchor :: "int \<Rightarrow> rat \<Rightarrow> int" where
  \<comment> \<open>the latest start hour up to now, as a timestamp; the clock has microseconds\<close>
  "anchor start_hour after =
     (let local = py_round 6 after + of_int tehran_offset;
          a = \<lfloor>local / 86400\<rfloor> * 86400 + (start_hour mod 24) * 3600
      in (if local < of_int a then a - 86400 else a) - tehran_offset)"

definition next_run :: "int \<Rightarrow> int \<Rightarrow> rat \<Rightarrow> int" where
  "next_run every_hours start_hour after = next_loop (max 1 every_hours * 3600) after (anchor start_hour after)"

section \<open>Plans and runs\<close>

record plan_view =
  pv_row :: plan_row
  pv_server_name :: string
  pv_dest_name :: "string option"
  pv_last :: "run_row option"
  pv_running :: bool

definition name_of :: "string \<Rightarrow> 'a db_scheme \<Rightarrow> string option" where
  "name_of sid d = map_option sv_name (select_one (\<lambda>s. sv_id s = sid) (servers d))"

definition last_run :: "int \<Rightarrow> 'a db_scheme \<Rightarrow> run_row option" where
  \<comment> \<open>the run with the largest id of a plan\<close>
  "last_run pid d =
     (let rs = filter (\<lambda>r. rn_plan r = Some pid) (backup_runs d) in
      select_one (\<lambda>r. \<forall>x \<in> set rs. rn_id x \<le> rn_id r) rs)"

definition plans :: "'a hub_scheme \<Rightarrow> plan_view list" where
  "plans d =
     concat (map (\<lambda>p. case name_of (pl_server p) d of
                        None \<Rightarrow> []
                      | Some n \<Rightarrow> [\<lparr>pv_row = p, pv_server_name = n,
                          pv_dest_name = (case pl_dest_server p of None \<Rightarrow> None | Some t \<Rightarrow> name_of t d),
                          pv_last = last_run (pl_id p) d, pv_running = (pl_id p \<in> set (running d))\<rparr>])
       (sort_key pl_id (backup_plans d)))"

definition runs :: "nat \<Rightarrow> 'a db_scheme \<Rightarrow> run_row list" where
  "runs limit d = take (min limit 500) (sort_key (\<lambda>r. - rn_id r) (backup_runs d))"

definition recover :: "int \<Rightarrow> 'a db_scheme \<Rightarrow> 'a db_scheme" where
  "recover now d = d\<lparr>backup_runs := update_where (\<lambda>r. rn_state r = ''running'')
     (\<lambda>r. r\<lparr>rn_state := ''error'', rn_ended := Some now, rn_error := ''the panel was restarted meanwhile''\<rparr>) (backup_runs d)\<rparr>"

definition start :: "int \<Rightarrow> int \<Rightarrow> string \<Rightarrow> 'a hub_scheme \<Rightarrow> ('a hub_scheme, int) io" where
  "start now pid trigger d =
     (if pid \<in> set (running d) then (d, Inl (HTTPException 409 ''this plan is already running''))
      else case select_one (\<lambda>p. pl_id p = pid) (backup_plans d) of
             None \<Rightarrow> (d, Inl (HTTPException 404 ''plan not found''))
           | Some p \<Rightarrow>
               (let rid = next_rowid (map rn_id (backup_runs d)) in
                (d\<lparr>backup_runs := backup_runs d @ [\<lparr>rn_id = rid, rn_plan = Some pid, rn_server = pl_server p, rn_started = now, rn_ended = None,
                     rn_state = ''running'', rn_size = None, rn_path = None, rn_dest_server = pl_dest_server p, rn_dest_path = None,
                     rn_error = [], rn_trigger = trigger\<rparr>],
                   running := running d @ [pid]\<rparr>, Inr rid)))"

definition plan_due :: "rat \<Rightarrow> plan_row \<Rightarrow> bool" where
  "plan_due now p = (pl_enabled p \<and> (case pl_next_run p of None \<Rightarrow> False | Some t \<Rightarrow> of_int t \<le> now))"

definition tick_plan :: "rat \<Rightarrow> plan_row \<Rightarrow> 'a hub_scheme \<Rightarrow> 'a hub_scheme" where
  "tick_plan now p d =
     (if pl_id p \<in> set (running d) \<or> MAX_PARALLEL \<le> length (running d) then d
      else case peek (pl_server p) d of
             None \<Rightarrow> d
           | Some lv \<Rightarrow>
               if lv_ws lv = None then d
               else fst (start (py_trunc now) (pl_id p) ''schedule''
                      (d\<lparr>backup_plans := update_where (\<lambda>q. pl_id q = pl_id p)
                         (\<lambda>q. q\<lparr>pl_next_run := Some (next_run (pl_every_hours p) (pl_start_hour p) now)\<rparr>) (backup_plans d)\<rparr>)))"

definition tick :: "rat \<Rightarrow> 'a hub_scheme \<Rightarrow> 'a hub_scheme" where
  "tick now d = fold (tick_plan now) (filter (plan_due now) (backup_plans d)) d"

section \<open>One run\<close>

type_synonym env = "rpc_call list \<Rightarrow> json res"
type_synonym ('h, 'v) act = "rpc_call list \<times> 'h \<Rightarrow> (rpc_call list \<times> 'h) \<times> 'v res"

definition ask :: "env \<Rightarrow> string \<Rightarrow> string \<Rightarrow> (string, json) dict \<Rightarrow> ('h, json) act" where
  \<comment> \<open>\<open>await rpc.call(sid, op, args)\<close>\<close>
  "ask env sid op args s = (let tr = fst s @ [\<lparr>rc_sid = sid, rc_op = op, rc_args = args\<rparr>] in ((tr, snd s), env tr))"

definition abind :: "('h, 'v) act \<Rightarrow> ('v \<Rightarrow> ('h, 'w) act) \<Rightarrow> ('h, 'w) act" where
  "abind m f s = (case m s of (s', Inl e) \<Rightarrow> (s', Inl e) | (s', Inr v) \<Rightarrow> f v s')"

definition ares :: "'v res \<Rightarrow> ('h, 'v) act" where
  "ares r s = (s, r)"

definition amod :: "('h \<Rightarrow> 'h) \<Rightarrow> ('h, unit) act" where
  "amod f s = ((fst s, f (snd s)), Inr ())"

definition jidx :: "json \<Rightarrow> string \<Rightarrow> json res" where
  \<comment> \<open>\<open>v[k]\<close>\<close>
  "jidx v k = (case v of JObj kvs \<Rightarrow> (case dget kvs k of Some x \<Rightarrow> Inr x | None \<Rightarrow> Inl (KeyError k)) | _ \<Rightarrow> Inl TypeError)"

fun poll_job :: "env \<Rightarrow> string \<Rightarrow> json \<Rightarrow> nat \<Rightarrow> nat \<Rightarrow> ('h, json) act" where
  \<comment> \<open>\<open>rpc.wait_job\<close>: \<open>fuel\<close> polls fit into the time allowed\<close>
  "poll_job env sid jid 0 misses s = (s, Inl (RPCError ''the job took too long'' 504))"
| "poll_job env sid jid (Suc fuel) misses s =
     (case ask env sid ''job.status'' [(''id'', jid)] s of
        (s', Inl (RPCError m st)) \<Rightarrow>
          if st \<in> {503, 504} \<and> misses < 40 then poll_job env sid jid fuel (misses + 1) s' else (s', Inl (RPCError m st))
      | (s', Inl e) \<Rightarrow> (s', Inl e)
      | (s', Inr j) \<Rightarrow>
          (case jget j ''state'' of
             None \<Rightarrow> (s', Inl AttributeError)
           | Some v \<Rightarrow> if v \<noteq> JStr ''running'' then (s', Inr j) else poll_job env sid jid fuel 0 s'))"

definition posix_join :: "string \<Rightarrow> string \<Rightarrow> string" where
  \<comment> \<open>\<open>posixpath.join(a, b)\<close>\<close>
  "posix_join a b = (if startswith b ''/'' then b else if a = [] \<or> endswith a ''/'' then a @ b else a @ ''/'' @ b)"

definition basename :: "string \<Rightarrow> string" where
  "basename p = rpartition_at (CHR ''/'') p"

definition jnat :: "nat \<Rightarrow> json" where
  "jnat n = JInt (int n)"

definition chunk_of :: "json \<Rightarrow> (json \<times> nat list \<times> bool) res" where
  \<comment> \<open>the data, its bytes and whether it is the last of a \<open>fs.read\<close> answer\<close>
  "chunk_of part =
     rbind (jidx part ''data'') (\<lambda>v.
     rbind (case v of JStr t \<Rightarrow> b64decode t | _ \<Rightarrow> Inl TypeError) (\<lambda>bs.
     rbind (jidx part ''eof'') (\<lambda>e. Inr (v, bs, truthy e \<or> bs = []))))"

definition upload_of :: "json \<Rightarrow> json \<Rightarrow> json res" where
  \<comment> \<open>\<open>(res or {}).get("upload", upload)\<close>\<close>
  "upload_of res upload =
     (case or_obj res of JObj kvs \<Rightarrow> Inr (case dget kvs ''upload'' of Some u \<Rightarrow> u | None \<Rightarrow> upload) | _ \<Rightarrow> Inl AttributeError)"

fun copy_loop ::
  "env \<Rightarrow> string \<Rightarrow> string \<Rightarrow> string \<Rightarrow> string \<Rightarrow> nat \<Rightarrow> nat \<Rightarrow> json \<Rightarrow> rpc_call list \<times> 'h \<Rightarrow> (rpc_call list \<times> 'h) \<times> json \<times> nat res" where
  \<comment> \<open>returns the upload id and the number of bytes copied; an exhausted \<open>fuel\<close> is an endless stream\<close>
  "copy_loop env src path dst dest 0 offset upload s = (s, upload, Inl (ValueError ''out of fuel''))"
| "copy_loop env src path dst dest (Suc fuel) offset upload s =
     (case ask env src ''fs.read'' [(''path'', JStr path), (''offset'', jnat offset), (''length'', JInt CHUNK)] s of
        (s1, Inl e) \<Rightarrow> (s1, upload, Inl e)
      | (s1, Inr part) \<Rightarrow>
          (case chunk_of part of
             Inl e \<Rightarrow> (s1, upload, Inl e)
           | Inr (v, bs, final) \<Rightarrow>
               (case ask env dst ''fs.write'' [(''path'', JStr dest), (''data'', v), (''offset'', jnat offset), (''final'', JBool final), (''upload'', upload)] s1 of
                  (s2, Inl e) \<Rightarrow> (s2, upload, Inl e)
                | (s2, Inr res) \<Rightarrow>
                    (case upload_of res upload of
                       Inl e \<Rightarrow> (s2, upload, Inl e)
                     | Inr up \<Rightarrow> if final then (s2, up, Inr (offset + length bs))
                                 else copy_loop env src path dst dest fuel (offset + length bs) up s2))))"

definition eq_size :: "nat \<Rightarrow> json \<Rightarrow> bool" where
  \<comment> \<open>\<open>offset == size\<close>\<close>
  "eq_size n v = (case v of JInt i \<Rightarrow> i = int n | JFloat (Fin x) \<Rightarrow> x = of_nat n | JBool b \<Rightarrow> n = (if b then 1 else 0) | _ \<Rightarrow> False)"

definition dest_dir_of :: "live \<Rightarrow> string \<Rightarrow> string res" where
  "dest_dir_of lv src =
     (case orv (rget (lv_caps lv) ''backup_dir'') (JStr ''/var/backups/icsd'') of
        JStr b \<Rightarrow> Inr (posix_join (posix_join b ''remote'') src)
      | _ \<Rightarrow> Inl TypeError)"

definition copy_to ::
  "env \<Rightarrow> nat \<Rightarrow> string \<Rightarrow> string \<Rightarrow> string \<Rightarrow> string \<Rightarrow> json \<Rightarrow> ('h, string) act" where
  \<comment> \<open>the transfer itself, with the clean-up of a failed one\<close>
  "copy_to env fuel src p dst dest sz s =
     (case copy_loop env src p dst dest fuel 0 (JStr []) s of
        (s2, up, Inl e) \<Rightarrow>
          (if truthy up then
             (case ask env dst ''fs.abort'' [(''path'', JStr dest), (''upload'', up)] s2 of
                (s3, Inl (RPCError m st)) \<Rightarrow> (s3, Inl e)
              | (s3, Inl e') \<Rightarrow> (s3, Inl e')
              | (s3, Inr _) \<Rightarrow> (s3, Inl e))
           else (s2, Inl e))
      | (s2, up, Inr n) \<Rightarrow> if eq_size n sz then (s2, Inr dest) else (s2, Inl (RPCError ''incomplete copy'' 400)))"

definition dest_of :: "string \<Rightarrow> 'a hub_scheme \<Rightarrow> live res" where
  "dest_of dst d = (case peek dst d of
     Some lv \<Rightarrow> if lv_ws lv = None then Inl (RPCError ''the destination server is not connected'' 400) else Inr lv
   | None \<Rightarrow> Inl (RPCError ''the destination server is not connected'' 400))"

definition copy_between ::
  "env \<Rightarrow> nat \<Rightarrow> string \<Rightarrow> json \<Rightarrow> string \<Rightarrow> json \<Rightarrow> ('a hub_scheme, string) act" where
  "copy_between env fuel src path dst sz s =
     abind (ares (rbind (dest_of dst (snd s)) (\<lambda>lv. dest_dir_of lv src))) (\<lambda>dir.
     abind (ask env dst ''fs.mkdir'' [(''path'', JStr dir), (''parents'', JBool True)]) (\<lambda>_.
     abind (ares (case path of JStr p \<Rightarrow> Inr p | _ \<Rightarrow> Inl TypeError)) (\<lambda>p.
     copy_to env fuel src p dst (posix_join dir (basename p)) sz))) s"

definition sql_text :: "json \<Rightarrow> string option res" where
  \<comment> \<open>a JSON value bound to a \<open>TEXT\<close> column; no list or dict can be\<close>
  "sql_text v = (case v of JStr s \<Rightarrow> Inr (Some s) | JNull \<Rightarrow> Inr None | JInt i \<Rightarrow> Inr (Some (str_int i)) | _ \<Rightarrow> Inl (ValueError ''type is not supported''))"

definition sql_int :: "json \<Rightarrow> int option res" where
  \<comment> \<open>a JSON value bound to an \<open>INTEGER\<close> column\<close>
  "sql_int v = (case v of JInt i \<Rightarrow> Inr (Some i) | JNull \<Rightarrow> Inr None | JBool b \<Rightarrow> Inr (Some (if b then 1 else 0)) | _ \<Rightarrow> Inl (ValueError ''type is not supported''))"

definition upd_run :: "int \<Rightarrow> (run_row \<Rightarrow> run_row) \<Rightarrow> 'a db_scheme \<Rightarrow> 'a db_scheme" where
  "upd_run rid f d = d\<lparr>backup_runs := update_where (\<lambda>r. rn_id r = rid) f (backup_runs d)\<rparr>"

definition plan_prefix :: "plan_row \<Rightarrow> string" where
  "plan_prefix p = (case pl_prefix p of Some x \<Rightarrow> if x = [] then CHR ''p'' # str_int (pl_id p) else x | None \<Rightarrow> CHR ''p'' # str_int (pl_id p))"

definition run_args :: "plan_row \<Rightarrow> (string, json) dict res" where
  "run_args p =
     (let base = [(''kind'', JStr (pl_kind p)), (''prefix'', JStr (plan_prefix p))] in
      case pl_target p of
        TDb eng wh nm n \<Rightarrow>
          if pl_kind p = ''db''
          then Inr (base @ [(''db'', JObj [(''engine'', JStr eng), (''where'', JStr wh), (''name'', JStr nm), (''size'', JInt n)])])
          else Inl (KeyError ''path'')
      | TFiles path ex \<Rightarrow>
          if pl_kind p = ''db'' then Inl (KeyError ''db'')
          else Inr (base @ [(''path'', JStr path), (''exclude'', JArr (map JStr ex))]))"

definition copy_away :: "env \<Rightarrow> nat \<Rightarrow> plan_row \<Rightarrow> int \<Rightarrow> json \<Rightarrow> json \<Rightarrow> ('a hub_scheme, unit) act" where
  \<comment> \<open>the second half of a run: copy to the destination, prune there, delete the local file\<close>
  "copy_away env fuel p rid path sz =
     (case pl_dest_server p of
        None \<Rightarrow> ares (Inr ())
      | Some dst \<Rightarrow>
          if dst = [] then ares (Inr ())
          else
            abind (copy_between env fuel (pl_server p) path dst sz) (\<lambda>dp.
            abind (amod (upd_run rid (\<lambda>r. r\<lparr>rn_dest_path := Some dp\<rparr>))) (\<lambda>_.
            abind (ask env dst ''backup.prune'' [(''dir'', JStr (''remote/'' @ pl_server p)), (''prefix'', JStr (plan_prefix p)), (''keep'', JInt (pl_dest_keep p))]) (\<lambda>_.
            if pl_delete_local p
            then abind (ask env (pl_server p) ''fs.delete'' [(''paths'', JArr [path])]) (\<lambda>_. ares (Inr ()))
            else ares (Inr ())))))"

definition local_part :: "(json \<Rightarrow> string) \<Rightarrow> env \<Rightarrow> nat \<Rightarrow> plan_row \<Rightarrow> int \<Rightarrow> ('a hub_scheme, json \<times> json) act" where
  \<comment> \<open>the first half of a run: back up, record path and size, prune the local copies\<close>
  "local_part rp env fuel p rid =
     abind (ares (run_args p)) (\<lambda>args.
     abind (ask env (pl_server p) ''backup.run'' args) (\<lambda>started.
     abind (ares (jidx started ''job'')) (\<lambda>jid.
     abind (poll_job env (pl_server p) jid fuel 0) (\<lambda>job.
     abind (ares (if oget job ''state'' \<noteq> JStr ''done''
                  then Inl (RPCError (py_str rp (orv (oget job ''error'') (JStr ''the backup failed''))) 400) else jidx job ''result'')) (\<lambda>res.
     abind (ares (jidx res ''path'')) (\<lambda>path.
     abind (ares (jidx res ''size'')) (\<lambda>sz.
     abind (ares (rbind (sql_text path) (\<lambda>a. rbind (sql_int sz) (\<lambda>b. Inr (a, b))))) (\<lambda>ab.
     abind (amod (upd_run rid (\<lambda>r. r\<lparr>rn_path := fst ab, rn_size := snd ab\<rparr>))) (\<lambda>_.
     abind (ask env (pl_server p) ''backup.prune'' [(''dir'', JStr []), (''prefix'', JStr (plan_prefix p)), (''keep'', JInt (pl_keep p))]) (\<lambda>_.
     ares (Inr (path, sz))))))))))))"

definition run_body :: "(json \<Rightarrow> string) \<Rightarrow> env \<Rightarrow> nat \<Rightarrow> plan_row \<Rightarrow> int \<Rightarrow> ('a hub_scheme, unit) act" where
  "run_body rp env fuel p rid = abind (local_part rp env fuel p rid) (\<lambda>(path, sz). copy_away env fuel p rid path sz)"

definition exc_text :: "exc \<Rightarrow> string" where
  \<comment> \<open>\<open>str(e) or e.__class__.__name__\<close>\<close>
  "exc_text e =
     (case e of
        HTTPException st m \<Rightarrow> str_int (int st) @ '': '' @ m
      | AuthError m st x \<Rightarrow> if m = [] then ''AuthError'' else m
      | RPCError m st \<Rightarrow> if m = [] then ''RPCError'' else m
      | ValueError m \<Rightarrow> if m = [] then ''ValueError'' else m
      | KeyError k \<Rightarrow> CHR 0x27 # k @ [CHR 0x27]
      | TypeError \<Rightarrow> ''TypeError'' | AttributeError \<Rightarrow> ''AttributeError'' | OverflowError \<Rightarrow> ''OverflowError'' | SysExit m \<Rightarrow> m)"

definition plan_subject :: "int \<Rightarrow> string" where
  "plan_subject pid = ''plan:'' @ str_int pid"

definition run_plan ::
  "(json \<Rightarrow> string) \<Rightarrow> env \<Rightarrow> nat \<Rightarrow> rat \<Rightarrow> plan_row \<Rightarrow> int \<Rightarrow> 'a hub_scheme \<Rightarrow> rpc_call list \<times> 'a hub_scheme" where
  \<comment> \<open>\<open>_run\<close>, with the callback that removes the finished task\<close>
  "run_plan rp env fuel now p rid d =
     (let ((tr, d1), r) = run_body rp env fuel p rid ([], d);
          d2 = (case r of
                  Inr _ \<Rightarrow> step ''backup'' (pl_server p) (plan_subject (pl_id p)) False 0 [] now False
                             (upd_run rid (\<lambda>r. r\<lparr>rn_state := ''done'', rn_ended := Some (py_trunc now)\<rparr>) d1)
                | Inl e \<Rightarrow> step ''backup'' (pl_server p) (plan_subject (pl_id p)) True 1
                             (''backup '' @ pl_name p @ '' failed: '' @ take 300 (exc_text e)) now False
                             (upd_run rid (\<lambda>r. r\<lparr>rn_state := ''error'', rn_ended := Some (py_trunc now), rn_error := take 1000 (exc_text e)\<rparr>) d1))
      in (tr, d2\<lparr>running := filter (\<lambda>i. i \<noteq> pl_id p) (running d2)\<rparr>))"

section \<open>Routes\<close>

record plan_in =
  pi_server :: string
  pi_name :: string
  pi_kind :: string
  pi_db :: "(string, json) dict option"
  pi_path :: "string option"
  pi_exclude :: "string list"
  pi_every_hours :: int
  pi_start_hour :: int
  pi_keep :: int
  pi_dest_server :: "string option"
  pi_dest_keep :: int
  pi_delete_local :: bool
  pi_enabled :: bool

definition plan_in_ok :: "plan_in \<Rightarrow> bool" where
  \<comment> \<open>the field limits of \<open>PlanIn\<close>\<close>
  "plan_in_ok b =
     (length (pi_server b) \<le> 16 \<and> 1 \<le> length (pi_name b) \<and> length (pi_name b) \<le> 80
      \<and> (case pi_path b of None \<Rightarrow> True | Some p \<Rightarrow> length p \<le> 4096) \<and> length (pi_exclude b) \<le> 50
      \<and> 1 \<le> pi_every_hours b \<and> pi_every_hours b \<le> 24 * 30 \<and> 0 \<le> pi_start_hour b \<and> pi_start_hour b \<le> 23
      \<and> 1 \<le> pi_keep b \<and> pi_keep b \<le> 365 \<and> (case pi_dest_server b of None \<Rightarrow> True | Some s \<Rightarrow> length s \<le> 16)
      \<and> 1 \<le> pi_dest_keep b \<and> pi_dest_keep b \<le> 365)"

definition db_target :: "plan_in \<Rightarrow> target res" where
  "db_target b =
     (let d = (case pi_db b of None \<Rightarrow> [] | Some x \<Rightarrow> x) in
      case (rget d ''engine'', rget d ''where'', rget d ''name'') of
        (JStr eng, JStr wh, JStr nm) \<Rightarrow>
          if eng \<noteq> [] \<and> wh \<noteq> [] \<and> nm \<noteq> []
          then rbind (py_int (orv (rget d ''size'') (JInt 0))) (\<lambda>n. Inr (TDb eng wh nm n))
          else Inl (HTTPException 400 ''choose a database'')
      | _ \<Rightarrow> Inl (HTTPException 400 ''choose a database''))"

definition files_target :: "plan_in \<Rightarrow> target res" where
  "files_target b =
     (case pi_path b of
        Some p \<Rightarrow> if startswith p ''/'' then Inr (TFiles p (filter (\<lambda>e. strip e \<noteq> []) (pi_exclude b)))
                  else Inl (HTTPException 400 ''the folder path must be absolute'')
      | None \<Rightarrow> Inl (HTTPException 400 ''the folder path must be absolute''))"

definition dest_given :: "plan_in \<Rightarrow> string option" where
  \<comment> \<open>\<open>body.dest_server or None\<close>\<close>
  "dest_given b = (case pi_dest_server b of None \<Rightarrow> None | Some s \<Rightarrow> if s = [] then None else Some s)"

definition validate_plan :: "int \<Rightarrow> plan_in \<Rightarrow> 'a db_scheme \<Rightarrow> target res" where
  "validate_plan now b d =
     rbind (get_server now (pi_server b) d) (\<lambda>_.
     rbind (if pi_kind b = ''db'' then db_target b else if pi_kind b = ''files'' then files_target b
            else Inl (HTTPException 400 ''bad backup kind'')) (\<lambda>t.
     rbind (case dest_given b of
              None \<Rightarrow> Inr ()
            | Some s \<Rightarrow> if s = pi_server b then Inl (HTTPException 400 ''the destination must be another server'')
                        else rbind (get_server now s d) (\<lambda>_. Inr ())) (\<lambda>_.
     if pi_delete_local b \<and> dest_given b = None
     then Inl (HTTPException 400 ''deleting the local copy needs a destination server'') else Inr t)))"

definition apply_plan :: "rat \<Rightarrow> plan_in \<Rightarrow> target \<Rightarrow> plan_row \<Rightarrow> plan_row" where
  "apply_plan now b t p =
     p\<lparr>pl_server := pi_server b, pl_name := strip (pi_name b), pl_kind := pi_kind b, pl_target := t,
       pl_every_hours := pi_every_hours b, pl_start_hour := pi_start_hour b, pl_keep := pi_keep b, pl_dest_server := dest_given b,
       pl_dest_keep := pi_dest_keep b, pl_delete_local := pi_delete_local b, pl_enabled := pi_enabled b,
       pl_next_run := Some (next_run (pi_every_hours b) (pi_start_hour b) now)\<rparr>"

definition api_list_backups :: "crypto \<Rightarrow> config \<Rightarrow> int \<Rightarrow> request \<Rightarrow> 'a hub_scheme \<Rightarrow> ('a hub_scheme, plan_view list \<times> run_row list) io" where
  "api_list_backups cr cfg now rq = depends (admin cr cfg now rq) (\<lambda>u d. (d, Inr (plans d, runs 100 d)))"

definition api_create_plan ::
  "crypto \<Rightarrow> config \<Rightarrow> int \<Rightarrow> request \<Rightarrow> string \<Rightarrow> plan_in \<Rightarrow> 'a hub_scheme \<Rightarrow> ('a hub_scheme, int \<times> plan_view list) io" where
  \<comment> \<open>\<open>tok\<close> is the random part of the file prefix\<close>
  "api_create_plan cr cfg now rq tok b =
     depends (elevated cr cfg now rq) (\<lambda>u d.
       if \<not> plan_in_ok b then (d, Inl (HTTPException 422 ''validation''))
       else case validate_plan now b d of
              Inl e \<Rightarrow> (d, Inl e)
            | Inr t \<Rightarrow>
                (let pid = next_rowid (map pl_id (backup_plans d));
                     p0 = \<lparr>pl_id = pid, pl_server = [], pl_name = [], pl_kind = [], pl_target = t, pl_every_hours = 24, pl_start_hour = 3,
                           pl_keep = 7, pl_dest_server = None, pl_dest_keep = 14, pl_delete_local = False, pl_enabled = True,
                           pl_next_run = None, pl_created = now, pl_prefix = Some (CHR ''p'' # tok)\<rparr>;
                     d1 = audit now (Some (us_username u)) ''backup.plan.add'' (str_int pid @ '' '' @ pi_name b) (Some (client_ip rq))
                            (d\<lparr>backup_plans := backup_plans d @ [apply_plan (of_int now) b t p0]\<rparr>)
                 in (d1, Inr (pid, plans d1))))"

definition api_update_plan ::
  "crypto \<Rightarrow> config \<Rightarrow> int \<Rightarrow> request \<Rightarrow> int \<Rightarrow> plan_in \<Rightarrow> 'a hub_scheme \<Rightarrow> ('a hub_scheme, plan_view list) io" where
  "api_update_plan cr cfg now rq pid b =
     depends (elevated cr cfg now rq) (\<lambda>u d.
       if \<not> plan_in_ok b then (d, Inl (HTTPException 422 ''validation''))
       else if select_one (\<lambda>p. pl_id p = pid) (backup_plans d) = None then (d, Inl (HTTPException 404 ''plan not found''))
       else case validate_plan now b d of
              Inl e \<Rightarrow> (d, Inl e)
            | Inr t \<Rightarrow>
                (let d1 = audit now (Some (us_username u)) ''backup.plan.edit'' (str_int pid) (Some (client_ip rq))
                            (d\<lparr>backup_plans := update_where (\<lambda>p. pl_id p = pid) (apply_plan (of_int now) b t) (backup_plans d)\<rparr>)
                 in (d1, Inr (plans d1))))"

definition delete_plan_row :: "int \<Rightarrow> 'a db_scheme \<Rightarrow> 'a db_scheme" where
  \<comment> \<open>with \<open>ON DELETE SET NULL\<close> of the runs\<close>
  "delete_plan_row pid d = d\<lparr>backup_plans := delete_where (\<lambda>p. pl_id p = pid) (backup_plans d),
     backup_runs := update_where (\<lambda>r. rn_plan r = Some pid) (\<lambda>r. r\<lparr>rn_plan := None\<rparr>) (backup_runs d)\<rparr>"

definition api_delete_plan :: "crypto \<Rightarrow> config \<Rightarrow> int \<Rightarrow> request \<Rightarrow> int \<Rightarrow> 'a hub_scheme \<Rightarrow> ('a hub_scheme, plan_view list) io" where
  "api_delete_plan cr cfg now rq pid =
     depends (elevated cr cfg now rq) (\<lambda>u d.
       let d1 = audit now (Some (us_username u)) ''backup.plan.delete'' (str_int pid) (Some (client_ip rq))
                  (forget_subject ''backup'' (plan_subject pid) (of_int now) (delete_plan_row pid d))
       in (d1, Inr (plans d1)))"

definition api_run_now :: "crypto \<Rightarrow> config \<Rightarrow> int \<Rightarrow> request \<Rightarrow> int \<Rightarrow> 'a hub_scheme \<Rightarrow> ('a hub_scheme, int) io" where
  "api_run_now cr cfg now rq pid =
     depends (elevated cr cfg now rq) (\<lambda>u d.
       case start now pid ''manual'' d of
         (d', Inl e) \<Rightarrow> (d', Inl e)
       | (d', Inr rid) \<Rightarrow> (audit now (Some (us_username u)) ''backup.run'' (str_int pid) (Some (client_ip rq)) d', Inr rid))"

section \<open>The schedule\<close>

lemma next_loop_after: "after < of_int (next_loop stp after t)"
  by (induction stp after t rule: next_loop.induct) (subst next_loop.simps, simp)

lemma next_loop_bound: "of_int t \<le> after + of_int (max 3600 stp) \<Longrightarrow> of_int (next_loop stp after t) \<le> after + of_int (max 3600 stp)"
  by (induction stp after t rule: next_loop.induct) (subst next_loop.simps, simp)

lemma next_loop_grid: "\<exists>k\<ge>0. next_loop stp after t = t + k * max 3600 stp"
proof (induction stp after t rule: next_loop.induct)
  case (1 stp after t)
  show ?case
  proof (cases "of_int t \<le> after")
    case True
    then obtain k where "0 \<le> k" "next_loop stp after (t + max 3600 stp) = t + max 3600 stp + k * max 3600 stp" using 1 by blast
    then show ?thesis using True by (intro exI [of _ "k + 1"]) (subst next_loop.simps, simp add: algebra_simps)
  qed (subst next_loop.simps, auto)
qed

lemma next_loop_one: "of_int t \<le> after \<Longrightarrow> after < of_int (t + max 3600 stp) \<Longrightarrow> next_loop stp after t = t + max 3600 stp"
  by (subst next_loop.simps, subst next_loop.simps) simp

lemma anchor_grid: "\<exists>m. anchor sh after = m * 86400 + sh * 3600 - tehran_offset"
proof -
  have sh: "sh * 3600 = sh div 24 * 86400 + sh mod 24 * 3600" using div_mult_mod_eq [of sh 24] by linarith
  let ?q = "\<lfloor>(py_round 6 after + of_int tehran_offset) / 86400\<rfloor>"
  have "anchor sh after = (?q - sh div 24) * 86400 + sh * 3600 - tehran_offset \<or>
    anchor sh after = (?q - 1 - sh div 24) * 86400 + sh * 3600 - tehran_offset"
    unfolding sh by (simp add: anchor_def Let_def algebra_simps)
  then show ?thesis by blast
qed

lemma anchor_le: "of_int (anchor sh after) \<le> py_round 6 after"
proof -
  let ?local = "py_round 6 after + of_int tehran_offset"
  have "of_int (\<lfloor>?local / 86400\<rfloor> * 86400) \<le> ?local" using of_int_floor_le [of "?local / 86400"] by (simp add: divide_simps)
  moreover have "sh mod 24 * 3600 \<le> 86400" using pos_mod_bound [of 24 sh] by simp
  then have "of_int (sh mod 24 * 3600) \<le> (86400 :: rat)" by (metis of_int_le_iff of_int_numeral)
  ultimately show ?thesis by (auto simp: anchor_def Let_def)
qed

lemma anchor_gt: "py_round 6 after < of_int (anchor sh after) + 86400"
proof -
  let ?local = "py_round 6 after + of_int tehran_offset"
  have "?local / 86400 < of_int (\<lfloor>?local / 86400\<rfloor>) + 1" by linarith
  then have "?local < of_int (\<lfloor>?local / 86400\<rfloor> * 86400) + 86400" by (simp add: divide_simps)
  moreover have "0 \<le> of_int (sh mod 24 * 3600 :: int) * (1 :: rat)" by simp
  ultimately show ?thesis by (auto simp: anchor_def Let_def)
qed

text \<open>
  The next run of a plan is well placed: strictly in the future, at most one period away, a whole number of periods after
  the last start hour; and when the period divides a day, every run is on the plan's own grid of hours.
\<close>

theorem next_run_well_placed:
  fixes every sh :: int and after :: rat
  shows "after < of_int (next_run every sh after) \<and> of_int (next_run every sh after) \<le> after + of_int (max 1 every * 3600)
    \<and> (\<exists>k\<ge>0. next_run every sh after = anchor sh after + k * (max 1 every * 3600))
    \<and> (every dvd 24 \<and> 0 < every \<longrightarrow> (next_run every sh after + tehran_offset - sh * 3600) mod (every * 3600) = 0)"
proof -
  let ?s = "max 1 every * 3600"
  have m: "max 3600 ?s = ?s" by auto
  have "of_int (anchor sh after) \<le> after + of_int ?s"
  proof -
    have "py_round 6 after \<le> after + 1" using py_round_error [of 6 after] unfolding abs_le_iff by simp
    moreover have "(1 :: rat) \<le> of_int ?s" by (metis m max.cobounded1 numeral_le_one_iff of_int_1_le_iff one_le_numeral order_trans)
    ultimately show ?thesis using anchor_le [of sh after] by linarith
  qed
  then have b: "of_int (next_run every sh after) \<le> after + of_int ?s"
    using next_loop_bound [of "anchor sh after" after ?s] by (simp only: next_run_def m)
  obtain k where k: "0 \<le> k" "next_run every sh after = anchor sh after + k * ?s"
    using next_loop_grid [of ?s after "anchor sh after"] by (auto simp only: next_run_def m)
  obtain q where q: "anchor sh after = q * 86400 + sh * 3600 - tehran_offset" using anchor_grid by blast
  have "(next_run every sh after + tehran_offset - sh * 3600) mod (every * 3600) = 0" if "every dvd 24" "0 < every"
  proof -
    from that obtain j where j: "24 = every * j" by (auto elim: dvdE)
    have "q * 86400 + k * ?s = every * 3600 * (q * j + k)" using j that(2) by (simp add: algebra_simps max_def)
    then show ?thesis using k(2) q by (simp add: mod_eq_0_iff_dvd algebra_simps)
  qed
  with k b next_loop_after [of after ?s "anchor sh after"] show ?thesis unfolding next_run_def by blast
qed

lemma py_round_of_int [simp]: "py_round 6 (of_int n) = of_int n"
  by (simp add: py_round_def Let_def)

text \<open>
  A plan whose period is more than one and less than two days does not keep it: whenever such a run ends up scheduled, the following
  one is scheduled only 24 hours later, because each search starts again from the day's start hour.
\<close>

theorem long_period_runs_daily:
  assumes "24 < every" and "every < 48"
  shows "next_run every sh (of_int (next_run every sh (of_int t))) = next_run every sh (of_int t) + 24 * 3600"
proof -
  have m: "max 3600 (max 1 every * 3600) = every * 3600" using assms by simp
  have one: "next_run every sh (of_int u) = anchor sh (of_int u) + every * 3600" for u
  proof -
    have a: "of_int (anchor sh (of_int u)) \<le> (of_int u :: rat)" "(of_int u :: rat) < of_int (anchor sh (of_int u)) + 86400"
      using anchor_le [of sh "of_int u"] anchor_gt [of "of_int u" sh] by simp_all
    have "(of_int u :: rat) < of_int (anchor sh (of_int u) + every * 3600)" using a(2) assms(1) by linarith
    then show ?thesis using a(1) next_loop_one [of "anchor sh (of_int u)" "of_int u" "max 1 every * 3600"] unfolding next_run_def m by simp
  qed
  let ?T = "next_run every sh (of_int t)"
  obtain p where p: "anchor sh (of_int t) = p * 86400 + sh * 3600 - tehran_offset" using anchor_grid by blast
  obtain q where q: "anchor sh (of_int ?T) = q * 86400 + sh * 3600 - tehran_offset" using anchor_grid by blast
  have "anchor sh (of_int ?T) \<le> ?T" "?T < anchor sh (of_int ?T) + 86400"
    using anchor_le [of sh "of_int ?T"] anchor_gt [of "of_int ?T" sh] unfolding py_round_of_int by linarith+
  then have "q = p + 1" using one [of t] p q assms by linarith
  then show ?thesis using one [of t] one [of ?T] p q by linarith
qed

section \<open>Starting runs\<close>

lemma start_cases:
  obtains (refused) e where "start now pid tg d = (d, Inl e)"
  | (started) p where "pid \<notin> set (running d)" "p \<in> set (backup_plans d)" "pl_id p = pid"
      "start now pid tg d = (d\<lparr>backup_runs := backup_runs d @ [\<lparr>rn_id = next_rowid (map rn_id (backup_runs d)), rn_plan = Some pid,
         rn_server = pl_server p, rn_started = now, rn_ended = None, rn_state = ''running'', rn_size = None, rn_path = None,
         rn_dest_server = pl_dest_server p, rn_dest_path = None, rn_error = [], rn_trigger = tg\<rparr>], running := running d @ [pid]\<rparr>,
         Inr (next_rowid (map rn_id (backup_runs d))))"
proof (cases "pid \<in> set (running d)")
  case True
  then show ?thesis by (intro refused) (simp add: start_def)
next
  case False
  show ?thesis
  proof (cases "select_one (\<lambda>p. pl_id p = pid) (backup_plans d)")
    case None
    with False show ?thesis by (intro refused) (simp add: start_def)
  next
    case (Some p)
    with False select_one_Some [OF Some] show ?thesis by (intro started [of p]) (simp_all add: start_def Let_def)
  qed
qed

lemma tick_plan_cases:
  obtains (idle) "running (tick_plan now p d) = running d" "backup_runs (tick_plan now p d) = backup_runs d"
  | (started) r where "pl_id p \<notin> set (running d)" "length (running d) < MAX_PARALLEL" "\<exists>lv. peek (pl_server p) d = Some lv \<and> lv_ws lv \<noteq> None"
      "running (tick_plan now p d) = running d @ [pl_id p]" "backup_runs (tick_plan now p d) = backup_runs d @ [r]"
      "rn_id r = next_rowid (map rn_id (backup_runs d))" "rn_plan r = Some (pl_id p)" "rn_state r = ''running''"
proof (cases "pl_id p \<in> set (running d) \<or> MAX_PARALLEL \<le> length (running d)")
  case True
  then show ?thesis by (intro idle) (simp_all add: tick_plan_def)
next
  case False
  let ?d = "d\<lparr>backup_plans := update_where (\<lambda>q. pl_id q = pl_id p)
    (\<lambda>q. q\<lparr>pl_next_run := Some (next_run (pl_every_hours p) (pl_start_hour p) now)\<rparr>) (backup_plans d)\<rparr>"
  show ?thesis
  proof (cases "\<exists>lv. peek (pl_server p) d = Some lv \<and> lv_ws lv \<noteq> None")
    case off: False
    with False show ?thesis by (intro idle) (auto simp: tick_plan_def split: option.splits)
  next
    case on: True
    with False have t: "tick_plan now p d = fst (start (py_trunc now) (pl_id p) ''schedule'' ?d)" by (auto simp: tick_plan_def)
    show ?thesis
    proof (rule start_cases [of "py_trunc now" "pl_id p" "''schedule''" ?d])
      fix e assume "start (py_trunc now) (pl_id p) ''schedule'' ?d = (?d, Inl e)"
      then show ?thesis by (intro idle) (simp_all add: t)
    next
      fix q assume "start (py_trunc now) (pl_id p) ''schedule'' ?d = (?d\<lparr>backup_runs := backup_runs ?d @ [\<lparr>rn_id = next_rowid (map rn_id (backup_runs ?d)),
         rn_plan = Some (pl_id p), rn_server = pl_server q, rn_started = py_trunc now, rn_ended = None, rn_state = ''running'', rn_size = None, rn_path = None,
         rn_dest_server = pl_dest_server q, rn_dest_path = None, rn_error = [], rn_trigger = ''schedule''\<rparr>], running := running ?d @ [pl_id p]\<rparr>,
         Inr (next_rowid (map rn_id (backup_runs ?d))))"
      with False on show ?thesis by (intro started) (auto simp: t)
    qed
  qed
qed

lemma start_lives [simp]: "lives (fst (start now pid tg d)) = lives d"
  by (auto simp: start_def Let_def split: option.split)

lemma tick_plan_peek [simp]: "peek sid (tick_plan now p d) = peek sid d"
  by (auto simp: peek_def tick_plan_def split: option.split)

definition server_up :: "plan_row \<Rightarrow> 'a hub_scheme \<Rightarrow> bool" where
  "server_up p d = (\<exists>lv. peek (pl_server p) d = Some lv \<and> lv_ws lv \<noteq> None)"

lemma fold_tick:
  "\<exists>new. running (fold (tick_plan now) ps e) = running e @ new \<and> distinct new \<and> set new \<inter> set (running e) = {}
     \<and> length (running e @ new) \<le> max (length (running e)) MAX_PARALLEL \<and> set new \<subseteq> pl_id ` {p \<in> set ps. server_up p e}"
proof (induction ps arbitrary: e)
  case (Cons p ps)
  have up: "server_up q (tick_plan now p e) = server_up q e" for q by (simp add: server_up_def)
  from Cons.IH [of "tick_plan now p e"] obtain new where new:
    "running (fold (tick_plan now) (p # ps) e) = running (tick_plan now p e) @ new" "distinct new" "set new \<inter> set (running (tick_plan now p e)) = {}"
    "length (running (tick_plan now p e) @ new) \<le> max (length (running (tick_plan now p e))) MAX_PARALLEL"
    "set new \<subseteq> pl_id ` {p \<in> set ps. server_up p e}"
    unfolding up fold_simps by blast
  then have sub: "set new \<subseteq> pl_id ` {q \<in> set (p # ps). server_up q e}" by auto
  show ?case
  proof (rule tick_plan_cases [of now p e])
    assume i: "running (tick_plan now p e) = running e"
    show ?thesis by (rule exI [of _ new]) (use new(1-4) sub i in simp)
  next
    fix r assume n: "pl_id p \<notin> set (running e)" "length (running e) < MAX_PARALLEL" "\<exists>lv. peek (pl_server p) e = Some lv \<and> lv_ws lv \<noteq> None"
      and r: "running (tick_plan now p e) = running e @ [pl_id p]"
    have "server_up p e" using n(3) by (simp add: server_up_def)
    with sub have "set (pl_id p # new) \<subseteq> pl_id ` {q \<in> set (p # ps). server_up q e}" by simp
    moreover have "distinct (pl_id p # new)" "set (pl_id p # new) \<inter> set (running e) = {}" using new(2,3) n(1) unfolding r by auto
    moreover have "length (running e @ pl_id p # new) \<le> max (length (running e)) MAX_PARALLEL" using new(4) n(2) unfolding r by simp
    moreover have "running (fold (tick_plan now) (p # ps) e) = running e @ pl_id p # new" using new(1) unfolding r by simp
    ultimately show ?thesis by blast
  qed
qed simp

text \<open>
  The scheduler never overloads the hub: however many plans are due, it starts runs only while fewer than two are in progress,
  never starts a plan that is already running, and starts only plans that are enabled, due and whose server is
  connected at that moment.
\<close>

theorem tick_respects_limit:
  "\<exists>new. running (tick now d) = running d @ new \<and> distinct new \<and> set new \<inter> set (running d) = {}
     \<and> length (running (tick now d)) \<le> max (length (running d)) MAX_PARALLEL
     \<and> set new \<subseteq> pl_id ` {p \<in> set (backup_plans d). plan_due now p \<and> server_up p d}"
proof -
  from fold_tick [of now "filter (plan_due now) (backup_plans d)" d] obtain new where
    n: "running (tick now d) = running d @ new" "distinct new" "set new \<inter> set (running d) = {}"
    "length (running d @ new) \<le> max (length (running d)) MAX_PARALLEL"
    "set new \<subseteq> pl_id ` {p \<in> set (filter (plan_due now) (backup_plans d)). server_up p d}" unfolding tick_def by blast
  have "{p \<in> set (filter (plan_due now) (backup_plans d)). server_up p d} = {p \<in> set (backup_plans d). plan_due now p \<and> server_up p d}" by auto
  with n show ?thesis by (intro exI [of _ new]) simp
qed

section \<open>What a run leaves alone\<close>

definition keeps :: "('h \<Rightarrow> 'k) \<Rightarrow> ('h, 'v) act \<Rightarrow> bool" where
  "keeps f m = (\<forall>s. f (snd (fst (m s))) = f (snd s))"

named_theorems keeps_rules \<open>which actions keep which part of the state\<close>

lemma keeps_ask [keeps_rules]: "keeps f (ask env sid op args)"
  by (simp add: keeps_def ask_def Let_def)

lemma keeps_ares [keeps_rules]: "keeps f (ares r)"
  by (simp add: keeps_def ares_def)

lemma keeps_amod: "(\<And>d. f (g d) = f d) \<Longrightarrow> keeps f (amod g)"
  by (simp add: keeps_def amod_def)

lemma keeps_abind [keeps_rules]: "keeps f m \<Longrightarrow> (\<And>v. keeps f (k v)) \<Longrightarrow> keeps f (abind m k)"
  by (simp add: keeps_def abind_def split: prod.split sum.split) (metis fst_conv snd_conv)

lemma keeps_poll_job [keeps_rules]: "keeps f (poll_job env sid jid fuel misses)"
proof -
  have "snd (fst (poll_job env sid jid fuel misses s)) = snd s" for s :: "rpc_call list \<times> 'a"
  proof (induction fuel arbitrary: misses s)
    case (Suc fuel)
    then show ?case by (simp add: ask_def Let_def split: sum.split exc.split option.split)
  qed simp
  then show ?thesis by (simp add: keeps_def)
qed

lemma copy_loop_state: "snd (fst (copy_loop env src path dst dest fuel offset upload s)) = snd s"
proof (induction fuel arbitrary: offset upload s)
  case (Suc fuel)
  then show ?case by (simp add: ask_def Let_def split: sum.split prod.split)
qed simp

lemma keeps_copy_to [keeps_rules]: "keeps f (copy_to env fuel src p dst dest sz)"
proof -
  have "snd (fst (copy_to env fuel src p dst dest sz s)) = snd s" for s :: "rpc_call list \<times> 'a"
  proof -
    obtain s2 up r where e: "copy_loop env src p dst dest fuel 0 (JStr []) s = (s2, up, r)" by (cases "copy_loop env src p dst dest fuel 0 (JStr []) s")
    then have "snd s2 = snd s" using copy_loop_state [of env src p dst dest fuel 0 "JStr []" s] by simp
    with e show ?thesis by (cases r) (simp_all add: copy_to_def ask_def Let_def split: sum.split exc.split)
  qed
  then show ?thesis by (simp add: keeps_def)
qed

lemma keeps_copy_between [keeps_rules]: "keeps f (copy_between env fuel src path dst sz)"
proof -
  have "f (snd (fst (copy_between env fuel src path dst sz s))) = f (snd s)" for s
  proof -
    have "keeps f (abind (ares (rbind (dest_of dst (snd s)) (\<lambda>lv. dest_dir_of lv src))) (\<lambda>dir.
     abind (ask env dst ''fs.mkdir'' [(''path'', JStr dir), (''parents'', JBool True)]) (\<lambda>_.
     abind (ares (case path of JStr p \<Rightarrow> Inr p | _ \<Rightarrow> Inl TypeError)) (\<lambda>p.
     copy_to env fuel src p dst (posix_join dir (basename p)) sz))))" by (intro keeps_rules)
    then show ?thesis unfolding keeps_def copy_between_def by blast
  qed
  then show ?thesis by (simp add: keeps_def)
qed

lemma keeps_copy_away:
  assumes "\<And>g d. (\<And>r. rn_id (g r) = rn_id r \<and> rn_plan (g r) = rn_plan r \<and> rn_state (g r) = rn_state r) \<Longrightarrow> f (upd_run rid g d) = f d"
  shows "keeps f (copy_away env fuel p rid path sz)"
proof -
  have m: "keeps f (amod (upd_run rid (\<lambda>r. r\<lparr>rn_dest_path := Some dp\<rparr>)))" for dp by (rule keeps_amod) (simp add: assms)
  show ?thesis unfolding copy_away_def
    by (simp split: option.split) (auto intro!: keeps_rules m)
qed

lemma keeps_run_body:
  assumes "\<And>g d. (\<And>r. rn_id (g r) = rn_id r \<and> rn_plan (g r) = rn_plan r \<and> rn_state (g r) = rn_state r) \<Longrightarrow> f (upd_run rid g d) = f d"
  shows "keeps f (run_body rp env fuel p rid)"
proof -
  have m: "keeps f (amod (upd_run rid (\<lambda>r. r\<lparr>rn_path := a, rn_size := b\<rparr>)))" for a b by (rule keeps_amod) (simp add: assms)
  have "keeps f (local_part rp env fuel p rid)" unfolding local_part_def by (intro keeps_rules m)
  then show ?thesis unfolding run_body_def by (intro keeps_rules) (auto intro!: keeps_copy_away assms)
qed

definition run_key :: "run_row \<Rightarrow> int \<times> int option \<times> string" where
  "run_key r = (rn_id r, rn_plan r, rn_state r)"

lemma upd_run_keys:
  "(\<And>r. rn_id (g r) = rn_id r \<and> rn_plan (g r) = rn_plan r \<and> rn_state (g r) = rn_state r) \<Longrightarrow>
   map run_key (backup_runs (upd_run rid g d)) = map run_key (backup_runs d)"
  by (simp add: upd_run_def) (rule map_update_where, simp add: run_key_def)

lemma step_backups [simp]:
  "backup_runs (step kind sid sub bad v msg now q d) = backup_runs d"
  "backup_plans (step kind sid sub bad v msg now q d) = backup_plans d"
  by (auto simp: step_def open_event_def close_event_def fire_def Let_def split: option.splits prod.splits)

lemma step_running [simp]: "running (step kind sid sub bad v msg now q d) = running d" for d :: "'a hub_scheme"
  by (auto simp: step_def open_event_def close_event_def fire_def Let_def split: option.splits prod.splits)

section \<open>No plan runs twice at once\<close>

definition tasks_ok :: "(int \<times> int option \<times> string) list \<Rightarrow> int list \<Rightarrow> (int \<times> int) list \<Rightarrow> bool" where
  \<comment> \<open>keys of the runs table, plans with a task, and the tasks as pairs of run and plan\<close>
  "tasks_ok K R ts =
     (distinct (map fst K) \<and> distinct (map fst ts) \<and> distinct (map snd ts) \<and> distinct R \<and> snd ` set ts = set R \<and> fst ` set ts \<subseteq> fst ` set K
      \<and> (\<forall>k \<in> set K. snd (snd k) = ''running'' \<longrightarrow> (\<exists>pid. (fst k, pid) \<in> set ts \<and> (fst (snd k) = None \<or> fst (snd k) = Some pid))))"

abbreviation keys :: "'a db_scheme \<Rightarrow> (int \<times> int option \<times> string) list" where
  "keys d \<equiv> map run_key (backup_runs d)"

definition task_of :: "run_row \<Rightarrow> int \<times> int" where
  "task_of r = (rn_id r, the (rn_plan r))"

definition new_tasks :: "'a db_scheme \<Rightarrow> 'a db_scheme \<Rightarrow> (int \<times> int) list" where
  "new_tasks d d' = map task_of (drop (length (backup_runs d)) (backup_runs d'))"

inductive backup_step :: "'a hub_scheme \<times> (int \<times> int) list \<Rightarrow> 'a hub_scheme \<times> (int \<times> int) list \<Rightarrow> bool" where
  tick: "backup_step (d, ts) (tick now d, ts @ new_tasks d (tick now d))"
| run_now: "backup_step (d, ts) (fst (start now pid tg d), ts @ new_tasks d (fst (start now pid tg d)))"
| finish: "(rid, pl_id p) \<in> set ts \<Longrightarrow>
    backup_step (d, ts) (snd (run_plan rp env fuel t p rid d), filter (\<lambda>x. x \<noteq> (rid, pl_id p)) ts)"
| delete_plan: "backup_step (d, ts) (delete_plan_row pid d, ts)"
| remove_server: "backup_step (d, ts) (delete_server sid t d, ts)"
| restart: "backup_step (d, ts) ((recover now d)\<lparr>running := []\<rparr>, [])"
| other: "backup_runs d' = backup_runs d \<Longrightarrow> running d' = running d \<Longrightarrow> backup_step (d, ts) (d', ts)"

lemma tasks_ok_start:
  assumes "tasks_ok K R ts" "rid = next_rowid (map fst K)" "pid \<notin> set R"
  shows "tasks_ok (K @ [(rid, Some pid, ''running'')]) (R @ [pid]) (ts @ [(rid, pid)])"
proof -
  have "rid \<notin> set (map fst K)" unfolding assms(2) by (rule next_rowid_fresh)
  moreover have "rid \<notin> set (map fst ts)" using calculation assms(1) unfolding tasks_ok_def by auto
  moreover have "pid \<notin> set (map snd ts)" using assms(1,3) unfolding tasks_ok_def by auto
  ultimately show ?thesis using assms(1,3) unfolding tasks_ok_def by auto
qed

lemma tasks_ok_finish:
  assumes "tasks_ok K R ts" "(rid, pid) \<in> set ts" "st \<noteq> ''running''"
  shows "tasks_ok (map (\<lambda>k. if fst k = rid then (rid, fst (snd k), st) else k) K) (filter (\<lambda>i. i \<noteq> pid) R) (filter (\<lambda>x. x \<noteq> (rid, pid)) ts)"
proof -
  let ?K = "map (\<lambda>k. if fst k = rid then (rid, fst (snd k), st) else k) K" and ?ts = "filter (\<lambda>x. x \<noteq> (rid, pid)) ts"
  have k: "map fst ?K = map fst K" by (induction K) auto
  then have ks: "fst ` set ?K = fst ` set K" by (metis set_map)
  have "distinct (map fst ?ts)" "distinct (map snd ?ts)" using assms(1) unfolding tasks_ok_def by (simp_all add: distinct_map_filter)
  moreover have "snd ` set ?ts = set (filter (\<lambda>i. i \<noteq> pid) R)"
  proof -
    have "snd x \<noteq> pid" if "x \<in> set ts" "x \<noteq> (rid, pid)" for x
      using that assms(1,2) unfolding tasks_ok_def distinct_map by (metis inj_onD snd_conv)
    then have "snd ` set ?ts = snd ` set ts - {pid}" by (auto simp: image_iff)
    moreover have "snd ` set ts = set R" using assms(1) unfolding tasks_ok_def by blast
    ultimately show ?thesis by auto
  qed
  moreover have "\<exists>p. (fst k, p) \<in> set ?ts \<and> (fst (snd k) = None \<or> fst (snd k) = Some p)"
    if kk: "k \<in> set ?K" "snd (snd k) = ''running''" for k
  proof -
    from kk(1) obtain k0 where k0: "k0 \<in> set K" "k = (if fst k0 = rid then (rid, fst (snd k0), st) else k0)" unfolding set_map by (elim imageE) blast
    with kk(2) assms(3) have n: "fst k \<noteq> rid" "k \<in> set K" by (auto split: if_splits)
    then obtain p where "(fst k, p) \<in> set ts" "fst (snd k) = None \<or> fst (snd k) = Some p"
      using assms(1) kk(2) unfolding tasks_ok_def by blast
    with n show ?thesis by auto
  qed
  ultimately show ?thesis using assms(1) unfolding tasks_ok_def k ks by auto
qed

lemma tasks_ok_unlink:
  assumes "tasks_ok K R ts" "\<And>k. g k = k \<or> g k = (fst k, None, snd (snd k))"
  shows "tasks_ok (map g K) R ts"
proof -
  have f: "fst (g k) = fst k" "snd (snd (g k)) = snd (snd k)" "fst (snd (g k)) = fst (snd k) \<or> fst (snd (g k)) = None" for k
    using assms(2) [of k] by auto
  then have "map fst (map g K) = map fst K" "fst ` set (map g K) = fst ` set K" by (simp_all add: image_image)
  with assms(1) f show ?thesis unfolding tasks_ok_def by (simp del: map_map) (metis)
qed

lemma keys_ids: "map fst (keys d) = map rn_id (backup_runs d)"
  by (simp add: run_key_def)

lemma tasks_ok_started:
  assumes "tasks_ok (keys e) (running e) ts" "backup_runs e' = backup_runs e @ [r]" "running e' = running e @ [pid]" "pid \<notin> set (running e)"
    and "rn_id r = next_rowid (map rn_id (backup_runs e))" "rn_plan r = Some pid" "rn_state r = ''running''"
  shows "tasks_ok (keys e') (running e') (ts @ [task_of r])"
proof -
  have "rn_id r = next_rowid (map fst (keys e))" unfolding keys_ids by (rule assms(5))
  from tasks_ok_start [OF assms(1) this assms(4)] show ?thesis
    using assms(2,3,6,7) by (simp add: task_of_def run_key_def [of r])
qed

lemma tick_tasks:
  assumes "tasks_ok (keys e) (running e) ts"
  shows "\<exists>xs. backup_runs (fold (tick_plan now) ps e) = backup_runs e @ xs
    \<and> tasks_ok (keys (fold (tick_plan now) ps e)) (running (fold (tick_plan now) ps e)) (ts @ map task_of xs)"
  using assms
proof (induction ps arbitrary: e ts)
  case (Cons p ps)
  show ?case
  proof (rule tick_plan_cases [of now p e])
    assume "running (tick_plan now p e) = running e" "backup_runs (tick_plan now p e) = backup_runs e"
    with Cons.IH [of "tick_plan now p e" ts] Cons.prems show ?thesis by simp
  next
    fix r assume r: "pl_id p \<notin> set (running e)" "running (tick_plan now p e) = running e @ [pl_id p]"
      "backup_runs (tick_plan now p e) = backup_runs e @ [r]" "rn_id r = next_rowid (map rn_id (backup_runs e))"
      "rn_plan r = Some (pl_id p)" "rn_state r = ''running''"
    have "tasks_ok (keys (tick_plan now p e)) (running (tick_plan now p e)) (ts @ [task_of r])"
      by (rule tasks_ok_started [OF Cons.prems r(3,2,1,4-6)])
    from Cons.IH [OF this] r(3) show ?thesis by auto
  qed
qed simp

lemma map_key_update:
  "(\<And>r. p r \<Longrightarrow> run_key (f r) = g (run_key r)) \<Longrightarrow> (\<And>r. \<not> p r \<Longrightarrow> g (run_key r) = run_key r) \<Longrightarrow>
   map run_key (update_where p f rows) = map g (map run_key rows)"
  by (induction rows) (auto simp: update_where_def)

lemma keys_delete_plan:
  "keys (delete_plan_row pid d) = map (\<lambda>k. if fst (snd k) = Some pid then (fst k, None, snd (snd k)) else k) (keys d)"
  unfolding delete_plan_row_def by simp (subst map_map [symmetric], rule map_key_update, simp_all add: run_key_def)

lemma keys_delete_server:
  fixes d :: "'a hub_scheme" and sid :: string
  defines "gone \<equiv> \<lambda>i. \<exists>p \<in> set (backup_plans d). pl_server p = sid \<and> pl_id p = i"
  shows "keys (delete_server sid t d) = map (\<lambda>k. case fst (snd k) of None \<Rightarrow> k | Some i \<Rightarrow> if gone i then (fst k, None, snd (snd k)) else k) (keys d)"
    "running (delete_server sid t d) = running d"
proof -
  have "backup_runs (delete_server sid t d) =
    update_where (\<lambda>r. case rn_plan r of None \<Rightarrow> False | Some i \<Rightarrow> gone i) (\<lambda>r. r\<lparr>rn_plan := None\<rparr>) (backup_runs d)"
    by (simp add: delete_server_def delete_server_row_def domains_forget_def forget_server_def live_forget_def Let_def gone_def cong: option.case_cong)
  then show "keys (delete_server sid t d) = map (\<lambda>k. case fst (snd k) of None \<Rightarrow> k | Some i \<Rightarrow> if gone i then (fst k, None, snd (snd k)) else k) (keys d)"
    by simp (subst map_map [symmetric], rule map_key_update, auto simp: run_key_def split: option.splits)
  show "running (delete_server sid t d) = running d"
    by (simp add: delete_server_def delete_server_row_def domains_forget_def forget_server_def live_forget_def Let_def)
qed

lemma keys_finish:
  "(\<And>r. rn_id (f r) = rn_id r \<and> rn_plan (f r) = rn_plan r \<and> rn_state (f r) = st) \<Longrightarrow>
   keys (upd_run rid f d) = map (\<lambda>k. if fst k = rid then (rid, fst (snd k), st) else k) (keys d)"
  unfolding upd_run_def by simp (subst map_map [symmetric], rule map_key_update, auto simp: run_key_def)

lemma run_body_keys:
  assumes "run_body rp env fuel p rid ([], d) = ((tr, d1), r)"
  shows "keys d1 = keys d" "running d1 = running d"
proof -
  have "keeps keys (run_body rp env fuel p rid)" by (rule keeps_run_body) (rule upd_run_keys)
  moreover have "keeps running (run_body rp env fuel p rid)" by (rule keeps_run_body) (simp add: upd_run_def)
  ultimately show "keys d1 = keys d" "running d1 = running d" using assms unfolding keeps_def by (metis fst_conv snd_conv)+
qed

lemma run_plan_keys:
  "\<exists>st. st \<noteq> ''running'' \<and> keys (snd (run_plan rp env fuel t p rid d)) = map (\<lambda>k. if fst k = rid then (rid, fst (snd k), st) else k) (keys d)"
  "running (snd (run_plan rp env fuel t p rid d)) = filter (\<lambda>i. i \<noteq> pl_id p) (running d)"
proof -
  obtain tr d1 r where b: "run_body rp env fuel p rid ([], d) = ((tr, d1), r)" by (metis prod.collapse)
  note k = run_body_keys [OF b]
  show "\<exists>st. st \<noteq> ''running'' \<and> keys (snd (run_plan rp env fuel t p rid d)) = map (\<lambda>k. if fst k = rid then (rid, fst (snd k), st) else k) (keys d)"
  proof (cases r)
    case (Inl e)
    then show ?thesis by (intro exI [of _ "''error''"]) (simp add: run_plan_def b Let_def k keys_finish [where st = "''error''"] del: map_map)
  next
    case (Inr u)
    then show ?thesis by (intro exI [of _ "''done''"]) (simp add: run_plan_def b Let_def k keys_finish [where st = "''done''"] del: map_map)
  qed
  show "running (snd (run_plan rp env fuel t p rid d)) = filter (\<lambda>i. i \<noteq> pl_id p) (running d)"
    using k(2) by (cases r) (simp_all add: run_plan_def b Let_def upd_run_def)
qed

lemma backup_step_inv:
  assumes "backup_step (d, ts) (d', ts')" "tasks_ok (keys d) (running d) ts"
  shows "tasks_ok (keys d') (running d') ts'"
  using assms(1)
proof (cases rule: backup_step.cases)
  case (tick now)
  obtain xs where "backup_runs (Backups.tick now d) = backup_runs d @ xs" "tasks_ok (keys (Backups.tick now d)) (running (Backups.tick now d)) (ts @ map task_of xs)"
    using tick_tasks [OF assms(2)] unfolding tick_def by blast
  then show ?thesis using tick by (simp add: new_tasks_def)
next
  case (run_now now pid tg)
  show ?thesis
  proof (rule start_cases [of now pid tg d])
    fix e assume "start now pid tg d = (d, Inl e)"
    then show ?thesis using run_now assms(2) by (simp add: new_tasks_def)
  next
    fix p assume n: "pid \<notin> set (running d)" and s: "start now pid tg d = (d\<lparr>backup_runs := backup_runs d @ [\<lparr>rn_id = next_rowid (map rn_id (backup_runs d)), rn_plan = Some pid,
         rn_server = pl_server p, rn_started = now, rn_ended = None, rn_state = ''running'', rn_size = None, rn_path = None,
         rn_dest_server = pl_dest_server p, rn_dest_path = None, rn_error = [], rn_trigger = tg\<rparr>], running := running d @ [pid]\<rparr>,
         Inr (next_rowid (map rn_id (backup_runs d))))"
    let ?r = "last (backup_runs (fst (start now pid tg d)))"
    have e: "backup_runs (fst (start now pid tg d)) = backup_runs d @ [?r]" by (simp add: s)
    have "tasks_ok (keys (fst (start now pid tg d))) (running (fst (start now pid tg d))) (ts @ [task_of ?r])"
      by (rule tasks_ok_started [OF assms(2) e _ n]) (simp_all add: s)
    moreover have "drop (length (backup_runs d)) (backup_runs (fst (start now pid tg d))) = [?r]" by (subst e) simp
    ultimately show ?thesis using run_now by (simp add: new_tasks_def)
  qed
next
  case (finish rid p rp env fuel t)
  have d': "d' = snd (run_plan rp env fuel t p rid d)" "ts' = filter (\<lambda>x. x \<noteq> (rid, pl_id p)) ts" "(rid, pl_id p) \<in> set ts" using finish by simp_all
  obtain st where st: "st \<noteq> ''running''" and k: "keys (snd (run_plan rp env fuel t p rid d)) = map (\<lambda>k. if fst k = rid then (rid, fst (snd k), st) else k) (keys d)"
    using run_plan_keys(1) [of rp env fuel t p rid d] by (elim exE conjE)
  show ?thesis unfolding d'(1,2) k run_plan_keys(2) by (rule tasks_ok_finish [OF assms(2) d'(3) st])
next
  case (delete_plan pid)
  have "running d' = running d" using delete_plan by (simp add: delete_plan_row_def)
  with delete_plan show ?thesis using tasks_ok_unlink [OF assms(2)] by (simp add: keys_delete_plan del: map_map)
next
  case (remove_server sid t)
  with tasks_ok_unlink [OF assms(2)] show ?thesis by (simp add: keys_delete_server del: map_map split: option.split)
next
  case (restart now)
  have "map fst (keys d') = map fst (keys d)" using restart unfolding recover_def by (simp add: run_key_def update_where_def)
  moreover have "snd (snd k) \<noteq> ''running''" if "k \<in> set (keys d')" for k
    using that restart unfolding recover_def by (auto simp: run_key_def elim!: update_where_cases)
  ultimately show ?thesis using assms(2) restart unfolding tasks_ok_def by auto
next
  case other
  then show ?thesis using assms(2) by simp
qed

text \<open>
  C17. A plan never runs twice at the same time: whatever the order of scheduler ticks, manual starts, finished runs, deleted plans and
  servers and restarts of the hub, two runs of one plan are never in progress together, and the hub holds at most
  one task per plan.
\<close>

theorem no_plan_runs_twice:
  assumes "backup_step\<^sup>*\<^sup>* (d0, []) (d, ts)" and "distinct (map rn_id (backup_runs d0))" and "running d0 = []"
    and "\<forall>r \<in> set (backup_runs d0). rn_state r \<noteq> ''running''"
    and "r1 \<in> set (backup_runs d)" "r2 \<in> set (backup_runs d)" "rn_state r1 = ''running''" "rn_state r2 = ''running''"
    and "rn_plan r1 = Some pid" "rn_plan r2 = Some pid"
  shows "r1 = r2 \<and> pid \<in> set (running d) \<and> distinct (running d)"
proof -
  have "tasks_ok (keys d0) (running d0) []"
    using assms(2-4) by (auto simp: tasks_ok_def keys_ids [unfolded comp_def] run_key_def comp_def)
  moreover have "tasks_ok (keys (fst y)) (running (fst y)) (snd y)" if "backup_step\<^sup>*\<^sup>* x y" "tasks_ok (keys (fst x)) (running (fst x)) (snd x)"
    for x y :: "'a hub_scheme \<times> (int \<times> int) list"
    using that
  proof (induction rule: rtranclp_induct)
    case (step y z)
    then show ?case using backup_step_inv [of "fst y" "snd y" "fst z" "snd z"] by simp
  qed
  ultimately have ok: "tasks_ok (keys d) (running d) ts" using assms(1) by fastforce
  have t: "(rn_id r, pid) \<in> set ts" if "r \<in> set (backup_runs d)" "rn_state r = ''running''" "rn_plan r = Some pid" for r
  proof -
    have "run_key r \<in> set (keys d)" using that(1) by simp
    then have "\<exists>p. (rn_id r, p) \<in> set ts \<and> (rn_plan r = None \<or> rn_plan r = Some p)"
      using ok that(2) unfolding tasks_ok_def by (metis fst_conv run_key_def snd_conv)
    then show ?thesis using that(3) by auto
  qed
  have "inj_on snd (set ts)" "inj_on rn_id (set (backup_runs d))" "snd ` set ts = set (running d)" "distinct (running d)"
    using ok unfolding tasks_ok_def keys_ids by (simp_all add: distinct_map)
  moreover have "(rn_id r1, pid) = (rn_id r2, pid)"
    using calculation(1) t [OF assms(5,7,9)] t [OF assms(6,8,10)] by (metis inj_onD snd_conv)
  ultimately show ?thesis using assms(5,6) t [OF assms(5,7,9)] by (metis Pair_inject image_eqI inj_onD snd_conv)
qed

section \<open>The local file goes last\<close>

definition ops_in :: "string set \<Rightarrow> ('h, 'v) act \<Rightarrow> bool" where
  "ops_in S m = (\<forall>s. \<exists>cs. fst (fst (m s)) = fst s @ cs \<and> rc_op ` set cs \<subseteq> S)"

named_theorems ops_rules \<open>which calls an action can make\<close>

lemma ops_ask [ops_rules]: "op \<in> S \<Longrightarrow> ops_in S (ask env sid op args)"
  by (auto simp: ops_in_def ask_def Let_def)

lemma ops_ares [ops_rules]: "ops_in S (ares r)"
  by (simp add: ops_in_def ares_def)

lemma ops_amod [ops_rules]: "ops_in S (amod g)"
  by (simp add: ops_in_def amod_def)

lemma ops_abind [ops_rules]:
  assumes "ops_in S m" "\<And>v. ops_in S (k v)"
  shows "ops_in S (abind m k)"
  unfolding ops_in_def
proof
  fix s
  obtain s1 r where m: "m s = (s1, r)" by fastforce
  then obtain cs where cs: "fst s1 = fst s @ cs" "rc_op ` set cs \<subseteq> S" using assms(1) unfolding ops_in_def by (metis fst_conv)
  show "\<exists>cs. fst (fst (abind m k s)) = fst s @ cs \<and> rc_op ` set cs \<subseteq> S"
  proof (cases r)
    case (Inl e)
    with m cs show ?thesis by (simp add: abind_def)
  next
    case (Inr v)
    from assms(2) [of v] obtain ds where "fst (fst (k v s1)) = fst s1 @ ds" "rc_op ` set ds \<subseteq> S" unfolding ops_in_def by blast
    with m cs Inr show ?thesis by (intro exI [of _ "cs @ ds"]) (simp add: abind_def image_Un)
  qed
qed

lemma ops_mono: "ops_in S m \<Longrightarrow> S \<subseteq> T \<Longrightarrow> ops_in T m"
  unfolding ops_in_def by (meson order_trans)

lemma ops_poll_job [ops_rules]: "''job.status'' \<in> S \<Longrightarrow> ops_in S (poll_job env sid jid fuel misses)"
proof (induction fuel arbitrary: misses)
  case 0
  then show ?case by (simp add: ops_in_def)
next
  case (Suc fuel)
  have ask: "ask env sid ''job.status'' [(''id'', jid)] s = ((fst s @ [c], snd s), env (fst s @ [c]))"
    if "c = \<lparr>rc_sid = sid, rc_op = ''job.status'', rc_args = [(''id'', jid)]\<rparr>" for s :: "rpc_call list \<times> 'a" and c
    using that by (simp add: ask_def Let_def)
  have "\<exists>cs. fst (fst (poll_job env sid jid (Suc fuel) misses s)) = fst s @ cs \<and> rc_op ` set cs \<subseteq> S" for s :: "rpc_call list \<times> 'a"
  proof -
    define c where "c = \<lparr>rc_sid = sid, rc_op = ''job.status'', rc_args = [(''id'', jid)]\<rparr>"
    define s1 where "s1 = (fst s @ [c], snd s)"
    have c: "rc_op c \<in> S" using Suc.prems by (simp add: c_def)
    have rec: "\<exists>cs. fst (fst (poll_job env sid jid fuel m s1)) = fst s @ cs \<and> rc_op ` set cs \<subseteq> S" for m
    proof -
      obtain ds where "fst (fst (poll_job env sid jid fuel m s1)) = fst s1 @ ds" "rc_op ` set ds \<subseteq> S"
        using Suc.IH [OF Suc.prems, of m] unfolding ops_in_def by blast
      then show ?thesis using c by (intro exI [of _ "c # ds"]) (simp add: s1_def)
    qed
    have stop: "\<exists>cs. fst s1 = fst s @ cs \<and> rc_op ` set cs \<subseteq> S" using c by (intro exI [of _ "[c]"]) (simp add: s1_def)
    show ?thesis using rec stop by (simp add: ask [OF c_def] s1_def [symmetric] split: sum.split exc.split option.split)
  qed
  then show ?case by (simp only: ops_in_def) blast
qed

definition writes :: "rpc_call list \<Rightarrow> rpc_call list" where
  "writes cs = filter (\<lambda>c. rc_op c = ''fs.write'') cs"

fun stream_len :: "nat \<Rightarrow> rpc_call list \<Rightarrow> nat option" where
  \<comment> \<open>length of the file that a sequence of writes leaves behind, if each starts where the last ended and only the last is final\<close>
  "stream_len off [] = None"
| "stream_len off (c # cs) =
     (case (rget (rc_args c) ''data'', rget (rc_args c) ''final'') of
        (JStr t, JBool fin) \<Rightarrow>
          (case b64decode t of
             Inr bs \<Rightarrow>
               if rget (rc_args c) ''offset'' \<noteq> jnat off then None
               else if fin then (if cs = [] then Some (off + length bs) else None)
               else stream_len (off + length bs) cs
           | Inl e \<Rightarrow> None)
      | _ \<Rightarrow> None)"

declare stream_len.simps(2) [simp del]

definition answered :: "env \<Rightarrow> rpc_call list \<Rightarrow> rpc_call list \<Rightarrow> bool" where
  \<comment> \<open>every write among \<open>cs\<close>, made after \<open>tr\<close>, was answered\<close>
  "answered env tr cs = (\<forall>k < length cs. rc_op (cs ! k) = ''fs.write'' \<longrightarrow> (\<exists>v. env (tr @ take (Suc k) cs) = Inr v))"

lemma answered_append: "answered env tr (a @ b) \<longleftrightarrow> answered env tr a \<and> answered env (tr @ a) b"
proof -
  have "(\<forall>k < length (a @ b). P k) \<longleftrightarrow> (\<forall>k < length a. P k) \<and> (\<forall>k < length b. P (length a + k))" for P
    by (auto simp: less_diff_conv2) (metis add_diff_inverse_nat add_less_cancel_left)
  then show ?thesis by (simp add: answered_def nth_append)
qed

lemma ask_eq: "ask env sid op args s = ((fst s @ [\<lparr>rc_sid = sid, rc_op = op, rc_args = args\<rparr>], snd s), env (fst s @ [\<lparr>rc_sid = sid, rc_op = op, rc_args = args\<rparr>]))"
  by (simp add: ask_def Let_def)

lemma chunk_of_Inr: "chunk_of part = Inr (v, bs, fin) \<Longrightarrow> \<exists>t. v = JStr t \<and> b64decode t = Inr bs"
proof -
  assume "chunk_of part = Inr (v, bs, fin)"
  then have "(case v of JStr t \<Rightarrow> b64decode t | _ \<Rightarrow> Inl TypeError) = Inr bs" by (auto simp: chunk_of_def rbind_Inr)
  then show ?thesis by (cases v) simp_all
qed

abbreviation read_call :: "string \<Rightarrow> string \<Rightarrow> nat \<Rightarrow> rpc_call" where
  "read_call src path off \<equiv> \<lparr>rc_sid = src, rc_op = ''fs.read'', rc_args = [(''path'', JStr path), (''offset'', jnat off), (''length'', JInt CHUNK)]\<rparr>"

abbreviation write_call :: "string \<Rightarrow> string \<Rightarrow> json \<Rightarrow> nat \<Rightarrow> bool \<Rightarrow> json \<Rightarrow> rpc_call" where
  "write_call dst dest v off fin up \<equiv> \<lparr>rc_sid = dst, rc_op = ''fs.write'', rc_args = [(''path'', JStr dest), (''data'', v), (''offset'', jnat off), (''final'', JBool fin), (''upload'', up)]\<rparr>"

lemma stream_write:
  "stream_len off (write_call dst dest (JStr t) off fin up # cs) =
    (case b64decode t of Inr bs \<Rightarrow> if fin then (if cs = [] then Some (off + length bs) else None) else stream_len (off + length bs) cs | Inl e \<Rightarrow> None)"
  by (simp add: stream_len.simps(2) rget_def dget_def split: sum.split)

lemma copy_loop_step:
  assumes "copy_loop env src path dst dest (Suc fuel) off up s = (s', up', Inr n)"
  obtains part v bs fin res up1 where
    "env (fst s @ [read_call src path off]) = Inr part" "chunk_of part = Inr (v, bs, fin)"
    "env (fst s @ [read_call src path off, write_call dst dest v off fin up]) = Inr res" "upload_of res up = Inr up1"
    "if fin then s' = (fst s @ [read_call src path off, write_call dst dest v off fin up], snd s) \<and> up' = up1 \<and> n = off + length bs
     else copy_loop env src path dst dest fuel (off + length bs) up1 (fst s @ [read_call src path off, write_call dst dest v off fin up], snd s) = (s', up', Inr n)"
  using assms by (simp add: ask_eq split: sum.splits prod.splits if_splits)

lemma copy_loop_ok:
  "copy_loop env src path dst dest fuel off up s = (s', up', Inr n) \<Longrightarrow>
   \<exists>cs. fst s' = fst s @ cs \<and> rc_op ` set cs \<subseteq> {''fs.read'', ''fs.write''} \<and> stream_len off (writes cs) = Some n \<and> answered env (fst s) cs
     \<and> (\<forall>w \<in> set (writes cs). rc_sid w = dst \<and> rget (rc_args w) ''path'' = JStr dest)"
proof (induction fuel arbitrary: off up s)
  case (Suc fuel)
  from Suc.prems show ?case
  proof (rule copy_loop_step)
    fix part v bs fin res up1
    let ?r = "read_call src path off" and ?w = "write_call dst dest v off fin up"
    assume c: "chunk_of part = Inr (v, bs, fin)" and a: "env (fst s @ [?r, ?w]) = Inr res"
      and k: "if fin then s' = (fst s @ [?r, ?w], snd s) \<and> up' = up1 \<and> n = off + length bs
        else copy_loop env src path dst dest fuel (off + length bs) up1 (fst s @ [?r, ?w], snd s) = (s', up', Inr n)"
    from c obtain t where t: "v = JStr t" "b64decode t = Inr bs" using chunk_of_Inr by blast
    have w: "rget (rc_args ?w) ''path'' = JStr dest" by (simp add: rget_def dget_def)
    have ans: "answered env (fst s) [?r, ?w]" using a by (auto simp: answered_def less_Suc_eq)
    show ?thesis
    proof (cases fin)
      case True
      with k t ans w show ?thesis by (intro exI [of _ "[?r, ?w]"]) (simp add: writes_def stream_write)
    next
      case False
      with k have "copy_loop env src path dst dest fuel (off + length bs) up1 (fst s @ [?r, ?w], snd s) = (s', up', Inr n)" by simp
      from Suc.IH [OF this] obtain cs where cs: "fst s' = (fst s @ [?r, ?w]) @ cs" "rc_op ` set cs \<subseteq> {''fs.read'', ''fs.write''}"
        "stream_len (off + length bs) (writes cs) = Some n" "answered env (fst s @ [?r, ?w]) cs"
        "\<forall>w \<in> set (writes cs). rc_sid w = dst \<and> rget (rc_args w) ''path'' = JStr dest" by auto
      have "answered env (fst s) ([?r, ?w] @ cs)" using ans cs(4) unfolding answered_append by simp
      moreover have "writes ([?r, ?w] @ cs) = ?w # writes cs" by (simp add: writes_def)
      ultimately show ?thesis using cs t False w by (intro exI [of _ "[?r, ?w] @ cs"]) (simp add: stream_write)
    qed
  qed
qed simp

lemma copy_loop_ops: "\<exists>cs. fst (fst (copy_loop env src path dst dest fuel off up s)) = fst s @ cs \<and> rc_op ` set cs \<subseteq> {''fs.read'', ''fs.write''}"
proof (induction fuel arbitrary: off up s)
  case (Suc fuel)
  have prefix_ops: "\<exists>cs. x = t @ cs \<and> rc_op ` set cs \<subseteq> S" if "x = (t @ a) @ b" "rc_op ` set a \<subseteq> S" "rc_op ` set b \<subseteq> S" for x t a b S
    using that by (intro exI [of _ "a @ b"]) (simp add: image_Un)
  have r1: "\<exists>cs. fst s @ [read_call src path off] = fst s @ cs \<and> rc_op ` set cs \<subseteq> {''fs.read'', ''fs.write''}"
    by (rule exI [of _ "[read_call src path off]"]) simp
  have r2: "\<exists>cs. fst s @ [read_call src path off, write_call dst dest v off fin up] = fst s @ cs \<and> rc_op ` set cs \<subseteq> {''fs.read'', ''fs.write''}" for v fin
    by (rule exI [of _ "[read_call src path off, write_call dst dest v off fin up]"]) simp
  have r3: "\<exists>cs. fst (fst (copy_loop env src path dst dest fuel off' up' (fst s @ [read_call src path off, write_call dst dest v off fin up], snd s))) = fst s @ cs
    \<and> rc_op ` set cs \<subseteq> {''fs.read'', ''fs.write''}" for v fin off' up'
  proof -
    let ?a = "[read_call src path off, write_call dst dest v off fin up]"
    from Suc.IH [of off' up' "(fst s @ ?a, snd s)"] obtain cs where
      "fst (fst (copy_loop env src path dst dest fuel off' up' (fst s @ ?a, snd s))) = (fst s @ ?a) @ cs" "rc_op ` set cs \<subseteq> {''fs.read'', ''fs.write''}" by auto
    then show ?thesis by (intro prefix_ops [of _ _ ?a]) simp_all
  qed
  show ?case using r1 r2 r3 by (simp add: ask_eq split: sum.split prod.split)
qed simp

abbreviation copy_ops :: "string set" where
  "copy_ops \<equiv> {''fs.mkdir'', ''fs.read'', ''fs.write'', ''fs.abort''}"

lemma ops_copy_to [ops_rules]: "ops_in copy_ops (copy_to env fuel src p dst dest sz)"
  unfolding ops_in_def
proof
  fix s :: "rpc_call list \<times> 'a"
  obtain s2 up r where e: "copy_loop env src p dst dest fuel 0 (JStr []) s = (s2, up, r)" by (cases "copy_loop env src p dst dest fuel 0 (JStr []) s")
  then obtain cs where cs: "fst s2 = fst s @ cs" "rc_op ` set cs \<subseteq> copy_ops" using copy_loop_ops [of env src p dst dest fuel 0 "JStr []" s] by fastforce
  let ?a = "\<lparr>rc_sid = dst, rc_op = ''fs.abort'', rc_args = [(''path'', JStr dest), (''upload'', up)]\<rparr>"
  have 1: "\<exists>cs. fst s2 = fst s @ cs \<and> rc_op ` set cs \<subseteq> copy_ops" using cs by blast
  have 2: "\<exists>cs. fst s2 @ [?a] = fst s @ cs \<and> rc_op ` set cs \<subseteq> copy_ops" using cs by (intro exI [of _ "cs @ [?a]"]) simp
  show "\<exists>cs. fst (fst (copy_to env fuel src p dst dest sz s)) = fst s @ cs \<and> rc_op ` set cs \<subseteq> copy_ops"
    using 1 2 e by (cases r) (simp_all add: copy_to_def ask_eq split: sum.split exc.split)
qed

lemma copy_to_ok:
  assumes "copy_to env fuel src p dst dest sz s = (s', Inr dp)"
  shows "\<exists>cs n. fst s' = fst s @ cs \<and> rc_op ` set cs \<subseteq> copy_ops \<and> stream_len 0 (writes cs) = Some n \<and> eq_size n sz \<and> answered env (fst s) cs
    \<and> (\<forall>w \<in> set (writes cs). rc_sid w = dst \<and> rget (rc_args w) ''path'' = JStr dest)"
proof -
  obtain s2 up r where e: "copy_loop env src p dst dest fuel 0 (JStr []) s = (s2, up, r)" by (cases "copy_loop env src p dst dest fuel 0 (JStr []) s")
  with assms obtain n where n: "r = Inr n" "eq_size n sz" "s' = s2"
    by (cases r) (auto simp: copy_to_def ask_eq split: if_splits sum.splits exc.splits)
  with copy_loop_ok [of env src p dst dest fuel 0 "JStr []" s s2 up n] e show ?thesis by fastforce
qed

lemma copy_between_act:
  "copy_between env fuel src path dst sz s =
    (abind (ares (rbind (dest_of dst (snd s)) (\<lambda>lv. dest_dir_of lv src))) (\<lambda>dir.
     abind (ask env dst ''fs.mkdir'' [(''path'', JStr dir), (''parents'', JBool True)]) (\<lambda>_.
     abind (ares (case path of JStr p \<Rightarrow> Inr p | _ \<Rightarrow> Inl TypeError)) (\<lambda>p.
     copy_to env fuel src p dst (posix_join dir (basename p)) sz)))) s"
  by (fact copy_between_def)

lemma ops_copy_between [ops_rules]: "ops_in copy_ops (copy_between env fuel src path dst sz)"
proof -
  have "\<exists>cs. fst (fst (copy_between env fuel src path dst sz s)) = fst s @ cs \<and> rc_op ` set cs \<subseteq> copy_ops" for s :: "rpc_call list \<times> 'a hub_scheme"
  proof -
    have "ops_in copy_ops (abind (ares (rbind (dest_of dst (snd s)) (\<lambda>lv. dest_dir_of lv src))) (\<lambda>dir.
     abind (ask env dst ''fs.mkdir'' [(''path'', JStr dir), (''parents'', JBool True)]) (\<lambda>_.
     abind (ares (case path of JStr p \<Rightarrow> Inr p | _ \<Rightarrow> Inl TypeError)) (\<lambda>p.
     copy_to env fuel src p dst (posix_join dir (basename p)) sz))) :: ('a hub_scheme, string) act)" by (intro ops_rules) simp
    then show ?thesis unfolding ops_in_def copy_between_act by blast
  qed
  then show ?thesis by (simp only: ops_in_def) blast
qed

lemma abind_Inr: "abind m k s = (s', Inr v) \<longleftrightarrow> (\<exists>s1 w. m s = (s1, Inr w) \<and> k w s1 = (s', Inr v))"
  by (auto simp: abind_def split: prod.split sum.split)

lemma copy_between_ok:
  assumes "copy_between env fuel src path dst sz s = (s', Inr dp)"
  shows "\<exists>cs n dest. fst s' = fst s @ cs \<and> rc_op ` set cs \<subseteq> copy_ops \<and> stream_len 0 (writes cs) = Some n \<and> eq_size n sz \<and> answered env (fst s) cs
    \<and> (\<forall>w \<in> set (writes cs). rc_sid w = dst \<and> rget (rc_args w) ''path'' = JStr dest)"
proof -
  from assms obtain dir p where
    c: "copy_to env fuel src p dst (posix_join dir (basename p)) sz
      (fst s @ [\<lparr>rc_sid = dst, rc_op = ''fs.mkdir'', rc_args = [(''path'', JStr dir), (''parents'', JBool True)]\<rparr>], snd s) = (s', Inr dp)"
    unfolding copy_between_act abind_Inr ares_def ask_eq by auto
  let ?m = "\<lparr>rc_sid = dst, rc_op = ''fs.mkdir'', rc_args = [(''path'', JStr dir), (''parents'', JBool True)]\<rparr>"
  from copy_to_ok [OF c] obtain cs n where cs: "fst s' = (fst s @ [?m]) @ cs" "rc_op ` set cs \<subseteq> copy_ops" "stream_len 0 (writes cs) = Some n" "eq_size n sz"
    "answered env (fst s @ [?m]) cs" "\<forall>w \<in> set (writes cs). rc_sid w = dst \<and> rget (rc_args w) ''path'' = JStr (posix_join dir (basename p))" by auto
  have "writes ([?m] @ cs) = writes cs" by (simp add: writes_def)
  moreover have "answered env (fst s) ([?m] @ cs)" using cs(5) unfolding answered_append by (simp add: answered_def)
  moreover have "fst s' = fst s @ ([?m] @ cs)" "rc_op ` set ([?m] @ cs) \<subseteq> copy_ops" using cs(1,2) by auto
  ultimately show ?thesis using cs(3,4,6) by metis
qed

lemma no_write_stream:
  assumes "rc_op ` set cs \<inter> {''fs.write'', ''fs.delete''} = {}"
  shows "writes cs = []" "answered env tr cs" "\<And>c. c \<in> set cs \<Longrightarrow> rc_op c \<noteq> ''fs.delete''"
proof -
  have n: "rc_op c \<noteq> ''fs.write''" "rc_op c \<noteq> ''fs.delete''" if "c \<in> set cs" for c using assms imageI [OF that, of rc_op] by auto
  then show "writes cs = []" "\<And>c. c \<in> set cs \<Longrightarrow> rc_op c \<noteq> ''fs.delete''" by (simp_all add: writes_def filter_empty_conv)
  show "answered env tr cs" unfolding answered_def using n(1) nth_mem by blast
qed

lemma copy_away_delete:
  assumes "copy_away env fuel p rid path sz s = (s', r)" "fst s' = fst s @ cs" "c \<in> set cs" "rc_op c = ''fs.delete''"
  shows "\<exists>dst n dest. pl_dest_server p = Some dst \<and> pl_delete_local p \<and> stream_len 0 (writes cs) = Some n \<and> eq_size n sz \<and> answered env (fst s) cs
    \<and> (\<forall>w \<in> set (writes cs). rc_sid w = dst \<and> rget (rc_args w) ''path'' = JStr dest) \<and> c = last cs"
proof -
  have nil: "s' \<noteq> s" using assms(2,3) by auto
  then obtain dst where dst: "pl_dest_server p = Some dst" "dst \<noteq> []"
    using assms(1) by (auto simp: copy_away_def ares_def split: option.splits if_splits)
  obtain s1 v where cb: "copy_between env fuel (pl_server p) path dst sz s = (s1, v)" by fastforce
  let ?prune = "\<lparr>rc_sid = dst, rc_op = ''backup.prune'', rc_args = [(''dir'', JStr (''remote/'' @ pl_server p)), (''prefix'', JStr (plan_prefix p)), (''keep'', JInt (pl_dest_keep p))]\<rparr>"
  let ?del = "\<lparr>rc_sid = pl_server p, rc_op = ''fs.delete'', rc_args = [(''paths'', JArr [path])]\<rparr>"
  from ops_copy_between obtain as where as: "fst s1 = fst s @ as" "rc_op ` set as \<subseteq> copy_ops"
    using cb unfolding ops_in_def by (metis fst_conv)
  then have nd: "a \<in> set as \<Longrightarrow> rc_op a \<noteq> ''fs.delete''" for a by auto
  have sh: "fst s' \<in> {fst s1, fst s1 @ [?prune], fst s1 @ [?prune, ?del]} \<and> (fst s' = fst s1 @ [?prune, ?del] \<longrightarrow> pl_delete_local p \<and> (\<exists>dp. v = Inr dp))"
    using assms(1) dst cb
    by (cases v) (auto simp: copy_away_def abind_def ask_eq amod_def ares_def split: if_splits sum.splits prod.splits)
  have "fst s' \<noteq> fst s1"
  proof
    assume "fst s' = fst s1"
    with as(1) assms(2) have "cs = as" by simp
    with nd assms(3,4) show False by blast
  qed
  moreover have "fst s' \<noteq> fst s1 @ [?prune]"
  proof
    assume "fst s' = fst s1 @ [?prune]"
    with as(1) assms(2) have "cs = as @ [?prune]" by simp
    with nd assms(3,4) show False by auto
  qed
  ultimately have e: "fst s' = fst s1 @ [?prune, ?del]" using sh by blast
  with sh obtain dp where dl: "pl_delete_local p" "copy_between env fuel (pl_server p) path dst sz s = (s1, Inr dp)" using cb by blast
  from copy_between_ok [OF dl(2)] obtain n dest where k: "stream_len 0 (writes as) = Some n" "eq_size n sz" "answered env (fst s) as"
    "\<forall>w \<in> set (writes as). rc_sid w = dst \<and> rget (rc_args w) ''path'' = JStr dest" using as(1) by auto
  have cs: "cs = as @ [?prune, ?del]" using e as(1) assms(2) by simp
  have "writes cs = writes as" by (simp add: cs writes_def)
  moreover have "answered env (fst s) cs" using k(3) unfolding cs answered_append by (auto simp: answered_def less_Suc_eq)
  moreover have "c = last cs" using assms(3,4) nd unfolding cs by auto
  ultimately show ?thesis using dst(1) dl(1) k by metis
qed

definition sizes :: "'a db_scheme \<Rightarrow> (int \<times> int option) list" where
  "sizes d = map (\<lambda>r. (rn_id r, rn_size r)) (backup_runs d)"

lemma sizes_upd_run: "(\<And>r. rn_id (g r) = rn_id r \<and> rn_size (g r) = rn_size r) \<Longrightarrow> sizes (upd_run rid g d) = sizes d"
  unfolding sizes_def upd_run_def by simp (rule map_update_where, simp)

lemma keeps_sizes_copy_away: "keeps sizes (copy_away env fuel p rid path sz)"
proof -
  have m: "keeps sizes (amod (upd_run rid (\<lambda>r. r\<lparr>rn_dest_path := Some dp\<rparr>)) :: ('a hub_scheme, unit) act)" for dp
    by (rule keeps_amod) (simp add: sizes_upd_run)
  show ?thesis unfolding copy_away_def by (simp split: option.split) (auto intro!: keeps_rules m)
qed

lemma ops_local_part: "ops_in {''backup.run'', ''job.status'', ''backup.prune''} (local_part rp env fuel p rid)"
  unfolding local_part_def by (intro ops_rules) simp_all

lemma local_part_size:
  assumes "local_part rp env fuel p rid s = (s1, Inr (path, sz))"
  shows "\<exists>b. sql_int sz = Inr b \<and> (\<forall>x \<in> set (sizes (snd s1)). fst x = rid \<longrightarrow> snd x = b)"
proof -
  from assms obtain d a b where b: "sql_int sz = Inr b" "snd s1 = upd_run rid (\<lambda>r. r\<lparr>rn_path := a, rn_size := b\<rparr>) d"
    unfolding local_part_def abind_Inr ares_def amod_def ask_eq by (auto simp: rbind_Inr)
  moreover have "\<forall>y \<in> set (backup_runs (upd_run rid (\<lambda>r. r\<lparr>rn_path := a, rn_size := b\<rparr>) d)). rn_id y = rid \<longrightarrow> rn_size y = b"
    unfolding upd_run_def by simp (rule update_where_all, simp_all)
  ultimately show ?thesis by (auto simp: sizes_def)
qed

text \<open>
  C15. A backup is never deleted from its server before a complete copy exists elsewhere: whenever a run asks for the local file to be
  deleted, that is its last request, the plan wants it, and before it the whole file went to the destination in contiguous
  answered writes, the last one marked final, of exactly the size recorded for the run.
\<close>

theorem local_copy_deleted_last:
  assumes "run_plan rp env fuel t p rid d = (tr, d')" and "c \<in> set tr" and "rc_op c = ''fs.delete''"
  shows "\<exists>dst dest n. pl_dest_server p = Some dst \<and> pl_delete_local p \<and> c = last tr \<and> stream_len 0 (writes tr) = Some n \<and> answered env [] tr
    \<and> (\<forall>w \<in> set (writes tr). rc_sid w = dst \<and> rget (rc_args w) ''path'' = JStr dest)
    \<and> (\<forall>r \<in> set (backup_runs d'). rn_id r = rid \<longrightarrow> rn_size r = Some (int n))"
proof -
  obtain d1 r where b: "run_body rp env fuel p rid ([], d) = ((tr, d1), r)"
    using assms(1) by (cases "run_body rp env fuel p rid ([], d)") (auto simp: run_plan_def Let_def split: prod.splits)
  have szd: "sizes d' = sizes d1" using assms(1) b by (cases r) (auto simp: run_plan_def Let_def sizes_def upd_run_def map_update_where)
  obtain s1 v where l: "local_part rp env fuel p rid ([], d) = (s1, v)" by fastforce
  obtain as where as: "fst s1 = as" "rc_op ` set as \<subseteq> {''backup.run'', ''job.status'', ''backup.prune''}"
    using ops_local_part [of rp env fuel p rid] l unfolding ops_in_def by (metis append_Nil fst_conv)
  then have na: "rc_op ` set as \<inter> {''fs.write'', ''fs.delete''} = {}" by auto
  note na = no_write_stream [OF na]
  have "\<exists>ps. v = Inr ps"
  proof (cases v)
    case (Inl e)
    with b l have "tr = as" using as(1) by (simp add: run_body_def abind_def)
    with na(3) assms(2,3) show ?thesis by blast
  qed simp
  then obtain path sz where v: "v = Inr (path, sz)" by auto
  then have ca: "copy_away env fuel p rid path sz s1 = ((tr, d1), r)" using b l by (simp add: run_body_def abind_def)
  have ex: "\<exists>cs. fst (tr, d1) = fst s1 @ cs"
  proof -
    have "ops_in UNIV (copy_away env fuel p rid path sz :: ('a hub_scheme, unit) act)"
      unfolding copy_away_def by (simp split: option.split) (auto intro!: ops_rules ops_mono [OF ops_copy_between])
    then show ?thesis using ca unfolding ops_in_def by (metis fst_conv)
  qed
  then obtain cs where cs: "tr = as @ cs" using as(1) by auto
  have c: "c \<in> set cs" using assms(2,3) na(3) cs by auto
  from copy_away_delete [OF ca _ c assms(3)] cs as(1) obtain dst n dest where k:
    "pl_dest_server p = Some dst" "pl_delete_local p" "stream_len 0 (writes cs) = Some n" "eq_size n sz" "answered env as cs"
    "\<forall>w \<in> set (writes cs). rc_sid w = dst \<and> rget (rc_args w) ''path'' = JStr dest" "c = last cs" by auto
  obtain bb where bb: "sql_int sz = Inr bb" "\<forall>x \<in> set (sizes (snd s1)). fst x = rid \<longrightarrow> snd x = bb" using local_part_size l v by blast
  have "bb = Some (int n)" using bb(1) k(4) by (cases sz) (auto simp: sql_int_def eq_size_def split: if_splits)
  moreover have "sizes d' = sizes (snd s1)" using keeps_sizes_copy_away ca szd unfolding keeps_def by (metis fst_conv snd_conv)
  moreover have "(rn_id r, rn_size r) \<in> set (sizes d')" if "r \<in> set (backup_runs d')" for r using that by (simp add: sizes_def)
  ultimately have "\<forall>r \<in> set (backup_runs d'). rn_id r = rid \<longrightarrow> rn_size r = Some (int n)" using bb(2) by fastforce
  moreover have "writes tr = writes cs" using na(1) by (simp add: cs writes_def)
  moreover have "answered env [] tr" using na(2) k(5) unfolding cs answered_append by simp
  moreover have "c = last tr" using k(7) c cs by (cases cs) auto
  ultimately show ?thesis using k by metis
qed

section \<open>A copy is the file\<close>

definition bytes_of :: "rpc_call \<Rightarrow> nat list" where
  "bytes_of w = (case rget (rc_args w) ''data'' of JStr t \<Rightarrow> (case b64decode t of Inr bs \<Rightarrow> bs | Inl e \<Rightarrow> []) | _ \<Rightarrow> [])"

definition serves :: "env \<Rightarrow> string \<Rightarrow> string \<Rightarrow> nat list \<Rightarrow> bool" where
  \<comment> \<open>the source's agent answers every read of \<open>path\<close> with that part of \<open>file\<close>\<close>
  "serves env src path file \<longleftrightarrow> (\<forall>tr off. env (tr @ [read_call src path off]) =
     Inr (JObj [(''data'', JStr (b64encode (take (nat CHUNK) (drop off file)))), (''eof'', JBool (length file \<le> off + nat CHUNK))]))"

definition stores :: "env \<Rightarrow> string \<Rightarrow> bool" where
  \<comment> \<open>the destination's agent accepts every write\<close>
  "stores env up \<longleftrightarrow> (\<forall>tr w. rc_op w = ''fs.write'' \<longrightarrow> env (tr @ [w]) = Inr (JObj [(''upload'', JStr up)]))"

lemma chunk_of_served:
  assumes "\<forall>b \<in> set bs. b < 256"
  shows "chunk_of (JObj [(''data'', JStr (b64encode bs)), (''eof'', JBool e)]) = Inr (JStr (b64encode bs), bs, e \<or> bs = [])"
  by (simp add: chunk_of_def jidx_def dget_def rbind_def b64_roundtrip [OF assms])

lemma copy_loop_served:
  assumes "serves env src path file" "stores env u" "\<forall>b \<in> set file. b < 256"
  shows "off \<le> length file \<Longrightarrow> length file < off + fuel * nat CHUNK \<Longrightarrow>
    \<exists>cs up'. copy_loop env src path dst dest fuel off up s = ((fst s @ cs, snd s), up', Inr (length file)) \<and> concat (map bytes_of (writes cs)) = drop off file"
proof (induction fuel arbitrary: off up s)
  case (Suc fuel)
  define ch where "ch = take (nat CHUNK) (drop off file)"
  define fin where "fin \<longleftrightarrow> length file \<le> off + nat CHUNK \<or> ch = []"
  have C: "0 < nat CHUNK" by (simp add: CHUNK_def)
  have b: "\<forall>b \<in> set ch. b < 256" using assms(3) by (auto simp: ch_def dest!: in_set_takeD in_set_dropD)
  let ?r = "read_call src path off" and ?w = "write_call dst dest (JStr (b64encode ch)) off fin up"
  have r: "env (fst s @ [?r]) = Inr (JObj [(''data'', JStr (b64encode ch)), (''eof'', JBool (length file \<le> off + nat CHUNK))])"
    using assms(1) unfolding serves_def ch_def by blast
  have w: "env (fst s @ [?r, ?w]) = Inr (JObj [(''upload'', JStr u)])"
    using assms(2) unfolding stores_def by (metis (no_types, lifting) append.assoc append_Cons append_Nil rpc_call.select_convs(2))
  have up: "upload_of (JObj [(''upload'', JStr u)]) up = Inr (JStr u)" by (simp add: upload_of_def or_obj_def dget_def)
  have wb: "bytes_of ?w = ch" by (simp add: bytes_of_def rget_def dget_def b64_roundtrip [OF b])
  have step: "copy_loop env src path dst dest (Suc fuel) off up s =
    (if fin then ((fst s @ [?r, ?w], snd s), JStr u, Inr (off + length ch)) else copy_loop env src path dst dest fuel (off + length ch) (JStr u) (fst s @ [?r, ?w], snd s))"
    by (simp add: ask_eq r chunk_of_served [OF b] fin_def [symmetric] w up)
  show ?case
  proof (cases fin)
    case True
    then have "ch = drop off file" using C Suc.prems(1) by (auto simp: fin_def ch_def)
    with True Suc.prems(1) step wb show ?thesis by (intro exI [of _ "[?r, ?w]"] exI [of _ "JStr u"]) (simp add: writes_def)
  next
    case False
    then have l: "length ch = nat CHUNK" "off + nat CHUNK < length file" by (auto simp: fin_def ch_def)
    have "length file < off + nat CHUNK + fuel * nat CHUNK" using Suc.prems(2) by (simp add: algebra_simps)
    with Suc.IH [of "off + nat CHUNK" "JStr u" "(fst s @ [?r, ?w], snd s)"] l obtain cs up' where
      c: "copy_loop env src path dst dest fuel (off + nat CHUNK) (JStr u) (fst s @ [?r, ?w], snd s) = ((fst s @ [?r, ?w] @ cs, snd s), up', Inr (length file))"
      "concat (map bytes_of (writes cs)) = drop (off + nat CHUNK) file" by auto
    have "ch @ drop (off + nat CHUNK) file = drop off file" unfolding ch_def by (metis add.commute append_take_drop_id drop_drop)
    then show ?thesis using False step c l wb by (intro exI [of _ "[?r, ?w] @ cs"] exI [of _ up']) (simp add: writes_def)
  qed
qed simp


section \<open>Every run is accounted for\<close>

text \<open>
  No failure goes unnoticed: whatever an agent answers or fails to answer, the run ends up recorded as done or as failed with the
  time it ended, its plan is free to run again, and the plan's alert is closed after a success and open after a failure.
\<close>

theorem run_outcome_recorded:
  assumes "dget (rules_mem d) ''backup'' = Some ru" and "ru_enabled ru" and "ru_for_s ru = 0"
    and "settled (''backup'', pl_server p, plan_subject (pl_id p)) d" and "rid \<in> rn_id ` set (backup_runs d)"
    and "run_plan rp env fuel t p rid d = (tr, d')"
  shows "\<exists>st \<in> {''done'', ''error''}. (\<forall>r \<in> set (backup_runs d'). rn_id r = rid \<longrightarrow> rn_state r = st \<and> rn_ended r = Some (py_trunc t))
    \<and> rid \<in> rn_id ` set (backup_runs d') \<and> pl_id p \<notin> set (running d')
    \<and> (is_open (''backup'', pl_server p, plan_subject (pl_id p)) d' \<longleftrightarrow> st = ''error'')"
proof -
  let ?key = "(''backup'', pl_server p, plan_subject (pl_id p))"
  obtain d1 r where b: "run_body rp env fuel p rid ([], d) = ((tr, d1), r)"
    using assms(6) by (cases "run_body rp env fuel p rid ([], d)") (auto simp: run_plan_def Let_def split: prod.splits)
  have "keeps (\<lambda>d. (rules_mem d, astate d)) (run_body rp env fuel p rid :: ('a hub_scheme, unit) act)" by (rule keeps_run_body) (simp add: upd_run_def)
  then have k: "rules_mem d1 = rules_mem d" "astate d1 = astate d" using b unfolding keeps_def by (metis Pair_inject fst_conv snd_conv)+
  have "map rn_id (backup_runs d1) = map rn_id (backup_runs d)" using run_body_keys(1) [OF b] keys_ids by metis
  then have i: "rid \<in> rn_id ` set (backup_runs d1)" using assms(5) by (metis set_map)
  have ids: "rn_id ` set (backup_runs (upd_run rid g d1)) = rn_id ` set (backup_runs d1)" if "\<And>r. rn_id (g r) = rn_id r" for g
  proof -
    have "map rn_id (backup_runs (upd_run rid g d1)) = map rn_id (backup_runs d1)" unfolding upd_run_def by simp (rule map_update_where, simp add: that)
    then show ?thesis by (metis set_map)
  qed
  have rows: "\<forall>r \<in> set (backup_runs (upd_run rid g d1)). rn_id r = rid \<longrightarrow> P r" if "\<And>r. rn_id r = rid \<Longrightarrow> P (g r)" for g P
    unfolding upd_run_def by simp (rule update_where_all, use that in simp_all)
  have st: "is_open ?key (step ''backup'' (pl_server p) (plan_subject (pl_id p)) bad v msg t False (upd_run rid g d1)) \<longleftrightarrow> bad" for bad v msg g
  proof -
    have "settled ?key (upd_run rid g d1)" using assms(4) k(2) by (simp add: settled_def is_open_def upd_run_def)
    then show ?thesis using step_settled [of "upd_run rid g d1" "''backup''" ru] assms(1-3) k(1) by (simp add: upd_run_def)
  qed
  have fin: "is_open ?key (e\<lparr>running := x\<rparr>) = is_open ?key e" for e :: "'a hub_scheme" and x by (simp add: is_open_def)
  show ?thesis
  proof (cases r)
    case (Inl e)
    then have d': "d' = (let e' = step ''backup'' (pl_server p) (plan_subject (pl_id p)) True 1 (''backup '' @ pl_name p @ '' failed: '' @ take 300 (exc_text e)) t False
      (upd_run rid (\<lambda>r. r\<lparr>rn_state := ''error'', rn_ended := Some (py_trunc t), rn_error := take 1000 (exc_text e)\<rparr>) d1)
      in e'\<lparr>running := filter (\<lambda>i. i \<noteq> pl_id p) (running e')\<rparr>)" using assms(6) b by (simp add: run_plan_def Let_def)
    have R: "\<forall>r \<in> set (backup_runs (upd_run rid (\<lambda>r. r\<lparr>rn_state := ''error'', rn_ended := Some (py_trunc t), rn_error := take 1000 (exc_text e)\<rparr>) d1)). rn_id r = rid \<longrightarrow> rn_state r = ''error'' \<and> rn_ended r = Some (py_trunc t)"
      by (rule rows) simp
    show ?thesis
      by (rule bexI [of _ "''error''"]) (use ids i R in \<open>simp_all add: d' Let_def fin st\<close>)
  next
    case (Inr u)
    then have d': "d' = (let e' = step ''backup'' (pl_server p) (plan_subject (pl_id p)) False 0 [] t False
      (upd_run rid (\<lambda>r. r\<lparr>rn_state := ''done'', rn_ended := Some (py_trunc t)\<rparr>) d1)
      in e'\<lparr>running := filter (\<lambda>i. i \<noteq> pl_id p) (running e')\<rparr>)" using assms(6) b by (simp add: run_plan_def Let_def)
    have R: "\<forall>r \<in> set (backup_runs (upd_run rid (\<lambda>r. r\<lparr>rn_state := ''done'', rn_ended := Some (py_trunc t)\<rparr>) d1)). rn_id r = rid \<longrightarrow> rn_state r = ''done'' \<and> rn_ended r = Some (py_trunc t)"
      by (rule rows) simp
    show ?thesis
      by (rule bexI [of _ "''done''"]) (use ids i R in \<open>simp_all add: d' Let_def fin st\<close>)
  qed
qed

section \<open>A plan moved to another server\<close>

lemma run_plan_other_alert:
  assumes "key \<noteq> (''backup'', pl_server p, plan_subject (pl_id p))"
  shows "dget (astate (snd (run_plan rp env fuel t p rid d))) key = dget (astate d) key"
proof -
  obtain tr d1 r where b: "run_body rp env fuel p rid ([], d) = ((tr, d1), r)" by (metis prod.collapse)
  have "keeps astate (run_body rp env fuel p rid :: ('a hub_scheme, unit) act)" by (rule keeps_run_body) (simp add: upd_run_def)
  then have "astate d1 = astate d" using b unfolding keeps_def by (metis fst_conv snd_conv)
  with b show ?thesis by (cases r) (simp_all add: run_plan_def Let_def upd_run_def step_other [OF assms])
qed

text \<open>
  An alert that is open when its plan is moved to another server stays open: neither the change nor any later run of the plan there
  touches it, since alerts are kept per server.
\<close>

lemma moved_plan_keeps_alert:
  assumes "elevated cr cfg now rq d = (d1, Inr u)" "api_update_plan cr cfg now rq pid b d = (d2, Inr v)"
    and "is_open (''backup'', old, plan_subject pid) d1" and "pl_server p \<noteq> old"
  shows "is_open (''backup'', old, plan_subject pid) d2 \<and> is_open (''backup'', old, plan_subject pid) (snd (run_plan rp env fuel t p rid d2))"
proof -
  have "astate d2 = astate d1"
    using assms(1,2) by (auto simp: api_update_plan_def depends_def Let_def audit_def split: if_splits sum.splits)
  then have "is_open (''backup'', old, plan_subject pid) d2" using assms(3) by (simp add: is_open_def)
  moreover have "dget (astate (snd (run_plan rp env fuel t p rid d2))) (''backup'', old, plan_subject pid) = dget (astate d2) (''backup'', old, plan_subject pid)"
    by (rule run_plan_other_alert) (use assms(4) in simp)
  ultimately show ?thesis using same_key(2) by blast
qed

section \<open>Closed examples\<close>

definition demo_plan :: plan_row where
  "demo_plan = \<lparr>pl_id = 1, pl_server = ''s1'', pl_name = ''site'', pl_kind = ''files'', pl_target = TFiles ''/srv'' [], pl_every_hours = 24,
     pl_start_hour = 3, pl_keep = 7, pl_dest_server = Some ''s2'', pl_dest_keep = 14, pl_delete_local = True, pl_enabled = True,
     pl_next_run = Some 5, pl_created = 0, pl_prefix = Some ''pab''\<rparr>"

definition demo_hub_plans :: hub where
  "demo_hub_plans = demo_hub\<lparr>backup_plans := [demo_plan],
     lives := lives demo_hub @ [(''s2'', (new_live ''s2'')\<lparr>lv_ws := Some 2, lv_caps := [(''mode'', JStr ''manage'')]\<rparr>)]\<rparr>"

definition demo_env :: env where
  \<comment> \<open>agents that hold and accept a file of three bytes\<close>
  "demo_env tr =
     (let c = last tr in
      if rc_op c = ''backup.run'' then Inr (JObj [(''job'', JStr ''j'')])
      else if rc_op c = ''job.status'' then Inr (JObj [(''state'', JStr ''done''), (''result'', JObj [(''path'', JStr ''/b/f''), (''size'', JInt 3)])])
      else if rc_op c = ''fs.read'' then
        (case rget (rc_args c) ''offset'' of
           JInt i \<Rightarrow> Inr (JObj [(''data'', JStr (b64encode (drop (nat i) [1, 2, 3]))), (''eof'', JBool True)])
         | _ \<Rightarrow> Inl TypeError)
      else if rc_op c = ''fs.write'' then Inr (JObj [(''upload'', JStr ''u'')])
      else Inr JNull)"

definition demo_started :: hub where
  "demo_started = fst (start 10 1 ''manual'' demo_hub_plans)"

theorem next_run_well_placed_witness:
  "next_run 6 3 1000000 mod 21600 = (3 * 3600 - tehran_offset) mod 21600 \<and> next_run 6 3 1000000 \<le> 1000000 + 21600"
proof -
  have e: "next_run 6 3 1000000 = 1013400" by code_simp
  have "of_int (next_run 6 3 1000000) \<le> (1000000 :: rat) + of_int (max 1 6 * 3600)" using next_run_well_placed [of 1000000 6 3] by blast
  then have "next_run 6 3 1000000 \<le> 1000000 + 21600" by (simp add: e)
  then show ?thesis by (simp add: e tehran_offset_def)
qed

theorem long_period_runs_daily_witness:
  "next_run 36 3 (of_int (next_run 36 3 (of_int 1000000))) = next_run 36 3 (of_int 1000000) + 24 * 3600"
  by (rule long_period_runs_daily) simp_all

theorem no_plan_runs_twice_witness:
  "\<exists>r. backup_runs demo_started = [r] \<and> rn_state r = ''running'' \<and> 1 \<in> set (running demo_started)"
proof -
  let ?r = "hd (backup_runs demo_started)"
  have f: "backup_runs demo_started = [?r]" "rn_state ?r = ''running''" "rn_plan ?r = Some 1" by code_simp+
  have i: "backup_runs demo_hub_plans = []" "running demo_hub_plans = []" by code_simp+
  have s: "backup_step\<^sup>*\<^sup>* (demo_hub_plans, []) (demo_started, [] @ new_tasks demo_hub_plans demo_started)"
    unfolding demo_started_def by (rule r_into_rtranclp) (rule backup_step.run_now)
  have m: "?r \<in> set (backup_runs demo_started)" by (subst f(1)) simp
  from no_plan_runs_twice [OF s _ i(2) _ m m f(2) f(2) f(3) f(3)] i(1) f show ?thesis by (intro exI [of _ ?r]) simp
qed

theorem local_copy_deleted_last_witness:
  "\<exists>tr d'. run_plan demo_rp demo_env 5 20 demo_plan 1 demo_started = (tr, d') \<and> rc_op (last tr) = ''fs.delete'' \<and> stream_len 0 (writes tr) = Some 3
     \<and> (\<forall>r \<in> set (backup_runs d'). rn_id r = 1 \<longrightarrow> rn_size r = Some 3)"
proof -
  let ?x = "run_plan demo_rp demo_env 5 20 demo_plan 1 demo_started"
  have o: "rc_op (last (fst ?x)) = ''fs.delete''" and ne: "fst ?x \<noteq> []" and n: "stream_len 0 (writes (fst ?x)) = Some 3" by code_simp+
  have e: "?x = (fst ?x, snd ?x)" by simp
  have m: "last (fst ?x) \<in> set (fst ?x)" using ne by (rule last_in_set)
  from local_copy_deleted_last [OF e m o] n have "\<forall>r \<in> set (backup_runs (snd ?x)). rn_id r = 1 \<longrightarrow> rn_size r = Some 3" by auto
  with o n show ?thesis by (intro exI [of _ "fst ?x"] exI [of _ "snd ?x"]) simp
qed


theorem run_outcome_recorded_witness:
  "\<exists>st \<in> {''done'', ''error''}. \<forall>r \<in> set (backup_runs (snd (run_plan demo_rp demo_env 5 20 demo_plan 1 demo_started))).
     rn_id r = 1 \<longrightarrow> rn_state r = st \<and> rn_ended r = Some (py_trunc 20)"
proof -
  let ?x = "run_plan demo_rp demo_env 5 20 demo_plan 1 demo_started" and ?ru = "the (dget (rules_mem demo_started) ''backup'')"
  have "dget (rules_mem demo_started) ''backup'' = Some ?ru" "ru_enabled ?ru" "ru_for_s ?ru = 0" by code_simp+
  moreover have "dget (astate demo_started) (''backup'', pl_server demo_plan, plan_subject (pl_id demo_plan)) = None" by code_simp
  then have "settled (''backup'', pl_server demo_plan, plan_subject (pl_id demo_plan)) demo_started" by (simp add: settled_def)
  moreover have "1 \<in> rn_id ` set (backup_runs demo_started)" by code_simp
  moreover have "?x = (fst ?x, snd ?x)" by simp
  ultimately show ?thesis using run_outcome_recorded by blast
qed

section \<open>Every due plan gets its turn\<close>

definition scheduled :: "rat \<Rightarrow> int \<Rightarrow> 'a hub_scheme \<Rightarrow> bool" where
  "scheduled now pid d \<longleftrightarrow> pid \<in> set (running d) \<and> (\<exists>r \<in> set (backup_runs d). rn_plan r = Some pid \<and> rn_state r = ''running'')
     \<and> (\<forall>q \<in> set (backup_plans d). pl_id q = pid \<longrightarrow> (\<exists>t. pl_next_run q = Some t \<and> now < of_int t))"

lemma tick_plan_plans:
  "backup_plans (tick_plan now p d) = backup_plans d \<or>
   backup_plans (tick_plan now p d) = update_where (\<lambda>q. pl_id q = pl_id p)
     (\<lambda>q. q\<lparr>pl_next_run := Some (next_run (pl_every_hours p) (pl_start_hour p) now)\<rparr>) (backup_plans d)"
  by (auto simp: tick_plan_def start_def Let_def split: option.splits)

lemma ids_update_where:
  "pl_id ` set (update_where P (\<lambda>q. q\<lparr>pl_next_run := t\<rparr>) ps) = pl_id ` set ps"
proof -
  have "map pl_id (update_where P (\<lambda>q. q\<lparr>pl_next_run := t\<rparr>) ps) = map pl_id ps" by (rule map_update_where) simp
  then show ?thesis by (metis list.set_map)
qed

lemma tick_plan_ids: "pl_id ` set (backup_plans (tick_plan now p d)) = pl_id ` set (backup_plans d)"
  by (rule disjE [OF tick_plan_plans [of now p d]]) (simp_all add: ids_update_where)

lemma scheduled_kept: "scheduled now pid d \<Longrightarrow> scheduled now pid (tick_plan now p d)"
proof -
  assume s: "scheduled now pid d"
  have "pid \<in> set (running (tick_plan now p d))" "set (backup_runs d) \<subseteq> set (backup_runs (tick_plan now p d))"
    using s by (rule_tac tick_plan_cases [of now p d]; auto simp: scheduled_def)+
  moreover have "\<forall>q \<in> set (backup_plans (tick_plan now p d)). pl_id q = pid \<longrightarrow> (\<exists>t. pl_next_run q = Some t \<and> now < of_int t)"
    using s tick_plan_plans [of now p d] next_run_well_placed [of now] by (auto simp: scheduled_def update_where_def)
  ultimately show ?thesis using s unfolding scheduled_def by blast
qed

lemma full_kept: "MAX_PARALLEL \<le> length (running d) \<Longrightarrow> MAX_PARALLEL \<le> length (running (tick_plan now p d))"
  by (rule tick_plan_cases [of now p d]) auto

lemma tick_plan_starts:
  assumes "pl_id p \<notin> set (running d)" "length (running d) < MAX_PARALLEL" "server_up p d" "pl_id p \<in> pl_id ` set (backup_plans d)"
  shows "scheduled now (pl_id p) (tick_plan now p d)"
proof -
  let ?d = "d\<lparr>backup_plans := update_where (\<lambda>q. pl_id q = pl_id p)
    (\<lambda>q. q\<lparr>pl_next_run := Some (next_run (pl_every_hours p) (pl_start_hour p) now)\<rparr>) (backup_plans d)\<rparr>"
  have t: "tick_plan now p d = fst (start (py_trunc now) (pl_id p) ''schedule'' ?d)"
    using assms(1-3) by (auto simp: tick_plan_def server_up_def)
  have "pl_id p \<in> pl_id ` set (backup_plans ?d)" using assms(4) by (simp add: ids_update_where)
  then have "select_one (\<lambda>q. pl_id q = pl_id p) (backup_plans ?d) \<noteq> None" by (auto simp: select_one_None)
  then show ?thesis using assms(1) next_run_well_placed [of now "pl_every_hours p" "pl_start_hour p"]
    by (auto simp: t start_def Let_def scheduled_def update_where_def)
qed

lemma fold_scheduled: "scheduled now pid d \<Longrightarrow> scheduled now pid (fold (tick_plan now) ps d)"
  by (induction ps arbitrary: d) (simp_all add: scheduled_kept)

lemma fold_full: "MAX_PARALLEL \<le> length (running d) \<Longrightarrow> MAX_PARALLEL \<le> length (running (fold (tick_plan now) ps d))"
  by (induction ps arbitrary: d) (simp_all add: full_kept)

lemma fold_starts:
  assumes "p \<in> set ps" "server_up p d" "pl_id p \<in> pl_id ` set (backup_plans d)" "pl_id p \<notin> set (running d)"
  shows "scheduled now (pl_id p) (fold (tick_plan now) ps d) \<or> MAX_PARALLEL \<le> length (running (fold (tick_plan now) ps d))"
  using assms
proof (induction ps arbitrary: d)
  case (Cons x ps)
  have up: "server_up p (tick_plan now x d)" using Cons.prems(2) by (simp add: server_up_def)
  have ids: "pl_id p \<in> pl_id ` set (backup_plans (tick_plan now x d))" using Cons.prems(3) by (simp only: tick_plan_ids)
  show ?case
  proof (cases "MAX_PARALLEL \<le> length (running d)")
    case True
    then show ?thesis using fold_full [of d now "x # ps"] by blast
  next
    case free: False
    show ?thesis
    proof (cases "pl_id x = pl_id p \<and> server_up x d")
      case True
      then have "scheduled now (pl_id p) (tick_plan now x d)" using tick_plan_starts [of x d now] free Cons.prems(3,4) by simp
      then show ?thesis using fold_scheduled by fastforce
    next
      case False
      then have "p \<in> set ps" using Cons.prems(1,2) by auto
      moreover have "pl_id p \<notin> set (running (tick_plan now x d))"
        using Cons.prems(4) False by (rule_tac tick_plan_cases [of now x d]; auto simp: server_up_def)
      ultimately show ?thesis using Cons.IH [OF _ up ids] by simp
    qed
  qed
qed simp

text \<open>
  C18. No due plan is overlooked: after every turn of the scheduler an enabled plan whose time has come and whose server is connected is being run
  already, or has been started by this turn, with a run recorded as in progress and its next time in the future, or the hub is running as many backups as it may.
\<close>

theorem due_plan_gets_its_turn:
  assumes "p \<in> set (backup_plans d)" and "plan_due now p" and "server_up p d"
  shows "pl_id p \<in> set (running d) \<or> scheduled now (pl_id p) (tick now d) \<or> MAX_PARALLEL \<le> length (running (tick now d))"
proof -
  have "p \<in> set (filter (plan_due now) (backup_plans d))" using assms(1,2) by simp
  from fold_starts [OF this assms(3), of now] assms(1) show ?thesis unfolding tick_def by blast
qed

theorem due_plan_gets_its_turn_witness:
  "scheduled 20 1 (tick 20 demo_hub_plans)"
proof -
  have "demo_plan \<in> set (backup_plans demo_hub_plans)" by (simp add: demo_hub_plans_def)
  moreover have "plan_due 20 demo_plan" by code_simp
  moreover have "server_up demo_plan demo_hub_plans"
  proof -
    have "case peek (pl_server demo_plan) demo_hub_plans of None \<Rightarrow> False | Some lv \<Rightarrow> lv_ws lv \<noteq> None" by code_simp
    then show ?thesis by (auto simp: server_up_def split: option.splits)
  qed
  ultimately have "pl_id demo_plan \<in> set (running demo_hub_plans) \<or> scheduled 20 (pl_id demo_plan) (tick 20 demo_hub_plans)
    \<or> MAX_PARALLEL \<le> length (running (tick 20 demo_hub_plans))" by (rule due_plan_gets_its_turn)
  moreover have "pl_id demo_plan = 1 \<and> running demo_hub_plans = [] \<and> length (running (tick 20 demo_hub_plans)) < MAX_PARALLEL" by code_simp
  ultimately show ?thesis by simp
qed

end
