(* ===== verification/Domains.thy ===== *)
theory Domains
  imports Backups "HOL-Library.List_Lexorder" "HOL-Library.Char_ord"
begin

text \<open>
  Domains and certificates (\<open>hub/icsd_hub/domains.py\<close>). The DNS resolver is a function from name and record type to the
  records found, or \<open>None\<close> when the lookup fails. What agents report is untyped JSON: a value of the wrong type raises, as
  in the code. The clock is one instant per call.
\<close>

section \<open>Names\<close>

definition CACHE_TTL :: rat where
  "CACHE_TTL = 15 * 60"

definition SLD :: "string list" where
  "SLD = [''ac.ir'', ''co.ir'', ''org.ir'', ''gov.ir'', ''id.ir'', ''net.ir'', ''sch.ir'', ''co.uk'', ''org.uk'', ''com.tr'']"

definition last_n :: "nat \<Rightarrow> 'x list \<Rightarrow> 'x list" where
  \<comment> \<open>\<open>xs[-n:]\<close>\<close>
  "last_n n xs = drop (length xs - n) xs"

definition base_domain :: "string \<Rightarrow> string" where
  "base_domain name =
     (let parts = split_on (CHR ''.'') (strip_char (CHR ''.'') (lower name)) in
      if 3 \<le> length parts \<and> join_with ''.'' (last_n 2 parts) \<in> set SLD then join_with ''.'' (last_n 3 parts)
      else join_with ''.'' (last_n 2 parts))"

section \<open>DNS\<close>

datatype rr = RTxt "string list" | RMx int string | ROther string

type_synonym resolver = "string \<Rightarrow> string \<Rightarrow> rr list option"

fun rr_text :: "rr \<Rightarrow> string" where
  "rr_text (RTxt ss) = concat ss"
| "rr_text (RMx p x) = str_int p @ '' '' @ rstrip_char (CHR ''.'') x"
| "rr_text (ROther s) = s"

definition resolve :: "resolver \<Rightarrow> string \<Rightarrow> string \<Rightarrow> string list" where
  "resolve dns name rtype = (case dns name rtype of None \<Rightarrow> [] | Some rrs \<Rightarrow> map rr_text rrs)"

definition jstrs :: "string list \<Rightarrow> json" where
  "jstrs xs = JArr (map JStr xs)"

definition cached :: "rat \<Rightarrow> string \<Rightarrow> (string, rat \<times> json) dict \<Rightarrow> json option" where
  "cached now k m = (case dget m k of Some (t, v) \<Rightarrow> if now - t < CACHE_TTL then Some v else None | None \<Rightarrow> None)"

definition dns_info :: "resolver \<Rightarrow> rat \<Rightarrow> string \<Rightarrow> 'a hub_scheme \<Rightarrow> 'a hub_scheme \<times> json" where
  "dns_info dns now name d =
     (case cached now name (dns_cache d) of
        Some v \<Rightarrow> (d, v)
      | None \<Rightarrow>
          let res = JObj [(''a'', jstrs (resolve dns name ''A'')), (''aaaa'', jstrs (resolve dns name ''AAAA''))]
          in (d\<lparr>dns_cache := dput name (now, res) (dns_cache d)\<rparr>, res))"

definition mail_info :: "resolver \<Rightarrow> rat \<Rightarrow> string \<Rightarrow> 'a hub_scheme \<Rightarrow> 'a hub_scheme \<times> json" where
  "mail_info dns now base d =
     (let key = ''mail:'' @ base in
      case cached now key (dns_cache d) of
        Some v \<Rightarrow> (d, v)
      | None \<Rightarrow>
          let spf = filter (\<lambda>t. startswith (lower t) ''v=spf1'') (resolve dns base ''TXT'');
              dm = filter (\<lambda>t. startswith (lower t) ''v=dmarc1'') (resolve dns (''_dmarc.'' @ base) ''TXT'');
              res = JObj [(''mx'', jstrs (resolve dns base ''MX'')), (''spf'', JStr (case spf of [] \<Rightarrow> [] | s # _ \<Rightarrow> s)),
                          (''dmarc'', JStr (case dm of [] \<Rightarrow> [] | s # _ \<Rightarrow> s)), (''spf_multiple'', JBool (1 < length spf))]
          in (d\<lparr>dns_cache := dput key (now, res) (dns_cache d)\<rparr>, res))"

section \<open>Certificates\<close>

definition dict_of :: "json \<Rightarrow> (string, json) dict res" where
  \<comment> \<open>only a dict has \<open>.get\<close>\<close>
  "dict_of v = (case v of JObj kvs \<Rightarrow> Inr kvs | _ \<Rightarrow> Inl AttributeError)"

definition items_of :: "(string, json) dict \<Rightarrow> string \<Rightarrow> json list res" where
  \<comment> \<open>what \<open>for x in d.get(k) or []\<close> iterates over\<close>
  "items_of kvs k = py_list (orv (rget kvs k) (JArr []))"

definition rat_of :: "json \<Rightarrow> rat res" where
  \<comment> \<open>a number in arithmetic\<close>
  "rat_of v = (case v of JInt i \<Rightarrow> Inr (of_int i) | JBool b \<Rightarrow> Inr (if b then 1 else 0) | JFloat (Fin x) \<Rightarrow> Inr x
     | JFloat _ \<Rightarrow> Inl (ValueError ''not finite'') | _ \<Rightarrow> Inl TypeError)"

definition not_after :: "(string, json) dict \<Rightarrow> rat res" where
  "not_after c = rat_of (dflt c ''not_after'' (JInt 0))"

definition str_of :: "json \<Rightarrow> string res" where
  "str_of v = (case v of JStr s \<Rightarrow> Inr s | _ \<Rightarrow> Inl TypeError)"

definition cert_subject :: "(json \<Rightarrow> string) \<Rightarrow> (string, json) dict \<Rightarrow> string" where
  "cert_subject rp c = ''ssl:'' @ py_str rp (orv (rget c ''path'') (rget c ''name''))"

definition cert_alert :: "(json \<Rightarrow> string) \<Rightarrow> string \<Rightarrow> rat \<Rightarrow> json \<Rightarrow> 'a hub_a_scheme \<Rightarrow> ('a hub_a_scheme, string) io" where
  \<comment> \<open>one turn of the loop; returns the subject\<close>
  "cert_alert rp sid now v d =
     (case rbind (dict_of v) (\<lambda>c. rbind (not_after c) (\<lambda>na. rbind (threshold ''cert'' d) (\<lambda>thr.
            rbind (items_of c ''domains'') (\<lambda>ds. rbind (mapM str_of (take 3 ds)) (\<lambda>doms. Inr (c, (na - now) / 86400, thr, doms)))))) of
        Inl e \<Rightarrow> (d, Inl e)
      | Inr (c, days, thr, doms) \<Rightarrow>
          (step ''cert'' sid (cert_subject rp c) (days \<le> thr) (py_round 1 days)
             (''certificate '' @ join_with '', '' doms @ '': '' @ str_int (py_trunc days) @ '' days left ('' @ py_str rp (rget c ''source'') @ '')'') now False d,
           Inr (cert_subject rp c)))"

fun cert_alerts :: "(json \<Rightarrow> string) \<Rightarrow> string \<Rightarrow> rat \<Rightarrow> json list \<Rightarrow> (string \<times> string) list \<Rightarrow> 'a hub_a_scheme \<Rightarrow> ('a hub_a_scheme, (string \<times> string) list) io" where
  "cert_alerts rp sid now [] seen d = (d, Inr seen)"
| "cert_alerts rp sid now (v # vs) seen d =
     (case cert_alert rp sid now v d of
        (d', Inl e) \<Rightarrow> (d', Inl e)
      | (d', Inr sub) \<Rightarrow> cert_alerts rp sid now vs ((''cert'', sub) # seen) d')"

definition alert_certs :: "(json \<Rightarrow> string) \<Rightarrow> string \<Rightarrow> rat \<Rightarrow> json \<Rightarrow> 'a hub_a_scheme \<Rightarrow> ('a hub_a_scheme, unit) io" where
  "alert_certs rp sid now data d =
     (case rbind (dict_of data) (\<lambda>kvs. items_of kvs ''certs'') of
        Inl e \<Rightarrow> (d, Inl e)
      | Inr cs \<Rightarrow>
          (case cert_alerts rp sid now cs [] d of
             (d', Inl e) \<Rightarrow> (d', Inl e)
           | (d', Inr seen) \<Rightarrow> (settle [''cert''] sid seen now d', Inr ())))"

definition fetch :: "(json \<Rightarrow> string) \<Rightarrow> agent \<Rightarrow> rat \<Rightarrow> string \<Rightarrow> bool \<Rightarrow> 'a hub_scheme \<Rightarrow> ('a hub_scheme, json option) io" where
  "fetch rp ag now sid force d =
     (let hit = dget (dom_cache d) sid; old = map_option snd hit;
          ready = (case peek sid d of None \<Rightarrow> False | Some lv \<Rightarrow> lv_ws lv \<noteq> None \<and> truthy (rget (lv_caps lv) ''ssl''))
      in if \<not> force \<and> cached now sid (dom_cache d) \<noteq> None then (d, Inr old)
         else if \<not> ready then (d, Inr old)
         else case snd (call rp ag d sid ''ssl.list'' [] []) of
                Inl (RPCError m st) \<Rightarrow> (d, Inr old)
              | Inl e \<Rightarrow> (d, Inl e)
              | Inr data \<Rightarrow>
                  (case alert_certs rp sid now data (d\<lparr>dom_cache := dput sid (now, data) (dom_cache d)\<rparr>) of
                     (d', Inl e) \<Rightarrow> (d', Inl e)
                   | (d', Inr _) \<Rightarrow> (d', Inr (Some data))))"

definition refresh_all :: "(json \<Rightarrow> string) \<Rightarrow> (string \<Rightarrow> agent) \<Rightarrow> rat \<Rightarrow> 'a hub_scheme \<Rightarrow> 'a hub_scheme" where
  \<comment> \<open>every exception is logged and skipped\<close>
  "refresh_all rp ags now d =
     fold (\<lambda>s d. fst (fetch rp (ags (sv_id s)) now (sv_id s) True d)) (filter (\<lambda>s. sv_secret_hash s \<noteq> None) (servers d)) d"

section \<open>The overview\<close>

definition covers :: "string \<Rightarrow> string \<Rightarrow> bool" where
  \<comment> \<open>the name \<open>pat\<close> of a certificate covers a domain\<close>
  "covers pat domain =
     (pat = domain \<or> (startswith pat ''*.'' \<and> endswith domain (drop 1 pat)
                      \<and> length (filter (\<lambda>c. c = CHR ''.'') domain) = length (filter (\<lambda>c. c = CHR ''.'') pat)))"

definition cert_covers :: "string \<Rightarrow> json list \<Rightarrow> bool res" where
  "cert_covers domain ds = rbind (mapM (\<lambda>v. case v of JStr s \<Rightarrow> Inr s | _ \<Rightarrow> Inl AttributeError) ds)
     (\<lambda>names. Inr (list_ex (\<lambda>pat. covers pat domain) names))"

definition later :: "(string, json) dict \<Rightarrow> json \<Rightarrow> bool res" where
  \<comment> \<open>\<open>c.get("not_after", 0) > best.get("not_after", 0)\<close>\<close>
  "later c best = rbind (not_after c) (\<lambda>x. rbind (dict_of best) (\<lambda>b. rbind (not_after b) (\<lambda>y. Inr (y < x))))"

fun cert_for :: "string \<Rightarrow> json list \<Rightarrow> json option \<Rightarrow> json option res" where
  "cert_for domain [] best = Inr best"
| "cert_for domain (v # vs) best =
     rbind (dict_of v) (\<lambda>c. rbind (items_of c ''domains'') (\<lambda>ds. rbind (cert_covers domain ds) (\<lambda>hit.
       if hit then
         (case best of
            None \<Rightarrow> cert_for domain vs (Some v)
          | Some w \<Rightarrow> rbind (later c w) (\<lambda>b. cert_for domain vs (if b then Some v else best)))
       else cert_for domain vs best)))"

record dom_row =
  dr_domain :: string
  dr_server_id :: string
  dr_server :: string
  dr_server_ip :: string
  dr_site :: json
  dr_ssl :: bool
  dr_cert :: "json option"
  dr_certbot :: json
  dr_dns :: json
  dr_state :: string

definition put_new :: "string \<Rightarrow> json \<Rightarrow> (string, json) dict \<Rightarrow> (string, json) dict" where
  \<comment> \<open>\<open>setdefault\<close>\<close>
  "put_new k v m = (if dget m k = None then dput k v m else m)"

definition site_names :: "json \<Rightarrow> (string, json) dict \<Rightarrow> (string, json) dict res" where
  "site_names site m =
     rbind (dict_of site) (\<lambda>kvs. rbind (items_of kvs ''names'') (\<lambda>ns. rbind (mapM str_of ns) (\<lambda>names.
       Inr (fold (\<lambda>n m. if CHR ''*'' \<in> set n \<or> CHR ''.'' \<notin> set n \<or> startswith n ''~'' then m else put_new n site m) names m))))"

definition caddy_names :: "json \<Rightarrow> (string, json) dict \<Rightarrow> (string, json) dict res" where
  "caddy_names cert m =
     rbind (dict_of cert) (\<lambda>c.
       if rget c ''source'' = JStr ''caddy'' then
         rbind (items_of c ''domains'') (\<lambda>ds. rbind (mapM str_of ds) (\<lambda>names.
           Inr (fold (\<lambda>n m. if CHR ''*'' \<in> set n then m else put_new n (JObj [(''file'', JStr ''Caddy''), (''ssl'', JBool True)]) m) names m)))
       else Inr m)"

fun foldM :: "('x \<Rightarrow> 's \<Rightarrow> 's res) \<Rightarrow> 'x list \<Rightarrow> 's \<Rightarrow> 's res" where
  "foldM f [] s = Inr s"
| "foldM f (x # xs) s = rbind (f x s) (foldM f xs)"

definition domain_row :: "server_row \<Rightarrow> string \<Rightarrow> json \<Rightarrow> json list \<Rightarrow> string \<times> json \<Rightarrow> dom_row res" where
  "domain_row srv ip certbot certs ns =
     rbind (cert_for (fst ns) certs None) (\<lambda>cert. rbind (dict_of (snd ns)) (\<lambda>site.
       Inr \<lparr>dr_domain = fst ns, dr_server_id = sv_id srv, dr_server = sv_name srv, dr_server_ip = ip, dr_site = rget site ''file'',
            dr_ssl = (truthy (rget site ''ssl'') \<or> (case cert of None \<Rightarrow> False | Some c \<Rightarrow> truthy c)), dr_cert = cert,
            dr_certbot = certbot, dr_dns = JNull, dr_state = []\<rparr>))"

definition server_rows :: "server_row \<Rightarrow> json option \<Rightarrow> 'a hub_scheme \<Rightarrow> dom_row list res" where
  "server_rows srv odata d =
     (case odata of
        None \<Rightarrow> Inr []
      | Some data \<Rightarrow>
          if \<not> truthy data then Inr []
          else
            let ip = (case peek (sv_id srv) d of Some lv \<Rightarrow> if lv_ip lv \<noteq> [] then lv_ip lv else (case sv_last_ip srv of Some i \<Rightarrow> i | None \<Rightarrow> [])
                       | None \<Rightarrow> (case sv_last_ip srv of Some i \<Rightarrow> i | None \<Rightarrow> []))
            in rbind (dict_of data) (\<lambda>kvs. rbind (items_of kvs ''certs'') (\<lambda>certs. rbind (items_of kvs ''sites'') (\<lambda>sites.
               rbind (foldM site_names sites []) (\<lambda>m. rbind (foldM caddy_names certs m) (\<lambda>names.
               mapM (domain_row srv ip (dflt kvs ''certbot'' (JBool False)) certs) (sort_key fst names)))))))"

definition dns_state :: "string \<Rightarrow> json \<Rightarrow> string" where
  "dns_state ip info =
     (let texts = (\<lambda>k. case oget info k of JArr xs \<Rightarrow> xs | _ \<Rightarrow> []); ips = texts ''a'' @ texts ''aaaa'' in
      if ips = [] then ''none'' else if ip \<noteq> [] \<and> JStr ip \<in> set ips then ''ok'' else ''elsewhere'')"

fun fetch_all :: "(json \<Rightarrow> string) \<Rightarrow> (string \<Rightarrow> agent) \<Rightarrow> rat \<Rightarrow> bool \<Rightarrow> server_row list \<Rightarrow> 'a hub_scheme \<Rightarrow> ('a hub_scheme, json option list) io" where
  "fetch_all rp ags now force [] d = (d, Inr [])"
| "fetch_all rp ags now force (s # ss) d =
     (case fetch rp (ags (sv_id s)) now (sv_id s) force d of
        (d', Inl e) \<Rightarrow> (d', Inl e)
      | (d', Inr v) \<Rightarrow>
          (case fetch_all rp ags now force ss d' of (d'', Inl e) \<Rightarrow> (d'', Inl e) | (d'', Inr vs) \<Rightarrow> (d'', Inr (v # vs))))"

fun dns_rows :: "resolver \<Rightarrow> rat \<Rightarrow> dom_row list \<Rightarrow> 'a hub_scheme \<Rightarrow> 'a hub_scheme \<times> dom_row list" where
  "dns_rows dns now [] d = (d, [])"
| "dns_rows dns now (r # rs) d =
     (let (d1, info) = dns_info dns now (dr_domain r) d; (d2, rs') = dns_rows dns now rs d1
      in (d2, r\<lparr>dr_dns := info, dr_state := dns_state (dr_server_ip r) info\<rparr> # rs'))"

fun mail_rows :: "resolver \<Rightarrow> rat \<Rightarrow> string list \<Rightarrow> 'a hub_scheme \<Rightarrow> 'a hub_scheme \<times> (string, json) dict" where
  "mail_rows dns now [] d = (d, [])"
| "mail_rows dns now (b # bs) d = (let (d1, v) = mail_info dns now b d; (d2, m) = mail_rows dns now bs d1 in (d2, (b, v) # m))"

definition domains_overview ::
  "(json \<Rightarrow> string) \<Rightarrow> (string \<Rightarrow> agent) \<Rightarrow> resolver \<Rightarrow> rat \<Rightarrow> bool \<Rightarrow> 'a hub_scheme \<Rightarrow> ('a hub_scheme, dom_row list \<times> (string, json) dict) io" where
  "domains_overview rp ags dns now force d =
     (let srvs = sort_key sv_created (filter (\<lambda>s. sv_secret_hash s \<noteq> None) (servers d)) in
      case fetch_all rp ags now force srvs d of
        (d1, Inl e) \<Rightarrow> (d1, Inl e)
      | (d1, Inr datas) \<Rightarrow>
          (case mapM (\<lambda>(s, v). server_rows s v d1) (zip srvs datas) of
             Inl e \<Rightarrow> (d1, Inl e)
           | Inr rss \<Rightarrow>
               let (d2, rows) = dns_rows dns now (concat rss) d1;
                   (d3, mail) = mail_rows dns now (sort (remdups (map (\<lambda>r. base_domain (dr_domain r)) rows))) d2
               in (d3, Inr (rows, mail))))"

definition api_get_domains ::
  "(json \<Rightarrow> string) \<Rightarrow> (string \<Rightarrow> agent) \<Rightarrow> resolver \<Rightarrow> crypto \<Rightarrow> config \<Rightarrow> int \<Rightarrow> request \<Rightarrow> bool \<Rightarrow> 'a hub_scheme
   \<Rightarrow> ('a hub_scheme, dom_row list \<times> (string, json) dict) io" where
  "api_get_domains rp ags dns cr cfg now rq refresh =
     depends (admin cr cfg now rq) (\<lambda>u d. domains_overview rp ags dns (of_int now) refresh (if refresh then d\<lparr>dns_cache := []\<rparr> else d))"

section \<open>Wildcards\<close>

lemma endswith_iff: "endswith s p \<longleftrightarrow> (\<exists>t. s = t @ p)"
proof
  assume "endswith s p"
  then show "\<exists>t. s = t @ p" by (intro exI [of _ "take (length s - length p) s"]) (metis append_take_drop_id endswith_def)
qed (auto simp: endswith_def)

text \<open>
  A wildcard certificate covers exactly one more label: a name of a certificate covers a domain when they are equal, or when it is
  \<open>*.\<close> followed by the domain without its first label. So \<open>*.example.ir\<close> covers neither \<open>example.ir\<close> nor
  \<open>a.b.example.ir\<close>.
\<close>

theorem wildcard_covers_one_label:
  "covers pat domain \<longleftrightarrow> pat = domain \<or> (\<exists>label rest. pat = ''*.'' @ rest \<and> domain = label @ CHR ''.'' # rest \<and> CHR ''.'' \<notin> set label)"
proof -
  have "startswith pat ''*.'' \<and> endswith domain (drop 1 pat) \<and> length (filter (\<lambda>c. c = CHR ''.'') domain) = length (filter (\<lambda>c. c = CHR ''.'') pat)
    \<longleftrightarrow> (\<exists>label rest. pat = ''*.'' @ rest \<and> domain = label @ CHR ''.'' # rest \<and> CHR ''.'' \<notin> set label)" (is "?l \<longleftrightarrow> ?r")
  proof
    assume l: ?l
    then obtain rest where pat: "pat = ''*.'' @ rest" by (auto simp: startswith_iff)
    with l obtain label where "domain = label @ CHR ''.'' # rest" by (auto simp: endswith_iff)
    with l pat show ?r by (auto simp: filter_empty_conv)
  next
    assume ?r
    then obtain label rest where e: "pat = ''*.'' @ rest" "domain = label @ CHR ''.'' # rest" "CHR ''.'' \<notin> set label" by blast
    then have "filter (\<lambda>c. c = CHR ''.'') label = []" by (auto simp: filter_empty_conv)
    with e show ?l by (auto simp: startswith_iff endswith_iff)
  qed
  then show ?thesis unfolding covers_def by blast
qed

section \<open>Certificate alerts\<close>

definition cert_bad :: "rat \<Rightarrow> rat \<Rightarrow> (string, json) dict \<Rightarrow> bool" where
  \<comment> \<open>expires within \<open>thr\<close> days\<close>
  "cert_bad now thr c = (\<exists>na. not_after c = Inr na \<and> (na - now) / 86400 \<le> thr)"

lemma cert_alert_Inr:
  assumes "cert_alert rp sid now v d = (d', Inr sub)" "dget (rules_mem d) ''cert'' = Some r"
  shows "\<exists>c m x. v = JObj c \<and> sub = cert_subject rp c \<and> d' = step ''cert'' sid sub (cert_bad now (ru_threshold r) c) x m now False d"
proof -
  have t: "threshold ''cert'' d = Inr (ru_threshold r)" using assms(2) by (simp add: threshold_def)
  show ?thesis
  proof (cases v)
    case (JObj c)
    with assms(1) t obtain na ds doms where e: "not_after c = Inr na" "items_of c ''domains'' = Inr ds" "mapM str_of (take 3 ds) = Inr doms"
      by (auto simp: cert_alert_def dict_of_def rbind_def split: sum.splits)
    have b: "cert_bad now (ru_threshold r) c = ((na - now) / 86400 \<le> ru_threshold r)" using e(1) by (simp add: cert_bad_def)
    have "sub = cert_subject rp c \<and> d' = step ''cert'' sid sub ((na - now) / 86400 \<le> ru_threshold r) (py_round 1 ((na - now) / 86400))
      (''certificate '' @ join_with '', '' doms @ '': '' @ str_int (py_trunc ((na - now) / 86400)) @ '' days left ('' @ py_str rp (rget c ''source'') @ '')'') now False d"
      using assms(1) t e JObj by (auto simp: cert_alert_def dict_of_def rbind_def)
    then show ?thesis unfolding b [symmetric] using JObj by blast
  qed (use assms(1) in \<open>simp_all add: cert_alert_def dict_of_def rbind_def\<close>)
qed

lemma cert_alerts_Inr:
  assumes "cert_alerts rp sid now vs seen d = (d', Inr seen')" "dget (rules_mem d) ''cert'' = Some r" "ru_enabled r" "ru_for_s r = 0"
    and "\<And>sub. settled (''cert'', sid, sub) d"
  shows "\<exists>cs. vs = map JObj cs \<and> set seen' = (\<lambda>c. (''cert'', cert_subject rp c)) ` set cs \<union> set seen
    \<and> (\<forall>sub. sub \<notin> cert_subject rp ` set cs \<longrightarrow> dget (astate d') (''cert'', sid, sub) = dget (astate d) (''cert'', sid, sub))
    \<and> (distinct (map (cert_subject rp) cs) \<longrightarrow> (\<forall>c \<in> set cs. is_open (''cert'', sid, cert_subject rp c) d' \<longleftrightarrow> cert_bad now (ru_threshold r) c))"
  using assms(1,2,5)
proof (induction vs arbitrary: seen d)
  case (Cons v vs)
  obtain d1 sub where a: "cert_alert rp sid now v d = (d1, Inr sub)" and rest: "cert_alerts rp sid now vs ((''cert'', sub) # seen) d1 = (d', Inr seen')"
    using Cons.prems(1) by (auto split: prod.splits sum.splits)
  from cert_alert_Inr [OF a Cons.prems(2)] obtain c m x where c: "v = JObj c" "sub = cert_subject rp c"
    "d1 = step ''cert'' sid sub (cert_bad now (ru_threshold r) c) x m now False d" by blast
  have r1: "dget (rules_mem d1) ''cert'' = Some r" using Cons.prems(2) by (simp add: c(3) step_rules)
  note st = step_settled [OF Cons.prems(2) assms(3,4) Cons.prems(3) [of sub], of "cert_bad now (ru_threshold r) c" x m now False, folded c(3)]
  have other: "dget (astate d1) (''cert'', sid, s) = dget (astate d) (''cert'', sid, s)" if "s \<noteq> sub" for s
    unfolding c(3) using that by (intro step_other) simp
  have "settled (''cert'', sid, s) d1" for s
    using st Cons.prems(3) [of s] same_key(1) [OF other [of s]] by (cases "s = sub") auto
  from Cons.IH [OF rest r1 this] obtain cs where cs: "vs = map JObj cs"
    "set seen' = (\<lambda>c. (''cert'', cert_subject rp c)) ` set cs \<union> set ((''cert'', sub) # seen)"
    "\<And>s. s \<notin> cert_subject rp ` set cs \<Longrightarrow> dget (astate d') (''cert'', sid, s) = dget (astate d1) (''cert'', sid, s)"
    "distinct (map (cert_subject rp) cs) \<Longrightarrow> \<forall>c \<in> set cs. is_open (''cert'', sid, cert_subject rp c) d' \<longleftrightarrow> cert_bad now (ru_threshold r) c" by auto
  have "is_open (''cert'', sid, sub) d' \<longleftrightarrow> cert_bad now (ru_threshold r) c" if "sub \<notin> cert_subject rp ` set cs"
    using same_key(2) [OF cs(3) [OF that]] st by simp
  with cs(1-4) c(1,2) other show ?case by (intro exI [of _ "c # cs"]) (auto simp: image_iff)
qed simp

text \<open>
  Certificate alerts say the truth: after the hub processed a server's report, that server has an open certificate alert for a
  subject exactly when the report holds a certificate of that subject that expires within the threshold; certificates
  that are gone or renewed have none.
\<close>

theorem certificate_alerts_exact:
  assumes "dget (rules_mem d) ''cert'' = Some r" "ru_enabled r" "ru_for_s r = 0" and "\<And>sub. settled (''cert'', sid, sub) d"
    and "alert_certs rp sid now (JObj kvs) d = (d', Inr ())" and "items_of kvs ''certs'' = Inr (map JObj cs)"
    and "distinct (map (cert_subject rp) cs)"
  shows "is_open (''cert'', sid, sub) d' \<longleftrightarrow> (\<exists>c \<in> set cs. cert_subject rp c = sub \<and> cert_bad now (ru_threshold r) c)"
proof -
  obtain d1 seen where a: "cert_alerts rp sid now (map JObj cs) [] d = (d1, Inr seen)" and d': "d' = settle [''cert''] sid seen now d1"
    using assms(5,6) by (auto simp: alert_certs_def dict_of_def rbind_def split: prod.splits sum.splits)
  from cert_alerts_Inr [OF a assms(1-4)] obtain cs' where "map JObj cs = map JObj cs'" and seen: "set seen = (\<lambda>c. (''cert'', cert_subject rp c)) ` set cs'"
    and own: "distinct (map (cert_subject rp) cs') \<Longrightarrow> \<forall>c \<in> set cs'. is_open (''cert'', sid, cert_subject rp c) d1 \<longleftrightarrow> cert_bad now (ru_threshold r) c"
    by auto
  then have cs: "cs' = cs" by (metis inj_map_eq_map inj_onI json.inject(6))
  show ?thesis
  proof (cases "sub \<in> cert_subject rp ` set cs")
    case True
    have "dget (astate d') (''cert'', sid, sub) = dget (astate d1) (''cert'', sid, sub)"
      unfolding d' by (rule other.P_settle) (use True seen cs in auto)
    from same_key(2) [OF this] own assms(7) True show ?thesis unfolding cs
      by (auto simp: distinct_map dest: inj_onD)
  next
    case False
    have "dget (astate d') (''cert'', sid, sub) = None" unfolding d' by (rule settle_gone) (use False seen cs in auto)
    with False show ?thesis by (auto simp: is_open_def)
  qed
qed

section \<open>The certificate shown for a domain\<close>

definition covering :: "string \<Rightarrow> (string, json) dict \<Rightarrow> bool" where
  "covering domain c = (\<exists>ds. items_of c ''domains'' = Inr ds \<and> cert_covers domain ds = Inr True)"

lemma cert_for_step:
  assumes "cert_for domain (map JObj cs) best = Inr r" "\<And>c. c \<in> set cs \<Longrightarrow> not_after c = Inr (na c)"
    and "\<And>w. best = Some w \<Longrightarrow> \<exists>b. w = JObj b \<and> not_after b = Inr (na b)"
  shows "case r of
      None \<Rightarrow> best = None \<and> (\<forall>c \<in> set cs. \<not> covering domain c)
    | Some v \<Rightarrow> \<exists>b. v = JObj b \<and> (best = Some v \<or> b \<in> set cs \<and> covering domain b)
        \<and> (\<forall>c \<in> set cs. covering domain c \<longrightarrow> na c \<le> na b) \<and> (\<forall>w. best = Some (JObj w) \<longrightarrow> na w \<le> na b)"
  using assms
proof (induction cs arbitrary: best)
  case Nil
  then show ?case by (cases best) auto
next
  case (Cons c cs)
  from Cons.prems(1) obtain ds hit where ds: "items_of c ''domains'' = Inr ds" "cert_covers domain ds = Inr hit"
    by (auto simp: dict_of_def rbind_def split: sum.splits)
  then have cov: "covering domain c \<longleftrightarrow> hit" by (auto simp: covering_def)
  have nac: "not_after c = Inr (na c)" and nas: "\<And>x. x \<in> set cs \<Longrightarrow> not_after x = Inr (na x)" using Cons.prems(2) by auto
  have new: "\<exists>b. w = JObj b \<and> not_after b = Inr (na b)" if "Some (JObj c) = Some w" for w using that nac by auto
  show ?case
  proof (cases hit)
    case False
    then have "cert_for domain (map JObj cs) best = Inr r" using Cons.prems(1) ds by (simp add: dict_of_def rbind_def)
    from Cons.IH [OF this nas Cons.prems(3)] cov False show ?thesis by (auto split: option.splits)
  next
    case True
    show ?thesis
    proof (cases best)
      case None
      then have "cert_for domain (map JObj cs) (Some (JObj c)) = Inr r" using Cons.prems(1) ds True by (simp add: dict_of_def rbind_def)
      from Cons.IH [OF this nas new] None cov True show ?thesis by (auto split: option.splits)
    next
      case (Some w)
      with Cons.prems(3) obtain b where b: "w = JObj b" "not_after b = Inr (na b)" by blast
      then have l: "later c w = Inr (na b < na c)" using nac by (simp add: later_def dict_of_def rbind_def)
      show ?thesis
      proof (cases "na b < na c")
        case lt: True
        then have "cert_for domain (map JObj cs) (Some (JObj c)) = Inr r" using Cons.prems(1) ds True Some l by (simp add: dict_of_def rbind_def)
        from Cons.IH [OF this nas new] Some b cov True lt show ?thesis by (auto split: option.splits)
      next
        case ge: False
        then have "cert_for domain (map JObj cs) best = Inr r" using Cons.prems(1) ds True Some l by (simp add: dict_of_def rbind_def)
        from Cons.IH [OF this nas Cons.prems(3)] Some b cov True ge show ?thesis by (auto split: option.splits)
      qed
    qed
  qed
qed

text \<open>
  The certificate shown for a domain is the right one: if any reported certificate covers the domain, one of those with the
  latest expiry is chosen, and none is shown only when none covers it.
\<close>

theorem cert_for_latest:
  assumes "cert_for domain (map JObj cs) None = Inr r" and "\<And>c. c \<in> set cs \<Longrightarrow> not_after c = Inr (na c)"
  shows "case r of
      None \<Rightarrow> \<forall>c \<in> set cs. \<not> covering domain c
    | Some v \<Rightarrow> \<exists>b \<in> set cs. v = JObj b \<and> covering domain b \<and> (\<forall>c \<in> set cs. covering domain c \<longrightarrow> na c \<le> na b)"
  using cert_for_step [OF assms] by (auto split: option.splits)

section \<open>Closed examples\<close>

definition demo_cert :: "string \<Rightarrow> int \<Rightarrow> string \<Rightarrow> (string, json) dict" where
  "demo_cert path na name = [(''path'', JStr path), (''not_after'', JInt na), (''domains'', JArr [JStr name])]"

abbreviation demo_certs :: "(string, json) dict list" where
  "demo_certs \<equiv> [demo_cert ''/a'' 864000 ''*.a.ir'', demo_cert ''/b'' 8640000 ''x.a.ir'']"

theorem certificate_alerts_exact_witness:
  "is_open (''cert'', ''s1'', ''ssl:/a'') (fst (alert_certs demo_rp ''s1'' 0 (JObj [(''certs'', JArr (map JObj demo_certs))]) demo_hub))
   \<and> \<not> is_open (''cert'', ''s1'', ''ssl:/b'') (fst (alert_certs demo_rp ''s1'' 0 (JObj [(''certs'', JArr (map JObj demo_certs))]) demo_hub))"
proof -
  let ?a = "alert_certs demo_rp ''s1'' 0 (JObj [(''certs'', JArr (map JObj demo_certs))]) demo_hub"
  let ?r = "the (dget (rules_mem demo_hub) ''cert'')"
  have r: "dget (rules_mem demo_hub) ''cert'' = Some ?r" "ru_enabled ?r" "ru_for_s ?r = 0" "ru_threshold ?r = 14" by code_simp+
  have "astate demo_hub = []" by code_simp
  then have s: "settled (''cert'', ''s1'', sub) demo_hub" for sub by (simp add: settled_def)
  have "snd ?a = Inr ()" by code_simp
  then have a: "?a = (fst ?a, Inr ())" by (intro prod_eqI) (simp_all only: fst_conv snd_conv)
  have i: "items_of [(''certs'', JArr (map JObj demo_certs))] ''certs'' = Inr (map JObj demo_certs)" by code_simp
  have d: "distinct (map (cert_subject demo_rp) demo_certs)" by code_simp
  note e = certificate_alerts_exact [OF r(1-3) s a i d]
  have sub: "cert_subject demo_rp (demo_cert ''/a'' 864000 ''*.a.ir'') = ''ssl:/a''" "cert_subject demo_rp (demo_cert ''/b'' 8640000 ''x.a.ir'') = ''ssl:/b''" by code_simp+
  have "not_after (demo_cert ''/a'' 864000 ''*.a.ir'') = Inr 864000" "not_after (demo_cert ''/b'' 8640000 ''x.a.ir'') = Inr 8640000" by code_simp+
  then have "cert_bad 0 14 (demo_cert ''/a'' 864000 ''*.a.ir'')" "\<not> cert_bad 0 14 (demo_cert ''/b'' 8640000 ''x.a.ir'')" by (simp_all add: cert_bad_def)
  then show ?thesis unfolding e r(4) by (simp add: sub)
qed

theorem cert_for_latest_witness:
  "cert_for ''x.a.ir'' (map JObj demo_certs) None = Inr (Some (JObj (demo_cert ''/b'' 8640000 ''x.a.ir'')))
   \<and> covering ''x.a.ir'' (demo_cert ''/b'' 8640000 ''x.a.ir'')"
proof -
  have c: "cert_for ''x.a.ir'' (map JObj demo_certs) None = Inr (Some (JObj (demo_cert ''/b'' 8640000 ''x.a.ir'')))" by code_simp
  have "not_after x = Inr (projr (not_after x))" if "x \<in> set demo_certs" for x using that by (auto simp: demo_cert_def not_after_def dflt_def dget_def rat_of_def)
  from cert_for_latest [OF c this] c show ?thesis by auto
qed

end
