(* ===== verification/Manage.thy ===== *)
theory Manage
  imports Domains
begin

text \<open>
  The management routes of one server (\<open>hub/icsd_hub/manage.py\<close>): files, services, containers, console, databases, certificates and jobs.
  A handler acts on the requests sent so far and the hub's state; \<open>ag\<close> says what the agent answers, \<open>rpc.call\<close> is the one of
  theory \<open>Rpc\<close>. Texts of files are lists of code points, contents lists of bytes.
\<close>

section \<open>UTF-8\<close>

definition utf8_point :: "nat \<Rightarrow> nat list" where
  "utf8_point c =
     (if c < 128 then [c]
      else if c < 2048 then [192 + c div 64, 128 + c mod 64]
      else if c < 65536 then [224 + c div 4096, 128 + c div 64 mod 64, 128 + c mod 64]
      else [240 + c div 262144, 128 + c div 4096 mod 64, 128 + c div 64 mod 64, 128 + c mod 64])"

definition scalar_value :: "nat \<Rightarrow> bool" where
  \<comment> \<open>a code point that is no surrogate\<close>
  "scalar_value c = (c < 55296 \<or> 57344 \<le> c \<and> c < 1114112)"

definition utf8_encode :: "nat list \<Rightarrow> nat list res" where
  "utf8_encode cs = (if list_all scalar_value cs then Inr (concat (map utf8_point cs)) else Inl (ValueError ''surrogates not allowed''))"

definition cont :: "nat \<Rightarrow> bool" where
  "cont b = (128 \<le> b \<and> b < 192)"

fun utf8_decode :: "nat list \<Rightarrow> nat list option" where
  \<comment> \<open>strict: no overlong form, no surrogate, nothing above U+10FFFF\<close>
  "utf8_decode [] = Some []"
| "utf8_decode (a # bs) =
     (if a < 128 then map_option (Cons a) (utf8_decode bs)
      else if 194 \<le> a \<and> a < 224 then
        (case bs of
           b # r \<Rightarrow> if cont b then map_option (Cons ((a - 192) * 64 + (b - 128))) (utf8_decode r) else None
         | [] \<Rightarrow> None)
      else if 224 \<le> a \<and> a < 240 then
        (case bs of
           b # c # r \<Rightarrow>
             if cont b \<and> cont c \<and> 2048 \<le> (a - 224) * 4096 + (b - 128) * 64 + (c - 128)
                \<and> scalar_value ((a - 224) * 4096 + (b - 128) * 64 + (c - 128))
             then map_option (Cons ((a - 224) * 4096 + (b - 128) * 64 + (c - 128))) (utf8_decode r) else None
         | _ \<Rightarrow> None)
      else if 240 \<le> a \<and> a < 245 then
        (case bs of
           b # c # e # r \<Rightarrow>
             if cont b \<and> cont c \<and> cont e \<and> 65536 \<le> (a - 240) * 262144 + (b - 128) * 4096 + (c - 128) * 64 + (e - 128)
                \<and> scalar_value ((a - 240) * 262144 + (b - 128) * 4096 + (c - 128) * 64 + (e - 128))
             then map_option (Cons ((a - 240) * 262144 + (b - 128) * 4096 + (c - 128) * 64 + (e - 128))) (utf8_decode r) else None
         | _ \<Rightarrow> None)
      else None)"

definition file_text :: "nat list \<Rightarrow> nat list" where
  \<comment> \<open>UTF-8, else Latin-1\<close>
  "file_text data = (case utf8_decode data of Some cs \<Rightarrow> cs | None \<Rightarrow> data)"

section \<open>Calls and audit\<close>

definition EDIT_MAX :: int where
  "EDIT_MAX = 2 * 1024 * 1024"

definition relay :: "(json \<Rightarrow> string) \<Rightarrow> agent \<Rightarrow> int \<Rightarrow> string \<Rightarrow> string \<Rightarrow> (string, json) dict \<Rightarrow> ('a hub_scheme, json) act" where
  \<comment> \<open>\<open>_call\<close>\<close>
  "relay rp ag now sid op args s =
     (case get_server now sid (snd s) of
        Inl e \<Rightarrow> (s, Inl e)
      | Inr _ \<Rightarrow>
          (case call rp ag (snd s) sid op args (fst s) of
             (tr, Inl (RPCError m st)) \<Rightarrow> ((tr, snd s), Inl (HTTPException st m))
           | (tr, r) \<Rightarrow> ((tr, snd s), r)))"

definition record_audit :: "int \<Rightarrow> user \<Rightarrow> request \<Rightarrow> string \<Rightarrow> string \<Rightarrow> string \<Rightarrow> ('a hub_scheme, unit) act" where
  \<comment> \<open>\<open>_audit\<close>\<close>
  "record_audit now u rq sid action detail =
     amod (audit now (Some (us_username u)) action (take 500 (sid @ '' '' @ detail)) (Some (client_ip rq)))"

definition guarded :: "('h \<Rightarrow> ('h, user) io) \<Rightarrow> bool \<Rightarrow> (user \<Rightarrow> ('h, 'v) act) \<Rightarrow> ('h, 'v) act" where
  \<comment> \<open>the dependency of a route, then the limits of its fields, then its body\<close>
  "guarded g valid m s =
     (case g (snd s) of
        (d, Inl e) \<Rightarrow> ((fst s, d), Inl e)
      | (d, Inr u) \<Rightarrow> if valid then m u (fst s, d) else ((fst s, d), Inl (HTTPException 422 ''validation'')))"

datatype reply = RJson json | RText "nat list" json json | RFile "nat list" json string | RCaps "(string, json) dict" bool

definition json_reply :: "('h, json) act \<Rightarrow> ('h, reply) act" where
  "json_reply m = abind m (\<lambda>v. ares (Inr (RJson v)))"

definition path_ok :: "string \<Rightarrow> bool" where
  "path_ok p = (length p \<le> 4096)"

section \<open>Reading and writing files\<close>

abbreviation read_args :: "string \<Rightarrow> nat \<Rightarrow> (string, json) dict" where
  "read_args path off \<equiv> [(''path'', JStr path), (''offset'', jnat off), (''length'', JInt CHUNK)]"

definition data_of :: "json \<Rightarrow> nat list res" where
  \<comment> \<open>\<open>base64.b64decode(r["data"])\<close>\<close>
  "data_of r = rbind (jidx r ''data'') (\<lambda>v. case v of JStr t \<Rightarrow> b64decode t | _ \<Rightarrow> Inl TypeError)"

function read_loop :: "(nat \<Rightarrow> ('h, json) act) \<Rightarrow> rat \<Rightarrow> nat list \<Rightarrow> ('h, nat list) act" where
  \<comment> \<open>\<open>while len(data) < size\<close>; the action reads from an offset\<close>
  "read_loop rd n data s =
     (if of_nat (length data) < n then
        (case abind (rd (length data)) (\<lambda>r. ares (data_of r)) s of
           (s', Inl e) \<Rightarrow> (s', Inl e)
         | (s', Inr chunk) \<Rightarrow> if chunk = [] then (s', Inr data) else read_loop rd n (data @ chunk) s')
      else (s, Inr data))"
  by pat_completeness auto
termination
proof (relation "measure (\<lambda>(rd, n, data, s). nat (\<lceil>n\<rceil> - int (length data)))")
  fix rd :: "nat \<Rightarrow> ('h, json) act" and n :: rat and data chunk :: "nat list" and s s' :: "rpc_call list \<times> 'h"
  and x :: "(rpc_call list \<times> 'h) \<times> nat list res" and y :: "nat list res"
  assume l: "of_nat (length data) < n" and c: "chunk \<noteq> []"
  from l have "int (length data) < \<lceil>n\<rceil>" by (simp add: less_ceiling_iff)
  moreover have "0 < length chunk" using c by simp
  ultimately show "((rd, n, data @ chunk, s'), rd, n, data, s) \<in> measure (\<lambda>(rd, n, data, s). nat (\<lceil>n\<rceil> - int (length data)))" by simp
qed simp

declare read_loop.simps [simp del]

definition fs_read :: "(json \<Rightarrow> string) \<Rightarrow> agent \<Rightarrow> crypto \<Rightarrow> config \<Rightarrow> int \<Rightarrow> request \<Rightarrow> string \<Rightarrow> string \<Rightarrow> ('a hub_scheme, reply) act" where
  "fs_read rp ag cr cfg now rq sid path =
     guarded (admin cr cfg now rq) True (\<lambda>u.
       abind (relay rp ag now sid ''fs.read'' (read_args path 0)) (\<lambda>first.
       abind (ares (rbind (jidx first ''size'') (\<lambda>z. rbind (rat_of z) (\<lambda>n.
                if of_int EDIT_MAX < n then Inl (HTTPException 413 ''too big to edit in the browser'') else Inr n)))) (\<lambda>size.
       abind (ares (data_of first)) (\<lambda>data0.
       abind (read_loop (\<lambda>off. relay rp ag now sid ''fs.read'' (read_args path off)) size data0) (\<lambda>data.
       ares (if 0 \<in> set (take 8192 data) then Inl (HTTPException 415 ''not a text file'')
             else rbind (jidx first ''mtime'') (\<lambda>mt. rbind (jidx first ''size'') (\<lambda>z. Inr (RText (file_text data) mt z)))))))))"

definition direct :: "(json \<Rightarrow> string) \<Rightarrow> agent \<Rightarrow> string \<Rightarrow> string \<Rightarrow> (string, json) dict \<Rightarrow> ('a hub_scheme, json) act" where
  \<comment> \<open>\<open>rpc.call\<close> itself\<close>
  "direct rp ag sid op args s = (let (tr, r) = call rp ag (snd s) sid op args (fst s) in ((tr, snd s), r))"

definition fs_download :: "(json \<Rightarrow> string) \<Rightarrow> agent \<Rightarrow> crypto \<Rightarrow> config \<Rightarrow> int \<Rightarrow> request \<Rightarrow> string \<Rightarrow> string \<Rightarrow> ('a hub_scheme, reply) act" where
  \<comment> \<open>with the stream the client then reads\<close>
  "fs_download rp ag cr cfg now rq sid path =
     guarded (admin cr cfg now rq) True (\<lambda>u.
       abind (relay rp ag now sid ''fs.read'' (read_args path 0)) (\<lambda>first.
       abind (record_audit now u rq sid ''fs.download'' path) (\<lambda>_.
       abind (ares (jidx first ''size'')) (\<lambda>z.
       abind (ares (rbind (rat_of z) (\<lambda>n. rbind (data_of first) (\<lambda>b. Inr (n, b))))) (\<lambda>nb.
       abind (read_loop (\<lambda>off. direct rp ag sid ''fs.read'' (read_args path off)) (fst nb) (snd nb)) (\<lambda>data.
       ares (Inr (RFile data z (if basename path = [] then ''download'' else basename path)))))))))"

definition write_args :: "string \<Rightarrow> nat list \<Rightarrow> nat \<Rightarrow> bool \<Rightarrow> json \<Rightarrow> (string, json) dict" where
  "write_args path chunk offset final upload =
     [(''path'', JStr path), (''data'', JStr (b64encode chunk)), (''offset'', jnat offset), (''final'', JBool final), (''upload'', upload)]"

function write_loop :: "((string, json) dict \<Rightarrow> ('h, json) act) \<Rightarrow> string \<Rightarrow> int \<Rightarrow> nat list \<Rightarrow> nat \<Rightarrow> json \<Rightarrow> ('h, json) act" where
  \<comment> \<open>the loop of \<open>_write_bytes\<close> over the bytes not yet sent\<close>
  "write_loop wr path if_mtime rest offset upload s =
     (let chunk = take (nat CHUNK) rest; final = (length rest \<le> nat CHUNK);
          args = write_args path chunk offset final upload @ (if offset = 0 \<and> if_mtime \<noteq> 0 then [(''if_mtime'', JInt if_mtime)] else [])
      in case abind (wr args) (\<lambda>res. ares (rbind (upload_of res upload) (\<lambda>up. Inr (res, up)))) s of
           (s', Inl e) \<Rightarrow> (s', Inl e)
         | (s', Inr (res, up)) \<Rightarrow>
             if length rest \<le> nat CHUNK then (s', Inr res)
             else write_loop wr path if_mtime (drop (nat CHUNK) rest) (offset + length (take (nat CHUNK) rest)) up s')"
  by pat_completeness auto
termination
  by (relation "measure (\<lambda>(wr, path, m, rest, offset, upload, s). length rest)") (auto simp: CHUNK_def)

declare write_loop.simps [simp del]

definition fs_write ::
  "(json \<Rightarrow> string) \<Rightarrow> agent \<Rightarrow> crypto \<Rightarrow> config \<Rightarrow> int \<Rightarrow> request \<Rightarrow> string \<Rightarrow> string \<Rightarrow> nat list \<Rightarrow> int \<Rightarrow> ('a hub_scheme, reply) act" where
  "fs_write rp ag cr cfg now rq sid path body if_mtime =
     guarded (elevated cr cfg now rq) (path_ok path) (\<lambda>u.
       abind (ares (utf8_encode body)) (\<lambda>data.
       abind (ares (if EDIT_MAX < int (length data) then Inl (HTTPException 413 ''more than 2 MB'') else Inr ())) (\<lambda>_.
       abind (write_loop (relay rp ag now sid ''fs.write'') path if_mtime data 0 (JStr [])) (\<lambda>res.
       abind (record_audit now u rq sid ''fs.write'' path) (\<lambda>_. ares (Inr (RJson res)))))))"

function upload_loop :: "((string, json) dict \<Rightarrow> ('h, json) act) \<Rightarrow> string \<Rightarrow> nat list \<Rightarrow> nat \<Rightarrow> json \<Rightarrow> ('h, nat) act" where
  \<comment> \<open>one uploaded file, reading one chunk ahead; returns its size\<close>
  "upload_loop wr path rest offset upload s =
     (let chunk = take (nat CHUNK) rest; nxt = take (nat CHUNK) (drop (nat CHUNK) rest); final = (nxt = [])
      in case abind (wr (write_args path chunk offset final upload)) (\<lambda>res. ares (upload_of res upload)) s of
           (s', Inl e) \<Rightarrow> (s', Inl e)
         | (s', Inr up) \<Rightarrow>
             if take (nat CHUNK) (drop (nat CHUNK) rest) = [] then (s', Inr (offset + length (take (nat CHUNK) rest)))
             else upload_loop wr path (drop (nat CHUNK) rest) (offset + length (take (nat CHUNK) rest)) up s')"
  by pat_completeness auto
termination
  by (relation "measure (\<lambda>(wr, path, rest, offset, upload, s). length rest)") (auto simp: CHUNK_def)

declare upload_loop.simps [simp del]

definition upload_name :: "string option \<Rightarrow> string" where
  "upload_name fn = basename (map (\<lambda>c. if c = CHR 0x5C then CHR ''/'' else c) (case fn of None \<Rightarrow> [] | Some n \<Rightarrow> n))"

fun upload_files ::
  "(json \<Rightarrow> string) \<Rightarrow> agent \<Rightarrow> int \<Rightarrow> user \<Rightarrow> request \<Rightarrow> string \<Rightarrow> string \<Rightarrow> (string option \<times> nat list) list \<Rightarrow> ('a hub_scheme, json list) act" where
  "upload_files rp ag now u rq sid dir [] = ares (Inr [])"
| "upload_files rp ag now u rq sid dir (f # fs) =
     (let name = upload_name (fst f); target = posix_join dir name in
      if name \<in> {[], ''.'', ''..''} then upload_files rp ag now u rq sid dir fs
      else
        abind (upload_loop (relay rp ag now sid ''fs.write'') target (snd f) 0 (JStr [])) (\<lambda>n.
        abind (record_audit now u rq sid ''fs.upload'' (target @ '' ('' @ str_int (int n) @ '' B)'')) (\<lambda>_.
        abind (upload_files rp ag now u rq sid dir fs) (\<lambda>done.
        ares (Inr (JObj [(''name'', JStr name), (''size'', jnat n)] # done))))))"

definition fs_upload ::
  "(json \<Rightarrow> string) \<Rightarrow> agent \<Rightarrow> crypto \<Rightarrow> config \<Rightarrow> int \<Rightarrow> request \<Rightarrow> string \<Rightarrow> string \<Rightarrow> (string option \<times> nat list) list \<Rightarrow> ('a hub_scheme, reply) act" where
  "fs_upload rp ag cr cfg now rq sid dir files =
     guarded (elevated cr cfg now rq) True (\<lambda>u.
       if files = [] then ares (Inl (HTTPException 400 ''no file received''))
       else abind (upload_files rp ag now u rq sid dir files) (\<lambda>done. ares (Inr (RJson (JObj [(''uploaded'', JArr done)])))))"

section \<open>The other routes\<close>

definition change ::
  "(json \<Rightarrow> string) \<Rightarrow> agent \<Rightarrow> crypto \<Rightarrow> config \<Rightarrow> int \<Rightarrow> request \<Rightarrow> string \<Rightarrow> bool \<Rightarrow> string \<Rightarrow> string \<Rightarrow> string \<Rightarrow> (string, json) dict \<Rightarrow> ('a hub_scheme, reply) act" where
  \<comment> \<open>a route that records the change and then asks the agent for it\<close>
  "change rp ag cr cfg now rq sid valid action detail op args =
     guarded (elevated cr cfg now rq) valid (\<lambda>u.
       abind (record_audit now u rq sid action detail) (\<lambda>_. json_reply (relay rp ag now sid op args)))"

definition change_after ::
  "(json \<Rightarrow> string) \<Rightarrow> agent \<Rightarrow> crypto \<Rightarrow> config \<Rightarrow> int \<Rightarrow> request \<Rightarrow> string \<Rightarrow> bool \<Rightarrow> string \<Rightarrow> string \<Rightarrow> string \<Rightarrow> (string, json) dict \<Rightarrow> ('a hub_scheme, reply) act" where
  \<comment> \<open>a route that asks the agent first and records the change when it answered\<close>
  "change_after rp ag cr cfg now rq sid valid action detail op args =
     guarded (elevated cr cfg now rq) valid (\<lambda>u.
       abind (relay rp ag now sid op args) (\<lambda>res. abind (record_audit now u rq sid action detail) (\<lambda>_. ares (Inr (RJson res)))))"

definition look ::
  "(json \<Rightarrow> string) \<Rightarrow> agent \<Rightarrow> crypto \<Rightarrow> config \<Rightarrow> int \<Rightarrow> request \<Rightarrow> string \<Rightarrow> string \<Rightarrow> (string, json) dict \<Rightarrow> ('a hub_scheme, reply) act" where
  \<comment> \<open>a route that only asks\<close>
  "look rp ag cr cfg now rq sid op args = guarded (admin cr cfg now rq) True (\<lambda>u. json_reply (relay rp ag now sid op args))"

definition caps :: "crypto \<Rightarrow> config \<Rightarrow> int \<Rightarrow> request \<Rightarrow> string \<Rightarrow> ('a hub_scheme, reply) act" where
  "caps cr cfg now rq sid =
     guarded (admin cr cfg now rq) True (\<lambda>u s.
       (s, rbind (get_server now sid (snd s)) (\<lambda>_.
             Inr (case peek sid (snd s) of None \<Rightarrow> RCaps [] False | Some lv \<Rightarrow> RCaps (lv_caps lv) (lv_ws lv \<noteq> None)))))"

definition fs_list where "fs_list rp ag cr cfg now rq sid path = look rp ag cr cfg now rq sid ''fs.list'' [(''path'', JStr path)]"

definition fs_mkdir where
  "fs_mkdir rp ag cr cfg now rq sid path = change_after rp ag cr cfg now rq sid (path_ok path) ''fs.mkdir'' path ''fs.mkdir'' [(''path'', JStr path)]"

definition fs_rename where
  "fs_rename rp ag cr cfg now rq sid src to =
     change_after rp ag cr cfg now rq sid (path_ok src \<and> path_ok to) ''fs.rename'' (src @ '' -> '' @ to) ''fs.rename'' [(''from'', JStr src), (''to'', JStr to)]"

definition fs_delete where
  "fs_delete rp ag cr cfg now rq sid paths =
     change rp ag cr cfg now rq sid (length paths \<le> 500) ''fs.delete'' (take 450 (join_with '', '' paths)) ''fs.delete'' [(''paths'', JArr (map JStr paths))]"

definition fs_chmod where
  "fs_chmod rp ag cr cfg now rq sid path mode =
     change_after rp ag cr cfg now rq sid (path_ok path \<and> length mode \<le> 4) ''fs.chmod'' (path @ '' '' @ mode) ''fs.chmod'' [(''path'', JStr path), (''mode'', JStr mode)]"

definition fs_archive where
  "fs_archive rp ag cr cfg now rq sid paths dest =
     change rp ag cr cfg now rq sid (length paths \<le> 500 \<and> path_ok dest) ''fs.archive'' dest ''fs.archive'' [(''paths'', JArr (map JStr paths)), (''dest'', JStr dest)]"

definition fs_extract where
  "fs_extract rp ag cr cfg now rq sid path dest =
     change rp ag cr cfg now rq sid (path_ok path \<and> path_ok dest) ''fs.extract'' (path @ '' -> '' @ dest) ''fs.extract'' [(''path'', JStr path), (''dest'', JStr dest)]"

definition fs_tail where
  "fs_tail rp ag cr cfg now rq sid path lns grep =
     look rp ag cr cfg now rq sid ''fs.tail'' [(''path'', JStr path), (''lines'', JInt lns), (''grep'', JStr (take 200 grep))]"

definition services where "services rp ag cr cfg now rq sid = look rp ag cr cfg now rq sid ''svc.list'' []"

definition service_action where
  "service_action rp ag cr cfg now rq sid name action =
     change rp ag cr cfg now rq sid (length name \<le> 128 \<and> length action \<le> 16) (''svc.'' @ action) name ''svc.action'' [(''name'', JStr name), (''action'', JStr action)]"

definition service_logs where
  "service_logs rp ag cr cfg now rq sid name lns = look rp ag cr cfg now rq sid ''svc.logs'' [(''name'', JStr name), (''lines'', JInt lns)]"

definition docker_action where
  "docker_action rp ag cr cfg now rq sid cid action =
     change rp ag cr cfg now rq sid (length cid \<le> 128 \<and> length action \<le> 16) (''docker.'' @ action) cid ''docker.action'' [(''id'', JStr cid), (''action'', JStr action)]"

definition docker_logs where
  "docker_logs rp ag cr cfg now rq sid cid lns = look rp ag cr cfg now rq sid ''docker.logs'' [(''id'', JStr cid), (''lines'', JInt lns)]"

definition console where
  "console rp ag cr cfg now rq sid cmd cwd tmo =
     change rp ag cr cfg now rq sid (length cmd \<le> 4000 \<and> length cwd \<le> 1024 \<and> 1 \<le> tmo \<and> tmo \<le> 300) ''console'' cmd ''exec.run''
       [(''cmd'', JStr cmd), (''cwd'', JStr cwd), (''timeout'', JInt tmo)]"

record db_ref =
  rf_engine :: string
  rf_where :: string
  rf_name :: string
  rf_size :: int

definition ref_ok :: "db_ref \<Rightarrow> bool" where
  "ref_ok r = (length (rf_engine r) \<le> 16 \<and> length (rf_where r) \<le> 140 \<and> length (rf_name r) \<le> 64)"

definition ref_args :: "db_ref \<Rightarrow> (string, json) dict" where
  "ref_args r = [(''engine'', JStr (rf_engine r)), (''where'', JStr (rf_where r)), (''name'', JStr (rf_name r)), (''size'', JInt (rf_size r))]"

definition databases where "databases rp ag cr cfg now rq sid = look rp ag cr cfg now rq sid ''db.list'' []"

definition db_dump where
  "db_dump rp ag cr cfg now rq sid r = change rp ag cr cfg now rq sid (ref_ok r) ''db.dump'' (rf_where r @ ''/'' @ rf_name r) ''db.dump'' (ref_args r)"

definition db_restore ::
  "(json \<Rightarrow> string) \<Rightarrow> agent \<Rightarrow> crypto \<Rightarrow> config \<Rightarrow> int \<Rightarrow> request \<Rightarrow> string \<Rightarrow> db_ref \<Rightarrow> string \<Rightarrow> string \<Rightarrow> ('a hub_scheme, reply) act" where
  "db_restore rp ag cr cfg now rq sid r file confirm =
     guarded (elevated cr cfg now rq) (ref_ok r \<and> path_ok file \<and> length confirm \<le> 64) (\<lambda>u.
       abind (ares (if confirm \<noteq> rf_name r then Inl (HTTPException 400 ''type the name of the database to confirm'') else Inr ())) (\<lambda>_.
       abind (record_audit now u rq sid ''db.restore'' (rf_where r @ ''/'' @ rf_name r @ '' <- '' @ file)) (\<lambda>_.
       json_reply (relay rp ag now sid ''db.restore'' (ref_args r @ [(''file'', JStr file)])))))"

definition ssl_list where "ssl_list rp ag cr cfg now rq sid = look rp ag cr cfg now rq sid ''ssl.list'' []"

definition ssl_renew where
  "ssl_renew rp ag cr cfg now rq sid name force =
     change rp ag cr cfg now rq sid (length name \<le> 128) ''ssl.renew'' name ''ssl.renew'' [(''name'', JStr name), (''force'', JBool force)]"

definition ssl_issue where
  "ssl_issue rp ag cr cfg now rq sid doms email redirect =
     change rp ag cr cfg now rq sid (length doms \<le> 20 \<and> length email \<le> 200) ''ssl.issue'' (join_with '' '' doms) ''ssl.issue''
       [(''domains'', JArr (map JStr doms)), (''email'', JStr email), (''redirect'', JBool redirect)]"

definition hex_char :: "char \<Rightarrow> bool" where
  "hex_char c = (ascii_digit c \<or> c \<in> set ''abcdef'')"

definition job_id_ok :: "string \<Rightarrow> bool" where
  \<comment> \<open>\<open>^[0-9a-f]{16}$\<close>; the dollar also matches before a final line feed\<close>
  "job_id_ok s = (list_all hex_char (take 16 s) \<and> (length s = 16 \<or> length s = 17 \<and> s ! 16 = CHR 0x0A))"

definition job_route where
  "job_route rp ag cr cfg now rq sid jid =
     guarded (admin cr cfg now rq) True (\<lambda>u.
       if job_id_ok jid then json_reply (relay rp ag now sid ''job.status'' [(''id'', JStr jid)]) else ares (Inl (HTTPException 404 [])))"

definition jobs_route where "jobs_route rp ag cr cfg now rq sid = look rp ag cr cfg now rq sid ''job.list'' []"

definition backup_files where "backup_files rp ag cr cfg now rq sid = look rp ag cr cfg now rq sid ''backup.list'' []"

section \<open>All of them\<close>

datatype manage_req =
    MCaps | MList string | MRead string | MDownload string | MWrite string "nat list" int | MUpload string "(string option \<times> nat list) list"
  | MMkdir string | MRename string string | MDelete "string list" | MChmod string string | MArchive "string list" string | MExtract string string
  | MTail string int string | MServices | MSvcAction string string | MSvcLogs string int | MDockerAction string string | MDockerLogs string int
  | MConsole string string int | MDatabases | MDump db_ref | MRestore db_ref string string | MSsl | MRenew string bool | MIssue "string list" string bool
  | MJob string | MJobs | MBackupFiles

fun handle ::
  "(json \<Rightarrow> string) \<Rightarrow> agent \<Rightarrow> crypto \<Rightarrow> config \<Rightarrow> int \<Rightarrow> request \<Rightarrow> string \<Rightarrow> manage_req \<Rightarrow> ('a hub_scheme, reply) act" where
  "handle rp ag cr cfg now rq sid MCaps = caps cr cfg now rq sid"
| "handle rp ag cr cfg now rq sid (MList p) = fs_list rp ag cr cfg now rq sid p"
| "handle rp ag cr cfg now rq sid (MRead p) = fs_read rp ag cr cfg now rq sid p"
| "handle rp ag cr cfg now rq sid (MDownload p) = fs_download rp ag cr cfg now rq sid p"
| "handle rp ag cr cfg now rq sid (MWrite p t m) = fs_write rp ag cr cfg now rq sid p t m"
| "handle rp ag cr cfg now rq sid (MUpload dir fs) = fs_upload rp ag cr cfg now rq sid dir fs"
| "handle rp ag cr cfg now rq sid (MMkdir p) = fs_mkdir rp ag cr cfg now rq sid p"
| "handle rp ag cr cfg now rq sid (MRename a b) = fs_rename rp ag cr cfg now rq sid a b"
| "handle rp ag cr cfg now rq sid (MDelete ps) = fs_delete rp ag cr cfg now rq sid ps"
| "handle rp ag cr cfg now rq sid (MChmod p m) = fs_chmod rp ag cr cfg now rq sid p m"
| "handle rp ag cr cfg now rq sid (MArchive ps t) = fs_archive rp ag cr cfg now rq sid ps t"
| "handle rp ag cr cfg now rq sid (MExtract p t) = fs_extract rp ag cr cfg now rq sid p t"
| "handle rp ag cr cfg now rq sid (MTail p n g) = fs_tail rp ag cr cfg now rq sid p n g"
| "handle rp ag cr cfg now rq sid MServices = services rp ag cr cfg now rq sid"
| "handle rp ag cr cfg now rq sid (MSvcAction n a) = service_action rp ag cr cfg now rq sid n a"
| "handle rp ag cr cfg now rq sid (MSvcLogs n l) = service_logs rp ag cr cfg now rq sid n l"
| "handle rp ag cr cfg now rq sid (MDockerAction i a) = docker_action rp ag cr cfg now rq sid i a"
| "handle rp ag cr cfg now rq sid (MDockerLogs i l) = docker_logs rp ag cr cfg now rq sid i l"
| "handle rp ag cr cfg now rq sid (MConsole c w t) = console rp ag cr cfg now rq sid c w t"
| "handle rp ag cr cfg now rq sid MDatabases = databases rp ag cr cfg now rq sid"
| "handle rp ag cr cfg now rq sid (MDump r) = db_dump rp ag cr cfg now rq sid r"
| "handle rp ag cr cfg now rq sid (MRestore r f c) = db_restore rp ag cr cfg now rq sid r f c"
| "handle rp ag cr cfg now rq sid MSsl = ssl_list rp ag cr cfg now rq sid"
| "handle rp ag cr cfg now rq sid (MRenew n f) = ssl_renew rp ag cr cfg now rq sid n f"
| "handle rp ag cr cfg now rq sid (MIssue ds e r) = ssl_issue rp ag cr cfg now rq sid ds e r"
| "handle rp ag cr cfg now rq sid (MJob j) = job_route rp ag cr cfg now rq sid j"
| "handle rp ag cr cfg now rq sid MJobs = jobs_route rp ag cr cfg now rq sid"
| "handle rp ag cr cfg now rq sid MBackupFiles = backup_files rp ag cr cfg now rq sid"

section \<open>What a route sends and records\<close>

definition read_ops :: "string set" where
  \<comment> \<open>the operations of the agent that change nothing\<close>
  "read_ops = {''fs.list'', ''fs.read'', ''fs.tail'', ''svc.list'', ''svc.logs'', ''docker.logs'', ''db.list'', ''ssl.list'', ''job.status'', ''job.list'', ''backup.list''}"

definition stays :: "(rpc_call list \<times> 'h \<Rightarrow> rpc_call list \<times> 'h \<Rightarrow> bool) \<Rightarrow> ('h, 'v) act \<Rightarrow> bool" where
  \<comment> \<open>the action never leaves the relation, whatever it returns\<close>
  "stays R m = (\<forall>s. R s (fst (m s)))"

lemma staysD: "stays R m \<Longrightarrow> m s = (s', r) \<Longrightarrow> R s s'"
  unfolding stays_def by (metis fst_conv)

text \<open>A preorder on states lifts to actions: what every call keeps, the loops and the routes built of the calls keep.\<close>

locale state_order =
  fixes R :: "rpc_call list \<times> 'h \<Rightarrow> rpc_call list \<times> 'h \<Rightarrow> bool"
  assumes R_refl: "R s s" and R_trans: "R s s1 \<Longrightarrow> R s1 s2 \<Longrightarrow> R s s2"
begin

lemma ares: "stays R (ares r)"
  by (simp add: stays_def ares_def R_refl)

lemma abind: "stays R m \<Longrightarrow> (\<And>v. stays R (k v)) \<Longrightarrow> stays R (abind m k)"
  by (auto simp: stays_def abind_def split: prod.split sum.split) (metis fst_conv R_trans)+

lemma read_loop:
  assumes "\<And>off. stays R (rd off)"
  shows "stays R (read_loop rd n data)"
proof -
  have "R s (fst (read_loop rd n data s))" for s
    using assms
  proof (induction rd n data s rule: read_loop.induct)
    case (1 rd n data s)
    let ?m = "Backups.abind (rd (length data)) (\<lambda>r. Backups.ares (data_of r))"
    obtain s1 q where m: "?m s = (s1, q)" by (cases "?m s")
    have "stays R ?m" using 1(2) by (intro abind ares)
    from staysD [OF this m] have R1: "R s s1" .
    show ?case
    proof (cases "of_nat (length data) < n \<and> (\<exists>chunk. q = Inr chunk \<and> chunk \<noteq> [])")
      case True
      then obtain chunk where q: "of_nat (length data) < n" "q = Inr chunk" "chunk \<noteq> []" by blast
      from R_trans [OF R1 1(1) [OF q(1) m [symmetric] q(2,3) 1(2)]] show ?thesis using q m by (subst read_loop.simps) simp
    next
      case False
      then show ?thesis using R1 R_refl m by (subst read_loop.simps) (auto split: sum.split)
    qed
  qed
  then show ?thesis by (simp add: stays_def)
qed

lemma write_loop:
  assumes "\<And>args. stays R (wr args)"
  shows "stays R (write_loop wr path mt rest offset upload)"
proof -
  have "R s (fst (write_loop wr path mt rest offset upload s))" for s
    using assms
  proof (induction wr path mt rest offset upload s rule: write_loop.induct)
    case (1 wr path mt rest offset upload s)
    let ?args = "write_args path (take (nat CHUNK) rest) offset (length rest \<le> nat CHUNK) upload @ (if offset = 0 \<and> mt \<noteq> 0 then [(''if_mtime'', JInt mt)] else [])"
    let ?m = "Backups.abind (wr ?args) (\<lambda>res. Backups.ares (rbind (upload_of res upload) (\<lambda>up. Inr (res, up))))"
    obtain s1 q where m: "?m s = (s1, q)" by (cases "?m s")
    have "stays R ?m" using 1(2) by (intro abind ares)
    from staysD [OF this m] have R1: "R s s1" .
    show ?case
    proof (cases "\<not> length rest \<le> nat CHUNK \<and> \<not> isl q")
      case True
      then obtain res up where q: "\<not> length rest \<le> nat CHUNK" "q = Inr (res, up)" by (cases q) auto
      from R_trans [OF R1 1(1) [OF refl refl refl m [symmetric] q(2) refl q(1) 1(2)]] show ?thesis
        using q m by (subst write_loop.simps) (simp add: Let_def)
    next
      case False
      then show ?thesis using R1 m by (subst write_loop.simps) (auto simp: Let_def split: sum.split)
    qed
  qed
  then show ?thesis by (simp add: stays_def)
qed

lemma upload_loop:
  assumes "\<And>args. stays R (wr args)"
  shows "stays R (upload_loop wr path rest offset upload)"
proof -
  have "R s (fst (upload_loop wr path rest offset upload s))" for s
    using assms
  proof (induction wr path rest offset upload s rule: upload_loop.induct)
    case (1 wr path rest offset upload s)
    let ?nxt = "take (nat CHUNK) (drop (nat CHUNK) rest)"
    let ?m = "Backups.abind (wr (write_args path (take (nat CHUNK) rest) offset (?nxt = []) upload)) (\<lambda>res. Backups.ares (upload_of res upload))"
    obtain s1 q where m: "?m s = (s1, q)" by (cases "?m s")
    have "stays R ?m" using 1(2) by (intro abind ares)
    from staysD [OF this m] have R1: "R s s1" .
    show ?case
    proof (cases "?nxt \<noteq> [] \<and> \<not> isl q")
      case True
      then obtain up where q: "?nxt \<noteq> []" "q = Inr up" by (cases q) auto
      from R_trans [OF R1 1(1) [OF refl refl refl m [symmetric] q(2,1) 1(2)]] show ?thesis
        using q m by (subst upload_loop.simps) (simp add: Let_def)
    next
      case False
      then show ?thesis using R1 m by (subst upload_loop.simps) (auto simp: Let_def split: sum.split)
    qed
  qed
  then show ?thesis by (simp add: stays_def)
qed

end

definition sent :: "(rpc_call \<Rightarrow> bool) \<Rightarrow> rpc_call list \<times> 'h \<Rightarrow> rpc_call list \<times> 'h \<Rightarrow> bool" where
  "sent P s s' = (\<exists>cs. fst s' = fst s @ cs \<and> list_all P cs)"

definition logged :: "(audit_row \<Rightarrow> bool) \<Rightarrow> rpc_call list \<times> 'a db_scheme \<Rightarrow> rpc_call list \<times> 'a db_scheme \<Rightarrow> bool" where
  "logged Q s s' = (\<exists>rows. audit_log (snd s') = audit_log (snd s) @ rows \<and> list_all Q rows)"

lemma sent_trans: "sent P s s1 \<Longrightarrow> sent P s1 s2 \<Longrightarrow> sent P s s2"
  unfolding sent_def by (metis append_assoc list_all_append)

lemma logged_trans: "logged Q s s1 \<Longrightarrow> logged Q s1 s2 \<Longrightarrow> logged Q s s2"
  unfolding logged_def by (metis append_assoc list_all_append)

interpretation sending: state_order "sent P" for P
  by unfold_locales (simp add: sent_def, rule sent_trans)

interpretation logging: state_order "logged Q" for Q
  by unfold_locales (simp add: logged_def, rule logged_trans)

lemma call_trace: "call rp ag d sid op args tr = (tr', r) \<Longrightarrow> tr' = tr \<or> tr' = tr @ [\<lparr>rc_sid = sid, rc_op = op, rc_args = args\<rparr>]"
  by (auto simp: call_def Let_def split: option.splits)

lemma relay_step:
  "fst (fst (relay rp ag now sid op args s)) \<in> {fst s, fst s @ [\<lparr>rc_sid = sid, rc_op = op, rc_args = args\<rparr>]}"
  "snd (fst (relay rp ag now sid op args s)) = snd s"
proof -
  obtain tr r where c: "call rp ag (snd s) sid op args (fst s) = (tr, r)" by (cases "call rp ag (snd s) sid op args (fst s)")
  then have tr: "tr = fst s \<or> tr = fst s @ [\<lparr>rc_sid = sid, rc_op = op, rc_args = args\<rparr>]" by (rule call_trace)
  have "fst (fst (relay rp ag now sid op args s)) \<in> {fst s, tr}" by (auto simp: relay_def c split: sum.split exc.split)
  then show "fst (fst (relay rp ag now sid op args s)) \<in> {fst s, fst s @ [\<lparr>rc_sid = sid, rc_op = op, rc_args = args\<rparr>]}" using tr by auto
  show "snd (fst (relay rp ag now sid op args s)) = snd s" by (auto simp: relay_def c split: sum.split exc.split)
qed

lemma sends_relay: "P \<lparr>rc_sid = sid, rc_op = op, rc_args = args\<rparr> \<Longrightarrow> stays (sent P) (relay rp ag now sid op args)"
  unfolding stays_def sent_def
proof
  fix s :: "rpc_call list \<times> 'a hub_scheme"
  assume "P \<lparr>rc_sid = sid, rc_op = op, rc_args = args\<rparr>"
  then show "\<exists>cs. fst (fst (relay rp ag now sid op args s)) = fst s @ cs \<and> list_all P cs" using relay_step(1) [of rp ag now sid op args s] by auto
qed

lemma sends_direct: "P \<lparr>rc_sid = sid, rc_op = op, rc_args = args\<rparr> \<Longrightarrow> stays (sent P) (direct rp ag sid op args)"
  by (auto simp: stays_def sent_def direct_def call_def Let_def split: option.split)

lemma sends_audit: "stays (sent P) (record_audit now u rq sid action detail)"
  by (simp add: stays_def sent_def record_audit_def amod_def)

lemma sends_json_reply: "stays (sent P) m \<Longrightarrow> stays (sent P) (json_reply m)"
  unfolding json_reply_def by (intro sending.abind sending.ares)

lemma sends_upload_files:
  assumes "\<And>args. P \<lparr>rc_sid = sid, rc_op = ''fs.write'', rc_args = args\<rparr>"
  shows "stays (sent P) (upload_files rp ag now u rq sid dir fs)"
proof (induction fs)
  case (Cons f fs)
  then show ?case
    by (auto simp: Let_def intro!: sending.abind sending.ares sending.upload_loop sends_relay sends_audit assms)
qed (simp add: sending.ares)

lemmas sends_rules = sending.abind sending.ares sending.read_loop sending.write_loop sending.upload_loop sends_relay sends_direct sends_audit
  sends_json_reply sends_upload_files

lemma guarded_sends:
  assumes "\<And>u. stays (sent P) (m u)"
  shows "\<exists>cs. fst (fst (guarded g v m s)) = fst s @ cs \<and> list_all P cs \<and> (cs \<noteq> [] \<longrightarrow> (\<exists>d' u. g (snd s) = (d', Inr u)))"
proof (cases "g (snd s)")
  case (Pair d' r)
  show ?thesis
  proof (cases r)
    case (Inr u)
    have "sent P (fst s, d') (fst (m u (fst s, d')))" using assms unfolding stays_def by blast
    then show ?thesis using Pair Inr by (auto simp: guarded_def sent_def)
  qed (use Pair in \<open>simp add: guarded_def\<close>)
qed

lemma elevated_is_admin: "elevated cr cfg now rq d = (e, Inr w) \<Longrightarrow> \<exists>d' u. admin cr cfg now rq d = (d', Inr u)"
  by (auto simp: elevated_def split: prod.splits sum.splits if_splits)

definition cleared :: "crypto \<Rightarrow> config \<Rightarrow> int \<Rightarrow> request \<Rightarrow> string \<Rightarrow> 'a hub_scheme \<Rightarrow> rpc_call \<Rightarrow> bool" where
  \<comment> \<open>the call goes to the server of the route, its caller is an administrator, and one with a fresh code unless the call only reads\<close>
  "cleared cr cfg now rq sid d c =
     (rc_sid c = sid \<and> (\<exists>d' u. admin cr cfg now rq d = (d', Inr u))
      \<and> (rc_op c \<in> read_ops \<or> (\<exists>d' u. elevated cr cfg now rq d = (d', Inr u))))"

lemma guarded_admin_cleared:
  assumes "\<And>u. stays (sent (\<lambda>c. rc_sid c = sid \<and> rc_op c \<in> read_ops)) (m u)"
  shows "sent (cleared cr cfg now rq sid (snd s)) s (fst (guarded (admin cr cfg now rq) v m s))"
proof -
  from guarded_sends [where g = "admin cr cfg now rq" and v = v and s = s and m = m, OF assms] obtain cs where
    "fst (fst (guarded (admin cr cfg now rq) v m s)) = fst s @ cs" "list_all (\<lambda>c. rc_sid c = sid \<and> rc_op c \<in> read_ops) cs"
    "cs \<noteq> [] \<longrightarrow> (\<exists>d' u. admin cr cfg now rq (snd s) = (d', Inr u))" by blast
  then show ?thesis unfolding sent_def cleared_def list_all_iff by (intro exI [of _ cs]) (auto simp del: split_paired_Ex)
qed

lemma guarded_elevated_cleared:
  assumes "\<And>u. stays (sent (\<lambda>c. rc_sid c = sid)) (m u)"
  shows "sent (cleared cr cfg now rq sid (snd s)) s (fst (guarded (elevated cr cfg now rq) v m s))"
proof -
  from guarded_sends [where g = "elevated cr cfg now rq" and v = v and s = s and m = m, OF assms] obtain cs where
    "fst (fst (guarded (elevated cr cfg now rq) v m s)) = fst s @ cs" "list_all (\<lambda>c. rc_sid c = sid) cs"
    "cs \<noteq> [] \<longrightarrow> (\<exists>d' u. elevated cr cfg now rq (snd s) = (d', Inr u))" by blast
  then show ?thesis unfolding sent_def cleared_def list_all_iff
    by (intro exI [of _ cs]) (use elevated_is_admin in \<open>auto simp del: split_paired_Ex\<close>)
qed

lemma change_cleared: "sent (cleared cr cfg now rq sid (snd s)) s (fst (change rp ag cr cfg now rq sid v a t op args s))"
  unfolding change_def by (intro guarded_elevated_cleared sends_rules) simp

lemma change_after_cleared: "sent (cleared cr cfg now rq sid (snd s)) s (fst (change_after rp ag cr cfg now rq sid v a t op args s))"
  unfolding change_after_def by (intro guarded_elevated_cleared sends_rules) simp

lemma look_cleared: "op \<in> read_ops \<Longrightarrow> sent (cleared cr cfg now rq sid (snd s)) s (fst (look rp ag cr cfg now rq sid op args s))"
  unfolding look_def by (intro guarded_admin_cleared sends_rules) simp

lemma read_ops_mem: "op \<in> set [''fs.list'', ''fs.read'', ''fs.tail'', ''svc.list'', ''svc.logs'', ''docker.logs'', ''db.list'', ''ssl.list'', ''job.status'', ''job.list'', ''backup.list''] \<Longrightarrow> op \<in> read_ops"
  by (auto simp: read_ops_def)

lemma files_cleared:
  "sent (cleared cr cfg now rq sid (snd s)) s (fst (fs_read rp ag cr cfg now rq sid p s))"
  "sent (cleared cr cfg now rq sid (snd s)) s (fst (fs_download rp ag cr cfg now rq sid p s))"
  "sent (cleared cr cfg now rq sid (snd s)) s (fst (fs_write rp ag cr cfg now rq sid p t mt s))"
  "sent (cleared cr cfg now rq sid (snd s)) s (fst (fs_upload rp ag cr cfg now rq sid p fs s))"
     apply (unfold fs_read_def, intro guarded_admin_cleared sends_rules; simp add: read_ops_def)
    apply (unfold fs_download_def, intro guarded_admin_cleared sends_rules; simp add: read_ops_def)
   apply (unfold fs_write_def, intro guarded_elevated_cleared sends_rules; simp)
  apply (unfold fs_upload_def, intro guarded_elevated_cleared, simp, intro conjI impI sends_rules; simp)
  done

lemma rest_cleared:
  "sent (cleared cr cfg now rq sid (snd s)) s (fst (caps cr cfg now rq sid s))"
  "sent (cleared cr cfg now rq sid (snd s)) s (fst (db_restore rp ag cr cfg now rq sid r f c s))"
  "sent (cleared cr cfg now rq sid (snd s)) s (fst (job_route rp ag cr cfg now rq sid j s))"
    apply (unfold caps_def, intro guarded_admin_cleared, simp add: stays_def sent_def)
   apply (unfold db_restore_def, intro guarded_elevated_cleared sends_rules; simp)
  apply (unfold job_route_def, intro guarded_admin_cleared, simp, intro conjI impI sends_rules; simp add: read_ops_def)
  done

lemma handle_cleared: "sent (cleared cr cfg now rq sid (snd s)) s (fst (handle rp ag cr cfg now rq sid q s))"
  by (cases q) (simp_all add: files_cleared rest_cleared change_cleared change_after_cleared look_cleared read_ops_def
    fs_list_def fs_mkdir_def fs_rename_def fs_delete_def fs_chmod_def fs_archive_def fs_extract_def fs_tail_def services_def service_action_def
    service_logs_def docker_action_def docker_logs_def console_def databases_def db_dump_def ssl_list_def ssl_renew_def ssl_issue_def jobs_route_def backup_files_def)

lemma logs_relay: "stays (logged Q) (relay rp ag now sid op args)"
  by (simp add: stays_def logged_def relay_step(2))

definition signed_row :: "int \<Rightarrow> user \<Rightarrow> request \<Rightarrow> string \<Rightarrow> audit_row \<Rightarrow> bool" where
  \<comment> \<open>the row says when, who, from where and on which server\<close>
  "signed_row now u rq sid r =
     (au_ts r = now \<and> au_username r = Some (us_username u) \<and> au_ip r = Some (client_ip rq) \<and> (\<exists>t. au_detail r = take 500 (sid @ '' '' @ t)))"

lemma record_audit_row:
  "\<exists>r. audit_log (snd (fst (record_audit now u rq sid action detail s))) = audit_log (snd s) @ [r] \<and> signed_row now u rq sid r \<and> au_action r = action"
  by (auto simp: record_audit_def amod_def audit_def signed_row_def simp del: take_append)

lemma logs_audit: "stays (logged (signed_row now u rq sid)) (record_audit now u rq sid action detail)"
  unfolding stays_def logged_def using record_audit_row [of now u rq sid action detail] by fastforce

lemma logs_json_reply: "stays (logged Q) m \<Longrightarrow> stays (logged Q) (json_reply m)"
  unfolding json_reply_def by (intro logging.abind logging.ares)

lemmas logs_rules = logging.abind logging.ares logging.read_loop logging.write_loop logging.upload_loop logs_relay logs_audit logs_json_reply

definition grows :: "('a hub_scheme, 'v) act \<Rightarrow> bool" where
  \<comment> \<open>a successful run adds to the audit log\<close>
  "grows m = (\<forall>s s' v. m s = (s', Inr v) \<longrightarrow> length (audit_log (snd s)) < length (audit_log (snd s')))"

lemma grows_audit: "grows (record_audit now u rq sid action detail)"
  by (auto simp: grows_def record_audit_def amod_def audit_def)

lemma logged_length: "logged Q s s' \<Longrightarrow> length (audit_log (snd s)) \<le> length (audit_log (snd s'))"
  by (auto simp: logged_def)

lemma growsD: "grows m \<Longrightarrow> m s = (s', Inr v) \<Longrightarrow> length (audit_log (snd s)) < length (audit_log (snd s'))"
  unfolding grows_def by blast

lemma grows_before:
  assumes "grows m" "\<And>v. stays (logged Q) (k v)"
  shows "grows (abind m k)"
  unfolding grows_def abind_Inr
proof (intro allI impI, elim exE conjE)
  fix s s' v s1 w assume "m s = (s1, Inr w)" "k w s1 = (s', Inr v)"
  then show "length (audit_log (snd s)) < length (audit_log (snd s'))"
    using growsD [OF assms(1)] logged_length [OF staysD [OF assms(2)]] by (meson less_le_trans)
qed

lemma grows_after:
  assumes "stays (logged Q) m" "\<And>v. grows (k v)"
  shows "grows (abind m k)"
  unfolding grows_def abind_Inr
proof (intro allI impI, elim exE conjE)
  fix s s' v s1 w assume "m s = (s1, Inr w)" "k w s1 = (s', Inr v)"
  then show "length (audit_log (snd s)) < length (audit_log (snd s'))"
    using growsD [OF assms(2)] logged_length [OF staysD [OF assms(1)]] by (meson le_less_trans)
qed

lemma logs_upload_files: "stays (logged (signed_row now u rq sid)) (upload_files rp ag now u rq sid dir fs)"
proof (induction fs)
  case (Cons f fs)
  then show ?case by (auto simp: Let_def intro!: logs_rules)
qed (simp add: logging.ares)

lemma upload_files_grow:
  "upload_files rp ag now u rq sid dir fs s = (s', Inr v) \<Longrightarrow> s' = s \<or> length (audit_log (snd s)) < length (audit_log (snd s'))"
proof (induction fs arbitrary: s v)
  case (Cons f fs)
  show ?case
  proof (cases "upload_name (fst f) \<in> {[], ''.'', ''..''}")
    case True
    then have "upload_files rp ag now u rq sid dir fs s = (s', Inr v)" using Cons.prems by (auto simp: Let_def)
    then show ?thesis by (rule Cons.IH)
  next
    case False
    let ?t = "posix_join dir (upload_name (fst f))"
    have "grows (abind (upload_loop (relay rp ag now sid ''fs.write'') ?t (snd f) 0 (JStr [])) (\<lambda>n.
        abind (record_audit now u rq sid ''fs.upload'' (?t @ '' ('' @ str_int (int n) @ '' B)'')) (\<lambda>_.
        abind (upload_files rp ag now u rq sid dir fs) (\<lambda>done.
        ares (Inr (JObj [(''name'', JStr (upload_name (fst f))), (''size'', jnat n)] # done))))) :: ('a hub_scheme, json list) act)"
      by (rule grows_after [where Q = "signed_row now u rq sid"], intro logs_rules,
          rule grows_before [OF grows_audit, where Q = "signed_row now u rq sid"], intro logs_rules logs_upload_files)
    from growsD [OF this] show ?thesis using Cons.prems False by (simp add: Let_def)
  qed
qed (simp add: ares_def)

definition audited :: "crypto \<Rightarrow> config \<Rightarrow> int \<Rightarrow> request \<Rightarrow> string \<Rightarrow> ('a hub_scheme, 'v) act \<Rightarrow> bool" where
  \<comment> \<open>a successful run that sent a changing call has left a row with the name of the elevated administrator\<close>
  "audited cr cfg now rq sid m = (\<forall>s s' v. m s = (s', Inr v) \<longrightarrow>
     sent (\<lambda>c. rc_op c \<in> read_ops) s s' \<or>
     (\<exists>d' u r rows. elevated cr cfg now rq (snd s) = (d', Inr u) \<and> audit_log (snd s') = audit_log (snd s) @ r # rows \<and> list_all (signed_row now u rq sid) (r # rows)))"

lemma elevated_keeps_log: "elevated cr cfg now rq d = (d', r) \<Longrightarrow> audit_log d' = audit_log d"
  by (auto simp: elevated_def admin_def current_user_def session_user_def user_from_cookie_def Let_def split: prod.splits sum.splits if_splits option.splits)

lemma guarded_audited:
  assumes "\<And>u. stays (logged (signed_row now u rq sid)) (m u)"
    and "\<And>u s s' v. m u s = (s', Inr v) \<Longrightarrow> fst s' = fst s \<or> length (audit_log (snd s)) < length (audit_log (snd s'))"
  shows "audited cr cfg now rq sid (guarded (elevated cr cfg now rq) valid m)"
  unfolding audited_def
proof (intro allI impI)
  fix s s' v assume "guarded (elevated cr cfg now rq) valid m s = (s', Inr v)"
  then obtain d' u where e: "elevated cr cfg now rq (snd s) = (d', Inr u)" and m: "m u (fst s, d') = (s', Inr v)"
    by (auto simp: guarded_def split: prod.splits sum.splits if_splits)
  have log: "audit_log d' = audit_log (snd s)" by (rule elevated_keeps_log [OF e])
  obtain rows where rows: "audit_log (snd s') = audit_log (snd s) @ rows" "list_all (signed_row now u rq sid) rows"
    using staysD [OF assms(1) m] log by (auto simp: logged_def)
  show "sent (\<lambda>c. rc_op c \<in> read_ops) s s' \<or>
     (\<exists>d' u r rows. elevated cr cfg now rq (snd s) = (d', Inr u) \<and> audit_log (snd s') = audit_log (snd s) @ r # rows \<and> list_all (signed_row now u rq sid) (r # rows))"
  proof (cases rows)
    case Nil
    then have "fst s' = fst s" using assms(2) [OF m] rows log by auto
    then show ?thesis by (simp add: sent_def)
  qed (use e rows in blast)
qed

lemma guarded_grows_audited:
  assumes "\<And>u. stays (logged (signed_row now u rq sid)) (m u)" "\<And>u. grows (m u)"
  shows "audited cr cfg now rq sid (guarded (elevated cr cfg now rq) valid m)"
  by (rule guarded_audited [OF assms(1)], rule disjI2, rule growsD [OF assms(2)])

lemma change_audited: "audited cr cfg now rq sid (change rp ag cr cfg now rq sid v a t op args)"
  unfolding change_def
  by (rule guarded_grows_audited, intro logs_rules, rule grows_before [OF grows_audit, where Q = "\<lambda>_. True"], intro logs_rules)

lemma change_after_audited: "audited cr cfg now rq sid (change_after rp ag cr cfg now rq sid v a t op args)"
  unfolding change_after_def
  by (rule guarded_grows_audited, intro logs_rules, rule grows_after [where Q = "\<lambda>_. True"], intro logs_rules,
      rule grows_before [OF grows_audit, where Q = "\<lambda>_. True"], intro logs_rules)

lemma fs_write_audited: "audited cr cfg now rq sid (fs_write rp ag cr cfg now rq sid p t mt)"
  unfolding fs_write_def
  by (rule guarded_grows_audited, intro logs_rules, (rule grows_after [where Q = "\<lambda>_. True"], intro logs_rules)+,
      rule grows_before [OF grows_audit, where Q = "\<lambda>_. True"], intro logs_rules)

lemma db_restore_audited: "audited cr cfg now rq sid (db_restore rp ag cr cfg now rq sid r f c)"
  unfolding db_restore_def
  by (rule guarded_grows_audited, intro logs_rules, rule grows_after [where Q = "\<lambda>_. True"], intro logs_rules,
      rule grows_before [OF grows_audit, where Q = "\<lambda>_. True"], intro logs_rules)

lemma fs_upload_audited: "audited cr cfg now rq sid (fs_upload rp ag cr cfg now rq sid p fs)"
  unfolding fs_upload_def
proof (rule guarded_audited)
  fix u
  show "stays (logged (signed_row now u rq sid)) (if fs = [] then ares (Inl (HTTPException 400 ''no file received''))
       else abind (upload_files rp ag now u rq sid p fs) (\<lambda>done. ares (Inr (RJson (JObj [(''uploaded'', JArr done)])))))"
    by (simp add: logging.ares) (intro impI logs_rules logs_upload_files)
next
  fix u s s' v
  assume "(if fs = [] then ares (Inl (HTTPException 400 ''no file received''))
       else abind (upload_files rp ag now u rq sid p fs) (\<lambda>done. ares (Inr (RJson (JObj [(''uploaded'', JArr done)]))))) s = (s', Inr v)"
  then obtain w where "upload_files rp ag now u rq sid p fs s = (s', Inr w)" by (auto simp: abind_Inr ares_def split: if_splits)
  then show "fst s' = fst s \<or> length (audit_log (snd s)) < length (audit_log (snd s'))" using upload_files_grow by blast
qed

lemma reads_audited: "(\<And>s. sent (\<lambda>c. rc_op c \<in> read_ops) s (fst (m s))) \<Longrightarrow> audited cr cfg now rq sid m"
  unfolding audited_def by (metis fst_conv)

lemma guarded_reads: "(\<And>u. stays (sent (\<lambda>c. rc_op c \<in> read_ops)) (m u)) \<Longrightarrow> sent (\<lambda>c. rc_op c \<in> read_ops) s (fst (guarded g v m s))"
  using guarded_sends [of "\<lambda>c. rc_op c \<in> read_ops" m g v s] unfolding sent_def by blast

lemma look_audited: "op \<in> read_ops \<Longrightarrow> audited cr cfg now rq sid (look rp ag cr cfg now rq sid op args)"
  unfolding look_def by (rule reads_audited, rule guarded_reads, intro sends_rules) simp

lemma rest_audited:
  "audited cr cfg now rq sid (caps cr cfg now rq sid)"
  "audited cr cfg now rq sid (fs_read rp ag cr cfg now rq sid p)"
  "audited cr cfg now rq sid (fs_download rp ag cr cfg now rq sid p)"
  "audited cr cfg now rq sid (job_route rp ag cr cfg now rq sid j)"
     apply (unfold caps_def, rule reads_audited, rule guarded_reads, simp add: stays_def sent_def)
    apply (unfold fs_read_def, rule reads_audited, rule guarded_reads, intro sends_rules; simp add: read_ops_def)
   apply (unfold fs_download_def, rule reads_audited, rule guarded_reads, intro sends_rules; simp add: read_ops_def)
  apply (unfold job_route_def, rule reads_audited, rule guarded_reads, simp, intro conjI impI sends_rules; simp add: read_ops_def)
  done

lemmas route_defs = fs_list_def fs_mkdir_def fs_rename_def fs_delete_def fs_chmod_def fs_archive_def fs_extract_def fs_tail_def services_def
  service_action_def service_logs_def docker_action_def docker_logs_def console_def databases_def db_dump_def ssl_list_def ssl_renew_def
  ssl_issue_def jobs_route_def backup_files_def

lemma handle_audited: "audited cr cfg now rq sid (handle rp ag cr cfg now rq sid q)"
  by (cases q) (simp_all add: route_defs change_audited change_after_audited look_audited rest_audited fs_write_audited fs_upload_audited
    db_restore_audited read_ops_def)

text \<open>
  C20. Every request that a management route sends to an agent goes to the server named in the route and is sent for an administrator;
  one that changes anything (an operation outside the list of reading ones) is sent only for an administrator who confirmed with a fresh code.
\<close>

theorem changes_need_fresh_code:
  "\<exists>cs. fst (fst (handle rp ag cr cfg now rq sid q (tr, d))) = tr @ cs \<and>
     (\<forall>c \<in> set cs. rc_sid c = sid \<and> (\<exists>d' u. admin cr cfg now rq d = (d', Inr u)) \<and>
        (rc_op c \<in> read_ops \<or> (\<exists>d' u. elevated cr cfg now rq d = (d', Inr u))))"
  using handle_cleared [of cr cfg now rq sid "(tr, d)" rp ag q] unfolding sent_def cleared_def list_all_iff by simp

text \<open>
  C21. A change made through a management route is audited: when a route reports success and has sent an operation that is not a reading
  one, the audit log has grown, and every new row carries the time, the name of the administrator who passed the guard, the address of
  the client and the server.
\<close>

theorem successful_changes_audited:
  assumes "handle rp ag cr cfg now rq sid q (tr, d) = ((tr @ cs, d'), Inr v)" "c \<in> set cs" "rc_op c \<notin> read_ops"
  shows "\<exists>e u r rows. elevated cr cfg now rq d = (e, Inr u) \<and> audit_log d' = audit_log d @ r # rows \<and> list_all (signed_row now u rq sid) (r # rows)"
proof -
  have "\<not> sent (\<lambda>c. rc_op c \<in> read_ops) (tr, d) (tr @ cs, d')" using assms(2,3) by (auto simp: sent_def list_all_iff)
  then show ?thesis using handle_audited [of cr cfg now rq sid rp ag q] assms(1) unfolding audited_def by (metis snd_conv)
qed

text \<open>
  An answer that gets lost leaves no trace in the audit log: the routes for folders, renaming, modes and saved files record a change only after
  the agent answered, so a change that reached the agent but was not answered in time is reported as failed and not audited.
\<close>

theorem lost_answer_unaudited:
  assumes "elevated cr cfg now rq d = (e, Inr u)" "get_server now sid e = Inr sv" "call_refused sid e = None" "path_ok p"
    and "ag (tr @ [\<lparr>rc_sid = sid, rc_op = ''fs.mkdir'', rc_args = [(''path'', JStr p)]\<rparr>]) = TimedOut"
  shows "handle rp ag cr cfg now rq sid (MMkdir p) (tr, d) =
      ((tr @ [\<lparr>rc_sid = sid, rc_op = ''fs.mkdir'', rc_args = [(''path'', JStr p)]\<rparr>], e), Inl (HTTPException 504 ''agent did not answer in time''))
    \<and> audit_log e = audit_log d"
  using assms(2-5) by (simp_all add: fs_mkdir_def change_after_def guarded_def assms(1) abind_def relay_def call_def Let_def elevated_keeps_log [OF assms(1)])

section \<open>The editor\<close>

lemma utf8_point_bytes: "scalar_value c \<Longrightarrow> b \<in> set (utf8_point c) \<Longrightarrow> b < 256"
  by (auto simp: utf8_point_def scalar_value_def split: if_splits)

lemma utf8_encode_bytes: "utf8_encode cs = Inr bs \<Longrightarrow> \<forall>b \<in> set bs. b < 256"
  by (simp add: utf8_encode_def list_all_iff split: if_splits) (use utf8_point_bytes in fastforce)

lemma cont_byte: "cont (128 + x mod 64)"
  using mod_less_divisor [of 64 x] by (simp add: cont_def)

lemma base64_digits:
  "(c :: nat) div 64 * 64 + c mod 64 = c" "c div 4096 * 4096 + c div 64 mod 64 * 64 + c mod 64 = c"
  "c div 262144 * 262144 + c div 4096 mod 64 * 4096 + c div 64 mod 64 * 64 + c mod 64 = c"
proof -
  have a: "c div 4096 = c div 64 div 64" "c div 262144 = c div 4096 div 64" by (simp_all add: div_mult2_eq [symmetric])
  show "c div 64 * 64 + c mod 64 = c" by simp
  show 2: "c div 4096 * 4096 + c div 64 mod 64 * 64 + c mod 64 = c" using a div_mult_mod_eq [of "c div 64" 64] div_mult_mod_eq [of c 64] by linarith
  show "c div 262144 * 262144 + c div 4096 mod 64 * 4096 + c div 64 mod 64 * 64 + c mod 64 = c" using 2 a div_mult_mod_eq [of "c div 4096" 64] by linarith
qed

lemma utf8_decode_char:
  assumes "scalar_value c"
  shows "utf8_decode (utf8_point c @ bs) = map_option (Cons c) (utf8_decode bs)"
proof -
  consider "c < 128" | "128 \<le> c" "c < 2048" | "2048 \<le> c" "c < 65536" | "65536 \<le> c" "c < 1114112"
    using assms unfolding scalar_value_def by linarith
  then show ?thesis
  proof cases
    case 2
    then have q: "2 \<le> c div 64" "c div 64 < 32" by simp_all
    then show ?thesis using 2 base64_digits(1) [of c] by (simp add: utf8_point_def cont_byte q)
  next
    case 3
    then have q: "c div 4096 < 16" by simp
    then show ?thesis using 3 assms base64_digits(2) [of c] by (simp add: utf8_point_def cont_byte q)
  next
    case 4
    then have q: "c div 262144 < 5" by simp
    then show ?thesis using 4 assms base64_digits(3) [of c] by (simp add: utf8_point_def cont_byte q)
  qed (simp add: utf8_point_def)
qed

lemma utf8_roundtrip: "utf8_encode cs = Inr bs \<Longrightarrow> utf8_decode bs = Some cs"
proof -
  have "list_all scalar_value cs \<Longrightarrow> utf8_decode (concat (map utf8_point cs)) = Some cs" for cs
    by (induction cs) (simp_all add: utf8_decode_char)
  then show "utf8_encode cs = Inr bs \<Longrightarrow> utf8_decode bs = Some cs" by (auto simp: utf8_encode_def split: if_splits)
qed

definition content :: "rpc_call list \<Rightarrow> nat list" where
  \<comment> \<open>what the writes of a trace add up to\<close>
  "content tr = concat (map bytes_of (writes tr))"

definition file_agent :: "agent \<Rightarrow> string \<Rightarrow> string \<Rightarrow> int \<Rightarrow> bool" where
  \<comment> \<open>an agent that accepts every write and serves reads of \<open>p\<close> from what was written\<close>
  "file_agent ag p up mt =
     ((\<forall>tr c. rc_op c = ''fs.write'' \<longrightarrow> ag (tr @ [c]) = Answered (JObj [(''d'', JObj [(''upload'', JStr up)])])) \<and>
      (\<forall>tr sid off. ag (tr @ [read_call sid p off]) = Answered (JObj [(''d'', JObj
         [(''size'', jnat (length (content tr))), (''mtime'', JInt mt), (''data'', JStr (b64encode (take (nat CHUNK) (drop off (content tr)))))])])))"

lemma relay_answered:
  assumes "get_server now sid (snd s) = Inr sv" "call_refused sid (snd s) = None"
    and "ag (fst s @ [\<lparr>rc_sid = sid, rc_op = op, rc_args = args\<rparr>]) = Answered (JObj [(''d'', v)])"
  shows "relay rp ag now sid op args s = ((fst s @ [\<lparr>rc_sid = sid, rc_op = op, rc_args = args\<rparr>], snd s), Inr v)"
  using assms by (simp add: relay_def call_def Let_def reply_value_def oget_def dget_def)

lemma content_write:
  assumes "\<forall>b \<in> set ch. b < 256"
  shows "content (tr @ [\<lparr>rc_sid = sid, rc_op = ''fs.write'', rc_args = write_args path ch off fin up @ extra\<rparr>]) = content tr @ ch"
  by (simp add: content_def writes_def bytes_of_def rget_def dget_def write_args_def b64_roundtrip [OF assms])

lemma content_read: "content (tr @ [read_call sid p off]) = content tr"
  by (simp add: content_def writes_def)

lemma write_loop_stores:
  assumes "file_agent ag p up mt" and "get_server now sid d = Inr sv" "call_refused sid d = None"
  shows "\<forall>b \<in> set rest. b < 256 \<Longrightarrow> \<exists>tr'. write_loop (relay rp ag now sid ''fs.write'') q m rest off upl (tr, d) = ((tr', d), Inr (JObj [(''upload'', JStr up)]))
    \<and> content tr' = content tr @ rest"
proof (induction "length rest" arbitrary: rest off upl tr rule: less_induct)
  case less
  define ch where "ch = take (nat CHUNK) rest"
  define c where "c = \<lparr>rc_sid = sid, rc_op = ''fs.write'', rc_args = write_args q ch off (length rest \<le> nat CHUNK) upl @ (if off = 0 \<and> m \<noteq> 0 then [(''if_mtime'', JInt m)] else [])\<rparr>"
  have b: "\<forall>b \<in> set ch. b < 256" using less.prems by (auto simp: ch_def dest: in_set_takeD)
  have "ag (tr @ [c]) = Answered (JObj [(''d'', JObj [(''upload'', JStr up)])])" using assms(1) by (simp add: file_agent_def c_def)
  then have r: "relay rp ag now sid ''fs.write'' (rc_args c) (tr, d) = ((tr @ [c], d), Inr (JObj [(''upload'', JStr up)]))"
    using relay_answered [of now sid "(tr, d)" sv ag "''fs.write''" "rc_args c"] assms(2,3) by (simp add: c_def)
  have u: "upload_of (JObj [(''upload'', JStr up)]) upl = Inr (JStr up)" by (simp add: upload_of_def or_obj_def dget_def)
  have step: "write_loop (relay rp ag now sid ''fs.write'') q m rest off upl (tr, d) =
    (if length rest \<le> nat CHUNK then ((tr @ [c], d), Inr (JObj [(''upload'', JStr up)]))
     else write_loop (relay rp ag now sid ''fs.write'') q m (drop (nat CHUNK) rest) (off + length ch) (JStr up) (tr @ [c], d))"
    by (subst write_loop.simps) (use r u in \<open>simp add: Let_def abind_def ares_def rbind_def c_def ch_def\<close>)
  have cc: "content (tr @ [c]) = content tr @ ch" unfolding c_def by (rule content_write [OF b])
  show ?case
  proof (cases "length rest \<le> nat CHUNK")
    case True
    then show ?thesis using step cc by (simp add: ch_def)
  next
    case False
    have "length (drop (nat CHUNK) rest) < length rest" using False by (simp add: CHUNK_def)
    moreover have "\<forall>b \<in> set (drop (nat CHUNK) rest). b < 256" using less.prems by (auto dest: in_set_dropD)
    ultimately obtain tr' where "write_loop (relay rp ag now sid ''fs.write'') q m (drop (nat CHUNK) rest) (off + length ch) (JStr up) (tr @ [c], d) =
      ((tr', d), Inr (JObj [(''upload'', JStr up)]))" "content tr' = content (tr @ [c]) @ drop (nat CHUNK) rest" using less.hyps by blast
    then show ?thesis using step cc False by (intro exI [of _ tr']) (simp add: ch_def)
  qed
qed

lemma read_loop_serves:
  assumes "file_agent ag p up mt" and "get_server now sid d = Inr sv" "call_refused sid d = None" and "\<forall>b \<in> set f. b < 256"
  shows "content tr = f \<Longrightarrow> data = take n f \<Longrightarrow>
    \<exists>tr'. read_loop (\<lambda>off. relay rp ag now sid ''fs.read'' (read_args p off)) (of_nat (length f)) data (tr, d) = ((tr', d), Inr f)"
proof (induction "length f - length data" arbitrary: data n tr rule: less_induct)
  case less
  show ?case
  proof (cases "length data < length f")
    case True
    then have dl: "length data = n" "n < length f" using less.prems by auto
    define ch where "ch = take (nat CHUNK) (drop n f)"
    let ?v = "JObj [(''size'', jnat (length f)), (''mtime'', JInt mt), (''data'', JStr (b64encode ch))]"
    have "ag (tr @ [read_call sid p n]) = Answered (JObj [(''d'', ?v)])" using assms(1) less.prems by (simp add: file_agent_def ch_def)
    then have r: "relay rp ag now sid ''fs.read'' (read_args p n) (tr, d) = ((tr @ [read_call sid p n], d), Inr ?v)"
      using relay_answered [of now sid "(tr, d)" sv ag "''fs.read''" "read_args p n"] assms(2,3) by simp
    have b: "\<forall>b \<in> set ch. b < 256" using assms(4) by (auto simp: ch_def dest!: in_set_takeD in_set_dropD)
    have dv: "data_of ?v = Inr ch" by (simp add: data_of_def jidx_def dget_def rbind_def b64_roundtrip [OF b])
    have ne: "ch \<noteq> []" using dl by (simp add: ch_def CHUNK_def)
    have step: "read_loop (\<lambda>off. relay rp ag now sid ''fs.read'' (read_args p off)) (of_nat (length f)) data (tr, d) =
      read_loop (\<lambda>off. relay rp ag now sid ''fs.read'' (read_args p off)) (of_nat (length f)) (data @ ch) (tr @ [read_call sid p n], d)"
      by (subst read_loop.simps) (use True dl r dv ne in \<open>simp add: abind_def ares_def\<close>)
    have "data @ ch = take (n + nat CHUNK) f" using less.prems by (simp add: ch_def take_add)
    moreover have "length f - length (data @ ch) < length f - length data" using True ne by (simp add: diff_less_mono2)
    ultimately show ?thesis using less.hyps [of "data @ ch" "tr @ [read_call sid p n]" "n + nat CHUNK"] less.prems(1) step by (simp add: content_read)
  next
    case False
    then have "data = f" using less.prems by simp
    then show ?thesis by (subst read_loop.simps) simp
  qed
qed


section \<open>Closed examples\<close>

definition demo_agent :: agent where
  \<comment> \<open>an agent that keeps what is written\<close>
  "demo_agent tr =
     (let c = last tr in
      if rc_op c = ''fs.write'' then Answered (JObj [(''d'', JObj [(''upload'', JStr ''u'')])])
      else if rc_op c = ''fs.read'' then
        (case rget (rc_args c) ''offset'' of
           JInt i \<Rightarrow> Answered (JObj [(''d'', JObj [(''size'', jnat (length (content (butlast tr)))), (''mtime'', JInt 7),
             (''data'', JStr (b64encode (take (nat CHUNK) (drop (nat i) (content (butlast tr))))))])])
         | _ \<Rightarrow> TimedOut)
      else if rc_op c = ''fs.mkdir'' then TimedOut
      else Answered (JObj [(''d'', JNull)]))"

lemma demo_file_agent: "file_agent demo_agent p ''u'' 7"
  by (simp add: file_agent_def demo_agent_def rget_def dget_def jnat_def)

abbreviation demo_post :: request where
  "demo_post \<equiv> demo_rq ''POST'' ''tok''"

abbreviation demo_route where
  "demo_route q \<equiv> handle demo_rp demo_agent demo_crypto demo_cfg 40 demo_post ''s1'' q ([], demo_hub_admin)"

lemma Inr_of: "\<not> isl (snd x) \<Longrightarrow> x = (fst x, Inr (projr (snd x)))"
  by (metis prod.collapse sum.collapse(2))

lemma demo_guard: "elevated demo_crypto demo_cfg 40 demo_post demo_hub_admin =
    (fst (elevated demo_crypto demo_cfg 40 demo_post demo_hub_admin), Inr (projr (snd (elevated demo_crypto demo_cfg 40 demo_post demo_hub_admin))))"
  by (rule Inr_of) code_simp

lemma demo_target:
  "get_server 40 ''s1'' (fst (elevated demo_crypto demo_cfg 40 demo_post demo_hub_admin)) =
   Inr (projr (get_server 40 ''s1'' (fst (elevated demo_crypto demo_cfg 40 demo_post demo_hub_admin))))"
  "call_refused ''s1'' (fst (elevated demo_crypto demo_cfg 40 demo_post demo_hub_admin)) = None"
  by code_simp+

lemma record_audit_frame: "get_server now sid (audit t un a dt ip d) = get_server now sid d" "call_refused sid (audit t un a dt ip d) = call_refused sid d"
  for d :: "'a hub_scheme"
  by (simp_all add: get_server_def audit_def call_refused_def peek_def)

abbreviation demo_exec :: rpc_call where
  "demo_exec \<equiv> \<lparr>rc_sid = ''s1'', rc_op = ''exec.run'', rc_args = [(''cmd'', JStr ''ls''), (''cwd'', JStr ''/''), (''timeout'', JInt 5)]\<rparr>"

lemma demo_console: "\<exists>d'. demo_route (MConsole ''ls'' ''/'' 5) = (([demo_exec], d'), Inr (RJson JNull))"
proof -
  obtain e u sv where e: "elevated demo_crypto demo_cfg 40 demo_post demo_hub_admin = (e, Inr u)" "get_server 40 ''s1'' e = Inr sv" "call_refused ''s1'' e = None"
    using demo_guard demo_target by blast
  have "relay demo_rp demo_agent 40 ''s1'' ''exec.run'' (rc_args demo_exec) ([], audit t un a dt ip e) = (([demo_exec], audit t un a dt ip e), Inr JNull)" for t un a dt ip
    using relay_answered [of 40 "''s1''" "([], audit t un a dt ip e)" sv demo_agent "''exec.run''" "rc_args demo_exec" JNull demo_rp] e(2,3)
    by (simp add: record_audit_frame demo_agent_def)
  then show ?thesis by (simp add: console_def change_def guarded_def e(1) abind_def record_audit_def amod_def json_reply_def ares_def)
qed

lemma exec_changes: "rc_op demo_exec \<notin> read_ops"
  by (simp add: read_ops_def)

theorem changes_need_fresh_code_witness:
  "\<exists>d' u. elevated demo_crypto demo_cfg 40 demo_post demo_hub_admin = (d', Inr u)"
  using changes_need_fresh_code [of demo_rp demo_agent demo_crypto demo_cfg 40 demo_post "''s1''" "MConsole ''ls'' ''/'' 5" "[]" demo_hub_admin]
    demo_console exec_changes by auto

theorem successful_changes_audited_witness:
  "\<exists>u r rows. audit_log (snd (fst (demo_route (MConsole ''ls'' ''/'' 5)))) = audit_log demo_hub_admin @ r # rows \<and> signed_row 40 u demo_post ''s1'' r"
proof -
  obtain d' where d: "demo_route (MConsole ''ls'' ''/'' 5) = (([] @ [demo_exec], d'), Inr (RJson JNull))" using demo_console by auto
  from successful_changes_audited [OF d _ exec_changes] d show ?thesis by auto
qed

theorem lost_answer_unaudited_witness:
  "snd (demo_route (MMkdir ''/a'')) = Inl (HTTPException 504 ''agent did not answer in time'')"
  using lost_answer_unaudited [OF demo_guard demo_target, of "''/a''" demo_agent "[]" demo_rp]
  by (simp add: demo_agent_def path_ok_def del: handle.simps)


end
