(* ===== verification/Hub.thy ===== *)
theory Hub
  imports Manage
begin

text \<open>
  The dashboard routes of \<open>hub/icsd_hub/api.py\<close> (overview, one server, history, alerts, rules) and the process itself
  (\<open>hub/icsd_hub/main.py\<close>): start and stop, the background turn, the headers of every answer and the agent downloads.
\<close>

section \<open>Overview and servers\<close>

definition first_max :: "('v \<Rightarrow> rat) \<Rightarrow> 'v list \<Rightarrow> 'v option" where
  \<comment> \<open>\<open>max(xs, key=f)\<close>: the first of the greatest\<close>
  "first_max f xs = (case xs of [] \<Rightarrow> None | x # ys \<Rightarrow> Some (fold (\<lambda>y m. if f m < f y then y else m) ys x))"

record container_count =
  cc_total :: nat
  cc_running :: nat
  cc_bad :: nat

record summary =
  su_id :: string
  su_name :: string
  su_status :: string
  su_host :: "(string, json) dict"
  su_agent_version :: "string option"
  su_last_seen :: "int option"
  su_ip :: "string option"
  su_cpu :: "rat option"
  su_mem :: "rat option"
  su_mem_used :: "rat option"
  su_mem_total :: "rat option"
  su_swap :: "rat option"
  su_load :: "rat list option"
  su_uptime :: "int option"
  su_rx :: "rat option"
  su_tx :: "rat option"
  su_disk :: "disk option"
  su_containers :: "container_count option"
  su_alerts :: nat
  su_spark :: "rat list"
  su_enroll_pending :: bool

definition last_get :: "(sample \<Rightarrow> (string, rat) dict) \<Rightarrow> string \<Rightarrow> sample option \<Rightarrow> rat option" where
  \<comment> \<open>\<open>s.get(part, {}).get(key)\<close>\<close>
  "last_get f k s = (case s of None \<Rightarrow> None | Some x \<Rightarrow> dget (f x) k)"

definition container_counts :: "container list \<Rightarrow> container_count option" where
  "container_counts cs =
     (if cs = [] then None
      else Some \<lparr>cc_total = length cs, cc_running = length (filter (\<lambda>c. cn_state c = ''running'') cs),
                 cc_bad = length (filter (\<lambda>c. cn_health c = ''unhealthy'' \<or> cn_state c \<in> {''restarting'', ''dead''}) cs)\<rparr>)"

definition server_status :: "config \<Rightarrow> rat \<Rightarrow> server_view \<Rightarrow> 'a hub_scheme \<Rightarrow> string" where
  "server_status cfg now row d =
     (if \<not> vw_enrolled row then ''pending'' else case peek (vw_id row) d of Some lv \<Rightarrow> status cfg now lv | None \<Rightarrow> ''offline'')"

definition summary_of :: "config \<Rightarrow> rat \<Rightarrow> server_view \<Rightarrow> 'a hub_scheme \<Rightarrow> summary" where
  \<comment> \<open>\<open>_summary\<close>\<close>
  "summary_of cfg now row d =
     (let lv = peek (vw_id row) d; s = Option.bind lv lv_last; st = server_status cfg now row d;
          disks = (case Option.bind s sa_disks of Some ds \<Rightarrow> ds | None \<Rightarrow> []);
          cont = (case Option.bind s sa_containers of Some cs \<Rightarrow> cs | None \<Rightarrow> [])
      in \<lparr>su_id = vw_id row, su_name = vw_name row, su_status = st, su_host = vw_host row,
          su_agent_version = (case lv of Some l \<Rightarrow> if lv_version l \<noteq> [] then Some (lv_version l) else vw_agent_version row | None \<Rightarrow> vw_agent_version row),
          su_last_seen = (case lv of Some l \<Rightarrow> if lv_last_ts l \<noteq> 0 then Some (py_trunc (lv_last_ts l)) else vw_last_seen row | None \<Rightarrow> vw_last_seen row),
          su_ip = (case lv of Some l \<Rightarrow> if lv_ip l \<noteq> [] then Some (lv_ip l) else vw_last_ip row | None \<Rightarrow> vw_last_ip row),
          su_cpu = last_get sa_cpu ''pct'' s, su_mem = last_get sa_mem ''pct'' s,
          su_mem_used = last_get sa_mem ''used'' s, su_mem_total = last_get sa_mem ''total'' s,
          su_swap = last_get sa_mem ''swap_pct'' s, su_load = map_option sa_load s, su_uptime = map_option sa_uptime s,
          su_rx = last_get sa_net ''rx_bps'' s, su_tx = last_get sa_net ''tx_bps'' s,
          su_disk = first_max (\<lambda>k. nget (dk_nums k) ''pct'') disks, su_containers = container_counts cont,
          su_alerts = firing_count (vw_id row) d,
          su_spark = (if st = ''online'' then sparkline (py_trunc now) (vw_id row) 40 d else []),
          su_enroll_pending = (case vw_enroll_expires row of None \<Rightarrow> False | Some t \<Rightarrow> t \<noteq> 0)\<rparr>)"

definition latest_agent :: "string option \<Rightarrow> string" where
  \<comment> \<open>the text of the \<open>VERSION\<close> file, if there is one\<close>
  "latest_agent version = (case version of Some v \<Rightarrow> strip v | None \<Rightarrow> [])"

definition api_overview ::
  "crypto \<Rightarrow> config \<Rightarrow> rat \<Rightarrow> request \<Rightarrow> string option \<Rightarrow> 'a hub_scheme \<Rightarrow> ('a hub_scheme, summary list \<times> event_row list \<times> check_view list \<times> string \<times> int) io" where
  "api_overview cr cfg now rq version =
     depends (current_user cr cfg (py_trunc now) rq) (\<lambda>u d.
       (d, rbind (mapM (\<lambda>r. rbind (get_server (py_trunc now) (sv_id r) d) (\<lambda>row. Inr (summary_of cfg now row d))) (sort_key sv_created (servers d))) (\<lambda>rows.
           Inr (rows, open_events d, checks_view (py_trunc now) d, latest_agent version, py_trunc now))))"

record detail =
  de_server :: summary
  de_notes :: string
  de_created :: int
  de_last :: "sample option"
  de_agent_latest :: string
  de_caps :: "(string, json) dict"
  de_events :: "event_row list"

definition api_server_detail ::
  "crypto \<Rightarrow> config \<Rightarrow> rat \<Rightarrow> request \<Rightarrow> string option \<Rightarrow> string \<Rightarrow> 'a hub_scheme \<Rightarrow> ('a hub_scheme, detail) io" where
  "api_server_detail cr cfg now rq version sid =
     depends (current_user cr cfg (py_trunc now) rq) (\<lambda>u d.
       (d, rbind (get_server (py_trunc now) sid d) (\<lambda>row.
           Inr \<lparr>de_server = summary_of cfg now row d, de_notes = vw_notes row, de_created = vw_created row,
                de_last = Option.bind (peek sid d) lv_last, de_agent_latest = latest_agent version,
                de_caps = (case peek sid d of Some lv \<Rightarrow> lv_caps lv | None \<Rightarrow> []),
                de_events = take 30 (sort_key (\<lambda>e. - ev_started e) (filter (\<lambda>e. ev_server e = sid) (events d)))\<rparr>)))"

definition api_server_series :: "crypto \<Rightarrow> config \<Rightarrow> int \<Rightarrow> request \<Rightarrow> string \<Rightarrow> string \<Rightarrow> 'a hub_scheme \<Rightarrow> ('a hub_scheme, series_out) io" where
  "api_server_series cr cfg now rq sid rng =
     depends (current_user cr cfg now rq) (\<lambda>u d. (d, rbind (get_server now sid d) (\<lambda>_. Inr (series cfg now sid rng d))))"

definition api_list_alerts ::
  "crypto \<Rightarrow> config \<Rightarrow> int \<Rightarrow> request \<Rightarrow> int option \<Rightarrow> 'a hub_scheme \<Rightarrow> ('a hub_scheme, event_row list \<times> event_row list \<times> rule_row list) io" where
  "api_list_alerts cr cfg now rq before =
     depends (current_user cr cfg now rq) (\<lambda>u d. (d, Inr (open_events d, history 100 before d, rules_view d)))"

definition api_edit_rule ::
  "crypto \<Rightarrow> config \<Rightarrow> int \<Rightarrow> request \<Rightarrow> string \<Rightarrow> string \<Rightarrow> rat \<Rightarrow> int \<Rightarrow> string \<Rightarrow> bool \<Rightarrow> 'a hub_scheme \<Rightarrow> ('a hub_scheme, rule_row list) io" where
  \<comment> \<open>\<open>dump\<close> is the text of the request's fields\<close>
  "api_edit_rule cr cfg now rq dump kind thr for_s sev en =
     depends (elevated cr cfg now rq) (\<lambda>u d.
       if for_s < 0 \<or> 86400 < for_s then (d, Inl (HTTPException 422 ''validation''))
       else case update_rule kind thr for_s sev en d of
              (d', Inl (ValueError m)) \<Rightarrow> (d', Inl (HTTPException 400 m))
            | (d', Inl e) \<Rightarrow> (d', Inl e)
            | (d', Inr _) \<Rightarrow>
                let d2 = audit now (Some (us_username u)) ''rule.edit'' (kind @ '' '' @ dump) (Some (client_ip rq)) d' in (d2, Inr (rules_view d2)))"

section \<open>The process\<close>

definition boot :: "rat \<Rightarrow> 'a hub_scheme \<Rightarrow> 'a hub_scheme" where
  \<comment> \<open>\<open>lifespan\<close> up to its \<open>yield\<close>, in a new process: what was in memory is gone, what is in the database is read back\<close>
  "boot now d =
     recover (py_trunc now) (seed (d\<lparr>lives := [], rules_mem := [], astate := [], started := now, futures := [], cstate := [], running := [],
       dom_cache := [], dns_cache := []\<rparr>))"

definition shutdown :: "'a hub_scheme \<Rightarrow> 'a hub_scheme" where
  \<comment> \<open>\<open>lifespan\<close> after its \<open>yield\<close>\<close>
  "shutdown d = flush_all d"

definition ticker_turn :: "config \<Rightarrow> net \<Rightarrow> rat \<Rightarrow> rat \<Rightarrow> nat \<Rightarrow> 'a hub_scheme \<Rightarrow> 'a hub_scheme \<times> bool" where
  \<comment> \<open>one turn of \<open>_ticker\<close>: the clock before and after the checks were awaited, the turn's number; with whether the turn
     starts a refresh of the domain data. An exception ends the turn.\<close>
  "ticker_turn cfg net now after n d =
     (case run_due net now (evaluate_offline cfg now d) of
        (d1, Inl e) \<Rightarrow> (d1, False)
      | (d1, Inr _) \<Rightarrow>
          let d2 = tick after d1;
              d3 = (if n mod 40 = 0 then prune cfg (py_trunc after) (rollup (py_trunc after) d2) else d2);
              d4 = (if n mod 240 = 1 then metrics_prune cfg (py_trunc after) d3 else d3)
          in (d4, n mod 240 = 20))"

fun ticker :: "config \<Rightarrow> (net \<times> rat \<times> rat) list \<Rightarrow> nat \<Rightarrow> 'a hub_scheme \<Rightarrow> 'a hub_scheme" where
  \<comment> \<open>turn after turn, with what the network and the clock gave to each\<close>
  "ticker cfg [] n d = d"
| "ticker cfg ((net, now, after) # ts) n d = ticker cfg ts (n + 1) (fst (ticker_turn cfg net now after n d))"

section \<open>Answers and downloads\<close>

definition CSP :: string where
  "CSP = ''default-src 'self'; script-src 'self'; style-src 'self'; img-src 'self' data:; '' @
         ''font-src 'self'; connect-src 'self'; frame-ancestors 'none'; base-uri 'none'; form-action 'self'' @ [CHR 0x27]"

definition setdefault :: "string \<Rightarrow> string \<Rightarrow> (string, string) dict \<Rightarrow> (string, string) dict" where
  "setdefault k v h = (case dget h k of Some _ \<Rightarrow> h | None \<Rightarrow> h @ [(k, v)])"

definition security_headers :: "string \<Rightarrow> (string, string) dict \<Rightarrow> (string, string) dict" where
  \<comment> \<open>the \<open>headers\<close> middleware; header names are kept in their registered spelling\<close>
  "security_headers path h =
     (let h1 = setdefault ''Content-Security-Policy'' CSP (setdefault ''X-Frame-Options'' ''DENY''
                 (setdefault ''Referrer-Policy'' ''same-origin'' (setdefault ''X-Content-Type-Options'' ''nosniff'' h)))
      in if startswith path ''/api/'' then setdefault ''Cache-Control'' ''no-store'' h1 else h1)"

definition healthz :: "string \<Rightarrow> json" where
  "healthz version = JObj [(''ok'', JBool True), (''version'', JStr version)]"

definition install_script :: "config \<Rightarrow> request \<Rightarrow> string \<Rightarrow> string" where
  "install_script cfg rq script = replace ''__HUB_URL__'' (base_url cfg rq) script"

definition download_names :: "string list" where
  \<comment> \<open>the names the pattern matches\<close>
  "download_names = [''icsd-agent-linux-amd64'', ''icsd-agent-linux-arm64'', ''SHA256SUMS'', ''VERSION'']"

definition download :: "(string \<Rightarrow> bool) \<Rightarrow> config \<Rightarrow> string \<Rightarrow> string res" where
  \<comment> \<open>the path served, \<open>isfile\<close> says which paths are files\<close>
  "download isfile cfg name =
     (if name \<notin> set download_names then Inl (HTTPException 404 [])
      else let path = dist_dir cfg @ ''/'' @ name in
           if isfile path then Inr path else Inl (HTTPException 404 ''agent binaries are not built into this hub image''))"

section \<open>A check that cannot be sent\<close>

definition rest_of :: "'a hub_scheme \<Rightarrow> _" where
  \<comment> \<open>what the turn works on, the alerts apart\<close>
  "rest_of d = ((users d, sessions d, login_fail d, servers d), (samples_1m d, samples_1h d, checks d, check_log d, audit_log d),
     (backup_plans d, backup_runs d, running d, cstate d), rules_mem d, lives d)"

lemma step_rest [simp]: "rest_of (step kind sid sub bad v msg now q d) = rest_of d"
  by (auto simp: rest_of_def step_def open_event_def close_event_def fire_def Let_def split: option.splits prod.splits)

interpretation rest: step_client "\<lambda>d. rest_of d = x" "\<lambda>_. True" for x
  by unfold_locales simp

lemma due_checks_rest: "rest_of d' = rest_of d \<Longrightarrow> due_checks now d' = due_checks now d"
  by (simp add: rest_of_def due_checks_def)

lemma due_checks_mono: "c \<in> set (due_checks now d) \<Longrightarrow> now \<le> now' \<Longrightarrow> c \<in> set (due_checks now' d)"
  by (auto simp: due_checks_def)

lemma run_due_stuck:
  assumes "c \<in> set (due_checks now d)" "nt_get net c = OtherError e"
  shows "\<exists>e'. run_due net now d = (d, Inl e')"
proof -
  have "\<exists>e'. mapM (probe net) cs = Inl e'" if "c \<in> set cs" for cs
    using that
  proof (induction cs)
    case (Cons x cs)
    then show ?case using assms(2) by (cases "probe net x") (auto simp: rbind_def probe_def)
  qed simp
  with assms(1) show ?thesis by (fastforce simp: run_due_def)
qed

text \<open>
  One check that cannot be sent at all (its request fails with something other than an HTTP error, such as an address the client
  library refuses) stops the background work of the whole hub: from the turn in which it is due, no turn runs a check, starts a
  backup, rolls up or prunes anything; the plans, runs, samples, sessions and check results stay as they are for as long as
  the check exists.
\<close>

theorem unsendable_check_freezes_ticker:
  assumes "c \<in> set (due_checks t0 d)" and "\<forall>(net, now, after) \<in> set turns. t0 \<le> now \<and> (\<exists>e. nt_get net c = OtherError e)"
  shows "rest_of (ticker cfg turns n d) = rest_of d"
  using assms
proof (induction turns arbitrary: n d)
  case (Cons x turns)
  obtain net now after where x: "x = (net, now, after)" by (cases x)
  let ?d = "evaluate_offline cfg now d"
  have r: "rest_of ?d = rest_of d" by (rule rest.P_evaluate_offline) simp_all
  have "c \<in> set (due_checks now d)" using Cons.prems x by (auto intro: due_checks_mono)
  then have "c \<in> set (due_checks now ?d)" using due_checks_rest [OF r] by simp
  moreover obtain e where "nt_get net c = OtherError e" using Cons.prems(2) x by auto
  ultimately obtain e' where "run_due net now ?d = (?d, Inl e')" using run_due_stuck by blast
  then have t: "fst (ticker_turn cfg net now after n d) = ?d" by (simp add: ticker_turn_def)
  have "c \<in> set (due_checks t0 ?d)" using Cons.prems(1) due_checks_rest [OF r] by simp
  with Cons.IH [of ?d "n + 1"] Cons.prems(2) r show ?case by (simp add: x t)
qed simp

section \<open>A restart\<close>

lemma flush_frame: "flush lv d = (lv', d') \<Longrightarrow> \<exists>rows. d' = d\<lparr>samples_1m := rows\<rparr>"
  by (auto simp: flush_def upsert_1m_def Let_def split: if_splits intro: exI [of _ "samples_1m d"])

lemma flush_list_frame: "flush_list ls d = (ls', d') \<Longrightarrow> \<exists>rows. d' = d\<lparr>samples_1m := rows\<rparr>"
proof (induction ls d arbitrary: ls' d' rule: flush_list.induct)
  case 1
  then show ?case by (auto intro: exI [of _ "samples_1m d'"])
next
  case (2 sid lv ls d)
  obtain lv1 d1 where f: "flush lv d = (lv1, d1)" by (cases "flush lv d")
  obtain ls2 d2 where g: "flush_list ls d1 = (ls2, d2)" by (cases "flush_list ls d1")
  from flush_frame [OF f] 2(1) [OF f [symmetric] refl g] 2(2) f g show ?case by auto
qed

lemma flush_counts:
  assumes "distinct (map sample_key (samples_1m d))" "flush lv d = (lv', d')"
  shows "distinct (map sample_key (samples_1m d'))"
    "sample_count sid (samples_1m d') = sample_count sid (samples_1m d) + (if lv_server_id lv = sid then lv_acc_n lv else 0)"
  using assms(2) upsert_1m_count [OF assms(1)] assms(1) by (auto simp: flush_def split: if_splits)

lemma flush_list_count:
  assumes "distinct (map sample_key (samples_1m d))" "distinct (map fst ls)" "\<forall>(sid, lv) \<in> set ls. lv_server_id lv = sid"
  shows "sample_count sid (samples_1m (snd (flush_list ls d))) = sample_count sid (samples_1m d) + (case map_of ls sid of None \<Rightarrow> 0 | Some lv \<Rightarrow> lv_acc_n lv)"
  using assms
proof (induction ls d rule: flush_list.induct)
  case (2 s lv ls d)
  obtain lv1 d1 where f: "flush lv d = (lv1, d1)" by (cases "flush lv d")
  have id: "lv_server_id lv = s" using 2(4) by simp
  have "sid = s \<Longrightarrow> map_of ls sid = None" using 2(3) by (simp add: map_of_eq_None_iff)
  moreover have "sample_count sid (samples_1m (snd (flush_list ls d1))) =
      sample_count sid (samples_1m d1) + (case map_of ls sid of None \<Rightarrow> 0 | Some lv \<Rightarrow> lv_acc_n lv)"
    using 2(1) [OF f [symmetric] refl flush_counts(1) [OF 2(2) f]] 2(3,4) by simp
  ultimately show ?case using flush_counts(2) [OF 2(2) f, of sid] id by (cases "sid = s") (auto simp: f split: prod.split)
qed simp

lemma boot_frame:
  "users (boot t d) = users d" "sessions (boot t d) = sessions d" "outbox (boot t d) = outbox d" "events (boot t d) = events d"
  "samples_1m (boot t d) = samples_1m d" "running (boot t d) = []"
  by (simp_all add: boot_def recover_def seed_def Let_def reload_def)

lemma boot_astate: "astate (boot t d) = astate (seed d)"
  by (simp add: boot_def recover_def seed_def Let_def reload_def)

text \<open>
  C23. A restart of the hub loses nothing that matters: after an orderly stop and a start, accounts and sessions are unchanged, exactly the alerts
  that were open are open and none is reported again, no run is left as running, and every sample that was still being averaged is
  counted in the minute table.
\<close>

theorem restart_loses_nothing:
  assumes "alert_inv d" and "distinct (map (\<lambda>r. (sm_server r, sm_ts r)) (samples_1m d))"
    and "dict_ok (lives d)" and "\<forall>(sid, lv) \<in> set (lives d). lv_server_id lv = sid" and "d' = boot t (shutdown d)"
  shows "(users d' = users d \<and> sessions d' = sessions d) \<and> (alert_inv d' \<and> is_open key d' = is_open key d \<and> outbox d' = outbox d)
    \<and> (running d' = [] \<and> (\<forall>r \<in> set (backup_runs d'). rn_state r \<noteq> ''running''))
    \<and> sample_count sid (samples_1m d') = sample_count sid (samples_1m d) + (case peek sid d of None \<Rightarrow> 0 | Some lv \<Rightarrow> lv_acc_n lv)"
proof (intro conjI)
  obtain ls rows where fl: "flush_list (lives d) d = (ls, d\<lparr>samples_1m := rows\<rparr>)" using flush_list_frame by (metis prod.collapse)
  then have sh: "shutdown d = d\<lparr>samples_1m := rows, lives := ls\<rparr>" by (simp add: shutdown_def flush_all_def)
  show "users d' = users d" "sessions d' = sessions d" by (simp_all add: assms(5) boot_frame sh)
  have e: "st_open (astate d') = st_open (astate d)" "dict_ok (astate d')" "events d' = events d"
    using seed_open [of "shutdown d"] assms(1) by (simp_all add: assms(5) boot_astate boot_frame sh)
  then have "alert_inv d' \<and> is_open key d' = is_open key d \<and> outbox d' = outbox d"
    using assms(1) by (simp add: is_open_st alert_ok_def) (simp add: assms(5) boot_frame sh)
  then show "alert_inv d'" "is_open key d' = is_open key d" "outbox d' = outbox d" by simp_all
  show "\<forall>r \<in> set (backup_runs d'). rn_state r \<noteq> ''running''"
    by (auto simp: assms(5) boot_def recover_def set_update_where)
  show "running d' = []" by (simp add: assms(5) boot_frame)
  show "sample_count sid (samples_1m d') = sample_count sid (samples_1m d) + (case peek sid d of None \<Rightarrow> 0 | Some lv \<Rightarrow> lv_acc_n lv)"
    using flush_list_count [OF assms(2) assms(3) [unfolded dict_ok_def] assms(4), of sid] fl by (simp add: assms(5) boot_frame sh peek_def dget_def)
qed

section \<open>Closed examples\<close>

theorem unsendable_check_freezes_ticker_witness:
  "backup_runs (ticker demo_cfg [(demo_net, 5, 6), (demo_net, 20, 21)] 0 (demo_hub\<lparr>checks := [demo_check 1, demo_check 2]\<rparr>)) = backup_runs demo_hub"
proof -
  have c: "demo_check 2 \<in> set (due_checks 5 (demo_hub\<lparr>checks := [demo_check 1, demo_check 2]\<rparr>))"
    "nt_get demo_net (demo_check 2) = OtherError (ValueError ''Invalid port'')" by code_simp+
  have "\<forall>(net, now, after) \<in> set [(demo_net, 5 :: rat, 6 :: rat), (demo_net, 20, 21)]. 5 \<le> now \<and> (\<exists>e. nt_get net (demo_check 2) = OtherError e)"
    using c(2) by simp
  from unsendable_check_freezes_ticker [OF c(1) this, of demo_cfg 0] show ?thesis by (simp add: rest_of_def)
qed

theorem restart_loses_nothing_witness:
  "users (boot 50 (shutdown (demo_hub\<lparr>users := users demo_db\<rparr>))) = users demo_db"
proof -
  let ?d = "demo_hub\<lparr>users := users demo_db\<rparr>"
  have "events ?d = []" "astate ?d = []" "samples_1m ?d = []" "dict_ok (lives ?d)" "\<forall>(sid, lv) \<in> set (lives ?d). lv_server_id lv = sid" by code_simp+
  then have "alert_inv ?d" "distinct (map (\<lambda>r. (sm_server r, sm_ts r)) (samples_1m ?d))" "dict_ok (lives ?d)" "\<forall>(sid, lv) \<in> set (lives ?d). lv_server_id lv = sid"
    by (simp_all add: alert_ok_def dict_ok_def st_open_def ev_open_def dget_def)
  from restart_loses_nothing [OF this refl] show ?thesis by simp
qed

end
