(* ===== verification/System.thy ===== *)
theory System
  imports Hub
begin

text \<open>
  The hub as one state machine (all of \<open>src/hub/icsd_hub\<close>): every request of a browser or an agent, the command line, every turn of the background
  loop, every run of a backup, a restart and a crash is a step. What the components promise separately is shown to hold of them together.
\<close>

section \<open>Steps beside the accounts and the alerts\<close>

definition aside :: "'a hub_scheme \<Rightarrow> 'a hub_scheme \<Rightarrow> bool" where
  \<comment> \<open>accounts, sessions, events and the alert engine's memory are the same\<close>
  "aside d d' \<longleftrightarrow> users d' = users d \<and> sessions d' = sessions d \<and> events d' = events d \<and> astate d' = astate d"

lemma aside_trans: "aside d d1 \<Longrightarrow> aside d1 d2 \<Longrightarrow> aside d d2"
  by (simp add: aside_def)

named_theorems aside_rules \<open>which operations leave accounts and alerts alone\<close>

lemma aside_audit [aside_rules]: "aside d (audit now aun act det aip d)"
  by (simp add: aside_def audit_def)

lemma aside_upd_live [aside_rules]: "aside d (upd_live sid f d)"
  by (simp add: aside_def upd_live_def split: option.split)

lemma aside_live_get [aside_rules]: "aside d (snd (live_get sid d))"
  by (simp add: aside_def live_get_def split: option.split)

lemma aside_flush: "flush lv d = (lv', d') \<Longrightarrow> aside d d'"
  by (drule flush_frame) (auto simp: aside_def)

lemma aside_flush_all [aside_rules]: "aside d (flush_all d)"
proof -
  obtain ls d' where "flush_list (lives d) d = (ls, d')" by (cases "flush_list (lives d) d")
  with flush_list_frame [OF this] show ?thesis by (auto simp: aside_def flush_all_def)
qed

lemma aside_ingest: "ingest rp now raw lv d = (lv', d', r) \<Longrightarrow> aside d d'"
  by (auto simp: ingest_def accumulate_def Let_def split: prod.splits sum.splits if_splits dest!: aside_flush)
     (auto simp: aside_def)

lemma aside_fail_pending [aside_rules]: "aside d (fail_pending sid d)"
  by (auto simp: fail_pending_def aside_def upd_live_def split: option.split)

lemma aside_answer [aside_rules]: "aside d (answer rp sid msg d)"
  by (auto simp: answer_def aside_def upd_live_def Let_def split: option.split future.split)

lemma aside_hello [aside_rules]: "aside d (fst (on_hello jl sid msg h d))"
  by (simp add: on_hello_def aside_def upd_live_def Let_def split: option.split)

lemma aside_connect [aside_rules]: "aside d (fst (agent_connect cr ws now header version ip d))"
  by (auto simp: agent_connect_def aside_def upd_live_def live_get_def Let_def split: option.split)

lemma aside_disconnect [aside_rules]: "aside d (agent_disconnect ws now sid d)"
proof -
  let ?d = "upd_live sid (\<lambda>lv. lv\<lparr>lv_ws := None\<rparr>) (fail_pending sid d)"
  have d: "aside d ?d" by (rule aside_trans [OF aside_fail_pending aside_upd_live])
  show ?thesis
  proof (cases "peek sid ?d")
    case None
    with d show ?thesis by (auto simp: agent_disconnect_def Let_def aside_def split: option.split)
  next
    case (Some lv1)
    obtain lv2 d2 where f: "flush lv1 ?d = (lv2, d2)" by (cases "flush lv1 ?d")
    from aside_trans [OF d aside_flush [OF f]] have "aside d d2" .
    with d Some f show ?thesis by (auto simp: agent_disconnect_def Let_def aside_def split: option.split)
  qed
qed

lemma aside_enroll [aside_rules]: "aside d (fst (enroll rp jl cr cfg now rq secret token host version d))"
  by (auto simp: enroll_def fail_def audit_def aside_def Let_def split: option.split)

lemma aside_begin [aside_rules]: "aside d (fst (rpc_begin rid sid d))"
  by (auto simp: rpc_begin_def aside_def upd_live_def split: option.split)

lemma aside_finish [aside_rules]: "aside d (fst (rpc_finish rp w rid sid d))"
  by (auto simp: rpc_finish_def aside_def upd_live_def split: option.split)

lemma aside_start: "start now pid tg d = (d', r) \<Longrightarrow> aside d d'"
  by (auto simp: start_def aside_def Let_def split: option.splits if_splits)

lemma aside_tick [aside_rules]: "aside d (tick now d)"
proof -
  have "aside d (tick_plan now p d)" for p and d :: "'a hub_scheme"
    by (auto simp: tick_plan_def start_def aside_def Let_def split: option.split)
  then have "aside d (fold (tick_plan now) ps d)" for ps
    by (induction ps arbitrary: d) (auto simp: aside_def)
  then show ?thesis by (simp add: tick_def)
qed

lemma aside_run_body: "run_body rp env fuel p rid ([], d) = ((tr, d'), r) \<Longrightarrow> aside d d'"
proof -
  assume b: "run_body rp env fuel p rid ([], d) = ((tr, d'), r)"
  have "keeps (\<lambda>d. (users d, sessions d, events d, astate d)) (run_body rp env fuel p rid :: ('a hub_scheme, unit) act)"
    by (rule keeps_run_body) (simp add: upd_run_def)
  from this [unfolded keeps_def, rule_format, of "([], d)"] b show ?thesis by (simp add: aside_def)
qed

lemma aside_dns_rows: "dns_rows dns now rs d = (d', rs') \<Longrightarrow> aside d d'"
proof (induction rs arbitrary: d d' rs')
  case (Cons r rs)
  obtain d1 i where i: "dns_info dns now (dr_domain r) d = (d1, i)" by (cases "dns_info dns now (dr_domain r) d")
  obtain d2 xs where x: "dns_rows dns now rs d1 = (d2, xs)" by (cases "dns_rows dns now rs d1")
  have "aside d d1" using i by (auto simp: dns_info_def aside_def Let_def split: option.splits)
  with Cons.IH [OF x] Cons.prems show ?case by (simp add: i x aside_def)
qed (simp add: aside_def)

lemma aside_mail_rows: "mail_rows dns now bs d = (d', m) \<Longrightarrow> aside d d'"
proof (induction bs arbitrary: d d' m)
  case (Cons b bs)
  obtain d1 v where i: "mail_info dns now b d = (d1, v)" by (cases "mail_info dns now b d")
  obtain d2 xs where x: "mail_rows dns now bs d1 = (d2, xs)" by (cases "mail_rows dns now bs d1")
  have "aside d d1" using i by (auto simp: mail_info_def aside_def Let_def split: option.splits)
  with Cons.IH [OF x] Cons.prems show ?case by (simp add: i x aside_def)
qed (simp add: aside_def)

lemma aside_save [aside_rules]: "aside d (fst (notify_save rp update d))"
  by (auto simp: notify_save_def aside_def set_setting_def Let_def split: sum.split option.split)

lemma aside_send [aside_rules]: "aside d (fst (send rp net now txt d))"
proof -
  have "aside (fst st) (fst (fold (send_one rp cfg now) js st))" for js cfg and st :: "'a hub_scheme \<times> send_result list"
    by (induction js arbitrary: st) (auto simp: aside_def send_one_def Let_def)
  from this [of "(d, [])"] show ?thesis by (simp add: send_def Let_def split: sum.split) (simp add: aside_def)
qed

lemma aside_deliver [aside_rules]: "aside d (deliver rp net now d)"
proof (cases "outbox d")
  case (Cons x xs)
  have "aside d (d\<lparr>outbox := xs\<rparr>)" by (simp add: aside_def)
  from aside_trans [OF this aside_send] Cons show ?thesis by (simp add: deliver_def)
qed (simp add: deliver_def aside_def)

section \<open>What the parts promise\<close>

text \<open>Keeping a predicate is a preorder of states too, so it passes from calls to whole management routes.\<close>

definition preserved :: "('h \<Rightarrow> bool) \<Rightarrow> rpc_call list \<times> 'h \<Rightarrow> rpc_call list \<times> 'h \<Rightarrow> bool" where
  "preserved P s s' \<longleftrightarrow> (P (snd s) \<longrightarrow> P (snd s'))"

interpretation keeping: state_order "preserved P" for P
  by unfold_locales (auto simp: preserved_def)

lemma preserved_same: "(\<And>s. snd (fst (m s)) = snd s) \<Longrightarrow> stays (preserved P) m"
  by (simp add: stays_def preserved_def)

lemma preserved_calls: "stays (preserved P) (relay rp ag now sid op args)" "stays (preserved P) (direct rp ag sid op args)"
  by (rule preserved_same, rule relay_step(2)) (rule preserved_same, simp add: direct_def Let_def split: prod.split)

lemma preserved_json_reply: "stays (preserved P) m \<Longrightarrow> stays (preserved P) (json_reply m)"
  unfolding json_reply_def by (intro keeping.abind keeping.ares)

text \<open>
  A predicate that account operations and single alert steps keep, and that does not look at the rest of the state, is preserved by
  every operation of the hub; only a few operations that touch the tables of both sides directly are asked for beside.
\<close>

locale hub_client = account_contract P + step_client P "\<lambda>_. True"
  for P :: "'a hub_scheme \<Rightarrow> bool" +
  assumes P_aside: "P d \<Longrightarrow> aside d d' \<Longrightarrow> P d'"
    and P_elevation: "P d \<Longrightarrow> P (fst (api_elevate cr cfg now rq c d))"
    and P_forget_server: "P d \<Longrightarrow> P (forget_server sid t d)"
    and P_metrics_prune: "P d \<Longrightarrow> P (metrics_prune cfg now d)"
    and P_boot: "P d \<Longrightarrow> P (boot t d)"
begin

lemma P_account: "P d \<Longrightarrow> P (account_call_db cr cfg now ac d)"
  by (cases "\<exists>rq c. ac = CElevate rq c") (auto simp: P_elevation intro: P_call)

lemma P_sample: "P d \<Longrightarrow> P (fst (on_sample rp now sid host raw d))"
proof -
  assume P: "P d"
  have "P (d'\<lparr>lives := ls\<rparr>)" if "ingest rp now raw lv d = (lv', d', r)" for lv lv' d' r ls
    using P_aside [OF P aside_ingest [OF that]] by (rule P_aside) (simp add: aside_def)
  then show ?thesis using P
    by (auto simp: on_sample_def Let_def split: option.split prod.split sum.split intro!: P_evaluate_sample)
qed

lemma P_message: "P d \<Longrightarrow> P (fst (agent_message rp jl now sid host len parsed d))"
proof -
  assume P: "P d"
  have "P (fst (on_sample rp now sid host raw d))" "P (answer rp sid m d)" "P (fst (on_hello jl sid msg h d))" for host raw m msg h
    using P_sample P P_aside [OF P aside_answer] P_aside [OF P aside_hello] by blast+
  then show ?thesis using P
    by (auto simp: agent_message_def split: option.split json.split prod.split) (metis fst_conv)+
qed

lemma P_delete_server: "P d \<Longrightarrow> P (delete_server sid t d)"
proof -
  assume "P d"
  then have "P (live_forget sid d)" by (rule P_aside) (simp add: aside_def live_forget_def)
  then have "P (forget_server sid t (live_forget sid d))" by (rule P_forget_server)
  then show ?thesis by (rule P_aside) (simp add: aside_def delete_server_def domains_forget_def delete_server_row_def Let_def)
qed

lemma P_edited: "P d \<Longrightarrow> P (edited cid en t d)"
proof -
  assume P: "P d"
  have "P (d\<lparr>cstate := m\<rparr>)" for m using P by (rule P_aside) (simp add: aside_def)
  then show ?thesis using P by (auto simp: edited_def checks_forget_def split: option.split intro!: P_step)
qed

lemma P_server_routes:
  assumes "P d"
  shows "P (fst (api_add_server cr cfg now rq rnd tok name d))" "P (fst (api_edit_server cr cfg now rq sid nm notes d))"
    "P (fst (api_reenroll cr cfg now rq tok sid d))" "P (fst (api_remove_server cr cfg now rq sid d))"
proof -
  have a: "P (audit now aun act det aip d')" if "P d'" for aun act det aip d' using that by (rule P_audit)
  have s: "P (d'\<lparr>servers := ss\<rparr>)" if "P d'" for d' ss using that by (rule P_aside) (simp add: aside_def)
  show "P (fst (api_add_server cr cfg now rq rnd tok name d))" unfolding api_add_server_def
    by (rule P_depends [OF assms elevated_touched], assumption) (auto simp: create_server_def Let_def intro: a s split: prod.split sum.split)
  show "P (fst (api_edit_server cr cfg now rq sid nm notes d))" unfolding api_edit_server_def
    by (rule P_depends [OF assms admin_touched], assumption) (auto simp: Let_def intro: s split: sum.split option.split)
  show "P (fst (api_reenroll cr cfg now rq tok sid d))" unfolding api_reenroll_def
    by (rule P_depends [OF assms elevated_touched], assumption) (auto simp: new_enroll_token_def intro: a s split: prod.split sum.split)
  show "P (fst (api_remove_server cr cfg now rq sid d))" unfolding api_remove_server_def
    by (rule P_depends [OF assms elevated_touched], assumption) (auto intro: a P_delete_server split: sum.split)
qed

lemma P_check_routes:
  assumes "P d"
  shows "P (fst (api_add_check rp brk cr cfg now rq kvs d))" "P (fst (api_edit_check rp brk cr cfg now rq cid kvs d))"
    "P (fst (api_remove_check cr cfg now rq cid d))"
proof -
  have a: "P (audit now aun act det aip d')" if "P d'" for aun act det aip d' using that by (rule P_audit)
  have s: "P (d'\<lparr>checks := cs\<rparr>)" "P (d'\<lparr>checks := cs, check_log := l\<rparr>)" "P (d'\<lparr>checks := cs, check_log := l, cstate := m\<rparr>)" if "P d'" for d' cs l m
    using that by (auto elim!: P_aside simp: aside_def)
  show "P (fst (api_add_check rp brk cr cfg now rq kvs d))" unfolding api_add_check_def
    by (rule P_depends [OF assms elevated_touched], assumption) (auto simp: Let_def intro: a s split: sum.split)
  show "P (fst (api_edit_check rp brk cr cfg now rq cid kvs d))" unfolding api_edit_check_def
    by (rule P_depends [OF assms elevated_touched], assumption) (auto simp: Let_def intro: P_edited s split: sum.split)
  show "P (fst (api_remove_check cr cfg now rq cid d))" unfolding api_remove_check_def
    by (rule P_depends [OF assms elevated_touched], assumption) (auto simp: Let_def checks_forget_def intro!: a P_step s)
qed

lemma P_plan_routes:
  assumes "P d"
  shows "P (fst (api_create_plan cr cfg now rq tok b d))" "P (fst (api_update_plan cr cfg now rq pid b d))"
    "P (fst (api_delete_plan cr cfg now rq pid d))" "P (fst (api_run_now cr cfg now rq pid d))"
proof -
  have a: "P (audit now aun act det aip d')" if "P d'" for aun act det aip d' using that by (rule P_audit)
  have s: "P (d'\<lparr>backup_plans := ps\<rparr>)" "P (delete_plan_row pid d')" if "P d'" for d' ps
    using that by (auto elim!: P_aside simp: aside_def delete_plan_row_def)
  show "P (fst (api_create_plan cr cfg now rq tok b d))" unfolding api_create_plan_def
    by (rule P_depends [OF assms elevated_touched], assumption) (auto simp: Let_def intro: a s split: sum.split)
  show "P (fst (api_update_plan cr cfg now rq pid b d))" unfolding api_update_plan_def
    by (rule P_depends [OF assms elevated_touched], assumption) (auto simp: Let_def intro: a s split: sum.split)
  show "P (fst (api_delete_plan cr cfg now rq pid d))" unfolding api_delete_plan_def
    by (rule P_depends [OF assms elevated_touched], assumption) (auto simp: Let_def intro!: a P_forget_subject s)
  show "P (fst (api_run_now cr cfg now rq pid d))" unfolding api_run_now_def
    by (rule P_depends [OF assms elevated_touched], assumption) (auto intro: a P_aside [OF _ aside_start] split: prod.split sum.split)
qed

lemma P_alert_certs: "P d \<Longrightarrow> P (fst (alert_certs rp sid t data d))"
proof -
  have "P (fst (cert_alert rp sid t v d))" if "P d" for v d using that by (auto simp: cert_alert_def split: sum.split intro: P_step)
  then have "P (fst (cert_alerts rp sid t vs seen d))" if "P d" for vs seen d
    using that by (induction vs arbitrary: seen d) (auto split: prod.split sum.split, (metis fst_conv)+)
  then show "P d \<Longrightarrow> P (fst (alert_certs rp sid t data d))"
    by (auto simp: alert_certs_def split: sum.split prod.split intro!: P_settle) (metis fst_conv)+
qed

lemma P_fetch: "P d \<Longrightarrow> P (fst (fetch rp ag t sid force d))"
proof -
  assume P: "P d"
  have "P (d\<lparr>dom_cache := c\<rparr>)" for c using P by (rule P_aside) (simp add: aside_def)
  then have "P (fst (alert_certs rp sid t data (d\<lparr>dom_cache := c\<rparr>)))" for data c by (rule P_alert_certs)
  with P show ?thesis by (auto simp: fetch_def Let_def split: option.split sum.split exc.split prod.split) (metis fst_conv)+
qed

lemma P_refresh: "P d \<Longrightarrow> P (refresh_all rp ags t d)"
  unfolding refresh_all_def by (intro P_fold P_fetch)

lemma P_domains: "P d \<Longrightarrow> P (fst (api_get_domains rp ags dns cr cfg now rq refresh d))"
proof -
  have all: "P (fst (fetch_all rp ags t force ss d))" if "P d" for t force ss d
    using that by (induction ss arbitrary: d) (auto split: prod.split sum.split, (metis fst_conv P_fetch)+)
  have "P (fst (domains_overview rp ags dns t force d))" if P: "P d" for t force d
  proof -
    obtain d1 r where f: "fetch_all rp ags t force (sort_key sv_created (filter (\<lambda>s. sv_secret_hash s \<noteq> None) (servers d))) d = (d1, r)"
      by (cases "fetch_all rp ags t force (sort_key sv_created (filter (\<lambda>s. sv_secret_hash s \<noteq> None) (servers d))) d")
    have "P d1" using all [OF P] f by (metis fst_conv)
    then have "P d3" if "dns_rows dns t rs d1 = (d2, rows)" "mail_rows dns t bs d2 = (d3, m)" for rs d2 rows bs d3 m
      using that P_aside [OF _ aside_trans [OF aside_dns_rows aside_mail_rows]] by blast
    with \<open>P d1\<close> show ?thesis unfolding domains_overview_def Let_def f by (auto split: sum.split prod.split)
  qed
  moreover have "P (d'\<lparr>dns_cache := []\<rparr>)" if "P d'" for d' using that by (rule P_aside) (simp add: aside_def)
  ultimately show "P d \<Longrightarrow> P (fst (api_get_domains rp ags dns cr cfg now rq refresh d))" unfolding api_get_domains_def
    by (intro P_depends admin_touched) auto
qed

lemma P_settings_routes:
  assumes "P d"
  shows "P (fst (api_edit_rule cr cfg now rq dump kind thr for_s sev en d))" "P (fst (api_put_notify rp cr cfg now rq kvs d))"
    "P (fst (api_test_notify rp net cr cfg now rq d))"
proof -
  have a: "P (audit now aun act det aip d')" if "P d'" for aun act det aip d' using that by (rule P_audit)
  have u: "P d'" if "update_rule kind thr for_s sev en e = (d', r)" "P e" for e d' r
    using that by (auto elim!: P_aside simp: aside_def update_rule_def reload_def Let_def split: if_splits)
  have n: "P d'" if "notify_save rp kvs e = (d', r)" "P e" for e d' r using aside_save [of e rp kvs] that P_aside by (metis fst_conv)
  have t: "P d'" if "send rp net now tx e = (d', r)" "P e" for e d' r tx using aside_send [of e rp net now tx] that P_aside by (metis fst_conv)
  show "P (fst (api_edit_rule cr cfg now rq dump kind thr for_s sev en d))" unfolding api_edit_rule_def
    by (rule P_depends [OF assms elevated_touched], assumption) (auto simp: Let_def intro: a u split: prod.split sum.split exc.split)
  show "P (fst (api_put_notify rp cr cfg now rq kvs d))" unfolding api_put_notify_def
    by (rule P_depends [OF assms elevated_touched], assumption) (auto intro: a n split: prod.split sum.split exc.split)
  show "P (fst (api_test_notify rp net cr cfg now rq d))" unfolding api_test_notify_def
    by (rule P_depends [OF assms admin_touched], assumption) (auto intro: t split: prod.split sum.split)
qed

lemma P_run_plan: "P d \<Longrightarrow> P (snd (run_plan rp env fuel t p rid d))"
proof -
  assume P: "P d"
  obtain tr d1 r where b: "run_body rp env fuel p rid ([], d) = ((tr, d1), r)" by (metis prod.collapse)
  have "P (upd_run rid f d1)" for f
    using aside_trans [OF aside_run_body [OF b]] by (rule P_aside [OF P]) (simp add: aside_def upd_run_def)
  then have "P (step kind sid sub bad v msg t q (upd_run rid f d1))" for kind sid sub bad v msg q f by (intro P_step TrueI)
  then have "P ((step kind sid sub bad v msg t q (upd_run rid f d1))\<lparr>running := xs\<rparr>)" for kind sid sub bad v msg q f xs
    by (rule P_aside) (simp add: aside_def)
  then show ?thesis by (auto simp: run_plan_def b Let_def split: sum.split)
qed

lemma P_run_due: "P d \<Longrightarrow> P (fst (run_due net t d))"
proof -
  have "P (record_result net t cp e)" if "P e" for cp e
  proof -
    have "P (e\<lparr>cstate := m, check_log := l\<rparr>)" for m l using that by (rule P_aside) (simp add: aside_def)
    then show ?thesis by (auto simp: record_result_def Let_def split: prod.split intro!: P_evaluate_check)
  qed
  then show "P d \<Longrightarrow> P (fst (run_due net t d))" by (auto simp: run_due_def Let_def split: sum.split intro: P_fold)
qed

lemma P_turn: "P d \<Longrightarrow> P (fst (ticker_turn cfg net now after n d))"
proof -
  assume "P d"
  then have "P (fst (run_due net now (evaluate_offline cfg now d)))" by (intro P_run_due P_evaluate_offline TrueI)
  moreover have "P (tick t e)" if "P e" for t e using that aside_tick by (rule P_aside)
  moreover have "P (rollup u e)" if "P e" for u e using that by (rule P_aside) (simp add: aside_def rollup_def)
  ultimately show ?thesis
    by (cases "run_due net now (evaluate_offline cfg now d)") (auto simp: ticker_turn_def Let_def split: sum.split intro!: P_metrics_prune P_prune)
qed

lemma K_audit: "stays (preserved P) (record_audit now u rq sid action detail)"
  by (simp add: stays_def preserved_def record_audit_def amod_def P_audit)

lemma K_upload: "stays (preserved P) (upload_files rp ag now u rq sid dir fs)"
proof (induction fs)
  case (Cons f fs)
  then show ?case by (auto simp: Let_def intro!: keeping.abind keeping.ares keeping.upload_loop preserved_calls K_audit)
qed (simp add: keeping.ares)

lemmas K_rules = keeping.abind keeping.ares keeping.read_loop keeping.write_loop keeping.upload_loop preserved_calls preserved_json_reply K_audit K_upload

lemma K_guarded:
  assumes "\<And>d d' r. g d = (d', r) \<Longrightarrow> touched d d'" "\<And>u. stays (preserved P) (m u)"
  shows "stays (preserved P) (guarded g v m)"
  unfolding stays_def
proof
  fix s :: "rpc_call list \<times> 'a hub_scheme"
  obtain d' r where g: "g (snd s) = (d', r)" by (cases "g (snd s)")
  have d': "P (snd s) \<Longrightarrow> P d'" using P_touched assms(1) [OF g] by blast
  have "P d' \<Longrightarrow> P (snd (fst (m u (fst s, d'))))" for u
    using assms(2) [of u] unfolding stays_def preserved_def by (metis snd_conv)
  with d' show "preserved P s (fst (guarded g v m s))" by (auto simp: preserved_def guarded_def g split: sum.split)
qed

lemma K_handle: "stays (preserved P) (handle rp ag cr cfg now rq sid q)"
proof -
  have l: "stays (preserved P) (look rp ag cr cfg now rq sid op args)" for op args
    unfolding look_def by (intro K_guarded admin_touched K_rules)
  have c: "stays (preserved P) (change rp ag cr cfg now rq sid v a t op args)" "stays (preserved P) (change_after rp ag cr cfg now rq sid v a t op args)" for v a t op args
    unfolding change_def change_after_def by (intro K_guarded elevated_touched K_rules; assumption)+
  have f: "stays (preserved P) (fs_read rp ag cr cfg now rq sid p)" "stays (preserved P) (fs_download rp ag cr cfg now rq sid p)"
    "stays (preserved P) (fs_write rp ag cr cfg now rq sid p b m)" "stays (preserved P) (db_restore rp ag cr cfg now rq sid r fl cf)" for p b m r fl cf
    unfolding fs_read_def fs_download_def fs_write_def db_restore_def by (intro K_guarded elevated_touched admin_touched K_rules; assumption)+
  have u: "stays (preserved P) (fs_upload rp ag cr cfg now rq sid dir fs)" for dir fs
    unfolding fs_upload_def by (intro K_guarded elevated_touched; simp add: K_rules)
  have j: "stays (preserved P) (job_route rp ag cr cfg now rq sid jid)" for jid
    unfolding job_route_def by (intro K_guarded admin_touched; simp add: K_rules)
  have cp: "stays (preserved P) (caps cr cfg now rq sid)"
    unfolding caps_def by (intro K_guarded admin_touched preserved_same; simp)
  show ?thesis by (cases q) (simp_all add: route_defs l c f u j cp)
qed

lemma P_handle: "P d \<Longrightarrow> P (snd (fst (handle rp ag cr cfg now rq sid q (tr, d))))"
  using K_handle [of rp ag cr cfg now rq sid q] by (simp add: stays_def preserved_def)

end

section \<open>The steps of the hub\<close>

inductive hub_step :: "crypto \<Rightarrow> config \<Rightarrow> 'a hub_scheme \<Rightarrow> 'a hub_scheme \<Rightarrow> bool" for cr :: crypto and cfg :: config where
  account: "hub_step cr cfg d (account_call_db cr cfg now ac d)"
| viewed: "touched d d' \<Longrightarrow> hub_step cr cfg d d'" \<comment> \<open>a route that only reads: what its guard did\<close>
| connected: "hub_step cr cfg d (fst (agent_connect cr ws t header version ip d))"
| received: "hub_step cr cfg d (fst (agent_message rp jl t sid host len parsed d))"
| disconnected: "hub_step cr cfg d (agent_disconnect ws t sid d)"
| enrolled: "hub_step cr cfg d (fst (enroll rp jl cr cfg now rq secret token kvs version d))"
| asked: "hub_step cr cfg d (fst (rpc_begin rid sid d))"
| answered: "hub_step cr cfg d (fst (rpc_finish rp w rid sid d))"
| server_added: "hub_step cr cfg d (fst (api_add_server cr cfg now rq rnd tok name d))"
| server_edited: "hub_step cr cfg d (fst (api_edit_server cr cfg now rq sid nm notes d))"
| server_reenrolled: "hub_step cr cfg d (fst (api_reenroll cr cfg now rq tok sid d))"
| server_removed: "hub_step cr cfg d (fst (api_remove_server cr cfg now rq sid d))"
| check_added: "hub_step cr cfg d (fst (api_add_check rp brk cr cfg now rq kvs d))"
| check_edited: "hub_step cr cfg d (fst (api_edit_check rp brk cr cfg now rq cid kvs d))"
| check_removed: "hub_step cr cfg d (fst (api_remove_check cr cfg now rq cid d))"
| plan_added: "hub_step cr cfg d (fst (api_create_plan cr cfg now rq tok b d))"
| plan_edited: "hub_step cr cfg d (fst (api_update_plan cr cfg now rq pid b d))"
| plan_removed: "hub_step cr cfg d (fst (api_delete_plan cr cfg now rq pid d))"
| plan_started: "hub_step cr cfg d (fst (api_run_now cr cfg now rq pid d))"
| plan_run: "hub_step cr cfg d (snd (run_plan rp env fuel t p rid d))"
| rule_edited: "hub_step cr cfg d (fst (api_edit_rule cr cfg now rq dump kind thr for_s sev en d))"
| notify_edited: "hub_step cr cfg d (fst (api_put_notify rp cr cfg now rq kvs d))"
| notify_tested: "hub_step cr cfg d (fst (api_test_notify rp net cr cfg now rq d))"
| delivered: "hub_step cr cfg d (deliver rp net now d)"
| domains_asked: "hub_step cr cfg d (fst (api_get_domains rp ags dns cr cfg now rq refresh d))"
| domains_refreshed: "hub_step cr cfg d (refresh_all rp ags t d)"
| managed: "hub_step cr cfg d (snd (fst (handle rp ag cr cfg now rq sid q (tr, d))))"
| turned: "hub_step cr cfg d (fst (ticker_turn cfg nw t t' n d))"
| restarted: "hub_step cr cfg d (boot t (shutdown d))"
| crashed: "hub_step cr cfg d (boot t d)"

context hub_client begin

lemma P_beside:
  assumes "P d"
  shows "P (fst (agent_connect cr ws t header version ip d))" "P (agent_disconnect ws t sid d)"
    "P (fst (enroll rp jl cr cfg now rq secret token kvs version d))" "P (deliver rp net now d)" "P (flush_all d)"
    "P (fst (rpc_begin rid sid d))" "P (fst (rpc_finish rp w rid sid d))"
  by (rule P_aside [OF assms], rule aside_rules)+

lemma P_hub_step: "hub_step cr cfg d d' \<Longrightarrow> P d \<Longrightarrow> P d'"
proof (induction rule: hub_step.induct)
  case viewed
  then show ?case using P_touched by blast
qed (simp_all add: P_account P_message P_beside P_server_routes P_check_routes P_plan_routes P_run_plan P_settings_routes P_domains P_refresh P_handle
  P_turn P_boot shutdown_def)

lemma P_run: "(hub_step cr cfg)\<^sup>*\<^sup>* d d' \<Longrightarrow> P d \<Longrightarrow> P d'"
  by (induction rule: rtranclp_induct) (simp_all add: P_hub_step)

end

section \<open>Accounts and alerts over every run\<close>

lemma accounts_leave_alerts:
  "astate (fst (create_user cr now nm pw role d)) = astate d \<and> events (fst (create_user cr now nm pw role d)) = events d"
  "astate (fst (delete_user uid d)) = astate d \<and> events (fst (delete_user uid d)) = events d"
  "astate (fst (set_password cr uid pw d)) = astate d \<and> events (fst (set_password cr uid pw d)) = events d"
  "astate (reset_2fa uid d) = astate d \<and> events (reset_2fa uid d) = events d"
  "astate (prune cfg now d) = astate d \<and> events (prune cfg now d) = events d"
  "astate (audit now aun act det aip d) = astate d \<and> events (audit now aun act det aip d) = events d"
  by (auto simp: create_user_def delete_user_def set_password_def reset_2fa_def prune_def audit_def Let_def split: option.split sum.split)

lemma logins_leave_alerts:
  "astate (fst (login cr now nm pw otp ip ua raw d)) = astate d \<and> events (fst (login cr now nm pw otp ip ua raw d)) = events d"
  "astate (fst (begin_2fa cr now u oc rnd d)) = astate d \<and> events (fst (begin_2fa cr now u oc rnd d)) = events d"
  "astate (fst (confirm_2fa cr now u c d)) = astate d \<and> events (fst (confirm_2fa cr now u c d)) = events d"
  "astate (fst (elevate cr now u c d)) = astate d \<and> events (fst (elevate cr now u c d)) = events d"
  by (auto simp: login_def open_session_def fail_def audit_def begin_2fa_def confirm_2fa_def elevate_def set_totp_last_def Let_def
      split: option.split sum.split prod.split bool.split)

lemma touched_leaves_alerts: "touched d d' \<Longrightarrow> astate d' = astate d \<and> events d' = events d"
  by (auto simp: touched_def)

interpretation alerts_aside: account_contract alert_inv
  by unfold_locales (simp_all add: accounts_leave_alerts logins_leave_alerts touched_leaves_alerts)

interpretation hub_inv: hub_client "\<lambda>d. (auth_inv d \<and> has_admin d) \<and> alert_inv d"
proof unfold_locales
  fix d :: "'a hub_scheme" assume P: "(auth_inv d \<and> has_admin d) \<and> alert_inv d"
  then have a: "auth_inv d \<and> has_admin d" and m: "alert_inv d" by simp_all
  note a1 = last_admin.P_touched [OF a] last_admin.P_audit [OF a] last_admin.P_create [OF a] last_admin.P_delete [OF a] last_admin.P_password [OF a]
  note a2 = last_admin.P_reset [OF a] last_admin.P_login [OF a] last_admin.P_begin [OF a] last_admin.P_confirm [OF a] last_admin.P_prune [OF a]
  note m1 = alerts_aside.P_touched [OF m] alerts_aside.P_audit [OF m] alerts_aside.P_create [OF m] alerts_aside.P_delete [OF m] alerts_aside.P_password [OF m]
  note m2 = alerts_aside.P_reset [OF m] alerts_aside.P_login [OF m] alerts_aside.P_begin [OF m] alerts_aside.P_confirm [OF m] alerts_aside.P_prune [OF m]
  let ?P = "\<lambda>d :: 'a hub_scheme. (auth_inv d \<and> has_admin d) \<and> alert_inv d"
  show "?P d'" if "touched d d'" for d' using a1(1) [OF that] m1(1) [OF that] by (rule conjI)
  show "?P (audit now aun act det aip d)" for now aun act det aip by (rule conjI [OF a1(2) m1(2)])
  show "?P (fst (create_user cr now nm pw role d))" for cr now nm pw role by (rule conjI [OF a1(3) m1(3)])
  show "?P (fst (delete_user uid d))" for uid by (rule conjI [OF a1(4) m1(4)])
  show "?P (fst (set_password cr uid pw d))" for cr uid pw by (rule conjI [OF a1(5) m1(5)])
  show "?P (reset_2fa uid d)" for uid by (rule conjI [OF a2(1) m2(1)])
  show "?P (fst (login cr now nm pw otp ip ua raw d))" for cr now nm pw otp ip ua raw by (rule conjI [OF a2(2) m2(2)])
  show "?P (fst (begin_2fa cr now u oc rnd d))" for cr now u oc rnd by (rule conjI [OF a2(3) m2(3)])
  show "?P (fst (confirm_2fa cr now u c d))" for cr now u c by (rule conjI [OF a2(4) m2(4)])
  show "?P (prune cfg now d)" for cfg now by (rule conjI [OF a2(5) m2(5)])
  have frame: "users (step kind sid sub bad v msg t q d) = users d \<and> sessions (step kind sid sub bad v msg t q d) = sessions d" for kind sid sub bad v msg t q
    using step_rest [of kind sid sub bad v msg t q d] by (simp add: rest_of_def)
  then show "?P (step kind sid sub bad v msg t q d)" for kind sid sub bad v msg t q
    using a step_inv [OF m] by (simp add: has_admin_def)
  show "?P d'" if "aside d d'" for d' using P that by (simp add: aside_def has_admin_def)
  show "?P (fst (api_elevate cr cfg now rq c d))" for cr cfg now rq c
  proof -
    have "alert_inv (fst (api_elevate cr cfg now rq c d))"
      unfolding api_elevate_def by (rule alerts_aside.P_depends [OF m admin_touched], assumption)
        (auto simp: accounts_leave_alerts logins_leave_alerts split: prod.split sum.split dest!: arg_cong [where f = fst])
    then show ?thesis using api_elevate_inv api_elevate_admin a by blast
  qed
  show "?P (forget_server sid t d)" for sid t using a forget_server_inv [OF m] by (simp add: forget_server_def has_admin_def)
  show "?P (metrics_prune cfg now d)" for cfg now using a metrics_prune_inv [OF m] by (simp add: metrics_prune_def has_admin_def)
  show "?P (boot t d)" for t using a seed_inv [OF m] seed_open(1) [OF m] by (simp add: boot_frame boot_astate has_admin_def)
qed

text \<open>
  C3. The hub as a whole keeps its promises: whatever requests, agent messages, background turns, backup runs, restarts and crashes follow one
  another, the accounts stay well formed, an administrator exists, and the alert engine's memory names exactly the open alerts.
\<close>

theorem hub_stays_consistent:
  assumes "(hub_step cr cfg)\<^sup>*\<^sup>* d d'" and "accounts_ok (users d) (sessions d)" and "has_admin d" and "alert_ok (astate d) (events d)"
  shows "accounts_ok (users d') (sessions d') \<and> has_admin d' \<and> alert_ok (astate d') (events d')"
  using hub_inv.P_run [OF assms(1)] assms(2-4) by blast

theorem hub_stays_consistent_witness:
  "has_admin (boot 9 (fst (ticker_turn demo_cfg demo_net 5 6 1 (demo_hub\<lparr>users := users demo_fresh\<rparr>))))"
proof -
  let ?d = "demo_hub\<lparr>users := users demo_fresh\<rparr>"
  have r: "(hub_step demo_crypto demo_cfg)\<^sup>*\<^sup>* ?d (boot 9 (fst (ticker_turn demo_cfg demo_net 5 6 1 ?d)))"
    by (rule rtranclp.rtrancl_into_rtrancl [OF r_into_rtranclp]) (rule hub_step.turned, rule hub_step.crashed)
  have "accounts_ok (users ?d) (sessions ?d)" "has_admin ?d" by code_simp+
  moreover have "alert_ok (astate ?d) (events ?d)"
  proof -
    have "astate ?d = []" "events ?d = []" by code_simp+
    then show ?thesis by (simp add: alert_ok_def dict_ok_def st_open_def ev_open_def)
  qed
  ultimately show ?thesis using hub_stays_consistent [OF r] by blast
qed

end
