(* ===== verification/Legacy.thy ===== *)
theory Legacy
  imports Base64
begin

text \<open>
  The first version of the panel (\<open>legacy/v1/backend/app\<close>): what its services share. Its settings (\<open>config.py\<close>), the
  tables it works on (\<open>db.py\<close>), the key/value store (\<open>services/settings_store.py\<close>) and the helper that runs system
  commands (\<open>core/oscmd.py\<close>). The commands themselves are a parameter, a \<open>shell\<close>: what a command with its
  arguments and standard input does to the world and how it ends.
\<close>

section \<open>Errors\<close>

datatype lexc =
    AppError string \<comment> \<open>\<open>CronError\<close>, \<open>DNSError\<close>, \<open>FileError\<close>, \<open>SiteError\<close>, \<open>BackupError\<close>, \<open>MailError\<close>, \<open>AuthError\<close>, \<open>JWTError\<close>: the exception of the module at hand\<close>
  | LHttp nat string
  | RuntimeError string
  | Other exc

type_synonym 'v lres = "lexc + 'v"

definition lbind :: "'v lres \<Rightarrow> ('v \<Rightarrow> 'w lres) \<Rightarrow> 'w lres" where
  "lbind r f = (case r of Inl e \<Rightarrow> Inl e | Inr v \<Rightarrow> f v)"

section \<open>Settings\<close>

definition dotenv_line :: "string \<Rightarrow> (string \<times> string) option" where
  "dotenv_line raw =
     (let line = strip raw in
      if line = [] \<or> startswith line ''#'' \<or> CHR ''='' \<notin> set line then None
      else Some (strip (takeWhile (\<lambda>c. c \<noteq> CHR ''='') line),
                 strip_char (CHR 0x27) (strip_char (CHR 0x22) (strip (drop 1 (dropWhile (\<lambda>c. c \<noteq> CHR ''='') line))))))"

definition load_dotenv :: "string list option \<Rightarrow> (string, string) dict \<Rightarrow> (string, string) dict" where
  \<comment> \<open>the lines of the file, if there is one\<close>
  "load_dotenv file env =
     (case file of
        None \<Rightarrow> env
      | Some lns \<Rightarrow> fold (\<lambda>l e. case dotenv_line l of None \<Rightarrow> e | Some (k, v) \<Rightarrow> (case dget e k of None \<Rightarrow> dput k v e | Some _ \<Rightarrow> e)) lns env)"

definition lenv :: "(string, string) dict \<Rightarrow> string \<Rightarrow> string \<Rightarrow> string" where
  "lenv env key dflt = (case dget env (''ICSD_'' @ key) of None \<Rightarrow> dflt | Some v \<Rightarrow> v)"

definition lenv_bool :: "(string, string) dict \<Rightarrow> string \<Rightarrow> bool \<Rightarrow> bool" where
  "lenv_bool env key dflt = (lower (lenv env key (if dflt then ''True'' else ''False'')) \<in> {''1'', ''true'', ''yes'', ''on''})"

record lconfig =
  app_name :: string
  lc_host :: string
  lc_port :: int
  lc_debug :: bool
  secret_key :: string
  token_minutes :: int
  database_url :: string
  metrics_interval :: string
  default_locale :: string

definition py_int_of :: "string \<Rightarrow> int lres" where
  "py_int_of s = (case int_of_str s of None \<Rightarrow> Inl (Other (ValueError ''invalid literal for int()'')) | Some i \<Rightarrow> Inr i)"

definition lsettings :: "(string, string) dict \<Rightarrow> string \<Rightarrow> lconfig lres" where
  \<comment> \<open>\<open>rnd\<close> is the random default of the signing key; the interval is kept as its text\<close>
  "lsettings env rnd =
     lbind (py_int_of (lenv env ''PORT'' ''8088'')) (\<lambda>port.
     lbind (py_int_of (lenv env ''ACCESS_TOKEN_EXPIRE_MINUTES'' (str_int (60 * 12)))) (\<lambda>mins.
     Inr \<lparr>app_name = lenv env ''APP_NAME'' ''ICSD Panel'', lc_host = lenv env ''HOST'' ''0.0.0.0'', lc_port = port,
          lc_debug = lenv_bool env ''DEBUG'' False, secret_key = lenv env ''SECRET_KEY'' rnd, token_minutes = mins,
          database_url = lenv env ''DATABASE_URL'' ''sqlite:///./icsdpanel.db'',
          metrics_interval = lenv env ''METRICS_INTERVAL_SECONDS'' ''2.0'', default_locale = lenv env ''DEFAULT_LOCALE'' ''fa''\<rparr>))"

section \<open>Tables\<close>

record luser_row =
  lu_username :: string
  lu_password_hash :: string
  lu_role :: string
  lu_totp_secret :: "string option"
  lu_totp_enabled :: bool

record laudit_row =
  la_username :: "string option"
  la_action :: string
  la_detail :: string

record cron_row =
  cj_id :: int
  cj_user :: string
  cj_schedule :: string
  cj_command :: string
  cj_comment :: string
  cj_enabled :: bool

record zone_row =
  zn_id :: int
  zn_domain :: string
  zn_ns1 :: string
  zn_ns2 :: string
  zn_admin_email :: string
  zn_ttl :: int
  zn_serial :: int

record dns_row =
  dr_id :: int
  dr_zone_id :: int
  dr_name :: string
  dr_type :: string
  dr_content :: string
  dr_ttl :: int
  dr_priority :: "int option"

record site_row =
  st_domain :: string
  st_aliases :: string
  st_type :: string
  st_webroot :: string
  st_php :: "string option"
  st_proxy :: "string option"
  st_ssl :: bool
  st_enabled :: bool
  st_created :: int

record base_row =
  bs_name :: string
  bs_user :: string
  bs_engine :: string
  bs_created :: int

record job_row =
  jb_id :: int
  jb_name :: string
  jb_source_type :: string
  jb_source_ref :: string
  jb_dest_type :: string
  jb_dest_host :: "string option"
  jb_dest_port :: "int option"
  jb_dest_user :: "string option"
  jb_dest_password :: "string option"
  jb_dest_path :: string
  jb_cron :: string
  jb_retention :: int
  jb_enabled :: bool
  jb_status :: "string option"
  jb_created :: int

record mdomain_row =
  md_domain :: string
  md_active :: bool

record mailbox_row =
  mb_address :: string
  mb_domain :: string
  mb_password_hash :: string
  mb_quota :: int
  mb_active :: bool

record malias_row =
  ma_id :: int
  ma_source :: string
  ma_destination :: string
  ma_domain :: string

record warning_row =
  wr_kind :: string
  wr_subject :: string
  wr_message :: string
  wr_sent :: bool
  wr_at :: int

record ftp_row =
  fa_username :: string
  fa_home :: string
  fa_shell :: string
  fa_active :: bool
  fa_created :: int

record app_row =
  ap_id :: int
  ap_name :: string
  ap_domain :: string
  ap_repo :: string
  ap_branch :: string
  ap_type :: string
  ap_entry :: string
  ap_port :: int
  ap_dir :: string
  ap_venv :: string
  ap_service :: string
  ap_secret :: "string option"
  ap_status :: string
  ap_created :: int

record ldb =
  lusers :: "luser_row list"
  laudit_log :: "laudit_row list"
  lsettings_tab :: "(string, string option) dict"
  cron_jobs :: "cron_row list"
  cron_seq :: int \<comment> \<open>\<open>sqlite_sequence\<close>: the last id ever given, since the keys are \<open>AUTOINCREMENT\<close>\<close>
  dns_zones :: "zone_row list"
  zone_seq :: int
  dns_records :: "dns_row list"
  record_seq :: int
  sites :: "site_row list"
  bases :: "base_row list"
  backup_jobs :: "job_row list"
  job_seq :: int
  mail_domains :: "mdomain_row list"
  mailboxes :: "mailbox_row list"
  mail_aliases :: "malias_row list"
  alias_seq :: int
  warnings :: "warning_row list" \<comment> \<open>the table \<open>alert_log\<close>\<close>
  ftp_accounts :: "ftp_row list"
  pyapps :: "app_row list"
  app_seq :: int

definition ldb_path :: "lconfig \<Rightarrow> string" where
  "ldb_path cfg = (if startswith (database_url cfg) ''sqlite:///'' then drop 10 (database_url cfg) else ''icsdpanel.db'')"

definition laudit :: "string option \<Rightarrow> string \<Rightarrow> string \<Rightarrow> ldb \<Rightarrow> ldb" where
  "laudit un action detail d = d\<lparr>laudit_log := laudit_log d @ [\<lparr>la_username = un, la_action = action, la_detail = detail\<rparr>]\<rparr>"

section \<open>Key/value settings\<close>

definition set_get :: "string \<Rightarrow> string option \<Rightarrow> ldb \<Rightarrow> string option" where
  "set_get key dflt d = (case dget (lsettings_tab d) key of Some v \<Rightarrow> v | None \<Rightarrow> dflt)"

definition set_put :: "string \<Rightarrow> string option \<Rightarrow> ldb \<Rightarrow> ldb" where
  "set_put key val d = d\<lparr>lsettings_tab := dput key val (lsettings_tab d)\<rparr>"

definition set_get_bool :: "string \<Rightarrow> bool \<Rightarrow> ldb \<Rightarrow> bool" where
  "set_get_bool key dflt d = (case set_get key None d of None \<Rightarrow> dflt | Some v \<Rightarrow> lower v \<in> {''1'', ''true'', ''yes'', ''on''})"

definition set_get_int :: "string \<Rightarrow> int \<Rightarrow> ldb \<Rightarrow> int" where
  "set_get_int key dflt d = (case set_get key None d of None \<Rightarrow> dflt | Some v \<Rightarrow> (case int_of_str v of Some i \<Rightarrow> i | None \<Rightarrow> dflt))"

fun sql_like :: "string \<Rightarrow> string \<Rightarrow> bool" where
  \<comment> \<open>SQLite's \<open>LIKE\<close>: ASCII letters in either case, \<open>_\<close> any character, \<open>%\<close> any text\<close>
  "sql_like [] s = (s = [])"
| "sql_like (p # ps) [] = (p = CHR ''%'' \<and> sql_like ps [])"
| "sql_like (p # ps) (c # s) =
     (if p = CHR ''%'' then sql_like ps (c # s) \<or> sql_like (p # ps) s
      else (p = CHR ''_'' \<or> p = c \<or> (code p < 128 \<and> code c < 128 \<and> lower_char p = lower_char c)) \<and> sql_like ps s)"

definition set_get_many :: "string \<Rightarrow> ldb \<Rightarrow> (string, string option) dict" where
  "set_get_many prefix d = filter (\<lambda>kv. sql_like (prefix @ ''%'') (fst kv)) (lsettings_tab d)"

definition set_text :: "(json \<Rightarrow> string) \<Rightarrow> (json \<Rightarrow> string) \<Rightarrow> json \<Rightarrow> string option" where
  \<comment> \<open>\<open>jd\<close> is \<open>json.dumps\<close>, \<open>rp\<close> the text of a number that is no integer\<close>
  "set_text jd rp v = (case v of JObj _ \<Rightarrow> Some (jd v) | JArr _ \<Rightarrow> Some (jd v) | JNull \<Rightarrow> None | _ \<Rightarrow> Some (py_str rp v))"

definition set_many :: "(json \<Rightarrow> string) \<Rightarrow> (json \<Rightarrow> string) \<Rightarrow> (string, json) dict \<Rightarrow> ldb \<Rightarrow> ldb" where
  "set_many jd rp items d = fold (\<lambda>(k, v). set_put k (set_text jd rp v)) items d"

section \<open>System commands\<close>

datatype proc_end = Ended int string string | NotFound | TooLong

type_synonym 'w shell = "string list \<Rightarrow> string \<Rightarrow> 'w \<Rightarrow> 'w \<times> proc_end"

record cmd_result =
  cr_ok :: bool
  cr_code :: int
  cr_stdout :: string
  cr_stderr :: string

record host_env =
  hi_root :: "bool option" \<comment> \<open>\<open>geteuid() == 0\<close>, where there is such a function\<close>
  hi_path :: "string list" \<comment> \<open>the commands that \<open>which\<close> finds\<close>

definition has :: "host_env \<Rightarrow> string \<Rightarrow> bool" where
  "has h b = (b \<in> set (hi_path h))"

definition run_cmd :: "'w shell \<Rightarrow> string list \<Rightarrow> int \<Rightarrow> bool \<Rightarrow> 'w \<Rightarrow> 'w \<times> cmd_result lres" where
  \<comment> \<open>\<open>run\<close>\<close>
  "run_cmd sh args tmo chk w =
     (if args = [] then (w, Inl (Other (ValueError ''empty command'')))
      else
        let (w', p) = sh args [] w;
            res = (case p of
                     Ended c so se \<Rightarrow> \<lparr>cr_ok = (c = 0), cr_code = c, cr_stdout = strip so, cr_stderr = strip se\<rparr>
                   | NotFound \<Rightarrow> \<lparr>cr_ok = False, cr_code = 127, cr_stdout = [], cr_stderr = ''command not found: '' @ hd args\<rparr>
                   | TooLong \<Rightarrow> \<lparr>cr_ok = False, cr_code = 124, cr_stdout = [], cr_stderr = ''timeout after '' @ str_int tmo @ ''s''\<rparr>)
        in (w', if chk \<and> \<not> cr_ok res
                then Inl (RuntimeError (''command failed ('' @ str_int (cr_code res) @ ''): '' @ (if cr_stderr res = [] then cr_stdout res else cr_stderr res)))
                else Inr res))"

definition sudo_prefix :: "host_env \<Rightarrow> string list" where
  "sudo_prefix h = (case hi_root h of Some r \<Rightarrow> if \<not> r \<and> has h ''sudo'' then [''sudo'', ''-n''] else [] | None \<Rightarrow> [])"

definition run_priv :: "'w shell \<Rightarrow> host_env \<Rightarrow> string list \<Rightarrow> int \<Rightarrow> bool \<Rightarrow> 'w \<Rightarrow> 'w \<times> cmd_result lres" where
  "run_priv sh h args tmo chk w =
     (if args = [] then (w, Inl (Other (ValueError ''empty command''))) else run_cmd sh (sudo_prefix h @ args) tmo chk w)"

definition nginx_test :: "'w shell \<Rightarrow> 'w \<Rightarrow> 'w \<times> cmd_result lres" where
  "nginx_test sh = run_cmd sh [''nginx'', ''-t''] 30 False"

definition nginx_reload :: "'w shell \<Rightarrow> host_env \<Rightarrow> 'w \<Rightarrow> 'w \<times> cmd_result lres" where
  "nginx_reload sh h =
     (if has h ''systemctl'' then run_cmd sh [''systemctl'', ''reload'', ''nginx''] 30 False else run_cmd sh [''nginx'', ''-s'', ''reload''] 30 False)"

definition systemctl :: "'w shell \<Rightarrow> string \<Rightarrow> string \<Rightarrow> 'w \<Rightarrow> 'w \<times> cmd_result lres" where
  "systemctl sh action service = run_cmd sh [''systemctl'', action, service] 30 False"

definition feed :: "'w shell \<Rightarrow> host_env \<Rightarrow> string list \<Rightarrow> string \<Rightarrow> 'w \<Rightarrow> 'w \<times> (int \<times> string) lres" where
  \<comment> \<open>\<open>subprocess.run(sudo_prefix() + args, input=\<dots>)\<close>, whose exceptions nobody catches\<close>
  "feed sh h args inp w =
     (let (w', p) = sh (sudo_prefix h @ args) inp w
      in (w', case p of Ended c so se \<Rightarrow> Inr (c, se) | NotFound \<Rightarrow> Inl (RuntimeError ''FileNotFoundError'') | TooLong \<Rightarrow> Inl (RuntimeError ''TimeoutExpired'')))"

end
