(* ===== verification/Cron.thy ===== *)
theory Cron
  imports Legacy
begin

text \<open>
  Cron jobs of the first panel (\<open>legacy/v1/backend/app/services/cron.py\<close>): the jobs are kept in a table, and a marked block of a user's
  crontab is written anew from that table after every change. The state is the database and the world of the shell.
\<close>

section \<open>Steps that may fail\<close>

type_synonym ('s, 'v) lio = "'s \<Rightarrow> 's \<times> 'v lres"

definition lseq :: "('s, 'v) lio \<Rightarrow> ('v \<Rightarrow> ('s, 'w) lio) \<Rightarrow> ('s, 'w) lio" where
  "lseq m k s = (case m s of (s', Inl e) \<Rightarrow> (s', Inl e) | (s', Inr v) \<Rightarrow> k v s')"

definition lret :: "'v lres \<Rightarrow> ('s, 'v) lio" where
  "lret r s = (s, r)"

definition on_db :: "(ldb \<Rightarrow> ldb) \<Rightarrow> (ldb \<times> 'w, unit) lio" where
  "on_db f s = ((f (fst s), snd s), Inr ())"

definition on_world :: "('w \<Rightarrow> 'w \<times> 'v lres) \<Rightarrow> (ldb \<times> 'w, 'v) lio" where
  "on_world f s = (let (w, r) = f (snd s) in ((fst s, w), r))"

section \<open>Lines\<close>

definition line_break :: "char \<Rightarrow> bool" where
  \<comment> \<open>where \<open>str.splitlines\<close> splits\<close>
  "line_break c = (let n = code c in 10 \<le> n \<and> n \<le> 13 \<or> 28 \<le> n \<and> n \<le> 30 \<or> n = 133)"

abbreviation NL :: char where "NL \<equiv> CHR 0x0A"
abbreviation CR :: char where "CR \<equiv> CHR 0x0D"

fun split_lines :: "string \<Rightarrow> string \<Rightarrow> string list" where
  \<comment> \<open>the line read so far, reversed, and the rest\<close>
  "split_lines cur [] = (if cur = [] then [] else [rev cur])"
| "split_lines cur (c # cs) =
     (if line_break c then
        rev cur # (case cs of d # ds \<Rightarrow> if c = CR \<and> d = NL then split_lines [] ds else split_lines [] cs | [] \<Rightarrow> [])
      else split_lines (c # cur) cs)"

definition splitlines :: "string \<Rightarrow> string list" where
  "splitlines s = split_lines [] s"

section \<open>Checks\<close>

definition BEGIN_MARK :: string where
  "BEGIN_MARK = ''# >>> ICSD Panel managed (do not edit) >>>''"

definition END_MARK :: string where
  "END_MARK = ''# <<< ICSD Panel managed <<<''"

definition lower_ascii :: "char \<Rightarrow> bool" where
  "lower_ascii c = (97 \<le> code c \<and> code c \<le> 122)"

definition alpha_ascii :: "char \<Rightarrow> bool" where
  "alpha_ascii c = (65 \<le> code c \<and> code c \<le> 90 \<or> lower_ascii c)"

definition user_name_ok :: "string \<Rightarrow> bool" where
  \<comment> \<open>\<open>^[a-z_][a-z0-9_-]{0,31}$\<close> on a text without surrounding blanks\<close>
  "user_name_ok u =
     (u \<noteq> [] \<and> (lower_ascii (hd u) \<or> hd u = CHR ''_'') \<and> length u \<le> 32
      \<and> list_all (\<lambda>c. lower_ascii c \<or> ascii_digit c \<or> c \<in> {CHR ''_'', CHR ''-''}) (tl u))"

definition validate_user :: "'w shell \<Rightarrow> string \<Rightarrow> (ldb \<times> 'w, string) lio" where
  "validate_user sh u0 =
     (let u = lower (strip u0) in
      if \<not> user_name_ok u then lret (Inl (AppError ''invalid user''))
      else lseq (on_world (run_cmd sh [''id'', u] 30 False)) (\<lambda>r.
             lret (if cr_ok r then Inr u else Inl (AppError (''system user not found: '' @ u)))))"

fun field_rest :: "string \<Rightarrow> bool" where
  \<comment> \<open>\<open>([-,/][0-9a-zA-Z]{1,2})*\<close> up to the end of the field\<close>
  "field_rest [] = True"
| "field_rest [c] = False"
| "field_rest [c, a] = (c \<in> set ''-,/'' \<and> (ascii_digit a \<or> alpha_ascii a))"
| "field_rest (c # a # b # s) =
     (c \<in> set ''-,/'' \<and> (ascii_digit a \<or> alpha_ascii a)
      \<and> (field_rest (b # s) \<or> (ascii_digit b \<or> alpha_ascii b) \<and> field_rest s))"

definition field_ok :: "string \<Rightarrow> bool" where
  "field_ok f =
     (f \<noteq> [] \<and> (hd f = CHR ''*'' \<or> ascii_digit (hd f)) \<and> field_rest (tl f)
      \<or> 2 \<le> length f \<and> list_all ascii_digit (take 2 f) \<and> field_rest (drop 2 f)
      \<or> 3 \<le> length f \<and> list_all alpha_ascii (take 3 f) \<and> field_rest (drop 3 f))"

fun words_of :: "string \<Rightarrow> string \<Rightarrow> string list" where
  \<comment> \<open>the parts between blanks; the word read so far, reversed, and the rest\<close>
  "words_of cur [] = (if cur = [] then [] else [rev cur])"
| "words_of cur (c # cs) = (if is_space c then (if cur = [] then words_of [] cs else rev cur # words_of [] cs) else words_of (c # cur) cs)"

definition cron_ok :: "string \<Rightarrow> bool" where
  \<comment> \<open>\<open>_CRON_RE\<close>: five fields with blanks between and around them; a line feed is a blank, too\<close>
  "cron_ok expr = (length (words_of [] expr) = 5 \<and> list_all field_ok (words_of [] expr))"

definition validate_schedule :: "string \<Rightarrow> string lres" where
  "validate_schedule expr0 =
     (let expr = strip expr0 in
      if expr \<in> {''@hourly'', ''@daily'', ''@weekly'', ''@monthly'', ''@yearly'', ''@reboot''} then Inr expr
      else if \<not> cron_ok expr then Inl (AppError ''invalid cron expression'') else Inr expr)"

section \<open>The crontab\<close>

definition read_raw :: "'w shell \<Rightarrow> host_env \<Rightarrow> string \<Rightarrow> (ldb \<times> 'w, string) lio" where
  "read_raw sh h user =
     lseq (on_world (run_priv sh h [''crontab'', ''-l'', ''-u'', user] 60 False)) (\<lambda>r. lret (Inr (if cr_ok r then cr_stdout r else [])))"

fun own_lines :: "bool \<Rightarrow> string list \<Rightarrow> string list" where
  \<comment> \<open>the loop of \<open>_strip_managed\<close>, with its \<open>skipping\<close>\<close>
  "own_lines sk [] = []"
| "own_lines sk (l # ls) =
     (if strip l = BEGIN_MARK then own_lines True ls
      else if strip l = END_MARK then own_lines False ls
      else if sk then own_lines sk ls else l # own_lines sk ls)"

definition strip_managed :: "string \<Rightarrow> string" where
  "strip_managed raw =
     (if \<not> contains raw BEGIN_MARK then rstrip_char NL raw else rstrip_char NL (join_with [NL] (own_lines False (splitlines raw))))"

definition job_line :: "cron_row \<Rightarrow> string" where
  "job_line j =
     (if \<not> cj_enabled j
      then ''# (disabled) '' @ cj_schedule j @ '' '' @ cj_command j @ ''  # icsd-id:'' @ str_int (cj_id j)
      else cj_schedule j @ '' '' @ cj_command j @ ''  # icsd-id:'' @ str_int (cj_id j) @ (if cj_comment j = [] then [] else '' '' @ cj_comment j))"

definition list_jobs :: "ldb \<Rightarrow> cron_row list" where
  "list_jobs d = sort_key cj_id (cron_jobs d)"

definition render_managed :: "ldb \<Rightarrow> string" where
  "render_managed d = join_with [NL] (BEGIN_MARK # map job_line (list_jobs d) @ [END_MARK])"

definition crontab_text :: "string \<Rightarrow> ldb \<Rightarrow> string" where
  "crontab_text own d = (if own = [] then [] else own @ [NL, NL]) @ render_managed d @ [NL]"

definition apply_crontab :: "'w shell \<Rightarrow> host_env \<Rightarrow> string \<Rightarrow> (ldb \<times> 'w, unit) lio" where
  "apply_crontab sh h user =
     lseq (read_raw sh h user) (\<lambda>raw s.
     lseq (on_world (feed sh h [''crontab'', ''-u'', user, ''-''] (crontab_text (strip_managed raw) (fst s)))) (\<lambda>(rc, err).
     lret (if rc \<noteq> 0 then Inl (AppError (''crontab write failed: '' @ take 200 err)) else Inr ())) s)"

section \<open>Jobs\<close>

definition get_job :: "int \<Rightarrow> ldb \<Rightarrow> cron_row option" where
  "get_job jid d = select_one (\<lambda>j. cj_id j = jid) (cron_jobs d)"

definition create_job ::
  "'w shell \<Rightarrow> host_env \<Rightarrow> string \<Rightarrow> string \<Rightarrow> string \<Rightarrow> string \<Rightarrow> bool \<Rightarrow> (ldb \<times> 'w, cron_row) lio" where
  "create_job sh h user0 schedule0 command0 comment app =
     lseq (validate_user sh user0) (\<lambda>user.
     lseq (lret (validate_schedule schedule0)) (\<lambda>schedule.
     let command = strip command0 in
     if command = [] then lret (Inl (AppError ''empty command''))
     else if NL \<in> set command \<or> CR \<in> set command then lret (Inl (AppError ''command must be single line''))
     else (\<lambda>s.
       let j = \<lparr>cj_id = cron_seq (fst s) + 1, cj_user = user, cj_schedule = schedule, cj_command = command, cj_comment = comment, cj_enabled = True\<rparr> in
       lseq (on_db (\<lambda>d. d\<lparr>cron_jobs := cron_jobs d @ [j], cron_seq := cj_id j\<rparr>)) (\<lambda>_.
       lseq (if app then apply_crontab sh h user else lret (Inr ())) (\<lambda>_.
       lseq (on_db (laudit None ''cron.create'' (user @ '': '' @ schedule @ '' '' @ command))) (\<lambda>_. lret (Inr j)))) s)))"

definition set_enabled :: "'w shell \<Rightarrow> host_env \<Rightarrow> int \<Rightarrow> bool \<Rightarrow> (ldb \<times> 'w, unit) lio" where
  "set_enabled sh h jid en s =
     (case get_job jid (fst s) of
        None \<Rightarrow> (s, Inl (AppError ''job not found''))
      | Some job \<Rightarrow>
          lseq (on_db (\<lambda>d. d\<lparr>cron_jobs := update_where (\<lambda>j. cj_id j = jid) (\<lambda>j. j\<lparr>cj_enabled := en\<rparr>) (cron_jobs d)\<rparr>)) (\<lambda>_.
          lseq (apply_crontab sh h (cj_user job)) (\<lambda>_.
          on_db (laudit None ''cron.enabled'' (str_int jid @ ''='' @ (if en then ''True'' else ''False''))))) s)"

definition delete_job :: "'w shell \<Rightarrow> host_env \<Rightarrow> int \<Rightarrow> (ldb \<times> 'w, unit) lio" where
  "delete_job sh h jid s =
     (case get_job jid (fst s) of
        None \<Rightarrow> (s, Inl (AppError ''job not found''))
      | Some job \<Rightarrow>
          lseq (on_db (\<lambda>d. d\<lparr>cron_jobs := delete_where (\<lambda>j. cj_id j = jid) (cron_jobs d)\<rparr>)) (\<lambda>_.
          lseq (apply_crontab sh h (cj_user job)) (\<lambda>_.
          on_db (laudit None ''cron.delete'' (str_int jid)))) s)"

fun users_found :: "'w shell \<Rightarrow> string list \<Rightarrow> 'w \<Rightarrow> 'w \<times> string list lres" where
  "users_found sh [] w = (w, Inr [])"
| "users_found sh (u # us) w =
     (case run_cmd sh [''id'', u] 30 False w of
        (w', Inl e) \<Rightarrow> (w', Inl e)
      | (w', Inr r) \<Rightarrow> (case users_found sh us w' of (w2, Inl e) \<Rightarrow> (w2, Inl e) | (w2, Inr fs) \<Rightarrow> (w2, Inr (if cr_ok r then u # fs else fs))))"

definition system_users :: "'w shell \<Rightarrow> 'w \<Rightarrow> 'w \<times> string list lres" where
  "system_users sh w =
     (let (w', r) = users_found sh [''root'', ''www-data'', ''nginx''] w
      in (w', lbind r (\<lambda>found. Inr (if found = [] then [''root''] else found))))"

section \<open>Reading back what was written\<close>

lemma split_lines_run: "list_all (\<lambda>c. \<not> line_break c) s \<Longrightarrow> split_lines cur (s @ t) = split_lines (rev s @ cur) t"
  by (induction s arbitrary: cur) auto

lemma line_break_NL [simp]: "line_break NL" "\<not> is_space CHR ''#''"
  by (simp_all add: line_break_def is_space_def code_def)

lemma split_lines_nl: "split_lines cur (a @ NL # b) = split_lines cur (a @ [NL]) @ split_lines [] b"
proof (induction cur a rule: split_lines.induct)
  case (1 cur)
  then show ?case by (cases b) auto
next
  case (2 cur c cs)
  then show ?case by (cases cs; cases b) auto
qed

lemma splitlines_nl: "splitlines (a @ NL # b) = splitlines (a @ [NL]) @ splitlines b"
  unfolding splitlines_def by (rule split_lines_nl)

lemma splitlines_line: "list_all (\<lambda>c. \<not> line_break c) s \<Longrightarrow> splitlines (s @ [NL]) = [s]"
  by (simp add: splitlines_def split_lines_run)

lemma splitlines_last: "list_all (\<lambda>c. \<not> line_break c) s \<Longrightarrow> s \<noteq> [] \<Longrightarrow> splitlines s = [s]"
  using split_lines_run [of s "[]" "[]"] by (simp add: splitlines_def)

lemma splitlines_join:
  "list_all (\<lambda>l. l \<noteq> [] \<and> list_all (\<lambda>c. \<not> line_break c) l) ls \<Longrightarrow> splitlines (join_with [NL] ls) = ls"
proof (induction ls rule: induct_list012)
  case (3 x y zs)
  then show ?case using splitlines_nl [of x "join_with [NL] (y # zs)"] splitlines_line [of x] by simp
qed (simp_all add: splitlines_last, simp add: splitlines_def)

definition only_nl :: "string \<Rightarrow> bool" where
  "only_nl s = list_all (\<lambda>c. line_break c \<longrightarrow> c = NL) s"

lemma split_on_first: "d \<notin> set x \<Longrightarrow> split_on d (x @ d # r) = x # split_on d r"
  by (induction x) auto

lemma splitlines_only_nl: "only_nl s \<Longrightarrow> splitlines (s @ [NL]) = split_on NL s"
proof (induction "length s" arbitrary: s rule: less_induct)
  case less
  show ?case
  proof (cases "NL \<in> set s")
    case False
    have "list_all (\<lambda>c. \<not> line_break c) s" using less.prems False by (auto simp: only_nl_def list_all_iff)
    moreover have "split_on NL s = [s]" using False by (induction s) auto
    ultimately show ?thesis by (simp add: splitlines_line)
  next
    case True
    then obtain l r where r: "s = l @ NL # r" "NL \<notin> set l" by (meson split_list_first)
    have l: "list_all (\<lambda>c. \<not> line_break c) l" using less.prems r by (auto simp: only_nl_def list_all_iff)
    have "length r < length s" "only_nl r" using less.prems r by (simp_all add: only_nl_def)
    then have "splitlines (r @ [NL]) = split_on NL r" using less.hyps by blast
    moreover have "splitlines (s @ [NL]) = splitlines (l @ [NL]) @ splitlines (r @ [NL])"
      using splitlines_nl [of l "r @ [NL]"] r(1) by simp
    ultimately show ?thesis using split_on_first [OF r(2)] r(1) splitlines_line [OF l] by simp
  qed
qed

definition unmarked :: "string list \<Rightarrow> bool" where
  "unmarked ls = list_all (\<lambda>l. strip l \<noteq> BEGIN_MARK \<and> strip l \<noteq> END_MARK) ls"

lemma own_lines_keep: "unmarked ls \<Longrightarrow> own_lines False (ls @ rest) = ls @ own_lines False rest"
  by (induction ls) (auto simp: unmarked_def)

lemma own_lines_skip: "unmarked ls \<Longrightarrow> own_lines True (ls @ rest) = own_lines True rest"
  by (induction ls) (auto simp: unmarked_def)

lemma marks_strip [simp]: "strip BEGIN_MARK = BEGIN_MARK" "strip END_MARK = END_MARK" "BEGIN_MARK \<noteq> END_MARK"
  by (simp_all add: BEGIN_MARK_def END_MARK_def strip_def rstrip_by_def is_space_def code_def)

lemma own_lines_block: "unmarked js \<Longrightarrow> own_lines False (BEGIN_MARK # js @ [END_MARK]) = []"
  using own_lines_skip [of js "[END_MARK]"] by simp

lemma rstrip_by_snoc [simp]: "rstrip_by p (s @ [c]) = (if p c then rstrip_by p s else s @ [c])"
  by (simp add: rstrip_by_def)

lemma lstrip_append: "dropWhile p (a @ b) = (if list_all p a then dropWhile p b else dropWhile p a @ b)"
  by (induction a) auto

definition lstrip :: "string \<Rightarrow> string" where
  "lstrip s = dropWhile is_space s"

lemma render_managed_ends:
  obtains m where "render_managed d = CHR ''#'' # m" "\<And>s. rstrip_by is_space (s @ render_managed d @ [NL]) = s @ render_managed d"
proof -
  have "\<exists>x. join_with [NL] (l # ls @ [END_MARK]) = l @ x @ END_MARK" for l ls
  proof (induction ls arbitrary: l)
    case (Cons y ls)
    then obtain x where "join_with [NL] (y # ls @ [END_MARK]) = y @ x @ END_MARK" by blast
    then show ?case by (intro exI [of _ "NL # y @ x"]) simp
  next
    case Nil
    show ?case by (intro exI [of _ "[NL]"]) simp
  qed
  then obtain x where x: "render_managed d = BEGIN_MARK @ x @ END_MARK" unfolding render_managed_def by blast
  have e: "END_MARK = butlast END_MARK @ [CHR ''<'']" and sp: "is_space NL" "\<not> is_space CHR ''<''"
    by (simp_all add: END_MARK_def is_space_def code_def)
  have r: "rstrip_by is_space (z @ END_MARK @ [NL]) = z @ END_MARK" for z
  proof -
    have "rstrip_by is_space ((z @ END_MARK) @ [NL]) = rstrip_by is_space (z @ END_MARK)" using sp by (simp only: rstrip_by_snoc if_True)
    also have "\<dots> = rstrip_by is_space ((z @ butlast END_MARK) @ [CHR ''<''])" by (simp add: END_MARK_def)
    also have "\<dots> = z @ END_MARK" using sp by (simp only: rstrip_by_snoc if_False) (simp add: END_MARK_def)
    finally show ?thesis by simp
  qed
  have "rstrip_by is_space (s @ render_managed d @ [NL]) = s @ render_managed d" for s
    using r [of "s @ BEGIN_MARK @ x"] by (simp add: x)
  moreover have "render_managed d = CHR ''#'' # tl BEGIN_MARK @ x @ END_MARK" by (simp add: x BEGIN_MARK_def)
  ultimately show thesis using that by blast
qed

lemma read_back:
  assumes "lstrip own = own' "
  shows "strip (crontab_text own d) = (if own' = [] then [] else own' @ [NL, NL]) @ render_managed d"
proof -
  obtain m where m: "render_managed d = CHR ''#'' # m" and r: "\<And>s. rstrip_by is_space (s @ render_managed d @ [NL]) = s @ render_managed d"
    by (rule render_managed_ends) blast
  have h: "\<not> is_space CHR ''#''" by (simp add: is_space_def code_def)
  have sp: "is_space NL" by (simp add: is_space_def code_def)
  have "dropWhile is_space (crontab_text own d) = (if own' = [] then [] else own' @ [NL, NL]) @ render_managed d @ [NL]"
  proof (cases "list_all is_space own")
    case True
    then have "own' = []" using assms by (auto simp: lstrip_def list_all_iff dropWhile_eq_Nil_conv)
    then show ?thesis using True h sp by (simp add: crontab_text_def lstrip_append m)
  next
    case False
    then have "own' \<noteq> []" "own \<noteq> []" using assms by (auto simp: lstrip_def list_all_iff dropWhile_eq_Nil_conv)
    then show ?thesis using False assms by (simp add: crontab_text_def lstrip_append lstrip_def)
  qed
  then show ?thesis using r [of "if own' = [] then [] else own' @ [NL, NL]"] by (simp add: strip_def)
qed

definition job_ok :: "cron_row \<Rightarrow> bool" where
  \<comment> \<open>what keeps a job on a line of its own\<close>
  "job_ok j = (list_all (\<lambda>c. \<not> line_break c) (cj_schedule j @ cj_command j @ cj_comment j)
     \<and> cj_schedule j \<noteq> [] \<and> hd (cj_schedule j) \<noteq> CHR ''#'' \<and> \<not> is_space (hd (cj_schedule j)))"

lemma digits10_plain: "0 \<le> n \<Longrightarrow> list_all (\<lambda>c. \<not> line_break c) (digits10 n)"
  using digits10_ascii [of n] by (auto simp: list_all_iff line_break_def ascii_digit_def)

lemma str_int_plain: "list_all (\<lambda>c. \<not> line_break c) (str_int n)"
  using digits10_plain [of n] digits10_plain [of "- n"] by (simp add: str_int_def line_break_def code_def)

lemma strip_hd: "s \<noteq> [] \<Longrightarrow> \<not> is_space (hd s) \<Longrightarrow> strip s \<noteq> [] \<and> hd (strip s) = hd s"
proof (cases s)
  case (Cons c t)
  assume "\<not> is_space (hd s)"
  then have "strip s = rstrip_by is_space (c # t)" using Cons by (simp add: strip_def)
  moreover have "\<exists>r. rstrip_by is_space (c # t) = c # r"
    using \<open>\<not> is_space (hd s)\<close> Cons by (simp add: rstrip_by_def lstrip_append) (metis rev_rev_ident)
  ultimately show ?thesis using Cons by auto
qed simp

lemma str_int_last: "\<exists>t c. str_int i = t @ [c] \<and> \<not> is_space c"
proof -
  have "\<exists>t c. digits10 n = t @ [c] \<and> \<not> is_space c" if "0 \<le> n" for n
  proof -
    have d: "list_all ascii_digit (digits10 n)" using that by (rule digits10_ascii)
    have "digits10 n \<noteq> []" by (simp add: digits10.simps [of n])
    then obtain t c where t: "digits10 n = t @ [c]" by (metis rev_exhaust)
    then have "ascii_digit c" using d by simp
    then have "\<not> is_space c" by (auto simp: ascii_digit_def is_space_def Let_def)
    with t show ?thesis by blast
  qed
  from this [of i] this [of "- i"] show ?thesis by (auto simp: str_int_def)
qed

lemma job_line_ok:
  assumes "job_ok j"
  shows "job_line j \<noteq> []" "list_all (\<lambda>c. \<not> line_break c) (job_line j)" "strip (job_line j) \<notin> {BEGIN_MARK, END_MARK}"
proof -
  show "job_line j \<noteq> []" by (simp add: job_line_def)
  have "list_all (\<lambda>c. \<not> line_break c) ''# (disabled) ''" "list_all (\<lambda>c. \<not> line_break c) ''  # icsd-id:''" "\<not> line_break CHR '' ''"
    by (simp_all add: line_break_def code_def)
  then show "list_all (\<lambda>c. \<not> line_break c) (job_line j)" using assms str_int_plain by (simp add: job_ok_def job_line_def)
  show "strip (job_line j) \<notin> {BEGIN_MARK, END_MARK}"
  proof (cases "cj_enabled j")
    case True
    then have "job_line j \<noteq> []" "hd (job_line j) = hd (cj_schedule j)" using assms by (simp_all add: job_line_def job_ok_def)
    then have "hd (strip (job_line j)) \<noteq> CHR ''#''" using strip_hd [of "job_line j"] assms by (simp add: job_ok_def)
    then show ?thesis by (auto simp: BEGIN_MARK_def END_MARK_def)
  next
    case False
    obtain t c where t: "str_int (cj_id j) = t @ [c]" "\<not> is_space c" using str_int_last by blast
    let ?x = "''# (disabled) '' @ cj_schedule j @ '' '' @ cj_command j @ ''  # icsd-id:'' @ t"
    have "job_line j = ?x @ [c]" using False t by (simp add: job_line_def)
    moreover have "dropWhile is_space (?x @ [c]) = ?x @ [c]" by (simp add: is_space_def code_def)
    ultimately have "strip (job_line j) = ?x @ [c]" using t(2) unfolding strip_def by (simp only: rstrip_by_snoc if_False)
    then show ?thesis by (simp add: BEGIN_MARK_def END_MARK_def)
  qed
qed

lemma strip_managed_block:
  assumes "list_all job_ok (cron_jobs d)" and "own = [] \<or> only_nl own \<and> unmarked (split_on NL own)"
  shows "strip_managed ((if own = [] then [] else own @ [NL, NL]) @ render_managed d) = rstrip_char NL own"
proof -
  let ?js = "map job_line (list_jobs d)"
  let ?raw = "(if own = [] then [] else own @ [NL, NL]) @ render_managed d"
  have ok: "list_all job_ok (list_jobs d)" using assms(1) by (simp add: list_jobs_def list_all_iff)
  have js: "list_all (\<lambda>l. l \<noteq> [] \<and> list_all (\<lambda>c. \<not> line_break c) l) ?js" "unmarked ?js"
    using ok job_line_ok by (auto simp: unmarked_def list_all_iff)
  have marks: "list_all (\<lambda>l. l \<noteq> [] \<and> list_all (\<lambda>c. \<not> line_break c) l) [BEGIN_MARK, END_MARK]"
    by (simp add: BEGIN_MARK_def END_MARK_def line_break_def code_def)
  have block: "splitlines (render_managed d) = BEGIN_MARK # ?js @ [END_MARK]"
    unfolding render_managed_def by (rule splitlines_join) (use js(1) marks in simp)
  have "render_managed d = BEGIN_MARK @ drop (length BEGIN_MARK) (render_managed d)"
    unfolding render_managed_def by (cases "?js @ [END_MARK]") simp_all
  then have c: "contains ?raw BEGIN_MARK" unfolding contains_iff by (metis append.assoc)
  have "rstrip_char NL (join_with [NL] (own_lines False (splitlines ?raw))) = rstrip_char NL own"
  proof (cases "own = []")
    case True
    then show ?thesis using block own_lines_block [OF js(2)] by (simp add: rstrip_char_def rstrip_by_def)
  next
    case False
    then have own: "only_nl own" "unmarked (split_on NL own)" using assms(2) by auto
    have "splitlines (own @ NL # NL # render_managed d) = splitlines (own @ [NL]) @ splitlines (NL # render_managed d)" by (rule splitlines_nl)
    also have "splitlines (NL # render_managed d) = [] # splitlines (render_managed d)" using splitlines_nl [of "[]" "render_managed d"] by (simp add: splitlines_def)
    finally have "splitlines ?raw = (split_on NL own @ [[]]) @ BEGIN_MARK # ?js @ [END_MARK]" using False splitlines_only_nl [OF own(1)] block by simp
    moreover have "unmarked (split_on NL own @ [[]])" using own(2) by (simp add: unmarked_def strip_def rstrip_by_def BEGIN_MARK_def END_MARK_def)
    ultimately have "own_lines False (splitlines ?raw) = split_on NL own @ [[]]" using own_lines_keep own_lines_block [OF js(2)] by (simp only: append_Nil2)
    moreover have "join_with [NL] (ls @ [[]]) = join_with [NL] ls @ [NL]" if "ls \<noteq> []" for ls
      using that by (induction ls rule: induct_list012) simp_all
    ultimately show ?thesis using join_split_on [of NL own] by (simp add: rstrip_char_def)
  qed
  then show ?thesis using c by (simp add: strip_managed_def)
qed

definition crontab_shell :: "'w shell \<Rightarrow> host_env \<Rightarrow> ('w \<Rightarrow> string \<Rightarrow> string) \<Rightarrow> bool" where
  \<comment> \<open>what the \<open>crontab\<close> command does: \<open>-l\<close> prints the table of a user, \<open>-\<close> replaces it, and nothing touches the table of another user\<close>
  "crontab_shell sh h tab =
     ((\<forall>u w. sh (sudo_prefix h @ [''crontab'', ''-l'', ''-u'', u]) [] w = (w, if tab w u = [] then Ended 1 [] ''no crontab'' else Ended 0 (tab w u) [])) \<and>
      (\<forall>u w inp. \<exists>w'. sh (sudo_prefix h @ [''crontab'', ''-u'', u, ''-'']) inp w = (w', Ended 0 [] []) \<and> tab w' = (tab w)(u := inp)))"

definition own_text :: "('w \<Rightarrow> string \<Rightarrow> string) \<Rightarrow> 'w \<Rightarrow> string \<Rightarrow> string" where
  \<comment> \<open>the part of a user's crontab that is not the panel's\<close>
  "own_text tab w u = strip_managed (strip (tab w u))"

lemma apply_crontab_writes:
  assumes "crontab_shell sh h tab"
  shows "\<exists>w'. apply_crontab sh h u (d, w) = ((d, w'), Inr ()) \<and> tab w' = (tab w)(u := crontab_text (own_text tab w u) d)"
proof -
  let ?t = "crontab_text (own_text tab w u) d"
  obtain w' where w: "sh (sudo_prefix h @ [''crontab'', ''-u'', u, ''-'']) ?t w = (w', Ended 0 [] [])" "tab w' = (tab w)(u := ?t)"
    using assms unfolding crontab_shell_def by blast
  have l: "sh (sudo_prefix h @ [''crontab'', ''-l'', ''-u'', u]) [] w = (w, if tab w u = [] then Ended 1 [] ''no crontab'' else Ended 0 (tab w u) [])"
    using assms unfolding crontab_shell_def by blast
  have "read_raw sh h u (d, w) = ((d, w), Inr (strip (tab w u)))"
    by (simp add: read_raw_def lseq_def on_world_def run_priv_def run_cmd_def l lret_def strip_def rstrip_by_def)
  then show ?thesis
    using w by (simp add: apply_crontab_def lseq_def on_world_def feed_def own_text_def lret_def)
qed


lemma join_between: "x \<in> set ls \<Longrightarrow> \<exists>pre post. join_with [NL] (a # ls @ [b]) = pre @ NL # x @ NL # post"
proof (induction ls arbitrary: a)
  case (Cons y ls)
  obtain z where z: "join_with [NL] (y # ls @ [b]) = y @ NL # z" by (cases ls) auto
  show ?case
  proof (cases "x = y")
    case False
    then have "x \<in> set ls" using Cons.prems by simp
    from Cons.IH [OF this, of y] obtain pre post where "join_with [NL] (y # ls @ [b]) = pre @ NL # x @ NL # post" by blast
    then show ?thesis by (intro exI [of _ "a @ NL # pre"] exI [of _ post]) simp
  qed (use z in \<open>auto intro: exI [of _ a]\<close>)
qed simp

lemma lseq_Inr: "lseq m k s = (s', Inr v) \<longleftrightarrow> (\<exists>s1 w. m s = (s1, Inr w) \<and> k w s1 = (s', Inr v))"
  by (auto simp: lseq_def split: prod.splits sum.splits)

lemma create_job_applies:
  assumes "crontab_shell sh h tab" "create_job sh h user schedule command comment True (d, w) = ((d', w'), Inr j)"
  shows "\<exists>d1 w1 w2. apply_crontab sh h (cj_user j) (d1, w1) = ((d1, w2), Inr ()) \<and> w' = w2 \<and> cron_jobs d1 = cron_jobs d @ [j] \<and> cron_jobs d' = cron_jobs d1"
proof -
  from assms(2) obtain s1 u where v: "validate_user sh user (d, w) = (s1, Inr u)" "fst s1 = d"
    unfolding create_job_def lseq_Inr by (auto simp: validate_user_def lseq_Inr on_world_def lret_def Let_def split: if_splits prod.splits)
  obtain w1 where s1: "s1 = (d, w1)" using v(2) by (cases s1) simp
  let ?d = "\<lambda>j. d\<lparr>cron_jobs := cron_jobs d @ [j], cron_seq := cj_id j\<rparr>"
  from assms(2) v(1) s1 have "\<exists>s2. apply_crontab sh h (cj_user j) (?d j, w1) = (s2, Inr ()) \<and> cron_jobs d' = cron_jobs (fst s2) \<and> w' = snd s2"
    by (auto simp: create_job_def lseq_Inr on_db_def lret_def Let_def laudit_def split: if_splits)
  then obtain s2 where s2: "apply_crontab sh h (cj_user j) (?d j, w1) = (s2, Inr ())" "cron_jobs d' = cron_jobs (fst s2)" "w' = snd s2" by blast
  obtain w2 where w2: "apply_crontab sh h (cj_user j) (?d j, w1) = ((?d j, w2), Inr ())" using apply_crontab_writes [OF assms(1)] by blast
  then have "s2 = (?d j, w2)" using s2(1) by simp
  with s2 w2 show ?thesis by auto
qed

text \<open>
  C32. A job runs as users it was not made for: the block written into one user's crontab lists the jobs of all users, so after any job
  of user \<open>u\<close> is created, every enabled job in the table, whoever it belongs to, has its line in the crontab of \<open>u\<close>.
\<close>

theorem jobs_leak_into_other_crontabs:
  assumes "crontab_shell sh h tab" and "create_job sh h user schedule command comment True (d, w) = ((d', w'), Inr j)" and "k \<in> set (cron_jobs d)"
  shows "\<exists>pre post. tab w' (cj_user j) = pre @ [NL] @ job_line k @ [NL] @ post"
proof -
  obtain d1 w1 w2 where a: "apply_crontab sh h (cj_user j) (d1, w1) = ((d1, w2), Inr ())" "w' = w2" "cron_jobs d1 = cron_jobs d @ [j]"
    using create_job_applies [OF assms(1,2)] by blast
  then have t: "tab w' (cj_user j) = crontab_text (own_text tab w1 (cj_user j)) d1" using apply_crontab_writes [OF assms(1), of "cj_user j" d1 w1] by auto
  have "job_line k \<in> set (map job_line (list_jobs d1))" using assms(3) a(3) by (simp add: list_jobs_def)
  then obtain pre post where "render_managed d1 = pre @ NL # job_line k @ NL # post" unfolding render_managed_def using join_between by blast
  then show ?thesis
    by (intro exI [of _ "(if own_text tab w1 (cj_user j) = [] then [] else own_text tab w1 (cj_user j) @ [NL, NL]) @ pre"] exI [of _ "post @ [NL]"])
      (simp add: t crontab_text_def)
qed

text \<open>
  The expression check is both too narrow and too wide: a range of names (which cron understands and the code's comment lists) is refused, and a
  line feed between two fields is accepted and would break the job over two lines.
\<close>

lemma schedule_check_gaps:
  "validate_schedule ''0 9 * * mon-fri'' = Inl (AppError ''invalid cron expression'')"
  "validate_schedule (''*'' @ [NL] @ ''* * * *'') = Inr (''*'' @ [NL] @ ''* * * *'')"
  by code_simp+

text \<open>A comment is not checked at all: one with a line feed puts a line of its own into the crontab.\<close>

lemma comment_adds_line:
  "splitlines (job_line \<lparr>cj_id = 1, cj_user = ''u'', cj_schedule = ''@daily'', cj_command = ''a'', cj_comment = [NL] @ ''@hourly evil'', cj_enabled = True\<rparr>) =
   [''@daily a  # icsd-id:1 '', ''@hourly evil'']"
  by code_simp

section \<open>Closed examples\<close>

definition demo_sh :: "(string, string) dict shell" where
  \<comment> \<open>a machine with crontabs, where every other command succeeds\<close>
  "demo_sh args inp w =
     (case args of
        [c, l, a, b] \<Rightarrow>
          if c = ''crontab'' \<and> l = ''-l'' then (w, case dget w b of None \<Rightarrow> Ended 1 [] ''no crontab'' | Some t \<Rightarrow> if t = [] then Ended 1 [] ''no crontab'' else Ended 0 t [])
          else if c = ''crontab'' \<and> l = ''-u'' then (dput a inp w, Ended 0 [] [])
          else (w, Ended 0 [] [])
      | _ \<Rightarrow> (w, Ended 0 [] []))"

definition demo_tab :: "(string, string) dict \<Rightarrow> string \<Rightarrow> string" where
  "demo_tab w u = (case dget w u of None \<Rightarrow> [] | Some t \<Rightarrow> t)"

definition demo_host :: host_env where
  "demo_host = \<lparr>hi_root = Some True, hi_path = [''named'']\<rparr>"

definition demo_job :: cron_row where
  "demo_job = \<lparr>cj_id = 1, cj_user = ''root'', cj_schedule = ''@daily'', cj_command = ''reboot'', cj_comment = [], cj_enabled = True\<rparr>"

definition demo_ldb :: ldb where
  "demo_ldb = \<lparr>lusers = [], laudit_log = [], lsettings_tab = [], cron_jobs = [demo_job], cron_seq = 1, dns_zones = [], zone_seq = 0, dns_records = [], record_seq = 0,
     sites = [], bases = [], backup_jobs = [], job_seq = 0, mail_domains = [], mailboxes = [], mail_aliases = [], alias_seq = 0, warnings = [],
     ftp_accounts = [], pyapps = [], app_seq = 0\<rparr>"

lemma demo_crontab: "crontab_shell demo_sh demo_host demo_tab"
  by (auto simp: crontab_shell_def demo_sh_def demo_tab_def sudo_prefix_def demo_host_def dget_dput fun_eq_iff split: option.split)


theorem jobs_leak_into_other_crontabs_witness:
  "\<exists>d' w' j pre post. create_job demo_sh demo_host ''www'' ''@hourly'' ''date'' [] True (demo_ldb, []) = ((d', w'), Inr j)
     \<and> demo_tab w' ''www'' = pre @ [NL] @ job_line demo_job @ [NL] @ post"
proof -
  let ?c = "create_job demo_sh demo_host ''www'' ''@hourly'' ''date'' [] True (demo_ldb, [])"
  have c: "\<not> isl (snd ?c)" "cj_user (projr (snd ?c)) = ''www''" by code_simp+
  obtain s r where p: "?c = (s, r)" by (cases ?c)
  obtain j where j: "r = Inr j" using c(1) p by (cases r) auto
  obtain d' w' where s: "s = (d', w')" by (cases s)
  have e: "?c = ((d', w'), Inr j)" using p j s by simp
  have "demo_job \<in> set (cron_jobs demo_ldb)" by (simp add: demo_ldb_def)
  from jobs_leak_into_other_crontabs [OF demo_crontab e this] e c(2) show ?thesis by auto
qed

end
