(* ===== verification/Tokens.thy ===== *)
theory Tokens
  imports Cron
begin

text \<open>
  Accounts of the first panel: signed tokens and one-time codes (\<open>legacy/v1/backend/app/core/security.py\<close>), the account service
  (\<open>services/users.py\<close>), the guards (\<open>core/deps.py\<close>) and the routes (\<open>api/auth.py\<close>). HMAC-SHA256 is the parameter \<open>mac\<close>, on bytes;
  \<open>json.loads\<close> of the decoded bytes is the parameter \<open>jl\<close>. The text that \<open>json.dumps\<close> writes for the claims is modelled.
\<close>

section \<open>Base64 for addresses\<close>

definition url_char :: "char \<Rightarrow> char" where
  "url_char c = (if c = CHR ''+'' then CHR ''-'' else if c = CHR ''/'' then CHR ''_'' else c)"

definition plain_char :: "char \<Rightarrow> char" where
  "plain_char c = (if c = CHR ''-'' then CHR ''+'' else if c = CHR ''_'' then CHR ''/'' else c)"

definition b64url :: "nat list \<Rightarrow> string" where
  "b64url data = rstrip_char (CHR ''='') (map url_char (b64encode data))"

definition b64url_decode :: "string \<Rightarrow> nat list res" where
  "b64url_decode data =
     (let padded = data @ replicate ((4 - length data mod 4) mod 4) (CHR ''='')
      in if is_ascii padded then b64decode (map plain_char padded)
         else Inl (ValueError ''string argument should contain only ASCII characters''))"

section \<open>The text of the claims\<close>

definition low_hex :: "nat \<Rightarrow> char" where
  "low_hex n = (if n < 10 then char_of (48 + n) else char_of (87 + n))"

definition json_char :: "char \<Rightarrow> string" where
  \<comment> \<open>how \<open>json.dumps\<close> writes a character: everything outside the printable ASCII range is escaped\<close>
  "json_char c =
     (let n = code c in
      if n = 34 then [CHR 0x5C, CHR 0x22] else if n = 92 then [CHR 0x5C, CHR 0x5C]
      else if n = 10 then [CHR 0x5C, CHR ''n''] else if n = 13 then [CHR 0x5C, CHR ''r''] else if n = 9 then [CHR 0x5C, CHR ''t'']
      else if n = 12 then [CHR 0x5C, CHR ''f''] else if n = 8 then [CHR 0x5C, CHR ''b'']
      else if 32 \<le> n \<and> n \<le> 126 then [c]
      else [CHR 0x5C, CHR ''u'', CHR ''0'', CHR ''0'', low_hex (n div 16), low_hex (n mod 16)])"

definition json_string :: "string \<Rightarrow> string" where
  "json_string s = CHR 0x22 # concat (map json_char s) @ [CHR 0x22]"

definition token_header :: string where
  "token_header = ''{'' @ json_string ''alg'' @ '':'' @ json_string ''HS256'' @ '','' @ json_string ''typ'' @ '':'' @ json_string ''JWT'' @ ''}''"

definition claims_text :: "string \<Rightarrow> string \<Rightarrow> int \<Rightarrow> string" where
  "claims_text sub role ex =
     ''{'' @ json_string ''sub'' @ '':'' @ json_string sub @ '','' @ json_string ''role'' @ '':'' @ json_string role @ '',''
     @ json_string ''exp'' @ '':'' @ str_int ex @ ''}''"

definition claims :: "string \<Rightarrow> string \<Rightarrow> int \<Rightarrow> json" where
  "claims sub role ex = JObj [(''sub'', JStr sub), (''role'', JStr role), (''exp'', JInt ex)]"

definition utf8 :: "string \<Rightarrow> nat list" where
  "utf8 s = concat (map utf8_char s)"

section \<open>Tokens\<close>

type_synonym mac = "nat list \<Rightarrow> nat list \<Rightarrow> nat list"

definition lhash_password :: "crypto \<Rightarrow> string \<Rightarrow> string" where
  "lhash_password cr password = c_hashpw cr password"

definition lverify_password :: "crypto \<Rightarrow> string \<Rightarrow> string \<Rightarrow> bool" where
  "lverify_password cr password hashed = (case c_checkpw cr password hashed of None \<Rightarrow> False | Some b \<Rightarrow> b)"

definition expiry :: "rat \<Rightarrow> int \<Rightarrow> int lres" where
  \<comment> \<open>\<open>int((now + timedelta(minutes=m)).timestamp())\<close>: a date outside the years 1 to 9999 overflows\<close>
  "expiry now m =
     (let t = now + 60 * of_int m in
      if t < - 62135596800 \<or> 253402300800 \<le> t then Inl (Other OverflowError) else Inr (py_trunc t))"

definition create_access_token :: "mac \<Rightarrow> lconfig \<Rightarrow> rat \<Rightarrow> string \<Rightarrow> string \<Rightarrow> string lres" where
  "create_access_token mac cfg now subject role =
     lbind (expiry now (token_minutes cfg)) (\<lambda>ex.
       let seg = b64url (utf8 token_header) @ ''.'' @ b64url (utf8 (claims_text subject role ex))
       in Inr (seg @ ''.'' @ b64url (mac (utf8 (secret_key cfg)) (utf8 seg))))"

definition lift_res :: "'v res \<Rightarrow> 'v lres" where
  "lift_res r = (case r of Inl e \<Rightarrow> Inl (Other e) | Inr v \<Rightarrow> Inr v)"

definition before :: "json \<Rightarrow> int \<Rightarrow> bool res" where
  \<comment> \<open>\<open>v < n\<close> of a parsed value and an integer\<close>
  "before v n =
     (case v of JInt i \<Rightarrow> Inr (i < n) | JBool b \<Rightarrow> Inr (of_bool b < n)
      | JFloat (Fin x) \<Rightarrow> Inr (x < of_int n) | JFloat PosInf \<Rightarrow> Inr False | JFloat NegInf \<Rightarrow> Inr True | JFloat NaN \<Rightarrow> Inr False
      | _ \<Rightarrow> Inl TypeError)"

definition decode_token :: "mac \<Rightarrow> (nat list \<Rightarrow> json res) \<Rightarrow> lconfig \<Rightarrow> rat \<Rightarrow> string \<Rightarrow> (string, json) dict lres" where
  "decode_token mac jl cfg now token =
     (case split_on (CHR ''.'') token of
        [h, p, s] \<Rightarrow>
          lbind (lift_res (compare_digest_str (b64url (mac (utf8 (secret_key cfg)) (utf8 (h @ ''.'' @ p)))) s)) (\<lambda>eq.
          if \<not> eq then Inl (AppError ''bad signature'')
          else lbind (lift_res (rbind (b64url_decode p) jl)) (\<lambda>payload.
            case payload of
              JObj kvs \<Rightarrow> lbind (lift_res (before (case map_of kvs ''exp'' of None \<Rightarrow> JInt 0 | Some v \<Rightarrow> v) (py_trunc now))) (\<lambda>old.
                            if old then Inl (AppError ''token expired'') else Inr kvs)
            | _ \<Rightarrow> Inl (Other AttributeError)))
      | _ \<Rightarrow> Inl (AppError ''malformed token''))"

section \<open>One-time codes\<close>

definition lhotp :: "crypto \<Rightarrow> string \<Rightarrow> int \<Rightarrow> string res" where
  \<comment> \<open>the same construction as in the hub: pad the secret, decode it, truncate the digest, six digits\<close>
  "lhotp = hotp"

fun lcodes :: "crypto \<Rightarrow> string \<Rightarrow> string \<Rightarrow> int list \<Rightarrow> bool res" where
  "lcodes cr secret c [] = Inr False"
| "lcodes cr secret c (k # ks) =
     rbind (lhotp cr secret k) (\<lambda>h. rbind (compare_digest_str h (zfill 6 c)) (\<lambda>b. if b then Inr True else lcodes cr secret c ks))"

definition lverify_totp :: "crypto \<Rightarrow> string option \<Rightarrow> string \<Rightarrow> rat \<Rightarrow> bool res" where
  \<comment> \<open>the length of a secret that is \<open>None\<close> raises\<close>
  "lverify_totp cr secret c now =
     (if \<not> isdigit c then Inr False
      else let k = \<lfloor>now / 30\<rfloor> in case secret of None \<Rightarrow> Inl TypeError | Some s \<Rightarrow> lcodes cr s c [k - 1, k, k + 1])"

definition generate_totp_secret :: "byte list \<Rightarrow> string" where
  "generate_totp_secret raw = b32encode_unpadded raw"

definition totp_provisioning_uri :: "string \<Rightarrow> string \<Rightarrow> string" where
  "totp_provisioning_uri secret account =
     ''otpauth://totp/'' @ quote (''ICSD Panel:'' @ account) @ ''?secret='' @ secret @ ''&issuer='' @ quote ''ICSD Panel''
     @ ''&algorithm=SHA1&digits=6&period=30''"

section \<open>Accounts\<close>

type_synonym 'v ulio = "(ldb, 'v) lio"

definition VALID_ROLES :: "string list" where
  "VALID_ROLES = [''admin'', ''manager'', ''readonly'']"

definition put_db :: "(ldb \<Rightarrow> ldb) \<Rightarrow> unit ulio" where
  "put_db f d = (f d, Inr ())"

definition get_user :: "string \<Rightarrow> ldb \<Rightarrow> luser_row option" where
  "get_user un d = select_one (\<lambda>u. lu_username u = lower (strip un)) (lusers d)"

definition count_users :: "ldb \<Rightarrow> nat" where
  "count_users d = length (lusers d)"

definition upd_user :: "string \<Rightarrow> (luser_row \<Rightarrow> luser_row) \<Rightarrow> ldb \<Rightarrow> ldb" where
  "upd_user un f d = d\<lparr>lusers := update_where (\<lambda>u. lu_username u = un) f (lusers d)\<rparr>"

definition lcreate_user :: "crypto \<Rightarrow> string \<Rightarrow> string \<Rightarrow> string \<Rightarrow> (string \<times> string) ulio" where
  "lcreate_user cr un password role d =
     (let name = lower (strip un) in
      if name = [] \<or> length password < 8 then (d, Inl (AppError ''username required, password >= 8 chars''))
      else if role \<notin> set VALID_ROLES then (d, Inl (AppError (''invalid role: '' @ role)))
      else if \<exists>u \<in> set (lusers d). lu_username u = name then (d, Inl (AppError ''user already exists''))
      else
        let row = \<lparr>lu_username = name, lu_password_hash = lhash_password cr password, lu_role = role, lu_totp_secret = None, lu_totp_enabled = False\<rparr>
        in (laudit (Some name) ''user.create'' (''role='' @ role) (d\<lparr>lusers := lusers d @ [row]\<rparr>), Inr (name, role)))"

definition ensure_default_admin :: "crypto \<Rightarrow> string \<Rightarrow> (string \<times> string) option ulio" where
  "ensure_default_admin cr password d =
     (if count_users d = 0 then lseq (lcreate_user cr ''admin'' password ''admin'') (\<lambda>_. lret (Inr (Some (''admin'', password)))) d
      else (d, Inr None))"

record ltoken =
  lt_access_token :: string
  lt_username :: string
  lt_role :: string
  lt_totp_enabled :: bool

definition otp_part :: "crypto \<Rightarrow> rat \<Rightarrow> string \<Rightarrow> luser_row \<Rightarrow> string option \<Rightarrow> unit ulio" where
  "otp_part cr now un u otp =
     (if \<not> lu_totp_enabled u then lret (Inr ())
      else case otp of
        None \<Rightarrow> lret (Inl (AppError ''OTP required''))
      | Some c \<Rightarrow>
          if c = [] then lret (Inl (AppError ''OTP required''))
          else lseq (lret (lift_res (lverify_totp cr (lu_totp_secret u) c now))) (\<lambda>good.
               if good then lret (Inr ())
               else lseq (put_db (laudit (Some un) ''auth.fail'' ''bad otp'')) (\<lambda>_. lret (Inl (AppError ''invalid OTP'')))))"

definition lauthenticate :: "crypto \<Rightarrow> mac \<Rightarrow> lconfig \<Rightarrow> rat \<Rightarrow> string \<Rightarrow> string \<Rightarrow> string option \<Rightarrow> ltoken ulio" where
  "lauthenticate cr mac cfg now un password otp d =
     (case get_user un d of
        None \<Rightarrow> lseq (put_db (laudit (Some un) ''auth.fail'' ''bad credentials'')) (\<lambda>_. lret (Inl (AppError ''invalid username or password''))) d
      | Some u \<Rightarrow>
          if \<not> lverify_password cr password (lu_password_hash u)
          then lseq (put_db (laudit (Some un) ''auth.fail'' ''bad credentials'')) (\<lambda>_. lret (Inl (AppError ''invalid username or password''))) d
          else
            lseq (otp_part cr now un u otp) (\<lambda>_.
            lseq (lret (create_access_token mac cfg now (lu_username u) (lu_role u))) (\<lambda>token.
            lseq (put_db (laudit (Some un) ''auth.success'' (''role='' @ lu_role u))) (\<lambda>_.
            lret (Inr \<lparr>lt_access_token = token, lt_username = lu_username u, lt_role = lu_role u, lt_totp_enabled = lu_totp_enabled u\<rparr>)))) d)"

definition lchange_password :: "crypto \<Rightarrow> string \<Rightarrow> string \<Rightarrow> string \<Rightarrow> unit ulio" where
  "lchange_password cr un old new d =
     (case get_user un d of
        None \<Rightarrow> (d, Inl (AppError ''current password incorrect''))
      | Some u \<Rightarrow>
          if \<not> lverify_password cr old (lu_password_hash u) then (d, Inl (AppError ''current password incorrect''))
          else if length new < 8 then (d, Inl (AppError ''new password >= 8 chars''))
          else (laudit (Some un) ''user.change_password'' [] (upd_user un (lu_password_hash_update (\<lambda>_. lhash_password cr new)) d), Inr ()))"

definition setup_totp :: "byte list \<Rightarrow> string \<Rightarrow> (string \<times> string) ulio" where
  \<comment> \<open>the first argument is \<open>os.urandom(20)\<close>\<close>
  "setup_totp raw un d =
     (case get_user un d of
        None \<Rightarrow> (d, Inl (AppError ''user not found''))
      | Some _ \<Rightarrow>
          let secret = generate_totp_secret raw
          in (upd_user un (\<lambda>u. u\<lparr>lu_totp_secret := Some secret, lu_totp_enabled := False\<rparr>) d, Inr (secret, totp_provisioning_uri secret un)))"

definition enable_totp :: "crypto \<Rightarrow> rat \<Rightarrow> string \<Rightarrow> string \<Rightarrow> unit ulio" where
  "enable_totp cr now un otp d =
     (case get_user un d of
        None \<Rightarrow> (d, Inl (AppError ''setup 2FA first''))
      | Some u \<Rightarrow>
          if lu_totp_secret u \<in> {None, Some []} then (d, Inl (AppError ''setup 2FA first''))
          else case lverify_totp cr (lu_totp_secret u) otp now of
                 Inl e \<Rightarrow> (d, Inl (Other e))
               | Inr False \<Rightarrow> (d, Inl (AppError ''invalid code''))
               | Inr True \<Rightarrow> (laudit (Some un) ''user.enable_2fa'' [] (upd_user un (lu_totp_enabled_update (\<lambda>_. True)) d), Inr ()))"

definition disable_totp :: "string \<Rightarrow> unit ulio" where
  "disable_totp un d =
     (laudit (Some un) ''user.disable_2fa'' [] (upd_user un (\<lambda>u. u\<lparr>lu_totp_enabled := False, lu_totp_secret := None\<rparr>) d), Inr ())"

section \<open>Guards\<close>

definition ROLE_RANK :: "(string, nat) dict" where
  "ROLE_RANK = [(''readonly'', 1), (''manager'', 2), (''admin'', 3)]"

record caller =
  ca_username :: json
  ca_role :: json

definition get_current_user :: "mac \<Rightarrow> (nat list \<Rightarrow> json res) \<Rightarrow> lconfig \<Rightarrow> rat \<Rightarrow> string option \<Rightarrow> caller lres" where
  \<comment> \<open>\<open>None\<close> when the request carries no bearer token\<close>
  "get_current_user mac jl cfg now token =
     (case token of
        None \<Rightarrow> Inl (LHttp 401 ''authentication required'')
      | Some t \<Rightarrow>
          if t = [] then Inl (LHttp 401 ''authentication required'')
          else case decode_token mac jl cfg now t of
                 Inl (AppError m) \<Rightarrow> Inl (LHttp 401 (''invalid token: '' @ m))
               | Inl e \<Rightarrow> Inl e
               | Inr payload \<Rightarrow>
                   (case map_of payload ''sub'' of
                      None \<Rightarrow> Inl (Other (KeyError ''sub''))
                    | Some sub \<Rightarrow>
                        Inr \<lparr>ca_username = sub, ca_role = (case map_of payload ''role'' of None \<Rightarrow> JStr ''readonly'' | Some r \<Rightarrow> r)\<rparr>))"

definition role_rank :: "json \<Rightarrow> nat lres" where
  \<comment> \<open>\<open>_ROLE_RANK.get(role, 0)\<close>: a list or dict cannot be a key\<close>
  "role_rank r =
     (case r of JStr s \<Rightarrow> Inr (case dget ROLE_RANK s of None \<Rightarrow> 0 | Some n \<Rightarrow> n)
      | JArr _ \<Rightarrow> Inl (Other TypeError) | JObj _ \<Rightarrow> Inl (Other TypeError) | _ \<Rightarrow> Inr 0)"

definition require_role :: "string \<Rightarrow> caller lres \<Rightarrow> caller lres" where
  "require_role min_role who =
     lbind who (\<lambda>u. lbind (role_rank (ca_role u)) (\<lambda>n.
       if n < (case dget ROLE_RANK min_role of None \<Rightarrow> 0 | Some k \<Rightarrow> k) then Inl (LHttp 403 (''requires '' @ min_role)) else Inr u))"

definition claim_text :: "json \<Rightarrow> string lres" where
  \<comment> \<open>the name as the account service uses it; \<open>strip\<close> exists on strings only\<close>
  "claim_text v = (case v of JStr s \<Rightarrow> Inr s | _ \<Rightarrow> Inl (Other AttributeError))"

section \<open>Routes\<close>

definition app_http :: "nat \<Rightarrow> ('s, 'v) lio \<Rightarrow> ('s, 'v) lio" where
  "app_http sc m s = (case m s of (s', Inl (AppError e)) \<Rightarrow> (s', Inl (LHttp sc e)) | r \<Rightarrow> r)"

definition route_login :: "crypto \<Rightarrow> mac \<Rightarrow> lconfig \<Rightarrow> rat \<Rightarrow> string \<Rightarrow> string \<Rightarrow> string option \<Rightarrow> ltoken ulio" where
  "route_login cr mac cfg now un password otp = app_http 401 (lauthenticate cr mac cfg now un password otp)"

definition with_name :: "caller lres \<Rightarrow> (string \<Rightarrow> 'v ulio) \<Rightarrow> 'v ulio" where
  "with_name who f = lseq (lret who) (\<lambda>u. lseq (lret (claim_text (ca_username u))) f)"

definition route_me :: "caller lres \<Rightarrow> (string \<times> json \<times> bool) ulio" where
  "route_me who =
     lseq (lret who) (\<lambda>u. lseq (lret (claim_text (ca_username u))) (\<lambda>n d.
       (d, Inr (n, ca_role u, case get_user n d of None \<Rightarrow> False | Some r \<Rightarrow> lu_totp_enabled r))))"

definition route_change_password :: "crypto \<Rightarrow> caller lres \<Rightarrow> string \<Rightarrow> string \<Rightarrow> unit ulio" where
  "route_change_password cr who old new =
     lseq (lret who) (\<lambda>u.
       if length new < 8 then lret (Inl (LHttp 422 ''new_password''))
       else lseq (lret (claim_text (ca_username u))) (\<lambda>n. app_http 400 (lchange_password cr n old new)))"

definition route_setup_2fa :: "byte list \<Rightarrow> caller lres \<Rightarrow> (string \<times> string) ulio" where
  "route_setup_2fa raw who = with_name who (\<lambda>n. app_http 400 (setup_totp raw n))"

definition route_enable_2fa :: "crypto \<Rightarrow> rat \<Rightarrow> caller lres \<Rightarrow> string \<Rightarrow> unit ulio" where
  "route_enable_2fa cr now who otp = with_name who (\<lambda>n. app_http 400 (enable_totp cr now n otp))"

text \<open>A token of the panel names a text; for any other claim, which only a holder of the key can sign, the update below finds no row.\<close>

definition route_disable_2fa :: "caller lres \<Rightarrow> unit ulio" where
  "route_disable_2fa who = with_name who disable_totp"

definition route_create_user :: "crypto \<Rightarrow> caller lres \<Rightarrow> string \<Rightarrow> string \<Rightarrow> string \<Rightarrow> (string \<times> string) ulio" where
  "route_create_user cr who un password role =
     lseq (lret (require_role ''admin'' who)) (\<lambda>_.
       if length password < 8 then lret (Inl (LHttp 422 ''password'')) else app_http 400 (lcreate_user cr un password role))"

section \<open>Tokens that were handed out are accepted\<close>

lemma b64_letter: "v < 62 \<Longrightarrow> b64_char v \<notin> {CHR ''+'', CHR ''/'', CHR ''-'', CHR ''_'', CHR ''='', CHR ''.''}"
  using code_b64_char [of v] by (auto simp: code_def split: if_splits)

lemma url_alphabet:
  assumes "v < 64"
  shows "plain_char (url_char (b64_char v)) = b64_char v" "url_char (b64_char v) \<notin> {CHR ''='', CHR ''.''}" "code (url_char (b64_char v)) < 128"
proof -
  consider "v < 62" | "v = 62" | "v = 63" using assms by linarith
  then have "plain_char (url_char (b64_char v)) = b64_char v \<and> url_char (b64_char v) \<notin> {CHR ''='', CHR ''.''} \<and> code (url_char (b64_char v)) < 128"
  proof cases
    case 1
    then show ?thesis using b64_letter [OF 1] b64_char_ascii [OF assms] by (simp add: url_char_def plain_char_def)
  qed (simp_all add: b64_char_def url_char_def plain_char_def code_def, code_simp+)
  then show "plain_char (url_char (b64_char v)) = b64_char v" "url_char (b64_char v) \<notin> {CHR ''='', CHR ''.''}" "code (url_char (b64_char v)) < 128" by auto
qed

lemma rstrip_char_replicate: "xs = [] \<or> last xs \<noteq> c \<Longrightarrow> rstrip_char c (xs @ replicate k c) = xs"
proof -
  have "dropWhile (\<lambda>x. x = c) (replicate k c @ ys) = dropWhile (\<lambda>x. x = c) ys" for ys by (induction k) auto
  then show "xs = [] \<or> last xs \<noteq> c \<Longrightarrow> rstrip_char c (xs @ replicate k c) = xs"
    by (cases xs rule: rev_cases) (auto simp: rstrip_char_def rstrip_by_def)
qed

lemma b64_shape:
  "\<forall>b \<in> set bs. b < 256 \<Longrightarrow> \<exists>vs k. b64encode bs = map b64_char vs @ replicate k (CHR ''='') \<and> (\<forall>v \<in> set vs. v < 64) \<and> k < 4 \<and> (length vs + k) mod 4 = 0"
proof (induction bs rule: b64encode.induct)
  case 1
  show ?case by (rule exI [of _ "[]"], rule exI [of _ 0]) simp
next
  case (2 a)
  then show ?case by (intro exI [of _ "[a div 4, a mod 4 * 16]"] exI [of _ 2]) (simp add: numeral_2_eq_2)
next
  case (3 a b)
  then show ?case by (intro exI [of _ "[a div 4, a mod 4 * 16 + b div 16, b mod 16 * 4]"] exI [of _ 1]) simp
next
  case (4 a b c bs)
  then obtain vs k where "b64encode bs = map b64_char vs @ replicate k (CHR ''='')" "\<forall>v \<in> set vs. v < 64" "k < 4" "(length vs + k) mod 4 = 0" by auto
  with 4(2) show ?case
    by (intro exI [of _ "a div 4 # (a mod 4 * 16 + b div 16) # (b mod 16 * 4 + c div 64) # c mod 64 # vs"] exI [of _ k]) simp
qed

lemma pad_mod: "n < 4 \<Longrightarrow> k < 4 \<Longrightarrow> (n + k) mod 4 = 0 \<Longrightarrow> k = (4 - n) mod (4::nat)"
proof -
  assume a: "n < 4" "k < 4" "(n + k) mod 4 = 0"
  then have "n \<in> {0, 1, 2, 3}" "k \<in> {0, 1, 2, 3}" by auto
  with a(3) show ?thesis by auto presburger+
qed

lemma b64url_shape:
  assumes "\<forall>b \<in> set bs. b < 256"
  obtains vs k where "b64encode bs = map b64_char vs @ replicate k (CHR ''='')" "b64url bs = map (url_char \<circ> b64_char) vs"
    "\<forall>v \<in> set vs. v < 64" "k = (4 - length vs mod 4) mod 4"
proof -
  obtain vs k where s: "b64encode bs = map b64_char vs @ replicate k (CHR ''='')" "\<forall>v \<in> set vs. v < 64" "k < 4" "(length vs + k) mod 4 = 0"
    using b64_shape [OF assms] by (elim exE conjE)
  have "last (map url_char (map b64_char vs)) \<noteq> CHR ''=''" if "vs \<noteq> []"
    using url_alphabet(2) [of "last vs"] s(2) that by (simp add: last_map)
  then have "rstrip_char (CHR ''='') (map url_char (map b64_char vs) @ replicate k (CHR ''='')) = map url_char (map b64_char vs)"
    by (intro rstrip_char_replicate) blast
  moreover have "url_char (CHR ''='') = CHR ''=''" by (simp add: url_char_def)
  ultimately have "b64url bs = map (url_char \<circ> b64_char) vs" unfolding b64url_def s(1) by simp
  moreover have "k = (4 - length vs mod 4) mod 4" using s(3,4) by (intro pad_mod) (simp_all add: mod_simps)
  ultimately show ?thesis using that s by blast
qed

lemma b64url_plain: "\<forall>b \<in> set bs. b < 256 \<Longrightarrow> is_ascii (b64url bs) \<and> CHR ''.'' \<notin> set (b64url bs)"
  by (erule b64url_shape) (use url_alphabet(2,3) in \<open>fastforce simp: is_ascii_def list_all_iff\<close>)

lemma b64url_roundtrip:
  assumes "\<forall>b \<in> set bs. b < 256"
  shows "b64url_decode (b64url bs) = Inr bs"
proof -
  obtain vs k where s: "b64encode bs = map b64_char vs @ replicate k (CHR ''='')" "b64url bs = map (url_char \<circ> b64_char) vs"
    "\<forall>v \<in> set vs. v < 64" "k = (4 - length vs mod 4) mod 4" using b64url_shape [OF assms] .
  have "map (plain_char \<circ> url_char \<circ> b64_char) vs = map b64_char vs" using s(3) url_alphabet(1) by simp
  moreover have "plain_char (CHR ''='') = CHR ''=''" by (simp add: plain_char_def)
  ultimately have "map plain_char (b64url bs @ replicate k (CHR ''='')) = b64encode bs" unfolding s(1,2) by (simp add: o_assoc)
  moreover have "is_ascii (b64url bs @ replicate k (CHR ''=''))" using b64url_plain [OF assms] by (auto simp: is_ascii_def list_all_iff code_def)
  ultimately show ?thesis using b64_roundtrip [OF assms] s(2,4) by (simp add: b64url_decode_def)
qed

lemma utf8_bytes: "\<forall>b \<in> set (utf8 s). b < 256"
proof -
  have "code c div 64 < 4" for c
    using less_mult_imp_div_less [of "code c" 4 64] of_char_of [of "of_char c :: nat"] by (simp add: code_def)
  then have "192 + code c div 64 < 192 + 4" for c by (rule add_strict_left_mono)
  then have "192 + code c div 64 < 256" for c by (rule less_trans) simp
  moreover have "128 + code c mod 64 < 256" for c using mod_less_divisor [of 64 "code c"] by linarith
  ultimately have "b < 256" if "b \<in> set (utf8_char c)" for b c using that by (auto simp: utf8_char_def Let_def split: if_splits)
  then show ?thesis by (auto simp: utf8_def)
qed

lemma split_three: "d \<notin> set a \<Longrightarrow> d \<notin> set b \<Longrightarrow> d \<notin> set c \<Longrightarrow> split_on d (a @ [d] @ b @ [d] @ c) = [a, b, c]"
proof -
  assume n: "d \<notin> set a" "d \<notin> set b" "d \<notin> set c"
  from n(3) have "split_on d c = [c]" by (induction c) auto
  with n(1,2) show ?thesis by (simp add: split_on_first)
qed

lemma compare_same: "is_ascii a \<Longrightarrow> compare_digest_str a a = Inr True"
  by (simp add: compare_digest_str_def)

lemma decode_created:
  assumes "create_access_token mac cfg now sub role = Inr tok" and "expiry now (token_minutes cfg) = Inr ex"
    and "\<And>k m. \<forall>b \<in> set (mac k m). b < 256" and "jl (utf8 (claims_text sub role ex)) = Inr (claims sub role ex)"
  shows "decode_token mac jl cfg t tok =
    (if ex < py_trunc t then Inl (AppError ''token expired'') else Inr [(''sub'', JStr sub), (''role'', JStr role), (''exp'', JInt ex)])"
proof -
  let ?h = "b64url (utf8 token_header)" and ?p = "b64url (utf8 (claims_text sub role ex))"
  let ?s = "b64url (mac (utf8 (secret_key cfg)) (utf8 (?h @ ''.'' @ ?p)))"
  have tok: "tok = ?h @ [CHR ''.''] @ ?p @ [CHR ''.''] @ ?s"
    using assms(1) by (simp add: create_access_token_def assms(2) lbind_def Let_def)
  note plain = b64url_plain [OF utf8_bytes] b64url_plain [OF assms(3)]
  have 1: "split_on (CHR ''.'') tok = [?h, ?p, ?s]" unfolding tok by (rule split_three) (use plain in blast)+
  have 2: "compare_digest_str ?s ?s = Inr True" by (rule compare_same) (use plain in blast)
  have 3: "rbind (b64url_decode ?p) jl = Inr (JObj [(''sub'', JStr sub), (''role'', JStr role), (''exp'', JInt ex)])"
    by (simp add: b64url_roundtrip [OF utf8_bytes] assms(4) rbind_def claims_def)
  show ?thesis unfolding decode_token_def 1 list.case 2 3 lbind_def lift_res_def sum.case by (simp add: before_def)
qed

lemma lseq_Inr_iff: "lseq m k s = (s', Inr v) \<longleftrightarrow> (\<exists>s1 w. m s = (s1, Inr w) \<and> k w s1 = (s', Inr v))"
  by (auto simp: lseq_def split: prod.splits sum.splits)

lemma lret_iff [simp]: "lret r s = (s', q) \<longleftrightarrow> s' = s \<and> q = r"
  by (auto simp: lret_def)

lemma put_db_iff [simp]: "put_db f d = (d', q) \<longleftrightarrow> d' = f d \<and> q = Inr ()"
  by (auto simp: put_db_def)

lemma lauthenticate_Inr:
  assumes "lauthenticate cr mac cfg now un password otp d = (d', Inr t)"
  obtains u where "get_user un d = Some u" "lverify_password cr password (lu_password_hash u)"
    "lu_totp_enabled u \<Longrightarrow> \<exists>c. otp = Some c \<and> lverify_totp cr (lu_totp_secret u) c now = Inr True"
    "create_access_token mac cfg now (lu_username u) (lu_role u) = Inr (lt_access_token t)" "lt_username t = lu_username u" "lt_role t = lu_role u"
    "lusers d' = lusers d"
proof -
  obtain u where u: "get_user un d = Some u" "lverify_password cr password (lu_password_hash u)"
    using assms by (auto simp: lauthenticate_def lseq_Inr_iff split: option.splits if_splits)
  with assms obtain d1 where o: "otp_part cr now un u otp d = (d1, Inr ())"
    "create_access_token mac cfg now (lu_username u) (lu_role u) = Inr (lt_access_token t)" "lt_username t = lu_username u" "lt_role t = lu_role u"
    "d' = laudit (Some un) ''auth.success'' (''role='' @ lu_role u) d1"
    by (auto simp: lauthenticate_def lseq_Inr_iff)
  have "lusers d1 = lusers d" using o(1) by (auto simp: otp_part_def lseq_Inr_iff laudit_def split: if_splits option.splits)
  moreover have "\<exists>c. otp = Some c \<and> lverify_totp cr (lu_totp_secret u) c now = Inr True" if "lu_totp_enabled u"
    using o(1) that by (auto simp: otp_part_def lseq_Inr_iff lift_res_def split: if_splits option.splits sum.splits)
  ultimately show ?thesis using that u o by (simp add: laudit_def)
qed

text \<open>
  A token of the first panel says who logged in and nothing else: a successful login had the right password (and a valid code where the second
  factor is on), and its token authenticates exactly that account with the role it had, until the expiry written into it; afterwards
  it is refused with 401.
\<close>

theorem login_token_authenticates:
  assumes "lauthenticate cr mac cfg now un password otp d = (d', Inr t)" and "expiry now (token_minutes cfg) = Inr ex"
    and "\<And>k m. \<forall>b \<in> set (mac k m). b < 256" and "jl (utf8 (claims_text (lt_username t) (lt_role t) ex)) = Inr (claims (lt_username t) (lt_role t) ex)"
  shows "\<exists>u. get_user un d = Some u \<and> lverify_password cr password (lu_password_hash u) \<and>
      (lu_totp_enabled u \<longrightarrow> (\<exists>c. otp = Some c \<and> lverify_totp cr (lu_totp_secret u) c now = Inr True)) \<and>
      (\<forall>later. get_current_user mac jl cfg later (Some (lt_access_token t)) =
         (if ex < py_trunc later then Inl (LHttp 401 ''invalid token: token expired'')
          else Inr \<lparr>ca_username = JStr (lu_username u), ca_role = JStr (lu_role u)\<rparr>))"
proof -
  obtain u where u: "get_user un d = Some u" "lverify_password cr password (lu_password_hash u)"
    "lu_totp_enabled u \<Longrightarrow> \<exists>c. otp = Some c \<and> lverify_totp cr (lu_totp_secret u) c now = Inr True"
    "create_access_token mac cfg now (lu_username u) (lu_role u) = Inr (lt_access_token t)" "lt_username t = lu_username u" "lt_role t = lu_role u"
    using lauthenticate_Inr [OF assms(1)] by metis
  have "lt_access_token t \<noteq> []" using u(4) by (auto simp: create_access_token_def assms(2) lbind_def Let_def)
  moreover note decode_created [OF u(4) assms(2,3), of jl] assms(4)
  ultimately show ?thesis using u by (intro exI [of _ u]) (auto simp: get_current_user_def)
qed

text \<open>
  C25. Nobody gets in with a token that the panel's key did not sign: whatever text a request presents, when a caller is accepted the last of its three
  parts is the digest of the first two under the key, and the claims in the second part name the caller and have not expired.
\<close>

theorem accepted_token_is_signed:
  assumes "get_current_user mac jl cfg now (Some t) = Inr c"
  shows "\<exists>h p bs kvs. t = h @ ''.'' @ p @ ''.'' @ b64url (mac (utf8 (secret_key cfg)) (utf8 (h @ ''.'' @ p))) \<and> b64url_decode p = Inr bs
    \<and> jl bs = Inr (JObj kvs) \<and> map_of kvs ''sub'' = Some (ca_username c)
    \<and> before (case map_of kvs ''exp'' of None \<Rightarrow> JInt 0 | Some v \<Rightarrow> v) (py_trunc now) = Inr False"
proof -
  obtain kvs where d: "decode_token mac jl cfg now t = Inr kvs" "map_of kvs ''sub'' = Some (ca_username c)"
    using assms by (auto simp: get_current_user_def split: if_splits sum.splits lexc.splits option.splits)
  then obtain h p s where t: "split_on (CHR ''.'') t = [h, p, s]" by (auto simp: decode_token_def split: list.splits)
  then have "t = h @ ''.'' @ p @ ''.'' @ s" using join_split_on [of "CHR ''.''" t] by simp
  with d t show ?thesis
    by (intro exI [of _ h] exI [of _ p])
      (auto simp: decode_token_def lbind_def lift_res_def rbind_def compare_digest_str_def split: sum.splits if_splits json.splits)
qed

section \<open>What a bearer of a token can do\<close>

lemma get_user_update:
  "(\<And>u. lu_username (f u) = lu_username u) \<Longrightarrow> get_user n (upd_user un f d) = map_option (\<lambda>u. if lu_username u = un then f u else u) (get_user n d)"
proof -
  assume f: "\<And>u. lu_username (f u) = lu_username u"
  have "filter p (map g us) = map g (filter p us)" if "\<And>u. p (g u) = p u" for p us and g :: "luser_row \<Rightarrow> luser_row"
    using that by (induction us) auto
  with f show ?thesis
    by (simp add: get_user_def upd_user_def update_where_def select_one_def split: list.splits)
qed

text \<open>
  A token alone switches the second factor off: setting it up anew is allowed while it is active, clears the old secret at once and asks for
  neither password nor code, so afterwards the password alone logs in.
\<close>

theorem setup_switches_2fa_off:
  assumes "who = Inr c" "ca_username c = JStr n" and "get_user n d = Some u" "lu_username u = n"
    and "lverify_password cr password (lu_password_hash u)" "create_access_token mac cfg now n (lu_role u) = Inr tok"
  shows "\<exists>d1 d2 t. route_setup_2fa raw who d = (d1, Inr (generate_totp_secret raw, totp_provisioning_uri (generate_totp_secret raw) n))
      \<and> lauthenticate cr mac cfg now n password None d1 = (d2, Inr t) \<and> lt_access_token t = tok"
proof -
  let ?d1 = "upd_user n (\<lambda>u. u\<lparr>lu_totp_secret := Some (generate_totp_secret raw), lu_totp_enabled := False\<rparr>) d"
  have r: "route_setup_2fa raw who d = (?d1, Inr (generate_totp_secret raw, totp_provisioning_uri (generate_totp_secret raw) n))"
    using assms(1-3) by (simp add: route_setup_2fa_def with_name_def lseq_def lret_def claim_text_def app_http_def setup_totp_def Let_def)
  have g: "get_user n ?d1 = Some (u\<lparr>lu_totp_secret := Some (generate_totp_secret raw), lu_totp_enabled := False\<rparr>)"
    using assms(3,4) by (simp add: get_user_update)
  have "\<exists>d2 t. lauthenticate cr mac cfg now n password None ?d1 = (d2, Inr t) \<and> lt_access_token t = tok"
    using assms(4-6) by (simp add: lauthenticate_def g lseq_def lret_def otp_part_def put_db_def)
  with r show ?thesis by blast
qed

datatype lcall =
    CLogin string string "string option"
  | CMe "string option"
  | CPassword "string option" string string
  | CSetup "string option" "byte list"
  | CEnable "string option" string
  | CDisable "string option"
  | CNewUser "string option" string string string

fun lexec :: "crypto \<Rightarrow> mac \<Rightarrow> (nat list \<Rightarrow> json res) \<Rightarrow> lconfig \<Rightarrow> rat \<times> lcall \<Rightarrow> ldb \<Rightarrow> ldb" where
  \<comment> \<open>one request at a time\<close>
  "lexec cr mac jl cfg (now, CLogin un pw otp) d = fst (route_login cr mac cfg now un pw otp d)"
| "lexec cr mac jl cfg (now, CMe t) d = fst (route_me (get_current_user mac jl cfg now t) d)"
| "lexec cr mac jl cfg (now, CPassword t old new) d = fst (route_change_password cr (get_current_user mac jl cfg now t) old new d)"
| "lexec cr mac jl cfg (now, CSetup t raw) d = fst (route_setup_2fa raw (get_current_user mac jl cfg now t) d)"
| "lexec cr mac jl cfg (now, CEnable t c) d = fst (route_enable_2fa cr now (get_current_user mac jl cfg now t) c d)"
| "lexec cr mac jl cfg (now, CDisable t) d = fst (route_disable_2fa (get_current_user mac jl cfg now t) d)"
| "lexec cr mac jl cfg (now, CNewUser t un pw role) d = fst (route_create_user cr (get_current_user mac jl cfg now t) un pw role d)"

definition name_role :: "luser_row \<Rightarrow> string \<times> string" where
  "name_role u = (lu_username u, lu_role u)"

definition luser_ok :: "luser_row \<Rightarrow> bool" where
  "luser_ok u = (lu_username u \<noteq> [] \<and> lower (strip (lu_username u)) = lu_username u \<and> lu_role u \<in> set VALID_ROLES
     \<and> (lu_totp_enabled u \<longrightarrow> lu_totp_secret u \<notin> {None, Some []}))"

definition lusers_ok :: "ldb \<Rightarrow> bool" where
  "lusers_ok d = (distinct (map lu_username (lusers d)) \<and> list_all luser_ok (lusers d))"

lemma lower_char_space: "is_space (lower_char c) = is_space c"
proof -
  have "code (char_of n) = n mod 256" for n by (simp add: code_def)
  then show ?thesis by (auto simp: is_space_def lower_char_def Let_def)
qed

lemma lower_char_idem: "lower_char (lower_char c) = lower_char c"
proof -
  have "code (char_of n) = n mod 256" for n by (simp add: code_def)
  then show ?thesis by (auto simp: lower_char_def Let_def)
qed

lemma strip_lower: "strip (lower s) = lower (strip s)"
proof -
  have d: "dropWhile is_space (map lower_char xs) = map lower_char (dropWhile is_space xs)" for xs
    by (induction xs) (simp_all add: lower_char_space)
  show ?thesis by (simp add: strip_def rstrip_by_def lower_def d rev_map)
qed

lemma strip_strip: "strip (strip s) = strip s"
proof -
  have "rstrip_by is_space (rstrip_by is_space t) = rstrip_by is_space t" for t by (simp add: rstrip_by_def)
  moreover have "dropWhile is_space (strip s) = strip s"
  proof (cases "strip s")
    case (Cons c r)
    let ?t = "dropWhile is_space s"
    have "?t = rstrip_by is_space ?t @ rev (takeWhile is_space (rev ?t))"
      unfolding rstrip_by_def rev_append [symmetric] takeWhile_dropWhile_id by simp
    then have "?t = c # (r @ rev (takeWhile is_space (rev ?t)))" using Cons by (simp add: strip_def)
    then have "\<not> is_space c" using hd_dropWhile [of is_space s] by (metis list.distinct(1) list.sel(1))
    with Cons show ?thesis by simp
  qed simp
  ultimately show ?thesis by (metis strip_def)
qed

lemma normal_name: "lower (strip (lower (strip s))) = lower (strip s)"
  by (simp add: strip_lower strip_strip) (simp add: lower_def lower_char_idem)

section \<open>Accounts stay well formed\<close>

definition kept :: "ldb \<Rightarrow> ldb \<Rightarrow> bool" where
  "kept d d' = (map name_role (lusers d') = map name_role (lusers d) \<and> (lusers_ok d \<longrightarrow> lusers_ok d'))"

lemma kept_refl [simp, intro]: "kept d d"
  by (simp add: kept_def)

lemma kept_trans: "kept a b \<Longrightarrow> kept b c \<Longrightarrow> kept a c"
  by (simp add: kept_def)

lemma kept_same: "lusers d' = lusers d \<Longrightarrow> kept d d'"
  by (simp add: kept_def lusers_ok_def)

lemma kept_laudit [simp]: "kept d (laudit un action detail d)"
  by (rule kept_same) (simp add: laudit_def)

lemma kept_lseq: "kept s (fst (m s)) \<Longrightarrow> (\<And>v t. m s = (t, Inr v) \<Longrightarrow> kept t (fst (k v t))) \<Longrightarrow> kept s (fst (lseq m k s))"
  by (auto simp: lseq_def split: prod.splits sum.splits intro: kept_trans)

lemma kept_lret [simp]: "kept s (fst (lret r s))"
  by (simp add: lret_def)

lemma kept_app_http: "kept s (fst (m s)) \<Longrightarrow> kept s (fst (app_http sc m s))"
  by (auto simp: app_http_def split: prod.splits sum.splits lexc.splits)

lemma kept_put_db: "kept d (f d) \<Longrightarrow> kept d (fst (put_db f d))"
  by (simp add: put_db_def)

lemma kept_upd_user:
  assumes "\<And>u. name_role (f u) = name_role u" and "\<And>u. lusers_ok d \<Longrightarrow> u \<in> set (lusers d) \<Longrightarrow> lu_username u = un \<Longrightarrow> luser_ok (f u)"
  shows "kept d (upd_user un f d)"
proof -
  have "map name_role (update_where p f us) = map name_role us" for p us using assms(1) by (auto simp: update_where_def)
  then have n: "map name_role (lusers (upd_user un f d)) = map name_role (lusers d)" by (simp add: upd_user_def)
  have "map lu_username us = map fst (map name_role us)" for us by (simp add: name_role_def)
  with n have "map lu_username (lusers (upd_user un f d)) = map lu_username (lusers d)" by metis
  moreover have "lusers_ok d \<Longrightarrow> list_all luser_ok (lusers (upd_user un f d))"
    using assms(2) by (auto simp: upd_user_def list_all_iff set_update_where lusers_ok_def)
  ultimately show ?thesis using n by (simp add: kept_def lusers_ok_def)
qed

lemma same_user:
  assumes "lusers_ok d" "get_user un d = Some v" "u \<in> set (lusers d)" "lu_username u = un"
  shows "u = v"
proof -
  have "lower (strip un) = un" using assms(1,3,4) by (auto simp: lusers_ok_def luser_ok_def list_all_iff)
  then have "select_one (\<lambda>w. lu_username w = un) (lusers d) = Some v" using assms(2) by (simp add: get_user_def)
  from select_one_Some [OF this] have "lu_username v = lu_username u" "v \<in> set (lusers d)" using assms(4) by simp_all
  then show ?thesis using assms(1,3) by (auto simp: lusers_ok_def distinct_map dest: inj_onD)
qed

lemma kept_lauthenticate: "kept d (fst (lauthenticate cr mac cfg now un password otp d))"
  unfolding lauthenticate_def otp_part_def by (auto split: option.split intro!: kept_lseq kept_put_db)

lemma kept_lchange_password: "kept d (fst (lchange_password cr un old new d))"
proof -
  have "kept d (upd_user un (lu_password_hash_update (\<lambda>_. h)) d)" for h
    by (rule kept_upd_user) (auto simp: name_role_def lusers_ok_def list_all_iff luser_ok_def)
  from kept_trans [OF this kept_laudit] show ?thesis by (auto simp: lchange_password_def split: option.split)
qed

lemma chunks_Nil_iff: "chunks n xs = [] \<longleftrightarrow> length xs \<le> n"
  by (subst chunks.simps) simp

lemma kept_setup_totp: "raw \<noteq> [] \<Longrightarrow> kept d (fst (setup_totp raw un d))"
proof -
  assume "raw \<noteq> []"
  then have "generate_totp_secret raw \<noteq> []"
    by (cases raw) (simp_all add: generate_totp_secret_def b32encode_unpadded_def chunks_Nil_iff)
  then have "kept d (upd_user un (\<lambda>u. u\<lparr>lu_totp_secret := Some (generate_totp_secret raw), lu_totp_enabled := False\<rparr>) d)"
    by (intro kept_upd_user) (auto simp: name_role_def lusers_ok_def list_all_iff luser_ok_def)
  then show ?thesis by (auto simp: setup_totp_def Let_def split: option.split)
qed

lemma kept_enable_totp: "kept d (fst (enable_totp cr now un c d))"
proof (cases "get_user un d")
  case (Some v)
  have "kept d (upd_user un (lu_totp_enabled_update (\<lambda>_. True)) d)" if "lu_totp_secret v \<notin> {None, Some []}"
  proof (rule kept_upd_user)
    fix u assume u: "lusers_ok d" "u \<in> set (lusers d)" "lu_username u = un"
    then have "u = v" using same_user Some by blast
    then show "luser_ok (lu_totp_enabled_update (\<lambda>_. True) u)" using u that by (auto simp: lusers_ok_def list_all_iff luser_ok_def)
  qed (simp add: name_role_def)
  from kept_trans [OF this kept_laudit] show ?thesis using Some by (auto simp: enable_totp_def split: sum.split bool.split)
qed (simp add: enable_totp_def)

lemma kept_disable_totp: "kept d (fst (disable_totp un d))"
proof -
  have "kept d (upd_user un (\<lambda>u. u\<lparr>lu_totp_enabled := False, lu_totp_secret := None\<rparr>) d)"
    by (rule kept_upd_user) (auto simp: name_role_def lusers_ok_def list_all_iff luser_ok_def)
  from kept_trans [OF this kept_laudit] show ?thesis by (simp add: disable_totp_def)
qed

lemma with_name_kept: "(\<And>n s. kept s (fst (f n s))) \<Longrightarrow> kept d (fst (with_name who f d))"
  unfolding with_name_def by (intro kept_lseq) auto

lemma lcreate_user_cases:
  obtains "fst (lcreate_user cr un password role d) = d"
  | "role \<in> set VALID_ROLES" "lower (strip un) \<noteq> []" "\<forall>u \<in> set (lusers d). lu_username u \<noteq> lower (strip un)"
    "lusers (fst (lcreate_user cr un password role d)) = lusers d @
       [\<lparr>lu_username = lower (strip un), lu_password_hash = lhash_password cr password, lu_role = role, lu_totp_secret = None, lu_totp_enabled = False\<rparr>]"
  by (cases "fst (lcreate_user cr un password role d) = d")
    (auto simp: lcreate_user_def Let_def laudit_def split: if_splits)

lemma lcreate_user_ok: "lusers_ok d \<Longrightarrow> lusers_ok (fst (lcreate_user cr un password role d))"
  by (rule lcreate_user_cases [of cr un password role d]) (auto simp: lusers_ok_def luser_ok_def normal_name)

definition call_fits :: "rat \<times> lcall \<Rightarrow> bool" where
  \<comment> \<open>\<open>os.urandom(20)\<close> gives twenty bytes\<close>
  "call_fits c = (case snd c of CSetup t raw \<Rightarrow> length raw = 20 | _ \<Rightarrow> True)"

lemma app_http_fst: "fst (app_http sc m s) = fst (m s)"
  by (auto simp: app_http_def split: prod.splits sum.splits lexc.splits)

lemma lexec_kept: "call_fits (now, c) \<Longrightarrow> (\<And>t un pw r. c \<noteq> CNewUser t un pw r) \<Longrightarrow> kept d (lexec cr mac jl cfg (now, c) d)"
  by (cases c)
    (auto simp: route_login_def app_http_fst kept_lauthenticate route_change_password_def route_setup_2fa_def route_enable_2fa_def
      route_disable_2fa_def kept_lchange_password kept_setup_totp kept_enable_totp kept_disable_totp route_me_def call_fits_def
      intro!: kept_lseq with_name_kept kept_setup_totp)

text \<open>The requests of the first panel as operations that keep an invariant, in the sense of \<open>Prelude.machine\<close>.\<close>

lemma lexec_ok: "lusers_ok d \<Longrightarrow> lusers_ok (if call_fits c then lexec cr mac jl cfg c d else d)"
proof (cases c)
  case (Pair now a)
  assume ok: "lusers_ok d"
  show ?thesis
  proof (cases "\<exists>t un pw r. a = CNewUser t un pw r")
    case True
    with ok lcreate_user_ok [OF ok] show ?thesis
      unfolding Pair by (auto simp: route_create_user_def lseq_def lret_def app_http_fst split: sum.split)
  next
    case False
    with ok lexec_kept [of now a] show ?thesis unfolding Pair kept_def by auto
  qed
qed

interpretation panel: machine "\<lambda>c d. if call_fits c then lexec cr mac jl cfg c d else d" lusers_ok for cr mac jl cfg
  by unfold_locales (rule lexec_ok)

text \<open>
  The accounts of the first panel stay well formed over every sequence of requests, whatever tokens they carry: names are distinct, not empty and
  normalised as logins look them up, roles are among the three that exist, and no account asks for codes without having a secret.
\<close>

theorem panel_accounts_well_formed:
  assumes "lusers_ok d" and "list_all call_fits cs"
  shows "lusers_ok (fold (lexec cr mac jl cfg) cs d)"
proof -
  have "fold (\<lambda>c d. if call_fits c then lexec cr mac jl cfg c d else d) cs d = fold (lexec cr mac jl cfg) cs d"
    using assms(2) by (induction cs arbitrary: d) auto
  with panel.run_inv [OF assms(1), of cr mac jl cfg cs] show ?thesis by simp
qed

text \<open>
  Names and roles change in one way only: a request that changes who has an account, or what role it has, is the creation of one new account by a
  caller whose token carries the administrator role.
\<close>

theorem only_admins_add_accounts:
  assumes "call_fits (now, c)" and "map name_role (lusers (lexec cr mac jl cfg (now, c) d)) \<noteq> map name_role (lusers d)"
  shows "\<exists>t un pw role who. c = CNewUser t un pw role \<and> get_current_user mac jl cfg now t = Inr who \<and> ca_role who = JStr ''admin''
    \<and> map name_role (lusers (lexec cr mac jl cfg (now, c) d)) = map name_role (lusers d) @ [(lower (strip un), role)]"
proof -
  obtain t un pw role where c: "c = CNewUser t un pw role" using lexec_kept [OF assms(1)] assms(2) by (metis kept_def)
  have ch: "map name_role (lusers (fst (route_create_user cr (get_current_user mac jl cfg now t) un pw role d))) \<noteq> map name_role (lusers d)"
    using assms(2) by (simp add: c)
  then obtain who where w: "require_role ''admin'' (get_current_user mac jl cfg now t) = Inr who"
    by (auto simp: route_create_user_def lseq_def lret_def split: sum.splits)
  then have g: "get_current_user mac jl cfg now t = Inr who" and "role_rank (ca_role who) \<noteq> Inr 0" and r: "\<not> (\<exists>n < 3. role_rank (ca_role who) = Inr n)"
    by (auto simp: require_role_def lbind_def ROLE_RANK_def dget_def split: sum.splits if_splits)
  then have a: "ca_role who = JStr ''admin''"
    using w by (auto simp: role_rank_def ROLE_RANK_def dget_def require_role_def lbind_def split: json.splits if_splits sum.splits)
  have l: "lusers (fst (route_create_user cr (get_current_user mac jl cfg now t) un pw role d)) =
      (if length pw < 8 then lusers d else lusers (fst (lcreate_user cr un pw role d)))"
    by (simp add: route_create_user_def lseq_def lret_def w app_http_fst)
  with ch have n: "\<not> length pw < 8" "lusers (fst (lcreate_user cr un pw role d)) \<noteq> lusers d" by (auto split: if_splits)
  have "map name_role (lusers (fst (lcreate_user cr un pw role d))) = map name_role (lusers d) @ [(lower (strip un), role)]"
    by (rule lcreate_user_cases [of cr un pw role d]) (use n in \<open>auto simp: name_role_def\<close>)
  with c g a l n show ?thesis by auto
qed

section \<open>Closed examples\<close>

definition demo_lconfig :: lconfig where
  "demo_lconfig = \<lparr>app_name = ''ICSD Panel'', lc_host = ''0.0.0.0'', lc_port = 8088, lc_debug = False, secret_key = ''k'', token_minutes = 720,
     database_url = ''sqlite:///./icsdpanel.db'', metrics_interval = ''2.0'', default_locale = ''fa''\<rparr>"

definition demo_account :: "string \<Rightarrow> string \<Rightarrow> bool \<Rightarrow> luser_row" where
  "demo_account name role otp = \<lparr>lu_username = name, lu_password_hash = ''$longpassword'', lu_role = role,
     lu_totp_secret = (if otp then Some ''AAAAAAAA'' else None), lu_totp_enabled = otp\<rparr>"

definition demo_panel :: ldb where
  "demo_panel = demo_ldb\<lparr>lusers := [demo_account ''root'' ''admin'' False, demo_account ''bob'' ''manager'' True]\<rparr>"

definition demo_mac :: mac where
  "demo_mac k m = [1]"

definition demo_loads :: "nat list \<Rightarrow> json res" where
  "demo_loads bs = (if bs = utf8 (claims_text ''root'' ''admin'' 43260) then Inr (claims ''root'' ''admin'' 43260) else Inl (ValueError ''json''))"

definition demo_token :: string where
  "demo_token = b64url (utf8 token_header) @ ''.'' @ b64url (utf8 (claims_text ''root'' ''admin'' 43260)) @ ''.'' @ b64url [1]"

lemma demo_expiry: "expiry 60 (token_minutes demo_lconfig) = Inr 43260"
  by code_simp

lemma demo_created: "create_access_token demo_mac demo_lconfig 60 ''root'' ''admin'' = Inr demo_token"
  by (simp add: create_access_token_def demo_expiry lbind_def Let_def demo_mac_def demo_token_def)

lemma demo_found: "get_user '' Root'' demo_panel = Some (demo_account ''root'' ''admin'' False)" "get_user ''bob'' demo_panel = Some (demo_account ''bob'' ''manager'' True)"
  by code_simp+

lemma demo_accepted:
  "get_current_user demo_mac demo_loads demo_lconfig 100 (Some demo_token) = Inr \<lparr>ca_username = JStr ''root'', ca_role = JStr ''admin''\<rparr>"
proof -
  have "decode_token demo_mac demo_loads demo_lconfig 100 demo_token = Inr [(''sub'', JStr ''root''), (''role'', JStr ''admin''), (''exp'', JInt 43260)]"
    by (subst decode_created [OF demo_created demo_expiry]) (simp_all add: demo_mac_def demo_loads_def py_trunc_def)
  moreover have "demo_token \<noteq> []" by (simp add: demo_token_def)
  ultimately show ?thesis by (simp add: get_current_user_def)
qed

theorem login_token_authenticates_witness:
  "\<exists>d' t. lauthenticate demo_crypto demo_mac demo_lconfig 60 '' Root'' ''longpassword'' None demo_panel = (d', Inr t)
     \<and> get_current_user demo_mac demo_loads demo_lconfig 43261 (Some (lt_access_token t)) = Inl (LHttp 401 ''invalid token: token expired'')"
proof -
  have "lverify_password demo_crypto ''longpassword'' (lu_password_hash (demo_account ''root'' ''admin'' False))" by code_simp
  then obtain d' t where l: "lauthenticate demo_crypto demo_mac demo_lconfig 60 '' Root'' ''longpassword'' None demo_panel = (d', Inr t)"
    and t: "lt_username t = ''root'' \<and> lt_role t = ''admin''"
    by (simp add: lauthenticate_def demo_found demo_account_def lseq_def lret_def otp_part_def demo_created put_db_def)
  from login_token_authenticates [OF l demo_expiry, of demo_loads] t
  have "get_current_user demo_mac demo_loads demo_lconfig 43261 (Some (lt_access_token t)) = Inl (LHttp 401 ''invalid token: token expired'')"
    by (auto simp: demo_mac_def demo_loads_def py_trunc_def)
  with l show ?thesis by blast
qed

theorem accepted_token_is_signed_witness:
  "\<exists>h p. demo_token = h @ ''.'' @ p @ ''.'' @ b64url (demo_mac (utf8 (secret_key demo_lconfig)) (utf8 (h @ ''.'' @ p)))"
  using accepted_token_is_signed [OF demo_accepted] by blast

theorem setup_switches_2fa_off_witness:
  "\<exists>d1 d2 t. route_setup_2fa (replicate 20 0) (Inr \<lparr>ca_username = JStr ''bob'', ca_role = JStr ''manager''\<rparr>) demo_panel = (d1, Inr (generate_totp_secret (replicate 20 0), totp_provisioning_uri (generate_totp_secret (replicate 20 0)) ''bob''))
     \<and> lauthenticate demo_crypto demo_mac demo_lconfig 60 ''bob'' ''longpassword'' None d1 = (d2, Inr t)"
proof -
  have "lverify_password demo_crypto ''longpassword'' (lu_password_hash (demo_account ''bob'' ''manager'' True))" "lu_username (demo_account ''bob'' ''manager'' True) = ''bob''"
    by code_simp+
  moreover obtain tok where "create_access_token demo_mac demo_lconfig 60 ''bob'' (lu_role (demo_account ''bob'' ''manager'' True)) = Inr tok"
    by (simp add: create_access_token_def demo_expiry lbind_def Let_def)
  ultimately show ?thesis
    using setup_switches_2fa_off [OF refl, of "\<lparr>ca_username = JStr ''bob'', ca_role = JStr ''manager''\<rparr>" "''bob''" demo_panel "demo_account ''bob'' ''manager'' True"] demo_found(2)
    by (metis caller.select_convs(1))
qed

theorem panel_accounts_well_formed_witness:
  "lusers_ok (fold (lexec demo_crypto demo_mac demo_loads demo_lconfig) [(60, CLogin ''root'' ''longpassword'' None), (100, CDisable (Some demo_token))] demo_panel)"
proof -
  have "lusers_ok demo_panel" by code_simp
  moreover have "list_all call_fits [(60 :: rat, CLogin ''root'' ''longpassword'' None), (100, CDisable (Some demo_token))]" by (simp add: call_fits_def)
  ultimately show ?thesis by (rule panel_accounts_well_formed)
qed

theorem only_admins_add_accounts_witness:
  "map name_role (lusers (lexec demo_crypto demo_mac demo_loads demo_lconfig (100, CNewUser (Some demo_token) ''Eve'' ''longpassword'' ''readonly'') demo_panel))
     = map name_role (lusers demo_panel) @ [(''eve'', ''readonly'')]"
proof -
  let ?d = "lexec demo_crypto demo_mac demo_loads demo_lconfig (100, CNewUser (Some demo_token) ''Eve'' ''longpassword'' ''readonly'') demo_panel"
  have s: "lower (strip ''Eve'') = ''eve''" by code_simp
  have "fst (lcreate_user demo_crypto ''Eve'' ''longpassword'' ''readonly'' demo_panel) \<noteq> demo_panel
    \<and> map name_role (lusers (fst (lcreate_user demo_crypto ''Eve'' ''longpassword'' ''readonly'' demo_panel))) \<noteq> map name_role (lusers demo_panel)"
    by (simp add: lcreate_user_def s demo_panel_def demo_account_def VALID_ROLES_def laudit_def demo_ldb_def Let_def)
  then have "map name_role (lusers ?d) \<noteq> map name_role (lusers demo_panel)"
    by (simp add: route_create_user_def demo_accepted require_role_def lbind_def role_rank_def ROLE_RANK_def dget_def lseq_def lret_def app_http_fst)
  from only_admins_add_accounts [OF _ this] s show ?thesis by (auto simp: call_fits_def)
qed

end
