(* ===== verification/Dns.thy ===== *)
theory Dns
  imports Tokens Backups "HOL-Library.List_Lexorder" "HOL-Library.Char_ord"
begin

text \<open>
  The zone editor of the first panel (\<open>legacy/v1/backend/app/services/dns.py\<close>, \<open>api/dns.py\<close>): zones and records are kept in tables, the text of the
  zone file is generated from them and written to the name server's directory with \<open>tee\<close>. The state is the database and the
  world of the shell; the date is the parameter \<open>today\<close>, an integer such as 20240131.
\<close>

section \<open>Environment\<close>

record 'w bind_env =
  ZONES_DIR :: string
  INCLUDE_FILE :: string
  NAMED_CONF_LOCAL :: string
  BIND_SERVICE :: string
  is_dir :: "'w \<Rightarrow> string \<Rightarrow> bool" \<comment> \<open>\<open>os.path.isdir\<close>\<close>
  is_file :: "'w \<Rightarrow> string \<Rightarrow> bool" \<comment> \<open>\<open>os.path.isfile\<close>\<close>
  read_file :: "'w \<Rightarrow> string \<Rightarrow> string option" \<comment> \<open>\<open>None\<close> for an \<open>OSError\<close>\<close>

definition bind_installed :: "'w bind_env \<Rightarrow> host_env \<Rightarrow> 'w \<Rightarrow> bool" where
  "bind_installed be h w = (has h ''named'' \<or> has h ''named-checkzone'' \<or> is_dir be w ''/etc/bind'')"

section \<open>Checks\<close>

definition label_char :: "char \<Rightarrow> bool" where
  "label_char c = (alpha_ascii c \<or> ascii_digit c \<or> c = CHR ''-'')"

definition label_ok :: "string \<Rightarrow> bool" where
  "label_ok l = (l \<noteq> [] \<and> length l \<le> 63 \<and> list_all label_char l \<and> hd l \<noteq> CHR ''-'' \<and> last l \<noteq> CHR ''-'')"

definition drop_final_nl :: "string \<Rightarrow> string" where
  \<comment> \<open>\<open>$\<close> of a pattern also matches before a line feed at the very end\<close>
  "drop_final_nl s = (if s \<noteq> [] \<and> last s = NL then butlast s else s)"

definition domain_ok :: "string \<Rightarrow> bool" where
  \<comment> \<open>\<open>_DOMAIN_RE.match\<close>\<close>
  "domain_ok s =
     (let t = drop_final_nl s; ls = split_on (CHR ''.'') t
      in 1 \<le> length t \<and> length t \<le> 253 \<and> 2 \<le> length ls \<and> list_all label_ok ls)"

definition validate_domain :: "string \<Rightarrow> string lres" where
  "validate_domain s =
     (let d = rstrip_char (CHR ''.'') (lower (strip s)) in if domain_ok d then Inr d else Inl (AppError ''invalid domain''))"

definition RECORD_TYPES :: "string list" where
  "RECORD_TYPES = [''A'', ''AAAA'', ''CNAME'', ''MX'', ''TXT'', ''NS'', ''SRV'', ''CAA'', ''PTR'']"

definition upper_text :: "char \<Rightarrow> string" where
  \<comment> \<open>\<open>str.upper\<close>; the capitals of the micro sign and of y with diaeresis lie beyond U+00FF and are left alone\<close>
  "upper_text c =
     (let n = code c in
      if 97 \<le> n \<and> n \<le> 122 \<or> 224 \<le> n \<and> n \<le> 254 \<and> n \<noteq> 247 then [char_of (n - 32)] else if n = 223 then ''SS'' else [c])"

definition upper :: "string \<Rightarrow> string" where
  "upper s = concat (map upper_text s)"

definition record_name_ok :: "string \<Rightarrow> bool" where
  "record_name_ok n =
     (n = ''@'' \<or> n = ''*'' \<or> n \<noteq> [] \<and> list_all (\<lambda>c. alpha_ascii c \<or> ascii_digit c \<or> c \<in> {CHR ''_'', CHR ''.'', CHR ''-''}) n)"

definition validate_record :: "string \<Rightarrow> string \<Rightarrow> string \<Rightarrow> int option \<Rightarrow> (string \<times> string \<times> string \<times> int option) lres" where
  \<comment> \<open>\<open>_NAME_RE\<close> is applied to a text without blanks at its ends, where \<open>$\<close> means the end\<close>
  "validate_record rtype0 name0 content0 prio =
     (let rtype = strip (upper rtype0); name = strip (if name0 = [] then ''@'' else name0); content = strip content0 in
      if rtype \<notin> set RECORD_TYPES then Inl (AppError (''invalid record type: '' @ rtype))
      else if \<not> record_name_ok name then Inl (AppError ''invalid record name'')
      else if content = [] \<or> NL \<in> set content \<or> CR \<in> set content then Inl (AppError ''invalid record content'')
      else Inr (rtype, name, content,
             if rtype \<in> {''MX'', ''SRV''} then Some (case prio of None \<Rightarrow> 10 | Some p \<Rightarrow> p) else None))"

section \<open>Tables\<close>

definition get_zone :: "int \<Rightarrow> ldb \<Rightarrow> zone_row option" where
  "get_zone zid d = select_one (\<lambda>z. zn_id z = zid) (dns_zones d)"

definition get_zone_by_domain :: "string \<Rightarrow> ldb \<Rightarrow> zone_row option" where
  "get_zone_by_domain dn d = select_one (\<lambda>z. zn_domain z = dn) (dns_zones d)"

definition list_zones :: "ldb \<Rightarrow> (zone_row \<times> nat) list" where
  \<comment> \<open>each with its \<open>record_count\<close>\<close>
  "list_zones d = map (\<lambda>z. (z, length (filter (\<lambda>r. dr_zone_id r = zn_id z) (dns_records d)))) (sort_key zn_domain (dns_zones d))"

definition list_records :: "int \<Rightarrow> ldb \<Rightarrow> dns_row list" where
  \<comment> \<open>\<open>ORDER BY type, name\<close>\<close>
  "list_records zid d = sort_key dr_type (sort_key dr_name (filter (\<lambda>r. dr_zone_id r = zid) (dns_records d)))"

definition new_serial :: "int \<Rightarrow> int" where
  "new_serial today = today * 100 + 1"

definition bump_serial :: "int \<Rightarrow> int \<Rightarrow> ldb \<Rightarrow> ldb" where
  "bump_serial today zid d =
     (case get_zone zid d of
        None \<Rightarrow> d
      | Some z \<Rightarrow>
          d\<lparr>dns_zones := update_where (\<lambda>y. zn_id y = zid) (\<lambda>y. y\<lparr>zn_serial := max (zn_serial z + 1) (today * 100 + 1)\<rparr>) (dns_zones d)\<rparr>)"

section \<open>The zone file\<close>

definition TAB :: char where "TAB = CHR 0x09"

definition replace_first :: "char \<Rightarrow> char \<Rightarrow> string \<Rightarrow> string" where
  \<comment> \<open>\<open>s.replace(a, b, 1)\<close>\<close>
  "replace_first a b s =
     (case dropWhile (\<lambda>c. c \<noteq> a) s of [] \<Rightarrow> s | _ # r \<Rightarrow> takeWhile (\<lambda>c. c \<noteq> a) s @ b # r)"

definition escape_quotes :: "string \<Rightarrow> string" where
  "escape_quotes s = concat (map (\<lambda>c. if c = CHR 0x22 then [CHR 0x5C, CHR 0x22] else [c]) s)"

definition txt_content :: "string \<Rightarrow> string" where
  "txt_content content =
     (if startswith content [CHR 0x22] then content else [CHR 0x22] @ escape_quotes content @ [CHR 0x22])"

definition zone_ttl :: "zone_row \<Rightarrow> int" where
  "zone_ttl z = (if zn_ttl z = 0 then 3600 else zn_ttl z)"

definition record_line :: "int \<Rightarrow> dns_row \<Rightarrow> string" where
  "record_line ttl r =
     (let name = (if dr_name r = [] then ''@'' else dr_name r);
          rttl = (if dr_ttl r = 0 then ttl else dr_ttl r);
          content = (if dr_type r = ''TXT'' then txt_content (dr_content r) else dr_content r)
      in name @ [TAB] @ str_int rttl @ [TAB] @ ''IN'' @ [TAB] @ dr_type r @ [TAB] @
         (if dr_type r \<in> {''MX'', ''SRV''} then str_int (case dr_priority r of None \<Rightarrow> 10 | Some p \<Rightarrow> p) @ '' '' @ content else content))"

definition zone_header :: "int \<Rightarrow> zone_row \<Rightarrow> string list" where
  "zone_header today z =
     (let ns1 = rstrip_char (CHR ''.'') (if zn_ns1 z = [] then ''ns1.'' @ zn_domain z else zn_ns1 z);
          admin = rstrip_char (CHR ''.'') (replace_first (CHR ''@'') (CHR ''.'') (if zn_admin_email z = [] then ''admin@'' @ zn_domain z else zn_admin_email z));
          serial = (if zn_serial z = 0 then new_serial today else zn_serial z)
      in [''$TTL '' @ str_int (zone_ttl z),
          ''@'' @ [TAB] @ ''IN'' @ [TAB] @ ''SOA'' @ [TAB] @ ns1 @ ''. '' @ admin @ ''. ('',
          [TAB, TAB] @ str_int serial @ [TAB] @ ''; serial'',
          [TAB, TAB] @ ''3600'' @ [TAB, TAB] @ ''; refresh'',
          [TAB, TAB] @ ''1800'' @ [TAB, TAB] @ ''; retry'',
          [TAB, TAB] @ ''1209600'' @ [TAB] @ ''; expire'',
          [TAB, TAB] @ ''86400 )'' @ [TAB] @ ''; minimum'',
          []])"

definition generate_zonefile :: "int \<Rightarrow> zone_row \<Rightarrow> dns_row list \<Rightarrow> string" where
  "generate_zonefile today z rs = join_with [NL] (zone_header today z @ map (record_line (zone_ttl z)) rs) @ [NL]"

definition export_zonefile :: "int \<Rightarrow> int \<Rightarrow> ldb \<Rightarrow> string lres" where
  "export_zonefile today zid d =
     (case get_zone zid d of None \<Rightarrow> Inl (AppError ''zone not found'') | Some z \<Rightarrow> Inr (generate_zonefile today z (list_records zid d)))"

section \<open>Writing it\<close>

definition sudo_write :: "'w shell \<Rightarrow> host_env \<Rightarrow> string \<Rightarrow> string \<Rightarrow> (ldb \<times> 'w, unit) lio" where
  "sudo_write sh h path content =
     lseq (on_world (feed sh h [''tee'', path] content)) (\<lambda>(rc, err).
     lret (if rc \<noteq> 0 then Inl (AppError (''write failed ('' @ path @ ''): '' @ take 160 err)) else Inr ()))"

definition zone_file_path :: "'w bind_env \<Rightarrow> string \<Rightarrow> string" where
  "zone_file_path be dn = posix_join (ZONES_DIR be) (''db.'' @ dn)"

definition remove_zone_file :: "'w shell \<Rightarrow> 'w bind_env \<Rightarrow> host_env \<Rightarrow> string \<Rightarrow> (ldb \<times> 'w, unit) lio" where
  "remove_zone_file sh be h dn = lseq (on_world (run_priv sh h [''rm'', ''-f'', zone_file_path be dn] 60 False)) (\<lambda>_. lret (Inr ()))"

definition zone_block :: "'w bind_env \<Rightarrow> zone_row \<Rightarrow> string" where
  "zone_block be z =
     ''zone '' @ [CHR 0x22] @ zn_domain z @ [CHR 0x22] @ '' {'' @ [NL] @ ''    type master;'' @ [NL] @ ''    file '' @ [CHR 0x22]
     @ zone_file_path be (zn_domain z) @ [CHR 0x22] @ '';'' @ [NL] @ ''};''"

definition ensure_included :: "'w shell \<Rightarrow> 'w bind_env \<Rightarrow> host_env \<Rightarrow> (ldb \<times> 'w, unit) lio" where
  \<comment> \<open>the end of \<open>_write_include\<close>\<close>
  "ensure_included sh be h s =
     (let current = (case read_file be (snd s) (NAMED_CONF_LOCAL be) of None \<Rightarrow> [] | Some t \<Rightarrow> t) in
      if \<not> is_file be (snd s) (NAMED_CONF_LOCAL be) \<or> contains current (INCLUDE_FILE be) then lret (Inr ()) s
      else sudo_write sh h (NAMED_CONF_LOCAL be) (current @ [NL] @ ''include '' @ [CHR 0x22] @ INCLUDE_FILE be @ [CHR 0x22] @ '';'' @ [NL]) s)"

definition write_include :: "'w shell \<Rightarrow> 'w bind_env \<Rightarrow> host_env \<Rightarrow> (ldb \<times> 'w, unit) lio" where
  "write_include sh be h s =
     lseq (sudo_write sh h (INCLUDE_FILE be) (join_with [NL] (map (zone_block be \<circ> fst) (list_zones (fst s))) @ [NL])) (\<lambda>_. ensure_included sh be h) s"

definition reload_bind :: "'w shell \<Rightarrow> 'w bind_env \<Rightarrow> host_env \<Rightarrow> (ldb \<times> 'w, unit) lio" where
  "reload_bind sh be h = lseq (on_world (run_priv sh h [''systemctl'', ''reload'', BIND_SERVICE be] 60 False)) (\<lambda>_. lret (Inr ()))"

definition check_zone :: "'w shell \<Rightarrow> host_env \<Rightarrow> string \<Rightarrow> string \<Rightarrow> (ldb \<times> 'w, unit) lio" where
  "check_zone sh h domain zf =
     (if has h ''named-checkzone''
      then lseq (on_world (run_priv sh h [''named-checkzone'', domain, zf] 60 False)) (\<lambda>r.
           lret (if cr_ok r then Inr () else Inl (AppError (''invalid zone: '' @ (if cr_stdout r = [] then cr_stderr r else cr_stdout r)))))
      else lret (Inr ()))"

definition publish_zone :: "'w shell \<Rightarrow> 'w bind_env \<Rightarrow> host_env \<Rightarrow> string \<Rightarrow> string \<Rightarrow> (ldb \<times> 'w, string \<times> string) lio" where
  \<comment> \<open>the steps of \<open>apply_zone\<close>, for the text of the zone file\<close>
  "publish_zone sh be h domain content =
     (let zf = zone_file_path be domain in
      lseq (on_world (run_priv sh h [''mkdir'', ''-p'', ZONES_DIR be] 60 False)) (\<lambda>_.
      lseq (sudo_write sh h zf content) (\<lambda>_.
      lseq (write_include sh be h) (\<lambda>_.
      lseq (check_zone sh h domain zf) (\<lambda>_.
      lseq (reload_bind sh be h) (\<lambda>_.
      lseq (on_db (laudit None ''dns.apply'' domain)) (\<lambda>_. lret (Inr (domain, zf)))))))))"

definition apply_zone :: "'w shell \<Rightarrow> 'w bind_env \<Rightarrow> host_env \<Rightarrow> int \<Rightarrow> int \<Rightarrow> (ldb \<times> 'w, string \<times> string) lio" where
  "apply_zone sh be h today zid s =
     (case get_zone zid (fst s) of
        None \<Rightarrow> (s, Inl (AppError ''zone not found''))
      | Some z \<Rightarrow>
          if \<not> bind_installed be h (snd s) then (s, Inl (AppError ''BIND not installed; use export''))
          else publish_zone sh be h (zn_domain z) (generate_zonefile today z (list_records zid (fst s))) s)"

definition dns_status :: "'w bind_env \<Rightarrow> host_env \<Rightarrow> 'w \<Rightarrow> bool \<times> string \<times> string" where
  \<comment> \<open>installed or not, the directory and the service; the hint repeats the first\<close>
  "dns_status be h w = (bind_installed be h w, ZONES_DIR be, BIND_SERVICE be)"

section \<open>Zones\<close>

definition ignoring :: "(lexc \<Rightarrow> bool) \<Rightarrow> ('s, unit) lio \<Rightarrow> ('s, unit) lio" where
  \<comment> \<open>\<open>try: m except \<dots>: pass\<close>\<close>
  "ignoring caught m s = (case m s of (s', Inl e) \<Rightarrow> (s', if caught e then Inr () else Inl e) | r \<Rightarrow> r)"

definition app_error :: "lexc \<Rightarrow> bool" where
  "app_error e = (case e of AppError _ \<Rightarrow> True | _ \<Rightarrow> False)"

definition is_installed :: "'w bind_env \<Rightarrow> host_env \<Rightarrow> (ldb \<times> 'w, bool) lio" where
  "is_installed be h s = (s, Inr (bind_installed be h (snd s)))"

definition quietly :: "('s, 'v) lio \<Rightarrow> ('s, unit) lio" where
  "quietly m = lseq m (\<lambda>_. lret (Inr ()))"

definition add_rows :: "zone_row \<Rightarrow> string list \<Rightarrow> ldb \<Rightarrow> ldb" where
  \<comment> \<open>the new zone with its name server records\<close>
  "add_rows z nss d =
     fold (\<lambda>ns d. d\<lparr>dns_records := dns_records d @ [\<lparr>dr_id = record_seq d + 1, dr_zone_id = zn_id z, dr_name = ''@'', dr_type = ''NS'',
              dr_content = ns @ ''.'', dr_ttl = zn_ttl z, dr_priority = None\<rparr>], record_seq := record_seq d + 1\<rparr>)
       nss (d\<lparr>dns_zones := dns_zones d @ [z], zone_seq := zn_id z\<rparr>)"

definition create_zone ::
  "'w shell \<Rightarrow> 'w bind_env \<Rightarrow> host_env \<Rightarrow> int \<Rightarrow> string \<Rightarrow> string \<Rightarrow> string \<Rightarrow> string \<Rightarrow> int \<Rightarrow> bool \<Rightarrow> (ldb \<times> 'w, zone_row) lio" where
  "create_zone sh be h today domain0 ns1_0 ns2_0 email ttl app =
     lseq (lret (validate_domain domain0)) (\<lambda>domain s.
       if get_zone_by_domain domain (fst s) \<noteq> None then (s, Inl (AppError ''zone already exists''))
       else
         let ns1 = rstrip_char (CHR ''.'') (strip (if ns1_0 = [] then ''ns1.'' @ domain else ns1_0));
             ns2 = rstrip_char (CHR ''.'') (strip (if ns2_0 = [] then ''ns2.'' @ domain else ns2_0));
             z = \<lparr>zn_id = zone_seq (fst s) + 1, zn_domain = domain, zn_ns1 = ns1, zn_ns2 = ns2,
                  zn_admin_email = strip (if email = [] then ''admin@'' @ domain else email), zn_ttl = ttl, zn_serial = new_serial today\<rparr> in
         lseq (on_db (add_rows z [ns1, ns2])) (\<lambda>_.
         lseq (on_db (laudit None ''dns.create_zone'' domain)) (\<lambda>_.
         lseq (is_installed be h) (\<lambda>inst.
         lseq (if app \<and> inst then ignoring app_error (quietly (apply_zone sh be h today (zn_id z))) else lret (Inr ())) (\<lambda>_.
         lret (Inr z))))) s)"

definition delete_zone :: "'w shell \<Rightarrow> 'w bind_env \<Rightarrow> host_env \<Rightarrow> int \<Rightarrow> bool \<Rightarrow> (ldb \<times> 'w, unit) lio" where
  "delete_zone sh be h zid app s =
     (case get_zone zid (fst s) of
        None \<Rightarrow> (s, Inl (AppError ''zone not found''))
      | Some z \<Rightarrow>
          lseq (on_db (\<lambda>d. d\<lparr>dns_records := delete_where (\<lambda>r. dr_zone_id r = zid) (dns_records d), dns_zones := delete_where (\<lambda>y. zn_id y = zid) (dns_zones d)\<rparr>)) (\<lambda>_.
          lseq (is_installed be h) (\<lambda>inst.
          lseq (if app \<and> inst
                then ignoring (\<lambda>_. True) (lseq (remove_zone_file sh be h (zn_domain z)) (\<lambda>_. lseq (write_include sh be h) (\<lambda>_. reload_bind sh be h)))
                else lret (Inr ())) (\<lambda>_.
          on_db (laudit None ''dns.delete_zone'' (zn_domain z))))) s)"

section \<open>Records\<close>

definition apply_after :: "'w shell \<Rightarrow> 'w bind_env \<Rightarrow> host_env \<Rightarrow> int \<Rightarrow> int \<Rightarrow> bool \<Rightarrow> (ldb \<times> 'w, unit) lio" where
  \<comment> \<open>what follows a change of the records of a zone\<close>
  "apply_after sh be h today zid app =
     lseq (on_db (bump_serial today zid)) (\<lambda>_.
     lseq (is_installed be h) (\<lambda>inst. if app \<and> inst then quietly (apply_zone sh be h today zid) else lret (Inr ())))"

definition or_3600 :: "int \<Rightarrow> int" where
  "or_3600 ttl = (if ttl = 0 then 3600 else ttl)"

definition add_record ::
  "'w shell \<Rightarrow> 'w bind_env \<Rightarrow> host_env \<Rightarrow> int \<Rightarrow> int \<Rightarrow> string \<Rightarrow> string \<Rightarrow> string \<Rightarrow> int \<Rightarrow> int option \<Rightarrow> bool \<Rightarrow> (ldb \<times> 'w, dns_row) lio" where
  "add_record sh be h today zid rtype0 name0 content0 ttl prio0 app s =
     (if get_zone zid (fst s) = None then (s, Inl (AppError ''zone not found''))
      else lseq (lret (validate_record rtype0 name0 content0 prio0)) (\<lambda>(rtype, name, content, prio) s.
        let r = \<lparr>dr_id = record_seq (fst s) + 1, dr_zone_id = zid, dr_name = name, dr_type = rtype, dr_content = content,
                 dr_ttl = or_3600 ttl, dr_priority = prio\<rparr> in
        lseq (on_db (\<lambda>d. d\<lparr>dns_records := dns_records d @ [r], record_seq := dr_id r\<rparr>)) (\<lambda>_.
        lseq (apply_after sh be h today zid app) (\<lambda>_.
        lseq (on_db (laudit None ''dns.add_record'' (rtype @ '' '' @ name @ '' -> '' @ content))) (\<lambda>_. lret (Inr r)))) s) s)"

definition get_record :: "int \<Rightarrow> ldb \<Rightarrow> dns_row option" where
  "get_record rid d = select_one (\<lambda>r. dr_id r = rid) (dns_records d)"

definition update_record ::
  "'w shell \<Rightarrow> 'w bind_env \<Rightarrow> host_env \<Rightarrow> int \<Rightarrow> int \<Rightarrow> string \<Rightarrow> string \<Rightarrow> string \<Rightarrow> int \<Rightarrow> int option \<Rightarrow> bool \<Rightarrow> (ldb \<times> 'w, unit) lio" where
  "update_record sh be h today rid rtype0 name0 content0 ttl prio0 app s =
     (case get_record rid (fst s) of
        None \<Rightarrow> (s, Inl (AppError ''record not found''))
      | Some row \<Rightarrow>
          lseq (lret (validate_record rtype0 name0 content0 prio0)) (\<lambda>(rtype, name, content, prio).
          lseq (on_db (\<lambda>d. d\<lparr>dns_records := update_where (\<lambda>r. dr_id r = rid)
                  (\<lambda>r. r\<lparr>dr_name := name, dr_type := rtype, dr_content := content, dr_ttl := or_3600 ttl, dr_priority := prio\<rparr>) (dns_records d)\<rparr>)) (\<lambda>_.
          lseq (apply_after sh be h today (dr_zone_id row) app) (\<lambda>_.
          on_db (laudit None ''dns.update_record'' (rtype @ '' '' @ name))))) s)"

definition delete_record :: "'w shell \<Rightarrow> 'w bind_env \<Rightarrow> host_env \<Rightarrow> int \<Rightarrow> int \<Rightarrow> bool \<Rightarrow> (ldb \<times> 'w, unit) lio" where
  "delete_record sh be h today rid app s =
     (case get_record rid (fst s) of
        None \<Rightarrow> (s, Inl (AppError ''record not found''))
      | Some row \<Rightarrow>
          lseq (on_db (\<lambda>d. d\<lparr>dns_records := delete_where (\<lambda>r. dr_id r = rid) (dns_records d)\<rparr>)) (\<lambda>_.
          lseq (apply_after sh be h today (dr_zone_id row) app) (\<lambda>_.
          on_db (laudit None ''dns.delete_record'' (str_int rid)))) s)"

section \<open>Routes\<close>

definition as_manager :: "caller lres \<Rightarrow> ('s, 'v) lio \<Rightarrow> ('s, 'v) lio" where
  \<comment> \<open>\<open>Depends(require_role("manager"))\<close> before the body of a route\<close>
  "as_manager who m = lseq (lret (require_role ''manager'' who)) (\<lambda>_. m)"

definition route_list_zones :: "'w bind_env \<Rightarrow> host_env \<Rightarrow> caller lres \<Rightarrow> (ldb \<times> 'w, (zone_row \<times> nat) list \<times> bool \<times> string \<times> string) lio" where
  "route_list_zones be h who = lseq (lret who) (\<lambda>_ s. (s, Inr (list_zones (fst s), dns_status be h (snd s))))"

definition route_create_zone ::
  "'w shell \<Rightarrow> 'w bind_env \<Rightarrow> host_env \<Rightarrow> int \<Rightarrow> caller lres \<Rightarrow> string \<Rightarrow> string \<Rightarrow> string \<Rightarrow> string \<Rightarrow> int \<Rightarrow> (ldb \<times> 'w, zone_row) lio" where
  "route_create_zone sh be h today who domain ns1 ns2 email ttl =
     as_manager who (app_http 400 (create_zone sh be h today domain ns1 ns2 email ttl True))"

definition route_list_records :: "caller lres \<Rightarrow> int \<Rightarrow> (ldb \<times> 'w, zone_row \<times> dns_row list \<times> string list) lio" where
  "route_list_records who zid =
     lseq (lret who) (\<lambda>_ s.
       (s, case get_zone zid (fst s) of
             None \<Rightarrow> Inl (LHttp 404 ''zone not found'') | Some z \<Rightarrow> Inr (z, list_records zid (fst s), sort RECORD_TYPES)))"

definition route_export_zone :: "caller lres \<Rightarrow> int \<Rightarrow> int \<Rightarrow> (ldb \<times> 'w, string) lio" where
  "route_export_zone who today zid = lseq (lret who) (\<lambda>_. app_http 404 (\<lambda>s. (s, export_zonefile today zid (fst s))))"

definition route_apply_zone :: "'w shell \<Rightarrow> 'w bind_env \<Rightarrow> host_env \<Rightarrow> int \<Rightarrow> caller lres \<Rightarrow> int \<Rightarrow> (ldb \<times> 'w, string \<times> string) lio" where
  "route_apply_zone sh be h today who zid = as_manager who (app_http 400 (apply_zone sh be h today zid))"

definition route_delete_zone :: "'w shell \<Rightarrow> 'w bind_env \<Rightarrow> host_env \<Rightarrow> caller lres \<Rightarrow> int \<Rightarrow> (ldb \<times> 'w, unit) lio" where
  "route_delete_zone sh be h who zid = as_manager who (app_http 400 (delete_zone sh be h zid True))"

definition route_add_record ::
  "'w shell \<Rightarrow> 'w bind_env \<Rightarrow> host_env \<Rightarrow> int \<Rightarrow> caller lres \<Rightarrow> int \<Rightarrow> string \<Rightarrow> string \<Rightarrow> string \<Rightarrow> int \<Rightarrow> int option \<Rightarrow> (ldb \<times> 'w, dns_row) lio" where
  "route_add_record sh be h today who zid rtype name content ttl prio =
     as_manager who (app_http 400 (add_record sh be h today zid rtype name content ttl prio True))"

definition route_update_record ::
  "'w shell \<Rightarrow> 'w bind_env \<Rightarrow> host_env \<Rightarrow> int \<Rightarrow> caller lres \<Rightarrow> int \<Rightarrow> string \<Rightarrow> string \<Rightarrow> string \<Rightarrow> int \<Rightarrow> int option \<Rightarrow> (ldb \<times> 'w, unit) lio" where
  "route_update_record sh be h today who rid rtype name content ttl prio =
     as_manager who (app_http 400 (update_record sh be h today rid rtype name content ttl prio True))"

definition route_delete_record :: "'w shell \<Rightarrow> 'w bind_env \<Rightarrow> host_env \<Rightarrow> int \<Rightarrow> caller lres \<Rightarrow> int \<Rightarrow> (ldb \<times> 'w, unit) lio" where
  "route_delete_record sh be h today who rid = as_manager who (app_http 400 (delete_record sh be h today rid True))"

section \<open>What the name server's side can change\<close>

text \<open>Steps that leave every table alone but the audit log.\<close>

definition quiet :: "(ldb \<times> 'w, 'v) lio \<Rightarrow> bool" where
  "quiet m = (\<forall>s. \<exists>l. fst (fst (m s)) = (fst s)\<lparr>laudit_log := l\<rparr>)"

lemma quietI: "(\<And>s. \<exists>l. fst (fst (m s)) = (fst s)\<lparr>laudit_log := l\<rparr>) \<Longrightarrow> quiet m"
  by (simp add: quiet_def)

lemma quiet_same: "(\<And>s. fst (fst (m s)) = fst s) \<Longrightarrow> quiet m"
proof (rule quietI)
  fix s assume "\<And>s. fst (fst (m s)) = fst s"
  then show "\<exists>l. fst (fst (m s)) = (fst s)\<lparr>laudit_log := l\<rparr>" by (intro exI [of _ "laudit_log (fst s)"]) simp
qed

lemma quiet_lret: "quiet (lret r)"
  by (rule quiet_same) (simp add: lret_def)

lemma quiet_on_world: "quiet (on_world f)"
  by (rule quiet_same) (simp add: on_world_def split: prod.split)

lemma quiet_laudit: "quiet (on_db (laudit un a t))"
  by (rule quietI) (auto simp: on_db_def laudit_def)

lemma quiet_lseq: "quiet m \<Longrightarrow> (\<And>v. quiet (k v)) \<Longrightarrow> quiet (lseq m k)"
proof (rule quietI)
  fix s
  assume m: "quiet m" "\<And>v. quiet (k v)"
  obtain t r where t: "m s = (t, r)" by fastforce
  with m(1) obtain l where l: "fst t = (fst s)\<lparr>laudit_log := l\<rparr>" by (metis fst_conv quiet_def)
  show "\<exists>l. fst (fst (lseq m k s)) = (fst s)\<lparr>laudit_log := l\<rparr>"
  proof (cases r)
    case (Inr v)
    from m(2) obtain l' where "fst (fst (k v t)) = (fst t)\<lparr>laudit_log := l'\<rparr>" by (metis quiet_def)
    with l show ?thesis by (auto simp: lseq_def t Inr)
  qed (use l in \<open>auto simp: lseq_def t\<close>)
qed

lemma quiet_ignoring: "quiet m \<Longrightarrow> quiet (ignoring c m)"
proof (rule quietI)
  fix s
  assume "quiet m"
  moreover have "fst (ignoring c m s) = fst (m s)" by (auto simp: ignoring_def split: prod.split sum.split)
  ultimately show "\<exists>l. fst (fst (ignoring c m s)) = (fst s)\<lparr>laudit_log := l\<rparr>" unfolding quiet_def by metis
qed

lemma quiet_at: "(\<And>t. quiet (f t)) \<Longrightarrow> quiet (\<lambda>s. f s s)"
  by (auto simp: quiet_def)

lemma quiet_choice: "quiet n \<Longrightarrow> (\<And>x. quiet (m x)) \<Longrightarrow> quiet (\<lambda>s. if P s then n s else m (g s) s)"
  by (auto simp: quiet_def)

lemma quiet_is_installed: "quiet (is_installed be h)"
  by (rule quiet_same) (simp add: is_installed_def)

lemma quiet_if: "(b \<Longrightarrow> quiet m) \<Longrightarrow> (\<not> b \<Longrightarrow> quiet n) \<Longrightarrow> quiet (if b then m else n)"
  by simp

lemma quiet_prod: "(\<And>a b. quiet (f a b)) \<Longrightarrow> quiet (case p of (a, b) \<Rightarrow> f a b)"
  by (cases p) simp

lemmas quiet_rules = quiet_lret quiet_on_world quiet_laudit quiet_lseq quiet_ignoring quiet_is_installed quiet_if quiet_prod

lemma quiet_quietly: "quiet m \<Longrightarrow> quiet (quietly m)"
  unfolding quietly_def by (intro quiet_rules)

lemma quiet_sudo_write: "quiet (sudo_write sh h path content)"
  unfolding sudo_write_def by (intro quiet_rules)

lemma quiet_remove_zone_file: "quiet (remove_zone_file sh be h dn)"
  unfolding remove_zone_file_def by (intro quiet_rules)

lemma quiet_reload: "quiet (reload_bind sh be h)"
  unfolding reload_bind_def by (intro quiet_rules)

lemma quiet_ensure_included: "quiet (ensure_included sh be h)"
  unfolding ensure_included_def Let_def by (rule quiet_choice) (intro quiet_rules quiet_sudo_write)+

lemma quiet_write_include: "quiet (write_include sh be h)"
  unfolding write_include_def by (rule quiet_at) (intro quiet_rules quiet_sudo_write quiet_ensure_included)

lemma quiet_publish_zone: "quiet (publish_zone sh be h domain content)"
  unfolding publish_zone_def check_zone_def Let_def by (intro quiet_rules quiet_sudo_write quiet_write_include quiet_reload)

lemma quiet_apply_zone: "quiet (apply_zone sh be h today zid)"
proof (rule quietI)
  fix s
  show "\<exists>l. fst (fst (apply_zone sh be h today zid s)) = (fst s)\<lparr>laudit_log := l\<rparr>"
  proof (cases "get_zone zid (fst s) \<noteq> None \<and> bind_installed be h (snd s)")
    case True
    then obtain z where "apply_zone sh be h today zid s = publish_zone sh be h (zn_domain z) (generate_zonefile today z (list_records zid (fst s))) s"
      by (auto simp: apply_zone_def)
    then show ?thesis using quiet_publish_zone unfolding quiet_def by metis
  next
    case False
    then have "fst (fst (apply_zone sh be h today zid s)) = fst s" by (auto simp: apply_zone_def split: option.split)
    then show ?thesis by (intro exI [of _ "laudit_log (fst s)"]) simp
  qed
qed

lemma quiet_state: "quiet m \<Longrightarrow> \<exists>l. fst (fst (m s)) = (fst s)\<lparr>laudit_log := l\<rparr>"
  unfolding quiet_def by metis

lemma lseq_lret [simp]: "lseq (lret (Inr v)) k s = k v s" "lseq (lret (Inl e)) k s = (s, Inl e)"
  by (simp_all add: lseq_def lret_def)

text \<open>Steps that change the tables by a function first and are quiet afterwards.\<close>

definition leads :: "(ldb \<Rightarrow> ldb) \<Rightarrow> (ldb \<times> 'w, 'v) lio \<Rightarrow> bool" where
  "leads g m = (\<forall>s. \<exists>l. fst (fst (m s)) = (g (fst s))\<lparr>laudit_log := l\<rparr>)"

lemma leads_state: "leads g m \<Longrightarrow> \<exists>l. fst (fst (m s)) = (g (fst s))\<lparr>laudit_log := l\<rparr>"
  unfolding leads_def by metis

lemma leads_quiet: "quiet m \<Longrightarrow> leads (\<lambda>d. d) m"
  unfolding leads_def quiet_def .

lemma leads_first: "leads g m \<Longrightarrow> leads (\<lambda>d. g (f d)) (lseq (on_db f) (\<lambda>_. m))"
proof -
  assume m: "leads g m"
  have "fst (lseq (on_db f) (\<lambda>_. m) s) = fst (m (f (fst s), snd s))" for s by (simp add: lseq_def on_db_def)
  with m show ?thesis unfolding leads_def by (metis fst_conv)
qed

lemma leads_then:
  assumes "leads g m" "\<And>v. quiet (k v)"
  shows "leads g (lseq m k)"
  unfolding leads_def
proof
  fix s
  obtain t r where t: "m s = (t, r)" by fastforce
  with leads_state [OF assms(1), of s] obtain l where l: "fst t = (g (fst s))\<lparr>laudit_log := l\<rparr>" by auto
  show "\<exists>l. fst (fst (lseq m k s)) = (g (fst s))\<lparr>laudit_log := l\<rparr>"
  proof (cases r)
    case (Inr v)
    from quiet_state [OF assms(2)] obtain l' where "fst (fst (k v t)) = (fst t)\<lparr>laudit_log := l'\<rparr>" by blast
    with l show ?thesis by (auto simp: lseq_def t Inr)
  qed (use l in \<open>auto simp: lseq_def t\<close>)
qed

lemma leads_apply_after: "leads (bump_serial today zid) (apply_after sh be h today zid app)"
proof -
  have "leads (\<lambda>d. (\<lambda>d. d) (bump_serial today zid d)) (apply_after sh be h today zid app)"
    unfolding apply_after_def by (intro leads_first leads_quiet quiet_rules quiet_quietly quiet_apply_zone)
  then show ?thesis by simp
qed

section \<open>Well-formed zones\<close>

definition record_ok :: "dns_row \<Rightarrow> bool" where
  \<comment> \<open>what \<open>validate_record\<close> establishes; only the name server records of a new zone are not checked for line feeds\<close>
  "record_ok r = (dr_type r \<in> set RECORD_TYPES \<and> record_name_ok (dr_name r) \<and> dr_content r \<noteq> []
     \<and> (NL \<in> set (dr_content r) \<longrightarrow> dr_type r = ''NS'') \<and> (dr_priority r \<noteq> None \<longleftrightarrow> dr_type r \<in> {''MX'', ''SRV''}))"

definition dns_ok :: "ldb \<Rightarrow> bool" where
  "dns_ok d =
     (distinct (map zn_id (dns_zones d)) \<and> distinct (map zn_domain (dns_zones d)) \<and>
      list_all (\<lambda>z. zn_id z \<le> zone_seq d \<and> domain_ok (zn_domain z)) (dns_zones d) \<and>
      distinct (map dr_id (dns_records d)) \<and>
      list_all (\<lambda>r. dr_id r \<le> record_seq d \<and> dr_zone_id r \<in> zn_id ` set (dns_zones d) \<and> record_ok r) (dns_records d))"

lemma dns_ok_log [simp]: "dns_ok (d\<lparr>laudit_log := l\<rparr>) = dns_ok d"
  by (simp add: dns_ok_def)

lemma validate_record_ok:
  assumes "validate_record t n c p = Inr (rtype, name, content, prio)"
  shows "record_ok \<lparr>dr_id = i, dr_zone_id = k, dr_name = name, dr_type = rtype, dr_content = content, dr_ttl = ttl, dr_priority = prio\<rparr>"
  using assms by (auto simp: validate_record_def Let_def record_ok_def split: if_splits option.splits)

lemma create_zone_state:
  obtains "fst (fst (create_zone sh be h today dm n1 n2 em ttl app s)) = fst s" "\<And>v. snd (create_zone sh be h today dm n1 n2 em ttl app s) \<noteq> Inr v"
  | l z ns2 where "fst (fst (create_zone sh be h today dm n1 n2 em ttl app s)) = (add_rows z [zn_ns1 z, ns2] (fst s))\<lparr>laudit_log := l\<rparr>"
      "zn_id z = zone_seq (fst s) + 1" "domain_ok (zn_domain z)" "get_zone_by_domain (zn_domain z) (fst s) = None" "zn_serial z = new_serial today"
      "zn_ns1 z = rstrip_char (CHR ''.'') (strip (if n1 = [] then ''ns1.'' @ zn_domain z else n1))"
      "\<And>v. snd (create_zone sh be h today dm n1 n2 em ttl app s) = Inr v \<Longrightarrow> v = z"
proof (cases "\<exists>dn. validate_domain dm = Inr dn \<and> get_zone_by_domain dn (fst s) = None")
  case True
  then obtain dn where dn: "validate_domain dm = Inr dn" "get_zone_by_domain dn (fst s) = None" by blast
  then have ok: "domain_ok dn" by (auto simp: validate_domain_def Let_def split: if_splits)
  let ?ns1 = "rstrip_char (CHR ''.'') (strip (if n1 = [] then ''ns1.'' @ dn else n1))"
  let ?ns2 = "rstrip_char (CHR ''.'') (strip (if n2 = [] then ''ns2.'' @ dn else n2))"
  let ?z = "\<lparr>zn_id = zone_seq (fst s) + 1, zn_domain = dn, zn_ns1 = ?ns1, zn_ns2 = ?ns2,
                  zn_admin_email = strip (if em = [] then ''admin@'' @ dn else em), zn_ttl = ttl, zn_serial = new_serial today\<rparr>"
  let ?k = "lseq (on_db (laudit None ''dns.create_zone'' dn)) (\<lambda>_.
         lseq (is_installed be h) (\<lambda>inst.
         lseq (if app \<and> inst then ignoring app_error (quietly (apply_zone sh be h today (zn_id ?z))) else lret (Inr ())) (\<lambda>_. lret (Inr ?z))))"
  have e: "create_zone sh be h today dm n1 n2 em ttl app s = lseq (on_db (add_rows ?z [?ns1, ?ns2])) (\<lambda>_. ?k) s"
    by (simp add: create_zone_def dn Let_def)
  have "leads (\<lambda>d. add_rows ?z [?ns1, ?ns2] d) (lseq (on_db (add_rows ?z [?ns1, ?ns2])) (\<lambda>_. ?k))"
    by (intro leads_first [where g = "\<lambda>d. d"] leads_quiet quiet_rules quiet_quietly quiet_apply_zone)
  from leads_state [OF this, of s] obtain l where "fst (fst (create_zone sh be h today dm n1 n2 em ttl app s)) = (add_rows ?z [?ns1, ?ns2] (fst s))\<lparr>laudit_log := l\<rparr>"
    unfolding e by (elim exE)
  then have l: "fst (fst (create_zone sh be h today dm n1 n2 em ttl app s)) = (add_rows ?z [zn_ns1 ?z, ?ns2] (fst s))\<lparr>laudit_log := l\<rparr>" by simp
  have v: "v = ?z" if "snd (create_zone sh be h today dm n1 n2 em ttl app s) = Inr v" for v
  proof -
    have "snd (lseq m (\<lambda>_. lret (Inr y)) t) = Inr v \<Longrightarrow> v = y" for m t and y :: zone_row
      by (auto simp: lseq_def lret_def split: prod.splits sum.splits)
    then show ?thesis using that unfolding e by (auto simp: lseq_def on_db_def is_installed_def split: if_splits)
  qed
  show ?thesis by (rule that(2) [OF l]) (use dn ok v in simp_all)
next
  case False
  then have "fst (fst (create_zone sh be h today dm n1 n2 em ttl app s)) = fst s" "snd (create_zone sh be h today dm n1 n2 em ttl app s) \<noteq> Inr v" for v
    by (cases "validate_domain dm"; auto simp: create_zone_def)+
  then show ?thesis by (rule that(1))
qed

lemma delete_zone_state:
  obtains "fst (fst (delete_zone sh be h zid app s)) = fst s"
  | l where "fst (fst (delete_zone sh be h zid app s)) = (fst s)\<lparr>dns_records := delete_where (\<lambda>r. dr_zone_id r = zid) (dns_records (fst s)),
        dns_zones := delete_where (\<lambda>y. zn_id y = zid) (dns_zones (fst s)), laudit_log := l\<rparr>"
proof (cases "get_zone zid (fst s)")
  case (Some z)
  let ?f = "\<lambda>d. d\<lparr>dns_records := delete_where (\<lambda>r. dr_zone_id r = zid) (dns_records d), dns_zones := delete_where (\<lambda>y. zn_id y = zid) (dns_zones d)\<rparr>"
  let ?k = "lseq (is_installed be h) (\<lambda>inst.
          lseq (if app \<and> inst
                then ignoring (\<lambda>_. True) (lseq (remove_zone_file sh be h (zn_domain z)) (\<lambda>_. lseq (write_include sh be h) (\<lambda>_. reload_bind sh be h)))
                else lret (Inr ())) (\<lambda>_. on_db (laudit None ''dns.delete_zone'' (zn_domain z))))"
  have e: "delete_zone sh be h zid app s = lseq (on_db ?f) (\<lambda>_. ?k) s" by (simp add: delete_zone_def Some)
  have "leads (\<lambda>d. ?f d) (lseq (on_db ?f) (\<lambda>_. ?k))"
    by (intro leads_first [where g = "\<lambda>d. d"] leads_quiet quiet_rules quiet_remove_zone_file quiet_write_include quiet_reload)
  from leads_state [OF this, of s] obtain l where "fst (fst (delete_zone sh be h zid app s)) = (?f (fst s))\<lparr>laudit_log := l\<rparr>"
    unfolding e by (elim exE)
  then show ?thesis by (intro that(2) [of l]) simp
qed (rule that(1), simp add: delete_zone_def)

lemma add_record_state:
  obtains "fst (fst (add_record sh be h today zid t n c ttl p app s)) = fst s"
  | l r where "fst (fst (add_record sh be h today zid t n c ttl p app s)) =
        (bump_serial today zid ((fst s)\<lparr>dns_records := dns_records (fst s) @ [r], record_seq := dr_id r\<rparr>))\<lparr>laudit_log := l\<rparr>"
      "dr_id r = record_seq (fst s) + 1" "dr_zone_id r = zid" "get_zone zid (fst s) \<noteq> None" "record_ok r"
proof (cases "\<exists>v. validate_record t n c p = Inr v \<and> get_zone zid (fst s) \<noteq> None")
  case True
  then obtain rtype name content prio where v: "validate_record t n c p = Inr (rtype, name, content, prio)" and z: "get_zone zid (fst s) \<noteq> None" by auto
  let ?r = "\<lparr>dr_id = record_seq (fst s) + 1, dr_zone_id = zid, dr_name = name, dr_type = rtype, dr_content = content, dr_ttl = or_3600 ttl, dr_priority = prio\<rparr>"
  let ?f = "\<lambda>d. d\<lparr>dns_records := dns_records d @ [?r], record_seq := dr_id ?r\<rparr>"
  let ?m = "lseq (on_db ?f) (\<lambda>_. lseq (apply_after sh be h today zid app) (\<lambda>_.
        lseq (on_db (laudit None ''dns.add_record'' (rtype @ '' '' @ name @ '' -> '' @ content))) (\<lambda>_. lret (Inr ?r))))"
  have e: "add_record sh be h today zid t n c ttl p app s = ?m s"
    by (simp add: add_record_def z v Let_def)
  have "leads (\<lambda>d. bump_serial today zid (?f d)) ?m"
    by (intro leads_first leads_then leads_apply_after quiet_rules)
  from leads_state [OF this, of s] obtain l where "fst (fst (add_record sh be h today zid t n c ttl p app s)) = (bump_serial today zid (?f (fst s)))\<lparr>laudit_log := l\<rparr>"
    unfolding e by (elim exE)
  then show ?thesis by (rule that(2)) (use z validate_record_ok [OF v] in simp_all)
next
  case False
  then have "fst (fst (add_record sh be h today zid t n c ttl p app s)) = fst s"
    by (cases "validate_record t n c p") (auto simp: add_record_def)
  then show ?thesis by (rule that(1))
qed

lemma update_record_state:
  obtains "fst (fst (update_record sh be h today rid t n c ttl p app s)) = fst s"
  | l f row where "fst (fst (update_record sh be h today rid t n c ttl p app s)) =
        (bump_serial today (dr_zone_id row) ((fst s)\<lparr>dns_records := update_where (\<lambda>r. dr_id r = rid) f (dns_records (fst s))\<rparr>))\<lparr>laudit_log := l\<rparr>"
      "get_record rid (fst s) = Some row" "\<And>r. dr_id (f r) = dr_id r \<and> dr_zone_id (f r) = dr_zone_id r \<and> record_ok (f r)"
proof (cases "\<exists>v. validate_record t n c p = Inr v \<and> get_record rid (fst s) \<noteq> None")
  case True
  then obtain rtype name content prio row where v: "validate_record t n c p = Inr (rtype, name, content, prio)" and row: "get_record rid (fst s) = Some row" by auto
  let ?g = "\<lambda>r. r\<lparr>dr_name := name, dr_type := rtype, dr_content := content, dr_ttl := or_3600 ttl, dr_priority := prio\<rparr>"
  let ?f = "\<lambda>d. d\<lparr>dns_records := update_where (\<lambda>r. dr_id r = rid) ?g (dns_records d)\<rparr>"
  let ?m = "lseq (on_db ?f) (\<lambda>_. lseq (apply_after sh be h today (dr_zone_id row) app) (\<lambda>_. on_db (laudit None ''dns.update_record'' (rtype @ '' '' @ name))))"
  have e: "update_record sh be h today rid t n c ttl p app s = ?m s" by (simp add: update_record_def row v)
  have "leads (\<lambda>d. bump_serial today (dr_zone_id row) (?f d)) ?m"
    by (intro leads_first leads_then leads_apply_after quiet_rules)
  from leads_state [OF this, of s] obtain l where "fst (fst (update_record sh be h today rid t n c ttl p app s)) = (bump_serial today (dr_zone_id row) (?f (fst s)))\<lparr>laudit_log := l\<rparr>"
    unfolding e by (elim exE)
  moreover have "record_ok (?g r)" for r using validate_record_ok [OF v, of "dr_id r" "dr_zone_id r" "or_3600 ttl"] by (simp add: record_ok_def)
  ultimately show ?thesis using row by (intro that(2) [of l row ?g]) simp_all
next
  case False
  then have "fst (fst (update_record sh be h today rid t n c ttl p app s)) = fst s"
    by (cases "validate_record t n c p") (auto simp: update_record_def split: option.split)
  then show ?thesis by (rule that(1))
qed

lemma delete_record_state:
  obtains "fst (fst (delete_record sh be h today rid app s)) = fst s"
  | l row where "fst (fst (delete_record sh be h today rid app s)) =
        (bump_serial today (dr_zone_id row) ((fst s)\<lparr>dns_records := delete_where (\<lambda>r. dr_id r = rid) (dns_records (fst s))\<rparr>))\<lparr>laudit_log := l\<rparr>"
      "get_record rid (fst s) = Some row"
proof (cases "get_record rid (fst s)")
  case (Some row)
  let ?f = "\<lambda>d. d\<lparr>dns_records := delete_where (\<lambda>r. dr_id r = rid) (dns_records d)\<rparr>"
  let ?m = "lseq (on_db ?f) (\<lambda>_. lseq (apply_after sh be h today (dr_zone_id row) app) (\<lambda>_. on_db (laudit None ''dns.delete_record'' (str_int rid))))"
  have e: "delete_record sh be h today rid app s = ?m s" by (simp add: delete_record_def Some)
  have "leads (\<lambda>d. bump_serial today (dr_zone_id row) (?f d)) ?m"
    by (intro leads_first leads_then leads_apply_after quiet_rules)
  from leads_state [OF this, of s] obtain l where "fst (fst (delete_record sh be h today rid app s)) = (bump_serial today (dr_zone_id row) (?f (fst s)))\<lparr>laudit_log := l\<rparr>"
    unfolding e by (elim exE)
  then show ?thesis using Some by (rule that(2))
qed (rule that(1), simp add: delete_record_def)

lemma select_one_update:
  assumes "\<And>r. p (if q r then f r else r) = p r"
  shows "select_one p (update_where q f rows) = map_option (\<lambda>r. if q r then f r else r) (select_one p rows)"
proof -
  have "filter p (map g rows) = map g (filter p rows)" if "\<And>r. p (g r) = p r" for g using that by (induction rows) auto
  from this [OF assms] show ?thesis by (simp add: update_where_def select_one_def split: list.splits)
qed

lemma get_zone_log [simp]: "get_zone zid (d\<lparr>laudit_log := l\<rparr>) = get_zone zid d" "get_zone zid (d\<lparr>dns_records := rs\<rparr>) = get_zone zid d"
  "get_zone zid (d\<lparr>record_seq := n\<rparr>) = get_zone zid d"
  by (simp_all add: get_zone_def)

lemma get_zone_bump:
  "get_zone zid (bump_serial today k d) =
     (if zid = k then map_option (\<lambda>z. z\<lparr>zn_serial := max (zn_serial z + 1) (today * 100 + 1)\<rparr>) (get_zone zid d) else get_zone zid d)"
proof (cases "get_zone k d")
  case None
  then show ?thesis by (auto simp: bump_serial_def)
next
  case (Some z)
  then have "zn_id z = k" unfolding get_zone_def by (auto dest: select_one_Some)
  let ?f = "\<lambda>y. y\<lparr>zn_serial := max (zn_serial z + 1) (today * 100 + 1)\<rparr>"
  have "bump_serial today k d = d\<lparr>dns_zones := update_where (\<lambda>y. zn_id y = k) ?f (dns_zones d)\<rparr>" by (simp add: bump_serial_def Some)
  then have "get_zone zid (bump_serial today k d) = map_option (\<lambda>r. if zn_id r = k then ?f r else r) (get_zone zid d)"
    by (simp add: get_zone_def select_one_update)
  moreover have "y = z" if "get_zone zid d = Some y" "zid = k" for y using that Some by simp
  moreover have "zn_id y = zid" if "get_zone zid d = Some y" for y using that unfolding get_zone_def by (auto dest: select_one_Some)
  ultimately show ?thesis using Some by (cases "get_zone zid d") auto
qed

lemma bump_frame: "dns_records (bump_serial today k d) = dns_records d" "record_seq (bump_serial today k d) = record_seq d" "zone_seq (bump_serial today k d) = zone_seq d"
  "map zn_id (dns_zones (bump_serial today k d)) = map zn_id (dns_zones d)" "map zn_domain (dns_zones (bump_serial today k d)) = map zn_domain (dns_zones d)"
  by (simp_all add: bump_serial_def update_where_def split: option.split)

lemma dns_ok_alt:
  "dns_ok d \<longleftrightarrow> distinct (map zn_id (dns_zones d)) \<and> distinct (map zn_domain (dns_zones d)) \<and> list_all (\<lambda>i. i \<le> zone_seq d) (map zn_id (dns_zones d))
     \<and> list_all domain_ok (map zn_domain (dns_zones d)) \<and> distinct (map dr_id (dns_records d))
     \<and> list_all (\<lambda>r. dr_id r \<le> record_seq d \<and> dr_zone_id r \<in> set (map zn_id (dns_zones d)) \<and> record_ok r) (dns_records d)"
  by (auto simp: dns_ok_def list_all_iff)

lemma dns_ok_bump [simp]: "dns_ok (bump_serial today k d) = dns_ok d"
  by (simp only: dns_ok_alt bump_frame)

section \<open>Every run keeps the tables well formed\<close>

datatype dns_op =
    DCreate string string string string int bool
  | DDelete int bool
  | DAdd int string string string int "int option" bool
  | DUpdate int string string string int "int option" bool
  | DRemove int bool
  | DApply int

fun dns_exec :: "'w shell \<Rightarrow> 'w bind_env \<Rightarrow> host_env \<Rightarrow> int \<times> dns_op \<Rightarrow> ldb \<times> 'w \<Rightarrow> ldb \<times> 'w" where
  "dns_exec sh be h (today, DCreate dn n1 n2 em ttl app) s = fst (create_zone sh be h today dn n1 n2 em ttl app s)"
| "dns_exec sh be h (today, DDelete zid app) s = fst (delete_zone sh be h zid app s)"
| "dns_exec sh be h (today, DAdd zid t n c ttl p app) s = fst (add_record sh be h today zid t n c ttl p app s)"
| "dns_exec sh be h (today, DUpdate rid t n c ttl p app) s = fst (update_record sh be h today rid t n c ttl p app s)"
| "dns_exec sh be h (today, DRemove rid app) s = fst (delete_record sh be h today rid app s)"
| "dns_exec sh be h (today, DApply zid) s = fst (apply_zone sh be h today zid s)"

definition add_row :: "zone_row \<Rightarrow> string \<Rightarrow> ldb \<Rightarrow> ldb" where
  "add_row z ns d = d\<lparr>dns_records := dns_records d @ [\<lparr>dr_id = record_seq d + 1, dr_zone_id = zn_id z, dr_name = ''@'', dr_type = ''NS'',
              dr_content = ns @ ''.'', dr_ttl = zn_ttl z, dr_priority = None\<rparr>], record_seq := record_seq d + 1\<rparr>"

lemma add_rows_fold: "add_rows z nss d = fold (add_row z) nss (d\<lparr>dns_zones := dns_zones d @ [z], zone_seq := zn_id z\<rparr>)"
  by (simp add: add_rows_def add_row_def [abs_def])

lemma dns_ok_append:
  assumes "dns_ok d" "record_ok r" "dr_id r = record_seq d + 1" "dr_zone_id r \<in> zn_id ` set (dns_zones d)"
  shows "dns_ok (d\<lparr>dns_records := dns_records d @ [r], record_seq := record_seq d + 1\<rparr>)"
  using assms by (force simp: dns_ok_def list_all_iff)

lemma dns_ok_add_row: "dns_ok d \<Longrightarrow> zn_id z \<in> zn_id ` set (dns_zones d) \<Longrightarrow> dns_ok (add_row z ns d)"
  unfolding add_row_def
  using dns_ok_append [of d "\<lparr>dr_id = record_seq d + 1, dr_zone_id = zn_id z, dr_name = ''@'', dr_type = ''NS'', dr_content = ns @ ''.'', dr_ttl = zn_ttl z, dr_priority = None\<rparr>"]
  by (simp add: record_ok_def RECORD_TYPES_def record_name_ok_def)

lemma dns_ok_add_rows:
  assumes "dns_ok d" "zn_id z = zone_seq d + 1" "domain_ok (zn_domain z)" "get_zone_by_domain (zn_domain z) d = None"
  shows "dns_ok (add_rows z nss d)"
proof -
  let ?d = "d\<lparr>dns_zones := dns_zones d @ [z], zone_seq := zn_id z\<rparr>"
  have "zn_domain z \<notin> zn_domain ` set (dns_zones d)" using assms(4) by (auto simp: get_zone_by_domain_def select_one_None)
  then have "dns_ok ?d" using assms(1-3) by (force simp: dns_ok_def list_all_iff)
  moreover have "zn_id z \<in> zn_id ` set (dns_zones ?d)" by simp
  ultimately have "dns_ok (fold (add_row z) nss ?d)"
  proof (induction nss arbitrary: d)
    case (Cons ns nss)
    then have "dns_ok (add_row z ns (d\<lparr>dns_zones := dns_zones d @ [z], zone_seq := zn_id z\<rparr>))" by (intro dns_ok_add_row) auto
    moreover have "add_row z ns (d\<lparr>dns_zones := dns_zones d @ [z], zone_seq := zn_id z\<rparr>) = (add_row z ns d)\<lparr>dns_zones := dns_zones (add_row z ns d) @ [z], zone_seq := zn_id z\<rparr>"
      by (simp add: add_row_def)
    ultimately show ?case using Cons.IH [of "add_row z ns d"] by simp
  qed simp
  then show ?thesis by (simp add: add_rows_fold)
qed

lemma distinct_map_filter_key: "distinct (map k xs) \<Longrightarrow> distinct (map k (delete_where p xs))"
  by (simp add: delete_where_def distinct_map_filter)

lemma dns_exec_ok: "dns_ok (fst s) \<Longrightarrow> dns_ok (fst (dns_exec sh be h c s))"
proof (cases c)
  case (Pair today op)
  assume ok: "dns_ok (fst s)"
  show ?thesis
  proof (cases op)
    case (DCreate dn n1 n2 em ttl app)
    show ?thesis unfolding Pair DCreate dns_exec.simps
      by (rule create_zone_state [of sh be h today dn n1 n2 em ttl app s]) (simp_all add: ok dns_ok_add_rows)
  next
    case (DDelete zid app)
    show ?thesis unfolding Pair DDelete dns_exec.simps
      by (rule delete_zone_state [of sh be h zid app s]) (use ok in \<open>auto simp: dns_ok_def list_all_iff distinct_map_filter_key\<close>)
  next
    case (DAdd zid t n c ttl p app)
    have "zid \<in> zn_id ` set (dns_zones (fst s))" if "get_zone zid (fst s) \<noteq> None"
      using that by (auto simp: get_zone_def image_iff dest: select_one_Some)
    then show ?thesis unfolding Pair DAdd dns_exec.simps
      by (rule_tac add_record_state [of sh be h today zid t n c ttl p app s]) (use ok in \<open>simp_all add: dns_ok_append\<close>)
  next
    case (DUpdate rid t n c ttl p app)
    have "dns_ok ((fst s)\<lparr>dns_records := update_where (\<lambda>r. dr_id r = rid) f (dns_records (fst s))\<rparr>)"
      if "\<And>r. dr_id (f r) = dr_id r \<and> dr_zone_id (f r) = dr_zone_id r \<and> record_ok (f r)" for f
      using ok that map_update_where [of "dns_records (fst s)" "\<lambda>r. dr_id r = rid" dr_id f] by (auto simp: dns_ok_def list_all_iff set_update_where)
    then show ?thesis unfolding Pair DUpdate dns_exec.simps
      by (rule_tac update_record_state [of sh be h today rid t n c ttl p app s]) (use ok in simp_all)
  next
    case (DRemove rid app)
    have "dns_ok ((fst s)\<lparr>dns_records := delete_where (\<lambda>r. dr_id r = rid) (dns_records (fst s))\<rparr>)"
      using ok by (auto simp: dns_ok_def list_all_iff distinct_map_filter_key)
    then show ?thesis unfolding Pair DRemove dns_exec.simps
      by (rule_tac delete_record_state [of sh be h today rid app s]) (use ok in simp_all)
  next
    case (DApply zid)
    obtain l where "fst (fst (apply_zone sh be h today zid s)) = (fst s)\<lparr>laudit_log := l\<rparr>" using quiet_state [OF quiet_apply_zone] by blast
    then show ?thesis using ok unfolding Pair DApply by simp
  qed
qed

interpretation zones: machine "dns_exec sh be h" "\<lambda>s. dns_ok (fst s)" for sh be h
  by unfold_locales (rule dns_exec_ok)

text \<open>
  C29. The zone tables stay well formed over every sequence of operations of the editor, whatever the commands it runs do: names and keys are unique,
  every zone has a valid domain, every record belongs to an existing zone, has a known type, a valid name and a content, has a priority
  exactly when its type needs one, and spans lines only if it is a name server record.
\<close>

theorem zone_tables_well_formed:
  assumes "dns_ok (fst s)"
  shows "dns_ok (fst (fold (dns_exec sh be h) ops s))"
  by (rule zones.run_inv [OF assms])

section \<open>Serial numbers\<close>

definition rows_of_zone :: "int \<Rightarrow> ldb \<Rightarrow> dns_row list" where
  "rows_of_zone zid d = filter (\<lambda>r. dr_zone_id r = zid) (dns_records d)"

definition raised :: "int \<Rightarrow> int \<Rightarrow> ldb \<Rightarrow> ldb \<Rightarrow> bool" where
  "raised today zid d d' =
     (\<forall>z z'. get_zone zid d = Some z \<longrightarrow> get_zone zid d' = Some z' \<longrightarrow>
        zn_serial z \<le> zn_serial z' \<and> (rows_of_zone zid d' \<noteq> rows_of_zone zid d \<longrightarrow> zn_serial z < zn_serial z' \<and> today * 100 < zn_serial z'))"

lemma rows_of_zone_log [simp]: "rows_of_zone zid (d\<lparr>laudit_log := l\<rparr>) = rows_of_zone zid d"
  by (simp add: rows_of_zone_def)

lemma raised_same: "get_zone zid d' = get_zone zid d \<Longrightarrow> rows_of_zone zid d' = rows_of_zone zid d \<Longrightarrow> raised today zid d d'"
  by (simp add: raised_def)

lemma raised_bump:
  assumes "dns_zones d1 = dns_zones d" and "zid \<noteq> k \<Longrightarrow> rows_of_zone zid d1 = rows_of_zone zid d"
  shows "raised today zid d ((bump_serial today k d1)\<lparr>laudit_log := l\<rparr>)"
proof -
  have "get_zone zid d1 = get_zone zid d" using assms(1) by (simp add: get_zone_def)
  moreover have "rows_of_zone zid ((bump_serial today k d1)\<lparr>laudit_log := l\<rparr>) = rows_of_zone zid d1" by (simp add: rows_of_zone_def bump_frame)
  ultimately show ?thesis using assms(2) by (auto simp: raised_def get_zone_bump)
qed

lemma filter_map_id: "(\<And>r. r \<in> set rs \<Longrightarrow> q r \<Longrightarrow> \<not> p r \<and> \<not> p (f r)) \<Longrightarrow> filter p (update_where q f rs) = filter p rs"
  by (induction rs) (auto simp: update_where_def)

lemma record_zone:
  assumes "dns_ok d" "get_record rid d = Some row" "r \<in> set (dns_records d)" "dr_id r = rid"
  shows "dr_zone_id r = dr_zone_id row"
proof -
  have "row \<in> set (dns_records d)" "dr_id row = rid" using assms(2) unfolding get_record_def by (auto dest: select_one_Some)
  then have "r = row" using assms(1,3,4) by (auto simp: dns_ok_def distinct_map dest: inj_onD)
  then show ?thesis by simp
qed

lemma add_rows_raised:
  assumes "dns_ok d" "zn_id z = zone_seq d + 1"
  shows "raised today zid d ((add_rows z nss d)\<lparr>laudit_log := l\<rparr>)"
proof (cases "get_zone zid d")
  case (Some y)
  then have "y \<in> set (dns_zones d)" "zn_id y = zid" unfolding get_zone_def by (auto dest: select_one_Some)
  then have ne: "zn_id z \<noteq> zid" using assms by (auto simp: dns_ok_def list_all_iff)
  have f: "get_zone zid (fold (add_row z) nss e) = get_zone zid e \<and> rows_of_zone zid (fold (add_row z) nss e) = rows_of_zone zid e" for e
    using ne by (induction nss arbitrary: e) (simp_all add: add_row_def rows_of_zone_def)
  have "get_zone zid (d\<lparr>dns_zones := dns_zones d @ [z], zone_seq := zn_id z\<rparr>) = get_zone zid d"
    using ne by (simp add: get_zone_def select_one_def)
  moreover have "rows_of_zone zid (d\<lparr>dns_zones := dns_zones d @ [z], zone_seq := zn_id z\<rparr>) = rows_of_zone zid d" by (simp add: rows_of_zone_def)
  ultimately show ?thesis by (intro raised_same) (simp_all add: add_rows_fold f)
qed (simp add: raised_def)

lemma dns_exec_raised: "dns_ok (fst s) \<Longrightarrow> raised today zid (fst s) (fst (dns_exec sh be h (today, op) s))"
proof (cases op)
  assume ok: "dns_ok (fst s)"
  {
    case (DCreate dn n1 n2 em ttl app)
    show ?thesis unfolding DCreate dns_exec.simps
      by (rule create_zone_state [of sh be h today dn n1 n2 em ttl app s]) (simp_all add: ok add_rows_raised raised_same)
  next
    case (DDelete k app)
    have "get_zone zid ((fst s)\<lparr>dns_records := rs, dns_zones := delete_where (\<lambda>y. zn_id y = k) (dns_zones (fst s)), laudit_log := l\<rparr>) =
        (if zid = k then None else get_zone zid (fst s))" for rs l
      by (auto simp: get_zone_def select_one_def delete_where_def intro!: arg_cong [where f = "\<lambda>x. case x of [] \<Rightarrow> None | r # _ \<Rightarrow> Some r"] filter_cong)
    moreover have "rows_of_zone zid ((fst s)\<lparr>dns_records := delete_where (\<lambda>r. dr_zone_id r = k) (dns_records (fst s)), dns_zones := zs, laudit_log := l\<rparr>) =
        rows_of_zone zid (fst s)" if "zid \<noteq> k" for zs l
      using that by (auto simp: rows_of_zone_def delete_where_def intro!: filter_cong)
    ultimately show ?thesis unfolding DDelete dns_exec.simps
      by (rule_tac delete_zone_state [of sh be h k app s]) (simp_all add: raised_same, auto simp: raised_def)
  next
    case (DAdd k t n c ttl p app)
    show ?thesis unfolding DAdd dns_exec.simps
      by (rule add_record_state [of sh be h today k t n c ttl p app s])
        (simp_all add: raised_same raised_bump rows_of_zone_def)
  next
    case (DUpdate rid t n c ttl p app)
    show ?thesis
    proof (rule update_record_state [of sh be h today rid t n c ttl p app s])
      fix l f row
      assume e: "fst (fst (update_record sh be h today rid t n c ttl p app s)) =
        (bump_serial today (dr_zone_id row) ((fst s)\<lparr>dns_records := update_where (\<lambda>r. dr_id r = rid) f (dns_records (fst s))\<rparr>))\<lparr>laudit_log := l\<rparr>"
        and row: "get_record rid (fst s) = Some row" and f: "\<And>r. dr_id (f r) = dr_id r \<and> dr_zone_id (f r) = dr_zone_id r \<and> record_ok (f r)"
      show ?thesis unfolding DUpdate dns_exec.simps e
      proof (rule raised_bump)
        assume "zid \<noteq> dr_zone_id row"
        then show "rows_of_zone zid ((fst s)\<lparr>dns_records := update_where (\<lambda>r. dr_id r = rid) f (dns_records (fst s))\<rparr>) = rows_of_zone zid (fst s)"
          using record_zone [OF ok row] f by (simp add: rows_of_zone_def filter_map_id)
      qed simp
    qed (simp add: DUpdate raised_same)
  next
    case (DRemove rid app)
    show ?thesis
    proof (rule delete_record_state [of sh be h today rid app s])
      fix l row
      assume e: "fst (fst (delete_record sh be h today rid app s)) =
        (bump_serial today (dr_zone_id row) ((fst s)\<lparr>dns_records := delete_where (\<lambda>r. dr_id r = rid) (dns_records (fst s))\<rparr>))\<lparr>laudit_log := l\<rparr>"
        and row: "get_record rid (fst s) = Some row"
      show ?thesis unfolding DRemove dns_exec.simps e
        by (rule raised_bump) (use record_zone [OF ok row] in \<open>auto simp: rows_of_zone_def delete_where_def intro!: filter_cong\<close>)
    qed (simp add: DRemove raised_same)
  next
    case (DApply k)
    obtain l where "fst (fst (apply_zone sh be h today k s)) = (fst s)\<lparr>laudit_log := l\<rparr>" using quiet_state [OF quiet_apply_zone] by blast
    then show ?thesis unfolding DApply by (simp add: raised_same rows_of_zone_def)
  }
qed

text \<open>
  Secondary servers notice every change: whenever an operation changes the records of a zone that stays, the zone's serial number strictly increases
  and is one of today's or later, and no operation ever lowers it; this holds even when publishing the zone fails.
\<close>

theorem record_change_raises_serial:
  assumes "dns_ok (fst s)" and "get_zone zid (fst s) = Some z" and "get_zone zid (fst (dns_exec sh be h (today, op) s)) = Some z'"
  shows "zn_serial z \<le> zn_serial z' \<and> (rows_of_zone zid (fst (dns_exec sh be h (today, op) s)) \<noteq> rows_of_zone zid (fst s)
    \<longrightarrow> zn_serial z < zn_serial z' \<and> today * 100 < zn_serial z')"
  using dns_exec_raised [OF assms(1), of today zid sh be h op] assms(2,3) unfolding raised_def by blast

section \<open>Reading the zone file back\<close>

definition cut :: "string \<Rightarrow> string \<times> string" where
  \<comment> \<open>a text up to its first tab, and what follows it\<close>
  "cut s = (takeWhile (\<lambda>c. c \<noteq> TAB) s, drop 1 (dropWhile (\<lambda>c. c \<noteq> TAB) s))"

definition read_line :: "string \<Rightarrow> string \<times> string \<times> string \<times> string" where
  \<comment> \<open>owner, time to live, type and data of a line of a zone file\<close>
  "read_line l = (let (n, r) = cut l; (t, r) = cut r; (cl, r) = cut r; (ty, data) = cut r in (n, t, ty, data))"

fun unquote_body :: "string \<Rightarrow> string option" where
  \<comment> \<open>the rest of a quoted text: a backslash makes the next character plain, the closing quote is the last character\<close>
  "unquote_body [] = None"
| "unquote_body (c # s) =
     (if c = CHR 0x22 then (if s = [] then Some [] else None)
      else if c = CHR 0x5C then (case s of [] \<Rightarrow> None | e # t \<Rightarrow> map_option (Cons e) (unquote_body t))
      else map_option (Cons c) (unquote_body s))"

definition unquote :: "string \<Rightarrow> string option" where
  "unquote s = (case s of [] \<Rightarrow> None | c # t \<Rightarrow> if c = CHR 0x22 then unquote_body t else None)"

definition record_data :: "dns_row \<Rightarrow> string" where
  "record_data r =
     (if dr_type r \<in> {''MX'', ''SRV''} then str_int (case dr_priority r of None \<Rightarrow> 10 | Some p \<Rightarrow> p) @ '' '' @ dr_content r
      else if dr_type r = ''TXT'' then txt_content (dr_content r) else dr_content r)"

lemma cut_tab: "TAB \<notin> set a \<Longrightarrow> cut (a @ TAB # r) = (a, r)"
proof -
  assume a: "TAB \<notin> set a"
  then have "takeWhile (\<lambda>c. c \<noteq> TAB) (a @ TAB # r) = a" "dropWhile (\<lambda>c. c \<noteq> TAB) (a @ TAB # r) = TAB # r"
    by (induction a) auto
  then show ?thesis by (simp add: cut_def)
qed

lemma str_int_chars: "c \<in> set (str_int i) \<Longrightarrow> c = CHR ''-'' \<or> ascii_digit c"
proof -
  have d: "c \<in> set (digits10 n) \<Longrightarrow> 0 \<le> n \<Longrightarrow> ascii_digit c" for n
  proof (induction n rule: digits10.induct)
    case (1 n)
    have "ascii_digit (char_of (48 + nat k))" if "0 \<le> k" "k < 10" for k :: int
      using that by (simp add: ascii_digit_def code_def)
    then show ?case using 1 by (subst (asm) (2) digits10.simps) (auto split: if_splits)
  qed
  show "c \<in> set (str_int i) \<Longrightarrow> c = CHR ''-'' \<or> ascii_digit c"
    by (cases "i < 0") (use d [of i] d [of "- i"] in \<open>auto simp: str_int_def\<close>)
qed

lemma plain_chars: "TAB \<noteq> CHR ''-''" "NL \<noteq> CHR ''-''" "\<not> ascii_digit TAB" "\<not> ascii_digit NL" "\<not> alpha_ascii TAB" "\<not> alpha_ascii NL"
  "NL \<noteq> TAB" "TAB \<noteq> CHR ''@''" "TAB \<noteq> CHR ''*''" "NL \<noteq> CHR ''@''" "NL \<noteq> CHR ''*''" "TAB \<notin> {CHR ''_'', CHR ''.'', CHR ''-''}" "NL \<notin> {CHR ''_'', CHR ''.'', CHR ''-''}"
  by (simp_all add: TAB_def ascii_digit_def alpha_ascii_def lower_ascii_def code_def)

lemma str_int_no_tab: "TAB \<notin> set (str_int i)" "NL \<notin> set (str_int i)"
  using str_int_chars [of TAB i] str_int_chars [of NL i] plain_chars by auto

lemma record_name_plain: "record_name_ok n \<Longrightarrow> TAB \<notin> set n \<and> NL \<notin> set n"
  using plain_chars by (auto simp: record_name_ok_def list_all_iff)

lemma record_type_plain: "t \<in> set RECORD_TYPES \<Longrightarrow> TAB \<notin> set t \<and> NL \<notin> set t"
  by (auto simp: RECORD_TYPES_def TAB_def)

lemma record_line_alt:
  "record_line ttl r = (if dr_name r = [] then ''@'' else dr_name r) @ TAB # str_int (if dr_ttl r = 0 then ttl else dr_ttl r) @ TAB # ''IN'' @ TAB # dr_type r @ TAB # record_data r"
  by (auto simp: record_line_def record_data_def Let_def)

lemma read_record_line:
  assumes "record_ok r"
  shows "read_line (record_line ttl r) = (dr_name r, str_int (if dr_ttl r = 0 then ttl else dr_ttl r), dr_type r, record_data r)"
proof -
  have "dr_name r \<noteq> []" "TAB \<notin> set (dr_name r)" "TAB \<notin> set (dr_type r)"
    using assms record_name_plain record_type_plain by (auto simp: record_ok_def record_name_ok_def)
  moreover have "TAB \<notin> set ''IN''" by (simp add: TAB_def)
  ultimately show ?thesis unfolding record_line_alt read_line_def by (simp only: cut_tab str_int_no_tab if_False if_True Let_def prod.case not_False_eq_True)
qed

lemma txt_content_nl: "NL \<notin> set c \<Longrightarrow> NL \<notin> set (txt_content c)"
  by (auto simp: txt_content_def escape_quotes_def)

lemma record_line_nl: "record_ok r \<Longrightarrow> NL \<notin> set (dr_content r) \<Longrightarrow> NL \<notin> set (record_line ttl r)"
  unfolding record_line_alt record_data_def
  using record_name_plain record_type_plain str_int_no_tab plain_chars txt_content_nl by (auto simp: record_ok_def record_name_ok_def)

lemma split_join_nl: "ls \<noteq> [] \<Longrightarrow> \<forall>l \<in> set ls. NL \<notin> set l \<Longrightarrow> split_on NL (join_with [NL] ls @ [NL]) = ls @ [[]]"
proof (induction ls)
  case (Cons l ls)
  then show ?case by (cases ls) (simp_all add: split_on_first)
qed simp

lemma rstrip_char_mem: "c \<in> set (rstrip_char x s) \<Longrightarrow> c \<in> set s"
  using set_rstrip_by [of "\<lambda>y. y = x" s] by (auto simp: rstrip_char_def)

lemma replace_first_mem: "c \<in> set (replace_first a b s) \<Longrightarrow> c \<in> set s \<or> c = b"
  by (auto simp: replace_first_def split: list.splits dest: set_takeWhileD) (metis list.set_intros(2) set_dropWhileD)

lemma zone_header_nl: "NL \<notin> set (zn_ns1 z) \<Longrightarrow> NL \<notin> set (zn_admin_email z) \<Longrightarrow> NL \<notin> set (zn_domain z) \<Longrightarrow> \<forall>l \<in> set (zone_header today z). NL \<notin> set l"
  unfolding zone_header_def Let_def
  using str_int_no_tab plain_chars by (auto dest!: rstrip_char_mem replace_first_mem split: if_splits)

lemma list_records_mem: "r \<in> set (list_records zid d) \<longleftrightarrow> r \<in> set (dns_records d) \<and> dr_zone_id r = zid"
  by (auto simp: list_records_def)

text \<open>
  C30. The zone file says what the tables say: when the texts of the zone and of its records are single lines, reading the file line by line after the
  eight header lines gives back exactly the zone's records in the order of the listing, with owner, time to live, type and data, and nothing
  else.
\<close>

theorem zone_file_roundtrip:
  assumes "dns_ok d" "get_zone zid d = Some z" "NL \<notin> set (zn_ns1 z @ zn_admin_email z @ zn_domain z)"
    and "\<forall>r \<in> set (list_records zid d). NL \<notin> set (dr_content r)"
  shows "\<exists>text. export_zonefile today zid d = Inr text \<and>
    map read_line (drop 8 (butlast (split_on NL text))) =
    map (\<lambda>r. (dr_name r, str_int (if dr_ttl r = 0 then zone_ttl z else dr_ttl r), dr_type r, record_data r)) (list_records zid d)"
proof -
  let ?ls = "zone_header today z @ map (record_line (zone_ttl z)) (list_records zid d)"
  have ok: "record_ok r" if "r \<in> set (list_records zid d)" for r using assms(1) that by (auto simp: dns_ok_def list_all_iff list_records_mem)
  have "\<forall>l \<in> set ?ls. NL \<notin> set l" using zone_header_nl [of z today] record_line_nl ok assms(3,4) by auto
  then have "split_on NL (generate_zonefile today z (list_records zid d)) = ?ls @ [[]]"
    unfolding generate_zonefile_def by (intro split_join_nl) (simp_all add: zone_header_def Let_def)
  moreover have "length (zone_header today z) = 8" by (simp add: zone_header_def Let_def)
  ultimately have "drop 8 (butlast (split_on NL (generate_zonefile today z (list_records zid d)))) = map (record_line (zone_ttl z)) (list_records zid d)"
    by (simp add: butlast_append)
  then show ?thesis using ok by (simp add: export_zonefile_def assms(2) read_record_line)
qed

text \<open>
  A text record says what was entered: a content without backslashes that does not start with a quote is written in quotes so that reading the quoted
  text of the zone file gives the content back, quotes included.
\<close>

theorem txt_roundtrip:
  assumes "CHR 0x5C \<notin> set c" "\<not> startswith c [CHR 0x22]"
  shows "unquote (txt_content c) = Some c"
proof -
  have "unquote_body (escape_quotes s @ [CHR 0x22]) = Some s" if "CHR 0x5C \<notin> set s" for s
    using that by (induction s) (auto simp: escape_quotes_def)
  with assms show ?thesis by (simp add: unquote_def txt_content_def)
qed

text \<open>
  A backslash is not escaped: a text record that ends in a backslash is written with its closing quote escaped, so the quoted text does not end on its
  line and the file cannot be read, although the record was accepted.
\<close>

theorem trailing_backslash_unterminated:
  assumes "CHR 0x5C \<notin> set p" "\<not> startswith (p @ [CHR 0x5C]) [CHR 0x22]"
  shows "unquote (txt_content (p @ [CHR 0x5C])) = None"
proof -
  have "unquote_body (escape_quotes s @ [CHR 0x5C, CHR 0x22]) = None" if "CHR 0x5C \<notin> set s" for s
    using that by (induction s) (auto simp: escape_quotes_def)
  moreover have "escape_quotes (p @ [CHR 0x5C]) @ [CHR 0x22] = escape_quotes p @ [CHR 0x5C, CHR 0x22]" by (simp add: escape_quotes_def)
  ultimately show ?thesis using assms by (simp add: unquote_def txt_content_def)
qed

lemma split_on_app: "split_on d (p @ d # q) = split_on d p @ split_on d q"
  by (induction p) (auto split: list.splits)

lemma split_join_mem: "x \<in> set ls \<Longrightarrow> set (split_on NL x) \<subseteq> set (split_on NL (join_with [NL] ls))"
proof (induction ls)
  case (Cons l ls)
  then show ?case by (cases ls) (auto simp: split_on_app)
qed simp

lemma get_zone_added:
  assumes "dns_ok d" "zn_id z = zone_seq d + 1"
  shows "get_zone (zn_id z) (add_rows z nss d) = Some z"
proof -
  have "\<forall>y \<in> set (dns_zones d). zn_id y \<noteq> zn_id z" using assms by (auto simp: dns_ok_def list_all_iff)
  then have "filter (\<lambda>y. zn_id y = zn_id z) (dns_zones d) = []" by (simp add: filter_empty_conv)
  moreover have "get_zone k (fold (add_row z) nss e) = get_zone k e" for k e by (induction nss arbitrary: e) (simp_all add: add_row_def)
  ultimately show ?thesis by (simp add: add_rows_fold get_zone_def select_one_def)
qed

text \<open>
  The texts of a zone are not checked as those of its records are: whoever may create a zone can put any line into its file through the name of the
  first name server, because a line feed inside it is kept. (A content with a line feed is refused for every record.)
\<close>

theorem name_server_text_adds_lines:
  assumes "dns_ok (fst s)" and "create_zone sh be h today dn (a @ NL # l) n2 em ttl app s = (s', Inr z)"
    and "a \<noteq> []" "\<not> is_space (hd a)" "l \<noteq> []" "NL \<notin> set l" "\<not> is_space (last l)" "last l \<noteq> CHR ''.''"
  shows "\<exists>text. export_zonefile today (zn_id z) (fst s') = Inr text \<and> l @ ''.'' \<in> set (split_on NL text)"
proof (rule create_zone_state [of sh be h today dn "a @ NL # l" n2 em ttl app s])
  assume n: "\<And>v. snd (create_zone sh be h today dn (a @ NL # l) n2 em ttl app s) \<noteq> Inr v"
  show ?thesis using n [of z] assms(2) by simp
next
  fix lg y ns2
  assume st: "fst (fst (create_zone sh be h today dn (a @ NL # l) n2 em ttl app s)) = (add_rows y [zn_ns1 y, ns2] (fst s))\<lparr>laudit_log := lg\<rparr>"
    and y: "zn_id y = zone_seq (fst s) + 1" "zn_ns1 y = rstrip_char (CHR ''.'') (strip (if a @ NL # l = [] then ''ns1.'' @ zn_domain y else a @ NL # l))"
    and "\<And>v. snd (create_zone sh be h today dn (a @ NL # l) n2 em ttl app s) = Inr v \<Longrightarrow> v = y"
  then have z: "z = y" using assms(2) by simp
  have ns: "zn_ns1 y = a @ NL # l"
  proof -
    obtain b cs where a: "a = b # cs" using assms(3) by (cases a) auto
    obtain ks k where l: "l = ks @ [k]" using assms(5) by (cases l rule: rev_cases) auto
    show ?thesis using assms(4,7,8) unfolding y(2) by (simp add: a l strip_def rstrip_by_def rstrip_char_def)
  qed
  let ?r = "\<lparr>dr_id = record_seq (fst s) + 1, dr_zone_id = zn_id y, dr_name = ''@'', dr_type = ''NS'', dr_content = zn_ns1 y @ ''.'', dr_ttl = zn_ttl y, dr_priority = None\<rparr>"
  have "?r \<in> set (list_records (zn_id y) (fst s'))"
    using st assms(2) by (simp add: list_records_mem add_rows_fold add_row_def)
  then have "record_line (zone_ttl y) ?r \<in> set (zone_header today y @ map (record_line (zone_ttl y)) (list_records (zn_id y) (fst s')))" by simp
  from split_join_mem [OF this] have sub: "set (split_on NL (record_line (zone_ttl y) ?r)) \<subseteq> set (split_on NL (generate_zonefile today y (list_records (zn_id y) (fst s'))))"
    unfolding generate_zonefile_def split_on_app by auto
  have "split_on NL q = [q]" if "NL \<notin> set q" for q using that by (induction q) auto
  then have "split_on NL (l @ ''.'') = [l @ ''.'']" using assms(6) by simp
  then have "l @ ''.'' \<in> set (split_on NL (p @ TAB # (a @ NL # (l @ ''.''))))" for p
    using split_on_app [of NL "p @ TAB # a" "l @ ''.''"] by simp
  moreover have "\<exists>p. record_line (zone_ttl y) ?r = p @ TAB # (a @ NL # (l @ ''.''))"
    unfolding record_line_alt by (intro exI [of _ "''@'' @ TAB # str_int (if zn_ttl y = 0 then zone_ttl y else zn_ttl y) @ TAB # ''IN'' @ TAB # ''NS''"]) (simp add: record_data_def ns)
  ultimately have "l @ ''.'' \<in> set (split_on NL (record_line (zone_ttl y) ?r))" by metis
  moreover have "get_zone (zn_id y) (fst s') = Some y" using st assms(2) get_zone_added [OF assms(1) y(1)] by simp
  ultimately show ?thesis using sub by (auto simp: export_zonefile_def z)
qed

text \<open>
  A record is stored before the name server is asked: when publishing fails the caller is told that adding failed, yet the record is in the table (and
  repeating the request adds it twice).
\<close>

lemma record_stored_even_if_publishing_fails:
  assumes "validate_record t n c p = Inr (rtype, name, content, prio)" and "get_zone zid (fst s) \<noteq> None"
  shows "\<exists>r \<in> set (dns_records (fst (fst (add_record sh be h today zid t n c ttl p app s)))).
    dr_id r = record_seq (fst s) + 1 \<and> dr_zone_id r = zid \<and> dr_name r = name \<and> dr_type r = rtype \<and> dr_content r = content"
proof -
  let ?r = "\<lparr>dr_id = record_seq (fst s) + 1, dr_zone_id = zid, dr_name = name, dr_type = rtype, dr_content = content, dr_ttl = or_3600 ttl, dr_priority = prio\<rparr>"
  let ?f = "\<lambda>d. d\<lparr>dns_records := dns_records d @ [?r], record_seq := dr_id ?r\<rparr>"
  let ?m = "lseq (on_db ?f) (\<lambda>_. lseq (apply_after sh be h today zid app) (\<lambda>_.
        lseq (on_db (laudit None ''dns.add_record'' (rtype @ '' '' @ name @ '' -> '' @ content))) (\<lambda>_. lret (Inr ?r))))"
  have e: "add_record sh be h today zid t n c ttl p app s = ?m s" by (simp add: add_record_def assms Let_def)
  have "leads (\<lambda>d. bump_serial today zid (?f d)) ?m" by (intro leads_first leads_then leads_apply_after quiet_rules)
  from leads_state [OF this, of s] obtain l where "fst (fst (add_record sh be h today zid t n c ttl p app s)) = (bump_serial today zid (?f (fst s)))\<lparr>laudit_log := l\<rparr>"
    unfolding e by (elim exE)
  then show ?thesis by (intro bexI [of _ ?r]) (simp_all add: bump_frame)
qed

text \<open>A trailing line feed survives when dots follow it, and the pattern does not notice it.\<close>

lemma domain_with_line_feed: "validate_domain (''a.ir'' @ [NL] @ ''.'') = Inr (''a.ir'' @ [NL])"
  by code_simp

section \<open>Closed examples\<close>

definition demo_bind :: "(string, string) dict bind_env" where
  "demo_bind = \<lparr>ZONES_DIR = ''/etc/bind/zones'', INCLUDE_FILE = ''/etc/bind/named.conf.icsd'', NAMED_CONF_LOCAL = ''/etc/bind/named.conf.local'',
     BIND_SERVICE = ''bind9'', is_dir = (\<lambda>w p. False), is_file = (\<lambda>w p. False), read_file = (\<lambda>w p. None)\<rparr>"

definition demo_zone :: zone_row where
  "demo_zone = \<lparr>zn_id = 1, zn_domain = ''a.ir'', zn_ns1 = ''ns1.a.ir'', zn_ns2 = ''ns2.a.ir'', zn_admin_email = ''admin@a.ir'', zn_ttl = 3600, zn_serial = 2024013101\<rparr>"

definition demo_rr :: "int \<Rightarrow> string \<Rightarrow> string \<Rightarrow> string \<Rightarrow> dns_row" where
  "demo_rr i n t c = \<lparr>dr_id = i, dr_zone_id = 1, dr_name = n, dr_type = t, dr_content = c, dr_ttl = 600, dr_priority = None\<rparr>"

definition demo_zones :: ldb where
  "demo_zones = demo_ldb\<lparr>dns_zones := [demo_zone], zone_seq := 1, dns_records := [demo_rr 1 ''www'' ''A'' ''1.2.3.4'', demo_rr 2 ''@'' ''TXT'' ''v=1''], record_seq := 2\<rparr>"

lemma demo_zones_ok: "dns_ok demo_zones" "get_zone 1 demo_zones = Some demo_zone"
  by code_simp+

theorem zone_tables_well_formed_witness:
  "dns_ok (fst (fold (dns_exec demo_sh demo_bind demo_host) [(20240131, DAdd 1 ''mx'' ''@'' ''mail.a.ir.'' 0 None True), (20240201, DDelete 1 True)] (demo_zones, [])))"
  by (rule zone_tables_well_formed) (simp add: demo_zones_ok)

theorem record_change_raises_serial_witness:
  "zn_serial demo_zone < 2024020101 \<and> get_zone 1 (fst (dns_exec demo_sh demo_bind demo_host (20240201, DRemove 1 False) (demo_zones, []))) = Some (demo_zone\<lparr>zn_serial := 2024020101\<rparr>)"
proof -
  let ?s = "dns_exec demo_sh demo_bind demo_host (20240201, DRemove 1 False) (demo_zones, [])"
  have g: "get_zone 1 (fst ?s) = Some (demo_zone\<lparr>zn_serial := 2024020101\<rparr>)" and r: "rows_of_zone 1 (fst ?s) \<noteq> rows_of_zone 1 demo_zones" by code_simp+
  from record_change_raises_serial [of "(demo_zones, [])" 1 demo_zone demo_sh demo_bind demo_host 20240201 "DRemove 1 False"] g r demo_zones_ok
  have "zn_serial demo_zone < 2024020101" by simp
  with g show ?thesis by simp
qed

theorem zone_file_roundtrip_witness:
  "\<exists>text. export_zonefile 20240131 1 demo_zones = Inr text \<and>
    map read_line (drop 8 (butlast (split_on NL text))) = [(''www'', ''600'', ''A'', ''1.2.3.4''), (''@'', ''600'', ''TXT'', [CHR 0x22] @ ''v=1'' @ [CHR 0x22])]"
proof -
  have m: "map (\<lambda>r. (dr_name r, str_int (if dr_ttl r = 0 then zone_ttl demo_zone else dr_ttl r), dr_type r, record_data r)) (list_records 1 demo_zones)
      = [(''www'', ''600'', ''A'', ''1.2.3.4''), (''@'', ''600'', ''TXT'', [CHR 0x22] @ ''v=1'' @ [CHR 0x22])]" by code_simp
  have n: "NL \<notin> set (zn_ns1 demo_zone @ zn_admin_email demo_zone @ zn_domain demo_zone)" "\<forall>r \<in> set (list_records 1 demo_zones). NL \<notin> set (dr_content r)"
    by code_simp+
  show ?thesis using zone_file_roundtrip [OF demo_zones_ok n, of 20240131] unfolding m .
qed

theorem txt_roundtrip_witness: "unquote (txt_content (''say '' @ [CHR 0x22] @ ''hi'')) = Some (''say '' @ [CHR 0x22] @ ''hi'')"
  by (rule txt_roundtrip) code_simp+

theorem trailing_backslash_unterminated_witness: "unquote (txt_content (''path'' @ [CHR 0x5C])) = None"
  by (rule trailing_backslash_unterminated) code_simp+

theorem name_server_text_adds_lines_witness:
  "\<exists>s' z text. create_zone demo_sh demo_bind demo_host 20240131 ''b.ir'' (''ns'' @ NL # ''www 60 IN A 6.6.6.6 ;'') [] [] 3600 True (demo_zones, []) = (s', Inr z)
     \<and> export_zonefile 20240131 (zn_id z) (fst s') = Inr text \<and> ''www 60 IN A 6.6.6.6 ;.'' \<in> set (split_on NL text)"
proof -
  let ?c = "create_zone demo_sh demo_bind demo_host 20240131 ''b.ir'' (''ns'' @ NL # ''www 60 IN A 6.6.6.6 ;'') [] [] 3600 True (demo_zones, [])"
  have "case snd ?c of Inl e \<Rightarrow> False | Inr z \<Rightarrow> True" by code_simp
  then obtain s' z where c: "?c = (s', Inr z)" by (cases ?c) (auto split: sum.splits)
  have "\<exists>text. export_zonefile 20240131 (zn_id z) (fst s') = Inr text \<and> ''www 60 IN A 6.6.6.6 ;'' @ ''.'' \<in> set (split_on NL text)"
    by (rule name_server_text_adds_lines [OF _ c]) (simp_all add: demo_zones_ok is_space_def code_def)
  with c show ?thesis by auto
qed

end
