(* ===== verification/Files.thy ===== *)
theory Files
  imports Dns Manage
begin

text \<open>
  The file manager of the first panel (\<open>legacy/v1/backend/app/services/filemanager.py\<close>, \<open>api/files.py\<close>). A file system is a dictionary from
  absolute paths (lists of names) to nodes; the root directory always exists. Symbolic links are followed as the operating system and
  \<open>Path.resolve\<close> do. Texts are lists of code points, contents lists of bytes. Times, owners and the errors of disks and permissions are
  left out; an operation the system refuses for the shape of the tree raises.
\<close>

section \<open>File systems\<close>

datatype node = FFile "nat list" nat | FDir nat | FLink string

type_synonym path = "string list"
type_synonym fs = "(path, node) dict"

definition node_at :: "fs \<Rightarrow> path \<Rightarrow> node option" where
  "node_at f p = (if p = [] then Some (FDir 493) else dget f p)"

definition is_dir_at :: "fs \<Rightarrow> path \<Rightarrow> bool" where
  "is_dir_at f p = (case node_at f p of Some (FDir _) \<Rightarrow> True | _ \<Rightarrow> False)"

definition is_file_at :: "fs \<Rightarrow> path \<Rightarrow> bool" where
  "is_file_at f p = (case node_at f p of Some (FFile _ _) \<Rightarrow> True | _ \<Rightarrow> False)"

definition above :: "path \<Rightarrow> path \<Rightarrow> bool" where
  \<comment> \<open>\<open>p == q or p in q.parents\<close>\<close>
  "above p q = (take (length p) q = p)"

definition components :: "string \<Rightarrow> path" where
  "components s = filter (\<lambda>c. c \<noteq> [] \<and> c \<noteq> ''.'') (split_on (CHR ''/'') s)"

definition path_str :: "path \<Rightarrow> string" where
  "path_str p = ''/'' @ join_with ''/'' p"

definition links :: "fs \<Rightarrow> path list" where
  "links f = map fst (filter (\<lambda>(p, n). case n of FLink _ \<Rightarrow> True | _ \<Rightarrow> False) f)"

definition link_target :: "fs \<Rightarrow> path \<Rightarrow> string option" where
  "link_target f p = (case node_at f p of Some (FLink t) \<Rightarrow> Some t | _ \<Rightarrow> None)"

lemma link_target_links: "link_target f p = Some t \<Longrightarrow> p \<in> set (links f)"
  by (auto simp: link_target_def links_def node_at_def dget_def image_iff split: if_splits option.splits node.splits dest!: map_of_SomeD intro!: bexI [of _ "(p, FLink t)"])

function realpath :: "fs \<Rightarrow> path list \<Rightarrow> path \<Rightarrow> path \<Rightarrow> path option" where
  \<comment> \<open>\<open>os.path.realpath\<close>: the links being followed, the path so far, the names to go; \<open>None\<close> is a loop\<close>
  "realpath f act p [] = Some p"
| "realpath f act p (c # cs) =
     (if c = ''..'' then realpath f act (butlast p) cs
      else case link_target f (p @ [c]) of
             None \<Rightarrow> realpath f act (p @ [c]) cs
           | Some t \<Rightarrow>
               if p @ [c] \<in> set act then None
               else case realpath f ((p @ [c]) # act) (if startswith t ''/'' then [] else p) (components t) of
                      None \<Rightarrow> None
                    | Some q \<Rightarrow> realpath f act q cs)"
  by pat_completeness auto
termination
proof (relation "measures [\<lambda>(f, act, p, cs). card (set (links f) - set act), \<lambda>(f, act, p, cs). length cs]")
  fix f :: fs and act p c cs t
  assume a: "link_target f (p @ [c]) = Some t" "p @ [c] \<notin> set act"
  then have "p @ [c] \<in> set (links f) - set act" using link_target_links by blast
  then have "card (set (links f) - set act - {p @ [c]}) < card (set (links f) - set act)" by (intro card_Diff1_less) auto
  moreover have "set (links f) - set ((p @ [c]) # act) = set (links f) - set act - {p @ [c]}" by auto
  ultimately show "((f, (p @ [c]) # act, if startswith t ''/'' then [] else p, components t), f, act, p, c # cs)
      \<in> measures [\<lambda>(f, act, p, cs). card (set (links f) - set act), \<lambda>(f, act, p, cs). length cs]" by simp
qed auto

section \<open>Path safety\<close>

definition ALLOWED_ROOTS :: "path list" where
  "ALLOWED_ROOTS = [[''var'', ''www''], [''home''], [''srv'']]"

definition MAX_EDIT_BYTES :: nat where
  "MAX_EDIT_BYTES = 2 * 1024 * 1024"

definition MAX_UPLOAD_BYTES :: nat where
  "MAX_UPLOAD_BYTES = 512 * 1024 * 1024"

definition inside :: "fs \<Rightarrow> path \<Rightarrow> bool" where
  \<comment> \<open>equal to or below one of the allowed roots, as they resolve now\<close>
  "inside f p = list_ex (\<lambda>r. case realpath f [] [] r of None \<Rightarrow> False | Some rr \<Rightarrow> above rr p) ALLOWED_ROOTS"

definition resolve_parts :: "fs \<Rightarrow> bool \<Rightarrow> path \<Rightarrow> path lres" where
  \<comment> \<open>for a path already taken apart: is it absolute, its components\<close>
  "resolve_parts f absolute cs =
     (if \<not> absolute then Inl (AppError ''path must be absolute'')
      else if list_ex (\<lambda>c. CHR 0x00 \<in> set c) cs then Inl (Other (ValueError ''embedded null byte''))
      else case realpath f [] [] cs of
             None \<Rightarrow> Inl (AppError ''invalid path'')
           | Some p \<Rightarrow> if inside f p then Inr p else Inl (AppError ''outside allowed roots (/var/www, /home, /srv)''))"

definition resolve_path :: "fs \<Rightarrow> string \<Rightarrow> path lres" where
  "resolve_path f s =
     (if s = [] then Inl (AppError ''empty path'') else resolve_parts f (startswith s ''/'') (components s))"

definition pname :: "path \<Rightarrow> string" where
  "pname p = (if p = [] then [] else last p)"

definition suffix_of :: "string \<Rightarrow> string" where
  \<comment> \<open>\<open>Path.suffix\<close>: from the last dot on, unless it is the first or the last character\<close>
  "suffix_of n =
     (let ext = rev (takeWhile (\<lambda>c. c \<noteq> CHR ''.'') (rev n))
      in if CHR ''.'' \<in> set n \<and> ext \<noteq> [] \<and> length ext + 1 < length n then CHR ''.'' # ext else [])"

definition TEXT_EXTS :: "string list" where
  "TEXT_EXTS = [''.txt'', ''.html'', ''.htm'', ''.css'', ''.js'', ''.json'', ''.php'', ''.py'', ''.sh'', ''.conf'', ''.ini'', ''.env'', ''.md'', ''.xml'',
     ''.yml'', ''.yaml'', ''.sql'', ''.log'', ''.htaccess'', ''.ts'', ''.jsx'', ''.vue'', ''.toml'', ''.cfg'']"

definition is_text :: "path \<Rightarrow> bool" where
  "is_text p = (lower (suffix_of (pname p)) \<in> set TEXT_EXTS \<or> pname p \<in> {''.htaccess'', ''.env''})"

definition follow :: "fs \<Rightarrow> path \<Rightarrow> node option" where
  \<comment> \<open>\<open>stat\<close>: the node a path leads to\<close>
  "follow f p = (case realpath f [] [] p of None \<Rightarrow> None | Some q \<Rightarrow> node_at f q)"

section \<open>Reading\<close>

record entry =
  en_name :: string
  en_path :: string
  en_is_dir :: bool
  en_size :: nat
  en_mode :: string
  en_editable :: bool
  en_error :: bool

fun octal :: "nat \<Rightarrow> string" where
  "octal n = (if n < 8 then [char_of (48 + n)] else octal (n div 8) @ [char_of (48 + n mod 8)])"

declare octal.simps [simp del]

definition entry_of :: "fs \<Rightarrow> path \<Rightarrow> entry" where
  \<comment> \<open>a link that leads nowhere is listed with the error of \<open>stat\<close>\<close>
  "entry_of f p =
     (case follow f p of
        Some (FDir m) \<Rightarrow> \<lparr>en_name = pname p, en_path = path_str p, en_is_dir = True, en_size = 0, en_mode = octal (m mod 512), en_editable = False, en_error = False\<rparr>
      | Some (FFile bs m) \<Rightarrow>
          \<lparr>en_name = pname p, en_path = path_str p, en_is_dir = False, en_size = length bs, en_mode = octal (m mod 512),
           en_editable = is_text p \<and> length bs \<le> MAX_EDIT_BYTES, en_error = False\<rparr>
      | _ \<Rightarrow> \<lparr>en_name = pname p, en_path = path_str p, en_is_dir = False, en_size = 0, en_mode = [], en_editable = False, en_error = True\<rparr>)"

definition file_roots :: "fs \<Rightarrow> (string \<times> string) list" where
  "file_roots f = map (\<lambda>r. (path_str r, pname r)) (filter (\<lambda>r. follow f r \<noteq> None) ALLOWED_ROOTS)"

definition children :: "fs \<Rightarrow> path \<Rightarrow> path list" where
  "children f p = filter (\<lambda>q. q \<noteq> [] \<and> butlast q = p) (map fst f)"

definition leads_to_dir :: "fs \<Rightarrow> path \<Rightarrow> bool" where
  "leads_to_dir f p = (case follow f p of Some (FDir _) \<Rightarrow> True | _ \<Rightarrow> False)"

fun some_other_root :: "fs \<Rightarrow> path \<Rightarrow> path list \<Rightarrow> bool lres" where
  \<comment> \<open>\<open>any(str(p) != str(r.resolve()) for r in ALLOWED_ROOTS)\<close>\<close>
  "some_other_root f p [] = Inr False"
| "some_other_root f p (r # rs) =
     (case realpath f [] [] r of None \<Rightarrow> Inl (RuntimeError ''symlink loop'') | Some q \<Rightarrow> if q \<noteq> p then Inr True else some_other_root f p rs)"

definition list_dir :: "fs \<Rightarrow> string \<Rightarrow> (string \<times> string option \<times> entry list) lres" where
  "list_dir f s =
     lbind (resolve_path f s) (\<lambda>p.
       if node_at f p = None then Inl (AppError (''not found: '' @ s))
       else if \<not> is_dir_at f p then Inl (AppError ''not a directory'')
       else
         let cs = sort_key (\<lambda>q. lower (pname q)) (children f p);
             sorted = filter (leads_to_dir f) cs @ filter (\<lambda>q. \<not> leads_to_dir f q) cs
         in lbind (some_other_root f p ALLOWED_ROOTS) (\<lambda>other.
            Inr (path_str p, if other \<and> p \<noteq> [] then Some (path_str (butlast p)) else None, map (entry_of f) sorted)))"

fun universal_newlines :: "nat list \<Rightarrow> nat list" where
  \<comment> \<open>reading in text mode turns every line ending into a line feed\<close>
  "universal_newlines [] = []"
| "universal_newlines (c # cs) =
     (if c = 13 then 10 # (case cs of [] \<Rightarrow> [] | e # ds \<Rightarrow> if e = 10 then universal_newlines ds else universal_newlines cs)
      else c # universal_newlines cs)"

definition decode_text :: "(nat list \<Rightarrow> nat list) \<Rightarrow> nat list \<Rightarrow> nat list" where
  \<comment> \<open>\<open>malformed\<close> is what \<open>errors="replace"\<close> makes of bytes that are no UTF-8\<close>
  "decode_text malformed bs = universal_newlines (case utf8_decode bs of Some cs \<Rightarrow> cs | None \<Rightarrow> malformed bs)"

definition read_text :: "(nat list \<Rightarrow> nat list) \<Rightarrow> fs \<Rightarrow> string \<Rightarrow> (string \<times> nat list \<times> nat) lres" where
  "read_text malformed f s =
     lbind (resolve_path f s) (\<lambda>p.
       case node_at f p of
         Some (FFile bs m) \<Rightarrow>
           if MAX_EDIT_BYTES < length bs then Inl (AppError ''file too large to edit'')
           else if \<not> is_text p then Inl (AppError ''not a text file'')
           else Inr (path_str p, decode_text malformed bs, length bs)
       | _ \<Rightarrow> Inl (AppError ''file not found''))"

definition read_bytes :: "fs \<Rightarrow> string \<Rightarrow> (nat list \<times> string) lres" where
  "read_bytes f s =
     lbind (resolve_path f s) (\<lambda>p. case node_at f p of Some (FFile bs m) \<Rightarrow> Inr (bs, pname p) | _ \<Rightarrow> Inl (AppError ''file not found''))"

section \<open>Changing the tree\<close>

record fmodes =
  fm_file :: nat \<comment> \<open>what the umask leaves of 0666\<close>
  fm_dir :: nat \<comment> \<open>and of 0777\<close>

definition os_error :: "'v lres" where
  "os_error = Inl (RuntimeError ''OSError'')"

fun add_dirs :: "fmodes \<Rightarrow> path \<Rightarrow> path \<Rightarrow> (fs, unit) lio" where
  \<comment> \<open>\<open>mkdir(parents=True, exist_ok=True)\<close>: the part that is done, the names to go\<close>
  "add_dirs mo p [] f = (f, Inr ())"
| "add_dirs mo p (c # cs) f =
     (case node_at f (p @ [c]) of
        None \<Rightarrow> add_dirs mo (p @ [c]) cs (dput (p @ [c]) (FDir (fm_dir mo)) f)
      | Some (FDir m) \<Rightarrow> add_dirs mo (p @ [c]) cs f
      | Some _ \<Rightarrow> (f, os_error))"

definition make_parents :: "fmodes \<Rightarrow> path \<Rightarrow> (fs, unit) lio" where
  "make_parents mo p = add_dirs mo [] (butlast p)"

definition put_file :: "fmodes \<Rightarrow> path \<Rightarrow> nat list \<Rightarrow> fs \<Rightarrow> fs" where
  "put_file mo p bs f = dput p (FFile bs (case node_at f p of Some (FFile b m) \<Rightarrow> m | _ \<Rightarrow> fm_file mo)) f"

definition cut_tree :: "path \<Rightarrow> fs \<Rightarrow> fs" where
  "cut_tree p f = filter (\<lambda>(q, n). \<not> above p q) f"

definition move_tree :: "path \<Rightarrow> path \<Rightarrow> fs \<Rightarrow> fs" where
  "move_tree p t f = map (\<lambda>(q, n). (if above p q then t @ drop (length p) q else q, n)) (ddel t f)"

definition os_rename :: "path \<Rightarrow> path \<Rightarrow> (fs, unit) lio" where
  "os_rename p t f =
     (if \<not> is_dir_at f (butlast t) \<or> (is_dir_at f p \<and> (above p t \<or> node_at f t \<noteq> None)) then (f, os_error) else (move_tree p t f, Inr ()))"

definition at_path :: "string \<Rightarrow> (path \<Rightarrow> (fs, 'v) lio) \<Rightarrow> (fs, 'v) lio" where
  "at_path s k f = lseq (lret (resolve_path f s)) k f"

fun base_root :: "fs \<Rightarrow> path \<Rightarrow> path list \<Rightarrow> bool lres" where
  "base_root f p [] = Inr False"
| "base_root f p (r # rs) =
     (case realpath f [] [] r of None \<Rightarrow> Inl (RuntimeError ''symlink loop'') | Some q \<Rightarrow> if p = q then Inr True else base_root f p rs)"

section \<open>Operations\<close>

definition write_at :: "fmodes \<Rightarrow> path \<Rightarrow> nat list \<Rightarrow> (fs, path \<times> nat) lio" where
  \<comment> \<open>the file is opened, and so emptied, before the text is encoded\<close>
  "write_at mo p txt f =
     (case utf8_encode txt of
        Inl e \<Rightarrow> (put_file mo p [] f, Inl (Other e))
      | Inr bs \<Rightarrow> (put_file mo p bs f, Inr (p, length bs)))"

definition write_text :: "fmodes \<Rightarrow> string \<Rightarrow> nat list \<Rightarrow> (fs, path \<times> nat) lio" where
  "write_text mo s txt =
     at_path s (\<lambda>p f. if is_dir_at f p then (f, Inl (AppError ''path is a directory''))
                      else lseq (make_parents mo p) (\<lambda>_. write_at mo p txt) f)"

definition make_dir :: "fmodes \<Rightarrow> string \<Rightarrow> (fs, path) lio" where
  "make_dir mo s =
     at_path s (\<lambda>p f. if node_at f p \<noteq> None then (f, Inl (AppError ''already exists''))
                      else lseq (make_parents mo p) (\<lambda>_ f. (dput p (FDir (fm_dir mo)) f, Inr p)) f)"

definition new_file :: "fmodes \<Rightarrow> string \<Rightarrow> (fs, path) lio" where
  "new_file mo s =
     at_path s (\<lambda>p f. if node_at f p \<noteq> None then (f, Inl (AppError ''already exists''))
                      else lseq (make_parents mo p) (\<lambda>_ f. (put_file mo p [] f, Inr p)) f)"

definition delete_path :: "string \<Rightarrow> (fs, path) lio" where
  "delete_path s =
     at_path s (\<lambda>p f. if node_at f p = None then (f, Inl (AppError ''not found''))
                      else lseq (lret (base_root f p ALLOWED_ROOTS)) (\<lambda>b f.
                             if b then (f, Inl (AppError ''cannot delete a base root'')) else (cut_tree p f, Inr p)) f)"

definition suffixes_of :: "string \<Rightarrow> string" where
  \<comment> \<open>\<open>"".join(Path.suffixes)\<close>\<close>
  "suffixes_of n =
     (if endswith n ''.'' then []
      else concat (map (\<lambda>s. CHR ''.'' # s) (tl (split_on (CHR ''.'') (dropWhile (\<lambda>c. c = CHR ''.'') n)))))"

definition copy_name :: "string \<Rightarrow> nat \<Rightarrow> string" where
  "copy_name n i =
     (let suf = suffixes_of n in take (length n - length suf) n @ ''-copy'' @ (if i = 1 then [] else str_int (int i)) @ suf)"

fun free_copy :: "nat \<Rightarrow> fs \<Rightarrow> path \<Rightarrow> string \<Rightarrow> nat \<Rightarrow> path option" where
  \<comment> \<open>the loop, for a bounded number of turns\<close>
  "free_copy 0 f d n i = None"
| "free_copy (Suc k) f d n i = (if follow f (d @ [copy_name n i]) = None then Some (d @ [copy_name n i]) else free_copy k f d n (Suc i))"

definition unique_target :: "fs \<Rightarrow> path \<Rightarrow> string \<Rightarrow> path option" where
  "unique_target f d n =
     (let t = (if n = [] then d else d @ [n]) in
      if follow f t = None then Some t else free_copy (length f + 1) f d n 1)"

definition move_one :: "path \<Rightarrow> string \<Rightarrow> (fs, nat) lio" where
  "move_one dst raw =
     at_path raw (\<lambda>src f.
       if node_at f src = None then (f, Inr 0)
       else lseq (lret (base_root f src ALLOWED_ROOTS)) (\<lambda>b f.
         if b then (f, Inl (AppError ''cannot move a base root''))
         else case (unique_target f dst (pname src), realpath f [] [] dst) of
                (Some target, Some d) \<Rightarrow>
                  if is_dir_at f src \<and> startswith (path_str d) (path_str src) then (f, Inl (AppError ''cannot move a folder into itself''))
                  else lseq (os_rename src target) (\<lambda>_. lret (Inr 1)) f
              | _ \<Rightarrow> (f, Inl (RuntimeError ''symlink loop''))) f)"

fun move_all :: "path \<Rightarrow> string list \<Rightarrow> nat \<Rightarrow> (fs, nat) lio" where
  "move_all dst [] n = lret (Inr n)"
| "move_all dst (raw # raws) n = lseq (move_one dst raw) (\<lambda>k. move_all dst raws (n + k))"

definition move_items :: "string list \<Rightarrow> string \<Rightarrow> (fs, nat \<times> path) lio" where
  "move_items raws dest =
     at_path dest (\<lambda>dst f. if \<not> is_dir_at f dst then (f, Inl (AppError ''destination not a directory''))
                           else lseq (move_all dst raws 0) (\<lambda>n. lret (Inr (n, dst))) f)"

definition rename_path :: "string \<Rightarrow> string \<Rightarrow> (fs, path \<times> path) lio" where
  "rename_path s new_name =
     at_path s (\<lambda>p f.
       if node_at f p = None then (f, Inl (AppError ''not found''))
       else if CHR ''/'' \<in> set new_name \<or> new_name \<in> {[], ''.'', ''..''} then (f, Inl (AppError ''invalid name''))
       else lseq (lret (resolve_parts f True (butlast p @ [new_name]))) (\<lambda>t f.
         if node_at f t \<noteq> None then (f, Inl (AppError ''target exists'')) else lseq (os_rename p t) (\<lambda>_. lret (Inr (p, t))) f) f)"

definition oct_digit :: "char \<Rightarrow> bool" where
  "oct_digit c = (48 \<le> code c \<and> code c \<le> 55)"

definition oct_of_str :: "string \<Rightarrow> int option" where
  \<comment> \<open>\<open>int(s, 8)\<close>: blanks around, one sign, an optional prefix, digits with single underscores between them\<close>
  "oct_of_str s =
     (let t = strip s;
          neg = startswith t ''-'';
          u = (if neg \<or> startswith t ''+'' then tl t else t);
          v = (if startswith u ''0o_'' \<or> startswith u ''0O_'' then drop 3 u else if startswith u ''0o'' \<or> startswith u ''0O'' then drop 2 u else u);
          ps = split_on (CHR ''_'') v
      in if list_all (\<lambda>p. p \<noteq> [] \<and> list_all oct_digit p) ps
         then Some ((if neg then - 1 else 1) * foldl (\<lambda>a c. a * 8 + (int (code c) - 48)) 0 (concat ps)) else None)"

definition set_mode :: "nat \<Rightarrow> node \<Rightarrow> node" where
  "set_mode m n = (case n of FFile bs _ \<Rightarrow> FFile bs m | FDir _ \<Rightarrow> FDir m | FLink t \<Rightarrow> FLink t)"

definition chmod_path :: "string \<Rightarrow> string \<Rightarrow> (fs, path) lio" where
  "chmod_path s mode =
     at_path s (\<lambda>p f.
       case node_at f p of
         None \<Rightarrow> (f, Inl (AppError ''not found''))
       | Some n \<Rightarrow>
           (case oct_of_str mode of
              None \<Rightarrow> (f, Inl (AppError ''invalid mode''))
            | Some m \<Rightarrow>
                if m < - (2 ^ 31) \<or> 2 ^ 31 \<le> m then (f, Inl (Other OverflowError))
                else (if p = [] then f else dput p (set_mode (nat (m mod 4096)) n) f, Inr p)))"

definition upload_base :: "string \<Rightarrow> string" where
  \<comment> \<open>\<open>filename.replace("\", "/").split("/")[-1]\<close>\<close>
  "upload_base n = rpartition_at (CHR ''/'') (map (\<lambda>c. if c = CHR 0x5C then CHR ''/'' else c) n)"

definition save_upload :: "fmodes \<Rightarrow> string \<Rightarrow> string \<Rightarrow> nat list \<Rightarrow> (fs, path \<times> nat) lio" where
  "save_upload mo dir_path filename data f =
     (if MAX_UPLOAD_BYTES < length data then (f, Inl (AppError ''file exceeds size limit''))
      else if upload_base filename \<in> {[], ''.'', ''..''} then (f, Inl (AppError ''invalid filename''))
      else lseq (lret (resolve_parts f (startswith dir_path ''/'') (components dir_path @ [upload_base filename]))) (\<lambda>p.
           lseq (make_parents mo p) (\<lambda>_ f. if is_dir_at f p then (f, os_error) else (put_file mo p data f, Inr (p, length data)))) f)"

section \<open>Archives\<close>

text \<open>
  Reading an archive is a parameter: \<open>unpack\<close> gives the members of a zip file or of a tar file, or \<open>None\<close> when the library refuses it. Hard links and
  special files are left out.
\<close>

datatype member = MFile string "nat list" | MDir string | MLink string string

fun member_name :: "member \<Rightarrow> string" where
  "member_name (MFile n bs) = n"
| "member_name (MDir n) = n"
| "member_name (MLink n t) = n"

definition join_path :: "path \<Rightarrow> string \<Rightarrow> path" where
  \<comment> \<open>\<open>base / name\<close>\<close>
  "join_path p n = (if startswith n ''/'' then components n else p @ components n)"

definition safe_within :: "fs \<Rightarrow> path \<Rightarrow> path \<Rightarrow> bool" where
  "safe_within f p q =
     (case (realpath f [] [] p, realpath f [] [] q) of (Some a, Some b) \<Rightarrow> above a b | _ \<Rightarrow> False)"

definition dangling :: "fs \<Rightarrow> path \<Rightarrow> bool" where
  \<comment> \<open>some link on the way leads nowhere\<close>
  "dangling f p =
     list_ex (\<lambda>k. let pre = take k p in
       case realpath f [] [] (butlast pre) of
         None \<Rightarrow> True
       | Some q \<Rightarrow> link_target f (q @ [last pre]) \<noteq> None \<and> follow f pre = None) [1..<length p + 1]"

definition os_dirs :: "fmodes \<Rightarrow> path \<Rightarrow> (fs, path) lio" where
  \<comment> \<open>\<open>os.makedirs(p, exist_ok=True)\<close>, links followed\<close>
  "os_dirs mo p f =
     (case realpath f [] [] p of
        None \<Rightarrow> (f, os_error)
      | Some q \<Rightarrow> if dangling f p then (f, os_error) else lseq (add_dirs mo [] q) (\<lambda>_ f. if is_dir_at f q then (f, Inr q) else (f, os_error)) f)"

definition os_write :: "fmodes \<Rightarrow> path \<Rightarrow> nat list \<Rightarrow> (fs, unit) lio" where
  \<comment> \<open>\<open>open(p, "wb").write(bs)\<close>, links followed\<close>
  "os_write mo p bs f =
     (case realpath f [] [] p of
        None \<Rightarrow> (f, os_error)
      | Some q \<Rightarrow> if is_dir_at f q \<or> \<not> is_dir_at f (butlast q) then (f, os_error) else (put_file mo q bs f, Inr ()))"

definition put_link :: "path \<Rightarrow> string \<Rightarrow> string \<Rightarrow> (fs, unit) lio" where
  \<comment> \<open>in the directory \<open>q\<close>; an entry of that name is unlinked first, which a directory refuses\<close>
  "put_link q n t f = (if is_dir_at f (q @ [n]) then (f, os_error) else (dput (q @ [n]) (FLink t) f, Inr ()))"

definition extract_member :: "bool \<Rightarrow> fmodes \<Rightarrow> path \<Rightarrow> member \<Rightarrow> (fs, unit) lio" where
  \<comment> \<open>a zip file has no links, and \<open>..\<close> is dropped from its names\<close>
  "extract_member iz mo out m =
     (let cs = (if iz then filter (\<lambda>c. c \<noteq> ''..'') (components (member_name m)) else components (member_name m)) in
      if cs = [] then lret (Inr ())
      else lseq (os_dirs mo (out @ butlast cs)) (\<lambda>q.
        case m of
          MDir _ \<Rightarrow> lseq (os_dirs mo (q @ [last cs])) (\<lambda>_. lret (Inr ()))
        | MFile _ bs \<Rightarrow> os_write mo (q @ [last cs]) bs
        | MLink _ t \<Rightarrow> put_link q (last cs) t))"

fun extract_all :: "bool \<Rightarrow> fmodes \<Rightarrow> path \<Rightarrow> member list \<Rightarrow> (fs, unit) lio" where
  "extract_all iz mo out [] = lret (Inr ())"
| "extract_all iz mo out (m # ms) = lseq (extract_member iz mo out m) (\<lambda>_. extract_all iz mo out ms)"

definition archive_kind :: "string \<Rightarrow> bool option" where
  \<comment> \<open>zip, tar or neither, by the name\<close>
  "archive_kind n0 =
     (let n = lower n0 in
      if endswith n ''.zip'' then Some True
      else if endswith n ''.tar.gz'' \<or> endswith n ''.tgz'' \<or> endswith n ''.tar'' then Some False else None)"

definition extract_into :: "fmodes \<Rightarrow> bool \<Rightarrow> path \<Rightarrow> member list option \<Rightarrow> (fs, nat) lio" where
  \<comment> \<open>every name is checked before anything is written\<close>
  "extract_into mo iz out mms f =
     (case mms of
        None \<Rightarrow> (f, Inl (RuntimeError ''bad archive''))
      | Some ms \<Rightarrow>
          if list_ex (\<lambda>m. \<not> safe_within f out (join_path out (member_name m))) ms then (f, Inl (AppError ''unsafe path in archive''))
          else lseq (extract_all iz mo out ms) (\<lambda>_. lret (Inr (length ms))) f)"

definition extract_path :: "fmodes \<Rightarrow> (bool \<Rightarrow> nat list \<Rightarrow> member list option) \<Rightarrow> string \<Rightarrow> string option \<Rightarrow> (fs, path \<times> path \<times> nat) lio" where
  "extract_path mo unpack s dest =
     at_path s (\<lambda>p f.
       case node_at f p of
         Some (FFile bs m) \<Rightarrow>
           lseq (lret (case dest of None \<Rightarrow> Inr (butlast p) | Some t \<Rightarrow> if t = [] then Inr (butlast p) else resolve_path f t)) (\<lambda>out.
           lseq (add_dirs mo [] out) (\<lambda>_.
           case archive_kind (pname p) of
             None \<Rightarrow> lret (Inl (AppError ''unsupported archive''))
           | Some iz \<Rightarrow> lseq (extract_into mo iz out (unpack iz bs)) (\<lambda>n. lret (Inr (p, out, n))))) f
       | _ \<Rightarrow> (f, Inl (AppError ''archive not found'')))"

section \<open>The service, with its audit log\<close>

definition recorded :: "string \<Rightarrow> ('v \<Rightarrow> string) \<Rightarrow> (fs, 'v) lio \<Rightarrow> (ldb \<times> fs, 'v) lio" where
  "recorded action detail m = lseq (on_world m) (\<lambda>v. lseq (on_db (laudit None action (detail v))) (\<lambda>_. lret (Inr v)))"

definition fm_write_text :: "fmodes \<Rightarrow> string \<Rightarrow> nat list \<Rightarrow> (ldb \<times> fs, path \<times> nat) lio" where
  "fm_write_text mo s txt = recorded ''files.write'' (path_str \<circ> fst) (write_text mo s txt)"

definition fm_mkdir :: "fmodes \<Rightarrow> string \<Rightarrow> (ldb \<times> fs, path) lio" where
  "fm_mkdir mo s = recorded ''files.mkdir'' path_str (make_dir mo s)"

definition fm_new_file :: "fmodes \<Rightarrow> string \<Rightarrow> (ldb \<times> fs, path) lio" where
  "fm_new_file mo s = recorded ''files.new'' path_str (new_file mo s)"

definition fm_delete :: "string \<Rightarrow> (ldb \<times> fs, path) lio" where
  "fm_delete s = recorded ''files.delete'' path_str (delete_path s)"

definition fm_move_items :: "string list \<Rightarrow> string \<Rightarrow> (ldb \<times> fs, nat \<times> path) lio" where
  "fm_move_items raws dest = recorded ''files.move'' (\<lambda>(n, d). str_int (int n) @ '' -> '' @ path_str d) (move_items raws dest)"

fun delete_each :: "string list \<Rightarrow> nat \<Rightarrow> (ldb \<times> fs, nat) lio" where
  "delete_each [] n = lret (Inr n)"
| "delete_each (s # ss) n = (\<lambda>st.
     case fm_delete s st of
       (st', Inl (AppError _)) \<Rightarrow> delete_each ss n st'
     | (st', Inl e) \<Rightarrow> (st', Inl e)
     | (st', Inr _) \<Rightarrow> delete_each ss (Suc n) st')"

definition fm_delete_items :: "string list \<Rightarrow> (ldb \<times> fs, nat) lio" where
  "fm_delete_items ss = delete_each ss 0"

definition fm_rename :: "string \<Rightarrow> string \<Rightarrow> (ldb \<times> fs, path \<times> path) lio" where
  "fm_rename s n = recorded ''files.rename'' (\<lambda>(p, t). path_str p @ '' -> '' @ path_str t) (rename_path s n)"

definition fm_chmod :: "string \<Rightarrow> string \<Rightarrow> (ldb \<times> fs, path) lio" where
  "fm_chmod s mode = recorded ''files.chmod'' (\<lambda>p. path_str p @ '' '' @ mode) (chmod_path s mode)"

definition fm_save_upload :: "fmodes \<Rightarrow> string \<Rightarrow> string \<Rightarrow> nat list \<Rightarrow> (ldb \<times> fs, path \<times> nat) lio" where
  "fm_save_upload mo dir_path filename data = recorded ''files.upload'' (path_str \<circ> fst) (save_upload mo dir_path filename data)"

definition fm_extract :: "fmodes \<Rightarrow> (bool \<Rightarrow> nat list \<Rightarrow> member list option) \<Rightarrow> string \<Rightarrow> string option \<Rightarrow> (ldb \<times> fs, path \<times> path \<times> nat) lio" where
  "fm_extract mo unpack s dest =
     recorded ''files.extract'' (\<lambda>(p, out, n). path_str p @ '' -> '' @ path_str out @ '' ('' @ str_int (int n) @ '')'') (extract_path mo unpack s dest)"

section \<open>Routes\<close>

definition files_read :: "caller lres \<Rightarrow> (fs \<Rightarrow> 'v lres) \<Rightarrow> (ldb \<times> fs, 'v) lio" where
  \<comment> \<open>a route that any account may use and that only looks; \<open>_guard\<close> turns the service's error into a 400\<close>
  "files_read who g = lseq (lret who) (\<lambda>_. app_http 400 (\<lambda>s. (s, g (snd s))))"

definition files_change :: "caller lres \<Rightarrow> (ldb \<times> fs, 'v) lio \<Rightarrow> (ldb \<times> fs, 'v) lio" where
  "files_change who m = as_manager who (app_http 400 m)"

definition route_roots :: "caller lres \<Rightarrow> (ldb \<times> fs, (string \<times> string) list) lio" where
  "route_roots who = files_read who (\<lambda>f. Inr (file_roots f))"

definition route_list_dir :: "caller lres \<Rightarrow> string \<Rightarrow> (ldb \<times> fs, string \<times> string option \<times> entry list) lio" where
  "route_list_dir who s = files_read who (\<lambda>f. list_dir f s)"

definition route_read_file :: "(nat list \<Rightarrow> nat list) \<Rightarrow> caller lres \<Rightarrow> string \<Rightarrow> (ldb \<times> fs, string \<times> nat list \<times> nat) lio" where
  "route_read_file malformed who s = files_read who (\<lambda>f. read_text malformed f s)"

definition route_download_file :: "caller lres \<Rightarrow> string \<Rightarrow> (ldb \<times> fs, nat list \<times> string) lio" where
  \<comment> \<open>the bytes and the \<open>Content-Disposition\<close>\<close>
  "route_download_file who s =
     files_read who (\<lambda>f. lbind (read_bytes f s) (\<lambda>(bs, n). Inr (bs, ''attachment; filename='' @ [CHR 0x22] @ n @ [CHR 0x22])))"

definition route_write_file :: "fmodes \<Rightarrow> caller lres \<Rightarrow> string \<Rightarrow> nat list \<Rightarrow> (ldb \<times> fs, path \<times> nat) lio" where
  "route_write_file mo who s txt = files_change who (fm_write_text mo s txt)"

definition route_make_dir :: "fmodes \<Rightarrow> caller lres \<Rightarrow> string \<Rightarrow> (ldb \<times> fs, path) lio" where
  "route_make_dir mo who s = files_change who (fm_mkdir mo s)"

definition route_new_file :: "fmodes \<Rightarrow> caller lres \<Rightarrow> string \<Rightarrow> (ldb \<times> fs, path) lio" where
  "route_new_file mo who s = files_change who (fm_new_file mo s)"

definition route_delete_path :: "caller lres \<Rightarrow> string \<Rightarrow> (ldb \<times> fs, path) lio" where
  "route_delete_path who s = files_change who (fm_delete s)"

definition route_rename_path :: "caller lres \<Rightarrow> string \<Rightarrow> string \<Rightarrow> (ldb \<times> fs, path \<times> path) lio" where
  "route_rename_path who s n = files_change who (fm_rename s n)"

definition route_chmod_path :: "caller lres \<Rightarrow> string \<Rightarrow> string \<Rightarrow> (ldb \<times> fs, path) lio" where
  "route_chmod_path who s mode = files_change who (fm_chmod s mode)"

definition route_extract_archive ::
  "fmodes \<Rightarrow> (bool \<Rightarrow> nat list \<Rightarrow> member list option) \<Rightarrow> caller lres \<Rightarrow> string \<Rightarrow> string option \<Rightarrow> (ldb \<times> fs, path \<times> path \<times> nat) lio" where
  "route_extract_archive mo unpack who s dest = files_change who (fm_extract mo unpack s dest)"

definition route_move_paths :: "caller lres \<Rightarrow> string list \<Rightarrow> string \<Rightarrow> (ldb \<times> fs, nat \<times> path) lio" where
  "route_move_paths who raws dest = files_change who (fm_move_items raws dest)"

definition route_delete_many :: "caller lres \<Rightarrow> string list \<Rightarrow> (ldb \<times> fs, nat) lio" where
  "route_delete_many who ss = files_change who (fm_delete_items ss)"

definition route_upload_file :: "fmodes \<Rightarrow> caller lres \<Rightarrow> string \<Rightarrow> string \<Rightarrow> nat list \<Rightarrow> (ldb \<times> fs, path \<times> nat) lio" where
  "route_upload_file mo who dir_path filename data =
     files_change who (fm_save_upload mo dir_path (if filename = [] then ''upload.bin'' else filename) data)"

section \<open>Changes stay below the allowed roots\<close>

lemma above_refl [simp]: "above p p"
  by (simp add: above_def)

lemma above_iff: "above p q \<longleftrightarrow> (\<exists>r. q = p @ r)"
  by (metis above_def append_eq_conv_conj append_take_drop_id)

lemma above_trans: "above p q \<Longrightarrow> above q r \<Longrightarrow> above p r"
  by (auto simp: above_iff)

lemma above_comparable: "above p r \<Longrightarrow> above q r \<Longrightarrow> above p q \<or> above q p"
  unfolding above_iff by (metis append_eq_append_conv2)

definition near :: "fs \<Rightarrow> path \<Rightarrow> bool" where
  \<comment> \<open>on the way to an allowed root\<close>
  "near f q = list_ex (\<lambda>r. case realpath f [] [] r of None \<Rightarrow> False | Some rr \<Rightarrow> above q rr) ALLOWED_ROOTS"

lemma inside_down: "inside f p \<Longrightarrow> above p q \<Longrightarrow> inside f q"
  unfolding inside_def list_ex_iff by (fastforce intro: above_trans split: option.splits)

lemma inside_up: "inside f p \<Longrightarrow> above q p \<Longrightarrow> inside f q \<or> near f q"
  unfolding inside_def near_def list_ex_iff using above_comparable by (fastforce split: option.splits)

lemma node_at_dput: "node_at (dput p n f) q = (if q = p \<and> p \<noteq> [] then Some n else node_at f q)"
  by (simp add: node_at_def dget_dput)

lemma add_dirs_changes:
  "node_at (fst (add_dirs mo p cs f)) q \<noteq> node_at f q \<Longrightarrow> above q (p @ cs) \<and> node_at f q = None \<and> node_at (fst (add_dirs mo p cs f)) q = Some (FDir (fm_dir mo))"
proof (induction mo p cs f rule: add_dirs.induct)
  case (2 mo p c cs f)
  show ?case
  proof (cases "node_at f (p @ [c])")
    case None
    let ?f = "dput (p @ [c]) (FDir (fm_dir mo)) f"
    from 2(3) None have ch: "node_at (fst (add_dirs mo (p @ [c]) cs ?f)) q \<noteq> node_at f q" by simp
    show ?thesis
    proof (cases "node_at (fst (add_dirs mo (p @ [c]) cs ?f)) q = node_at ?f q")
      case True
      with ch None show ?thesis by (auto simp: node_at_dput above_iff split: if_splits)
    next
      case False
      from 2(1) [OF None False] None ch show ?thesis by (auto simp: node_at_dput split: if_splits)
    qed
  next
    case (Some n)
    with 2(2,3) show ?thesis by (cases n) auto
  qed
qed simp

lemma make_parents_changes:
  assumes "node_at (fst (make_parents mo p f)) q \<noteq> node_at f q"
  shows "above q p \<and> node_at f q = None \<and> node_at (fst (make_parents mo p f)) q = Some (FDir (fm_dir mo))"
proof -
  have "above (butlast p) p" by (metis above_iff append_butlast_last_id append_Nil2 butlast.simps(1))
  with add_dirs_changes [of mo "[]" "butlast p" f q] assms show ?thesis by (auto simp: make_parents_def intro: above_trans)
qed

definition confined :: "fmodes \<Rightarrow> fs \<Rightarrow> fs \<Rightarrow> bool" where
  \<comment> \<open>what differs is below an allowed root, or a directory that was made on the way to one\<close>
  "confined mo f f' =
     (\<forall>q. node_at f' q \<noteq> node_at f q \<longrightarrow> inside f q \<or> (near f q \<and> node_at f q = None \<and> node_at f' q = Some (FDir (fm_dir mo))))"

lemma confined_refl [simp, intro]: "confined mo f f"
  by (simp add: confined_def)

lemma confined_parents: "inside f p \<Longrightarrow> confined mo f (fst (make_parents mo p f))"
  unfolding confined_def using make_parents_changes [of mo p f] inside_up by blast

lemma confined_at: "inside f p \<Longrightarrow> confined mo f g \<Longrightarrow> (\<And>q. node_at h q \<noteq> node_at g q \<Longrightarrow> above p q) \<Longrightarrow> confined mo f h"
  unfolding confined_def by (metis inside_down)

lemma confined_put: "inside f p \<Longrightarrow> confined mo f g \<Longrightarrow> confined mo f (dput p n g)"
  by (erule confined_at) (auto simp: node_at_dput split: if_splits)

lemma resolve_inside: "resolve_parts f ab cs = Inr p \<Longrightarrow> inside f p" "resolve_path f s = Inr p \<Longrightarrow> inside f p"
  by (auto simp: resolve_path_def resolve_parts_def split: if_splits option.splits)

lemma confined_at_path: "(\<And>p. inside f p \<Longrightarrow> confined mo f (fst (k p f))) \<Longrightarrow> confined mo f (fst (at_path s k f))"
  by (cases "resolve_path f s") (auto simp: at_path_def resolve_inside)

lemma confined_after_parents:
  "inside f p \<Longrightarrow> (\<And>g. confined mo f g \<Longrightarrow> confined mo f (fst (k g))) \<Longrightarrow> confined mo f (fst (lseq (make_parents mo p) (\<lambda>_. k) f))"
  using confined_parents [of f p mo] by (auto simp: lseq_def split: prod.splits sum.splits)

lemma map_of_rename_other:
  assumes "\<And>k. g k = q \<longleftrightarrow> k = q"
  shows "map_of (map (\<lambda>(k, n). (g k, n)) l) q = map_of l q"
proof (induction l)
  case (Cons x l)
  then show ?case using assms [of "fst x"] by (cases x) auto
qed simp

lemma move_tree_changes: "node_at (move_tree p t f) q \<noteq> node_at f q \<Longrightarrow> above p q \<or> above t q"
proof (rule ccontr)
  assume ch: "node_at (move_tree p t f) q \<noteq> node_at f q" and "\<not> (above p q \<or> above t q)"
  then have "(if above p k then t @ drop (length p) k else k) = q \<longleftrightarrow> k = q" for k by (auto simp: above_iff)
  then have "dget (move_tree p t f) q = dget (ddel t f) q"
    unfolding move_tree_def dget_def by (intro map_of_rename_other)
  moreover have "q \<noteq> t" using \<open>\<not> (above p q \<or> above t q)\<close> by auto
  ultimately show False using ch by (simp add: node_at_def dget_ddel split: if_splits)
qed

lemma confined_rename: "inside f p \<Longrightarrow> inside f t \<Longrightarrow> confined mo f (fst (os_rename p t f))"
  unfolding os_rename_def confined_def using move_tree_changes [of p t f] inside_down by auto

lemma cut_tree_changes: "node_at (cut_tree p f) q \<noteq> node_at f q \<Longrightarrow> above p q"
proof (rule ccontr)
  assume ch: "node_at (cut_tree p f) q \<noteq> node_at f q" and n: "\<not> above p q"
  from n have "map_of (filter (\<lambda>(q, n). \<not> above p q) f) q = map_of f q" by (induction f) auto
  with ch show False by (simp add: node_at_def cut_tree_def dget_def split: if_splits)
qed

datatype file_op =
    FWrite string "nat list"
  | FMkdir string
  | FNew string
  | FDelete string
  | FRename string string
  | FChmod string string
  | FUpload string string "nat list"

fun file_exec :: "fmodes \<Rightarrow> file_op \<Rightarrow> fs \<Rightarrow> fs" where
  "file_exec mo (FWrite s txt) f = fst (write_text mo s txt f)"
| "file_exec mo (FMkdir s) f = fst (make_dir mo s f)"
| "file_exec mo (FNew s) f = fst (new_file mo s f)"
| "file_exec mo (FDelete s) f = fst (delete_path s f)"
| "file_exec mo (FRename s n) f = fst (rename_path s n f)"
| "file_exec mo (FChmod s mode) f = fst (chmod_path s mode f)"
| "file_exec mo (FUpload s n data) f = fst (save_upload mo s n data f)"

lemma confined_write_at: "inside f p \<Longrightarrow> confined mo f g \<Longrightarrow> confined mo f (fst (write_at mo p txt g))"
  by (simp add: write_at_def put_file_def confined_put split: sum.split)

lemma file_exec_confined: "confined mo f (file_exec mo op f)"
proof (cases op)
  case (FWrite s text_points)
  show ?thesis unfolding FWrite file_exec.simps write_text_def
    by (rule confined_at_path) (auto intro!: confined_after_parents confined_write_at)
next
  case (FMkdir s)
  show ?thesis unfolding FMkdir file_exec.simps make_dir_def
    by (rule confined_at_path) (auto intro!: confined_after_parents confined_put)
next
  case (FNew s)
  show ?thesis unfolding FNew file_exec.simps new_file_def put_file_def
    by (rule confined_at_path) (auto intro!: confined_after_parents confined_put)
next
  case (FDelete s)
  have "confined mo f (cut_tree p f)" if "inside f p" for p
    using that confined_refl by (rule confined_at) (rule cut_tree_changes)
  then show ?thesis unfolding FDelete file_exec.simps delete_path_def
    by (intro confined_at_path) (auto simp: lseq_def lret_def split: sum.split)
next
  case (FRename s n)
  have "confined mo f (fst (lseq (lret (resolve_parts f True (butlast p @ [n]))) (\<lambda>t f.
         if node_at f t \<noteq> None then (f, Inl (AppError ''target exists'')) else lseq (os_rename p t) (\<lambda>_. lret (Inr (p, t))) f) f))" if "inside f p" for p
  proof (cases "resolve_parts f True (butlast p @ [n])")
    case (Inr t)
    with that resolve_inside(1) confined_rename [of f p t mo] show ?thesis
      by (auto simp: lseq_def [of "os_rename p t"] lret_def split: prod.splits sum.splits)
  qed simp
  then show ?thesis unfolding FRename file_exec.simps rename_path_def
    by (intro confined_at_path) auto
next
  case (FChmod s mode)
  show ?thesis unfolding FChmod file_exec.simps chmod_path_def
    by (rule confined_at_path) (auto intro!: confined_put split: option.split)
next
  case (FUpload s n data)
  have "confined mo f (fst (lseq (make_parents mo p) (\<lambda>_ f. if is_dir_at f p then (f, os_error) else (put_file mo p data f, Inr (p, length data))) f))"
    if "inside f p" for p
    using that by (intro confined_after_parents) (simp_all add: put_file_def confined_put)
  then show ?thesis unfolding FUpload file_exec.simps save_upload_def
    by (cases "resolve_parts f (startswith s ''/'') (components s @ [upload_base n])") (auto simp: resolve_inside)
qed

text \<open>
  C26. The file manager changes nothing outside its roots: for every operation on one path (saving, new folders and files, deleting, renaming, modes, uploads),
  whatever text the request names (dots, links and all) and whether it succeeds or fails, a path whose node differs afterwards lies below one of the allowed
  roots as they resolve now, or is a missing directory that was made on the way to such a root.
\<close>

theorem changes_stay_inside:
  assumes "node_at (file_exec mo op f) q \<noteq> node_at f q"
  shows "inside f q \<or> (near f q \<and> node_at f q = None \<and> node_at (file_exec mo op f) q = Some (FDir (fm_dir mo)))"
  using file_exec_confined [of mo f op] assms unfolding confined_def by blast

section \<open>Saved texts read back\<close>

lemma realpath_cong: "(\<And>p. link_target g p = link_target f p) \<Longrightarrow> realpath g act p cs = realpath f act p cs"
proof (induction f act p cs rule: realpath.induct)
  case (2 f act p c cs)
  then show ?case by (auto split: option.split)
qed simp

definition clean :: "fs \<Rightarrow> path \<Rightarrow> bool" where
  "clean f p = (\<forall>q. above q p \<longrightarrow> link_target f q = None)"

lemma above_butlast: "above q (butlast p) \<Longrightarrow> above q p"
  by (metis above_iff above_trans append_Nil2 append_butlast_last_id butlast.simps(1))

lemma above_snoc: "above q (p @ [c]) \<longleftrightarrow> above q p \<or> q = p @ [c]"
  unfolding above_iff by (auto simp: append_eq_append_conv2 Cons_eq_append_conv append_eq_Cons_conv)

lemma realpath_clean: "realpath f act p cs = Some q \<Longrightarrow> clean f p \<Longrightarrow> clean f q"
proof (induction f act p cs arbitrary: q rule: realpath.induct)
  case (2 f act p c cs)
  have root: "clean f []" by (auto simp: clean_def above_iff link_target_def node_at_def)
  show ?case
  proof (cases "c = ''..''")
    case True
    have "clean f (butlast p)" using 2(6) above_butlast by (auto simp: clean_def)
    with 2(1) [OF True] 2(5) True show ?thesis by simp
  next
    case dots: False
    show ?thesis
    proof (cases "link_target f (p @ [c])")
      case None
      then have "clean f (p @ [c])" using 2(6) by (auto simp: clean_def above_snoc)
      with 2(2) [OF dots None] 2(5) dots None show ?thesis by simp
    next
      case (Some t)
      then obtain r where act: "p @ [c] \<notin> set act" and r: "realpath f ((p @ [c]) # act) (if startswith t ''/'' then [] else p) (components t) = Some r"
        and q: "realpath f act r cs = Some q" using 2(5) dots by (auto split: if_splits option.splits)
      have "clean f (if startswith t ''/'' then [] else p)" using 2(6) root by simp
      from 2(3) [OF dots Some act r this] have "clean f r" .
      with 2(4) [OF dots Some act r q] show ?thesis .
    qed
  qed
qed simp

lemma clean_resolved: "realpath f [] [] cs = Some p \<Longrightarrow> link_target f p = None"
  using realpath_clean [of f "[]" "[]" cs p] by (auto simp: clean_def above_iff link_target_def node_at_def)

text \<open>
  What the editor saved is what it opens, but for line endings: after a text was saved to a file that may be edited and is not larger than 2 MB, opening
  the same path gives the same file and the same text with every carriage return (alone or before a line feed) turned into a line feed; a text
  without carriage returns comes back exactly.
\<close>

theorem saved_text_reads_back:
  assumes "write_text mo s cs f = (g, Inr (p, n))" and "is_text p" "n \<le> MAX_EDIT_BYTES"
  shows "read_text malformed g s = Inr (path_str p, universal_newlines cs, n) \<and> (13 \<notin> set cs \<longrightarrow> universal_newlines cs = cs)"
proof -
  obtain p0 where r0: "resolve_path f s = Inr p0" using assms(1) by (cases "resolve_path f s") (auto simp: write_text_def at_path_def)
  have d0: "\<not> is_dir_at f p0" using assms(1) r0 by (auto simp: write_text_def at_path_def split: if_splits)
  obtain bs where bs: "utf8_encode cs = Inr bs"
    using assms(1) r0 d0 by (cases "utf8_encode cs") (auto simp: write_text_def at_path_def lseq_Inr_iff write_at_def)
  obtain h where h0: "make_parents mo p0 f = (h, Inr ())" "g = put_file mo p0 bs h" "p0 = p" and n: "n = length bs"
    using assms(1) r0 d0 bs by (auto simp: write_text_def at_path_def lseq_Inr_iff write_at_def)
  note r = r0 [unfolded h0(3)] and d = d0 [unfolded h0(3)] and h = h0(1) [unfolded h0(3)] and g = h0(2) [unfolded h0(3)]
  have "p \<noteq> []" using d by (auto simp: is_dir_at_def node_at_def)
  then have gp: "node_at g p = Some (FFile bs (case node_at h p of Some (FFile b m) \<Rightarrow> m | _ \<Rightarrow> fm_file mo))" by (simp add: g put_file_def node_at_dput)
  have real: "realpath f [] [] (components s) = Some p" using r by (auto simp: resolve_path_def resolve_parts_def split: if_splits option.splits)
  have "link_target g q = link_target f q" for q
  proof (cases "q = p")
    case True
    then show ?thesis using gp clean_resolved [OF real] by (simp add: link_target_def)
  next
    case False
    then have "node_at g q = node_at h q" by (simp add: g put_file_def node_at_dput)
    then show ?thesis using make_parents_changes [of mo p f q] h by (cases "node_at h q = node_at f q") (auto simp: link_target_def)
  qed
  note same = realpath_cong [OF this]
  have "inside g q = inside f q" for q by (simp add: inside_def same)
  then have "resolve_parts g ab ds = resolve_parts f ab ds" for ab ds by (simp add: resolve_parts_def same cong: option.case_cong)
  then have "resolve_path g s = Inr p" using r by (auto simp: resolve_path_def split: if_splits)
  moreover have "utf8_decode bs = Some cs" using utf8_roundtrip [of cs bs] bs by simp
  moreover have "13 \<notin> set cs \<Longrightarrow> universal_newlines cs = cs" by (induction cs rule: universal_newlines.induct) auto
  ultimately show ?thesis using gp assms(2,3) n by (simp add: read_text_def lbind_def decode_text_def)
qed

section \<open>Free names\<close>

lemma realpath_snoc: "realpath f act p (cs @ [c]) = (case realpath f act p cs of None \<Rightarrow> None | Some q \<Rightarrow> realpath f act q [c])"
proof (induction f act p cs rule: realpath.induct)
  case (2 f act p d cs)
  then show ?case by (auto split: option.split)
qed simp

lemma digits10_nonempty: "digits10 n \<noteq> []"
  by (subst digits10.simps) simp

lemma str_int_nonempty: "str_int i \<noteq> []"
  by (simp add: str_int_def digits10_nonempty)

lemma copy_name_inj: "copy_name n i = copy_name n j \<Longrightarrow> i = j"
  using str_int_inj [of "int i" "int j"] str_int_nonempty [of "int i"] str_int_nonempty [of "int j"] by (auto simp: copy_name_def Let_def split: if_splits)

lemma copy_name_no_dots: "copy_name n i \<noteq> ''..''"
proof
  assume e: "copy_name n i = ''..''"
  have "CHR ''c'' \<in> set (copy_name n i)" by (simp add: copy_name_def Let_def)
  then show False by (simp add: e)
qed

lemma followed_entry: "realpath f [] [] d = Some q \<Longrightarrow> c \<noteq> ''..'' \<Longrightarrow> follow f (d @ [c]) \<noteq> None \<Longrightarrow> q @ [c] \<in> fst ` set f"
proof -
  assume a: "realpath f [] [] d = Some q" "c \<noteq> ''..''" "follow f (d @ [c]) \<noteq> None"
  have "dget f (q @ [c]) \<noteq> None"
    using a by (auto simp: follow_def realpath_snoc link_target_def node_at_def split: option.splits node.splits)
  then obtain n where "(q @ [c], n) \<in> set f" by (auto simp: dget_def dest!: map_of_SomeD)
  then show ?thesis by (rule rev_image_eqI) simp
qed

lemma free_copy_None: "free_copy k f d n i = None \<Longrightarrow> j < k \<Longrightarrow> follow f (d @ [copy_name n (i + j)]) \<noteq> None"
proof (induction k f d n i arbitrary: j rule: free_copy.induct)
  case (2 k f d n i)
  then show ?case by (cases j) (auto split: if_splits)
qed simp

lemma free_copy_free: "free_copy k f d n i = Some t \<Longrightarrow> follow f t = None"
  by (induction k f d n i rule: free_copy.induct) (auto split: if_splits)

lemma free_copy_found: "length f < k \<Longrightarrow> free_copy k f d n i \<noteq> None"
proof
  assume k: "length f < k" and none: "free_copy k f d n i = None"
  obtain q where q: "realpath f [] [] d = Some q"
    using free_copy_None [OF none, of 0] k by (auto simp: follow_def realpath_snoc split: option.splits)
  have "(\<lambda>j. q @ [copy_name n (i + j)]) ` {..<k} \<subseteq> fst ` set f"
    using followed_entry [OF q copy_name_no_dots] free_copy_None [OF none] by blast
  then have "card ((\<lambda>j. q @ [copy_name n (i + j)]) ` {..<k}) \<le> card (fst ` set f)" by (intro card_mono) auto
  moreover have "inj_on (\<lambda>j. q @ [copy_name n (i + j)]) {..<k}" by (auto simp: inj_on_def dest: copy_name_inj)
  moreover have "card (fst ` set f) \<le> length f" using card_image_le [of "set f" fst] card_length [of f] by simp
  ultimately show False using k by (simp add: card_image)
qed

text \<open>
  The search for a free name ends and never overwrites: in every file system it finds a path at which nothing exists, within one turn more than the
  file system has entries.
\<close>

theorem unique_target_found: "\<exists>t. unique_target f d n = Some t \<and> follow f t = None"
proof -
  obtain t where "free_copy (length f + 1) f d n 1 = Some t" using free_copy_found [of f "length f + 1" d n 1] by auto
  moreover from this have "follow f t = None" by (rule free_copy_free)
  ultimately show ?thesis by (simp add: unique_target_def Let_def)
qed

section \<open>Closed examples\<close>

definition demo_modes :: fmodes where
  "demo_modes = \<lparr>fm_file = 420, fm_dir = 493\<rparr>"

definition demo_fs :: fs where
  "demo_fs = [([''home''], FDir 493), ([''home'', ''a''], FDir 493), ([''home'', ''ab''], FDir 493), ([''home'', ''in.tar''], FFile [1] 420),
     ([''home'', ''out''], FDir 493), ([''etc''], FDir 493), ([''etc'', ''passwd''], FFile [7] 420), ([''home'', ''up''], FLink ''/etc'')]"

definition demo_unpack :: "bool \<Rightarrow> nat list \<Rightarrow> member list option" where
  "demo_unpack z bs = Some [MLink ''x'' ''/etc'', MFile ''x/passwd'' [6, 6]]"

text \<open>
  The check of an archive's names happens before anything is written, so it does not see links that the archive itself brings: a tar file with a link \<open>x\<close>
  to a directory outside and a member below \<open>x\<close> passes the check and overwrites a file outside the allowed roots.
\<close>

lemma tar_link_escapes_roots:
  "snd (extract_path demo_modes demo_unpack ''/home/in.tar'' (Some ''/home/out'') demo_fs) = Inr ([''home'', ''in.tar''], [''home'', ''out''], 2)"
  "node_at (fst (extract_path demo_modes demo_unpack ''/home/in.tar'' (Some ''/home/out'') demo_fs)) [''etc'', ''passwd''] = Some (FFile [6, 6] 420)"
  "\<not> inside demo_fs [''etc'', ''passwd'']"
  by code_simp+

text \<open>Moving into a folder whose name merely begins with that of the moved folder is refused, because the check compares texts.\<close>

lemma move_prefix_refused:
  "snd (move_items [''/home/a''] ''/home/ab'' demo_fs) = Inl (AppError ''cannot move a folder into itself'')" "\<not> above [''home'', ''a''] [''home'', ''ab'']"
  by code_simp+

theorem changes_stay_inside_witness:
  "inside demo_fs [''home'', ''n'', ''b.txt''] \<or> near demo_fs [''home'', ''n'', ''b.txt'']"
proof -
  have "node_at (file_exec demo_modes (FNew ''/home/./n/../n/b.txt'') demo_fs) [''home'', ''n'', ''b.txt''] \<noteq> node_at demo_fs [''home'', ''n'', ''b.txt'']"
    by code_simp
  from changes_stay_inside [OF this] show ?thesis by blast
qed

theorem saved_text_reads_back_witness:
  "\<exists>g n. write_text demo_modes ''/home/b.txt'' [104, 1740, 10] demo_fs = (g, Inr ([''home'', ''b.txt''], n))
     \<and> read_text (\<lambda>bs. bs) g ''/home/b.txt'' = Inr (''/home/b.txt'', [104, 1740, 10], n)"
proof -
  have e: "utf8_encode [104, 1740, 10] = Inr [104, 219, 140, 10]" by (simp add: utf8_encode_def scalar_value_def utf8_point_def)
  have r: "resolve_path demo_fs ''/home/b.txt'' = Inr [''home'', ''b.txt'']" "\<not> is_dir_at demo_fs [''home'', ''b.txt'']"
    "make_parents demo_modes [''home'', ''b.txt''] demo_fs = (demo_fs, Inr ())" by code_simp+
  have w: "write_text demo_modes ''/home/b.txt'' [104, 1740, 10] demo_fs = (put_file demo_modes [''home'', ''b.txt''] [104, 219, 140, 10] demo_fs, Inr ([''home'', ''b.txt''], 4))"
    by (simp add: write_text_def at_path_def r lseq_def lret_def write_at_def e)
  have t: "is_text [''home'', ''b.txt'']" and p: "path_str [''home'', ''b.txt''] = ''/home/b.txt''" by code_simp+
  have "(4::nat) \<le> MAX_EDIT_BYTES" by (simp add: MAX_EDIT_BYTES_def)
  from saved_text_reads_back [OF w t this, of "\<lambda>bs. bs"] p
  have "read_text (\<lambda>bs. bs) (put_file demo_modes [''home'', ''b.txt''] [104, 219, 140, 10] demo_fs) ''/home/b.txt'' = Inr (''/home/b.txt'', [104, 1740, 10], 4)" by simp
  with w show ?thesis by blast
qed

end
