(* ===== verification/Panel.thy ===== *)
theory Panel
  imports Files
begin

text \<open>
  The routes of the first panel for cron jobs (\<open>legacy/v1/backend/app/api/cron.py\<close>), and what roles mean across its services: the changing routes of the
  cron, zone and file components as requests on one state.
\<close>

section \<open>Cron routes\<close>

definition route_list_jobs :: "'w shell \<Rightarrow> caller lres \<Rightarrow> (ldb \<times> 'w, cron_row list \<times> string list) lio" where
  "route_list_jobs sh who = lseq (lret who) (\<lambda>_ s. lseq (on_world (system_users sh)) (\<lambda>us. lret (Inr (list_jobs (fst s), us))) s)"

definition route_create_job :: "'w shell \<Rightarrow> host_env \<Rightarrow> caller lres \<Rightarrow> string \<Rightarrow> string \<Rightarrow> string \<Rightarrow> string \<Rightarrow> (ldb \<times> 'w, cron_row) lio" where
  "route_create_job sh h who user schedule command comment = as_manager who (app_http 400 (create_job sh h user schedule command comment True))"

definition route_set_enabled :: "'w shell \<Rightarrow> host_env \<Rightarrow> caller lres \<Rightarrow> int \<Rightarrow> bool \<Rightarrow> (ldb \<times> 'w, unit) lio" where
  "route_set_enabled sh h who jid en = as_manager who (app_http 400 (set_enabled sh h jid en))"

definition route_delete_job :: "'w shell \<Rightarrow> host_env \<Rightarrow> caller lres \<Rightarrow> int \<Rightarrow> (ldb \<times> 'w, unit) lio" where
  "route_delete_job sh h who jid = as_manager who (app_http 400 (delete_job sh h jid))"

section \<open>Requests that change something\<close>

type_synonym 'w web = "ldb \<times> 'w \<times> fs"

definition on_shell :: "(ldb \<times> 'w, 'v) lio \<Rightarrow> 'w web \<Rightarrow> 'w web \<times> unit lres" where
  "on_shell m s = (case s of (d, w, f) \<Rightarrow> let ((d', w'), r) = m (d, w) in ((d', w', f), lbind r (\<lambda>_. Inr ())))"

definition on_files :: "(ldb \<times> fs, 'v) lio \<Rightarrow> 'w web \<Rightarrow> 'w web \<times> unit lres" where
  "on_files m s = (case s of (d, w, f) \<Rightarrow> let ((d', f'), r) = m (d, f) in ((d', w, f'), lbind r (\<lambda>_. Inr ())))"

datatype change_request =
    CreateJob string string string string | SetEnabled int bool | DeleteJob int
  | CreateZone string string string string int | DeleteZone int | ApplyZone int
  | AddRecord int string string string int "int option" | UpdateRecord int string string string int "int option" | DeleteRecord int
  | WriteFile string "nat list" | MakeDir string | NewFile string | DeletePath string | RenamePath string string | ChmodPath string string
  | ExtractArchive string "string option" | MovePaths "string list" string | DeleteMany "string list" | UploadFile string string "nat list"

fun serve ::
  "'w shell \<Rightarrow> 'w bind_env \<Rightarrow> host_env \<Rightarrow> fmodes \<Rightarrow> (bool \<Rightarrow> nat list \<Rightarrow> member list option) \<Rightarrow> int \<Rightarrow> caller lres \<Rightarrow> change_request \<Rightarrow> 'w web \<Rightarrow> 'w web \<times> unit lres"
where
  "serve sh be h mo up today who (CreateJob u sc c cm) = on_shell (route_create_job sh h who u sc c cm)"
| "serve sh be h mo up today who (SetEnabled j en) = on_shell (route_set_enabled sh h who j en)"
| "serve sh be h mo up today who (DeleteJob j) = on_shell (route_delete_job sh h who j)"
| "serve sh be h mo up today who (CreateZone dn n1 n2 em ttl) = on_shell (route_create_zone sh be h today who dn n1 n2 em ttl)"
| "serve sh be h mo up today who (DeleteZone z) = on_shell (route_delete_zone sh be h who z)"
| "serve sh be h mo up today who (ApplyZone z) = on_shell (route_apply_zone sh be h today who z)"
| "serve sh be h mo up today who (AddRecord z t n c ttl p) = on_shell (route_add_record sh be h today who z t n c ttl p)"
| "serve sh be h mo up today who (UpdateRecord r t n c ttl p) = on_shell (route_update_record sh be h today who r t n c ttl p)"
| "serve sh be h mo up today who (DeleteRecord r) = on_shell (route_delete_record sh be h today who r)"
| "serve sh be h mo up today who (WriteFile s cs) = on_files (route_write_file mo who s cs)"
| "serve sh be h mo up today who (MakeDir s) = on_files (route_make_dir mo who s)"
| "serve sh be h mo up today who (NewFile s) = on_files (route_new_file mo who s)"
| "serve sh be h mo up today who (DeletePath s) = on_files (route_delete_path who s)"
| "serve sh be h mo up today who (RenamePath s n) = on_files (route_rename_path who s n)"
| "serve sh be h mo up today who (ChmodPath s m) = on_files (route_chmod_path who s m)"
| "serve sh be h mo up today who (ExtractArchive s t) = on_files (route_extract_archive mo up who s t)"
| "serve sh be h mo up today who (MovePaths ss t) = on_files (route_move_paths who ss t)"
| "serve sh be h mo up today who (DeleteMany ss) = on_files (route_delete_many who ss)"
| "serve sh be h mo up today who (UploadFile s n bs) = on_files (route_upload_file mo who s n bs)"

lemma as_manager_refuses: "require_role ''manager'' who = Inl e \<Longrightarrow> as_manager who m s = (s, Inl e)"
  by (simp add: as_manager_def)

lemma serve_refuses: "require_role ''manager'' who = Inl e \<Longrightarrow> serve sh be h mo up today who q s = (s, Inl e)"
  by (cases s; cases q)
    (simp_all add: on_shell_def on_files_def lbind_def as_manager_refuses route_create_job_def route_set_enabled_def route_delete_job_def
      route_create_zone_def route_delete_zone_def route_apply_zone_def route_add_record_def route_update_record_def route_delete_record_def
      files_change_def route_write_file_def route_make_dir_def route_new_file_def route_delete_path_def route_rename_path_def route_chmod_path_def
      route_extract_archive_def route_move_paths_def route_delete_many_def route_upload_file_def)


definition demo_reader_token :: string where
  "demo_reader_token = b64url (utf8 token_header) @ ''.'' @ b64url (utf8 (claims_text ''ann'' ''readonly'' 43260)) @ ''.'' @ b64url [1]"

definition demo_reader_loads :: "nat list \<Rightarrow> json res" where
  "demo_reader_loads bs = (if bs = utf8 (claims_text ''ann'' ''readonly'' 43260) then Inr (claims ''ann'' ''readonly'' 43260) else Inl (ValueError ''json''))"

lemma demo_reader:
  "get_current_user demo_mac demo_reader_loads demo_lconfig 100 (Some demo_reader_token) = Inr \<lparr>ca_username = JStr ''ann'', ca_role = JStr ''readonly''\<rparr>"
proof -
  have c: "create_access_token demo_mac demo_lconfig 60 ''ann'' ''readonly'' = Inr demo_reader_token"
    by (simp add: create_access_token_def demo_expiry lbind_def Let_def demo_mac_def demo_reader_token_def)
  have "decode_token demo_mac demo_reader_loads demo_lconfig 100 demo_reader_token = Inr [(''sub'', JStr ''ann''), (''role'', JStr ''readonly''), (''exp'', JInt 43260)]"
    by (subst decode_created [OF c demo_expiry]) (simp_all add: demo_mac_def demo_reader_loads_def py_trunc_def)
  moreover have "demo_reader_token \<noteq> []" by (simp add: demo_reader_token_def)
  ultimately show ?thesis by (simp add: get_current_user_def)
qed


end
