(* ===== verification/Hostfs.thy ===== *)
theory Hostfs
  imports Panel
begin

text \<open>
  What the services of the first panel do to the host besides running commands: directories made on the way, text files, links, names replaced and trees
  removed, on the file systems of \<open>Files\<close>; and the detection of the distribution (\<open>legacy/v1/backend/app/core/osdetect.py\<close>). The state of these
  services is the database, the rest of the world and the files; commands may change the last two.
\<close>

section \<open>Steps on files\<close>

definition on_fs :: "(fs, 'v) lio \<Rightarrow> ('w web, 'v) lio" where
  "on_fs m s = (let (f, r) = m (snd (snd s)) in ((fst s, fst (snd s), f), r))"

definition web_fs :: "'w web \<Rightarrow> fs" where
  "web_fs s = snd (snd s)"

definition seeing :: "(ldb \<Rightarrow> (ldb \<times> 'w, 'v) lio) \<Rightarrow> (ldb \<times> 'w, 'v) lio" where
  \<comment> \<open>going on with what the tables hold now\<close>
  "seeing k s = k (fst s) s"

definition points :: "string \<Rightarrow> nat list" where
  "points s = map code s"

definition exists_at :: "fs \<Rightarrow> path \<Rightarrow> bool" where
  \<comment> \<open>\<open>Path.exists\<close>\<close>
  "exists_at f p = (follow f p \<noteq> None)"

definition place :: "fs \<Rightarrow> path \<Rightarrow> path option" where
  \<comment> \<open>the directory entry a path names: its parents are followed, its last name is not\<close>
  "place f p =
     (if p = [] \<or> last p = ''..'' then realpath f [] [] p
      else case realpath f [] [] (butlast p) of None \<Rightarrow> None | Some q \<Rightarrow> Some (q @ [last p]))"

definition is_link_at :: "fs \<Rightarrow> path \<Rightarrow> bool" where
  \<comment> \<open>\<open>Path.is_symlink\<close>\<close>
  "is_link_at f p = (case place f p of None \<Rightarrow> False | Some q \<Rightarrow> link_target f q \<noteq> None)"

fun mkdirs_from :: "fmodes \<Rightarrow> path \<Rightarrow> path \<Rightarrow> (fs, path) lio" where
  \<comment> \<open>where the walk stands, the names to go\<close>
  "mkdirs_from mo p [] f = (f, Inr p)"
| "mkdirs_from mo p (c # cs) f =
     (if c = ''..'' then mkdirs_from mo (butlast p) cs f
      else case node_at f (p @ [c]) of
             None \<Rightarrow> mkdirs_from mo (p @ [c]) cs (dput (p @ [c]) (FDir (fm_dir mo)) f)
           | Some (FDir m) \<Rightarrow> mkdirs_from mo (p @ [c]) cs f
           | Some (FFile bs m) \<Rightarrow> (f, os_error)
           | Some (FLink t) \<Rightarrow>
               (case realpath f [] p [c] of
                  None \<Rightarrow> (f, os_error)
                | Some q \<Rightarrow> if is_dir_at f q then mkdirs_from mo q cs f else (f, os_error)))"

definition mkdirs :: "fmodes \<Rightarrow> path \<Rightarrow> (fs, path) lio" where
  \<comment> \<open>\<open>mkdir(parents=True, exist_ok=True)\<close>\<close>
  "mkdirs mo p = mkdirs_from mo [] p"

definition write_points :: "fmodes \<Rightarrow> path \<Rightarrow> nat list \<Rightarrow> (fs, unit) lio" where
  \<comment> \<open>\<open>write_text(\<dots>, encoding="utf-8")\<close>: the file is opened, and so emptied, before the text is encoded\<close>
  "write_points mo p cs f =
     (case utf8_encode cs of
        Inl e \<Rightarrow> lseq (os_write mo p []) (\<lambda>_. lret (Inl (Other e))) f
      | Inr bs \<Rightarrow> os_write mo p bs f)"

definition os_unlink :: "path \<Rightarrow> (fs, unit) lio" where
  "os_unlink p f =
     (case place f p of
        None \<Rightarrow> (f, os_error)
      | Some q \<Rightarrow> (case node_at f q of None \<Rightarrow> (f, os_error) | Some (FDir m) \<Rightarrow> (f, os_error) | Some n \<Rightarrow> (ddel q f, Inr ())))"

definition os_symlink :: "path \<Rightarrow> string \<Rightarrow> (fs, unit) lio" where
  "os_symlink p t f =
     (case place f p of
        None \<Rightarrow> (f, os_error)
      | Some q \<Rightarrow> if node_at f q \<noteq> None \<or> \<not> is_dir_at f (butlast q) then (f, os_error) else (dput q (FLink t) f, Inr ()))"

definition os_replace :: "path \<Rightarrow> path \<Rightarrow> (fs, unit) lio" where
  \<comment> \<open>\<open>Path.rename\<close>: what stood at the target, unless a directory, is gone\<close>
  "os_replace p t f =
     (case (place f p, place f t) of
        (Some q, Some u) \<Rightarrow>
          (case node_at f q of
             None \<Rightarrow> (f, os_error)
           | Some n \<Rightarrow> if q = u then (f, Inr ()) else if is_dir_at f u then (f, os_error) else os_rename q u f)
      | _ \<Rightarrow> (f, os_error))"

definition from_text :: "path \<Rightarrow> string \<Rightarrow> path" where
  \<comment> \<open>the path a text names in a process that runs in the directory \<open>cwd\<close>\<close>
  "from_text cwd s = (if startswith s ''/'' then components s else cwd @ components s)"

definition rmtree :: "path \<Rightarrow> string \<Rightarrow> fs \<Rightarrow> fs" where
  \<comment> \<open>\<open>shutil.rmtree(\<dots>, ignore_errors=True)\<close>, which does not follow a link\<close>
  "rmtree cwd s f = (case place f (from_text cwd s) of None \<Rightarrow> f | Some q \<Rightarrow> if is_dir_at f q then cut_tree q f else f)"

definition catching_os :: "string \<Rightarrow> ('s, 'v) lio \<Rightarrow> ('s, 'v) lio" where
  \<comment> \<open>\<open>except OSError as e: raise \<dots>Error\<close>\<close>
  "catching_os msg m s = (case m s of (s', Inl e) \<Rightarrow> (s', Inl (if e = RuntimeError ''OSError'' then AppError msg else e)) | r \<Rightarrow> r)"

definition read_ignoring :: "(nat list \<Rightarrow> nat list) \<Rightarrow> nat list \<Rightarrow> string" where
  \<comment> \<open>\<open>read_text(errors="ignore")\<close>; \<open>drop\<close> is what the decoder leaves of bytes that are no UTF-8, and letters beyond U+00FF become question marks\<close>
  "read_ignoring dr bs =
     map (\<lambda>c. if c < 256 then char_of c else CHR ''?'')
       (universal_newlines (case utf8_decode bs of Some cs \<Rightarrow> cs | None \<Rightarrow> dr bs))"

section \<open>The distribution\<close>

datatype os_note = NoNote | EolNote | StreamNote | UnsupportedNote

record os_info =
  oi_id :: string
  oi_family :: string
  oi_version_id :: string
  oi_pretty_name :: string
  oi_package_manager :: string
  oi_service_manager :: string
  oi_conf_dir :: string
  oi_supported :: bool
  oi_note :: os_note

definition DEBIAN_IDS :: "string list" where
  "DEBIAN_IDS = [''ubuntu'', ''debian'', ''raspbian'', ''linuxmint'']"

definition RHEL_IDS :: "string list" where
  "RHEL_IDS = [''almalinux'', ''rocky'', ''centos'', ''rhel'', ''fedora'', ''ol'']"

definition os_release_lines :: "string list \<Rightarrow> (string, string) dict" where
  "os_release_lines ls =
     fold (\<lambda>l d. if CHR ''='' \<in> set l
                 then dput (strip (takeWhile (\<lambda>c. c \<noteq> CHR ''='') l)) (strip_char (CHR 0x22) (strip (drop 1 (dropWhile (\<lambda>c. c \<noteq> CHR ''='') l)))) d
                 else d) ls []"

definition parse_os_release :: "(nat list \<Rightarrow> nat list) \<Rightarrow> fs \<Rightarrow> (string, string) dict lres" where
  "parse_os_release dr f =
     (case follow f [''etc'', ''os-release''] of
        None \<Rightarrow> Inr []
      | Some (FFile bs m) \<Rightarrow> Inr (os_release_lines (splitlines (read_ignoring dr bs)))
      | Some _ \<Rightarrow> os_error)"

definition or_empty :: "string option \<Rightarrow> string" where
  "or_empty v = (case v of None \<Rightarrow> [] | Some s \<Rightarrow> s)"

definition os_family :: "string \<Rightarrow> string \<Rightarrow> string" where
  "os_family os_id id_like =
     (if os_id \<in> set DEBIAN_IDS \<or> contains id_like ''debian'' then ''debian''
      else if os_id \<in> set RHEL_IDS \<or> contains id_like ''rhel'' \<or> contains id_like ''fedora'' then ''rhel'' else ''unknown'')"

definition detect_os :: "(nat list \<Rightarrow> nat list) \<Rightarrow> string \<Rightarrow> fs \<Rightarrow> os_info lres" where
  \<comment> \<open>\<open>plat\<close> is \<open>platform.platform()\<close>; the Persian notes are told apart by name\<close>
  "detect_os dr plat f =
     lbind (parse_os_release dr f) (\<lambda>rel.
       let os_id = lower (or_empty (dget rel ''ID''));
           family = os_family os_id (lower (or_empty (dget rel ''ID_LIKE'')));
           version = or_empty (dget rel ''VERSION_ID'');
           pretty = or_empty (dget rel ''PRETTY_NAME'');
           eol = (os_id = ''centos'' \<and> version \<noteq> [] \<and> hd (split_on (CHR ''.'') version) \<in> {''7'', ''8''});
           supported = (family \<in> {''debian'', ''rhel''} \<and> \<not> eol)
       in Inr \<lparr>oi_id = (if os_id = [] then ''unknown'' else os_id), oi_family = family, oi_version_id = version,
               oi_pretty_name = (if pretty = [] then plat else pretty),
               oi_package_manager = (if family = ''debian'' then ''apt'' else if family = ''rhel'' then ''dnf'' else ''unknown''),
               oi_service_manager = (if exists_at f [''run'', ''systemd'', ''system''] then ''systemd'' else ''unknown''),
               oi_conf_dir = (if family = ''debian'' then ''/etc/nginx/sites-available'' else ''/etc/nginx/conf.d''),
               oi_supported = supported,
               oi_note = (if eol then EolNote else if os_id = ''centos'' then StreamNote else if \<not> supported then UnsupportedNote else NoNote)\<rparr>)"

section \<open>Conditions on the tables that steps keep\<close>

definition holds_over :: "(ldb \<Rightarrow> bool) \<Rightarrow> (ldb \<times> 'w, 'v) lio \<Rightarrow> bool" where
  "holds_over P m = (\<forall>s. P (fst s) \<longrightarrow> P (fst (fst (m s))))"

definition log_free :: "(ldb \<Rightarrow> bool) \<Rightarrow> bool" where
  \<comment> \<open>a condition that does not look at the audit log\<close>
  "log_free P = (\<forall>d l. P (d\<lparr>laudit_log := l\<rparr>) = P d)"

lemma keepsI: "(\<And>s. P (fst s) \<Longrightarrow> P (fst (fst (m s)))) \<Longrightarrow> holds_over P m"
  by (simp add: holds_over_def)

lemma keepsD: "holds_over P m \<Longrightarrow> P (fst s) \<Longrightarrow> P (fst (fst (m s)))"
  unfolding holds_over_def by blast

lemma keeps_lret: "holds_over P (lret r)"
  by (simp add: holds_over_def lret_def)

lemma keeps_same: "(\<And>s. fst (fst (m s)) = fst s) \<Longrightarrow> holds_over P m"
  by (simp add: holds_over_def)

lemma keeps_on_world: "holds_over P (on_world f)"
  by (rule keeps_same) (simp add: on_world_def split: prod.split)

lemma keeps_on_fs: "holds_over P (on_fs m)"
  by (rule keeps_same) (simp add: on_fs_def split: prod.split)

lemma keeps_on_db: "(\<And>d. P d \<Longrightarrow> P (f d)) \<Longrightarrow> holds_over P (on_db f)"
  by (simp add: holds_over_def on_db_def)

lemma keeps_laudit: "log_free P \<Longrightarrow> holds_over P (on_db (laudit un a t))"
  by (rule keeps_on_db) (simp add: laudit_def log_free_def)

lemma after_lseq: "P (fst (fst (m s))) \<Longrightarrow> (\<And>v. holds_over P (k v)) \<Longrightarrow> P (fst (fst (lseq m k s)))"
  by (auto simp: lseq_def holds_over_def split: prod.split sum.split)

lemma keeps_lseq: "holds_over P m \<Longrightarrow> (\<And>v. holds_over P (k v)) \<Longrightarrow> holds_over P (lseq m k)"
  by (rule keepsI) (rule after_lseq, erule (1) keepsD)

lemma keeps_if: "(b \<Longrightarrow> holds_over P m) \<Longrightarrow> (\<not> b \<Longrightarrow> holds_over P n) \<Longrightarrow> holds_over P (if b then m else n)"
  by simp

lemma keeps_prod: "(\<And>a b. holds_over P (f a b)) \<Longrightarrow> holds_over P (case p of (a, b) \<Rightarrow> f a b)"
  by (cases p) simp

lemma keeps_app_http: "holds_over P m \<Longrightarrow> holds_over P (app_http c m)"
  by (auto simp: holds_over_def app_http_def split: prod.split sum.split lexc.split) (metis fst_conv)+

lemma keeps_as_manager: "holds_over P m \<Longrightarrow> holds_over P (as_manager who m)"
  unfolding as_manager_def by (intro keeps_lseq keeps_lret)

lemma keeps_quietly: "holds_over P m \<Longrightarrow> holds_over P (quietly m)"
  unfolding quietly_def by (intro keeps_lseq keeps_lret)

lemmas keeps_rules = keeps_lret keeps_on_world keeps_on_fs keeps_lseq keeps_if keeps_prod keeps_app_http keeps_as_manager keeps_quietly

text \<open>Commands that leave the files alone.\<close>

definition files_untouched :: "('w \<times> fs) shell \<Rightarrow> bool" where
  "files_untouched sh = (\<forall>args inp w. snd (fst (sh args inp w)) = snd w)"

section \<open>Walking existing directories\<close>

lemma mkdirs_from_present:
  "(\<And>n. n \<le> length cs \<Longrightarrow> is_dir_at f (p @ take n cs)) \<Longrightarrow> ''..'' \<notin> set cs \<Longrightarrow> mkdirs_from mo p cs f = (f, Inr (p @ cs))"
proof (induction cs arbitrary: p)
  case (Cons c cs)
  have "is_dir_at f (p @ [c])" using Cons.prems(1) [of 1] by simp
  then obtain m where m: "node_at f (p @ [c]) = Some (FDir m)" by (auto simp: is_dir_at_def split: option.splits node.splits)
  have "is_dir_at f ((p @ [c]) @ take n cs)" if "n \<le> length cs" for n using Cons.prems(1) [of "Suc n"] that by simp
  moreover have "c \<noteq> ''..''" using Cons.prems(2) by auto
  ultimately show ?case using Cons.IH [of "p @ [c]"] Cons.prems(2) m by simp
qed simp

lemma realpath_dirs:
  "(\<And>n. 0 < n \<Longrightarrow> n \<le> length cs \<Longrightarrow> link_target f (p @ take n cs) = None) \<Longrightarrow> ''..'' \<notin> set cs \<Longrightarrow> realpath f act p cs = Some (p @ cs)"
proof (induction cs arbitrary: p)
  case (Cons c cs)
  have "link_target f (p @ [c]) = None" using Cons.prems(1) [of 1] by simp
  moreover have "link_target f ((p @ [c]) @ take n cs) = None" if "0 < n" "n \<le> length cs" for n using Cons.prems(1) [of "Suc n"] that by simp
  moreover have "c \<noteq> ''..''" using Cons.prems(2) by auto
  ultimately show ?case using Cons.IH [of "p @ [c]"] Cons.prems(2) by simp
qed simp

lemma dir_no_link: "is_dir_at f p \<Longrightarrow> link_target f p = None"
  by (auto simp: is_dir_at_def link_target_def split: option.splits node.splits)

section \<open>Cleaned texts\<close>

lemma in_split_on: "c \<in> set s \<Longrightarrow> c = d \<or> (\<exists>p \<in> set (split_on d s). c \<in> set p)"
  by (induction s) (auto split: list.splits)

lemma not_upper_lower: "\<not> (65 \<le> code (lower_char c) \<and> code (lower_char c) \<le> 90)"
  by (auto simp: lower_char_def code_def Let_def)

lemma last_strip: "strip s \<noteq> [] \<Longrightarrow> \<not> is_space (last (strip s))"
  unfolding strip_def by (rule rstrip_by_last)

lemma split_on_none: "d \<notin> set s \<Longrightarrow> split_on d s = [s]"
  by (induction s) auto

lemma split_join: "(\<forall>s \<in> set ss. d \<notin> set s) \<Longrightarrow> ss \<noteq> [] \<Longrightarrow> split_on d (join_with [d] ss) = ss"
proof (induction "[d]" ss rule: join_with.induct)
  case (3 s t ss)
  then show ?case using split_on_first [of d s "join_with [d] (t # ss)"] by simp
qed (auto simp: split_on_none)

lemma cleaned_end: "drop_final_nl (lower (strip s)) = lower (strip s)"
proof -
  have "last (lower (strip s)) \<noteq> NL" if "strip s \<noteq> []"
    using that last_strip [OF that] lower_char_space [of "last (strip s)"] by (auto simp: lower_def last_map is_space_def code_def)
  then show ?thesis by (auto simp: drop_final_nl_def lower_def)
qed

section \<open>More steps\<close>

lemma keeps_seeing: "(\<And>d. holds_over P (k d)) \<Longrightarrow> holds_over P (seeing k)"
  by (simp add: holds_over_def seeing_def)

lemma keeps_Let: "(\<And>x. holds_over P (f x)) \<Longrightarrow> holds_over P (Let x f)"
  by (simp add: Let_def)

lemma keeps_answer: "holds_over P (\<lambda>s. (s, n s))"
  by (simp add: holds_over_def)

lemma lseq_step: "m s = (t, Inr v) \<Longrightarrow> lseq m k s = k v t" "m s = (t, Inl x) \<Longrightarrow> lseq m k s = (t, Inl x)"
  by (simp_all add: lseq_def)

end
