(* ===== verification/Sites.thy ===== *)
theory Sites
  imports Hostfs
begin

text \<open>
  Sites of the first panel (\<open>legacy/v1/backend/app/services/sites.py\<close>, \<open>api/sites.py\<close>, the templates under \<open>templates/nginx\<close>) and their certificates
  (\<open>services/ssl.py\<close>, \<open>api/ssl.py\<close>): rows of a table, the text of a virtual host, the files and links that enable it, and the web server's own check.
  Texts of virtual hosts are lists of code points, because the templates hold characters beyond U+00FF.
\<close>

section \<open>Environment\<close>

record site_env =
  se_modes :: fmodes
  se_host :: host_env
  se_platform :: string
  se_drop :: "nat list \<Rightarrow> nat list" \<comment> \<open>what \<open>errors="ignore"\<close> leaves of bytes that are no UTF-8\<close>
  se_cwd :: path

section \<open>Names\<close>

definition DEFAULT_WEBROOT_BASE :: string where
  "DEFAULT_WEBROOT_BASE = ''/var/www''"

definition validate_site :: "string \<Rightarrow> string lres" where
  \<comment> \<open>\<open>validate_domain\<close>; the pattern is that of the zone editor, but final dots stay\<close>
  "validate_site s = (let d = lower (strip s) in if domain_ok d then Inr d else Inl (AppError ''invalid domain''))"

fun validate_sites :: "string list \<Rightarrow> string list lres" where
  "validate_sites [] = Inr []"
| "validate_sites (s # ss) = lbind (validate_site s) (\<lambda>d. lbind (validate_sites ss) (\<lambda>ds. Inr (d # ds)))"

definition alias_list :: "string \<Rightarrow> string list lres" where
  "alias_list s = validate_sites (filter (\<lambda>a. strip a \<noteq> []) (split_on (CHR '','') s))"

definition site_dirs :: "site_env \<Rightarrow> fs \<Rightarrow> (path \<times> path option) lres" where
  "site_dirs e f =
     lbind (detect_os (se_drop e) (se_platform e) f) (\<lambda>i.
       Inr (if oi_family i = ''debian'' then ([''etc'', ''nginx'', ''sites-available''], Some [''etc'', ''nginx'', ''sites-enabled''])
            else ([''etc'', ''nginx'', ''conf.d''], None)))"

definition conf_filename :: "string \<Rightarrow> string" where
  "conf_filename d = d @ ''.conf''"

section \<open>Templates\<close>

definition tline :: "string \<Rightarrow> nat list" where
  "tline s = points s @ [10]"

definition vhost_head :: "string \<Rightarrow> string \<Rightarrow> string \<Rightarrow> nat list" where
  \<comment> \<open>the same lines begin all three templates\<close>
  "vhost_head kind domain names =
     points ''# ICSD Panel '' @ [8212] @ tline ('' managed vhost ('' @ kind @ '')  | domain: '' @ domain)
     @ points ''# DO NOT EDIT BY HAND '' @ [8212] @ tline '' managed by ICSD Panel''
     @ tline ''server {'' @ tline ''    listen 80;'' @ tline ''    listen [::]:80;'' @ tline (''    server_name '' @ names @ '';'') @ [10]"

definition vhost_root :: "string \<Rightarrow> string \<Rightarrow> nat list" where
  "vhost_root webroot index = tline (''    root '' @ webroot @ '';'') @ tline (''    index '' @ index @ '';'') @ [10]"

definition vhost_logs :: "string \<Rightarrow> nat list" where
  "vhost_logs domain =
     tline (''    access_log /var/log/nginx/'' @ domain @ ''.access.log;'') @ tline (''    error_log  /var/log/nginx/'' @ domain @ ''.error.log;'')"

definition vhost_ssl :: "nat list \<Rightarrow> string \<Rightarrow> string \<Rightarrow> string \<Rightarrow> nat list \<Rightarrow> string \<Rightarrow> string \<Rightarrow> nat list" where
  \<comment> \<open>the conditional part: \<open>acme\<close> is a line only the static template has, \<open>rlines\<close> the root lines, absent from the proxy template\<close>
  "vhost_ssl acme domain names webroot rlines cert key =
     [10] @ acme @ tline (''    location /.well-known/acme-challenge/ { root '' @ webroot @ ''; }'')
     @ tline ''    location / { return 301 https://$host$request_uri; }'' @ tline ''}'' @ [10]
     @ tline ''server {'' @ tline ''    listen 443 ssl http2;'' @ tline ''    listen [::]:443 ssl http2;'' @ tline (''    server_name '' @ names @ '';'') @ [10]
     @ rlines
     @ tline (''    ssl_certificate     '' @ cert @ '';'') @ tline (''    ssl_certificate_key '' @ key @ '';'') @ tline ''    ssl_protocols TLSv1.2 TLSv1.3;'' @ [10]
     @ vhost_logs domain"

definition hide_dots :: "nat list" where
  "hide_dots = tline (''    location ~ /'' @ [CHR 0x5C] @ ''.(?!well-known) { deny all; }'') @ tline ''}''"

definition static_conf :: "string \<Rightarrow> string \<Rightarrow> string \<Rightarrow> bool \<Rightarrow> string \<Rightarrow> string \<Rightarrow> nat list" where
  "static_conf domain names webroot ssl cert key =
     (let rlines = vhost_root webroot ''index.html index.htm'' in
      vhost_head ''static'' domain names @ rlines @ vhost_logs domain @ [10]
      @ (if ssl then vhost_ssl (tline ''    # ACME http-01 challenge'') domain names webroot rlines cert key else []) @ [10]
      @ [10] @ tline ''    location / {'' @ tline ''        try_files $uri $uri/ =404;'' @ tline ''    }'' @ [10] @ hide_dots)"

definition php_conf :: "string \<Rightarrow> string \<Rightarrow> string \<Rightarrow> string \<Rightarrow> bool \<Rightarrow> string \<Rightarrow> string \<Rightarrow> nat list" where
  "php_conf domain names webroot php ssl cert key =
     (let rlines = vhost_root webroot ''index.php index.html'' in
      vhost_head ''PHP'' domain names @ rlines @ vhost_logs domain @ [10]
      @ (if ssl then vhost_ssl [] domain names webroot rlines cert key else []) @ [10]
      @ [10] @ tline ''    location / {'' @ tline ''        try_files $uri $uri/ /index.php?$query_string;'' @ tline ''    }'' @ [10]
      @ tline (''    location ~ '' @ [CHR 0x5C] @ ''.php$ {'') @ tline ''        include fastcgi_params;''
      @ tline ''        fastcgi_param SCRIPT_FILENAME $document_root$fastcgi_script_name;''
      @ tline (''        fastcgi_pass unix:/run/php/php'' @ php @ ''-fpm.sock;'') @ tline ''        fastcgi_index index.php;'' @ tline ''    }'' @ [10] @ hide_dots)"

definition proxy_conf :: "string \<Rightarrow> string \<Rightarrow> string \<Rightarrow> string \<Rightarrow> bool \<Rightarrow> string \<Rightarrow> string \<Rightarrow> nat list" where
  "proxy_conf domain names webroot proxy ssl cert key =
     vhost_head ''reverse proxy'' domain names @ vhost_logs domain @ [10]
     @ (if ssl then vhost_ssl [] domain names webroot [] cert key else []) @ [10]
     @ [10] @ tline ''    location / {'' @ tline (''        proxy_pass '' @ proxy @ '';'') @ tline ''        proxy_set_header Host $host;''
     @ tline ''        proxy_set_header X-Real-IP $remote_addr;'' @ tline ''        proxy_set_header X-Forwarded-For $proxy_add_x_forwarded_for;''
     @ tline ''        proxy_set_header X-Forwarded-Proto $scheme;'' @ tline ''        proxy_http_version 1.1;''
     @ tline ''        proxy_set_header Upgrade $http_upgrade;'' @ tline (''        proxy_set_header Connection '' @ [CHR 0x22] @ ''upgrade'' @ [CHR 0x22] @ '';'')
     @ tline ''    }'' @ tline ''}''"

definition or_default :: "string option \<Rightarrow> string \<Rightarrow> string" where
  "or_default v d = (case v of None \<Rightarrow> d | Some s \<Rightarrow> if s = [] then d else s)"

definition render_vhost ::
  "string \<Rightarrow> string \<Rightarrow> string \<Rightarrow> string \<Rightarrow> string option \<Rightarrow> string option \<Rightarrow> bool \<Rightarrow> nat list lres" where
  "render_vhost domain site_type webroot names php proxy ssl =
     (let cert = ''/etc/letsencrypt/live/'' @ domain @ ''/fullchain.pem''; key = ''/etc/letsencrypt/live/'' @ domain @ ''/privkey.pem'' in
      if site_type = ''static'' then Inr (static_conf domain names webroot ssl cert key)
      else if site_type = ''php'' then Inr (php_conf domain names webroot (or_default php ''8.2'') ssl cert key)
      else if site_type = ''proxy'' then Inr (proxy_conf domain names webroot (or_default proxy ''http://127.0.0.1:3000'') ssl cert key)
      else Inl (AppError (''invalid site_type: '' @ site_type)))"

section \<open>Files and links\<close>

definition drop_entry :: "path \<Rightarrow> (fs, unit) lio" where
  \<comment> \<open>\<open>if link.exists() or link.is_symlink(): link.unlink()\<close>\<close>
  "drop_entry p f = (if exists_at f p \<or> is_link_at f p then os_unlink p f else (f, Inr ()))"

definition write_and_enable :: "site_env \<Rightarrow> string \<Rightarrow> nat list \<Rightarrow> bool \<Rightarrow> (fs, unit) lio" where
  "write_and_enable e domain vtext enabled f =
     lseq (lret (site_dirs e f)) (\<lambda>(conf_dir, enabled_dir).
     let conf = conf_dir @ [conf_filename domain] in
     lseq (mkdirs (se_modes e) conf_dir) (\<lambda>_.
     lseq (write_points (se_modes e) conf vtext) (\<lambda>_.
     case enabled_dir of
       Some ed \<Rightarrow>
         let link = ed @ [conf_filename domain] in
         lseq (mkdirs (se_modes e) ed) (\<lambda>_. lseq (drop_entry link) (\<lambda>_. if enabled then os_symlink link (path_str conf) else lret (Inr ())))
     | None \<Rightarrow>
         let disabled = conf_dir @ [domain @ ''.conf.disabled''] in
         (\<lambda>f. if enabled then (if exists_at f disabled then os_replace disabled conf f else (f, Inr ()))
              else (if exists_at f conf then os_replace conf disabled f else (f, Inr ())))))) f"

section \<open>Creating a site\<close>

definition get_site :: "string \<Rightarrow> ldb \<Rightarrow> site_row option" where
  "get_site domain d = select_one (\<lambda>r. st_domain r = domain) (sites d)"

definition list_sites :: "ldb \<Rightarrow> site_row list" where
  "list_sites d = sort_key (\<lambda>r. - st_created r) (sites d)"

definition first_of :: "cmd_result \<Rightarrow> string" where
  \<comment> \<open>\<open>stderr or stdout\<close>\<close>
  "first_of r = (if cr_stderr r = [] then cr_stdout r else cr_stderr r)"

record created_site =
  cs_domain :: string
  cs_applied :: bool
  cs_preview :: "nat list"
  cs_test :: "(bool \<times> string) option"
  cs_reload :: "(bool \<times> string) option"
  cs_warning :: bool

definition placeholder_page :: "string \<Rightarrow> string" where
  "placeholder_page domain = ''<!doctype html><meta charset=utf-8><h1>'' @ domain @ ''</h1><p>Powered by ICSD Panel</p>''"

definition make_webroot :: "site_env \<Rightarrow> string \<Rightarrow> string \<Rightarrow> (fs, unit) lio" where
  "make_webroot e webroot domain =
     (if CHR 0x00 \<in> set webroot then lret (Inl (Other (ValueError ''embedded null byte'')))
      else catching_os ''webroot create failed''
        (lseq (mkdirs (se_modes e) (from_text (se_cwd e) webroot)) (\<lambda>_ f.
           let index = from_text (se_cwd e) webroot @ [''index.html''] in
           if exists_at f index then (f, Inr ()) else write_points (se_modes e) index (points (placeholder_page domain)) f)))"

definition test_and_reload :: "('w \<times> fs) shell \<Rightarrow> site_env \<Rightarrow> ('w web, (bool \<times> string) \<times> (bool \<times> string) option) lio" where
  "test_and_reload sh e =
     lseq (on_world (nginx_test sh)) (\<lambda>t.
       if cr_ok t then lseq (on_world (nginx_reload sh (se_host e))) (\<lambda>r. lret (Inr ((cr_ok t, first_of t), Some (cr_ok r, first_of r))))
       else lret (Inr ((cr_ok t, first_of t), None)))"

definition create_site ::
  "('w \<times> fs) shell \<Rightarrow> site_env \<Rightarrow> int \<Rightarrow> string \<Rightarrow> string \<Rightarrow> string \<Rightarrow> string option \<Rightarrow> string option \<Rightarrow> string option \<Rightarrow> bool \<Rightarrow> ('w web, created_site) lio" where
  "create_site sh e now domain0 site_type aliases php proxy webroot0 apply =
     lseq (lret (validate_site domain0)) (\<lambda>domain.
     lseq (lret (alias_list aliases)) (\<lambda>als s.
       let names = join_with '' '' (domain # als); webroot = or_default webroot0 (DEFAULT_WEBROOT_BASE @ ''/'' @ domain) in
       if get_site domain (fst s) \<noteq> None then (s, Inl (AppError (''site already exists: '' @ domain)))
       else
         lseq (on_db (\<lambda>d. d\<lparr>sites := sites d @ [\<lparr>st_domain = domain, st_aliases = join_with '','' als, st_type = site_type, st_webroot = webroot,
                 st_php = php, st_proxy = proxy, st_ssl = False, st_enabled = True, st_created = now\<rparr>]\<rparr>)) (\<lambda>_.
         lseq (lret (render_vhost domain site_type webroot names php proxy False)) (\<lambda>vtext.
         lseq (if \<not> apply then lret (Inr (None, None, False))
               else lseq (on_fs (make_webroot e webroot domain)) (\<lambda>_.
                    lseq (on_fs (write_and_enable e domain vtext True)) (\<lambda>_.
                    lseq (test_and_reload sh e) (\<lambda>(t, r). lret (Inr (Some t, r, r = None)))))) (\<lambda>(t, r, w).
         lseq (on_db (laudit None ''site.create'' domain)) (\<lambda>_.
         lret (Inr \<lparr>cs_domain = domain, cs_applied = apply, cs_preview = vtext, cs_test = t, cs_reload = r, cs_warning = w\<rparr>))))) s))"

definition sub_label_ok :: "string \<Rightarrow> bool" where
  \<comment> \<open>\<open>^(?!-)[a-z0-9-]{1,63}(?<!-)$\<close> on a text without surrounding blanks\<close>
  "sub_label_ok l =
     (l \<noteq> [] \<and> length l \<le> 63 \<and> list_all (\<lambda>c. lower_ascii c \<or> ascii_digit c \<or> c = CHR ''-'') l \<and> hd l \<noteq> CHR ''-'' \<and> last l \<noteq> CHR ''-'')"

definition create_subdomain ::
  "('w \<times> fs) shell \<Rightarrow> site_env \<Rightarrow> int \<Rightarrow> string \<Rightarrow> string \<Rightarrow> string \<Rightarrow> string option \<Rightarrow> string option \<Rightarrow> bool \<Rightarrow> ('w web, created_site) lio" where
  "create_subdomain sh e now parent0 label0 site_type php proxy apply =
     lseq (lret (validate_site parent0)) (\<lambda>parent.
       let label = lower (strip label0) in
       if \<not> sub_label_ok label then lret (Inl (AppError ''invalid subdomain label''))
       else create_site sh e now (label @ ''.'' @ parent) site_type [] php proxy None apply)"

definition list_subdomains :: "string \<Rightarrow> ldb \<Rightarrow> site_row list lres" where
  "list_subdomains parent0 d =
     lbind (validate_site parent0) (\<lambda>parent. Inr (filter (\<lambda>r. endswith (st_domain r) (''.'' @ parent)) (list_sites d)))"

section \<open>Changing and deleting\<close>

definition current_config :: "site_row \<Rightarrow> nat list lres" where
  "current_config r =
     render_vhost (st_domain r) (st_type r) (st_webroot r) (join_with '' '' (st_domain r # filter (\<lambda>a. a \<noteq> []) (split_on (CHR '','') (st_aliases r))))
       (st_php r) (st_proxy r) (st_ssl r)"

definition set_site_enabled :: "('w \<times> fs) shell \<Rightarrow> site_env \<Rightarrow> string \<Rightarrow> bool \<Rightarrow> bool \<Rightarrow> ('w web, string \<times> bool) lio" where
  "set_site_enabled sh e domain en apply s =
     (case get_site domain (fst s) of
        None \<Rightarrow> (s, Inl (AppError (''site not found: '' @ domain)))
      | Some site \<Rightarrow>
          lseq (on_db (\<lambda>d. d\<lparr>sites := update_where (\<lambda>r. st_domain r = domain) (\<lambda>r. r\<lparr>st_enabled := en\<rparr>) (sites d)\<rparr>)) (\<lambda>_.
          lseq (if \<not> apply then lret (Inr ())
                else lseq (lret (current_config site)) (\<lambda>vtext.
                     lseq (on_fs (write_and_enable e domain vtext en)) (\<lambda>_. quietly (test_and_reload sh e)))) (\<lambda>_.
          lseq (on_db (laudit None (if en then ''site.enable'' else ''site.disable'') domain)) (\<lambda>_. lret (Inr (domain, en))))) s)"

definition unlink_existing :: "path \<Rightarrow> (fs, unit) lio" where
  "unlink_existing p f = (if exists_at f p then os_unlink p f else (f, Inr ()))"

definition remove_config :: "site_env \<Rightarrow> string \<Rightarrow> (fs, unit) lio" where
  "remove_config e domain f =
     lseq (lret (site_dirs e f)) (\<lambda>(conf_dir, enabled_dir).
     lseq (unlink_existing (conf_dir @ [conf_filename domain])) (\<lambda>_.
     lseq (unlink_existing (conf_dir @ [domain @ ''.conf.disabled''])) (\<lambda>_.
     case enabled_dir of None \<Rightarrow> lret (Inr ()) | Some ed \<Rightarrow> drop_entry (ed @ [conf_filename domain])))) f"

definition delete_site :: "('w \<times> fs) shell \<Rightarrow> site_env \<Rightarrow> string \<Rightarrow> bool \<Rightarrow> bool \<Rightarrow> ('w web, string) lio" where
  "delete_site sh e domain apply remove_webroot s =
     (case get_site domain (fst s) of
        None \<Rightarrow> (s, Inl (AppError (''site not found: '' @ domain)))
      | Some site \<Rightarrow>
          lseq (if \<not> apply then lret (Inr ())
                else lseq (on_fs (remove_config e domain)) (\<lambda>_.
                     lseq (on_fs (\<lambda>f. (if remove_webroot then rmtree (se_cwd e) (st_webroot site) f else f, Inr ()))) (\<lambda>_.
                     quietly (test_and_reload sh e)))) (\<lambda>_.
          lseq (on_db (\<lambda>d. d\<lparr>sites := delete_where (\<lambda>r. st_domain r = domain) (sites d)\<rparr>)) (\<lambda>_.
          lseq (on_db (laudit None ''site.delete'' domain)) (\<lambda>_. lret (Inr domain)))) s)"

section \<open>Routes of the sites\<close>

text \<open>None of them asks who is calling.\<close>

definition route_list_sites :: "('w web, site_row list) lio" where
  "route_list_sites s = (s, Inr (list_sites (fst s)))"

definition route_create_site ::
  "('w \<times> fs) shell \<Rightarrow> site_env \<Rightarrow> int \<Rightarrow> string \<Rightarrow> string \<Rightarrow> string \<Rightarrow> string option \<Rightarrow> string option \<Rightarrow> string option \<Rightarrow> bool \<Rightarrow> ('w web, created_site) lio" where
  "route_create_site sh e now domain site_type aliases php proxy webroot apply =
     app_http 400 (create_site sh e now domain site_type aliases php proxy webroot apply)"

definition route_preview_vhost ::
  "string \<Rightarrow> string \<Rightarrow> string \<Rightarrow> string option \<Rightarrow> string option \<Rightarrow> string option \<Rightarrow> ('w web, string \<times> nat list) lio" where
  "route_preview_vhost domain0 site_type aliases php proxy webroot =
     app_http 400 (lret (lbind (validate_site domain0) (\<lambda>domain. lbind (alias_list aliases) (\<lambda>als.
       lbind (render_vhost domain site_type (or_default webroot (DEFAULT_WEBROOT_BASE @ ''/'' @ domain)) (join_with '' '' (domain # als)) php proxy False) (\<lambda>c.
       Inr (domain, c))))))"

definition route_create_subdomain ::
  "('w \<times> fs) shell \<Rightarrow> site_env \<Rightarrow> int \<Rightarrow> string \<Rightarrow> string \<Rightarrow> string \<Rightarrow> string option \<Rightarrow> string option \<Rightarrow> bool \<Rightarrow> ('w web, created_site) lio" where
  "route_create_subdomain sh e now parent label site_type php proxy apply =
     app_http 400 (create_subdomain sh e now parent label site_type php proxy apply)"

definition route_list_subdomains :: "string \<Rightarrow> ('w web, string \<times> site_row list) lio" where
  "route_list_subdomains parent = app_http 400 (\<lambda>s. (s, lbind (list_subdomains parent (fst s)) (\<lambda>rs. Inr (parent, rs))))"

definition route_get_site :: "string \<Rightarrow> ('w web, site_row) lio" where
  "route_get_site domain s = (s, case get_site domain (fst s) of None \<Rightarrow> Inl (LHttp 404 ''site not found'') | Some r \<Rightarrow> Inr r)"

definition route_enable_site :: "('w \<times> fs) shell \<Rightarrow> site_env \<Rightarrow> string \<Rightarrow> ('w web, string \<times> bool) lio" where
  "route_enable_site sh e domain = app_http 400 (set_site_enabled sh e domain True True)"

definition route_disable_site :: "('w \<times> fs) shell \<Rightarrow> site_env \<Rightarrow> string \<Rightarrow> ('w web, string \<times> bool) lio" where
  "route_disable_site sh e domain = app_http 400 (set_site_enabled sh e domain False True)"

definition route_delete_site :: "('w \<times> fs) shell \<Rightarrow> site_env \<Rightarrow> string \<Rightarrow> bool \<Rightarrow> ('w web, string) lio" where
  "route_delete_site sh e domain remove_webroot = app_http 400 (delete_site sh e domain True remove_webroot)"

section \<open>Certificates\<close>

definition CA_FALLBACK :: "string list" where
  "CA_FALLBACK = [''letsencrypt'', ''zerossl'', ''buypass'', ''google'']"

definition ACME_BIN :: string where
  "ACME_BIN = ''/root/.acme.sh/acme.sh''"

definition acme_installed :: "site_env \<Rightarrow> fs \<Rightarrow> bool" where
  "acme_installed e f = (has (se_host e) ''acme.sh'' \<or> exists_at f (components ACME_BIN))"

definition acme_cmd :: "site_env \<Rightarrow> string" where
  "acme_cmd e = (if has (se_host e) ''acme.sh'' then ''acme.sh'' else ACME_BIN)"

definition foreign :: "('s, 'v) lio \<Rightarrow> ('s, 'v) lio" where
  \<comment> \<open>\<open>SiteError\<close> is not the exception that the routes of the certificates turn into an answer\<close>
  "foreign m s = (case m s of (s', Inl (AppError x)) \<Rightarrow> (s', Inl (RuntimeError (''SiteError: '' @ x))) | r \<Rightarrow> r)"

definition mark_ssl :: "string \<Rightarrow> ldb \<Rightarrow> ldb" where
  "mark_ssl domain d = d\<lparr>sites := update_where (\<lambda>r. st_domain r = domain) (\<lambda>r. r\<lparr>st_ssl := True\<rparr>) (sites d)\<rparr>"

definition install_ssl :: "('w \<times> fs) shell \<Rightarrow> site_env \<Rightarrow> string \<Rightarrow> ('w web, unit) lio" where
  \<comment> \<open>\<open>_install_and_enable_ssl\<close>\<close>
  "install_ssl sh e domain =
     (let target = ''/etc/letsencrypt/live/'' @ domain in
      lseq (on_fs (mkdirs (se_modes e) (components target))) (\<lambda>_.
      lseq (on_world (run_cmd sh [acme_cmd e, ''--install-cert'', ''-d'', domain, ''--key-file'', target @ ''/privkey.pem'',
              ''--fullchain-file'', target @ ''/fullchain.pem'', ''--reloadcmd'', ''systemctl reload nginx''] 60 False)) (\<lambda>_ s.
        case get_site domain (fst s) of
          None \<Rightarrow> (s, Inr ())
        | Some site \<Rightarrow>
            lseq (on_db (mark_ssl domain)) (\<lambda>_.
            lseq (foreign (lret (current_config (site\<lparr>st_ssl := True\<rparr>)))) (\<lambda>vtext.
            lseq (on_fs (write_and_enable e domain vtext (st_enabled site))) (\<lambda>_.
            quietly (test_and_reload sh e)))) s)))"

definition tail_of :: "nat \<Rightarrow> string \<Rightarrow> string" where
  \<comment> \<open>\<open>s[-n:]\<close>\<close>
  "tail_of n s = drop (length s - n) s"

record ca_attempt =
  at_ca :: string
  at_ok :: bool
  at_output :: string

datatype issue_answer = Issued string string "ca_attempt list" | Planned string string "string list"

fun try_cas :: "('w \<times> fs) shell \<Rightarrow> site_env \<Rightarrow> string \<Rightarrow> string list \<Rightarrow> string list \<Rightarrow> ca_attempt list \<Rightarrow> ('w web, issue_answer) lio" where
  "try_cas sh e domain base [] tried = lret (Inl (AppError ''all CAs failed''))"
| "try_cas sh e domain base (ca # cas) tried =
     lseq (on_world (run_cmd sh (base @ [''--server'', ca]) 180 False)) (\<lambda>r.
       let tried' = tried @ [\<lparr>at_ca = ca, at_ok = cr_ok r, at_output = tail_of 300 (first_of r)\<rparr>] in
       if \<not> cr_ok r then try_cas sh e domain base cas tried'
       else lseq (install_ssl sh e domain) (\<lambda>_.
            lseq (on_db (mark_ssl domain)) (\<lambda>_.
            lseq (on_db (laudit None ''ssl.issue'' (domain @ '' via '' @ ca))) (\<lambda>_. lret (Inr (Issued domain ca tried'))))))"

definition issue_args :: "site_env \<Rightarrow> string \<Rightarrow> string \<Rightarrow> string option \<Rightarrow> string option \<Rightarrow> ldb \<Rightarrow> string list lres" where
  "issue_args e domain meth provider webroot d =
     (let base = [acme_cmd e, ''--issue'', ''-d'', domain] in
      if meth = ''dns'' then
        (case provider of
           None \<Rightarrow> Inl (AppError ''dns_provider required for DNS method'')
         | Some p \<Rightarrow> if p = [] then Inl (AppError ''dns_provider required for DNS method'') else Inr (base @ [''--dns'', p]))
      else
        let wr = or_default webroot (case get_site domain d of None \<Rightarrow> [] | Some r \<Rightarrow> st_webroot r) in
        if wr = [] then Inl (AppError ''webroot required for HTTP method'') else Inr (base @ [''-w'', wr]))"

definition issue_certificate ::
  "('w \<times> fs) shell \<Rightarrow> site_env \<Rightarrow> string \<Rightarrow> string \<Rightarrow> string option \<Rightarrow> string list option \<Rightarrow> string option \<Rightarrow> bool \<Rightarrow> ('w web, issue_answer) lio" where
  "issue_certificate sh e domain0 meth provider cas0 webroot apply =
     lseq (foreign (lret (validate_site domain0))) (\<lambda>domain s.
       let cas = (case cas0 of None \<Rightarrow> CA_FALLBACK | Some l \<Rightarrow> if l = [] then CA_FALLBACK else l) in
       if \<not> acme_installed e (web_fs s) then (s, Inl (AppError ''acme.sh not installed''))
       else lseq (lret (issue_args e domain meth provider webroot (fst s))) (\<lambda>base.
              if apply then try_cas sh e domain base cas []
              else lret (Inr (Planned domain (join_with '' '' base) cas))) s)"

definition renew_all :: "('w \<times> fs) shell \<Rightarrow> site_env \<Rightarrow> bool \<Rightarrow> ('w web, (bool \<times> string) option) lio" where
  \<comment> \<open>\<open>None\<close>: only the planned command is told\<close>
  "renew_all sh e apply s =
     (if \<not> acme_installed e (web_fs s) then (s, Inl (AppError ''acme.sh not installed''))
      else if \<not> apply then (s, Inr None)
      else lseq (on_world (run_cmd sh [acme_cmd e, ''--renew-all''] 600 False)) (\<lambda>r.
           lseq (on_db (laudit None ''ssl.renew_all'' (if cr_ok r then ''ok'' else ''failed''))) (\<lambda>_.
           lret (Inr (Some (cr_ok r, tail_of 500 (first_of r)))))) s)"

definition list_certificates :: "('w \<times> fs) shell \<Rightarrow> site_env \<Rightarrow> ('w web, string option) lio" where
  "list_certificates sh e s =
     (if \<not> acme_installed e (web_fs s) then (s, Inr None)
      else lseq (on_world (run_cmd sh [acme_cmd e, ''--list''] 30 False)) (\<lambda>r. lret (Inr (Some (cr_stdout r)))) s)"

definition route_list_certs :: "('w \<times> fs) shell \<Rightarrow> site_env \<Rightarrow> caller lres \<Rightarrow> ('w web, string option) lio" where
  "route_list_certs sh e who = lseq (lret who) (\<lambda>_. list_certificates sh e)"

definition route_acme_status :: "site_env \<Rightarrow> caller lres \<Rightarrow> ('w web, bool \<times> string list) lio" where
  "route_acme_status e who = lseq (lret who) (\<lambda>_ s. (s, Inr (acme_installed e (web_fs s), CA_FALLBACK)))"

definition route_issue ::
  "('w \<times> fs) shell \<Rightarrow> site_env \<Rightarrow> caller lres \<Rightarrow> string \<Rightarrow> string \<Rightarrow> string option \<Rightarrow> string list option \<Rightarrow> string option \<Rightarrow> bool \<Rightarrow> ('w web, issue_answer) lio" where
  "route_issue sh e who domain meth provider cas webroot apply = as_manager who (app_http 400 (issue_certificate sh e domain meth provider cas webroot apply))"

definition route_renew :: "('w \<times> fs) shell \<Rightarrow> site_env \<Rightarrow> caller lres \<Rightarrow> ('w web, (bool \<times> string) option) lio" where
  "route_renew sh e who = as_manager who (app_http 400 (renew_all sh e True))"

section \<open>Names in the table are harmless\<close>

definition plain_host :: "string \<Rightarrow> bool" where
  "plain_host s = list_all (\<lambda>c. lower_ascii c \<or> ascii_digit c \<or> c = CHR ''-'' \<or> c = CHR ''.'') s"

definition sites_ok :: "ldb \<Rightarrow> bool" where
  "sites_ok d =
     (distinct (map st_domain (sites d))
      \<and> (\<forall>r \<in> set (sites d). st_domain r \<noteq> [] \<and> plain_host (st_domain r) \<and> (\<forall>a \<in> set (split_on (CHR '','') (st_aliases r)). plain_host a)))"

lemma log_free_sites_ok: "log_free sites_ok"
  by (simp add: log_free_def sites_ok_def)

lemma validate_site_text:
  assumes "validate_site s = Inr d"
  shows "d \<noteq> []" "plain_host d"
proof -
  have d: "d = lower (strip s)" and ok: "domain_ok d" using assms by (auto simp: validate_site_def Let_def split: if_splits)
  have t: "drop_final_nl d = d" using d cleaned_end by simp
  then show "d \<noteq> []" using ok by (auto simp: domain_ok_def)
  have labels: "\<forall>p \<in> set (split_on (CHR ''.'') d). list_all label_char p" using ok t by (auto simp: domain_ok_def Let_def list_all_iff label_ok_def)
  show "plain_host d" unfolding plain_host_def list_all_iff
  proof
    fix c assume c: "c \<in> set d"
    then have "c = CHR ''.'' \<or> label_char c" using in_split_on [OF c, of "CHR ''.''"] labels by (auto simp: list_all_iff)
    moreover have "\<not> (65 \<le> code c \<and> code c \<le> 90)" using c d not_upper_lower by (auto simp: lower_def)
    ultimately show "lower_ascii c \<or> ascii_digit c \<or> c = CHR ''-'' \<or> c = CHR ''.''" by (auto simp: label_char_def alpha_ascii_def)
  qed
qed

lemma validate_sites_text: "validate_sites ss = Inr ds \<Longrightarrow> \<forall>d \<in> set ds. plain_host d"
  by (induction ss arbitrary: ds) (auto simp: lbind_def dest: validate_site_text(2) split: sum.splits)

lemma plain_host_no_comma: "plain_host s \<Longrightarrow> CHR '','' \<notin> set s"
  by (auto simp: plain_host_def list_all_iff lower_ascii_def ascii_digit_def code_def)

lemma aliases_text: "alias_list s = Inr als \<Longrightarrow> a \<in> set (split_on (CHR '','') (join_with '','' als)) \<Longrightarrow> plain_host a"
proof (cases "als = []")
  case True
  assume "a \<in> set (split_on (CHR '','') (join_with '','' als))"
  then show ?thesis using True by (simp add: plain_host_def)
next
  case False
  assume "alias_list s = Inr als" and a: "a \<in> set (split_on (CHR '','') (join_with '','' als))"
  then have h: "\<forall>d \<in> set als. plain_host d" unfolding alias_list_def by (blast dest: validate_sites_text)
  then have "split_on (CHR '','') (join_with '','' als) = als" using False plain_host_no_comma by (intro split_join) auto
  with a h show ?thesis by simp
qed

lemma sites_ok_insert:
  "sites_ok d \<Longrightarrow> get_site (st_domain r) d = None \<Longrightarrow> st_domain r \<noteq> [] \<Longrightarrow> plain_host (st_domain r) \<Longrightarrow>
   (\<And>a. a \<in> set (split_on (CHR '','') (st_aliases r)) \<Longrightarrow> plain_host a) \<Longrightarrow> sites_ok (d\<lparr>sites := sites d @ [r]\<rparr>)"
  by (auto simp: sites_ok_def get_site_def select_one_None)

lemma sites_ok_update:
  "sites_ok d \<Longrightarrow> (\<And>r. st_domain (g r) = st_domain r \<and> st_aliases (g r) = st_aliases r) \<Longrightarrow> sites_ok (d\<lparr>sites := update_where p g (sites d)\<rparr>)"
  by (auto simp: sites_ok_def set_update_where map_update_where)

lemma sites_ok_delete: "sites_ok d \<Longrightarrow> sites_ok (d\<lparr>sites := delete_where p (sites d)\<rparr>)"
  by (auto simp: sites_ok_def delete_where_def distinct_map_filter)

lemma keeps_test_and_reload: "holds_over P (test_and_reload sh e)"
  unfolding test_and_reload_def by (intro keeps_rules)

lemma create_site_keeps: "holds_over sites_ok (create_site sh e now domain0 site_type aliases php proxy webroot0 apply)"
proof (rule keepsI)
  fix s :: "'a web"
  assume ok: "sites_ok (fst s)"
  show "sites_ok (fst (fst (create_site sh e now domain0 site_type aliases php proxy webroot0 apply s)))"
  proof (cases "\<exists>domain als. validate_site domain0 = Inr domain \<and> alias_list aliases = Inr als \<and> get_site domain (fst s) = None")
    case True
    then obtain domain als where v: "validate_site domain0 = Inr domain" "alias_list aliases = Inr als" and n: "get_site domain (fst s) = None" by blast
    show ?thesis
      unfolding create_site_def v lseq_lret Let_def using n
      by (simp only: not_not simp_thms if_False)
        (rule after_lseq, use ok n validate_site_text [OF v(1)] aliases_text [OF v(2)] in \<open>auto simp: on_db_def intro!: sites_ok_insert\<close>,
         intro keeps_rules keeps_test_and_reload keeps_laudit log_free_sites_ok)
  next
    case False
    then show ?thesis using ok
      by (cases "validate_site domain0"; cases "alias_list aliases") (auto simp: create_site_def lseq_def lret_def)
  qed
qed

lemma keeps_foreign: "holds_over P m \<Longrightarrow> holds_over P (foreign m)"
  by (auto simp: holds_over_def foreign_def split: prod.split sum.split lexc.split) (metis fst_conv)+

lemma keeps_get_site:
  "(\<And>s. holds_over P (\<lambda>s. (s, n s))) \<Longrightarrow> (\<And>r. holds_over P (m r)) \<Longrightarrow> holds_over P (\<lambda>s. case get_site domain (fst s) of None \<Rightarrow> (s, n s) | Some r \<Rightarrow> m r s)"
  by (auto simp: holds_over_def split: option.split)

lemma keeps_mark_ssl: "holds_over sites_ok (on_db (mark_ssl domain))"
  unfolding mark_ssl_def by (rule keeps_on_db) (simp add: sites_ok_update)

lemmas site_keeps = keeps_rules keeps_test_and_reload keeps_laudit log_free_sites_ok keeps_get_site keeps_Let keeps_foreign keeps_answer keeps_mark_ssl

lemma set_site_enabled_keeps: "holds_over sites_ok (set_site_enabled sh e domain en apply)"
  unfolding set_site_enabled_def
  by (intro site_keeps keeps_on_db) (simp add: sites_ok_update)

lemma delete_site_keeps: "holds_over sites_ok (delete_site sh e domain apply rw)"
  unfolding delete_site_def by (intro site_keeps keeps_on_db) (simp add: sites_ok_delete)

lemma create_subdomain_keeps: "holds_over sites_ok (create_subdomain sh e now parent label site_type php proxy apply)"
  unfolding create_subdomain_def by (intro site_keeps create_site_keeps)

lemma install_ssl_keeps: "holds_over sites_ok (install_ssl sh e domain)"
  unfolding install_ssl_def by (intro site_keeps)

lemma try_cas_keeps: "holds_over sites_ok (try_cas sh e domain base cas tried)"
proof (induction cas arbitrary: tried)
  case (Cons ca cas)
  show ?case unfolding try_cas.simps by (intro site_keeps install_ssl_keeps Cons.IH)
qed (simp add: keeps_lret)

lemma keeps_checked:
  fixes k :: "'v \<Rightarrow> (ldb \<times> 'w, 'u) lio"
  assumes "\<And>v. holds_over P (k v)"
  shows "holds_over P (\<lambda>s. if b s then (s, Inl a) else lseq (lret (i s)) k s)"
proof (rule keepsI)
  fix s :: "ldb \<times> 'w" assume s: "P (fst s)"
  show "P (fst (fst (if b s then (s, Inl a) else lseq (lret (i s)) k s)))"
    using keepsD [OF assms s] s by (cases "i s") auto
qed

lemma keeps_unless: "holds_over P m \<Longrightarrow> holds_over P (\<lambda>s. if b s then (s, x s) else if c then (s, y s) else m s)"
  by (simp add: holds_over_def)

lemma issue_certificate_keeps: "holds_over sites_ok (issue_certificate sh e domain0 meth provider cas webroot apply)"
  unfolding issue_certificate_def Let_def by (intro site_keeps) (rule keeps_checked, intro site_keeps try_cas_keeps)

lemma renew_all_keeps: "holds_over sites_ok (renew_all sh e apply)"
  unfolding renew_all_def by (rule keeps_unless) (intro site_keeps)

datatype site_request =
    CreateSite string string string "string option" "string option" "string option" bool
  | CreateSubdomain string string string "string option" "string option" bool
  | EnableSite string | DisableSite string | DeleteSite string bool
  | IssueCert "caller lres" string string "string option" "string list option" "string option" bool
  | RenewCerts "caller lres"

definition state_of :: "'s \<times> 'v \<Rightarrow> 's" where
  "state_of = fst"

fun site_serve :: "('w \<times> fs) shell \<Rightarrow> site_env \<Rightarrow> int \<Rightarrow> site_request \<Rightarrow> 'w web \<Rightarrow> 'w web" where
  "site_serve sh e now (CreateSite dn t al php px wr ap) s = state_of (route_create_site sh e now dn t al php px wr ap s)"
| "site_serve sh e now (CreateSubdomain p l t php px ap) s = state_of (route_create_subdomain sh e now p l t php px ap s)"
| "site_serve sh e now (EnableSite dn) s = state_of (route_enable_site sh e dn s)"
| "site_serve sh e now (DisableSite dn) s = state_of (route_disable_site sh e dn s)"
| "site_serve sh e now (DeleteSite dn rw) s = state_of (route_delete_site sh e dn rw s)"
| "site_serve sh e now (IssueCert who dn m p cas wr ap) s = state_of (route_issue sh e who dn m p cas wr ap s)"
| "site_serve sh e now (RenewCerts who) s = state_of (route_renew sh e who s)"

definition server_names :: "site_row \<Rightarrow> string" where
  "server_names r = join_with '' '' (st_domain r # filter (\<lambda>a. a \<noteq> []) (split_on (CHR '','') (st_aliases r)))"

lemma site_serve_keeps: "sites_ok (fst s) \<Longrightarrow> sites_ok (fst (site_serve sh e now q s))"
  by (cases q)
    (simp_all add: state_of_def route_create_site_def route_create_subdomain_def route_enable_site_def route_disable_site_def route_delete_site_def
      route_issue_def route_renew_def keepsD [OF keeps_app_http] keepsD [OF keeps_as_manager [OF keeps_app_http]] create_site_keeps create_subdomain_keeps
      set_site_enabled_keeps delete_site_keeps issue_certificate_keeps renew_all_keeps)

lemma join_chars: "c \<in> set (join_with '' '' ss) \<Longrightarrow> c = CHR '' '' \<or> (\<exists>s \<in> set ss. c \<in> set s)"
  by (induction "'' ''" ss rule: join_with.induct) auto

interpretation site_run: machine "\<lambda>(now, q). site_serve sh e now q" "\<lambda>s. sites_ok (fst s)" for sh e
  by unfold_locales (auto simp: site_serve_keeps split: prod.split)

text \<open>
  C1. Names in virtual hosts are harmless and unique: starting from an empty table, whatever requests reach the routes of sites and certificates, in any
  order and by anyone, no domain is stored twice, and the text that follows \<open>server_name\<close> in a site's virtual host has only lower-case letters, digits, hyphens, dots and
  the blanks between names; it can not end the directive or the line.
\<close>

theorem site_names_harmless:
  assumes "sites (fst s) = []"
    and d_def: "d = fst (fold (\<lambda>(now, q). site_serve sh e now q) qs s)"
  shows "distinct (map st_domain (sites d))
     \<and> (\<forall>r \<in> set (sites d). \<forall>c \<in> set (server_names r). lower_ascii c \<or> ascii_digit c \<or> c \<in> {CHR ''-'', CHR ''.'', CHR '' ''})"
proof -
  have ok: "sites_ok d" unfolding d_def by (rule site_run.run_inv) (simp add: sites_ok_def assms(1))
  show ?thesis
  proof (intro conjI ballI)
    show "distinct (map st_domain (sites d))" using ok by (simp add: sites_ok_def)
    fix r c assume r: "r \<in> set (sites d)" and "c \<in> set (server_names r)"
    then have "c = CHR '' '' \<or> (\<exists>t. plain_host t \<and> c \<in> set t)"
      using ok unfolding server_names_def sites_ok_def by (auto dest!: join_chars)
    then show "lower_ascii c \<or> ascii_digit c \<or> c \<in> {CHR ''-'', CHR ''.'', CHR '' ''}" by (auto simp: plain_host_def list_all_iff)
  qed
qed

section \<open>Certificate authorities are tried in order\<close>

text \<open>
  A certificate comes from the first authority that grants one: when issuing succeeds, the authorities before the one that is named were asked in the
  given order and refused, each once, the named one granted, and none after it was asked.
\<close>

theorem first_willing_authority:
  assumes "try_cas sh e domain base cas tried s = (s', Inr (Issued dn ca l))"
  shows "dn = domain \<and> (\<exists>pre post fails out. cas = pre @ ca # post \<and> map at_ca fails = pre \<and> (\<forall>a \<in> set fails. \<not> at_ok a)
           \<and> l = tried @ fails @ [\<lparr>at_ca = ca, at_ok = True, at_output = out\<rparr>])"
  using assms
proof (induction cas arbitrary: tried s)
  case (Cons c cas)
  obtain t r where run: "on_world (run_cmd sh (base @ [''--server'', c]) 180 False) s = (t, Inr r)"
    using Cons.prems by (auto simp: lseq_Inr)
  let ?a = "\<lparr>at_ca = c, at_ok = cr_ok r, at_output = tail_of 300 (first_of r)\<rparr>"
  show ?case
  proof (cases "cr_ok r")
    case True
    then have "dn = domain" "ca = c" "l = tried @ [?a]" using Cons.prems run by (auto simp: lseq_Inr Let_def lret_def)
    with True show ?thesis by (intro conjI exI [of _ "[]"] exI [of _ cas] exI [of _ "tail_of 300 (first_of r)"]) auto
  next
    case False
    then have "try_cas sh e domain base cas (tried @ [?a]) t = (s', Inr (Issued dn ca l))" using Cons.prems run by (auto simp: lseq_def Let_def)
    from Cons.IH [OF this] obtain pre post fails out where h: "dn = domain" "cas = pre @ ca # post" "map at_ca fails = pre" "\<forall>a \<in> set fails. \<not> at_ok a"
      "l = (tried @ [?a]) @ fails @ [\<lparr>at_ca = ca, at_ok = True, at_output = out\<rparr>]" by blast
    with False show ?thesis
      by (intro conjI exI [of _ "c # pre"] exI [of _ post] exI [of _ "?a # fails"] exI [of _ out]) auto
  qed
qed (simp add: lret_def)

section \<open>Enabled means linked\<close>

lemma node_at_ddel: "node_at (ddel p f) q = (if q = p \<and> p \<noteq> [] then None else node_at f q)"
  by (simp add: node_at_def dget_ddel)

definition debian_layout :: "fs \<Rightarrow> bool" where
  \<comment> \<open>the directories are there and are no links\<close>
  "debian_layout f =
     (is_dir_at f [''etc''] \<and> is_dir_at f [''etc'', ''nginx''] \<and> is_dir_at f [''etc'', ''nginx'', ''sites-available''] \<and> is_dir_at f [''etc'', ''nginx'', ''sites-enabled''])"

abbreviation available :: "string \<Rightarrow> path" where "available n \<equiv> [''etc'', ''nginx'', ''sites-available'', n]"
abbreviation enabled_at :: "string \<Rightarrow> path" where "enabled_at n \<equiv> [''etc'', ''nginx'', ''sites-enabled'', n]"

definition plain_name :: "string \<Rightarrow> bool" where
  "plain_name n = (n \<noteq> [] \<and> n \<noteq> ''.'' \<and> n \<noteq> ''..'' \<and> CHR ''/'' \<notin> set n)"

lemma layout_real:
  assumes "debian_layout f" "plain_name n"
  shows "realpath f act [] [''etc'', ''nginx'', ''sites-available''] = Some [''etc'', ''nginx'', ''sites-available'']"
    "realpath f act [] [''etc'', ''nginx'', ''sites-enabled''] = Some [''etc'', ''nginx'', ''sites-enabled'']"
    "mkdirs mo [''etc'', ''nginx'', ''sites-available''] f = (f, Inr [''etc'', ''nginx'', ''sites-available''])"
    "mkdirs mo [''etc'', ''nginx'', ''sites-enabled''] f = (f, Inr [''etc'', ''nginx'', ''sites-enabled''])"
    "place f (available n) = Some (available n)" "place f (enabled_at n) = Some (enabled_at n)"
proof -
  have d: "is_dir_at f [''etc'']" "is_dir_at f [''etc'', ''nginx'']" "is_dir_at f [''etc'', ''nginx'', ''sites-available'']" "is_dir_at f [''etc'', ''nginx'', ''sites-enabled'']"
    using assms(1) by (simp_all add: debian_layout_def)
  note l = d [THEN dir_no_link]
  have n: "n \<noteq> ''..''" using assms(2) by (simp add: plain_name_def)
  show r1: "realpath f act [] [''etc'', ''nginx'', ''sites-available''] = Some [''etc'', ''nginx'', ''sites-available'']" for act using l by simp
  show r2: "realpath f act [] [''etc'', ''nginx'', ''sites-enabled''] = Some [''etc'', ''nginx'', ''sites-enabled'']" for act using l by simp
  have "\<exists>m. node_at f p = Some (FDir m)" if "is_dir_at f p" for p using that by (auto simp: is_dir_at_def split: option.splits node.splits)
  note m = d [THEN this]
  show "mkdirs mo [''etc'', ''nginx'', ''sites-available''] f = (f, Inr [''etc'', ''nginx'', ''sites-available''])" using m by (auto simp: mkdirs_def)
  show "mkdirs mo [''etc'', ''nginx'', ''sites-enabled''] f = (f, Inr [''etc'', ''nginx'', ''sites-enabled''])" using m by (auto simp: mkdirs_def)
  show "place f (available n) = Some (available n)" using r1 [of "[]"] n by (simp add: place_def)
  show "place f (enabled_at n) = Some (enabled_at n)" using r2 [of "[]"] n by (simp add: place_def)
qed

lemma layout_other: "debian_layout f \<Longrightarrow> (\<And>q. length q \<le> 3 \<Longrightarrow> node_at g q = node_at f q) \<Longrightarrow> debian_layout g"
  by (simp add: debian_layout_def is_dir_at_def)

lemma real_last:
  assumes "debian_layout f" "plain_name n"
  shows "link_target f (available n) = None \<Longrightarrow> realpath f act [] (available n) = Some (available n)"
    "link_target f (enabled_at n) = None \<Longrightarrow> realpath f act [] (enabled_at n) = Some (enabled_at n)"
  using realpath_snoc [of f act "[]" "[''etc'', ''nginx'', ''sites-available'']" n] realpath_snoc [of f act "[]" "[''etc'', ''nginx'', ''sites-enabled'']" n]
    layout_real(1,2) [OF assms] assms(2) by (simp_all add: plain_name_def)

lemma drop_entry_gone:
  assumes "debian_layout f" "plain_name n" "drop_entry (enabled_at n) f = (g, Inr ())"
  shows "node_at g = (node_at f)(enabled_at n := None)"
proof (cases "exists_at f (enabled_at n) \<or> is_link_at f (enabled_at n)")
  case True
  then have "os_unlink (enabled_at n) f = (g, Inr ())" using assms(3) by (simp add: drop_entry_def)
  then have "g = ddel (enabled_at n) f"
    using layout_real(6) [OF assms(1,2)] by (auto simp: os_unlink_def os_error_def split: option.splits node.splits)
  then show ?thesis by (auto simp: node_at_ddel)
next
  case False
  then have g: "g = f" and l: "link_target f (enabled_at n) = None"
    using assms(3) layout_real(6) [OF assms(1,2)] by (auto simp: drop_entry_def is_link_at_def)
  have "node_at f (enabled_at n) = None" using False real_last(2) [OF assms(1,2) l] by (auto simp: exists_at_def follow_def)
  with g show ?thesis by auto
qed

lemma write_and_enable_debian:
  assumes dirs: "site_dirs e f = Inr ([''etc'', ''nginx'', ''sites-available''], Some [''etc'', ''nginx'', ''sites-enabled''])"
    and l: "debian_layout f" and n: "plain_name (conf_filename domain)" "link_target f (available (conf_filename domain)) = None"
    and ok: "write_and_enable e domain vtext en f = (g, Inr ())"
  shows "\<exists>bs m. utf8_encode vtext = Inr bs \<and> debian_layout g \<and> node_at g (available (conf_filename domain)) = Some (FFile bs m)
     \<and> node_at g (enabled_at (conf_filename domain)) = (if en then Some (FLink (path_str (available (conf_filename domain)))) else None)"
proof -
  let ?n = "conf_filename domain"
  note real = layout_real [OF l n(1)]
  obtain f1 f2 where w: "write_points (se_modes e) (available ?n) vtext f = (f1, Inr ())"
    and dr: "lseq (mkdirs (se_modes e) [''etc'', ''nginx'', ''sites-enabled'']) (\<lambda>_. drop_entry (enabled_at ?n)) f1 = (f2, Inr ())"
    and li: "(if en then os_symlink (enabled_at ?n) (path_str ([''etc'', ''nginx'', ''sites-available''] @ [?n])) else lret (Inr ())) f2 = (g, Inr ())"
    using ok unfolding write_and_enable_def dirs by (auto simp: lseq_Inr real(3) Let_def)
  obtain bs where bs: "utf8_encode vtext = Inr bs" using w by (cases "utf8_encode vtext") (auto simp: write_points_def lseq_Inr lret_def)
  obtain m where f1: "f1 = dput (available ?n) (FFile bs m) f"
    using w bs real_last(1) [OF l n] by (auto simp: write_points_def os_write_def put_file_def os_error_def split: if_splits)
  have l1: "debian_layout f1" by (rule layout_other [OF l]) (auto simp: f1 node_at_dput)
  have "drop_entry (enabled_at ?n) f1 = (f2, Inr ())" using dr layout_real(4) [OF l1 n(1)] by (simp add: lseq_def)
  then have f2: "node_at f2 = (node_at f1)(enabled_at ?n := None)" by (rule drop_entry_gone [OF l1 n(1)])
  have l2: "debian_layout f2" by (rule layout_other [OF l1]) (auto simp: f2)
  have "node_at g = (if en then (node_at f2)(enabled_at ?n \<mapsto> FLink (path_str (available ?n))) else node_at f2)"
    using li layout_real(6) [OF l2 n(1)] by (auto simp: os_symlink_def os_error_def lret_def node_at_dput fun_eq_iff split: if_splits)
  then have g: "node_at g q = (if q = enabled_at ?n then if en then Some (FLink (path_str (available ?n))) else None else node_at f1 q)" for q
    by (simp add: f2)
  have "debian_layout g" by (rule layout_other [OF l1]) (auto simp: g)
  moreover have "node_at g (available ?n) = Some (FFile bs m)" by (simp add: g f1 node_at_dput)
  ultimately show ?thesis using bs g by auto
qed

lemma components_plain: "plain_name n \<Longrightarrow> components (path_str (available n)) = available n"
  by (simp add: components_def path_str_def plain_name_def split_on_first split_on_none)

lemma follow_enabled:
  assumes "debian_layout g" "plain_name n" "node_at g (available n) = Some (FFile bs m)" "node_at g (enabled_at n) = Some (FLink (path_str (available n)))"
  shows "follow g (enabled_at n) = Some (FFile bs m)"
proof -
  have "link_target g (available n) = None" using assms(3) by (simp add: link_target_def)
  note a = real_last(1) [OF assms(1,2) this]
  have "link_target g (enabled_at n) = Some (path_str (available n))" using assms(4) by (simp add: link_target_def)
  moreover have "startswith (path_str (available n)) ''/''" by (simp add: path_str_def startswith_def)
  ultimately have "realpath g [] [] (enabled_at n) = Some (available n)"
    using realpath_snoc [of g "[]" "[]" "[''etc'', ''nginx'', ''sites-enabled'']" n] layout_real(2) [OF assms(1,2)] a components_plain [OF assms(2)] assms(2)
    by (simp add: plain_name_def)
  with assms(3) show ?thesis by (simp add: follow_def)
qed

lemma plain_conf: "plain_host domain \<Longrightarrow> plain_name (conf_filename domain)"
  by (auto simp: plain_name_def conf_filename_def plain_host_def list_all_iff lower_ascii_def ascii_digit_def code_def append_eq_Cons_conv)

lemma run_cmd_world: "fst (run_cmd sh args n ck w) = (if args = [] then w else fst (sh args [] w))"
  by (simp add: run_cmd_def Let_def case_prod_unfold)

lemma run_cmd_files: "files_untouched sh \<Longrightarrow> snd (fst (run_cmd sh args n ck w)) = snd w"
  unfolding run_cmd_world files_untouched_def by (cases w) simp

lemma on_run_files:
  assumes "files_untouched sh" "on_world (run_cmd sh args n ck) s = (t, r)"
  shows "fst t = fst s \<and> snd (snd t) = snd (snd s)"
proof -
  have "t = (fst s, fst (run_cmd sh args n ck (snd s)))" using assms(2) by (auto simp: on_world_def case_prod_unfold Let_def)
  then show ?thesis using run_cmd_files [OF assms(1)] by simp
qed

lemma test_and_reload_files:
  assumes "files_untouched sh" "test_and_reload sh e s = (t, r)"
  shows "fst t = fst s \<and> snd (snd t) = snd (snd s)"
proof -
  have rel: "nginx_reload sh (se_host e) = (if has (se_host e) ''systemctl'' then run_cmd sh [''systemctl'', ''reload'', ''nginx''] 30 False
      else run_cmd sh [''nginx'', ''-s'', ''reload''] 30 False)" by (simp add: nginx_reload_def fun_eq_iff)
  show ?thesis using assms(2) unfolding test_and_reload_def nginx_test_def rel
    by (auto simp: lseq_def lret_def split: prod.splits sum.splits if_splits dest!: on_run_files [OF assms(1)])
qed

lemma select_update: "(\<And>r. p (g r) = p r) \<Longrightarrow> select_one p (update_where p g rows) = map_option g (select_one p rows)"
  by (induction rows) (auto simp: select_one_def update_where_def)


section \<open>Nobody is asked for a token\<close>

lemma run_cmd_answers: "args \<noteq> [] \<Longrightarrow> \<exists>r. snd (run_cmd sh args n False w) = Inr r"
  by (simp add: run_cmd_def Let_def case_prod_unfold)

lemma on_run_answers: "args \<noteq> [] \<Longrightarrow> \<exists>t r. on_world (run_cmd sh args n False) s = (t, Inr r)"
  using run_cmd_answers [of args sh n "snd s"] by (auto simp: on_world_def case_prod_unfold Let_def)

lemma test_and_reload_answers: "\<exists>t r. test_and_reload sh e s = (t, Inr r)"
proof -
  obtain t r where t: "on_world (nginx_test sh) s = (t, Inr r)" using on_run_answers [of "[''nginx'', ''-t'']" sh 30 s] by (auto simp: nginx_test_def)
  obtain t2 r2 where "on_world (nginx_reload sh (se_host e)) t = (t2, Inr r2)"
    using on_run_answers [of "[''systemctl'', ''reload'', ''nginx'']" sh 30 t] on_run_answers [of "[''nginx'', ''-s'', ''reload'']" sh 30 t]
    by (cases "has (se_host e) ''systemctl''") (auto simp: nginx_reload_def)
  with t show ?thesis by (cases "cr_ok r"; cases t; cases t2) (auto simp: test_and_reload_def lseq_def lret_def intro: exI [of _ True] exI [of _ False])
qed


section \<open>Closed examples\<close>

definition demo_site_env :: site_env where
  "demo_site_env = \<lparr>se_modes = demo_modes, se_host = \<lparr>hi_root = Some True, hi_path = [''acme.sh'', ''systemctl'']\<rparr>, se_platform = ''Linux'', se_drop = \<lambda>bs. [], se_cwd = [''opt'']\<rparr>"

definition idle_shell :: "(unit \<times> fs) shell" where
  "idle_shell args inp w = (w, Ended 0 [] [])"

definition choosy_shell :: "(unit \<times> fs) shell" where
  \<comment> \<open>one authority refuses\<close>
  "choosy_shell args inp w = (w, Ended (if ''letsencrypt'' \<in> set args then 1 else 0) ''done'' [])"

definition debian_fs :: fs where
  "debian_fs = [([''etc''], FDir 493), ([''etc'', ''nginx''], FDir 493), ([''etc'', ''nginx'', ''sites-available''], FDir 493), ([''etc'', ''nginx'', ''sites-enabled''], FDir 493),
     ([''etc'', ''os-release''], FFile (points ''ID=debian'') 420), ([''home''], FDir 493), ([''home'', ''a''], FFile [1] 420)]"

definition demo_site :: site_row where
  "demo_site = \<lparr>st_domain = ''ex.ir'', st_aliases = ''www.ex.ir'', st_type = ''static'', st_webroot = ''/var/www/ex.ir'', st_php = None, st_proxy = None, st_ssl = False,
     st_enabled = False, st_created = 0\<rparr>"

definition site_ldb :: ldb where
  "site_ldb = demo_ldb\<lparr>sites := [demo_site]\<rparr>"

lemma idle_untouched: "files_untouched idle_shell"
  by (simp add: files_untouched_def idle_shell_def)

theorem site_names_harmless_witness:
  "distinct (map st_domain (sites (fst (fold (\<lambda>(now, q). site_serve idle_shell demo_site_env now q)
     [(0, CreateSite ''EX.ir '' ''static'' ''www.ex.ir'' None None None True), (1, CreateSubdomain ''ex.ir'' ''blog'' ''php'' None None False)] (demo_ldb, (), debian_fs)))))"
  by (rule conjunct1 [OF site_names_harmless [OF _ refl]]) (simp add: demo_ldb_def)

lemma demo_release: "parse_os_release (se_drop demo_site_env) debian_fs = Inr [(''ID'', ''debian'')]"
  by code_simp

lemma demo_debian: "\<exists>i. detect_os (se_drop demo_site_env) (se_platform demo_site_env) debian_fs = Inr i \<and> oi_family i = ''debian''"
  using demo_release by (simp add: detect_os_def lbind_def Let_def dget_def or_empty_def lower_def lower_char_def code_def os_family_def DEBIAN_IDS_def)

lemma demo_dirs: "site_dirs demo_site_env debian_fs = Inr ([''etc'', ''nginx'', ''sites-available''], Some [''etc'', ''nginx'', ''sites-enabled''])"
  using demo_debian by (auto simp: site_dirs_def lbind_def)

lemma demo_mkdirs: "\<exists>g p. mkdirs demo_modes (components ''/etc/letsencrypt/live/ex.ir'') debian_fs = (g, Inr p)"
proof -
  have "snd (mkdirs demo_modes (components ''/etc/letsencrypt/live/ex.ir'') debian_fs) = Inr [''etc'', ''letsencrypt'', ''live'', ''ex.ir'']" by code_simp
  then show ?thesis by (metis prod.collapse)
qed

lemma demo_install: "\<exists>t. install_ssl choosy_shell demo_site_env ''ex.ir'' (demo_ldb, (), debian_fs) = (t, Inr ())"
  using demo_mkdirs
  by (auto simp: install_ssl_def lseq_def on_fs_def on_world_def run_cmd_def choosy_shell_def demo_site_env_def get_site_def demo_ldb_def select_one_def Let_def)

theorem first_willing_authority_witness:
  "\<exists>s' out. try_cas choosy_shell demo_site_env ''ex.ir'' [''acme.sh''] CA_FALLBACK [] (demo_ldb, (), debian_fs)
     = (s', Inr (Issued ''ex.ir'' ''zerossl'' [\<lparr>at_ca = ''letsencrypt'', at_ok = False, at_output = out\<rparr>, \<lparr>at_ca = ''zerossl'', at_ok = True, at_output = out\<rparr>]))"
proof -
  let ?l = "[\<lparr>at_ca = ''letsencrypt'', at_ok = False, at_output = ''done''\<rparr>, \<lparr>at_ca = ''zerossl'', at_ok = True, at_output = ''done''\<rparr>]"
  have "snd (try_cas choosy_shell demo_site_env ''ex.ir'' [''acme.sh''] CA_FALLBACK [] (demo_ldb, (), debian_fs)) = Inr (Issued ''ex.ir'' ''zerossl'' ?l)"
    using demo_install
    by (auto simp: CA_FALLBACK_def lseq_def on_world_def run_cmd_def choosy_shell_def first_of_def strip_def rstrip_by_def is_space_def code_def Let_def tail_of_def
        on_db_def lret_def)
  then obtain s' where s': "try_cas choosy_shell demo_site_env ''ex.ir'' [''acme.sh''] CA_FALLBACK [] (demo_ldb, (), debian_fs) = (s', Inr (Issued ''ex.ir'' ''zerossl'' ?l))"
    by (metis prod.collapse)
  from first_willing_authority [OF s'] s' show ?thesis by blast
qed

lemma points_below: "\<forall>c \<in> set (points s). c < 256"
  by (auto simp: points_def code_def)

lemma vhost_parts_below:
  "\<forall>c \<in> set (tline s). c < 256" "\<forall>c \<in> set (vhost_head k dn nm). c < 10000" "\<forall>c \<in> set (vhost_root wr ix). c < 256" "\<forall>c \<in> set (vhost_logs dn). c < 256"
  "\<forall>c \<in> set hide_dots. c < 256"
proof -
  show t: "\<forall>c \<in> set (tline s). c < 256" for s using points_below [of s] by (auto simp: tline_def)
  show "\<forall>c \<in> set (vhost_head k dn nm). c < 10000" unfolding vhost_head_def using t points_below by fastforce
  show "\<forall>c \<in> set (vhost_root wr ix). c < 256" "\<forall>c \<in> set (vhost_logs dn). c < 256" "\<forall>c \<in> set hide_dots. c < 256"
    unfolding vhost_root_def vhost_logs_def hide_dots_def using t by fastforce+
qed

lemma static_conf_encodes: "\<exists>bs. utf8_encode (static_conf dn nm wr False cert key) = Inr bs"
proof -
  have "\<forall>c \<in> set (static_conf dn nm wr False cert key). c < 10000"
    unfolding static_conf_def Let_def using vhost_parts_below by fastforce
  then show ?thesis by (fastforce simp: utf8_encode_def scalar_value_def list_all_iff)
qed

lemma write_and_enable_works:
  assumes dirs: "site_dirs e f = Inr ([''etc'', ''nginx'', ''sites-available''], Some [''etc'', ''nginx'', ''sites-enabled''])"
    and l: "debian_layout f" and n: "plain_name (conf_filename domain)" and free: "node_at f (available (conf_filename domain)) = None" "node_at f (enabled_at (conf_filename domain)) = None"
    and bs: "utf8_encode vtext = Inr bs"
  shows "\<exists>g. write_and_enable e domain vtext en f = (g, Inr ())"
proof -
  let ?n = "conf_filename domain" and ?f = "dput (available (conf_filename domain)) (FFile bs (fm_file (se_modes e))) f"
  have "realpath f [] [] (available ?n) = Some (available ?n)" using real_last(1) [OF l n] free(1) by (simp add: link_target_def)
  moreover have "is_dir_at f [''etc'', ''nginx'', ''sites-available'']" using l by (simp add: debian_layout_def)
  ultimately have w: "write_points (se_modes e) (available ?n) vtext f = (?f, Inr ())"
    using bs free(1) by (simp add: write_points_def os_write_def put_file_def is_dir_at_def)
  have l1: "debian_layout ?f" by (rule layout_other [OF l]) (auto simp: node_at_dput)
  have none: "node_at ?f (enabled_at ?n) = None" using free(2) by (simp add: node_at_dput)
  then have "drop_entry (enabled_at ?n) ?f = (?f, Inr ())"
    using real_last(2) [OF l1 n] layout_real(6) [OF l1 n] by (simp add: drop_entry_def exists_at_def follow_def is_link_at_def link_target_def)
  moreover have "is_dir_at ?f [''etc'', ''nginx'', ''sites-enabled'']" using l1 by (simp add: debian_layout_def)
  ultimately show ?thesis
    using layout_real(3) [OF l n, of "se_modes e"] layout_real(4) [OF l1 n, of "se_modes e"] layout_real(6) [OF l1 n] none w
    by (simp add: write_and_enable_def dirs lseq_def Let_def os_symlink_def lret_def)
qed



end
