(* ===== verification/Archives.thy ===== *)
theory Archives
  imports Sites
begin

text \<open>
  Backups of the first panel (\<open>legacy/v1/backend/app/services/backup.py\<close>, \<open>api/backup.py\<close>) and the background scheduler
  (\<open>services/scheduler.py\<close>): archives of sites, directories and databases, where they are sent, which old ones are deleted there, how they are brought back, and
  which jobs the scheduler holds. Servers that are reached by FTP or SFTP, and the formats of archives, are parameters.
\<close>

section \<open>Servers and formats\<close>

datatype 'v net_reply = NetOk 'v | NetPerm string | NetFail string
  \<comment> \<open>an answer; \<open>ftplib.error_perm\<close> or, from SFTP, \<open>IOError\<close>; any other exception\<close>

record 'w ftp_server =
  fp_open :: "string option \<Rightarrow> int \<Rightarrow> string option \<Rightarrow> string option \<Rightarrow> 'w \<Rightarrow> 'w \<times> unit net_reply" \<comment> \<open>connect and log in\<close>
  fp_cwd :: "string \<Rightarrow> 'w \<Rightarrow> 'w \<times> unit net_reply"
  fp_mkd :: "string \<Rightarrow> 'w \<Rightarrow> 'w \<times> unit net_reply"
  fp_stor :: "string \<Rightarrow> nat list \<Rightarrow> 'w \<Rightarrow> 'w \<times> unit net_reply"
  fp_nlst :: "'w \<Rightarrow> 'w \<times> string list net_reply"
  fp_size :: "string \<Rightarrow> 'w \<Rightarrow> 'w \<times> int option net_reply"
  fp_delete :: "string \<Rightarrow> 'w \<Rightarrow> 'w \<times> unit net_reply"
  fp_retr :: "string \<Rightarrow> 'w \<Rightarrow> 'w \<times> nat list net_reply"

record 'w sftp_server =
  sp_present :: bool \<comment> \<open>is \<open>paramiko\<close> installed\<close>
  sp_open :: "string option \<Rightarrow> int \<Rightarrow> string option \<Rightarrow> string option \<Rightarrow> 'w \<Rightarrow> 'w \<times> unit net_reply"
  sp_stat :: "string \<Rightarrow> 'w \<Rightarrow> 'w \<times> unit net_reply"
  sp_mkdir :: "string \<Rightarrow> 'w \<Rightarrow> 'w \<times> unit net_reply"
  sp_put :: "string \<Rightarrow> nat list \<Rightarrow> 'w \<Rightarrow> 'w \<times> unit net_reply"
  sp_list :: "string \<Rightarrow> 'w \<Rightarrow> 'w \<times> (string \<times> int) list net_reply"
  sp_remove :: "string \<Rightarrow> 'w \<Rightarrow> 'w \<times> unit net_reply"
  sp_get :: "string \<Rightarrow> 'w \<Rightarrow> 'w \<times> nat list net_reply"

record 'w backup_env =
  be_site :: site_env
  be_shell :: "('w \<times> fs) shell"
  be_ftp :: "'w ftp_server"
  be_sftp :: "'w sftp_server"
  be_pack :: "member list \<Rightarrow> nat list" \<comment> \<open>a compressed tar file\<close>
  be_unpack :: "nat list \<Rightarrow> member list option"
  be_gzip :: "nat list \<Rightarrow> nat list"
  be_gunzip :: "nat list \<Rightarrow> string option" \<comment> \<open>and decoded\<close>
  be_dir_size :: int \<comment> \<open>what \<open>getsize\<close> says of a directory\<close>
  be_exc_text :: "lexc \<Rightarrow> string" \<comment> \<open>\<open>str(e)\<close>\<close>

definition on_net :: "('w \<Rightarrow> 'w \<times> 'v) \<Rightarrow> ('w web, 'v) lio" where
  "on_net f s = (let (w, v) = f (fst (snd s)) in ((fst s, w, snd (snd s)), Inr v))"

definition net_call :: "('w \<Rightarrow> 'w \<times> 'v net_reply) \<Rightarrow> ('w web, 'v) lio" where
  "net_call f = lseq (on_net f) (\<lambda>r. lret (case r of NetOk v \<Rightarrow> Inr v | NetPerm m \<Rightarrow> Inl (RuntimeError m) | NetFail m \<Rightarrow> Inl (RuntimeError m)))"

definition perm_or :: "('w \<Rightarrow> 'w \<times> 'v net_reply) \<Rightarrow> ('w web, 'v option) lio" where
  \<comment> \<open>\<open>except ftplib.error_perm\<close>, \<open>except IOError\<close>\<close>
  "perm_or f = lseq (on_net f) (\<lambda>r. lret (case r of NetOk v \<Rightarrow> Inr (Some v) | NetPerm m \<Rightarrow> Inr None | NetFail m \<Rightarrow> Inl (RuntimeError m)))"

section \<open>Names of archives\<close>

definition ref_name :: "string \<Rightarrow> string" where
  \<comment> \<open>\<open>ref.strip("/").replace("/", "_") or "root"\<close>\<close>
  "ref_name ref =
     (let s = map (\<lambda>c. if c = CHR ''/'' then CHR ''_'' else c) (strip_char (CHR ''/'') ref) in if s = [] then ''root'' else s)"

definition prefix_for :: "job_row \<Rightarrow> string" where
  "prefix_for j =
     (if jb_source_type j = ''site'' then ''site'' else if jb_source_type j = ''database'' then ''db'' else if jb_source_type j = ''path'' then ''path'' else ''bk'')
     @ ''-'' @ ref_name (jb_source_ref j) @ ''-''"

definition last_name :: "string \<Rightarrow> string" where
  \<comment> \<open>\<open>os.path.basename\<close>\<close>
  "last_name s = rpartition_at (CHR ''/'') s"

fun member_at :: "string \<Rightarrow> node \<Rightarrow> member" where
  "member_at n (FFile bs m) = MFile n bs"
| "member_at n (FDir m) = MDir n"
| "member_at n (FLink t) = MLink n t"

definition tree_members :: "fs \<Rightarrow> path \<Rightarrow> string \<Rightarrow> member list" where
  \<comment> \<open>\<open>tar.add(\<dots>, arcname=arc)\<close>: what is found at the path and, if that is a directory, everything below, sorted within each directory\<close>
  "tree_members f p arc =
     (case node_at f p of
        None \<Rightarrow> []
      | Some n \<Rightarrow>
          member_at arc n
          # (case n of
               FDir m \<Rightarrow> map (\<lambda>(q, k). member_at (join_with ''/'' (arc # drop (length p) q)) k) (sort_key fst (filter (\<lambda>(q, k). above p q \<and> q \<noteq> p) f))
             | _ \<Rightarrow> []))"

definition packed :: "'w backup_env \<Rightarrow> string \<Rightarrow> path \<Rightarrow> string \<Rightarrow> ('w web, string \<times> nat list) lio" where
  "packed be name p arc s =
     (if CHR ''/'' \<in> set name then (s, os_error)
      else case place (web_fs s) p of None \<Rightarrow> (s, os_error) | Some q \<Rightarrow> (s, Inr (name, be_pack be (tree_members (web_fs s) q arc))))"

definition site_source :: "'w backup_env \<Rightarrow> string \<Rightarrow> string \<Rightarrow> ('w web, string \<times> nat list) lio" where
  "site_source be ts ref s =
     (case get_site ref (fst s) of
        None \<Rightarrow> (s, Inl (AppError (''site not found: '' @ ref)))
      | Some site \<Rightarrow>
          let p = from_text (se_cwd (be_site be)) (st_webroot site) in
          if \<not> leads_to_dir (web_fs s) p then (s, Inl (AppError (''webroot missing: '' @ st_webroot site)))
          else packed be (''site-'' @ ref @ ''-'' @ ts @ ''.tar.gz'') p ref s)"

definition path_source :: "'w backup_env \<Rightarrow> string \<Rightarrow> string \<Rightarrow> ('w web, string \<times> nat list) lio" where
  "path_source be ts ref s =
     (let p = from_text (se_cwd (be_site be)) ref; b = last_name (rstrip_char (CHR ''/'') ref) in
      if \<not> exists_at (web_fs s) p then (s, Inl (AppError (''path missing: '' @ ref)))
      else packed be (''path-'' @ ref_name ref @ ''-'' @ ts @ ''.tar.gz'') p (if b = [] then ''root'' else b) s)"

definition base_source :: "'w backup_env \<Rightarrow> string \<Rightarrow> string \<Rightarrow> ('w web, string \<times> nat list) lio" where
  "base_source be ts ref =
     (if \<not> has (se_host (be_site be)) ''mysqldump'' then lret (Inl (AppError ''mysqldump not installed''))
      else lseq (on_world (run_cmd (be_shell be) [''mysqldump'', ''--single-transaction'', ref] 600 False)) (\<lambda>r.
             if \<not> cr_ok r then lret (Inl (AppError (''mysqldump failed: '' @ cr_stderr r)))
             else if CHR ''/'' \<in> set ref then lret os_error
             else lret (Inr (''db-'' @ ref @ ''-'' @ ts @ ''.sql.gz'', be_gzip be (utf8 (cr_stdout r))))))"

definition archive_source :: "'w backup_env \<Rightarrow> string \<Rightarrow> string \<Rightarrow> string \<Rightarrow> ('w web, string \<times> nat list) lio" where
  \<comment> \<open>\<open>archive_path\<close>: the name and the bytes of the archive; \<open>ts\<close> is the time as text\<close>
  "archive_source be ts stype ref =
     (if stype = ''site'' then site_source be ts ref
      else if stype = ''path'' then path_source be ts ref
      else if stype = ''database'' then base_source be ts ref
      else lret (Inl (AppError (''invalid source_type: '' @ stype))))"

section \<open>Sending and thinning out\<close>

definition or_int :: "int option \<Rightarrow> int \<Rightarrow> int" where
  \<comment> \<open>\<open>int(v or d)\<close>\<close>
  "or_int v d = (case v of None \<Rightarrow> d | Some i \<Rightarrow> if i = 0 then d else i)"

definition victims :: "int \<Rightarrow> string \<Rightarrow> string list \<Rightarrow> string list" where
  \<comment> \<open>\<open>names[:-keep] if len(names) > keep else []\<close> of the sorted names with the prefix\<close>
  "victims keep prefix ns =
     (let names = sort (filter (\<lambda>n. startswith n prefix) ns) in
      if int (length names) > keep then (if 0 < keep then take (length names - nat keep) names else take (nat (- keep)) names) else [])"

definition path_parts :: "string \<Rightarrow> string list" where
  "path_parts p = filter (\<lambda>c. c \<noteq> []) (split_on (CHR ''/'') (strip_char (CHR ''/'') p))"

definition dest_dir :: "job_row \<Rightarrow> string" where
  \<comment> \<open>\<open>job.get("dest_path") or "/"\<close>\<close>
  "dest_dir j = (if jb_dest_path j = [] then ''/'' else jb_dest_path j)"

fun ftp_chdir :: "'w ftp_server \<Rightarrow> string list \<Rightarrow> ('w web, unit) lio" where
  "ftp_chdir fp [] = lret (Inr ())"
| "ftp_chdir fp (p # ps) =
     lseq (perm_or (fp_cwd fp p)) (\<lambda>r.
     lseq (case r of Some _ \<Rightarrow> lret (Inr ()) | None \<Rightarrow> lseq (net_call (fp_mkd fp p)) (\<lambda>_. net_call (fp_cwd fp p))) (\<lambda>_. ftp_chdir fp ps))"

fun delete_each_name :: "(string \<Rightarrow> 'w \<Rightarrow> 'w \<times> unit net_reply) \<Rightarrow> string list \<Rightarrow> ('w web, unit) lio" where
  "delete_each_name del [] = lret (Inr ())"
| "delete_each_name del (n # ns) = lseq (perm_or (del n)) (\<lambda>_. delete_each_name del ns)"

definition ftp_retention :: "'w ftp_server \<Rightarrow> job_row \<Rightarrow> ('w web, unit) lio" where
  "ftp_retention fp j =
     lseq (perm_or (fp_nlst fp)) (\<lambda>r.
       case r of None \<Rightarrow> lret (Inr ()) | Some ns \<Rightarrow> delete_each_name (fp_delete fp) (victims (or_int (Some (jb_retention j)) 7) (prefix_for j) ns))"

definition ftp_login :: "'w ftp_server \<Rightarrow> job_row \<Rightarrow> ('w web, unit) lio" where
  "ftp_login fp j =
     lseq (net_call (fp_open fp (jb_dest_host j) (or_int (jb_dest_port j) 21) (jb_dest_user j) (jb_dest_password j))) (\<lambda>_. ftp_chdir fp (path_parts (dest_dir j)))"

definition upload_ftp :: "'w ftp_server \<Rightarrow> job_row \<Rightarrow> string \<Rightarrow> nat list \<Rightarrow> ('w web, unit) lio" where
  "upload_ftp fp j name bs = lseq (ftp_login fp j) (\<lambda>_. lseq (net_call (fp_stor fp name bs)) (\<lambda>_. ftp_retention fp j))"

fun sftp_makedirs :: "'w sftp_server \<Rightarrow> string \<Rightarrow> string list \<Rightarrow> ('w web, unit) lio" where
  "sftp_makedirs sp cur [] = lret (Inr ())"
| "sftp_makedirs sp cur (p # ps) =
     (let here = cur @ ''/'' @ p in
      lseq (perm_or (sp_stat sp here)) (\<lambda>r.
      lseq (case r of Some _ \<Rightarrow> lret (Inr ()) | None \<Rightarrow> net_call (sp_mkdir sp here)) (\<lambda>_. sftp_makedirs sp here ps)))"

definition sftp_file :: "job_row \<Rightarrow> string \<Rightarrow> string" where
  "sftp_file j name = rstrip_char (CHR ''/'') (dest_dir j) @ ''/'' @ name"

definition sftp_retention :: "'w sftp_server \<Rightarrow> job_row \<Rightarrow> ('w web, unit) lio" where
  "sftp_retention sp j =
     lseq (perm_or (sp_list sp (dest_dir j))) (\<lambda>r.
       case r of
         None \<Rightarrow> lret (Inr ())
       | Some l \<Rightarrow> delete_each_name (\<lambda>n. sp_remove sp (sftp_file j n)) (victims (or_int (Some (jb_retention j)) 7) (prefix_for j) (map fst l)))"

definition sftp_login :: "'w sftp_server \<Rightarrow> job_row \<Rightarrow> ('w web, unit) lio" where
  "sftp_login sp j = net_call (sp_open sp (jb_dest_host j) (or_int (jb_dest_port j) 22) (jb_dest_user j) (jb_dest_password j))"

definition upload_sftp :: "'w sftp_server \<Rightarrow> job_row \<Rightarrow> string \<Rightarrow> nat list \<Rightarrow> ('w web, unit) lio" where
  "upload_sftp sp j name bs =
     (if \<not> sp_present sp then lret (Inl (AppError ''paramiko not installed''))
      else lseq (sftp_login sp j) (\<lambda>_.
           lseq (sftp_makedirs sp [] (path_parts (dest_dir j))) (\<lambda>_.
           lseq (net_call (sp_put sp (sftp_file j name) bs)) (\<lambda>_. sftp_retention sp j))))"

definition copy_local :: "site_env \<Rightarrow> string \<Rightarrow> string \<Rightarrow> nat list \<Rightarrow> (fs, unit) lio" where
  "copy_local e dest name bs =
     (if dest = [] then lret os_error
      else lseq (mkdirs (se_modes e) (from_text (se_cwd e) dest)) (\<lambda>_. os_write (se_modes e) (from_text (se_cwd e) dest @ [name]) bs))"

section \<open>Running a job\<close>

definition set_status :: "int \<Rightarrow> string \<Rightarrow> ldb \<Rightarrow> ldb" where
  \<comment> \<open>\<open>_update_job_status\<close>; the time of the run is left out\<close>
  "set_status jid st d =
     (if jid = 0 then d else d\<lparr>backup_jobs := update_where (\<lambda>r. jb_id r = jid) (\<lambda>r. r\<lparr>jb_status := Some (take 200 st)\<rparr>) (backup_jobs d)\<rparr>)"

definition job_source :: "job_row \<Rightarrow> string" where
  "job_source j = jb_source_type j @ '':'' @ jb_source_ref j"

definition send_archive :: "'w backup_env \<Rightarrow> job_row \<Rightarrow> string \<times> nat list \<Rightarrow> ('w web, unit) lio" where
  "send_archive be j nb =
     (if jb_dest_type j = ''ftp'' then upload_ftp (be_ftp be) j (fst nb) (snd nb)
      else if jb_dest_type j = ''sftp'' then upload_sftp (be_sftp be) j (fst nb) (snd nb)
      else if jb_dest_type j = ''local'' then on_fs (copy_local (be_site be) (jb_dest_path j) (fst nb) (snd nb))
      else lret (Inl (AppError (''invalid dest_type: '' @ jb_dest_type j))))"

definition noting_failure :: "'w backup_env \<Rightarrow> int \<Rightarrow> ('w web, 'v) lio \<Rightarrow> ('w web, 'v) lio" where
  \<comment> \<open>\<open>except Exception as e: _update_job_status(\<dots>); raise\<close>\<close>
  "noting_failure be jid m s =
     (case m s of
        (s', Inl e) \<Rightarrow> ((set_status jid (''failed: '' @ be_exc_text be e) (fst s'), snd s'), Inl e)
      | (s', Inr v) \<Rightarrow> (s', Inr v))"

definition run_job :: "'w backup_env \<Rightarrow> string \<Rightarrow> job_row \<Rightarrow> bool \<Rightarrow> ('w web, string \<times> nat \<times> bool) lio" where
  \<comment> \<open>the answer: the archive's name and size, and whether it was uploaded\<close>
  "run_job be ts j apply =
     (if \<not> apply then lseq (archive_source be ts (jb_source_type j) (jb_source_ref j)) (\<lambda>nb. lret (Inr (fst nb, length (snd nb), False)))
      else noting_failure be (jb_id j)
        (lseq (archive_source be ts (jb_source_type j) (jb_source_ref j)) (\<lambda>nb.
         lseq (send_archive be j nb) (\<lambda>_.
         lseq (on_db (set_status (jb_id j) ''success'')) (\<lambda>_.
         lseq (on_db (laudit None ''backup.run'' (job_source j @ '' -> '' @ jb_dest_type j))) (\<lambda>_.
         lret (Inr (fst nb, length (snd nb), True))))))))"

section \<open>Bringing archives back\<close>

definition newest_first :: "(string \<times> int option) list \<Rightarrow> (string \<times> int option) list" where
  \<comment> \<open>\<open>sort(key=name, reverse=True)\<close>, which keeps the order of equal names\<close>
  "newest_first l = rev (sort_key fst (rev l))"

fun ftp_sizes :: "'w ftp_server \<Rightarrow> string list \<Rightarrow> ('w web, (string \<times> int option) list) lio" where
  "ftp_sizes fp [] = lret (Inr [])"
| "ftp_sizes fp (n # ns) =
     lseq (on_net (fp_size fp n)) (\<lambda>r. lseq (ftp_sizes fp ns) (\<lambda>l. lret (Inr ((n, case r of NetOk v \<Rightarrow> v | _ \<Rightarrow> None) # l))))"

fun local_sizes :: "int \<Rightarrow> fs \<Rightarrow> path list \<Rightarrow> (string \<times> int option) list lres" where
  "local_sizes dsz f [] = Inr []"
| "local_sizes dsz f (p # ps) =
     (case follow f p of
        None \<Rightarrow> os_error
      | Some n \<Rightarrow> lbind (local_sizes dsz f ps) (\<lambda>l. Inr ((pname p, Some (case n of FFile bs m \<Rightarrow> int (length bs) | _ \<Rightarrow> dsz)) # l)))"

definition local_archives :: "'w backup_env \<Rightarrow> job_row \<Rightarrow> fs \<Rightarrow> (string \<times> int option) list lres" where
  "local_archives be j f =
     (let d = from_text (se_cwd (be_site be)) (jb_dest_path j) in
      if jb_dest_path j = [] \<or> \<not> leads_to_dir f d then Inr []
      else case realpath f [] [] d of
             None \<Rightarrow> Inr []
           | Some q \<Rightarrow> local_sizes (be_dir_size be) f (filter (\<lambda>p. startswith (pname p) (prefix_for j)) (children f q)))"

definition list_archives :: "'w backup_env \<Rightarrow> job_row \<Rightarrow> ('w web, (string \<times> int option) list) lio" where
  "list_archives be j =
     lseq (if jb_dest_type j = ''ftp'' then
             lseq (ftp_login (be_ftp be) j) (\<lambda>_. lseq (perm_or (fp_nlst (be_ftp be))) (\<lambda>r.
               ftp_sizes (be_ftp be) (case r of None \<Rightarrow> [] | Some ns \<Rightarrow> filter (\<lambda>n. startswith n (prefix_for j)) ns)))
           else if jb_dest_type j = ''sftp'' then
             if \<not> sp_present (be_sftp be) then lret (Inl (AppError ''paramiko not installed''))
             else lseq (sftp_login (be_sftp be) j) (\<lambda>_. lseq (perm_or (sp_list (be_sftp be) (dest_dir j))) (\<lambda>r.
               lret (Inr (case r of None \<Rightarrow> [] | Some l \<Rightarrow> map (\<lambda>(n, z). (n, Some z)) (filter (\<lambda>(n, z). startswith n (prefix_for j)) l)))))
           else if jb_dest_type j = ''local'' then (\<lambda>s. (s, local_archives be j (web_fs s)))
           else lret (Inr []))
       (\<lambda>l. lret (Inr (newest_first l)))"

definition download_archive :: "'w backup_env \<Rightarrow> job_row \<Rightarrow> string \<Rightarrow> ('w web, nat list) lio" where
  "download_archive be j archive =
     (if CHR ''/'' \<in> set archive \<or> startswith archive ''.'' then lret (Inl (AppError ''invalid archive name''))
      else if jb_dest_type j = ''ftp'' then
        lseq (ftp_login (be_ftp be) j) (\<lambda>_. if archive = [] then lret os_error else net_call (fp_retr (be_ftp be) archive))
      else if jb_dest_type j = ''sftp'' then
        (if \<not> sp_present (be_sftp be) then lret (Inl (RuntimeError ''ModuleNotFoundError''))
         else lseq (sftp_login (be_sftp be) j) (\<lambda>_. if archive = [] then lret os_error else net_call (sp_get (be_sftp be) (sftp_file j archive))))
      else if jb_dest_type j = ''local'' then
        (\<lambda>s. (s, case follow (web_fs s) (from_text (se_cwd (be_site be)) (jb_dest_path j) @ components archive) of
                   Some (FFile bs m) \<Rightarrow> Inr bs | _ \<Rightarrow> Inl (AppError ''archive not found'')))
      else lret (Inl (AppError (''invalid dest_type: '' @ jb_dest_type j))))"

definition member_inside :: "fs \<Rightarrow> path \<Rightarrow> member \<Rightarrow> bool" where
  \<comment> \<open>\<open>dest_p == base or dest_p.startswith(base + os.sep)\<close>; below the root directory nothing passes\<close>
  "member_inside f target m =
     (case (realpath f [] [] target, realpath f [] [] (join_path target (member_name m))) of
        (Some base, Some p) \<Rightarrow> p = base \<or> startswith (path_str p) (path_str base @ ''/'')
      | _ \<Rightarrow> False)"

definition restore_tree :: "'w backup_env \<Rightarrow> string \<Rightarrow> nat list \<Rightarrow> (fs, unit) lio" where
  "restore_tree be target bs =
     (let e = be_site be; p = from_text (se_cwd e) target in
      if target = [] then lret os_error
      else lseq (mkdirs (se_modes e) p) (\<lambda>_ f.
        case be_unpack be bs of
          None \<Rightarrow> (f, Inl (RuntimeError ''bad archive''))
        | Some ms \<Rightarrow> if list_all (member_inside f p) ms then extract_all False (se_modes e) p ms f else (f, Inl (AppError ''unsafe path in archive''))))"

definition restore_into :: "'w backup_env \<Rightarrow> job_row \<Rightarrow> nat list \<Rightarrow> ('w web, string) lio" where
  \<comment> \<open>the answer: where it was restored to\<close>
  "restore_into be j bs s =
     (if jb_source_type j = ''site'' then
        (case get_site (jb_source_ref j) (fst s) of
           None \<Rightarrow> (s, Inl (AppError (''site not found: '' @ jb_source_ref j)))
         | Some site \<Rightarrow> lseq (on_fs (restore_tree be (st_webroot site) bs)) (\<lambda>_. lret (Inr (st_webroot site))) s)
      else if jb_source_type j = ''path'' then lseq (on_fs (restore_tree be (jb_source_ref j) bs)) (\<lambda>_. lret (Inr (jb_source_ref j))) s
      else if jb_source_type j = ''database'' then
        (if \<not> has (se_host (be_site be)) ''mysql'' then (s, Inl (AppError ''mysql client not installed''))
         else case be_gunzip be bs of
                None \<Rightarrow> (s, Inl (RuntimeError ''bad archive''))
              | Some sql \<Rightarrow>
                  lseq (on_world (\<lambda>w. let (w', p) = be_shell be [''mysql'', jb_source_ref j] sql w in
                      (w', case p of Ended c so se \<Rightarrow> if c \<noteq> 0 then Inl (AppError (''db restore failed: '' @ take 300 se)) else Inr ()
                                   | NotFound \<Rightarrow> Inl (RuntimeError ''FileNotFoundError'') | TooLong \<Rightarrow> Inl (RuntimeError ''TimeoutExpired''))))
                    (\<lambda>_. lret (Inr (jb_source_ref j))) s)
      else (s, Inl (AppError (''invalid source_type: '' @ jb_source_type j))))"

definition restore_job :: "'w backup_env \<Rightarrow> job_row \<Rightarrow> string \<Rightarrow> bool \<Rightarrow> ('w web, nat \<times> string option) lio" where
  \<comment> \<open>the size of the archive and, if it was applied, where to\<close>
  "restore_job be j archive apply =
     lseq (download_archive be j archive) (\<lambda>bs.
       if \<not> apply then lret (Inr (length bs, None))
       else lseq (restore_into be j bs) (\<lambda>target.
            lseq (on_db (laudit None ''backup.restore'' (job_source j @ '' <- '' @ archive))) (\<lambda>_. lret (Inr (length bs, Some target)))))"

section \<open>Jobs and the scheduler\<close>

definition add_job :: "int \<Rightarrow> job_row \<Rightarrow> (ldb \<times> 'x, job_row) lio" where
  \<comment> \<open>\<open>create_job\<close>: of the row given, the fields of the request are used\<close>
  "add_job now j s =
     (let r = j\<lparr>jb_id := job_seq (fst s) + 1, jb_enabled := True, jb_status := None, jb_created := now\<rparr> in
      lseq (on_db (\<lambda>d. d\<lparr>backup_jobs := backup_jobs d @ [r], job_seq := jb_id r\<rparr>)) (\<lambda>_.
      lseq (on_db (laudit None ''backup.create_job'' (jb_name r))) (\<lambda>_. lret (Inr r))) s)"

definition list_backup_jobs :: "ldb \<Rightarrow> job_row list" where
  "list_backup_jobs d = sort_key (\<lambda>j. - jb_created j) (backup_jobs d)"

definition find_job :: "int \<Rightarrow> ldb \<Rightarrow> job_row option" where
  "find_job jid d = select_one (\<lambda>j. jb_id j = jid) (backup_jobs d)"

definition remove_job :: "int \<Rightarrow> (ldb \<times> 'x, int) lio" where
  "remove_job jid =
     lseq (on_db (\<lambda>d. d\<lparr>backup_jobs := delete_where (\<lambda>j. jb_id j = jid) (backup_jobs d)\<rparr>)) (\<lambda>_.
     lseq (on_db (laudit None ''backup.delete_job'' (str_int jid))) (\<lambda>_. lret (Inr jid)))"

datatype task = RenewCertsDaily | RecordMetrics | PruneMetrics | CheckAlerts | BackupTask job_row

datatype trigger = AtTime nat nat | EverySeconds nat | Crontab string

type_synonym schedule = "(string, trigger \<times> task) dict"

definition task_id :: "job_row \<Rightarrow> string" where
  "task_id j = ''backup_'' @ str_int (jb_id j)"

definition reload_jobs :: "(string \<Rightarrow> bool) \<Rightarrow> ldb \<Rightarrow> schedule option \<Rightarrow> schedule option" where
  \<comment> \<open>\<open>reload_backup_jobs\<close>; \<open>valid\<close> says which expressions \<open>CronTrigger.from_crontab\<close> takes\<close>
  "reload_jobs valid d sc =
     map_option (fold (\<lambda>j l. if jb_enabled j \<and> valid (jb_cron j) then dput (task_id j) (Crontab (jb_cron j), BackupTask j) l else l) (list_backup_jobs d)) sc"

definition start_scheduler :: "bool \<Rightarrow> (string \<Rightarrow> bool) \<Rightarrow> ldb \<Rightarrow> schedule option" where
  \<comment> \<open>without APScheduler there is no schedule\<close>
  "start_scheduler present valid d =
     (if \<not> present then None
      else reload_jobs valid d (Some [(''ssl_renew'', AtTime 3 30, RenewCertsDaily), (''metrics_record'', EverySeconds 300, RecordMetrics),
             (''metrics_prune'', AtTime 4 0, PruneMetrics), (''alert_check'', EverySeconds 3600, CheckAlerts)]))"

definition run_renewal :: "('w \<times> fs) shell \<Rightarrow> site_env \<Rightarrow> 'w web \<Rightarrow> 'w web" where
  \<comment> \<open>\<open>_renew\<close>: whatever goes wrong is logged\<close>
  "run_renewal sh e s = (if acme_installed e (web_fs s) then state_of (renew_all sh e True s) else s)"

definition run_backup_task :: "'w backup_env \<Rightarrow> string \<Rightarrow> job_row \<Rightarrow> 'w web \<Rightarrow> 'w web" where
  \<comment> \<open>the task holds the row as it was when it was scheduled\<close>
  "run_backup_task be ts j s = state_of (run_job be ts j True s)"

definition on_schedule :: "(string \<Rightarrow> bool) \<Rightarrow> (ldb \<times> schedule option, unit) lio" where
  "on_schedule valid s = ((fst s, reload_jobs valid (fst s) (snd s)), Inr ())"

section \<open>Routes\<close>

definition without_password :: "job_row \<Rightarrow> job_row" where
  "without_password j = j\<lparr>jb_dest_password := None\<rparr>"

definition route_list_backups :: "caller lres \<Rightarrow> (ldb \<times> 'x, job_row list) lio" where
  "route_list_backups who = lseq (lret who) (\<lambda>_ s. (s, Inr (map without_password (list_backup_jobs (fst s)))))"

definition route_create_backup :: "(string \<Rightarrow> bool) \<Rightarrow> int \<Rightarrow> caller lres \<Rightarrow> job_row \<Rightarrow> (ldb \<times> schedule option, job_row) lio" where
  "route_create_backup valid now who j =
     as_manager who (lseq (add_job now j) (\<lambda>r. lseq (on_schedule valid) (\<lambda>_. lret (Inr (without_password r)))))"

definition with_job :: "int \<Rightarrow> (job_row \<Rightarrow> (ldb \<times> 'x, 'v) lio) \<Rightarrow> (ldb \<times> 'x, 'v) lio" where
  "with_job jid k s = (case find_job jid (fst s) of None \<Rightarrow> (s, Inl (LHttp 404 ''job not found'')) | Some j \<Rightarrow> app_http 400 (k j) s)"

definition route_run_backup :: "'w backup_env \<Rightarrow> string \<Rightarrow> caller lres \<Rightarrow> int \<Rightarrow> bool \<Rightarrow> ('w web, string \<times> nat \<times> bool) lio" where
  "route_run_backup be ts who jid dry = as_manager who (with_job jid (\<lambda>j. run_job be ts j (\<not> dry)))"

definition route_backup_archives :: "'w backup_env \<Rightarrow> caller lres \<Rightarrow> int \<Rightarrow> ('w web, (string \<times> int option) list) lio" where
  "route_backup_archives be who jid = lseq (lret who) (\<lambda>_. with_job jid (list_archives be))"

definition route_restore_backup :: "'w backup_env \<Rightarrow> caller lres \<Rightarrow> int \<Rightarrow> string \<Rightarrow> bool \<Rightarrow> ('w web, nat \<times> string option) lio" where
  "route_restore_backup be who jid archive dry = as_manager who (with_job jid (\<lambda>j. restore_job be j archive (\<not> dry)))"

definition route_delete_backup :: "(string \<Rightarrow> bool) \<Rightarrow> caller lres \<Rightarrow> int \<Rightarrow> (ldb \<times> schedule option, int) lio" where
  "route_delete_backup valid who jid = as_manager who (lseq (remove_job jid) (\<lambda>r. lseq (on_schedule valid) (\<lambda>_. lret (Inr r))))"

section \<open>The newest archives stay\<close>

definition obedient :: "'w ftp_server \<Rightarrow> ('w \<Rightarrow> string list) \<Rightarrow> bool" where
  \<comment> \<open>a server whose listing tells its names and that deletes what it is asked to\<close>
  "obedient fp names =
     (\<forall>w. fp_nlst fp w = (w, NetOk (names w)) \<and> (\<forall>n. \<exists>w'. fp_delete fp n w = (w', NetOk ()) \<and> names w' = filter (\<lambda>m. m \<noteq> n) (names w)))"

lemma perm_or_ok: "f w = (w', NetOk v) \<Longrightarrow> perm_or f (d, w, fl) = ((d, w', fl), Inr (Some v))"
  by (simp add: perm_or_def lseq_def on_net_def lret_def)

lemma delete_each_obedient:
  assumes "obedient fp names"
  shows "\<exists>w'. delete_each_name (fp_delete fp) ns (d, w, f) = ((d, w', f), Inr ()) \<and> names w' = filter (\<lambda>m. m \<notin> set ns) (names w)"
proof (induction ns arbitrary: w)
  case (Cons n ns)
  obtain w1 where w1: "fp_delete fp n w = (w1, NetOk ())" "names w1 = filter (\<lambda>m. m \<noteq> n) (names w)"
    using assms by (auto simp: obedient_def)
  obtain w' where w': "delete_each_name (fp_delete fp) ns (d, w1, f) = ((d, w', f), Inr ())" "names w' = filter (\<lambda>m. m \<notin> set ns) (names w1)"
    using Cons.IH by blast
  have "perm_or (fp_delete fp n) (d, w, f) = ((d, w1, f), Inr (Some ()))" by (rule perm_or_ok) (rule w1(1))
  with w' w1(2) show ?case by (auto simp: lseq_def intro: filter_cong)
qed (simp add: lret_def)

lemma victims_split:
  assumes "0 < keep" and own: "own = sort (filter (\<lambda>n. startswith n prefix) ns)"
  shows "\<exists>new. own = victims keep prefix ns @ new \<and> length new = min (nat keep) (length own)"
proof (cases "int (length own) > keep")
  case True
  then have "victims keep prefix ns = take (length own - nat keep) own" using assms by (simp add: victims_def Let_def)
  with True assms(1) show ?thesis by (intro exI [of _ "drop (length own - nat keep) own"]) auto
next
  case False
  then have "victims keep prefix ns = []" using assms by (simp add: victims_def Let_def)
  with False show ?thesis by (intro exI [of _ own]) auto
qed


section \<open>The status tells how the run ended\<close>

lemma db_on_net: "holds_over P (on_net f)"
  by (rule keeps_same) (simp add: on_net_def split: prod.split)

lemma db_net: "holds_over P (net_call f)" "holds_over P (perm_or f)"
  unfolding net_call_def perm_or_def by (intro keeps_rules db_on_net)+

lemma keeps_option: "holds_over P m \<Longrightarrow> (\<And>x. holds_over P (n x)) \<Longrightarrow> holds_over P (case v of None \<Rightarrow> m | Some x \<Rightarrow> n x)"
  by (cases v) simp_all

lemma db_ftp_chdir: "holds_over P (ftp_chdir fp ps)"
  by (induction ps) (simp_all add: keeps_lret keeps_lseq keeps_option db_net)

lemma db_sftp_makedirs: "holds_over P (sftp_makedirs sp cur ps)"
  by (induction ps arbitrary: cur) (simp_all add: keeps_lret keeps_lseq keeps_option db_net Let_def)

lemma db_delete_each: "holds_over P (delete_each_name del ns)"
  by (induction ns) (simp_all add: keeps_lret keeps_lseq db_net)

lemma db_send_archive: "holds_over P (send_archive be j nb)"
  unfolding send_archive_def upload_ftp_def upload_sftp_def ftp_login_def sftp_login_def ftp_retention_def sftp_retention_def
  by (intro keeps_rules keeps_option db_net db_ftp_chdir db_sftp_makedirs db_delete_each)

lemma db_archive_source: "holds_over P (archive_source be ts stype ref)"
proof -
  have "holds_over P (packed be n q a)" for n q a by (rule keepsI) (auto simp: packed_def split: option.split)
  then have "holds_over P (site_source be ts ref)" "holds_over P (path_source be ts ref)"
    by (auto simp: holds_over_def site_source_def path_source_def Let_def split: option.split)
  moreover have "holds_over P (base_source be ts ref)" unfolding base_source_def by (intro keeps_rules)
  ultimately show ?thesis unfolding archive_source_def by (intro keeps_rules)
qed

lemma find_status:
  "jid \<noteq> 0 \<Longrightarrow> find_job jid (set_status jid st d) = map_option (\<lambda>r. r\<lparr>jb_status := Some (take 200 st)\<rparr>) (find_job jid d)"
  using select_update [of "\<lambda>r. jb_id r = jid" "\<lambda>r. r\<lparr>jb_status := Some (take 200 st)\<rparr>" "backup_jobs d"] by (simp add: find_job_def set_status_def)

lemma find_job_log [simp]: "find_job jid (laudit un a t d) = find_job jid d"
  by (simp add: find_job_def laudit_def)


section \<open>What the scheduler holds\<close>

lemma task_id_inj: "task_id a = task_id b \<Longrightarrow> jb_id a = jb_id b"
  by (simp add: task_id_def str_int_inj)

definition jobs_ok :: "ldb \<Rightarrow> bool" where
  "jobs_ok d = (distinct (map jb_id (backup_jobs d)) \<and> (\<forall>j \<in> set (backup_jobs d). jb_id j \<le> job_seq d))"

lemma reload_has:
  assumes "distinct (map jb_id js)" "j \<in> set js" "jb_enabled j \<and> valid (jb_cron j)"
  shows "dget (fold (\<lambda>j l. if jb_enabled j \<and> valid (jb_cron j) then dput (task_id j) (Crontab (jb_cron j), BackupTask j) l else l) js l) (task_id j)
     = Some (Crontab (jb_cron j), BackupTask j)"
  using assms
proof (induction js rule: rev_induct)
  case (snoc x js)
  have "j = x \<or> j \<in> set js \<and> task_id j \<noteq> task_id x" using snoc.prems task_id_inj [of j x] by (auto simp: image_iff)
  with snoc show ?case by (auto simp: dget_dput)
qed simp

lemma reload_other:
  "(\<And>j. j \<in> set js \<Longrightarrow> task_id j \<noteq> k) \<Longrightarrow>
   dget (fold (\<lambda>j l. if jb_enabled j \<and> valid (jb_cron j) then dput (task_id j) (Crontab (jb_cron j), BackupTask j) l else l) js l) k = dget l k"
  by (induction js arbitrary: l) (auto simp: dget_dput)

text \<open>
  A new backup job is scheduled at once, and deleting it does not stop it: when a manager creates a job with an expression the scheduler takes, the schedule holds it under its own
  new id with that expression; when it is then deleted, its row is gone, but the schedule still holds the task, which will run with the row as it was.
\<close>

theorem deleted_job_keeps_running:
  assumes ok: "jobs_ok d" and who: "\<exists>c. require_role ''manager'' who = Inr c" and cron: "valid (jb_cron j)"
    and create: "route_create_backup valid now who j (d, Some sc) = ((d1, s1), Inr a)"
    and del: "route_delete_backup valid who (jb_id a) (d1, s1) = ((d2, s2), r)"
  shows "\<exists>sc1 sc2 row. s1 = Some sc1 \<and> find_job (jb_id a) d1 = Some row \<and> row\<lparr>jb_dest_password := None\<rparr> = a \<and> jb_cron row = jb_cron j
     \<and> dget sc1 (task_id row) = Some (Crontab (jb_cron j), BackupTask row)
     \<and> find_job (jb_id a) d2 = None \<and> s2 = Some sc2 \<and> dget sc2 (task_id row) = Some (Crontab (jb_cron j), BackupTask row)"
proof -
  obtain c where c: "require_role ''manager'' who = Inr c" using who by blast
  let ?row = "j\<lparr>jb_id := job_seq d + 1, jb_enabled := True, jb_status := None, jb_created := now\<rparr>"
  let ?step = "\<lambda>j l. if jb_enabled j \<and> valid (jb_cron j) then dput (task_id j) (Crontab (jb_cron j), BackupTask j) l else l"
  have cr: "d1 = laudit None ''backup.create_job'' (jb_name j) (d\<lparr>backup_jobs := backup_jobs d @ [?row], job_seq := job_seq d + 1\<rparr>)"
      "s1 = Some (fold ?step (list_backup_jobs d1) sc)" "a = without_password ?row"
    using create c by (auto simp: route_create_backup_def as_manager_def add_job_def lseq_def lret_def on_db_def on_schedule_def reload_jobs_def Let_def)
  have ids: "distinct (map jb_id (backup_jobs d1))" using ok by (fastforce simp: cr(1) laudit_def jobs_ok_def)
  have ida: "jb_id a = job_seq d + 1" by (simp add: cr(3) without_password_def)
  have fresh: "\<forall>x \<in> set (backup_jobs d). jb_id x \<noteq> job_seq d + 1" using ok by (fastforce simp: jobs_ok_def)
  have f1: "find_job (jb_id a) d1 = Some ?row"
    using fresh by (auto simp: find_job_def cr(1) laudit_def ida select_one_def filter_empty_conv split: list.splits)
  have "distinct (map jb_id (list_backup_jobs d1))"
    using ids by (simp add: list_backup_jobs_def distinct_map)
  moreover have "?row \<in> set (list_backup_jobs d1)" by (simp add: list_backup_jobs_def cr(1) laudit_def)
  ultimately have g1: "dget (fold ?step (list_backup_jobs d1) sc) (task_id ?row) = Some (Crontab (jb_cron j), BackupTask ?row)"
    using reload_has [of "list_backup_jobs d1" ?row valid sc] cron by simp
  have d2: "backup_jobs d2 = delete_where (\<lambda>x. jb_id x = jb_id a) (backup_jobs d1)" "s2 = Some (fold ?step (list_backup_jobs d2) (the s1))"
    using del c by (auto simp: route_delete_backup_def as_manager_def remove_job_def lseq_def lret_def on_db_def on_schedule_def reload_jobs_def laudit_def cr(2))
  have "task_id x \<noteq> task_id ?row" if "x \<in> set (list_backup_jobs d2)" for x
    using that task_id_inj [of x ?row] by (auto simp: list_backup_jobs_def d2(1) ida)
  then have "dget (fold ?step (list_backup_jobs d2) (the s1)) (task_id ?row) = dget (the s1) (task_id ?row)" by (rule reload_other)
  moreover have "find_job (jb_id a) d2 = None" by (simp add: find_job_def d2(1) select_one_None)
  ultimately show ?thesis using f1 g1 cr(2,3) d2(2) by (intro exI [of _ "fold ?step (list_backup_jobs d1) sc"] exI [of _ "fold ?step (list_backup_jobs d2) (the s1)"] exI [of _ ?row]) (simp add: without_password_def)
qed

section \<open>Closed examples\<close>

type_synonym shelf = "(string, nat list) dict"

definition shelf_ftp :: "shelf ftp_server" where
  \<comment> \<open>a server that keeps files under their names\<close>
  "shelf_ftp =
     \<lparr>fp_open = \<lambda>h p u pw w. (w, NetOk ()), fp_cwd = \<lambda>p w. (w, NetOk ()), fp_mkd = \<lambda>p w. (w, NetOk ()), fp_stor = \<lambda>n bs w. (dput n bs w, NetOk ()),
      fp_nlst = \<lambda>w. (w, NetOk (map fst w)), fp_size = \<lambda>n w. (w, NetOk (map_option (int \<circ> length) (dget w n))),
      fp_delete = \<lambda>n w. (filter (\<lambda>kv. fst kv \<noteq> n) w, NetOk ()),
      fp_retr = \<lambda>n w. (w, case dget w n of None \<Rightarrow> NetPerm ''550'' | Some bs \<Rightarrow> NetOk bs)\<rparr>"

definition absent_sftp :: "'w sftp_server" where
  "absent_sftp =
     \<lparr>sp_present = False, sp_open = \<lambda>h p u pw w. (w, NetFail []), sp_stat = \<lambda>p w. (w, NetFail []), sp_mkdir = \<lambda>p w. (w, NetFail []), sp_put = \<lambda>p bs w. (w, NetFail []),
      sp_list = \<lambda>p w. (w, NetFail []), sp_remove = \<lambda>p w. (w, NetFail []), sp_get = \<lambda>p w. (w, NetFail [])\<rparr>"

definition demo_backup_env :: "member list option \<Rightarrow> shelf backup_env" where
  "demo_backup_env ms =
     \<lparr>be_site = demo_site_env, be_shell = \<lambda>args inp w. (w, NotFound), be_ftp = shelf_ftp, be_sftp = absent_sftp, be_pack = \<lambda>ms. [1], be_unpack = \<lambda>bs. ms,
      be_gzip = \<lambda>bs. bs, be_gunzip = \<lambda>bs. None, be_dir_size = 4096, be_exc_text = \<lambda>x. ''error''\<rparr>"

definition demo_backup :: job_row where
  "demo_backup = \<lparr>jb_id = 3, jb_name = ''n'', jb_source_type = ''path'', jb_source_ref = ''/home'', jb_dest_type = ''ftp'', jb_dest_host = None, jb_dest_port = None, jb_dest_user = None,
     jb_dest_password = None, jb_dest_path = ''/'', jb_cron = ''0 3 * * *'', jb_retention = 1, jb_enabled = True, jb_status = None, jb_created = 0\<rparr>"

lemma shelf_obedient: "obedient shelf_ftp (map fst)"
  by (auto simp: obedient_def shelf_ftp_def filter_map comp_def)



theorem deleted_job_keeps_running_witness:
  "\<exists>d1 s1 d2 s2 a r sc row. route_create_backup (\<lambda>t. True) 0 (Inr \<lparr>ca_username = JStr ''m'', ca_role = JStr ''manager''\<rparr>) demo_backup (demo_ldb, Some []) = ((d1, s1), Inr a)
     \<and> route_delete_backup (\<lambda>t. True) (Inr \<lparr>ca_username = JStr ''m'', ca_role = JStr ''manager''\<rparr>) (jb_id a) (d1, s1) = ((d2, s2), r)
     \<and> find_job (jb_id a) d2 = None \<and> s2 = Some sc \<and> dget sc (task_id row) = Some (Crontab ''0 3 * * *'', BackupTask row)"
proof -
  let ?who = "Inr \<lparr>ca_username = JStr ''m'', ca_role = JStr ''manager''\<rparr> :: caller lres"
  have who: "require_role ''manager'' ?who = Inr \<lparr>ca_username = JStr ''m'', ca_role = JStr ''manager''\<rparr>" by code_simp
  have ok: "jobs_ok demo_ldb" by (simp add: jobs_ok_def demo_ldb_def)
  have "\<exists>t a. route_create_backup (\<lambda>t. True) 0 ?who demo_backup (demo_ldb, Some []) = (t, Inr a)"
    by (simp add: route_create_backup_def as_manager_def who add_job_def lseq_def lret_def on_db_def on_schedule_def Let_def)
  then obtain d1 s1 a where c: "route_create_backup (\<lambda>t. True) 0 ?who demo_backup (demo_ldb, Some []) = ((d1, s1), Inr a)" by (metis prod.collapse)
  obtain d2 s2 r where d: "route_delete_backup (\<lambda>t. True) ?who (jb_id a) (d1, s1) = ((d2, s2), r)" by (metis prod.collapse)
  from deleted_job_keeps_running [OF ok exI [of _ "\<lparr>ca_username = JStr ''m'', ca_role = JStr ''manager''\<rparr>"] _ c d] who c d show ?thesis
    by (auto simp: demo_backup_def)
qed

text \<open>
  The archive of a site holds its files below a directory named after the domain, and it is unpacked in the site's root: what was lost comes back one level too deep.
\<close>

lemma restore_one_level_down:
  "tree_members [([''w''], FDir 493), ([''w'', ''index.html''], FFile [7] 420)] [''w''] ''ex.ir'' = [MDir ''ex.ir'', MFile ''ex.ir/index.html'' [7]]"
  "state_of (restore_tree (demo_backup_env (Some [MDir ''ex.ir'', MFile ''ex.ir/index.html'' [7]])) ''/w'' [1] [([''w''], FDir 493)])
     = [([''w''], FDir 493), ([''w'', ''ex.ir''], FDir 493), ([''w'', ''ex.ir'', ''index.html''], FFile [7] 420)]"
  by code_simp+

text \<open>The prefix of one job may begin the archives of another, which its thinning out then deletes.\<close>

lemma prefixes_overlap:
  "victims 1 (prefix_for (demo_backup\<lparr>jb_source_type := ''database'', jb_source_ref := ''shop''\<rparr>)) [''db-shop-2'', ''db-shop-old-1''] = [''db-shop-2'']"
  by code_simp

end
