(* ===== verification/Notices.thy ===== *)
theory Notices
  imports Hostfs
begin

text \<open>
  Notifications of the first panel (\<open>legacy/v1/backend/app/services/notify.py\<close>, \<open>api/notifications.py\<close>): the channels, the hourly checks, and the log that keeps the same warning from
  being sent again within twenty hours. What goes over the network, and what the checks find, are parameters. Times are seconds.
\<close>

section \<open>Channels\<close>

datatype tg_reply = TgOk | TgRefused string | TgFailed string

record mail_out =
  mo_host :: string
  mo_port :: int
  mo_ssl :: bool
  mo_starttls :: bool
  mo_login :: "(string \<times> string) option"
  mo_from :: string
  mo_to :: string
  mo_subject :: string
  mo_body :: string

record 'w notice_env =
  ne_post :: "string \<Rightarrow> (string \<times> string) list \<Rightarrow> 'w \<Rightarrow> 'w \<times> tg_reply"
  ne_smtp :: "mail_out \<Rightarrow> 'w \<Rightarrow> 'w \<times> string option" \<comment> \<open>the exception, if any\<close>

definition given :: "string option \<Rightarrow> bool" where
  \<comment> \<open>a text that counts as true\<close>
  "given v = (case v of None \<Rightarrow> False | Some s \<Rightarrow> s \<noteq> [])"

definition or_else :: "string option \<Rightarrow> string option \<Rightarrow> string option" where
  "or_else v u = (if given v then v else u)"

definition send_telegram :: "'w notice_env \<Rightarrow> string \<Rightarrow> (ldb \<times> 'w, unit) lio" where
  "send_telegram ne msg s =
     (case (set_get ''notify.telegram_token'' None (fst s), set_get ''notify.telegram_chat_id'' None (fst s)) of
        (Some tok, Some chat) \<Rightarrow>
          if tok = [] \<or> chat = [] then (s, Inl (AppError ''telegram not configured''))
          else
            let (w, r) = ne_post ne (''https://api.telegram.org/bot'' @ tok @ ''/sendMessage'')
                  [(''chat_id'', chat), (''text'', msg), (''parse_mode'', ''HTML''), (''disable_web_page_preview'', ''true'')] (snd s)
            in ((fst s, w), case r of TgOk \<Rightarrow> Inr () | TgRefused t \<Rightarrow> Inl (AppError (''telegram error: '' @ t)) | TgFailed t \<Rightarrow> Inl (AppError (''telegram send failed: '' @ t)))
      | _ \<Rightarrow> (s, Inl (AppError ''telegram not configured'')))"

definition header_breaks :: "string \<Rightarrow> bool" where
  \<comment> \<open>a header value of several lines is refused with a \<open>ValueError\<close>\<close>
  "header_breaks v = (1 < length (splitlines v))"

definition email_request :: "string \<Rightarrow> string \<Rightarrow> ldb \<Rightarrow> mail_out lres" where
  "email_request subject body d =
     (let get = (\<lambda>k. set_get k None d); user = get ''notify.smtp_user''; password = get ''notify.smtp_password'' in
      case (get ''notify.smtp_host'', or_else (get ''notify.smtp_from'') user, get ''notify.email_to'') of
        (Some host, Some sender, Some to) \<Rightarrow>
          if host = [] \<or> to = [] \<or> sender = [] then Inl (AppError ''SMTP not configured'')
          else if header_breaks subject \<or> header_breaks sender \<or> header_breaks to then Inl (Other (ValueError ''Header values may not contain linefeed or carriage return characters''))
          else
            let port = set_get_int ''notify.smtp_port'' 587 d in
            Inr \<lparr>mo_host = host, mo_port = port, mo_ssl = (port = 465), mo_starttls = (port \<noteq> 465 \<and> set_get_bool ''notify.smtp_tls'' True d),
                 mo_login = (if given user \<and> given password then Some (the user, the password) else None), mo_from = sender, mo_to = to, mo_subject = subject, mo_body = body\<rparr>
      | _ \<Rightarrow> Inl (AppError ''SMTP not configured''))"

definition send_email :: "'w notice_env \<Rightarrow> string \<Rightarrow> string \<Rightarrow> (ldb \<times> 'w, unit) lio" where
  "send_email ne subject body s =
     lseq (lret (email_request subject body (fst s))) (\<lambda>m. on_world (\<lambda>w. let (w', r) = ne_smtp ne m w in
       (w', case r of None \<Rightarrow> Inr () | Some t \<Rightarrow> Inl (AppError (''email send failed: '' @ t))))) s"

record channel_result =
  ch_name :: string
  ch_sent :: bool
  ch_error :: "string option"

definition on_channel :: "string \<Rightarrow> (ldb \<times> 'w, unit) lio \<Rightarrow> (ldb \<times> 'w, channel_result) lio" where
  \<comment> \<open>\<open>except NotifyError\<close>\<close>
  "on_channel name m s =
     (case m s of
        (s', Inr _) \<Rightarrow> (s', Inr \<lparr>ch_name = name, ch_sent = True, ch_error = None\<rparr>)
      | (s', Inl (AppError t)) \<Rightarrow> (s', Inr \<lparr>ch_name = name, ch_sent = False, ch_error = Some t\<rparr>)
      | (s', Inl x) \<Rightarrow> (s', Inl x))"

definition when_set :: "string \<Rightarrow> (ldb \<times> 'w, channel_result) lio \<Rightarrow> (ldb \<times> 'w, channel_result list) lio" where
  "when_set key m s = (if set_get_bool key False (fst s) then lseq m (\<lambda>c. lret (Inr [c])) s else (s, Inr []))"

definition notify_all :: "'w notice_env \<Rightarrow> string \<Rightarrow> string \<Rightarrow> (ldb \<times> 'w, channel_result list) lio" where
  \<comment> \<open>\<open>notify\<close>\<close>
  "notify_all ne subject body =
     lseq (when_set ''notify.telegram_enabled'' (on_channel ''telegram'' (send_telegram ne (''<b>'' @ subject @ ''</b>'' @ [NL] @ body)))) (\<lambda>a.
     lseq (when_set ''notify.email_enabled'' (on_channel ''email'' (send_email ne subject body))) (\<lambda>b. lret (Inr (a @ b))))"

definition test_notice :: "'w notice_env \<Rightarrow> (ldb \<times> 'w, channel_result list) lio" where
  "test_notice ne = notify_all ne ''ICSD Panel - test message'' ''This is a test message from the ICSD panel.''"

section \<open>Warnings, once in twenty hours\<close>

definition QUIET_SECONDS :: int where
  "QUIET_SECONDS = 20 * 3600"

definition already_alerted :: "int \<Rightarrow> string \<Rightarrow> string \<Rightarrow> ldb \<Rightarrow> bool" where
  "already_alerted now kind subject d =
     list_ex (\<lambda>r. wr_kind r = kind \<and> wr_subject r = subject \<and> wr_sent r \<and> now - QUIET_SECONDS < wr_at r) (warnings d)"

definition record_alert :: "int \<Rightarrow> string \<Rightarrow> string \<Rightarrow> string \<Rightarrow> bool \<Rightarrow> ldb \<Rightarrow> ldb" where
  "record_alert now kind subject msg ok d =
     d\<lparr>warnings := warnings d @ [\<lparr>wr_kind = kind, wr_subject = subject, wr_message = msg, wr_sent = ok, wr_at = now\<rparr>]\<rparr>"

datatype fired = Skipped string string | Fired string string bool "channel_result list"

definition emit_alert :: "'w notice_env \<Rightarrow> int \<Rightarrow> string \<Rightarrow> string \<Rightarrow> string \<Rightarrow> (ldb \<times> 'w, fired) lio" where
  "emit_alert ne now kind subject msg s =
     (if already_alerted now kind subject (fst s) then (s, Inr (Skipped kind subject))
      else lseq (notify_all ne (''Warning ICSD: '' @ subject) msg) (\<lambda>cs.
           let ok = list_ex ch_sent cs in
           lseq (on_db (record_alert now kind subject msg ok)) (\<lambda>_. lret (Inr (Fired kind subject ok cs)))) s)"

fun emit_each :: "'w notice_env \<Rightarrow> int \<Rightarrow> (string \<times> string \<times> string) list \<Rightarrow> ldb \<times> 'w \<Rightarrow> (ldb \<times> 'w) \<times> fired list" where
  \<comment> \<open>an exception ends the round, but not the report\<close>
  "emit_each ne now [] s = (s, [])"
| "emit_each ne now ((kind, subject, msg) # rest) s =
     (case emit_alert ne now kind subject msg s of
        (s', Inl x) \<Rightarrow> (s', [])
      | (s', Inr f) \<Rightarrow> (let (s2, fs) = emit_each ne now rest s' in (s2, f # fs)))"

section \<open>Checks\<close>

record seen_cert =
  sc_days :: "int option"
  sc_name :: "string option"
  sc_path :: "string option"

record seen_disk =
  sd_percent :: rat
  sd_mount :: string

record seen_site =
  ss_ok :: bool
  ss_target :: string
  ss_error :: "string option"
  ss_status :: "int option"

record 'w checks =
  ck_certs :: "'w \<Rightarrow> 'w \<times> seen_cert list lres"
  ck_disks :: "'w \<Rightarrow> 'w \<times> seen_disk list lres"
  ck_sites :: "'w \<Rightarrow> 'w \<times> seen_site list lres"
  ck_number :: "rat \<Rightarrow> string" \<comment> \<open>a float as text\<close>

definition cert_warnings :: "int \<Rightarrow> seen_cert list \<Rightarrow> (string \<times> string \<times> string) list" where
  "cert_warnings limit cs =
     concat (map (\<lambda>c. case sc_days c of
         None \<Rightarrow> []
       | Some days \<Rightarrow>
           if days \<le> limit then
             let cn = (case sc_name c of Some n \<Rightarrow> if n \<noteq> [] then n else (case sc_path c of None \<Rightarrow> ''?'' | Some p \<Rightarrow> p)
                                       | None \<Rightarrow> (case sc_path c of None \<Rightarrow> ''?'' | Some p \<Rightarrow> p)) in
             [(''ssl'', cn, ''certificate <code>'' @ cn @ ''</code> expires in '' @ str_int days @ '' days'')]
           else []) cs)"

definition disk_warnings :: "(rat \<Rightarrow> string) \<Rightarrow> int \<Rightarrow> seen_disk list \<Rightarrow> (string \<times> string \<times> string) list" where
  "disk_warnings nt limit ds =
     map (\<lambda>x. (''disk'', sd_mount x, ''disk <code>'' @ sd_mount x @ ''</code> at '' @ nt (sd_percent x) @ ''% (limit '' @ str_int limit @ ''%)''))
       (filter (\<lambda>x. of_int limit \<le> sd_percent x) ds)"

definition site_warnings :: "seen_site list \<Rightarrow> (string \<times> string \<times> string) list" where
  "site_warnings ss =
     map (\<lambda>x. (''site_down'', ss_target x, ''site <code>'' @ ss_target x @ ''</code> does not answer ('' @
            (if given (ss_error x) then the (ss_error x) else ''HTTP '' @ (case ss_status x of None \<Rightarrow> ''None'' | Some i \<Rightarrow> str_int i)) @ '')''))
       (filter (\<lambda>x. \<not> ss_ok x) ss)"

definition check_round :: "'w notice_env \<Rightarrow> int \<Rightarrow> ('w \<Rightarrow> 'w \<times> 'v lres) \<Rightarrow> ('v \<Rightarrow> (string \<times> string \<times> string) list) \<Rightarrow> ldb \<times> 'w \<Rightarrow> (ldb \<times> 'w) \<times> fired list" where
  "check_round ne now scan warn s =
     (case on_world scan s of (s', Inl x) \<Rightarrow> (s', []) | (s', Inr v) \<Rightarrow> emit_each ne now (warn v) s')"

definition was_sent :: "fired \<Rightarrow> bool" where
  "was_sent f = (case f of Skipped k s \<Rightarrow> False | Fired k s b cs \<Rightarrow> b)"

definition check_alerts :: "'w notice_env \<Rightarrow> 'w checks \<Rightarrow> int \<Rightarrow> ldb \<times> 'w \<Rightarrow> (ldb \<times> 'w) \<times> fired list \<times> nat" where
  "check_alerts ne ck now s =
     (let (s1, a) = check_round ne now (ck_certs ck) (cert_warnings (set_get_int ''notify.ssl_days'' 14 (fst s))) s;
          limit = set_get_int ''notify.disk_percent'' 90 (fst s1);
          (s2, b) = check_round ne now (ck_disks ck) (disk_warnings (ck_number ck) limit) s1;
          (s3, c) = check_round ne now (ck_sites ck) site_warnings s2;
          fs = a @ b @ c
      in (s3, fs, length (filter was_sent fs)))"

section \<open>Routes\<close>

definition CONFIG_FIELDS :: "string list" where
  "CONFIG_FIELDS = [''telegram_enabled'', ''telegram_chat_id'', ''email_enabled'', ''smtp_host'', ''smtp_port'', ''smtp_user'', ''smtp_from'', ''email_to'', ''smtp_tls'', ''ssl_days'',
     ''disk_percent'']"

definition notice_config :: "ldb \<Rightarrow> (string \<times> string option) list \<times> bool \<times> bool" where
  \<comment> \<open>the fields, and whether the two secrets are set\<close>
  "notice_config d =
     (map (\<lambda>k. (k, set_get (''notify.'' @ k) None d)) CONFIG_FIELDS, given (set_get ''notify.telegram_token'' None d), given (set_get ''notify.smtp_password'' None d))"

definition route_get_notices :: "caller lres \<Rightarrow> (ldb \<times> 'w, (string \<times> string option) list \<times> bool \<times> bool) lio" where
  "route_get_notices who = lseq (lret who) (\<lambda>_ s. (s, Inr (notice_config (fst s))))"

definition config_items :: "(string, json) dict \<Rightarrow> (string, json) dict" where
  \<comment> \<open>what is stored of the fields that were sent; an empty secret keeps the one that is there\<close>
  "config_items body =
     map (\<lambda>(k, v). (''notify.'' @ k, v)) (filter (\<lambda>(k, v). v \<noteq> JNull \<and> \<not> (k \<in> {''telegram_token'', ''smtp_password''} \<and> v = JStr [])) body)"

definition route_save_notices :: "(json \<Rightarrow> string) \<Rightarrow> (json \<Rightarrow> string) \<Rightarrow> caller lres \<Rightarrow> (string, json) dict \<Rightarrow> (ldb \<times> 'w, string list) lio" where
  "route_save_notices jd rp who body =
     as_manager who (lseq (on_db (set_many jd rp (config_items body))) (\<lambda>_. lret (Inr (map fst (config_items body)))))"

definition route_test_notice :: "'w notice_env \<Rightarrow> caller lres \<Rightarrow> (ldb \<times> 'w, channel_result list) lio" where
  "route_test_notice ne who = as_manager who (app_http 400 (test_notice ne))"

definition route_check_alerts :: "'w notice_env \<Rightarrow> 'w checks \<Rightarrow> int \<Rightarrow> caller lres \<Rightarrow> (ldb \<times> 'w, fired list \<times> nat) lio" where
  "route_check_alerts ne ck now who = as_manager who (\<lambda>s. let (s', v) = check_alerts ne ck now s in (s', Inr v))"

section \<open>No warning is repeated within twenty hours\<close>

definition spaced :: "warning_row list \<Rightarrow> bool" where
  "spaced ws =
     sorted_wrt (\<lambda>a b. wr_sent a \<and> wr_sent b \<and> wr_kind a = wr_kind b \<and> wr_subject a = wr_subject b \<longrightarrow> wr_at a + QUIET_SECONDS \<le> wr_at b) ws"

definition warned_by :: "int \<Rightarrow> ldb \<Rightarrow> bool" where
  \<comment> \<open>the log so far, at that time\<close>
  "warned_by now d = (spaced (warnings d) \<and> (\<forall>r \<in> set (warnings d). wr_at r \<le> now))"

lemma send_keeps_db: "fst (fst (send_telegram ne msg s)) = fst s" "fst (fst (send_email ne subject body s)) = fst s"
proof -
  show "fst (fst (send_telegram ne msg s)) = fst s" by (auto simp: send_telegram_def Let_def case_prod_unfold split: option.split)
  show "fst (fst (send_email ne subject body s)) = fst s"
    by (cases "email_request subject body (fst s)") (simp_all add: send_email_def on_world_def Let_def case_prod_unfold)
qed

lemma on_channel_db:
  assumes "\<And>s. fst (fst (m s)) = fst s"
  shows "fst (fst (on_channel n m s)) = fst s"
  using assms [of s] by (auto simp: on_channel_def split: prod.split sum.split lexc.split)

lemma when_set_db:
  assumes "\<And>s. fst (fst (m s)) = fst s"
  shows "holds_over P (when_set k m)"
proof (rule keeps_same)
  fix s
  show "fst (fst (when_set k m s)) = fst s" using assms [of s] by (auto simp: when_set_def lseq_def lret_def split: prod.split sum.split)
qed

lemma notify_keeps: "holds_over P (notify_all ne subject body)"
  unfolding notify_all_def by (intro keeps_rules when_set_db on_channel_db send_keeps_db)

lemma spaced_snoc:
  "spaced (ws @ [r]) \<longleftrightarrow> spaced ws \<and> (\<forall>a \<in> set ws. wr_sent a \<and> wr_sent r \<and> wr_kind a = wr_kind r \<and> wr_subject a = wr_subject r \<longrightarrow> wr_at a + QUIET_SECONDS \<le> wr_at r)"
  by (auto simp: spaced_def sorted_wrt_append)

lemma emit_spaced:
  assumes "warned_by now (fst s)"
  shows "warned_by now (fst (fst (emit_alert ne now kind subject msg s)))"
proof (cases "already_alerted now kind subject (fst s)")
  case False
  have new: "warned_by now (record_alert now kind subject msg ok (fst s))" for ok
    using assms False
    by (auto simp: warned_by_def record_alert_def spaced_snoc already_alerted_def list_ex_iff not_less)
  obtain t r where t: "notify_all ne (''Warning ICSD: '' @ subject) msg s = (t, r)" by fastforce
  have "fst (fst (notify_all ne (''Warning ICSD: '' @ subject) msg s)) = fst s" by (rule keepsD [OF notify_keeps, of "\<lambda>d. d = fst s"]) simp
  with t have ft: "fst t = fst s" by simp
  show ?thesis using False new assms t ft
    by (cases r) (simp_all add: emit_alert_def lseq_def on_db_def lret_def Let_def)
qed (use assms in \<open>simp add: emit_alert_def\<close>)

lemma emit_each_spaced: "warned_by now (fst s) \<Longrightarrow> warned_by now (fst (fst (emit_each ne now ws s)))"
proof (induction ne now ws s rule: emit_each.induct)
  case (2 ne now kind subject msg more s)
  have e: "warned_by now (fst (fst (emit_alert ne now kind subject msg s)))" using 2(2) by (rule emit_spaced)
  show ?case
  proof (cases "emit_alert ne now kind subject msg s")
    case (Pair t r)
    with e 2(1) [OF Pair [symmetric]] show ?thesis by (cases r) (auto simp: Let_def case_prod_unfold)
  qed
qed simp

lemma check_round_spaced: "warned_by now (fst s) \<Longrightarrow> warned_by now (fst (fst (check_round ne now scan warn s)))"
  using emit_each_spaced [of now "fst (on_world scan s)" ne]
  by (auto simp: check_round_def on_world_def Let_def case_prod_unfold split: sum.split)

lemma check_alerts_spaced: "warned_by now (fst s) \<Longrightarrow> warned_by now (fst (fst (check_alerts ne ck now s)))"
  by (simp add: check_alerts_def Let_def case_prod_unfold check_round_spaced)

lemma warned_later: "warned_by t d \<Longrightarrow> t \<le> now \<Longrightarrow> warned_by now d"
  by (fastforce simp: warned_by_def)


section \<open>Secrets\<close>

lemma set_get_put: "set_get k v0 (set_put k' v d) = (if k = k' then v else set_get k v0 d)"
  by (simp add: set_get_def set_put_def dget_dput)

text \<open>
  Secrets stay on the server: whatever the bot's token and the mail password are, the configuration that is shown is the same, as long as they are set; it shows none of their text.
\<close>

theorem config_hides_secrets:
  assumes "tok \<noteq> []" "tok' \<noteq> []" "pw \<noteq> []" "pw' \<noteq> []"
  shows "notice_config (set_put ''notify.telegram_token'' (Some tok) (set_put ''notify.smtp_password'' (Some pw) d))
     = notice_config (set_put ''notify.telegram_token'' (Some tok') (set_put ''notify.smtp_password'' (Some pw') d))"
  using assms by (simp add: notice_config_def set_get_put CONFIG_FIELDS_def given_def)

text \<open>
  Leaving a secret's field empty keeps the stored one: saving a configuration in which the field is missing, null or empty does not change what is stored under it.
\<close>

theorem empty_secret_kept:
  assumes "k = ''telegram_token'' \<or> k = ''smtp_password''" "\<forall>v. (k, v) \<in> set body \<longrightarrow> v = JNull \<or> v = JStr []"
  shows "set_get (''notify.'' @ k) None (set_many jd rp (config_items body) d) = set_get (''notify.'' @ k) None d"
proof -
  have "set_get q None (set_many jd rp items d) = set_get q None d" if "\<forall>v. (q, v) \<notin> set items" for q items d
    using that unfolding set_many_def by (induction items arbitrary: d) (auto simp: set_get_put)
  moreover have "\<forall>v. (''notify.'' @ k, v) \<notin> set (config_items body)" using assms by (auto simp: config_items_def)
  ultimately show ?thesis by blast
qed

section \<open>Closed examples\<close>

definition demo_notice_env :: "unit notice_env" where
  "demo_notice_env = \<lparr>ne_post = \<lambda>u d w. (w, TgOk), ne_smtp = \<lambda>m w. (w, None)\<rparr>"

definition demo_checks :: "unit checks" where
  "demo_checks =
     \<lparr>ck_certs = \<lambda>w. (w, Inr []), ck_disks = \<lambda>w. (w, Inr [\<lparr>sd_percent = 95, sd_mount = ''/''\<rparr>]), ck_sites = \<lambda>w. (w, Inl (RuntimeError [])), ck_number = \<lambda>x. ''95.0''\<rparr>"

definition notice_ldb :: ldb where
  "notice_ldb = set_put ''notify.telegram_enabled'' (Some ''1'') (set_put ''notify.telegram_token'' (Some ''t'') (set_put ''notify.telegram_chat_id'' (Some ''c'') demo_ldb))"

lemma demo_checked:
  "map (\<lambda>r. (wr_at r, wr_sent r, wr_kind r, wr_subject r)) (warnings (fst (fold (\<lambda>now s. fst (check_alerts demo_notice_env demo_checks now s)) [0, 3600, 72000] (notice_ldb, ()))))
     = [(0, True, ''disk'', ''/''), (72000, True, ''disk'', ''/'')]"
  by code_simp


theorem config_hides_secrets_witness:
  "notice_config (set_put ''notify.telegram_token'' (Some ''a'') (set_put ''notify.smtp_password'' (Some ''b'') demo_ldb))
     = notice_config (set_put ''notify.telegram_token'' (Some ''c'') (set_put ''notify.smtp_password'' (Some ''d'') demo_ldb))"
  by (rule config_hides_secrets) simp_all

theorem empty_secret_kept_witness:
  "set_get ''notify.smtp_password'' None (set_many (\<lambda>v. []) (\<lambda>v. []) (config_items [(''smtp_host'', JStr ''h''), (''smtp_password'', JStr [])])
     (set_put ''notify.smtp_password'' (Some ''pw'') demo_ldb)) = Some ''pw''"
proof -
  have b: "\<forall>v. (''smtp_password'', v) \<in> set [(''smtp_host'', JStr ''h''), (''smtp_password'', JStr [])] \<longrightarrow> v = JNull \<or> v = JStr []" by simp
  from empty_secret_kept [OF disjI2 [OF refl] b, of "\<lambda>v. []" "\<lambda>v. []" "set_put ''notify.smtp_password'' (Some ''pw'') demo_ldb"]
  show ?thesis by (simp add: set_get_put)
qed

end
