(* ===== verification/Mail.thy ===== *)
theory Mail
  imports Hostfs
begin

text \<open>
  Mail of the first panel (\<open>legacy/v1/backend/app/services/email.py\<close>, \<open>api/email.py\<close>): domains, mailboxes and aliases are rows; the maps of the mail server are
  texts made from them; keys for DKIM are made by a command and kept in the settings, and the records that a domain needs are told.
\<close>

section \<open>Checks\<close>

definition alnum_ascii :: "char \<Rightarrow> bool" where
  "alnum_ascii c = (alpha_ascii c \<or> ascii_digit c)"

definition email_ok :: "string \<Rightarrow> bool" where
  \<comment> \<open>\<open>^[A-Za-z0-9._%+-]+@([A-Za-z0-9-]+\.)+[A-Za-z]{2,}$\<close>\<close>
  "email_ok s =
     (case split_on (CHR ''@'') (drop_final_nl s) of
        [box, dmn] \<Rightarrow>
          box \<noteq> [] \<and> list_all (\<lambda>c. alnum_ascii c \<or> c \<in> set ''._%+-'') box
          \<and> (let ls = split_on (CHR ''.'') dmn in
             2 \<le> length ls \<and> list_all (\<lambda>l. l \<noteq> [] \<and> list_all (\<lambda>c. alnum_ascii c \<or> c = CHR ''-'') l) (butlast ls)
             \<and> 2 \<le> length (last ls) \<and> list_all alpha_ascii (last ls))
      | _ \<Rightarrow> False)"

definition valid_email :: "string \<Rightarrow> string lres" where
  "valid_email s = (let a = lower (strip s) in if email_ok a then Inr a else Inl (AppError ''invalid email''))"

definition valid_mail_domain :: "string \<Rightarrow> string lres" where
  \<comment> \<open>the pattern of the zone editor without the limit on the length\<close>
  "valid_mail_domain s =
     (let d = lower (strip s); ls = split_on (CHR ''.'') (drop_final_nl d)
      in if 2 \<le> length ls \<and> list_all label_ok ls then Inr d else Inl (AppError ''invalid domain''))"

definition domain_part :: "string \<Rightarrow> string" where
  \<comment> \<open>\<open>address.split("@", 1)[1]\<close>\<close>
  "domain_part a = drop 1 (dropWhile (\<lambda>c. c \<noteq> CHR ''@'') a)"

definition mailbox_part :: "string \<Rightarrow> string" where
  "mailbox_part a = takeWhile (\<lambda>c. c \<noteq> CHR ''@'') a"

section \<open>Domains\<close>

definition has_domain :: "string \<Rightarrow> ldb \<Rightarrow> bool" where
  "has_domain dn d = list_ex (\<lambda>r. md_domain r = dn) (mail_domains d)"

definition add_domain :: "string \<Rightarrow> (ldb \<times> 'w, string) lio" where
  "add_domain dn0 =
     lseq (lret (valid_mail_domain dn0)) (\<lambda>dn s.
       if has_domain dn (fst s) then (s, Inl (AppError ''mail domain exists''))
       else lseq (on_db (\<lambda>d. d\<lparr>mail_domains := mail_domains d @ [\<lparr>md_domain = dn, md_active = True\<rparr>]\<rparr>)) (\<lambda>_.
            lseq (on_db (laudit None ''mail.add_domain'' dn)) (\<lambda>_. lret (Inr dn))) s)"

definition list_mail_domains :: "ldb \<Rightarrow> mdomain_row list" where
  "list_mail_domains d = sort_key md_domain (mail_domains d)"

definition delete_domain :: "string \<Rightarrow> (ldb \<times> 'w, string) lio" where
  "delete_domain dn0 =
     lseq (lret (valid_mail_domain dn0)) (\<lambda>dn.
     lseq (on_db (\<lambda>d. d\<lparr>mailboxes := delete_where (\<lambda>r. mb_domain r = dn) (mailboxes d), mail_aliases := delete_where (\<lambda>r. ma_domain r = dn) (mail_aliases d),
             mail_domains := delete_where (\<lambda>r. md_domain r = dn) (mail_domains d)\<rparr>)) (\<lambda>_.
     lseq (on_db (laudit None ''mail.delete_domain'' dn)) (\<lambda>_. lret (Inr dn))))"

section \<open>Mailboxes\<close>

definition has_mailbox :: "string \<Rightarrow> ldb \<Rightarrow> bool" where
  "has_mailbox a d = list_ex (\<lambda>r. mb_address r = a) (mailboxes d)"

definition create_mailbox :: "crypto \<Rightarrow> string \<Rightarrow> string \<Rightarrow> int \<Rightarrow> (ldb \<times> 'w, string) lio" where
  "create_mailbox cr a0 password quota =
     lseq (lret (valid_email a0)) (\<lambda>a s.
       if length password < 8 then (s, Inl (AppError ''password >= 8 chars''))
       else if \<not> has_domain (domain_part a) (fst s) then (s, Inl (AppError ''add mail domain first''))
       else if has_mailbox a (fst s) then (s, Inl (AppError ''mailbox exists''))
       else
         lseq (on_db (\<lambda>d. d\<lparr>mailboxes := mailboxes d @ [\<lparr>mb_address = a, mb_domain = domain_part a, mb_password_hash = lhash_password cr password, mb_quota = quota, mb_active = True\<rparr>]\<rparr>)) (\<lambda>_.
         lseq (on_db (laudit None ''mail.create_mailbox'' a)) (\<lambda>_. lret (Inr a))) s)"

definition list_mailboxes :: "string option \<Rightarrow> ldb \<Rightarrow> (string \<times> string \<times> int \<times> bool) list" where
  \<comment> \<open>without the hashes\<close>
  "list_mailboxes dn d =
     map (\<lambda>r. (mb_address r, mb_domain r, mb_quota r, mb_active r))
       (sort_key mb_address (case dn of None \<Rightarrow> mailboxes d | Some x \<Rightarrow> if x = [] then mailboxes d else filter (\<lambda>r. mb_domain r = x) (mailboxes d)))"

definition delete_mailbox :: "string \<Rightarrow> (ldb \<times> 'w, string) lio" where
  "delete_mailbox a0 =
     lseq (lret (valid_email a0)) (\<lambda>a.
     lseq (on_db (\<lambda>d. d\<lparr>mailboxes := delete_where (\<lambda>r. mb_address r = a) (mailboxes d)\<rparr>)) (\<lambda>_.
     lseq (on_db (laudit None ''mail.delete_mailbox'' a)) (\<lambda>_. lret (Inr a))))"

definition change_mailbox_password :: "crypto \<Rightarrow> string \<Rightarrow> string \<Rightarrow> (ldb \<times> 'w, string) lio" where
  "change_mailbox_password cr a0 password =
     lseq (lret (valid_email a0)) (\<lambda>a s.
       if length password < 8 then (s, Inl (AppError ''password >= 8 chars''))
       else if \<not> has_mailbox a (fst s) then (s, Inl (AppError ''mailbox not found''))
       else
         lseq (on_db (\<lambda>d. d\<lparr>mailboxes := update_where (\<lambda>r. mb_address r = a) (\<lambda>r. r\<lparr>mb_password_hash := lhash_password cr password\<rparr>) (mailboxes d)\<rparr>)) (\<lambda>_.
         lseq (on_db (laudit None ''mail.change_password'' a)) (\<lambda>_. lret (Inr a))) s)"

section \<open>Aliases\<close>

definition create_alias :: "string \<Rightarrow> string \<Rightarrow> (ldb \<times> 'w, string \<times> string) lio" where
  "create_alias src0 dst0 =
     lseq (lret (valid_email src0)) (\<lambda>src.
     lseq (lret (valid_email dst0)) (\<lambda>dst.
     lseq (on_db (\<lambda>d. d\<lparr>mail_aliases := mail_aliases d @ [\<lparr>ma_id = alias_seq d + 1, ma_source = src, ma_destination = dst, ma_domain = domain_part src\<rparr>],
             alias_seq := alias_seq d + 1\<rparr>)) (\<lambda>_.
     lseq (on_db (laudit None ''mail.create_alias'' (src @ '' -> '' @ dst))) (\<lambda>_. lret (Inr (src, dst))))))"

definition list_aliases :: "string option \<Rightarrow> ldb \<Rightarrow> malias_row list" where
  "list_aliases dn d =
     sort_key ma_source (case dn of None \<Rightarrow> mail_aliases d | Some x \<Rightarrow> if x = [] then mail_aliases d else filter (\<lambda>r. ma_domain r = x) (mail_aliases d))"

definition delete_alias :: "int \<Rightarrow> (ldb \<times> 'w, int) lio" where
  "delete_alias aid = lseq (on_db (\<lambda>d. d\<lparr>mail_aliases := delete_where (\<lambda>r. ma_id r = aid) (mail_aliases d)\<rparr>)) (\<lambda>_. lret (Inr aid))"

section \<open>The mail server's maps\<close>

record postfix_maps =
  pm_domains :: string
  pm_vmailbox :: string
  pm_valias :: string

definition map_text :: "string list \<Rightarrow> string" where
  "map_text ls = join_with [NL] ls @ (if ls = [] then [] else [NL])"

definition vmailbox_line :: "string \<times> string \<times> int \<times> bool \<Rightarrow> string" where
  "vmailbox_line m = (case m of (a, dn, q, act) \<Rightarrow> a @ '' '' @ dn @ ''/'' @ mailbox_part a @ ''/'')"

definition generate_postfix_maps :: "ldb \<Rightarrow> postfix_maps" where
  "generate_postfix_maps d =
     \<lparr>pm_domains = join_with '' '' (map md_domain (filter md_active (list_mail_domains d))),
      pm_vmailbox = map_text (map vmailbox_line (filter (\<lambda>(a, dn, q, act). act) (list_mailboxes None d))),
      pm_valias = map_text (map (\<lambda>r. ma_source r @ '' '' @ ma_destination r) (list_aliases None d))\<rparr>"

section \<open>DKIM and the records a domain needs\<close>

definition server_ip :: "('w \<times> fs) shell \<Rightarrow> ('w web, string option) lio" where
  "server_ip sh =
     lseq (on_world (run_cmd sh [''hostname'', ''-I''] 10 False)) (\<lambda>r.
       lret (Inr (if cr_ok r \<and> strip (cr_stdout r) \<noteq> [] then Some (hd (words_of [] (cr_stdout r))) else None)))"

definition key_body :: "string \<Rightarrow> string" where
  "key_body pem = concat (filter (\<lambda>l. \<not> contains l ''-----'') (splitlines pem))"

definition dkim_keypair :: "('w \<times> fs) shell \<Rightarrow> host_env \<Rightarrow> ('w web, string \<times> string) lio" where
  "dkim_keypair sh h =
     (if \<not> has h ''openssl'' then lret (Inl (AppError ''openssl not installed''))
      else lseq (on_world (run_cmd sh [''openssl'', ''genrsa'', ''2048''] 30 False)) (\<lambda>priv.
        if \<not> cr_ok priv \<or> \<not> contains (cr_stdout priv) ''PRIVATE KEY'' then lret (Inl (AppError (''keygen failed: '' @ take 200 (cr_stderr priv))))
        else on_world (\<lambda>w. let (w', p) = sh [''openssl'', ''rsa'', ''-pubout'', ''-outform'', ''PEM''] (cr_stdout priv) w in
          (w', case p of
                 Ended c so se \<Rightarrow> if c \<noteq> 0 then Inl (AppError (''pubkey failed: '' @ take 200 se)) else Inr (cr_stdout priv, key_body so)
               | NotFound \<Rightarrow> Inl (RuntimeError ''FileNotFoundError'') | TooLong \<Rightarrow> Inl (RuntimeError ''TimeoutExpired'')))))"

definition DKIM_KEY_DIR :: path where
  "DKIM_KEY_DIR = [''etc'', ''opendkim'', ''keys'']"

definition os_chmod :: "path \<Rightarrow> nat \<Rightarrow> (fs, unit) lio" where
  "os_chmod p m f =
     (case realpath f [] [] p of None \<Rightarrow> (f, os_error) | Some q \<Rightarrow> (case node_at f q of None \<Rightarrow> (f, os_error) | Some n \<Rightarrow> (dput q (set_mode m n) f, Inr ())))"

definition store_dkim_key :: "fmodes \<Rightarrow> string \<Rightarrow> string \<Rightarrow> string \<Rightarrow> (fs, string option) lio" where
  "store_dkim_key mo dn sel pem f =
     (let p = DKIM_KEY_DIR @ [dn, sel @ ''.private''] in
      case lseq (mkdirs mo (DKIM_KEY_DIR @ [dn])) (\<lambda>_. lseq (os_write mo p (utf8 pem)) (\<lambda>_. os_chmod p 384)) f of
        (f', Inl x) \<Rightarrow> (f', Inr None)
      | (f', Inr _) \<Rightarrow> (f', Inr (Some (path_str p))))"

definition selector_ok :: "string \<Rightarrow> bool" where
  "selector_ok s = (1 \<le> length s \<and> length s \<le> 32 \<and> list_all (\<lambda>c. lower_ascii c \<or> ascii_digit c \<or> c = CHR ''-'') s)"

record dkim_answer =
  dk_domain :: string
  dk_selector :: string
  dk_public :: string
  dk_path :: "string option"
  dk_private :: "string option" \<comment> \<open>only where the key could not be stored\<close>

definition dkim_setup :: "('w \<times> fs) shell \<Rightarrow> host_env \<Rightarrow> fmodes \<Rightarrow> string \<Rightarrow> string \<Rightarrow> ('w web, dkim_answer) lio" where
  "dkim_setup sh h mo dn0 sel =
     lseq (lret (valid_mail_domain dn0)) (\<lambda>dn s.
       if \<not> selector_ok sel then (s, Inl (AppError ''invalid selector''))
       else if \<not> has_domain dn (fst s) then (s, Inl (AppError ''add the mail domain first''))
       else lseq (dkim_keypair sh h) (\<lambda>(pem, pub).
            lseq (on_fs (store_dkim_key mo dn sel pem)) (\<lambda>kp.
            lseq (on_db (set_put (''dkim:'' @ dn) (Some (sel @ '':'' @ pub)))) (\<lambda>_.
            lseq (on_db (laudit None ''mail.dkim_setup'' (dn @ '' selector='' @ sel))) (\<lambda>_.
            lret (Inr \<lparr>dk_domain = dn, dk_selector = sel, dk_public = pub, dk_path = kp, dk_private = (if kp = None then Some pem else None)\<rparr>))))) s)"

record needed_record =
  nr_name :: string
  nr_type :: string
  nr_content :: string
  nr_hint :: string

definition fixed_records :: "string \<Rightarrow> string option \<Rightarrow> needed_record list" where
  "fixed_records dn ip =
     (let known = (case ip of None \<Rightarrow> False | Some i \<Rightarrow> i \<noteq> []) in
      [\<lparr>nr_name = dn, nr_type = ''MX'', nr_content = ''10 mail.'' @ dn @ ''.'', nr_hint = ''mail server''\<rparr>,
       \<lparr>nr_name = ''mail.'' @ dn, nr_type = ''A'', nr_content = (if known then the ip else ''<server-ip>''), nr_hint = ''A record of the mail host''\<rparr>,
       \<lparr>nr_name = dn, nr_type = ''TXT'', nr_content = ''v=spf1 a mx'' @ (if known then '' ip4:'' @ the ip else []) @ '' ~all'', nr_hint = ''SPF''\<rparr>,
       \<lparr>nr_name = ''_dmarc.'' @ dn, nr_type = ''TXT'', nr_content = ''v=DMARC1; p=quarantine; rua=mailto:postmaster@'' @ dn, nr_hint = ''DMARC''\<rparr>])"

definition dkim_record :: "string \<Rightarrow> string option \<Rightarrow> needed_record" where
  \<comment> \<open>from what the settings hold\<close>
  "dkim_record dn stored =
     (let s = (case stored of None \<Rightarrow> [] | Some t \<Rightarrow> t) in
      if CHR '':'' \<in> set s then
        \<lparr>nr_name = takeWhile (\<lambda>c. c \<noteq> CHR '':'') s @ ''._domainkey.'' @ dn, nr_type = ''TXT'',
         nr_content = ''v=DKIM1; k=rsa; p='' @ drop 1 (dropWhile (\<lambda>c. c \<noteq> CHR '':'') s), nr_hint = ''DKIM''\<rparr>
      else \<lparr>nr_name = ''icsd._domainkey.'' @ dn, nr_type = ''TXT'', nr_content = ''(generate DKIM first)'', nr_hint = ''DKIM''\<rparr>)"

definition dns_needed :: "('w \<times> fs) shell \<Rightarrow> string \<Rightarrow> ('w web, string \<times> needed_record list) lio" where
  \<comment> \<open>\<open>dns_records\<close>\<close>
  "dns_needed sh dn0 =
     lseq (lret (valid_mail_domain dn0)) (\<lambda>dn.
     lseq (server_ip sh) (\<lambda>ip s. (s, Inr (dn, fixed_records dn ip @ [dkim_record dn (set_get (''dkim:'' @ dn) None (fst s))]))))"

section \<open>Routes\<close>

definition as_admin :: "caller lres \<Rightarrow> ('s, 'v) lio \<Rightarrow> ('s, 'v) lio" where
  "as_admin who m = lseq (lret (require_role ''admin'' who)) (\<lambda>_. m)"

definition long_enough :: "string \<Rightarrow> ('s, 'v) lio \<Rightarrow> ('s, 'v) lio" where
  \<comment> \<open>\<open>Field(min_length=8)\<close>\<close>
  "long_enough password m = (if length password < 8 then lret (Inl (LHttp 422 ''string_too_short'')) else m)"

definition route_mail_domains :: "caller lres \<Rightarrow> (ldb \<times> 'w, mdomain_row list) lio" where
  "route_mail_domains who = lseq (lret who) (\<lambda>_ s. (s, Inr (list_mail_domains (fst s))))"

definition route_add_mail_domain :: "caller lres \<Rightarrow> string \<Rightarrow> (ldb \<times> 'w, string) lio" where
  "route_add_mail_domain who dn = as_manager who (app_http 400 (add_domain dn))"

definition route_delete_mail_domain :: "caller lres \<Rightarrow> string \<Rightarrow> (ldb \<times> 'w, string) lio" where
  "route_delete_mail_domain who dn = as_manager who (app_http 400 (delete_domain dn))"

definition route_mailboxes :: "caller lres \<Rightarrow> string option \<Rightarrow> (ldb \<times> 'w, (string \<times> string \<times> int \<times> bool) list) lio" where
  "route_mailboxes who dn = lseq (lret who) (\<lambda>_ s. (s, Inr (list_mailboxes dn (fst s))))"

definition route_create_mailbox :: "crypto \<Rightarrow> caller lres \<Rightarrow> string \<Rightarrow> string \<Rightarrow> int \<Rightarrow> (ldb \<times> 'w, string) lio" where
  "route_create_mailbox cr who a password quota = as_manager who (long_enough password (app_http 400 (create_mailbox cr a password quota)))"

definition route_mailbox_password :: "crypto \<Rightarrow> caller lres \<Rightarrow> string \<Rightarrow> string \<Rightarrow> (ldb \<times> 'w, string) lio" where
  "route_mailbox_password cr who a password = as_manager who (long_enough password (app_http 400 (change_mailbox_password cr a password)))"

definition route_delete_mailbox :: "caller lres \<Rightarrow> string \<Rightarrow> (ldb \<times> 'w, string) lio" where
  "route_delete_mailbox who a = as_manager who (app_http 400 (delete_mailbox a))"

definition route_aliases :: "caller lres \<Rightarrow> string option \<Rightarrow> (ldb \<times> 'w, malias_row list) lio" where
  "route_aliases who dn = lseq (lret who) (\<lambda>_ s. (s, Inr (list_aliases dn (fst s))))"

definition route_create_alias :: "caller lres \<Rightarrow> string \<Rightarrow> string \<Rightarrow> (ldb \<times> 'w, string \<times> string) lio" where
  "route_create_alias who src dst = as_manager who (app_http 400 (create_alias src dst))"

definition route_delete_alias :: "caller lres \<Rightarrow> int \<Rightarrow> (ldb \<times> 'w, int) lio" where
  "route_delete_alias who aid = as_manager who (delete_alias aid)"

definition route_postfix_maps :: "caller lres \<Rightarrow> (ldb \<times> 'w, postfix_maps) lio" where
  "route_postfix_maps who = as_admin who (\<lambda>s. (s, Inr (generate_postfix_maps (fst s))))"

definition route_dkim_setup :: "('w \<times> fs) shell \<Rightarrow> host_env \<Rightarrow> fmodes \<Rightarrow> caller lres \<Rightarrow> string \<Rightarrow> string \<Rightarrow> ('w web, dkim_answer) lio" where
  "route_dkim_setup sh h mo who dn sel = as_admin who (app_http 400 (dkim_setup sh h mo dn sel))"

definition route_dns_records :: "('w \<times> fs) shell \<Rightarrow> caller lres \<Rightarrow> string \<Rightarrow> ('w web, string \<times> needed_record list) lio" where
  "route_dns_records sh who dn = lseq (lret who) (\<lambda>_. app_http 400 (dns_needed sh dn))"

section \<open>The tables stay consistent\<close>

definition plain_addr :: "string \<Rightarrow> bool" where
  "plain_addr a = (a \<noteq> [] \<and> list_all (\<lambda>c. alnum_ascii c \<or> c \<in> set ''._%+-@'') a)"

definition mail_ok :: "ldb \<Rightarrow> bool" where
  "mail_ok d =
     (distinct (map md_domain (mail_domains d)) \<and> distinct (map mb_address (mailboxes d))
      \<and> (\<forall>r \<in> set (mailboxes d). plain_addr (mb_address r) \<and> mb_domain r = domain_part (mb_address r) \<and> has_domain (domain_part (mb_address r)) d)
      \<and> (\<forall>r \<in> set (mail_aliases d). plain_addr (ma_source r) \<and> plain_addr (ma_destination r) \<and> ma_domain r = domain_part (ma_source r)))"

lemma log_free_mail_ok: "log_free mail_ok"
  by (simp add: log_free_def mail_ok_def has_domain_def)

lemma label_chars: "label_ok l \<Longrightarrow> c \<in> set l \<Longrightarrow> alnum_ascii c \<or> c = CHR ''-''"
  by (auto simp: label_ok_def list_all_iff label_char_def alnum_ascii_def)

lemma valid_mail_domain_text:
  assumes "valid_mail_domain s = Inr d" "c \<in> set d"
  shows "alnum_ascii c \<or> c \<in> {CHR ''-'', CHR ''.''}"
proof -
  have d: "d = lower (strip s)" and ok: "list_all label_ok (split_on (CHR ''.'') d)"
    using assms(1) by (auto simp: valid_mail_domain_def Let_def cleaned_end split: if_splits)
  show ?thesis using in_split_on [OF assms(2), of "CHR ''.''"] ok label_chars by (fastforce simp: list_all_iff)
qed

lemma valid_email_text:
  assumes "valid_email s = Inr a"
  shows "plain_addr a"
proof -
  have d: "a = lower (strip s)" and ok: "email_ok a" using assms by (auto simp: valid_email_def Let_def split: if_splits)
  then obtain lp dn where sp: "split_on (CHR ''@'') a = [lp, dn]" and lp: "lp \<noteq> []" "list_all (\<lambda>c. alnum_ascii c \<or> c \<in> set ''._%+-'') lp"
    and dn: "list_all (\<lambda>l. list_all (\<lambda>c. alnum_ascii c \<or> c = CHR ''-'') l) (split_on (CHR ''.'') dn)"
  proof -
    assume that: "\<And>lp dn. split_on (CHR ''@'') a = [lp, dn] \<Longrightarrow> lp \<noteq> [] \<Longrightarrow> list_all (\<lambda>c. alnum_ascii c \<or> c \<in> set ''._%+-'') lp \<Longrightarrow>
      list_all (\<lambda>l. list_all (\<lambda>c. alnum_ascii c \<or> c = CHR ''-'') l) (split_on (CHR ''.'') dn) \<Longrightarrow> thesis"
    obtain lp dn where sp: "split_on (CHR ''@'') a = [lp, dn]"
      using ok d cleaned_end [of s] by (auto simp: email_ok_def split: list.splits)
    let ?ls = "split_on (CHR ''.'') dn"
    have h: "lp \<noteq> []" "list_all (\<lambda>c. alnum_ascii c \<or> c \<in> set ''._%+-'') lp" "list_all (\<lambda>l. l \<noteq> [] \<and> list_all (\<lambda>c. alnum_ascii c \<or> c = CHR ''-'') l) (butlast ?ls)"
        "list_all alpha_ascii (last ?ls)"
      using ok d cleaned_end [of s] sp by (simp_all add: email_ok_def Let_def)
    have "list_all (\<lambda>l. list_all (\<lambda>c. alnum_ascii c \<or> c = CHR ''-'') l) (butlast ?ls)" "list_all (\<lambda>l. list_all (\<lambda>c. alnum_ascii c \<or> c = CHR ''-'') l) [last ?ls]"
      using h(3,4) by (auto simp: list_all_iff alnum_ascii_def)
    then have "list_all (\<lambda>l. list_all (\<lambda>c. alnum_ascii c \<or> c = CHR ''-'') l) (butlast ?ls @ [last ?ls])" by (simp only: list_all_append simp_thms)
    then show thesis using that [OF sp h(1,2)] by simp
  qed
  have "alnum_ascii c \<or> c \<in> set ''._%+-@''" if c: "c \<in> set a" for c
  proof -
    consider "c = CHR ''@''" | "c \<in> set lp" | "c \<in> set dn" using in_split_on [OF c, of "CHR ''@''"] sp by auto
    then show ?thesis
    proof cases
      case 3
      then show ?thesis using in_split_on [of c dn "CHR ''.''"] dn by (auto simp: list_all_iff)
    qed (use lp in \<open>auto simp: list_all_iff\<close>)
  qed
  moreover have "a \<noteq> []" using sp by auto
  ultimately show ?thesis by (auto simp: plain_addr_def list_all_iff)
qed

lemma has_domain_delete: "has_domain x (d\<lparr>mailboxes := bs, mail_aliases := als, mail_domains := delete_where (\<lambda>r. md_domain r = dn) (mail_domains d)\<rparr>) = (has_domain x d \<and> x \<noteq> dn)"
  by (auto simp: has_domain_def list_ex_iff)

lemma has_domain_same [simp]:
  "has_domain x (d\<lparr>mailboxes := bs\<rparr>) = has_domain x d" "has_domain x (d\<lparr>mail_aliases := als\<rparr>) = has_domain x d" "has_domain x (d\<lparr>laudit_log := l\<rparr>) = has_domain x d"
  "has_domain x (d\<lparr>lsettings_tab := t\<rparr>) = has_domain x d" "has_domain x (d\<lparr>mail_aliases := als, alias_seq := i\<rparr>) = has_domain x d"
  by (simp_all add: has_domain_def)

lemma mail_delete_domain: "mail_ok d \<Longrightarrow> mail_ok (d\<lparr>mailboxes := delete_where (\<lambda>r. mb_domain r = dn) (mailboxes d), mail_aliases := delete_where (\<lambda>r. ma_domain r = dn) (mail_aliases d),
    mail_domains := delete_where (\<lambda>r. md_domain r = dn) (mail_domains d)\<rparr>)"
  by (simp add: mail_ok_def has_domain_delete) (auto simp: delete_where_def distinct_map_filter)

lemma mail_new_domain: "mail_ok d \<Longrightarrow> \<not> has_domain dn d \<Longrightarrow> mail_ok (d\<lparr>mail_domains := mail_domains d @ [\<lparr>md_domain = dn, md_active = True\<rparr>]\<rparr>)"
  by (auto simp: mail_ok_def has_domain_def list_ex_iff)

lemma mail_upsets:
  "mail_ok d \<Longrightarrow> mail_ok (d\<lparr>mailboxes := delete_where p (mailboxes d)\<rparr>)"
  "mail_ok d \<Longrightarrow> mail_ok (d\<lparr>mail_aliases := delete_where q (mail_aliases d)\<rparr>)"
  "mail_ok d \<Longrightarrow> mail_ok (d\<lparr>mailboxes := update_where p (\<lambda>r. r\<lparr>mb_password_hash := h\<rparr>) (mailboxes d)\<rparr>)"
  by (auto simp: mail_ok_def delete_where_def distinct_map_filter update_where_def comp_def if_distrib cong: if_cong)

lemma mail_new_box:
  "mail_ok d \<Longrightarrow> plain_addr a \<Longrightarrow> has_domain (domain_part a) d \<Longrightarrow> \<not> has_mailbox a d \<Longrightarrow>
   mail_ok (d\<lparr>mailboxes := mailboxes d @ [\<lparr>mb_address = a, mb_domain = domain_part a, mb_password_hash = h, mb_quota = q, mb_active = True\<rparr>]\<rparr>)"
  by (auto simp: mail_ok_def has_mailbox_def list_ex_iff)

lemma add_domain_keeps: "holds_over mail_ok (add_domain dn)"
proof (rule keepsI)
  fix s :: "ldb \<times> 'a" assume s: "mail_ok (fst s)"
  show "mail_ok (fst (fst (add_domain dn s)))"
    using s by (cases "valid_mail_domain dn") (auto simp: add_domain_def on_db_def lseq_def lret_def laudit_def mail_new_domain log_free_mail_ok [unfolded log_free_def])
qed

lemma delete_domain_keeps: "holds_over mail_ok (delete_domain dn)"
  unfolding delete_domain_def by (intro keeps_rules keeps_on_db mail_delete_domain keeps_laudit log_free_mail_ok)

lemma delete_mailbox_keeps: "holds_over mail_ok (delete_mailbox a)"
  unfolding delete_mailbox_def by (intro keeps_rules keeps_on_db mail_upsets keeps_laudit log_free_mail_ok)

lemma create_mailbox_keeps: "holds_over mail_ok (create_mailbox cr a0 pw q)"
proof (rule keepsI)
  fix s :: "ldb \<times> 'a" assume s: "mail_ok (fst s)"
  show "mail_ok (fst (fst (create_mailbox cr a0 pw q s)))"
    using s valid_email_text [of a0]
    by (cases "valid_email a0") (auto simp: create_mailbox_def on_db_def lseq_def lret_def laudit_def mail_new_box log_free_mail_ok [unfolded log_free_def])
qed

lemma change_mailbox_password_keeps: "holds_over mail_ok (change_mailbox_password cr a0 pw)"
proof (rule keepsI)
  fix s :: "ldb \<times> 'a" assume s: "mail_ok (fst s)"
  show "mail_ok (fst (fst (change_mailbox_password cr a0 pw s)))"
    using s by (cases "valid_email a0") (auto simp: change_mailbox_password_def on_db_def lseq_def lret_def laudit_def mail_upsets log_free_mail_ok [unfolded log_free_def])
qed

lemma create_alias_keeps: "holds_over mail_ok (create_alias src dst)"
proof (rule keepsI)
  fix s :: "ldb \<times> 'a" assume s: "mail_ok (fst s)"
  show "mail_ok (fst (fst (create_alias src dst s)))"
    using s valid_email_text [of src] valid_email_text [of dst]
    by (cases "valid_email src"; cases "valid_email dst") (auto simp: create_alias_def on_db_def lseq_def lret_def laudit_def mail_ok_def)
qed

lemma delete_alias_keeps: "holds_over mail_ok (delete_alias i)"
  unfolding delete_alias_def by (intro keeps_rules keeps_on_db mail_upsets)

datatype mail_request =
    AddMailDomain string | DeleteMailDomain string | CreateMailbox string string int | MailboxPassword string string | DeleteMailbox string
  | CreateAlias string string | DeleteAlias int | SetupDkim string string

fun mail_serve :: "crypto \<Rightarrow> ('w \<times> fs) shell \<Rightarrow> host_env \<Rightarrow> fmodes \<Rightarrow> caller lres \<Rightarrow> mail_request \<Rightarrow> 'w web \<Rightarrow> 'w web" where
  "mail_serve cr sh h mo who (AddMailDomain dn) s = fst (route_add_mail_domain who dn s)"
| "mail_serve cr sh h mo who (DeleteMailDomain dn) s = fst (route_delete_mail_domain who dn s)"
| "mail_serve cr sh h mo who (CreateMailbox a pw q) s = fst (route_create_mailbox cr who a pw q s)"
| "mail_serve cr sh h mo who (MailboxPassword a pw) s = fst (route_mailbox_password cr who a pw s)"
| "mail_serve cr sh h mo who (DeleteMailbox a) s = fst (route_delete_mailbox who a s)"
| "mail_serve cr sh h mo who (CreateAlias src dst) s = fst (route_create_alias who src dst s)"
| "mail_serve cr sh h mo who (DeleteAlias i) s = fst (route_delete_alias who i s)"
| "mail_serve cr sh h mo who (SetupDkim dn sel) s = fst (route_dkim_setup sh h mo who dn sel s)"

lemma keeps_as_admin: "holds_over P m \<Longrightarrow> holds_over P (as_admin who m)"
  unfolding as_admin_def by (intro keeps_lseq keeps_lret)

lemma keeps_long_enough: "holds_over P m \<Longrightarrow> holds_over P (long_enough pw m)"
  by (simp add: long_enough_def keeps_lret)

lemma keeps_guarded: "holds_over P m \<Longrightarrow> holds_over P (\<lambda>s. if b s then (s, x s) else if c s then (s, y s) else m s)"
  by (simp add: holds_over_def)

lemma dkim_setup_keeps: "holds_over mail_ok (dkim_setup sh h mo dn sel)"
proof -
  have "holds_over mail_ok (on_db (set_put k v))" for k v by (rule keeps_on_db) (simp add: mail_ok_def set_put_def)
  moreover have "holds_over mail_ok (dkim_keypair sh h)" unfolding dkim_keypair_def by (intro keeps_rules)
  ultimately show ?thesis unfolding dkim_setup_def
    by (intro keeps_lseq keeps_lret) (rule keeps_guarded, intro keeps_rules keeps_laudit log_free_mail_ok)
qed

lemma mail_serve_keeps: "mail_ok (fst s) \<Longrightarrow> mail_ok (fst (mail_serve cr sh h mo who q s))"
  by (cases q)
    (simp_all add: route_add_mail_domain_def route_delete_mail_domain_def route_create_mailbox_def route_mailbox_password_def route_delete_mailbox_def route_create_alias_def
      route_delete_alias_def route_dkim_setup_def keepsD [OF keeps_as_manager] keepsD [OF keeps_as_admin] keeps_app_http keeps_long_enough add_domain_keeps delete_domain_keeps
      create_mailbox_keeps change_mailbox_password_keeps delete_mailbox_keeps create_alias_keeps delete_alias_keeps dkim_setup_keeps)

lemma mail_ok_empty: "mail_domains d = [] \<Longrightarrow> mailboxes d = [] \<Longrightarrow> mail_aliases d = [] \<Longrightarrow> mail_ok d"
  by (simp add: mail_ok_def)

interpretation mail_run: machine "\<lambda>(who, q). mail_serve cr sh h mo who q" "\<lambda>s. mail_ok (fst s)" for cr sh h mo
  by unfold_locales (auto simp: mail_serve_keeps split: prod.split)

text \<open>
  No mailbox without its domain: whatever requests come in, in any order and from anyone, addresses are unique, and every mailbox belongs to a mail domain that exists, the one its
  address names; deleting a domain takes its mailboxes along.
\<close>

theorem mailboxes_have_domains:
  assumes "mail_domains (fst s) = []" "mailboxes (fst s) = []" "mail_aliases (fst s) = []"
    and "d = fst (fold (\<lambda>(who, q). mail_serve cr sh h mo who q) qs s)"
  shows "distinct (map mb_address (mailboxes d)) \<and> (\<forall>r \<in> set (mailboxes d). mb_domain r = domain_part (mb_address r) \<and> has_domain (mb_domain r) d)"
proof -
  have "mail_ok d" unfolding assms(4) by (rule mail_run.run_inv) (rule mail_ok_empty [OF assms(1-3)])
  then show ?thesis by (simp add: mail_ok_def)
qed

section \<open>The maps read back\<close>

lemma words_of_run: "list_all (\<lambda>c. \<not> is_space c) a \<Longrightarrow> words_of cur (a @ rest) = words_of (rev a @ cur) rest"
  by (induction a arbitrary: cur) auto

lemma words_of_two:
  assumes "list_all (\<lambda>c. \<not> is_space c) a" "list_all (\<lambda>c. \<not> is_space c) b" "a \<noteq> []" "b \<noteq> []"
  shows "words_of [] (a @ '' '' @ b) = [a, b]"
proof -
  have sp: "is_space CHR '' ''" by (simp add: is_space_def code_def)
  have "words_of [] (a @ '' '' @ b) = a # words_of [] b" using words_of_run [OF assms(1), of "[]" "'' '' @ b"] assms(3) sp by simp
  also have "words_of [] b = [b]" using words_of_run [OF assms(2), of "[]" "[]"] assms(4) by simp
  finally show ?thesis .
qed

definition map_char :: "char \<Rightarrow> bool" where
  "map_char c = (alnum_ascii c \<or> c \<in> set ''._%+-@/'')"

lemma mail_char_plain: "map_char c \<Longrightarrow> \<not> is_space c \<and> \<not> line_break c"
  by (auto simp: map_char_def alnum_ascii_def alpha_ascii_def lower_ascii_def ascii_digit_def is_space_def line_break_def code_def Let_def)

lemma plain_addr_chars: "plain_addr a \<Longrightarrow> list_all map_char a"
  by (auto simp: plain_addr_def list_all_iff map_char_def)

lemma set_parts: "set (domain_part a) \<subseteq> set a" "set (mailbox_part a) \<subseteq> set a"
  by (auto simp: domain_part_def mailbox_part_def dest!: in_set_dropD set_dropWhileD set_takeWhileD)

lemma plain_addr_parts: "plain_addr a \<Longrightarrow> list_all map_char (domain_part a @ ''/'' @ mailbox_part a @ ''/'')"
proof -
  assume "plain_addr a"
  then have "\<forall>c \<in> set a. map_char c" using plain_addr_chars by (simp add: list_all_iff)
  moreover have "map_char CHR ''/''" by (simp add: map_char_def)
  ultimately show ?thesis using set_parts [of a] by (auto simp: list_all_iff)
qed

lemma space_no_break: "\<not> line_break CHR '' ''"
  by (simp add: line_break_def code_def)

lemma map_text_reads:
  assumes "\<And>x. x \<in> set xs \<Longrightarrow> list_all map_char (f x) \<and> list_all map_char (g x) \<and> f x \<noteq> [] \<and> g x \<noteq> []"
  shows "map (words_of []) (splitlines (map_text (map (\<lambda>x. f x @ '' '' @ g x) xs))) = map (\<lambda>x. [f x, g x]) xs"
proof -
  let ?ls = "map (\<lambda>x. f x @ '' '' @ g x) xs"
  have plain: "list_all (\<lambda>l. l \<noteq> [] \<and> list_all (\<lambda>c. \<not> line_break c) l) ?ls"
    using assms mail_char_plain space_no_break by (auto simp: list_all_iff)
  have "splitlines (map_text ?ls) = ?ls"
  proof (cases xs rule: rev_cases)
    case Nil
    then show ?thesis by (simp add: map_text_def splitlines_def)
  next
    case (snoc ys y)
    have j: "join_with [NL] (map (\<lambda>x. f x @ '' '' @ g x) zs @ [l]) @ [NL] = concat (map (\<lambda>x. f x @ '' '' @ g x @ [NL]) zs) @ l @ [NL]" for zs l
      by (induction zs rule: induct_list012) auto
    have c: "list_all (\<lambda>l. list_all (\<lambda>c. \<not> line_break c) l) (map (\<lambda>x. f x @ '' '' @ g x) zs) \<Longrightarrow> list_all (\<lambda>c. \<not> line_break c) l \<Longrightarrow>
        splitlines (concat (map (\<lambda>x. f x @ '' '' @ g x @ [NL]) zs) @ l @ [NL]) = map (\<lambda>x. f x @ '' '' @ g x) zs @ [l]" for zs l
    proof (induction zs)
      case Nil
      then show ?case by (simp add: splitlines_line)
    next
      case (Cons z zs)
      have "splitlines ((f z @ '' '' @ g z) @ NL # (concat (map (\<lambda>x. f x @ '' '' @ g x @ [NL]) zs) @ l @ [NL]))
          = splitlines ((f z @ '' '' @ g z) @ [NL]) @ splitlines (concat (map (\<lambda>x. f x @ '' '' @ g x @ [NL]) zs) @ l @ [NL])" by (rule splitlines_nl)
      also have "splitlines ((f z @ '' '' @ g z) @ [NL]) = [f z @ '' '' @ g z]" using Cons.prems(1) by (intro splitlines_line) simp
      finally show ?case using Cons by simp
    qed
    have "list_all (\<lambda>l. list_all (\<lambda>c. \<not> line_break c) l) ?ls" using plain by (auto simp: list_all_iff)
    then show ?thesis using j [of ys "f y @ '' '' @ g y"] c [of ys "f y @ '' '' @ g y"] snoc by (simp add: map_text_def)
  qed
  then have "map (words_of []) (splitlines (map_text ?ls)) = map (\<lambda>x. words_of [] (f x @ '' '' @ g x)) xs" by (simp add: comp_def)
  also have "\<dots> = map (\<lambda>x. [f x, g x]) xs"
  proof (intro map_cong refl words_of_two)
    fix x assume "x \<in> set xs"
    then show "list_all (\<lambda>c. \<not> is_space c) (f x)" "list_all (\<lambda>c. \<not> is_space c) (g x)" "f x \<noteq> []" "g x \<noteq> []"
      using assms [of x] mail_char_plain by (auto simp: list_all_iff)
  qed
  finally show ?thesis .
qed

text \<open>
  C36. The maps that are handed to the mail server mean what the tables say: whatever requests came before, reading the mailbox map line by line and word by word gives exactly one pair
  for each active mailbox, its address and its directory, and the alias map exactly one pair of source and destination for each alias; no address breaks a line or adds a word.
\<close>

theorem postfix_maps_read_back:
  assumes "mail_domains (fst s) = []" "mailboxes (fst s) = []" "mail_aliases (fst s) = []"
    and "d = fst (fold (\<lambda>(who, q). mail_serve cr sh h mo who q) qs s)"
  shows "map (words_of []) (splitlines (pm_vmailbox (generate_postfix_maps d)))
       = map (\<lambda>r. [mb_address r, mb_domain r @ ''/'' @ mailbox_part (mb_address r) @ ''/'']) (filter mb_active (sort_key mb_address (mailboxes d)))
     \<and> map (words_of []) (splitlines (pm_valias (generate_postfix_maps d))) = map (\<lambda>r. [ma_source r, ma_destination r]) (sort_key ma_source (mail_aliases d))"
proof -
  have ok: "mail_ok d" unfolding assms(4) by (rule mail_run.run_inv) (rule mail_ok_empty [OF assms(1-3)])
  let ?bs = "filter mb_active (sort_key mb_address (mailboxes d))"
  have box: "list_all map_char (mb_address r) \<and> list_all map_char (mb_domain r @ ''/'' @ mailbox_part (mb_address r) @ ''/'') \<and> mb_address r \<noteq> []
      \<and> mb_domain r @ ''/'' @ mailbox_part (mb_address r) @ ''/'' \<noteq> []" if "r \<in> set ?bs" for r
  proof -
    have a: "plain_addr (mb_address r)" "mb_domain r = domain_part (mb_address r)" using ok that by (auto simp: mail_ok_def)
    show ?thesis unfolding a(2) using plain_addr_chars [OF a(1)] plain_addr_parts [OF a(1)] a(1) by (simp add: plain_addr_def)
  qed
  have "map vmailbox_line (filter (\<lambda>(a, dn, q, act). act) (list_mailboxes None d))
      = map (\<lambda>r. mb_address r @ '' '' @ mb_domain r @ ''/'' @ mailbox_part (mb_address r) @ ''/'') ?bs"
    by (simp add: list_mailboxes_def filter_map comp_def vmailbox_line_def)
  then have "map (words_of []) (splitlines (pm_vmailbox (generate_postfix_maps d))) = map (\<lambda>r. [mb_address r, mb_domain r @ ''/'' @ mailbox_part (mb_address r) @ ''/'']) ?bs"
    using map_text_reads [of ?bs mb_address "\<lambda>r. mb_domain r @ ''/'' @ mailbox_part (mb_address r) @ ''/''", OF box] by (simp add: generate_postfix_maps_def)
  moreover have "list_all map_char (ma_source r) \<and> list_all map_char (ma_destination r) \<and> ma_source r \<noteq> [] \<and> ma_destination r \<noteq> []" if "r \<in> set (list_aliases None d)" for r
  proof -
    have "plain_addr (ma_source r)" "plain_addr (ma_destination r)" using ok that by (auto simp: mail_ok_def list_aliases_def)
    then show ?thesis using plain_addr_chars by (auto simp: plain_addr_def)
  qed
  then have "map (words_of []) (splitlines (pm_valias (generate_postfix_maps d))) = map (\<lambda>r. [ma_source r, ma_destination r]) (list_aliases None d)"
    unfolding generate_postfix_maps_def postfix_maps.simps by (rule map_text_reads)
  ultimately show ?thesis by (simp add: list_aliases_def)
qed

text \<open>
  The key that is published is the key that was made: after a DKIM key was set up for a domain, the records the panel tells for that domain contain exactly the selector and the
  public key of the answer, whatever the commands do in between.
\<close>

theorem dkim_key_published:
  assumes made: "dkim_setup sh h mo dn sel s = (s', Inr a)" and needed: "dns_needed sh' dn (fst s', w) = (s2, Inr (dn', rs))"
  shows "dk_selector a = sel \<and> dn' = dk_domain a
     \<and> \<lparr>nr_name = sel @ ''._domainkey.'' @ dk_domain a, nr_type = ''TXT'', nr_content = ''v=DKIM1; k=rsa; p='' @ dk_public a, nr_hint = ''DKIM''\<rparr> \<in> set rs"
proof -
  obtain d where d: "valid_mail_domain dn = Inr d" using made by (cases "valid_mail_domain dn") (auto simp: dkim_setup_def)
  have sel: "selector_ok sel" using made d by (auto simp: dkim_setup_def split: if_splits)
  have "\<exists>pub. dk_domain a = d \<and> dk_selector a = sel \<and> dk_public a = pub \<and> set_get (''dkim:'' @ d) None (fst s') = Some (sel @ '':'' @ pub)"
    using made d by (auto simp: dkim_setup_def lseq_Inr on_db_def lret_def laudit_def set_get_def set_put_def dget_dput split: if_splits)
  then have a: "dk_domain a = d" "dk_selector a = sel" and st: "set_get (''dkim:'' @ d) None (fst s') = Some (sel @ '':'' @ dk_public a)" by auto
  obtain ip t where t: "server_ip sh' (fst s', w) = (t, Inr ip)" and n: "dn' = d" "rs = fixed_records d ip @ [dkim_record d (set_get (''dkim:'' @ d) None (fst t))]"
    using needed d by (auto simp: dns_needed_def lseq_Inr)
  have "fst t = fst s'" using t by (auto simp: server_ip_def lseq_Inr on_world_def lret_def split: prod.splits)
  moreover have "CHR '':'' \<notin> set sel" using sel by (auto simp: selector_ok_def list_all_iff lower_ascii_def ascii_digit_def code_def)
  then have "takeWhile (\<lambda>c. c \<noteq> CHR '':'') (sel @ '':'' @ dk_public a) = sel" "dropWhile (\<lambda>c. c \<noteq> CHR '':'') (sel @ '':'' @ dk_public a) = '':'' @ dk_public a"
    by (induction sel) auto
  ultimately show ?thesis using a n st by (simp add: dkim_record_def Let_def)
qed

section \<open>Closed examples\<close>

text \<open>An alias needs no mail domain, unlike a mailbox, and the same alias can be stored again.\<close>

lemma alias_without_domain:
  "map (\<lambda>r. (ma_id r, ma_source r)) (mail_aliases (fst (fst (create_alias ''a@x.ir'' ''b@y.ir'' (fst (fst (create_alias ''a@x.ir'' ''b@y.ir'' (demo_ldb, ()))), ())))))
     = [(1, ''a@x.ir''), (2, ''a@x.ir'')]"
  by code_simp

definition key_shell :: "(unit \<times> fs) shell" where
  "key_shell args inp w = (w, Ended 0 (if ''rsa'' \<in> set args then ''-----BEGIN'' @ [NL] @ ''QUJD'' @ [NL] @ ''-----END'' else if ''genrsa'' \<in> set args then ''PRIVATE KEY'' else ''10.0.0.1'') [])"

definition demo_admin :: "caller lres" where
  "demo_admin = Inr \<lparr>ca_username = JStr ''m'', ca_role = JStr ''admin''\<rparr>"

definition demo_mail_run :: "(caller lres \<times> mail_request) list" where
  "demo_mail_run = [(demo_admin, AddMailDomain ''Ex.ir''), (demo_admin, CreateMailbox ''Ann@ex.ir'' ''12345678'' 100), (demo_admin, CreateMailbox ''bob@no.ir'' ''12345678'' 100),
     (demo_admin, CreateAlias ''info@ex.ir'' ''ann@ex.ir'')]"

lemma demo_empty_mail:
  "mail_domains (fst (demo_ldb, (), [] :: fs)) = []" "mailboxes (fst (demo_ldb, (), [] :: fs)) = []" "mail_aliases (fst (demo_ldb, (), [] :: fs)) = []"
  by (simp_all add: demo_ldb_def)

theorem mailboxes_have_domains_witness:
  "\<exists>d. d = fst (fold (\<lambda>(who, q). mail_serve demo_crypto key_shell demo_host demo_modes who q) demo_mail_run (demo_ldb, (), []))
     \<and> distinct (map mb_address (mailboxes d)) \<and> (\<forall>r \<in> set (mailboxes d). has_domain (mb_domain r) d)"
  using mailboxes_have_domains [OF demo_empty_mail refl, of demo_crypto key_shell demo_host demo_modes demo_mail_run] by blast

theorem postfix_maps_read_back_witness:
  "\<exists>d. d = fst (fold (\<lambda>(who, q). mail_serve demo_crypto key_shell demo_host demo_modes who q) demo_mail_run (demo_ldb, (), []))
     \<and> map (words_of []) (splitlines (pm_valias (generate_postfix_maps d))) = map (\<lambda>r. [ma_source r, ma_destination r]) (sort_key ma_source (mail_aliases d))"
  using postfix_maps_read_back [OF demo_empty_mail refl, of demo_crypto key_shell demo_host demo_modes demo_mail_run] by blast

theorem dkim_key_published_witness:
  "\<exists>s' a s2 rs. dkim_setup key_shell (demo_host\<lparr>hi_path := [''openssl'']\<rparr>) demo_modes ''ex.ir'' ''icsd'' (demo_ldb\<lparr>mail_domains := [\<lparr>md_domain = ''ex.ir'', md_active = True\<rparr>]\<rparr>, (), []) = (s', Inr a)
     \<and> dns_needed key_shell ''ex.ir'' s' = (s2, Inr (''ex.ir'', rs)) \<and> dk_public a = ''QUJD''
     \<and> \<lparr>nr_name = ''icsd._domainkey.ex.ir'', nr_type = ''TXT'', nr_content = ''v=DKIM1; k=rsa; p=QUJD'', nr_hint = ''DKIM''\<rparr> \<in> set rs"
proof -
  let ?s = "(demo_ldb\<lparr>mail_domains := [\<lparr>md_domain = ''ex.ir'', md_active = True\<rparr>]\<rparr>, (), []) :: unit web"
  let ?m = "dkim_setup key_shell (demo_host\<lparr>hi_path := [''openssl'']\<rparr>) demo_modes ''ex.ir'' ''icsd'' ?s"
  have r: "map_sum id (\<lambda>a. (dk_domain a, dk_public a)) (snd ?m) = Inr (''ex.ir'', ''QUJD'')" by code_simp
  then obtain s' a where m: "?m = (s', Inr a)" and a: "dk_domain a = ''ex.ir''" "dk_public a = ''QUJD''"
    by (cases ?m; cases "snd ?m") auto
  have v: "valid_mail_domain ''ex.ir'' = Inr ''ex.ir''" by code_simp
  have "\<exists>t ip. server_ip key_shell s' = (t, Inr ip)"
    by (cases s') (auto simp: server_ip_def lseq_def on_world_def run_cmd_def key_shell_def lret_def Let_def)
  then obtain s2 rs where n: "dns_needed key_shell ''ex.ir'' s' = (s2, Inr (''ex.ir'', rs))" by (auto simp: dns_needed_def v lseq_def lret_def)
  from dkim_key_published [OF m, of key_shell "snd s'" s2 "''ex.ir''" rs] n m a show ?thesis by (cases s2) auto
qed

end
