(* ===== verification/Databases.thy ===== *)
theory Databases
  imports Hostfs
begin

text \<open>
  Databases of the first panel: MySQL (\<open>legacy/v1/backend/app/services/databases.py\<close>), PostgreSQL (\<open>services/postgres.py\<close>) and their common routes
  (\<open>api/databases.py\<close>). Both services put statements together as texts, give them to a client program and keep one row for each database. What a client
  makes of a text is a reader of its own here: how the \<open>mysql\<close> program cuts it into statements, and where a literal of PostgreSQL ends.
\<close>

section \<open>Names and passwords\<close>

definition name_char :: "char \<Rightarrow> bool" where
  "name_char c = (alpha_ascii c \<or> ascii_digit c \<or> c = CHR ''_'')"

definition ident_ok :: "nat \<Rightarrow> string \<Rightarrow> bool" where
  \<comment> \<open>\<open>^[A-Za-z0-9_]{1,n}$\<close>, whose end also matches before a final line feed\<close>
  "ident_ok n s = (let t = drop_final_nl s in t \<noteq> [] \<and> length t \<le> n \<and> list_all name_char t)"

definition mysql_ident :: "string \<Rightarrow> string lres" where
  "mysql_ident s = (if ident_ok 64 s then Inr s else Inl (AppError ''invalid name''))"

definition pg_ident :: "string \<Rightarrow> string lres" where
  "pg_ident s = (if ident_ok 63 s then Inr s else Inl (AppError ''invalid name''))"

definition PASSWORD_ALPHABET :: string where
  "PASSWORD_ALPHABET = ''abcdefghijkmnpqrstuvwxyzABCDEFGHJKLMNPQRSTUVWXYZ23456789''"

definition gen_password :: "(nat \<Rightarrow> nat) \<Rightarrow> string" where
  \<comment> \<open>\<open>draw\<close> is what the system's random source gives for each of the 18 letters\<close>
  "gen_password draw = map (\<lambda>i. PASSWORD_ALPHABET ! (draw i mod length PASSWORD_ALPHABET)) [0..<18]"

definition unless_given :: "string option \<Rightarrow> string \<Rightarrow> string" where
  \<comment> \<open>\<open>user or name\<close>, \<open>password or gen_password()\<close>\<close>
  "unless_given v e = (case v of None \<Rightarrow> e | Some s \<Rightarrow> if s = [] then e else s)"

definition failure_text :: "cmd_result \<Rightarrow> string" where
  "failure_text r = (if cr_stderr r = [] then cr_stdout r else cr_stderr r)"

section \<open>Rows\<close>

definition base_named :: "string \<Rightarrow> ldb \<Rightarrow> base_row option" where
  "base_named n d = select_one (\<lambda>r. bs_name r = n) (bases d)"

definition newest_bases :: "base_row list \<Rightarrow> base_row list" where
  "newest_bases = sort_key (\<lambda>r. - bs_created r)"

definition record_base :: "int \<Rightarrow> string \<Rightarrow> string \<Rightarrow> (base_row \<Rightarrow> base_row) \<Rightarrow> string \<Rightarrow> ldb \<Rightarrow> ldb" where
  \<comment> \<open>the row of the name is changed where there is one, else one is added\<close>
  "record_base now name user upd engine d =
     d\<lparr>bases := (if base_named name d \<noteq> None then update_where (\<lambda>r. bs_name r = name) upd (bases d)
                 else bases d @ [\<lparr>bs_name = name, bs_user = user, bs_engine = engine, bs_created = now\<rparr>])\<rparr>"

record created_base =
  cb_base :: string
  cb_user :: string
  cb_password :: string
  cb_applied :: bool
  cb_preview :: "string option"

section \<open>MySQL\<close>

definition mysql_exec :: "'w shell \<Rightarrow> host_env \<Rightarrow> string \<Rightarrow> (ldb \<times> 'w, cmd_result) lio" where
  "mysql_exec sh h sql =
     (if \<not> has h ''mysql'' then lret (Inl (AppError ''mysql client not installed''))
      else on_world (run_priv sh h [''mysql'', ''-N'', ''-B'', ''-e'', sql] 30 False))"

definition mysql_do :: "'w shell \<Rightarrow> host_env \<Rightarrow> string \<Rightarrow> (ldb \<times> 'w, unit) lio" where
  \<comment> \<open>a failure is an error\<close>
  "mysql_do sh h sql =
     lseq (mysql_exec sh h sql) (\<lambda>r. lret (if cr_ok r then Inr () else Inl (AppError (''MySQL error: '' @ failure_text r))))"

definition mysql_create_parts :: "string \<Rightarrow> string \<Rightarrow> string \<Rightarrow> string list" where
  \<comment> \<open>without the semicolons that end each of them\<close>
  "mysql_create_parts name user password =
     [''CREATE DATABASE IF NOT EXISTS `'' @ name @ ''` CHARACTER SET utf8mb4 COLLATE utf8mb4_unicode_ci'',
      ''CREATE USER IF NOT EXISTS '' @ [CHR 0x27] @ user @ [CHR 0x27] @ ''@'' @ [CHR 0x27] @ ''localhost'' @ [CHR 0x27] @ '' IDENTIFIED BY '' @ [CHR 0x27] @ password @ [CHR 0x27],
      ''GRANT ALL PRIVILEGES ON `'' @ name @ ''`.* TO '' @ [CHR 0x27] @ user @ [CHR 0x27] @ ''@'' @ [CHR 0x27] @ ''localhost'' @ [CHR 0x27],
      ''FLUSH PRIVILEGES'']"

definition mysql_drop_parts :: "string \<Rightarrow> string option \<Rightarrow> string list" where
  "mysql_drop_parts name user =
     [''DROP DATABASE IF EXISTS `'' @ name @ ''`''] @
     (case user of None \<Rightarrow> [] | Some u \<Rightarrow> [''DROP USER IF EXISTS '' @ [CHR 0x27] @ u @ [CHR 0x27] @ ''@'' @ [CHR 0x27] @ ''localhost'' @ [CHR 0x27]]) @
     [''FLUSH PRIVILEGES'']"

definition mysql_reset_parts :: "string \<Rightarrow> string \<Rightarrow> string list" where
  "mysql_reset_parts user password =
     [''ALTER USER '' @ [CHR 0x27] @ user @ [CHR 0x27] @ ''@'' @ [CHR 0x27] @ ''localhost'' @ [CHR 0x27] @ '' IDENTIFIED BY '' @ [CHR 0x27] @ password @ [CHR 0x27],
      ''FLUSH PRIVILEGES'']"

definition script_of :: "string list \<Rightarrow> string" where
  "script_of parts = join_with '' '' (map (\<lambda>p. p @ '';'') parts)"

definition mysql_create :: "'w shell \<Rightarrow> host_env \<Rightarrow> int \<Rightarrow> (nat \<Rightarrow> nat) \<Rightarrow> string \<Rightarrow> string option \<Rightarrow> string option \<Rightarrow> bool \<Rightarrow> (ldb \<times> 'w, created_base) lio" where
  "mysql_create sh h now draw name0 user0 password0 app =
     lseq (lret (mysql_ident name0)) (\<lambda>name.
     lseq (lret (mysql_ident (unless_given user0 name))) (\<lambda>user.
       let password = unless_given password0 (gen_password draw);
           sql = script_of (mysql_create_parts name user password) in
       lseq (if app then mysql_do sh h sql else lret (Inr ())) (\<lambda>_.
       lseq (on_db (record_base now name user (\<lambda>r. r\<lparr>bs_user := user\<rparr>) ''mysql'')) (\<lambda>_.
       lseq (on_db (laudit None ''db.create'' (name @ '' (user='' @ user @ '')''))) (\<lambda>_.
         lret (Inr \<lparr>cb_base = name, cb_user = user, cb_password = password, cb_applied = app, cb_preview = (if app then None else Some sql)\<rparr>))))))"

definition live_names :: "string list \<Rightarrow> cmd_result \<Rightarrow> string list option" where
  \<comment> \<open>what the server lists, without its own databases\<close>
  "live_names own r = (if cr_ok r then Some (filter (\<lambda>n. n \<noteq> [] \<and> n \<notin> set own) (splitlines (cr_stdout r))) else None)"

definition mysql_list :: "'w shell \<Rightarrow> host_env \<Rightarrow> (ldb \<times> 'w, base_row list \<times> string list option) lio" where
  "mysql_list sh h =
     seeing (\<lambda>d. let managed = newest_bases (bases d) in
      if has h ''mysql'' then
         lseq (mysql_exec sh h ''SHOW DATABASES;'') (\<lambda>r. lret (Inr (managed, live_names [''information_schema'', ''mysql'', ''performance_schema'', ''sys''] r)))
       else lret (Inr (managed, None)))"

definition mysql_delete :: "'w shell \<Rightarrow> host_env \<Rightarrow> string \<Rightarrow> bool \<Rightarrow> bool \<Rightarrow> (ldb \<times> 'w, string) lio" where
  "mysql_delete sh h name0 drop_user app =
     lseq (lret (mysql_ident name0)) (\<lambda>name. seeing (\<lambda>d.
       lseq (if \<not> app then lret (Inr ())
             else
               case map_option bs_user (base_named name d) of
                 None \<Rightarrow> mysql_do sh h (script_of (mysql_drop_parts name None))
               | Some u \<Rightarrow>
                   if drop_user \<and> u \<noteq> [] then lseq (lret (mysql_ident u)) (\<lambda>u. mysql_do sh h (script_of (mysql_drop_parts name (Some u))))
                   else mysql_do sh h (script_of (mysql_drop_parts name None))) (\<lambda>_.
       lseq (on_db (\<lambda>d. d\<lparr>bases := delete_where (\<lambda>r. bs_name r = name) (bases d)\<rparr>)) (\<lambda>_.
       lseq (on_db (laudit None ''db.delete'' name)) (\<lambda>_. lret (Inr name))))))"

definition mysql_reset :: "'w shell \<Rightarrow> host_env \<Rightarrow> (nat \<Rightarrow> nat) \<Rightarrow> string \<Rightarrow> bool \<Rightarrow> (ldb \<times> 'w, string \<times> string \<times> string) lio" where
  "mysql_reset sh h draw name0 app =
     lseq (lret (mysql_ident name0)) (\<lambda>name. seeing (\<lambda>d.
       (case base_named name d of
          None \<Rightarrow> lret (Inl (AppError ''database not found''))
        | Some row \<Rightarrow>
            lseq (lret (mysql_ident (bs_user row))) (\<lambda>user.
            lseq (if app then mysql_do sh h (script_of (mysql_reset_parts user (gen_password draw))) else lret (Inr ())) (\<lambda>_.
            lseq (on_db (laudit None ''db.reset_password'' name)) (\<lambda>_. lret (Inr (name, user, gen_password draw))))))))"

section \<open>PostgreSQL\<close>

definition psql :: "'w shell \<Rightarrow> host_env \<Rightarrow> string \<Rightarrow> (ldb \<times> 'w, cmd_result) lio" where
  "psql sh h sql =
     (if \<not> has h ''psql'' then lret (Inl (AppError ''psql client not installed''))
      else if has h ''sudo'' then on_world (run_cmd sh [''sudo'', ''-n'', ''-u'', ''postgres'', ''psql'', ''-tAc'', sql] 30 False)
      else on_world (run_cmd sh [''psql'', ''-U'', ''postgres'', ''-tAc'', sql] 30 False))"

definition double_quotes :: "string \<Rightarrow> string" where
  \<comment> \<open>\<open>password.replace("'", "''")\<close>\<close>
  "double_quotes s = concat (map (\<lambda>c. if c = CHR 0x27 then [c, c] else [c]) s)"

definition pg_create_parts :: "string \<Rightarrow> string \<Rightarrow> string \<Rightarrow> string list" where
  "pg_create_parts name user password =
     [''CREATE ROLE '' @ user @ '' LOGIN PASSWORD '' @ [CHR 0x27] @ double_quotes password @ [CHR 0x27] @ '';'',
      ''CREATE DATABASE '' @ name @ '' OWNER '' @ user @ '' ENCODING '' @ [CHR 0x27] @ ''UTF8'' @ [CHR 0x27] @ '';'',
      ''GRANT ALL PRIVILEGES ON DATABASE '' @ name @ '' TO '' @ user @ '';'']"

fun pg_each :: "'w shell \<Rightarrow> host_env \<Rightarrow> string list \<Rightarrow> (ldb \<times> 'w, unit) lio" where
  "pg_each sh h [] = lret (Inr ())"
| "pg_each sh h (q # qs) =
     lseq (psql sh h q) (\<lambda>r.
       if \<not> cr_ok r \<and> \<not> contains (cr_stderr r) ''already exists'' then lret (Inl (AppError (''Postgres error: '' @ failure_text r)))
       else pg_each sh h qs)"

definition pg_create :: "'w shell \<Rightarrow> host_env \<Rightarrow> int \<Rightarrow> (nat \<Rightarrow> nat) \<Rightarrow> string \<Rightarrow> string option \<Rightarrow> string option \<Rightarrow> bool \<Rightarrow> (ldb \<times> 'w, created_base) lio" where
  "pg_create sh h now draw name0 user0 password0 app =
     lseq (lret (pg_ident name0)) (\<lambda>name.
     lseq (lret (pg_ident (unless_given user0 name))) (\<lambda>user.
       let password = unless_given password0 (gen_password draw);
           parts = pg_create_parts name user password in
       lseq (if app then pg_each sh h parts else lret (Inr ())) (\<lambda>_.
       lseq (on_db (record_base now name user (\<lambda>r. r\<lparr>bs_user := user, bs_engine := ''postgres''\<rparr>) ''postgres'')) (\<lambda>_.
       lseq (on_db (laudit None ''pg.create'' (name @ '' (user='' @ user @ '')''))) (\<lambda>_.
         lret (Inr \<lparr>cb_base = name, cb_user = user, cb_password = password, cb_applied = app, cb_preview = (if app then None else Some (join_with '' '' parts))\<rparr>))))))"

definition is_pg :: "base_row \<Rightarrow> bool" where
  "is_pg r = (bs_engine r = ''postgres'')"

definition pg_named :: "string \<Rightarrow> ldb \<Rightarrow> base_row option" where
  "pg_named n d = select_one (\<lambda>r. bs_name r = n \<and> is_pg r) (bases d)"

definition pg_list :: "'w shell \<Rightarrow> host_env \<Rightarrow> (ldb \<times> 'w, base_row list \<times> string list option) lio" where
  "pg_list sh h =
     seeing (\<lambda>d. let managed = newest_bases (filter is_pg (bases d)) in
      if has h ''psql'' then
         lseq (psql sh h ''SELECT datname FROM pg_database WHERE datistemplate = false;'') (\<lambda>r. lret (Inr (managed, live_names [''postgres''] r)))
       else lret (Inr (managed, None)))"

definition pg_delete :: "'w shell \<Rightarrow> host_env \<Rightarrow> string \<Rightarrow> bool \<Rightarrow> bool \<Rightarrow> (ldb \<times> 'w, string) lio" where
  "pg_delete sh h name0 drop_user app =
     lseq (lret (pg_ident name0)) (\<lambda>name. seeing (\<lambda>d.
       lseq (if \<not> app then lret (Inr ())
             else
               lseq (psql sh h (''DROP DATABASE IF EXISTS '' @ name @ '';'')) (\<lambda>r.
                 if \<not> cr_ok r then lret (Inl (AppError (''Postgres error: '' @ failure_text r)))
                 else
                   case map_option bs_user (pg_named name d) of
                     None \<Rightarrow> lret (Inr ())
                   | Some u \<Rightarrow>
                       if drop_user \<and> u \<noteq> [] then lseq (lret (pg_ident u)) (\<lambda>u. quietly (psql sh h (''DROP ROLE IF EXISTS '' @ u @ '';'')))
                       else lret (Inr ()))) (\<lambda>_.
       lseq (on_db (\<lambda>d. d\<lparr>bases := delete_where (\<lambda>r. bs_name r = name \<and> is_pg r) (bases d)\<rparr>)) (\<lambda>_.
       lseq (on_db (laudit None ''pg.delete'' name)) (\<lambda>_. lret (Inr name))))))"

definition pg_reset :: "'w shell \<Rightarrow> host_env \<Rightarrow> (nat \<Rightarrow> nat) \<Rightarrow> string \<Rightarrow> bool \<Rightarrow> (ldb \<times> 'w, string \<times> string \<times> string) lio" where
  "pg_reset sh h draw name0 app =
     lseq (lret (pg_ident name0)) (\<lambda>name. seeing (\<lambda>d.
       (case pg_named name d of
          None \<Rightarrow> lret (Inl (AppError ''database not found''))
        | Some row \<Rightarrow>
            lseq (lret (pg_ident (bs_user row))) (\<lambda>user.
            lseq (if \<not> app then lret (Inr ())
                  else lseq (psql sh h (''ALTER ROLE '' @ user @ '' WITH PASSWORD '' @ [CHR 0x27] @ gen_password draw @ [CHR 0x27] @ '';'')) (\<lambda>r.
                         lret (if cr_ok r then Inr () else Inl (AppError (''Postgres error: '' @ failure_text r))))) (\<lambda>_.
            lseq (on_db (laudit None ''pg.reset_password'' name)) (\<lambda>_. lret (Inr (name, user, gen_password draw))))))))"

section \<open>Routes\<close>

datatype engine = MySQL | Postgres

definition engine_of :: "string \<Rightarrow> engine" where
  "engine_of e = (if lower (if e = [] then ''mysql'' else e) \<in> {''postgres'', ''postgresql'', ''pg''} then Postgres else MySQL)"

record base_lists =
  bl_mysql :: "base_row list \<times> string list option"
  bl_postgres :: "base_row list \<times> string list option"
  bl_managed :: "base_row list"

definition route_list_bases :: "'w shell \<Rightarrow> host_env \<Rightarrow> caller lres \<Rightarrow> (ldb \<times> 'w, base_lists) lio" where
  "route_list_bases sh h who =
     lseq (lret who) (\<lambda>_. lseq (mysql_list sh h) (\<lambda>m. lseq (pg_list sh h) (\<lambda>p.
       lret (Inr \<lparr>bl_mysql = m, bl_postgres = p, bl_managed = fst m @ fst p\<rparr>))))"

definition route_engines :: "host_env \<Rightarrow> caller lres \<Rightarrow> ('s, bool \<times> bool) lio" where
  "route_engines h who = lseq (lret who) (\<lambda>_. lret (Inr (has h ''mysql'', has h ''psql'')))"

definition route_create_base ::
  "'w shell \<Rightarrow> host_env \<Rightarrow> int \<Rightarrow> (nat \<Rightarrow> nat) \<Rightarrow> caller lres \<Rightarrow> string \<Rightarrow> string option \<Rightarrow> string option \<Rightarrow> string \<Rightarrow> bool \<Rightarrow> (ldb \<times> 'w, created_base) lio"
where
  "route_create_base sh h now draw who name user password en app =
     as_manager who (app_http 400 (case engine_of en of
       Postgres \<Rightarrow> pg_create sh h now draw name user password app | MySQL \<Rightarrow> mysql_create sh h now draw name user password app))"

definition route_reset_base :: "'w shell \<Rightarrow> host_env \<Rightarrow> (nat \<Rightarrow> nat) \<Rightarrow> caller lres \<Rightarrow> string \<Rightarrow> string \<Rightarrow> (ldb \<times> 'w, string \<times> string \<times> string) lio" where
  "route_reset_base sh h draw who name en =
     as_manager who (app_http 400 (case engine_of en of Postgres \<Rightarrow> pg_reset sh h draw name True | MySQL \<Rightarrow> mysql_reset sh h draw name True))"

definition route_delete_base :: "'w shell \<Rightarrow> host_env \<Rightarrow> caller lres \<Rightarrow> string \<Rightarrow> string \<Rightarrow> bool \<Rightarrow> (ldb \<times> 'w, string) lio" where
  "route_delete_base sh h who name en drop_user =
     as_manager who (app_http 400 (case engine_of en of Postgres \<Rightarrow> pg_delete sh h name drop_user True | MySQL \<Rightarrow> mysql_delete sh h name drop_user True))"

section \<open>What the mysql program makes of a script\<close>

datatype reading = Plain | Quoted char | Comment

definition quote_char :: "char \<Rightarrow> bool" where
  "quote_char c = (c \<in> {CHR 0x27, CHR 0x22, CHR 0x60})"

fun client_cut :: "reading \<Rightarrow> string \<Rightarrow> string \<Rightarrow> string list" where
  \<comment> \<open>its documented rules: a semicolon outside quotes ends a statement, a backslash in a quoted text takes the next letter along, \<open>#\<close> begins a comment\<close>
  "client_cut m acc [] = (if acc = [] then [] else [acc])"
| "client_cut Plain acc (c # cs) =
     (if c = CHR '';'' then acc # client_cut Plain [] cs
      else if c = CHR ''#'' then client_cut Comment acc cs
      else if acc = [] \<and> c = CHR '' '' then client_cut Plain acc cs
      else client_cut (if quote_char c then Quoted c else Plain) (acc @ [c]) cs)"
| "client_cut (Quoted q) acc (c # cs) =
     (if c = CHR 0x5C \<and> q \<noteq> CHR 0x60 then (case cs of [] \<Rightarrow> [acc @ [c]] | e # r \<Rightarrow> client_cut (Quoted q) (acc @ [c, e]) r)
      else client_cut (if c = q then Plain else Quoted q) (acc @ [c]) cs)"
| "client_cut Comment acc (c # cs) = client_cut (if c = NL then Plain else Comment) acc cs"

fun whole :: "reading \<Rightarrow> string \<Rightarrow> bool" where
  \<comment> \<open>a text that the client reads to its end as a part of one statement\<close>
  "whole m [] = (m = Plain)"
| "whole Plain (c # cs) = (c \<noteq> CHR '';'' \<and> c \<noteq> CHR ''#'' \<and> whole (if quote_char c then Quoted c else Plain) cs)"
| "whole (Quoted q) (c # cs) =
     (if c = CHR 0x5C \<and> q \<noteq> CHR 0x60 then (case cs of [] \<Rightarrow> False | e # r \<Rightarrow> whole (Quoted q) r)
      else whole (if c = q then Plain else Quoted q) cs)"
| "whole Comment (c # cs) = False"

lemma cut_whole_on: "whole m p \<Longrightarrow> acc \<noteq> [] \<Longrightarrow> client_cut m acc (p @ ys) = client_cut Plain (acc @ p) ys"
  by (induction m p arbitrary: acc rule: whole.induct) (auto split: list.splits)

lemma cut_whole: "whole Plain p \<Longrightarrow> p \<noteq> [] \<Longrightarrow> hd p \<noteq> CHR '' '' \<Longrightarrow> client_cut Plain [] (p @ ys) = client_cut Plain p ys"
  by (cases p) (auto simp: cut_whole_on)

lemma cut_script:
  "\<forall>p \<in> set ps. whole Plain p \<and> p \<noteq> [] \<and> hd p \<noteq> CHR '' '' \<Longrightarrow> client_cut Plain [] (script_of ps) = ps"
proof (induction ps)
  case (Cons p ps)
  then show ?case by (cases ps) (simp_all add: script_of_def cut_whole)
qed (simp add: script_of_def)

lemma whole_names: "list_all (\<lambda>c. name_char c \<or> c = NL) xs \<Longrightarrow> whole Plain (xs @ ys) = whole Plain ys"
proof (induction xs)
  case (Cons c xs)
  have "c \<noteq> CHR '';''" "c \<noteq> CHR ''#''" "\<not> quote_char c"
    using Cons.prems by (auto simp: name_char_def alpha_ascii_def lower_ascii_def ascii_digit_def code_def quote_char_def)
  then show ?case using Cons by simp
qed simp

lemma whole_quoted: "list_all (\<lambda>c. c \<noteq> q \<and> c \<noteq> CHR 0x5C) xs \<Longrightarrow> whole (Quoted q) (xs @ q # ys) = whole Plain ys"
  if "q \<noteq> CHR 0x5C"
  using that by (induction xs) auto

lemma ident_chars:
  assumes "ident_ok n s" shows "list_all (\<lambda>c. name_char c \<or> c = NL) s"
proof -
  have "set s \<subseteq> set (drop_final_nl s) \<union> {NL}"
  proof (cases "s \<noteq> [] \<and> last s = NL")
    case True
    then have "s = butlast s @ [NL]" using append_butlast_last_id [of s] by simp
    then have "set s = set (butlast s) \<union> {NL}" by (metis set_append list.simps(15) list.set(1))
    then show ?thesis using True by (simp add: drop_final_nl_def)
  qed (auto simp: drop_final_nl_def)
  then show ?thesis using assms by (auto simp: ident_ok_def Let_def list_all_iff)
qed

lemma ident_quotable:
  assumes "ident_ok n s" "quote_char q" shows "list_all (\<lambda>c. c \<noteq> q \<and> c \<noteq> CHR 0x5C) s"
proof -
  have "c \<noteq> q \<and> c \<noteq> CHR 0x5C" if "name_char c \<or> c = NL" for c
    using that assms(2) by (auto simp: name_char_def alpha_ascii_def lower_ascii_def ascii_digit_def code_def quote_char_def)
  then show ?thesis using ident_chars [OF assms(1)] by (auto simp: list_all_iff)
qed

lemma whole_ident: "ident_ok n s \<Longrightarrow> quote_char q \<Longrightarrow> whole (Quoted q) (s @ q # ys) = whole Plain ys"
  by (rule whole_quoted [OF _ ident_quotable]) (auto simp: quote_char_def)

definition harmless :: "string \<Rightarrow> bool" where
  \<comment> \<open>a password without quotes and backslashes\<close>
  "harmless p = list_all (\<lambda>c. c \<noteq> CHR 0x27 \<and> c \<noteq> CHR 0x5C) p"

lemma whole_password: "harmless p \<Longrightarrow> whole (Quoted (CHR 0x27)) (p @ CHR 0x27 # ys) = whole Plain ys"
  by (rule whole_quoted) (simp_all add: harmless_def)

lemmas whole_parts = quote_char_def whole_ident [unfolded quote_char_def] whole_password

lemma create_parts_whole:
  assumes "ident_ok 64 n" "ident_ok 64 u" "harmless p"
  shows "client_cut Plain [] (script_of (mysql_create_parts n u p)) = mysql_create_parts n u p"
  by (rule cut_script) (use assms in \<open>simp add: mysql_create_parts_def whole_parts\<close>)

lemma drop_parts_whole:
  assumes "ident_ok 64 n" "case v of None \<Rightarrow> True | Some u \<Rightarrow> ident_ok 64 u"
  shows "client_cut Plain [] (script_of (mysql_drop_parts n v)) = mysql_drop_parts n v"
  by (rule cut_script) (use assms in \<open>auto simp: mysql_drop_parts_def whole_parts split: option.splits\<close>)

lemma reset_parts_whole:
  assumes "ident_ok 64 u" "harmless p"
  shows "client_cut Plain [] (script_of (mysql_reset_parts u p)) = mysql_reset_parts u p"
  by (rule cut_script) (use assms in \<open>simp add: mysql_reset_parts_def whole_parts\<close>)

lemma generated_harmless: "harmless (gen_password draw)"
proof -
  have "PASSWORD_ALPHABET ! (k mod length PASSWORD_ALPHABET) \<in> set PASSWORD_ALPHABET" for k
    by (rule nth_mem) (simp add: PASSWORD_ALPHABET_def)
  moreover have "CHR 0x27 \<notin> set PASSWORD_ALPHABET" "CHR 0x5C \<notin> set PASSWORD_ALPHABET" by (simp_all add: PASSWORD_ALPHABET_def)
  ultimately show ?thesis by (simp add: harmless_def gen_password_def list_all_iff) metis
qed

section \<open>What the services send\<close>

definition noted :: "'w shell \<Rightarrow> ('w \<times> string list list) shell" where
  \<comment> \<open>the same commands, written down\<close>
  "noted sh args inp w = (let (w', p) = sh args inp (fst w) in ((w', snd w @ [args]), p))"

definition only_sends :: "(string list \<Rightarrow> bool) \<Rightarrow> (ldb \<times> 'w \<times> string list list, 'v) lio \<Rightarrow> bool" where
  "only_sends P m = (\<forall>s. \<exists>more. snd (snd (fst (m s))) = snd (snd s) @ more \<and> list_all P more)"

lemma sends_lret: "only_sends P (lret r)"
  by (simp add: only_sends_def lret_def)

lemma sends_on_db: "only_sends P (on_db f)"
  by (simp add: only_sends_def on_db_def)

lemma sends_lseq:
  assumes "only_sends P m" "\<And>v. only_sends P (k v)"
  shows "only_sends P (lseq m k)"
  unfolding only_sends_def
proof
  fix s
  obtain s' r where m: "m s = (s', r)" by fastforce
  obtain l1 where 1: "snd (snd s') = snd (snd s) @ l1" "list_all P l1" using assms(1) m unfolding only_sends_def by (metis fst_conv)
  show "\<exists>l. snd (snd (fst (lseq m k s))) = snd (snd s) @ l \<and> list_all P l"
  proof (cases r)
    case (Inr v)
    obtain l2 where "snd (snd (fst (k v s'))) = snd (snd s') @ l2" "list_all P l2" using assms(2) unfolding only_sends_def by blast
    then show ?thesis using 1 Inr m by (auto simp: lseq_def)
  qed (use 1 m in \<open>auto simp: lseq_def\<close>)
qed

lemma sends_when: "(\<And>v. r = Inr v \<Longrightarrow> only_sends P (k v)) \<Longrightarrow> only_sends P (lseq (lret r) k)"
  by (cases r) (auto simp: only_sends_def lseq_def lret_def)

lemma sends_if: "(b \<Longrightarrow> only_sends P m) \<Longrightarrow> (\<not> b \<Longrightarrow> only_sends P n) \<Longrightarrow> only_sends P (if b then m else n)"
  by simp

lemma sends_run: "P args \<Longrightarrow> only_sends P (on_world (run_cmd (noted sh) args tmo strict))"
  by (auto simp: only_sends_def on_world_def run_cmd_def noted_def Let_def split: prod.splits)

lemma sends_app_http: "only_sends P m \<Longrightarrow> only_sends P (app_http c m)"
  by (simp add: only_sends_def app_http_fst)

lemma sends_quietly: "only_sends P m \<Longrightarrow> only_sends P (quietly m)"
  unfolding quietly_def by (intro sends_lseq sends_lret)

lemma sends_as_manager: "only_sends P m \<Longrightarrow> only_sends P (as_manager who m)"
  unfolding as_manager_def by (intro sends_lseq sends_lret)

lemma sends_seeing: "(\<And>d. only_sends P (k d)) \<Longrightarrow> only_sends P (seeing k)"
  by (simp add: only_sends_def seeing_def)

lemma sends_let: "only_sends P (f x) \<Longrightarrow> only_sends P (let y = x in f y)"
  by simp

lemmas sends_rules = sends_lret sends_on_db sends_if sends_app_http sends_as_manager sends_quietly

definition meant :: "string list set" where
  \<comment> \<open>the scripts the MySQL service is meant to send\<close>
  "meant = {mysql_create_parts n u p | n u p. ident_ok 64 n \<and> ident_ok 64 u} \<union> {mysql_drop_parts n v | n v. ident_ok 64 n \<and> (case v of None \<Rightarrow> True | Some u \<Rightarrow> ident_ok 64 u)}
     \<union> {mysql_reset_parts u p | u p. ident_ok 64 u}"

definition as_meant :: "host_env \<Rightarrow> string list \<Rightarrow> bool" where
  "as_meant h args = (\<exists>parts \<in> meant. args = sudo_prefix h @ [''mysql'', ''-N'', ''-B'', ''-e'', script_of parts] \<and> client_cut Plain [] (script_of parts) = parts)"

lemma run_priv_run: "args \<noteq> [] \<Longrightarrow> run_priv sh h args tmo strict = run_cmd sh (sudo_prefix h @ args) tmo strict"
  by (simp add: run_priv_def fun_eq_iff)

lemma sends_mysql: "as_meant h (sudo_prefix h @ [''mysql'', ''-N'', ''-B'', ''-e'', sql]) \<Longrightarrow> only_sends (as_meant h) (mysql_do (noted sh) h sql)"
  unfolding mysql_do_def mysql_exec_def
  by (intro sends_lseq sends_rules) (simp add: run_priv_run sends_run)

lemma mysql_ident_iff: "mysql_ident s = Inr v \<longleftrightarrow> ident_ok 64 s \<and> v = s"
  by (auto simp: mysql_ident_def)

lemma create_sends:
  assumes "case password of None \<Rightarrow> True | Some p \<Rightarrow> harmless p"
  shows "only_sends (as_meant h) (mysql_create (noted sh) h now draw name user password app)"
proof -
  have p: "harmless (unless_given password (gen_password draw))" using assms generated_harmless by (auto simp: unless_given_def split: option.split)
  have "as_meant h (sudo_prefix h @ [''mysql'', ''-N'', ''-B'', ''-e'', script_of (mysql_create_parts n u (unless_given password (gen_password draw)))])"
    if "ident_ok 64 n" "ident_ok 64 u" for n u
    using that create_parts_whole [OF that p] unfolding as_meant_def meant_def by blast
  then show ?thesis unfolding mysql_create_def Let_def
    by (intro sends_when sends_lseq sends_rules sends_mysql) (auto simp: mysql_ident_iff)
qed

lemma drop_as_meant:
  "ident_ok 64 n \<Longrightarrow> (case v of None \<Rightarrow> True | Some u \<Rightarrow> ident_ok 64 u) \<Longrightarrow>
   as_meant h (sudo_prefix h @ [''mysql'', ''-N'', ''-B'', ''-e'', script_of (mysql_drop_parts n v)])"
  using drop_parts_whole [of n v] unfolding as_meant_def meant_def by blast

lemma sends_drop: "ident_ok 64 n \<Longrightarrow> (case v of None \<Rightarrow> True | Some u \<Rightarrow> ident_ok 64 u) \<Longrightarrow> only_sends (as_meant h) (mysql_do (noted sh) h (script_of (mysql_drop_parts n v)))"
  by (rule sends_mysql) (rule drop_as_meant)

lemma delete_sends: "only_sends (as_meant h) (mysql_delete (noted sh) h name drop_user app)"
  unfolding mysql_delete_def
  by (intro sends_when sends_seeing sends_lseq sends_rules)
    (auto simp: mysql_ident_iff intro!: sends_if sends_drop sends_when sends_lret split: option.split)

lemma reset_sends: "only_sends (as_meant h) (mysql_reset (noted sh) h draw name app)"
proof -
  have "as_meant h (sudo_prefix h @ [''mysql'', ''-N'', ''-B'', ''-e'', script_of (mysql_reset_parts u (gen_password draw))])" if "ident_ok 64 u" for u
    using that reset_parts_whole [OF that generated_harmless, of draw] unfolding as_meant_def meant_def by blast
  then have *: "only_sends (as_meant h) (mysql_do (noted sh) h (script_of (mysql_reset_parts u (gen_password draw))))" if "ident_ok 64 u" for u
    using that by (intro sends_mysql)
  show ?thesis unfolding mysql_reset_def
    by (intro sends_when sends_seeing) (auto split: option.split simp: mysql_ident_iff intro!: sends_when sends_lseq sends_if sends_on_db sends_lret *)
qed

section \<open>Requests\<close>

datatype base_request =
    CreateBase string "string option" "string option" string bool
  | ResetBase string string
  | DeleteBase string string bool

fun base_serve :: "'w shell \<Rightarrow> host_env \<Rightarrow> int \<Rightarrow> (nat \<Rightarrow> nat) \<Rightarrow> caller lres \<Rightarrow> base_request \<Rightarrow> (ldb \<times> 'w, unit) lio" where
  "base_serve sh h now draw who (CreateBase n u p en app) = quietly (route_create_base sh h now draw who n u p en app)"
| "base_serve sh h now draw who (ResetBase n en) = quietly (route_reset_base sh h draw who n en)"
| "base_serve sh h now draw who (DeleteBase n en du) = quietly (route_delete_base sh h who n en du)"

fun asked_engine :: "base_request \<Rightarrow> engine" where
  "asked_engine (CreateBase n u p en app) = engine_of en"
| "asked_engine (ResetBase n en) = engine_of en"
| "asked_engine (DeleteBase n en du) = engine_of en"

fun given_password :: "base_request \<Rightarrow> string" where
  "given_password (CreateBase n u (Some p) en app) = p"
| "given_password q = []"


lemma cut_comment: "NL \<notin> set xs \<Longrightarrow> client_cut Comment acc xs = (if acc = [] then [] else [acc])"
  by (induction xs) auto

text \<open>A password with a quote is not kept apart: it ends the literal, and what follows is run as statements of its own, with the rights of the server's root.\<close>

lemma password_runs_any_statement:
  assumes "list_all name_char n" "list_all name_char u" and ev: "whole Plain evil" "evil \<noteq> []" "hd evil \<noteq> CHR '' ''"
  shows "client_cut Plain [] (script_of (mysql_create_parts n u ([CHR ''x'', CHR 0x27] @ ''; '' @ evil @ '';#'')))
     = [hd (mysql_create_parts n u []), mysql_create_parts n u ''x'' ! 1, evil]"
proof -
  have q: "list_all (\<lambda>c. c \<noteq> q \<and> c \<noteq> CHR 0x5C) s" "NL \<notin> set s" if "list_all name_char s" "quote_char q" for s q
    using that by (auto simp: name_char_def alpha_ascii_def lower_ascii_def ascii_digit_def code_def quote_char_def list_all_iff)
  let ?p = "mysql_create_parts n u ''x''"
  let ?rest = "[CHR 0x27] @ ''; '' @ script_of [?p ! 2, ?p ! 3]"
  have w: "whole Plain (hd ?p)" "whole Plain (?p ! 1)"
    using q(1) [OF assms(1), of "CHR 0x60"] q(1) [OF assms(2), of "CHR 0x27"]
    by (simp_all add: mysql_create_parts_def quote_char_def whole_quoted)
  have "NL \<notin> set ?rest" using q(2) [OF assms(1), of "CHR 0x60"] q(2) [OF assms(2), of "CHR 0x60"]
    by (simp add: mysql_create_parts_def script_of_def quote_char_def)
  moreover have "script_of (mysql_create_parts n u ([CHR ''x'', CHR 0x27] @ ''; '' @ evil @ '';#''))
      = hd ?p @ ''; '' @ ?p ! 1 @ ''; '' @ evil @ '';#'' @ ?rest"
    by (simp add: script_of_def mysql_create_parts_def)
  moreover have "hd ?p \<noteq> []" "hd (hd ?p) \<noteq> CHR '' ''" "?p ! 1 \<noteq> []" "hd (?p ! 1) \<noteq> CHR '' ''" by (simp_all add: mysql_create_parts_def)
  moreover have "hd ?p = hd (mysql_create_parts n u [])" by (simp add: mysql_create_parts_def)
  ultimately show ?thesis using w ev by (simp add: cut_whole cut_comment)
qed

section \<open>Literals of PostgreSQL\<close>

fun read_literal :: "string \<Rightarrow> (string \<times> string) option" where
  \<comment> \<open>after the opening quote: the text up to the closing one, two quotes standing for one, and what follows\<close>
  "read_literal [] = None"
| "read_literal (c # cs) =
     (if c \<noteq> CHR 0x27 then map_option (\<lambda>(t, r). (c # t, r)) (read_literal cs)
      else case cs of
             [] \<Rightarrow> Some ([], [])
           | e # r \<Rightarrow> if e = CHR 0x27 then map_option (\<lambda>(t, r). (CHR 0x27 # t, r)) (read_literal r) else Some ([], cs))"

lemma read_doubled: "rest = [] \<or> hd rest \<noteq> CHR 0x27 \<Longrightarrow> read_literal (double_quotes p @ CHR 0x27 # rest) = Some (p, rest)"
  by (induction p) (auto simp: double_quotes_def split: list.splits)

text \<open>
  Cn. Any password arrives at PostgreSQL: in the statement that makes the role, the literal begins right after the word \<open>PASSWORD\<close>, reads back as exactly the given
  password, whatever letters it has, and only the final semicolon follows it.
\<close>

theorem postgres_password_arrives:
  "\<exists>rest. hd (pg_create_parts name user password) = ''CREATE ROLE '' @ user @ '' LOGIN PASSWORD '' @ CHR 0x27 # rest \<and> read_literal rest = Some (password, '';'')"
  by (intro exI [of _ "double_quotes password @ CHR 0x27 # '';''"] conjI read_doubled) (simp_all add: pg_create_parts_def)

section \<open>The table\<close>

definition bases_ok :: "ldb \<Rightarrow> bool" where
  "bases_ok d = (distinct (map bs_name (bases d)) \<and> (\<forall>r \<in> set (bases d). ident_ok 64 (bs_name r) \<and> ident_ok 64 (bs_user r) \<and> bs_engine r \<in> {''mysql'', ''postgres''}))"

lemma log_free_bases: "log_free bases_ok"
  by (simp add: log_free_def bases_ok_def)

lemma pg_ident_iff: "pg_ident s = Inr v \<longleftrightarrow> ident_ok 63 s \<and> v = s"
  by (auto simp: pg_ident_def)

lemma ident_63: "ident_ok 63 s \<Longrightarrow> ident_ok 64 s"
  by (auto simp: ident_ok_def Let_def)

lemma bases_update:
  assumes "bases_ok d" "\<And>r. r \<in> set (bases d) \<Longrightarrow> bs_name (f r) = bs_name r \<and> ident_ok 64 (bs_user (f r)) \<and> bs_engine (f r) \<in> {''mysql'', ''postgres''}"
  shows "bases_ok (d\<lparr>bases := update_where p f (bases d)\<rparr>)"
proof -
  have names: "map bs_name (update_where p f (bases d)) = map bs_name (bases d)" using assms(2) by (simp add: update_where_def)
  have "ident_ok 64 (bs_name r) \<and> ident_ok 64 (bs_user r) \<and> bs_engine r \<in> {''mysql'', ''postgres''}" if "r \<in> set (update_where p f (bases d))" for r
    using that assms by (auto simp: bases_ok_def update_where_def)
  then show ?thesis using assms(1) names by (simp add: bases_ok_def)
qed

lemma bases_record:
  assumes "bases_ok d" "ident_ok 64 n" "ident_ok 64 u" "en \<in> {''mysql'', ''postgres''}"
    and "\<And>r. bs_name (f r) = bs_name r \<and> bs_user (f r) = u \<and> (bs_engine (f r) = bs_engine r \<or> bs_engine (f r) = en)"
  shows "bases_ok (record_base now n u f en d)"
proof (cases "base_named n d")
  case None
  then have "n \<notin> bs_name ` set (bases d)" by (auto simp: base_named_def select_one_None)
  then show ?thesis using assms None by (auto simp: record_base_def bases_ok_def)
next
  case (Some r)
  have "bases_ok (d\<lparr>bases := update_where (\<lambda>r. bs_name r = n) f (bases d)\<rparr>)"
    using assms(1) by (rule bases_update) (use assms in \<open>auto simp: bases_ok_def, metis+\<close>)
  then show ?thesis using Some by (simp add: record_base_def)
qed

lemma bases_delete: "bases_ok d \<Longrightarrow> bases_ok (d\<lparr>bases := delete_where p (bases d)\<rparr>)"
  by (auto simp: bases_ok_def delete_where_def distinct_map_filter)

lemma keeps_valid: "(\<And>v. r = Inr v \<Longrightarrow> holds_over P (k v)) \<Longrightarrow> holds_over P (lseq (lret r) k)"
  by (cases r) (auto simp: holds_over_def lseq_def lret_def)

lemma keeps_psql: "holds_over P (psql sh h q)"
  unfolding psql_def by (intro keeps_rules)

lemma keeps_mysql_do: "holds_over P (mysql_do sh h q)"
  unfolding mysql_do_def mysql_exec_def by (intro keeps_rules)

lemma keeps_pg_each: "holds_over P (pg_each sh h qs)"
  by (induction qs) (auto intro!: keeps_rules keeps_psql)

lemma bases_laudit [simp]: "bases_ok (laudit un a t d) = bases_ok d"
  by (simp add: laudit_def bases_ok_def)

lemmas keeps_bases = keeps_valid keeps_seeing keeps_rules keeps_psql keeps_mysql_do keeps_pg_each keeps_laudit keeps_Let log_free_bases keeps_on_db

lemma mysql_create_keeps: "holds_over bases_ok (mysql_create sh h now draw n u p app)"
  unfolding mysql_create_def Let_def by (intro keeps_bases) (auto simp: mysql_ident_iff intro!: bases_record)

lemma pg_create_keeps: "holds_over bases_ok (pg_create sh h now draw n u p app)"
  unfolding pg_create_def Let_def by (intro keeps_bases) (auto simp: pg_ident_iff intro!: bases_record ident_63)

lemma mysql_delete_keeps: "holds_over bases_ok (mysql_delete sh h n du app)"
  unfolding mysql_delete_def
  by (intro keeps_bases bases_delete) (auto split: option.split intro!: keeps_bases)

lemma pg_delete_keeps: "holds_over bases_ok (pg_delete sh h n du app)"
  unfolding pg_delete_def
  by (intro keeps_bases bases_delete) (auto split: option.split intro!: keeps_bases)

lemma mysql_reset_keeps: "holds_over bases_ok (mysql_reset sh h draw n app)"
  unfolding mysql_reset_def by (intro keeps_valid keeps_seeing) (auto split: option.split intro!: keeps_bases)

lemma pg_reset_keeps: "holds_over bases_ok (pg_reset sh h draw n app)"
  unfolding pg_reset_def by (intro keeps_valid keeps_seeing) (auto split: option.split intro!: keeps_bases)

lemma base_serve_keeps: "holds_over bases_ok (base_serve sh h now draw who q)"
  by (cases q) (auto simp: route_create_base_def route_reset_base_def route_delete_base_def split: engine.split
    intro!: keeps_rules mysql_create_keeps pg_create_keeps mysql_delete_keeps pg_delete_keeps mysql_reset_keeps pg_reset_keeps)

interpretation bases_run: machine "\<lambda>(now, draw, who, q) s. fst (base_serve sh h now draw who q s)" "\<lambda>s. bases_ok (fst s)" for sh h
  by unfold_locales (auto simp: keepsD [OF base_serve_keeps] split: prod.split)

text \<open>
  One row for each database: whatever requests come in for either engine, from anyone, at any time, whatever the servers answer, names stay unique, and every
  name and user in the table is one that the pattern accepts.
\<close>

theorem database_names_unique:
  assumes "bases (fst s) = []"
    and "d = fst (fold (\<lambda>(now, draw, who, q) s. fst (base_serve sh h now draw who q s)) qs s)"
  shows "distinct (map bs_name (bases d)) \<and> (\<forall>r \<in> set (bases d). ident_ok 64 (bs_name r) \<and> ident_ok 64 (bs_user r))"
proof -
  have "bases_ok (fst s)" using assms(1) by (simp add: bases_ok_def)
  from bases_run.run_inv [OF this, of sh h qs] have "bases_ok d" unfolding assms(2) by (simp only:)
  then show ?thesis by (simp add: bases_ok_def)
qed

section \<open>The wrong engine\<close>

text \<open>
  The engine of a request is not compared with that of the row: deleting a PostgreSQL database without naming the engine removes the row, although only MySQL is told
  to drop anything, so the database stays on its server and the panel no longer knows it.
\<close>

theorem wrong_engine_forgets:
  assumes who: "\<exists>c. require_role ''manager'' who = Inr c" and en: "engine_of en = MySQL" and n: "ident_ok 64 n"
    and row: "base_named n d = Some row" "is_pg row" and u: "ident_ok 64 (bs_user row)"
    and ok: "route_delete_base (noted sh) h who n en du (d, w, []) = ((d', w', cmds), Inr a)"
  shows "base_named n d' = None \<and> (\<forall>args \<in> set cmds. ''mysql'' \<in> set args \<and> ''psql'' \<notin> set args)"
proof
  obtain c where c: "require_role ''manager'' who = Inr c" using who by blast
  have del: "app_http 400 (mysql_delete (noted sh) h n du True) (d, w, []) = ((d', w', cmds), Inr a)"
    using ok c en by (simp add: route_delete_base_def as_manager_def lseq_def lret_def)
  have "\<forall>args \<in> set cmds. as_meant h args"
    using delete_sends [of h sh n du True] app_http_fst [of 400 "mysql_delete (noted sh) h n du True" "(d, w, [])"] del
    unfolding only_sends_def by (metis append_Nil fst_conv list_all_iff snd_conv)
  moreover have "hd (script_of parts) \<noteq> CHR ''p''" if "parts \<in> meant" for parts
    using that by (auto simp: meant_def script_of_def mysql_create_parts_def mysql_drop_parts_def mysql_reset_parts_def split: option.splits)
  then have "''psql'' \<noteq> script_of parts" if "parts \<in> meant" for parts using that by (metis list.sel(1))
  then have "''mysql'' \<in> set args \<and> ''psql'' \<notin> set args" if "as_meant h args" for args
    using that by (auto simp: as_meant_def sudo_prefix_def split: option.splits if_splits)
  ultimately show "\<forall>args \<in> set cmds. ''mysql'' \<in> set args \<and> ''psql'' \<notin> set args" by blast
  have "mysql_delete (noted sh) h n du True (d, w, []) = ((d', w', cmds), Inr a)"
    using del by (auto simp: app_http_def split: prod.splits sum.splits lexc.splits)
  then show "base_named n d' = None"
    using n by (auto simp: mysql_delete_def mysql_ident_def seeing_def lseq_def lret_def on_db_def laudit_def base_named_def select_one_None delete_where_def split: prod.splits sum.splits)
qed

section \<open>Concrete requests\<close>

definition quiet_shell :: "unit shell" where
  "quiet_shell args inp w = (w, Ended 0 [] [])"

definition demo_manager :: "caller lres" where
  "demo_manager = Inr \<lparr>ca_username = JStr ''m'', ca_role = JStr ''manager''\<rparr>"

definition mysql_host :: host_env where
  "mysql_host = \<lparr>hi_root = Some True, hi_path = [''mysql'', ''psql'']\<rparr>"


theorem database_names_unique_witness:
  "\<exists>d. d = fst (fold (\<lambda>(now, draw, who, q) s. fst (base_serve quiet_shell mysql_host now draw who q s))
      [(5, id, demo_manager, CreateBase ''shop'' None None ''mysql'' True), (6, id, demo_manager, CreateBase ''shop'' None None ''pg'' True)] (demo_ldb, ()))
    \<and> distinct (map bs_name (bases d))"
  using database_names_unique [of "(demo_ldb, ())", OF _ refl, of quiet_shell mysql_host
      "[(5, id, demo_manager, CreateBase ''shop'' None None ''mysql'' True), (6, id, demo_manager, CreateBase ''shop'' None None ''pg'' True)]"]
  by (simp add: demo_ldb_def)

definition pg_row :: base_row where
  "pg_row = \<lparr>bs_name = ''shop'', bs_user = ''shop'', bs_engine = ''postgres'', bs_created = 5\<rparr>"

theorem wrong_engine_forgets_witness:
  "\<exists>d' w' cmds a. route_delete_base (noted quiet_shell) mysql_host demo_manager ''shop'' ''mysql'' True (demo_ldb\<lparr>bases := [pg_row]\<rparr>, (), []) = ((d', w', cmds), Inr a)
     \<and> base_named ''shop'' d' = None \<and> (\<forall>args \<in> set cmds. ''psql'' \<notin> set args)"
proof -
  let ?m = "route_delete_base (noted quiet_shell) mysql_host demo_manager ''shop'' ''mysql'' True (demo_ldb\<lparr>bases := [pg_row]\<rparr>, (), [])"
  have "case snd ?m of Inl e \<Rightarrow> False | Inr a \<Rightarrow> True" by code_simp
  then obtain d' w' cmds a where m: "?m = ((d', w', cmds), Inr a)" by (cases ?m) (auto split: sum.splits)
  have "\<exists>c. require_role ''manager'' demo_manager = Inr c" by (simp add: demo_manager_def require_role_def lbind_def role_rank_def ROLE_RANK_def dget_def)
  moreover have "engine_of ''mysql'' = MySQL" by code_simp
  moreover have "ident_ok 64 ''shop''" "ident_ok 64 (bs_user pg_row)" by code_simp+
  moreover have "base_named ''shop'' (demo_ldb\<lparr>bases := [pg_row]\<rparr>) = Some pg_row" by (simp add: base_named_def select_one_def pg_row_def)
  moreover have "is_pg pg_row" by (simp add: is_pg_def pg_row_def)
  ultimately show ?thesis using wrong_engine_forgets [OF _ _ _ _ _ _ m] m by blast
qed

end
