(* ===== verification/Ftp.thy ===== *)
theory Ftp
  imports Databases
begin

text \<open>
  FTP accounts of the first panel (\<open>legacy/v1/backend/app/services/ftp.py\<close>, \<open>api/ftp.py\<close>): users of the system made, locked and removed with commands, passwords
  set by \<open>chpasswd\<close>, and one row for each account. What \<open>chpasswd\<close> reads is written out by \<open>chpasswd_pairs\<close>.
\<close>

section \<open>Names\<close>

definition FTP_GROUP :: string where
  "FTP_GROUP = ''icsdftp''"

definition DEFAULT_SHELL :: string where
  "DEFAULT_SHELL = ''/usr/sbin/nologin''"

definition RESERVED :: "string list" where
  "RESERVED = [''root'', ''admin'', ''daemon'', ''bin'', ''sys'', ''www-data'', ''nginx'', ''mysql'', ''postgres'']"

definition ftp_name_ok :: "string \<Rightarrow> bool" where
  \<comment> \<open>\<open>^[a-z_][a-z0-9_-]{2,31}$\<close> on a text without surrounding blanks\<close>
  "ftp_name_ok u =
     (3 \<le> length u \<and> length u \<le> 32 \<and> (lower_ascii (hd u) \<or> hd u = CHR ''_'')
      \<and> list_all (\<lambda>c. lower_ascii c \<or> ascii_digit c \<or> c \<in> {CHR ''_'', CHR ''-''}) (tl u))"

definition validate_username :: "string \<Rightarrow> string lres" where
  "validate_username s =
     (let u = lower (strip s) in
      if \<not> ftp_name_ok u then Inl (AppError ''invalid username'')
      else if u \<in> set RESERVED then Inl (AppError ''reserved username'') else Inr u)"

definition home_ok :: "string \<Rightarrow> bool" where
  "home_ok s = (startswith s ''/var/www'' \<or> startswith s ''/home'' \<or> startswith s ''/srv'')"

section \<open>The system's side\<close>

definition ensure_group :: "'w shell \<Rightarrow> host_env \<Rightarrow> (ldb \<times> 'w, unit) lio" where
  "ensure_group sh h =
     lseq (on_world (run_cmd sh [''getent'', ''group'', FTP_GROUP] 30 False)) (\<lambda>r.
       if cr_ok r then lret (Inr ()) else quietly (on_world (run_priv sh h [''groupadd'', FTP_GROUP] 60 False)))"

definition chpasswd_input :: "string \<Rightarrow> string \<Rightarrow> string" where
  "chpasswd_input user password = user @ '':'' @ password"

definition ftp_password :: "'w shell \<Rightarrow> host_env \<Rightarrow> string \<Rightarrow> string \<Rightarrow> (ldb \<times> 'w, unit) lio" where
  \<comment> \<open>\<open>_set_password\<close>\<close>
  "ftp_password sh h user password =
     (if length password < 8 then lret (Inl (AppError ''password must be >= 8 chars''))
      else lseq (on_world (feed sh h [''chpasswd''] (chpasswd_input user password))) (\<lambda>(c, se).
             lret (if c \<noteq> 0 then Inl (AppError (''set password failed: '' @ take 200 se)) else Inr ())))"

section \<open>Accounts\<close>

definition account_named :: "string \<Rightarrow> ldb \<Rightarrow> ftp_row option" where
  \<comment> \<open>\<open>get_account\<close>\<close>
  "account_named n d = select_one (\<lambda>r. fa_username r = n) (ftp_accounts d)"

definition ftp_create :: "'w shell \<Rightarrow> host_env \<Rightarrow> int \<Rightarrow> string \<Rightarrow> string \<Rightarrow> string \<Rightarrow> bool \<Rightarrow> (ldb \<times> 'w, string \<times> string \<times> bool) lio" where
  \<comment> \<open>\<open>create_account\<close>: name, home and whether it was made\<close>
  "ftp_create sh h now name0 password home app =
     lseq (lret (validate_username name0)) (\<lambda>user. seeing (\<lambda>d.
       if \<not> home_ok home then lret (Inl (AppError ''home must be under allowed roots''))
       else if account_named user d \<noteq> None then lret (Inl (AppError ''account already exists''))
       else if \<not> app then lret (Inr (user, home, False))
       else
         lseq (ensure_group sh h) (\<lambda>_.
         lseq (on_world (run_priv sh h [''useradd'', ''-m'', ''-d'', home, ''-s'', DEFAULT_SHELL, ''-g'', FTP_GROUP, user] 60 False)) (\<lambda>r.
           if \<not> cr_ok r \<and> \<not> contains (cr_stderr r) ''already exists'' then lret (Inl (AppError (''useradd failed: '' @ failure_text r)))
           else
             lseq (ftp_password sh h user password) (\<lambda>_.
             lseq (on_db (\<lambda>d. d\<lparr>ftp_accounts := ftp_accounts d @ [\<lparr>fa_username = user, fa_home = home, fa_shell = DEFAULT_SHELL, fa_active = True, fa_created = now\<rparr>]\<rparr>)) (\<lambda>_.
             lseq (on_db (laudit None ''ftp.create'' (user @ '' -> '' @ home))) (\<lambda>_. lret (Inr (user, home, True)))))))))"

definition with_account :: "string \<Rightarrow> (ldb \<times> 'w, 'v) lio \<Rightarrow> (ldb \<times> 'w, 'v) lio" where
  "with_account user m = seeing (\<lambda>d. if account_named user d = None then lret (Inl (AppError ''account not found'')) else m)"

definition ftp_change_password :: "'w shell \<Rightarrow> host_env \<Rightarrow> string \<Rightarrow> string \<Rightarrow> (ldb \<times> 'w, unit) lio" where
  "ftp_change_password sh h user password =
     with_account user (lseq (ftp_password sh h user password) (\<lambda>_. on_db (laudit None ''ftp.passwd'' user)))"

definition ftp_set_active :: "'w shell \<Rightarrow> host_env \<Rightarrow> string \<Rightarrow> bool \<Rightarrow> (ldb \<times> 'w, unit) lio" where
  "ftp_set_active sh h user act =
     with_account user
       (lseq (on_world (run_priv sh h [''usermod'', if act then ''-U'' else ''-L'', user] 60 False)) (\<lambda>r.
          if \<not> cr_ok r then lret (Inl (AppError (''usermod failed: '' @ cr_stderr r)))
          else
            lseq (on_db (\<lambda>d. d\<lparr>ftp_accounts := update_where (\<lambda>r. fa_username r = user) (\<lambda>r. r\<lparr>fa_active := act\<rparr>) (ftp_accounts d)\<rparr>)) (\<lambda>_.
            on_db (laudit None ''ftp.active'' (user @ ''='' @ (if act then ''True'' else ''False''))))))"

definition ftp_delete :: "'w shell \<Rightarrow> host_env \<Rightarrow> string \<Rightarrow> bool \<Rightarrow> bool \<Rightarrow> (ldb \<times> 'w, bool) lio" where
  \<comment> \<open>whether it was deleted\<close>
  "ftp_delete sh h user remove_home app =
     with_account user
       (if \<not> app then lret (Inr False)
        else
          lseq (on_world (run_priv sh h ([''userdel''] @ (if remove_home then [''-r''] else []) @ [user]) 60 False)) (\<lambda>r.
            if \<not> cr_ok r \<and> \<not> contains (cr_stderr r) ''does not exist'' then lret (Inl (AppError (''userdel failed: '' @ failure_text r)))
            else
              lseq (on_db (\<lambda>d. d\<lparr>ftp_accounts := delete_where (\<lambda>r. fa_username r = user) (ftp_accounts d)\<rparr>)) (\<lambda>_.
              lseq (on_db (laudit None ''ftp.delete'' user)) (\<lambda>_. lret (Inr True)))))"

definition ftp_list :: "ldb \<Rightarrow> ftp_row list" where
  "ftp_list d = sort_key (\<lambda>r. - fa_created r) (ftp_accounts d)"

record ftp_daemons =
  fs_vsftpd :: bool
  fs_pure :: bool
  fs_hint :: bool \<comment> \<open>the hint how to install one\<close>

definition ftp_status :: "host_env \<Rightarrow> ftp_daemons" where
  "ftp_status h = \<lparr>fs_vsftpd = has h ''vsftpd'', fs_pure = has h ''pure-ftpd'', fs_hint = (\<not> (has h ''vsftpd'' \<or> has h ''pure-ftpd''))\<rparr>"

section \<open>Routes\<close>

definition route_ftp_list :: "host_env \<Rightarrow> caller lres \<Rightarrow> (ldb \<times> 'w, ftp_row list \<times> ftp_daemons) lio" where
  "route_ftp_list h who = lseq (lret who) (\<lambda>_. seeing (\<lambda>d. lret (Inr (ftp_list d, ftp_status h))))"

datatype ftp_request = CreateFtp string string string | PasswordFtp string string | ActiveFtp string bool | DeleteFtp string bool

fun ftp_serve :: "'w shell \<Rightarrow> host_env \<Rightarrow> int \<Rightarrow> caller lres \<Rightarrow> ftp_request \<Rightarrow> (ldb \<times> 'w, unit) lio" where
  \<comment> \<open>the four changing routes\<close>
  "ftp_serve sh h now who (CreateFtp u p home) = as_manager who (app_http 400 (quietly (ftp_create sh h now u p home True)))"
| "ftp_serve sh h now who (PasswordFtp u p) = as_manager who (app_http 400 (ftp_change_password sh h u p))"
| "ftp_serve sh h now who (ActiveFtp u act) = as_manager who (app_http 400 (ftp_set_active sh h u act))"
| "ftp_serve sh h now who (DeleteFtp u rh) = as_manager who (app_http 400 (quietly (ftp_delete sh h u rh True)))"

section \<open>The table\<close>

definition ftp_ok :: "ldb \<Rightarrow> bool" where
  "ftp_ok d = (distinct (map fa_username (ftp_accounts d)) \<and> (\<forall>r \<in> set (ftp_accounts d). ftp_name_ok (fa_username r) \<and> fa_username r \<notin> set RESERVED \<and> home_ok (fa_home r)))"

lemma ftp_ok_laudit [simp]: "ftp_ok (laudit un a t d) = ftp_ok d"
  by (simp add: laudit_def ftp_ok_def)

lemma keeps_ftp_password: "holds_over P (ftp_password sh h u p)"
  unfolding ftp_password_def by (intro keeps_rules)

lemma keeps_ensure_group: "holds_over P (ensure_group sh h)"
  unfolding ensure_group_def by (intro keeps_rules)

lemma keeps_with_account: "holds_over P m \<Longrightarrow> holds_over P (with_account u m)"
  unfolding with_account_def by (intro keeps_seeing keeps_rules)

lemmas keeps_ftp = keeps_with_account keeps_ftp_password keeps_ensure_group keeps_rules

definition takes :: "ldb \<Rightarrow> (ldb \<Rightarrow> bool) \<Rightarrow> (ldb \<times> 'w, 'v) lio \<Rightarrow> bool" where
  \<comment> \<open>started on these tables, it ends in the condition\<close>
  "takes d Q m = (\<forall>w. Q (fst (fst (m (d, w)))))"

lemma takes_seeing: "(\<And>d. P d \<Longrightarrow> takes d P (k d)) \<Longrightarrow> holds_over P (seeing k)"
  by (simp add: holds_over_def seeing_def takes_def)

lemma takes_keeps: "holds_over Q m \<Longrightarrow> Q d \<Longrightarrow> takes d Q m"
  by (simp add: holds_over_def takes_def)

lemma takes_lseq:
  assumes "\<And>P. holds_over P m" "\<And>x. takes d Q (k x)" "Q d"
  shows "takes d Q (lseq m k)"
  unfolding takes_def
proof
  fix w
  have "fst (fst (m (d, w))) = d" using keepsD [OF assms(1) [of "\<lambda>x. x = d"], of "(d, w)"] by simp
  then obtain w' r where "m (d, w) = ((d, w'), r)" by (metis prod.collapse)
  then show "Q (fst (fst (lseq m k (d, w))))" using assms(2,3) by (auto simp: takes_def lseq_def split: sum.split)
qed

lemma takes_on_db: "takes (f d) Q (k ()) \<Longrightarrow> takes d Q (lseq (on_db f) k)"
  by (simp add: takes_def lseq_def on_db_def)

lemma takes_lret: "Q d \<Longrightarrow> takes d Q (lret r)"
  by (simp add: takes_def lret_def)

lemmas takes_rules = takes_lret takes_on_db takes_lseq [OF keeps_on_world] takes_lseq [OF keeps_ftp_password] takes_lseq [OF keeps_ensure_group]

lemma ftp_create_keeps: "holds_over ftp_ok (ftp_create sh h now u p home app)"
  unfolding ftp_create_def
proof (rule keeps_valid, rule takes_seeing)
  fix v d assume "validate_username u = Inr v" and d: "ftp_ok d"
  then have v: "ftp_name_ok v" "v \<notin> set RESERVED" by (auto simp: validate_username_def Let_def split: if_splits)
  have row: "ftp_ok (d\<lparr>ftp_accounts := ftp_accounts d @ [\<lparr>fa_username = v, fa_home = home, fa_shell = DEFAULT_SHELL, fa_active = True, fa_created = now\<rparr>]\<rparr>)"
    if "home_ok home" "account_named v d = None"
    using that d v by (auto simp: ftp_ok_def account_named_def select_one_None)
  show "takes d ftp_ok (if \<not> home_ok home then lret (Inl (AppError ''home must be under allowed roots''))
       else if account_named v d \<noteq> None then lret (Inl (AppError ''account already exists''))
       else if \<not> app then lret (Inr (v, home, False))
       else
         lseq (ensure_group sh h) (\<lambda>_.
         lseq (on_world (run_priv sh h [''useradd'', ''-m'', ''-d'', home, ''-s'', DEFAULT_SHELL, ''-g'', FTP_GROUP, v] 60 False)) (\<lambda>r.
           if \<not> cr_ok r \<and> \<not> contains (cr_stderr r) ''already exists'' then lret (Inl (AppError (''useradd failed: '' @ failure_text r)))
           else
             lseq (ftp_password sh h v p) (\<lambda>_.
             lseq (on_db (\<lambda>d. d\<lparr>ftp_accounts := ftp_accounts d @ [\<lparr>fa_username = v, fa_home = home, fa_shell = DEFAULT_SHELL, fa_active = True, fa_created = now\<rparr>]\<rparr>)) (\<lambda>_.
             lseq (on_db (laudit None ''ftp.create'' (v @ '' -> '' @ home))) (\<lambda>_. lret (Inr (v, home, True))))))))"
    using d row by (auto intro!: takes_rules)
qed

lemma ftp_serve_keeps: "holds_over ftp_ok (ftp_serve sh h now who q)"
proof (cases q)
  case (CreateFtp u p home)
  then show ?thesis by (auto intro!: keeps_rules ftp_create_keeps)
next
  case (PasswordFtp u p)
  then show ?thesis by (auto simp: ftp_change_password_def intro!: keeps_ftp keeps_on_db)
next
  case (ActiveFtp u act)
  have "ftp_ok (d\<lparr>ftp_accounts := update_where (\<lambda>r. fa_username r = u) (\<lambda>r. r\<lparr>fa_active := act\<rparr>) (ftp_accounts d)\<rparr>)" if "ftp_ok d" for d
  proof -
    have "map fa_username (update_where (\<lambda>r. fa_username r = u) (\<lambda>r. r\<lparr>fa_active := act\<rparr>) (ftp_accounts d)) = map fa_username (ftp_accounts d)"
      by (simp add: update_where_def)
    moreover have "ftp_name_ok (fa_username r) \<and> fa_username r \<notin> set RESERVED \<and> home_ok (fa_home r)"
      if "r \<in> set (update_where (\<lambda>r. fa_username r = u) (\<lambda>r. r\<lparr>fa_active := act\<rparr>) (ftp_accounts d))" for r
      using that \<open>ftp_ok d\<close> by (auto simp: ftp_ok_def update_where_def split: if_splits)
    ultimately show ?thesis using that by (simp add: ftp_ok_def)
  qed
  then show ?thesis unfolding ActiveFtp by (auto simp: ftp_set_active_def intro!: keeps_ftp keeps_on_db)
next
  case (DeleteFtp u rh)
  have "ftp_ok (d\<lparr>ftp_accounts := delete_where (\<lambda>r. fa_username r = u) (ftp_accounts d)\<rparr>)" if "ftp_ok d" for d
    using that by (auto simp: ftp_ok_def delete_where_def distinct_map_filter)
  then show ?thesis unfolding DeleteFtp by (auto simp: ftp_delete_def intro!: keeps_ftp keeps_on_db)
qed

interpretation ftp_run: machine "\<lambda>(now, who, q) s. fst (ftp_serve sh h now who q s)" "\<lambda>s. ftp_ok (fst s)" for sh h
  by unfold_locales (auto simp: keepsD [OF ftp_serve_keeps] split: prod.split)

text \<open>
  Accounts are harmless by name: whatever requests come in, from anyone, and however the commands end, user names are unique, of the allowed pattern (so none can be
  taken for an option of a command), none is reserved, and every home begins with an allowed root.
\<close>

theorem ftp_accounts_valid:
  assumes "ftp_accounts (fst s) = []" and "d = fst (fold (\<lambda>(now, who, q) s. fst (ftp_serve sh h now who q s)) qs s)"
  shows "distinct (map fa_username (ftp_accounts d))
     \<and> (\<forall>r \<in> set (ftp_accounts d). ftp_name_ok (fa_username r) \<and> fa_username r \<notin> set RESERVED \<and> home_ok (fa_home r))"
proof -
  have "ftp_ok (fst s)" using assms(1) by (simp add: ftp_ok_def)
  from ftp_run.run_inv [OF this, of sh h qs] have "ftp_ok d" unfolding assms(2) by (simp only:)
  then show ?thesis by (simp add: ftp_ok_def)
qed

section \<open>What chpasswd reads\<close>

definition chpasswd_pairs :: "string \<Rightarrow> (string \<times> string) list" where
  \<comment> \<open>one user and password for each line, parted by the first colon\<close>
  "chpasswd_pairs inp =
     map (\<lambda>l. (takeWhile (\<lambda>c. c \<noteq> CHR '':'') l, drop 1 (dropWhile (\<lambda>c. c \<noteq> CHR '':'') l))) (filter (\<lambda>l. l \<noteq> []) (split_on NL inp))"

definition fed :: "'w shell \<Rightarrow> ('w \<times> (string list \<times> string) list) shell" where
  \<comment> \<open>the same commands, written down with their input\<close>
  "fed sh args inp w = (let (w', p) = sh args inp (fst w) in ((w', snd w @ [(args, inp)]), p))"

lemma colon_parts: "CHR '':'' \<notin> set u \<Longrightarrow> takeWhile (\<lambda>c. c \<noteq> CHR '':'') (u @ CHR '':'' # p) = u \<and> dropWhile (\<lambda>c. c \<noteq> CHR '':'') (u @ CHR '':'' # p) = CHR '':'' # p"
  by (induction u) auto

lemma chpasswd_one: "CHR '':'' \<notin> set u \<Longrightarrow> NL \<notin> set u \<Longrightarrow> NL \<notin> set p \<Longrightarrow> chpasswd_pairs (chpasswd_input u p) = [(u, p)]"
  by (simp add: chpasswd_pairs_def chpasswd_input_def split_on_none colon_parts)

lemma chpasswd_two:
  assumes "CHR '':'' \<notin> set u" "NL \<notin> set u" "NL \<notin> set p" "CHR '':'' \<notin> set v" "NL \<notin> set v" "NL \<notin> set q"
  shows "chpasswd_pairs (chpasswd_input u (p @ [NL] @ v @ '':'' @ q)) = [(u, p), (v, q)]"
proof -
  have "split_on NL (u @ '':'' @ p @ [NL] @ v @ '':'' @ q) = [u @ '':'' @ p, v @ '':'' @ q]"
    using assms split_on_first [of NL "u @ '':'' @ p" "v @ '':'' @ q"] by (simp add: split_on_none)
  then show ?thesis using assms by (simp add: chpasswd_pairs_def chpasswd_input_def colon_parts)
qed

lemma ftp_name_chars: "ftp_name_ok u \<Longrightarrow> CHR '':'' \<notin> set u \<and> NL \<notin> set u"
  by (cases u) (auto simp: ftp_name_ok_def list_all_iff lower_ascii_def ascii_digit_def code_def)

lemma change_password_feeds:
  assumes "require_role ''manager'' who = Inr c" "account_named u d = Some r" "8 \<le> length p"
  shows "\<exists>w' l. fst (ftp_serve (fed sh) h now who (PasswordFtp u p) (d, w, [])) = (l, w', [(sudo_prefix h @ [''chpasswd''], chpasswd_input u p)])"
proof -
  obtain w' q where q: "sh (sudo_prefix h @ [''chpasswd'']) (chpasswd_input u p) w = (w', q)" by fastforce
  show ?thesis using assms q
    by (cases q) (auto simp: as_manager_def lseq_def lret_def app_http_def ftp_change_password_def with_account_def seeing_def ftp_password_def on_world_def
      feed_def fed_def on_db_def split: sum.splits prod.splits)
qed

text \<open>
  Cn. One password request sets the passwords of others: \<open>chpasswd\<close> reads lines, and a password may contain one; so a manager who changes the password of an existing
  FTP account sets, with the same command, the password of any user of the system, \<open>root\<close> included.
\<close>

theorem password_sets_other_users:
  assumes "require_role ''manager'' who = Inr c" "account_named u d = Some r" "ftp_name_ok u" "NL \<notin> set p" "8 \<le> length p + length v + length q"
    and "CHR '':'' \<notin> set v" "NL \<notin> set v" "NL \<notin> set q"
  shows "\<exists>l w' inp. fst (ftp_serve (fed sh) h now who (PasswordFtp u (p @ [NL] @ v @ '':'' @ q)) (d, w, [])) = (l, w', [(sudo_prefix h @ [''chpasswd''], inp)])
     \<and> chpasswd_pairs inp = [(u, p), (v, q)]"
  using change_password_feeds [OF assms(1,2), of "p @ [NL] @ v @ '':'' @ q" sh h now w] chpasswd_two [of u p v q] ftp_name_chars [OF assms(3)] assms(4-8)
  by auto

section \<open>Users that exist\<close>


text \<open>
  A password that is too short is noticed too late: the request is refused and no account is stored, but by then the user of the system exists.
\<close>

theorem short_password_leaves_user:
  assumes who: "require_role ''manager'' who = Inr c" and u: "validate_username u0 = Inr u" and home: "home_ok home"
    and free: "account_named u d = None" and pw: "length p < 8"
    and grp: "\<And>w. sh [''getent'', ''group'', FTP_GROUP] [] w = (w, Ended 0 [] [])"
    and add: "sh (sudo_prefix h @ [''useradd'', ''-m'', ''-d'', home, ''-s'', DEFAULT_SHELL, ''-g'', FTP_GROUP, u]) [] w = (w', Ended 0 [] [])"
  shows "\<exists>cmds e. ftp_serve (fed sh) h now who (CreateFtp u0 p home) (d, w, []) = ((d, w', cmds), Inl e)
     \<and> last cmds = (sudo_prefix h @ [''useradd'', ''-m'', ''-d'', home, ''-s'', DEFAULT_SHELL, ''-g'', FTP_GROUP, u], [])"
proof -
  have g: "ensure_group (fed sh) h (d, w, l) = ((d, w, l @ [([''getent'', ''group'', FTP_GROUP], [])]), Inr ())" for l
    by (simp add: ensure_group_def lseq_def on_world_def run_cmd_def fed_def grp lret_def)
  show ?thesis using who u home free pw
    by (simp add: as_manager_def app_http_def quietly_def ftp_create_def lseq_lret seeing_def lseq_def on_world_def g run_priv_def run_cmd_def fed_def add
      ftp_password_def lret_def)
qed

section \<open>Concrete requests\<close>

lemma demo_role: "require_role ''manager'' demo_manager = Inr \<lparr>ca_username = JStr ''m'', ca_role = JStr ''manager''\<rparr>"
  by (simp add: demo_manager_def require_role_def lbind_def role_rank_def ROLE_RANK_def dget_def)

definition ftp_demo :: ftp_row where
  "ftp_demo = \<lparr>fa_username = ''deploy'', fa_home = ''/srv/a'', fa_shell = DEFAULT_SHELL, fa_active = True, fa_created = 1\<rparr>"

definition known_shell :: "unit shell" where
  \<comment> \<open>a system where every user exists already\<close>
  "known_shell args inp w = (w, if ''useradd'' \<in> set args then Ended 9 [] ''useradd: user already exists'' else Ended 0 [] [])"

theorem ftp_accounts_valid_witness:
  "\<exists>d. d = fst (fold (\<lambda>(now, who, q) s. fst (ftp_serve known_shell demo_host now who q s)) [(3, demo_manager, CreateFtp ''deploy'' ''longenough'' ''/srv/a'')] (demo_ldb, ()))
     \<and> distinct (map fa_username (ftp_accounts d))"
  using ftp_accounts_valid [of "(demo_ldb, ())", OF _ refl, of known_shell demo_host "[(3, demo_manager, CreateFtp ''deploy'' ''longenough'' ''/srv/a'')]"]
  by (simp add: demo_ldb_def)

theorem password_sets_other_users_witness:
  "\<exists>l w' inp. fst (ftp_serve (fed known_shell) demo_host 3 demo_manager (PasswordFtp ''deploy'' (''abcd'' @ [NL] @ ''root'' @ '':'' @ ''owned'')) (demo_ldb\<lparr>ftp_accounts := [ftp_demo]\<rparr>, (), []))
       = (l, w', [(sudo_prefix demo_host @ [''chpasswd''], inp)])
     \<and> chpasswd_pairs inp = [(''deploy'', ''abcd''), (''root'', ''owned'')]"
proof (rule password_sets_other_users [OF demo_role])
  show "account_named ''deploy'' (demo_ldb\<lparr>ftp_accounts := [ftp_demo]\<rparr>) = Some ftp_demo" by (simp add: account_named_def select_one_def ftp_demo_def)
  show "ftp_name_ok ''deploy''" by code_simp
qed simp_all


theorem short_password_leaves_user_witness:
  "\<exists>cmds e. ftp_serve (fed quiet_shell) demo_host 3 demo_manager (CreateFtp ''deploy'' ''short'' ''/srv/a'') (demo_ldb, (), []) = ((demo_ldb, (), cmds), Inl e)
     \<and> last cmds = (sudo_prefix demo_host @ [''useradd'', ''-m'', ''-d'', ''/srv/a'', ''-s'', DEFAULT_SHELL, ''-g'', FTP_GROUP, ''deploy''], [])"
proof (rule short_password_leaves_user [OF demo_role])
  show "validate_username ''deploy'' = Inr ''deploy''" "home_ok ''/srv/a''" by code_simp+
  show "account_named ''deploy'' demo_ldb = None" by (simp add: account_named_def select_one_def demo_ldb_def)
qed (simp_all add: quiet_shell_def)

end
