(* ===== verification/Pyapps.thy ===== *)
theory Pyapps
  imports Sites Ftp
begin

text \<open>
  Python applications of the first panel (\<open>legacy/v1/backend/app/services/pyapp.py\<close>, \<open>api/pyapp.py\<close>): a repository is cloned or a template written, a virtual environment
  is made, a unit of systemd and a site of nginx put in front; a webhook with a signature pulls again. Commands run in a directory by a shell of that directory.
\<close>

section \<open>The environment\<close>

record 'w py_env =
  pe_sh :: "('w \<times> fs) shell"
  pe_in :: "string \<Rightarrow> ('w \<times> fs) shell" \<comment> \<open>\<open>subprocess.run(\<dots>, cwd=\<dots>)\<close>\<close>
  pe_site :: site_env
  pe_base :: string \<comment> \<open>\<open>APP_BASE\<close>\<close>
  pe_user :: string \<comment> \<open>\<open>_panel_user\<close>: who runs the panel\<close>
  pe_exc_text :: "lexc \<Rightarrow> string" \<comment> \<open>\<open>str(e)\<close>\<close>

abbreviation pe_host :: "'w py_env \<Rightarrow> host_env" where
  "pe_host e \<equiv> se_host (pe_site e)"

definition PORT_MIN :: int where
  "PORT_MIN = 8001"

definition PORT_MAX :: int where
  "PORT_MAX = 8999"

definition app_name_ok :: "string \<Rightarrow> bool" where
  \<comment> \<open>\<open>^[a-z0-9][a-z0-9_-]{1,39}$\<close> on a text without surrounding blanks\<close>
  "app_name_ok s =
     (2 \<le> length s \<and> length s \<le> 40 \<and> (lower_ascii (hd s) \<or> ascii_digit (hd s))
      \<and> list_all (\<lambda>c. lower_ascii c \<or> ascii_digit c \<or> c \<in> {CHR ''_'', CHR ''-''}) (tl s))"

definition validate_app_name :: "string \<Rightarrow> string lres" where
  "validate_app_name s = (let n = lower (strip s) in if app_name_ok n then Inr n else Inl (AppError ''invalid name''))"

definition os_join :: "string \<Rightarrow> string \<Rightarrow> string" where
  \<comment> \<open>\<open>os.path.join\<close> for a second part that does not begin with a slash\<close>
  "os_join a b = (if a = [] \<or> last a = CHR ''/'' then a @ b else a @ ''/'' @ b)"

definition app_path :: "'w py_env \<Rightarrow> string \<Rightarrow> path" where
  "app_path e s = from_text (se_cwd (pe_site e)) s"

section \<open>Rows\<close>

definition app_by_id :: "int \<Rightarrow> ldb \<Rightarrow> app_row option" where
  "app_by_id i d = select_one (\<lambda>r. ap_id r = i) (pyapps d)"

definition app_by_name :: "string \<Rightarrow> ldb \<Rightarrow> app_row option" where
  "app_by_name n d = select_one (\<lambda>r. ap_name r = n) (pyapps d)"

definition list_apps :: "ldb \<Rightarrow> app_row list" where
  \<comment> \<open>without the secrets\<close>
  "list_apps d = map (\<lambda>r. r\<lparr>ap_secret := None\<rparr>) (sort_key (\<lambda>r. - ap_created r) (pyapps d))"

definition set_app_status :: "int \<Rightarrow> string \<Rightarrow> ldb \<Rightarrow> ldb" where
  \<comment> \<open>\<open>_set_status\<close> without the time of the change\<close>
  "set_app_status i st d = d\<lparr>pyapps := update_where (\<lambda>r. ap_id r = i) (\<lambda>r. r\<lparr>ap_status := take 200 st\<rparr>) (pyapps d)\<rparr>"

definition pick_port :: "ldb \<Rightarrow> int lres" where
  "pick_port d =
     (case filter (\<lambda>p. p \<notin> set (map ap_port (list_apps d))) [PORT_MIN .. PORT_MAX] of
        [] \<Rightarrow> Inl (AppError ''no free port'') | p # ps \<Rightarrow> Inr p)"

definition with_app :: "int \<Rightarrow> (app_row \<Rightarrow> (ldb \<times> 'w, 'v) lio) \<Rightarrow> (ldb \<times> 'w, 'v) lio" where
  "with_app i m = seeing (\<lambda>d. case app_by_id i d of None \<Rightarrow> lret (Inl (AppError ''app not found'')) | Some a \<Rightarrow> m a)"

section \<open>Helpers\<close>

definition python_bin :: "host_env \<Rightarrow> string option \<Rightarrow> string" where
  "python_bin h version =
     (let v = unless_given version [] in
      if v \<noteq> [] \<and> has h (''python'' @ v) then ''python'' @ v else if has h ''python3'' then ''python3'' else ''python'')"

definition priv :: "'w py_env \<Rightarrow> string list \<Rightarrow> ('w web, cmd_result) lio" where
  "priv e args = on_world (run_priv (pe_sh e) (pe_host e) args 60 False)"

definition run_in :: "'w py_env \<Rightarrow> string \<Rightarrow> string list \<Rightarrow> ('w web, cmd_result) lio" where
  "run_in e dir args = on_world (run_cmd (pe_in e dir) args 600 False)"

definition looking :: "(fs \<Rightarrow> ('w web, 'v) lio) \<Rightarrow> ('w web, 'v) lio" where
  \<comment> \<open>going on with what the files are now\<close>
  "looking k s = k (snd (snd s)) s"

definition ensure_base :: "'w py_env \<Rightarrow> ('w web, unit) lio" where
  "ensure_base e =
     looking (\<lambda>f.
       if (case follow f (app_path e (pe_base e)) of Some (FDir m) \<Rightarrow> True | _ \<Rightarrow> False) then lret (Inr ())
       else lseq (priv e [''mkdir'', ''-p'', pe_base e]) (\<lambda>_. quietly (priv e [''chown'', pe_user e @ '':'' @ pe_user e, pe_base e])))"

definition is_file :: "'w py_env \<Rightarrow> fs \<Rightarrow> string \<Rightarrow> bool" where
  \<comment> \<open>\<open>os.path.isfile\<close>\<close>
  "is_file e f s = (case follow f (app_path e s) of Some (FFile bs m) \<Rightarrow> True | _ \<Rightarrow> False)"

definition write_unit :: "'w py_env \<Rightarrow> string \<Rightarrow> string \<Rightarrow> ('w web, unit) lio" where
  "write_unit e service text =
     lseq (on_world (feed (pe_sh e) (pe_host e) [''tee'', ''/etc/systemd/system/'' @ service] text)) (\<lambda>(c, se).
       lret (if c \<noteq> 0 then Inl (AppError (''write unit failed: '' @ take 200 se)) else Inr ()))"

definition unit_exec :: "string \<Rightarrow> string \<Rightarrow> string \<Rightarrow> int \<Rightarrow> string" where
  "unit_exec venv app_type entry port =
     (if app_type = ''asgi'' then venv @ ''/bin/uvicorn '' @ entry @ '' --host 127.0.0.1 --port '' @ str_int port @ '' --workers 3''
      else venv @ ''/bin/gunicorn '' @ entry @ '' --bind 127.0.0.1:'' @ str_int port @ '' --workers 3 --timeout 60'')"

definition unit_lines :: "string \<Rightarrow> string \<Rightarrow> string \<Rightarrow> string \<Rightarrow> string \<Rightarrow> int \<Rightarrow> string \<Rightarrow> bool \<Rightarrow> string list" where
  "unit_lines name dir venv app_type entry port user has_env =
     [''[Unit]'', ''Description=ICSD PyApp - '' @ name, ''After=network.target'', [], ''[Service]'', ''Type=simple'', ''User='' @ user, ''Group='' @ user,
      ''WorkingDirectory='' @ dir] @ (if has_env then [''EnvironmentFile='' @ dir @ ''/.env.icsd''] else []) @
     [''ExecStart='' @ unit_exec venv app_type entry port, ''Restart=on-failure'', ''RestartSec=5'', [], ''[Install]'', ''WantedBy=multi-user.target'']"

definition render_unit :: "string \<Rightarrow> string \<Rightarrow> string \<Rightarrow> string \<Rightarrow> string \<Rightarrow> int \<Rightarrow> string \<Rightarrow> bool \<Rightarrow> string" where
  "render_unit name dir venv app_type entry port user has_env =
     concat (map (\<lambda>l. l @ [NL]) (unit_lines name dir venv app_type entry port user has_env))"

section \<open>Building\<close>

definition told :: "string \<Rightarrow> nat \<Rightarrow> cmd_result \<Rightarrow> string" where
  "told label n r = label @ '': '' @ (if cr_ok r then ''ok'' else take n (cr_stderr r))"

definition install_deps :: "'w py_env \<Rightarrow> string \<Rightarrow> string \<Rightarrow> string \<Rightarrow> ('w web, string list) lio" where
  "install_deps e dir venv app_type =
     lseq (run_in e dir [venv @ ''/bin/pip'', ''install'', ''--upgrade'', ''pip'']) (\<lambda>r1.
     lseq (looking (\<lambda>f.
             if is_file e f (os_join dir ''requirements.txt'') then
               lseq (run_in e dir [venv @ ''/bin/pip'', ''install'', ''-r'', ''requirements.txt'']) (\<lambda>r.
                 lret (if cr_ok r then Inr [told ''requirements'' 200 r] else Inl (AppError (''pip install failed: '' @ take 200 (cr_stderr r)))))
             else lret (Inr []))) (\<lambda>l2.
     let server = (if app_type = ''asgi'' then ''uvicorn'' else ''gunicorn'') in
     lseq (run_in e dir [venv @ ''/bin/pip'', ''install'', server]) (\<lambda>r3.
       lret (Inr ([told ''pip upgrade'' 120 r1] @ l2 @ [told server 120 r3])))))"

definition django_steps :: "'w py_env \<Rightarrow> string \<Rightarrow> string \<Rightarrow> ('w web, string list) lio" where
  "django_steps e dir venv =
     looking (\<lambda>f.
       if \<not> is_file e f (os_join dir ''manage.py'') then lret (Inr [''django: manage.py not found, skipped''])
       else
         lseq (run_in e dir [venv @ ''/bin/python'', ''manage.py'', ''migrate'', ''--noinput'']) (\<lambda>r1.
         lseq (run_in e dir [venv @ ''/bin/python'', ''manage.py'', ''collectstatic'', ''--noinput'']) (\<lambda>r2.
           lret (Inr [told ''migrate'' 200 r1, told ''collectstatic'' 160 r2]))))"

definition make_venv :: "'w py_env \<Rightarrow> string \<Rightarrow> string \<Rightarrow> ('w web, unit) lio" where
  "make_venv e dir pybin =
     lseq (run_in e dir [pybin, ''-m'', ''venv'', ''venv'']) (\<lambda>r.
       lret (if cr_ok r then Inr () else Inl (AppError (''venv failed: '' @ take 200 (cr_stderr r)))))"

definition write_in :: "'w py_env \<Rightarrow> string \<Rightarrow> string \<Rightarrow> ('w web, unit) lio" where
  \<comment> \<open>\<open>open(\<dots>, "w", encoding="utf-8").write(\<dots>)\<close>\<close>
  "write_in e s text = on_fs (write_points (se_modes (pe_site e)) (app_path e s) (points text))"

definition write_env :: "'w py_env \<Rightarrow> string \<Rightarrow> string \<Rightarrow> ('w web, unit) lio" where
  "write_env e dir vars = (if strip vars = [] then lret (Inr ()) else write_in e (os_join dir ''.env.icsd'') (strip vars @ [NL]))"

definition start_service :: "'w py_env \<Rightarrow> string \<Rightarrow> string \<Rightarrow> ('w web, unit) lio" where
  "start_service e service text =
     lseq (write_unit e service text) (\<lambda>_.
     lseq (priv e [''systemctl'', ''daemon-reload'']) (\<lambda>_.
     quietly (priv e [''systemctl'', ''enable'', ''--now'', service])))"

definition try_site :: "'w py_env \<Rightarrow> int \<Rightarrow> string \<Rightarrow> int \<Rightarrow> string \<Rightarrow> ('w web, string list) lio" where
  \<comment> \<open>a proxy in front, if a domain is given; what it raises becomes a line of the log\<close>
  "try_site e now domain port dir s =
     (if domain = [] then (s, Inr [])
      else case create_site (pe_sh e) (pe_site e) now domain ''proxy'' [] None (Some (''http://127.0.0.1:'' @ str_int port)) (Some dir) True s of
             (s', Inl x) \<Rightarrow> (s', Inr [''nginx site: failed ('' @ pe_exc_text e x @ '')''])
           | (s', Inr c) \<Rightarrow> (s', Inr []))"

section \<open>Creating from a repository\<close>

record app_plan =
  ak_name :: string
  ak_domain :: string
  ak_source :: string \<comment> \<open>the repository or the template\<close>
  ak_branch :: string
  ak_type :: string
  ak_entry :: string
  ak_port :: int
  ak_dir :: string
  ak_venv :: string
  ak_service :: string
  ak_log :: "string list"
  ak_secret :: "string option" \<comment> \<open>of an application that was created\<close>

definition insert_app :: "int \<Rightarrow> string \<Rightarrow> app_plan \<Rightarrow> ldb \<Rightarrow> ldb" where
  "insert_app now tok k d =
     d\<lparr>pyapps := pyapps d @ [\<lparr>ap_id = app_seq d + 1, ap_name = ak_name k, ap_domain = ak_domain k, ap_repo = ak_source k, ap_branch = ak_branch k, ap_type = ak_type k,
         ap_entry = ak_entry k, ap_port = ak_port k, ap_dir = ak_dir k, ap_venv = ak_venv k, ap_service = ak_service k, ap_secret = Some tok, ap_status = ''deployed'',
         ap_created = now\<rparr>],
       app_seq := app_seq d + 1\<rparr>"

definition repo_ok :: "string \<Rightarrow> bool" where
  "repo_ok s = (startswith s ''http://'' \<or> startswith s ''https://'' \<or> startswith s ''git@'')"

definition app_domain :: "string \<Rightarrow> string lres" where
  "app_domain domain = (if domain = [] then Inr [] else validate_site domain)"

definition plan_for :: "'w py_env \<Rightarrow> string \<Rightarrow> string \<Rightarrow> string \<Rightarrow> string \<Rightarrow> string \<Rightarrow> string \<Rightarrow> int \<Rightarrow> app_plan" where
  "plan_for e name domain source branch app_type entry port =
     \<lparr>ak_name = name, ak_domain = domain, ak_source = source, ak_branch = branch, ak_type = app_type, ak_entry = entry, ak_port = port,
      ak_dir = os_join (pe_base e) name, ak_venv = os_join (os_join (pe_base e) name) ''venv'', ak_service = ''icsd-pyapp-'' @ name @ ''.service'',
      ak_log = [], ak_secret = None\<rparr>"

definition clone_repo :: "'w py_env \<Rightarrow> string \<Rightarrow> string \<Rightarrow> string \<Rightarrow> ('w web, unit) lio" where
  \<comment> \<open>a second time without the branch\<close>
  "clone_repo e branch repo name =
     lseq (run_in e (pe_base e) [''git'', ''clone'', ''--branch'', branch, ''--depth'', ''1'', repo, name]) (\<lambda>r.
       if cr_ok r then lret (Inr ())
       else lseq (run_in e (pe_base e) [''git'', ''clone'', ''--depth'', ''1'', repo, name]) (\<lambda>r.
              lret (if cr_ok r then Inr () else Inl (AppError (''git clone failed: '' @ take 200 (cr_stderr r))))))"

definition finish_app :: "'w py_env \<Rightarrow> int \<Rightarrow> string \<Rightarrow> bool \<Rightarrow> string \<Rightarrow> string \<Rightarrow> app_plan \<Rightarrow> ('w web, app_plan) lio" where
  \<comment> \<open>unit, site and row, which both ways of creating end with\<close>
  "finish_app e now tok has_env what source k =
     lseq (start_service e (ak_service k) (render_unit (ak_name k) (ak_dir k) (ak_venv k) (ak_type k) (ak_entry k) (ak_port k) (pe_user e) has_env)) (\<lambda>_.
     lseq (try_site e now (ak_domain k) (ak_port k) (ak_dir k)) (\<lambda>l.
     lseq (on_db (insert_app now tok k)) (\<lambda>_.
     lseq (on_db (laudit None what (ak_name k @ '' <- '' @ source))) (\<lambda>_.
       lret (Inr (k\<lparr>ak_log := ak_log k @ l, ak_secret := Some tok\<rparr>))))))"

definition fresh_dir :: "'w py_env \<Rightarrow> string \<Rightarrow> ('w web, 'v) lio \<Rightarrow> ('w web, 'v) lio" where
  "fresh_dir e dir m =
     lseq (ensure_base e) (\<lambda>_. looking (\<lambda>f. if exists_at f (app_path e dir) then lret (Inl (AppError ''app dir already exists'')) else m))"

definition build_app :: "'w py_env \<Rightarrow> int \<Rightarrow> string \<Rightarrow> string \<Rightarrow> string option \<Rightarrow> app_plan \<Rightarrow> ('w web, app_plan) lio" where
  "build_app e now tok env_vars version k =
     fresh_dir e (ak_dir k)
       (lseq (clone_repo e (ak_branch k) (ak_source k) (ak_name k)) (\<lambda>_.
        lseq (make_venv e (ak_dir k) (python_bin (pe_host e) version)) (\<lambda>_.
        lseq (write_env e (ak_dir k) env_vars) (\<lambda>_.
        lseq (install_deps e (ak_dir k) (ak_venv k) (ak_type k)) (\<lambda>l1.
        lseq (if ak_type k = ''django'' then django_steps e (ak_dir k) (ak_venv k) else lret (Inr [])) (\<lambda>l2.
          finish_app e now tok (strip env_vars \<noteq> []) ''pyapp.create'' (ak_source k) (k\<lparr>ak_log := l1 @ l2\<rparr>)))))))"

definition create_app ::
  "'w py_env \<Rightarrow> int \<Rightarrow> string \<Rightarrow> string \<Rightarrow> string \<Rightarrow> string \<Rightarrow> string \<Rightarrow> string \<Rightarrow> string \<Rightarrow> string \<Rightarrow> string option \<Rightarrow> bool \<Rightarrow> ('w web, app_plan) lio"
where
  "create_app e now tok name0 domain0 repo branch app_type entry env_vars version app =
     lseq (lret (validate_app_name name0)) (\<lambda>name.
       if app_type \<notin> {''django'', ''wsgi'', ''asgi''} then lret (Inl (AppError (''invalid app_type: '' @ app_type)))
       else
         lseq (lret (app_domain domain0)) (\<lambda>domain. seeing (\<lambda>d.
           if app_by_name name d \<noteq> None then lret (Inl (AppError ''app name already exists''))
           else if \<not> repo_ok repo then lret (Inl (AppError ''invalid repo URL''))
           else
             lseq (lret (pick_port d)) (\<lambda>port.
               let ent = (if entry \<noteq> [] then entry else if app_type = ''asgi'' then ''app:app'' else name @ ''.wsgi:application'');
                   k = plan_for e name domain repo branch app_type ent port
               in if app then build_app e now tok env_vars version k else lret (Inr k)))))"

section \<open>Creating from a template\<close>

datatype template = FastAPI | Flask | Django

definition template_of :: "string \<Rightarrow> template lres" where
  "template_of t =
     (if t = ''fastapi'' then Inr FastAPI else if t = ''flask'' then Inr Flask else if t = ''django'' then Inr Django
      else Inl (AppError (''invalid template: '' @ t)))"

definition TEMPLATES :: "(string \<times> string \<times> string \<times> string) list" where
  \<comment> \<open>id, label, kind and entry; the descriptions are left out\<close>
  "TEMPLATES = [(''fastapi'', ''FastAPI'', ''asgi'', ''main:app''), (''flask'', ''Flask'', ''wsgi'', ''app:app''), (''django'', ''Django'', ''django'', ''{proj}.wsgi:application'')]"

definition project_name :: "string \<Rightarrow> string" where
  \<comment> \<open>a name that Python takes for a module\<close>
  "project_name name =
     (let p = map (\<lambda>c. if lower_ascii c \<or> ascii_digit c \<or> c = CHR ''_'' then c else CHR ''_'') name
      in if isdigit_char (hd p) then ''app_'' @ p else p)"

fun template_kind :: "template \<Rightarrow> string" where
  "template_kind FastAPI = ''asgi''" | "template_kind Flask = ''wsgi''" | "template_kind Django = ''django''"

fun template_entry :: "template \<Rightarrow> string \<Rightarrow> string" where
  "template_entry FastAPI name = ''main:app''"
| "template_entry Flask name = ''app:app''"
| "template_entry Django name = project_name name @ ''.wsgi:application''"

definition text_lines :: "string list \<Rightarrow> string" where
  "text_lines ls = concat (map (\<lambda>l. l @ [NL]) ls)"

definition FASTAPI_MAIN :: string where
  "FASTAPI_MAIN = text_lines
     [''from fastapi import FastAPI'', [], ''app = FastAPI(title='' @ [CHR 0x22] @ ''ICSD FastAPI app'' @ [CHR 0x22] @ '')'', [], [],
      ''@app.get('' @ [CHR 0x22] @ ''/'' @ [CHR 0x22] @ '')'', ''def root():'',
      ''    return {'' @ [CHR 0x22] @ ''status'' @ [CHR 0x22] @ '': '' @ [CHR 0x22] @ ''ok'' @ [CHR 0x22] @ '', '' @ [CHR 0x22] @ ''framework'' @ [CHR 0x22] @ '': '' @ [CHR 0x22] @ ''fastapi''
        @ [CHR 0x22] @ '', '' @ [CHR 0x22] @ ''powered_by'' @ [CHR 0x22] @ '': '' @ [CHR 0x22] @ ''ICSD Panel'' @ [CHR 0x22] @ ''}'']"

definition FLASK_APP :: string where
  "FLASK_APP = text_lines
     [''from flask import Flask, jsonify'', [], ''app = Flask(__name__)'', [], [], ''@app.route('' @ [CHR 0x22] @ ''/'' @ [CHR 0x22] @ '')'', ''def index():'',
      ''    return jsonify(status='' @ [CHR 0x22] @ ''ok'' @ [CHR 0x22] @ '', framework='' @ [CHR 0x22] @ ''flask'' @ [CHR 0x22] @ '', powered_by='' @ [CHR 0x22] @ ''ICSD Panel'' @ [CHR 0x22] @ '')'',
      [], [], ''if __name__ == '' @ [CHR 0x22] @ ''__main__'' @ [CHR 0x22] @ '':'', ''    app.run()'']"

definition DJANGO_SETTINGS :: string where
  \<comment> \<open>what is added to the settings of a new project\<close>
  "DJANGO_SETTINGS = text_lines
     [[], ''# --- added by ICSD Panel ---'', ''ALLOWED_HOSTS = ['' @ [CHR 0x27] @ ''*'' @ [CHR 0x27] @ '']'', ''import os as _os'',
      ''STATIC_ROOT = _os.path.join(BASE_DIR, '' @ [CHR 0x27] @ ''staticfiles'' @ [CHR 0x27] @ '')'']"

definition append_in :: "'w py_env \<Rightarrow> string \<Rightarrow> string \<Rightarrow> ('w web, unit) lio" where
  \<comment> \<open>\<open>open(\<dots>, "a")\<close>\<close>
  "append_in e s text =
     on_fs (\<lambda>f. os_write (se_modes (pe_site e)) (app_path e s) ((case follow f (app_path e s) of Some (FFile bs m) \<Rightarrow> bs | _ \<Rightarrow> []) @ utf8 text) f)"

definition patch_settings :: "'w py_env \<Rightarrow> string \<Rightarrow> string \<Rightarrow> ('w web, string list) lio" where
  "patch_settings e dir proj s =
     (case append_in e (os_join (os_join dir proj) ''settings.py'') DJANGO_SETTINGS s of
        (s', Inl x) \<Rightarrow> if x = RuntimeError ''OSError'' then (s', Inr [''settings patch failed: '' @ pe_exc_text e x]) else (s', Inl x)
      | (s', Inr _) \<Rightarrow> (s', Inr []))"

fun scaffold :: "'w py_env \<Rightarrow> template \<Rightarrow> app_plan \<Rightarrow> ('w web, string list) lio" where
  "scaffold e FastAPI k =
     lseq (write_in e (os_join (ak_dir k) ''main.py'') FASTAPI_MAIN) (\<lambda>_.
     lseq (write_in e (os_join (ak_dir k) ''requirements.txt'') (text_lines [''fastapi'', ''uvicorn[standard]''])) (\<lambda>_.
       install_deps e (ak_dir k) (ak_venv k) (ak_type k)))"
| "scaffold e Flask k =
     lseq (write_in e (os_join (ak_dir k) ''app.py'') FLASK_APP) (\<lambda>_.
     lseq (write_in e (os_join (ak_dir k) ''requirements.txt'') (text_lines [''flask'', ''gunicorn''])) (\<lambda>_.
       install_deps e (ak_dir k) (ak_venv k) (ak_type k)))"
| "scaffold e Django k =
     lseq (write_in e (os_join (ak_dir k) ''requirements.txt'') (text_lines [''django'', ''gunicorn''])) (\<lambda>_.
     lseq (install_deps e (ak_dir k) (ak_venv k) (ak_type k)) (\<lambda>l1.
     lseq (run_in e (ak_dir k) [ak_venv k @ ''/bin/django-admin'', ''startproject'', project_name (ak_name k), ''.'']) (\<lambda>r.
       if \<not> cr_ok r then lret (Inl (AppError (''django startproject failed: '' @ take 200 (cr_stderr r))))
       else
         lseq (patch_settings e (ak_dir k) (project_name (ak_name k))) (\<lambda>l2.
         lseq (django_steps e (ak_dir k) (ak_venv k)) (\<lambda>l3. lret (Inr (l1 @ l2 @ l3)))))))"

definition build_template :: "'w py_env \<Rightarrow> int \<Rightarrow> string \<Rightarrow> string \<Rightarrow> string option \<Rightarrow> string \<Rightarrow> template \<Rightarrow> app_plan \<Rightarrow> ('w web, app_plan) lio" where
  "build_template e now tok env_vars version tname t k =
     fresh_dir e (ak_dir k)
       (lseq (on_fs (mkdirs (se_modes (pe_site e)) (app_path e (ak_dir k)))) (\<lambda>_.
        lseq (make_venv e (ak_dir k) (python_bin (pe_host e) version)) (\<lambda>_.
        lseq (write_env e (ak_dir k) env_vars) (\<lambda>_.
        lseq (scaffold e t k) (\<lambda>l.
          finish_app e now tok (strip env_vars \<noteq> []) ''pyapp.template'' tname (k\<lparr>ak_log := l\<rparr>))))))"

definition create_from_template ::
  "'w py_env \<Rightarrow> int \<Rightarrow> string \<Rightarrow> string \<Rightarrow> string \<Rightarrow> string \<Rightarrow> string \<Rightarrow> string option \<Rightarrow> bool \<Rightarrow> ('w web, app_plan) lio"
where
  "create_from_template e now tok name0 domain0 tname env_vars version app =
     lseq (lret (validate_app_name name0)) (\<lambda>name.
     lseq (lret (template_of tname)) (\<lambda>t.
     lseq (lret (app_domain domain0)) (\<lambda>domain. seeing (\<lambda>d.
       if app_by_name name d \<noteq> None then lret (Inl (AppError ''app name already exists''))
       else
         lseq (lret (pick_port d)) (\<lambda>port.
           let k = plan_for e name domain (''template:'' @ tname) ''-'' (template_kind t) (template_entry t name) port
           in if app then build_template e now tok env_vars version tname t k else lret (Inr k))))))"

section \<open>Running applications\<close>

definition deploy :: "'w py_env \<Rightarrow> int \<Rightarrow> ('w web, string list) lio" where
  "deploy e i =
     with_app i (\<lambda>a.
       lseq (run_in e (ap_dir a) [''git'', ''pull'', ''--ff-only'']) (\<lambda>r.
       let l0 = ''git pull: '' @ (if cr_ok r then take 120 (cr_stdout r) else take 160 (cr_stderr r)) in
       if \<not> cr_ok r then
         lseq (on_db (set_app_status i ''pull failed'')) (\<lambda>_. lret (Inl (AppError (''pull failed: '' @ take 200 (cr_stderr r)))))
       else
         lseq (install_deps e (ap_dir a) (ap_venv a) (ap_type a)) (\<lambda>l1.
         lseq (if ap_type a = ''django'' then django_steps e (ap_dir a) (ap_venv a) else lret (Inr [])) (\<lambda>l2.
         lseq (priv e [''systemctl'', ''restart'', ap_service a]) (\<lambda>res.
         lseq (on_db (set_app_status i (if cr_ok res then ''deployed'' else ''restart failed''))) (\<lambda>_.
         lseq (on_db (laudit None ''pyapp.deploy'' (ap_name a))) (\<lambda>_.
           lret (Inr ([l0] @ l1 @ l2 @ [told ''restart'' 160 res])))))))))"

datatype control_answer = StatusOf string string | Controlled string string bool string

definition last_part :: "nat \<Rightarrow> string \<Rightarrow> string" where
  \<comment> \<open>\<open>s[-n:]\<close>\<close>
  "last_part n s = drop (length s - n) s"

definition control :: "'w py_env \<Rightarrow> int \<Rightarrow> string \<Rightarrow> ('w web, control_answer) lio" where
  "control e i action =
     (if action \<notin> {''start'', ''stop'', ''restart'', ''status''} then lret (Inl (AppError ''invalid action''))
      else with_app i (\<lambda>a.
        lseq (priv e [''systemctl'', action, ap_service a]) (\<lambda>r.
          if action = ''status'' then
            lret (Inr (StatusOf (ap_name a) (if last_part 1500 (cr_stdout r) = [] then last_part 1500 (cr_stderr r) else last_part 1500 (cr_stdout r))))
          else
            lseq (on_db (set_app_status i (action @ ''ed''))) (\<lambda>_.
              lret (Inr (Controlled (ap_name a) action (cr_ok r) (if cr_ok r then [] else take 200 (cr_stderr r))))))))"

definition app_logs :: "'w py_env \<Rightarrow> int \<Rightarrow> int \<Rightarrow> ('w web, string \<times> string) lio" where
  \<comment> \<open>\<open>logs\<close>; an empty log is shown as a dash\<close>
  "app_logs e i lns =
     with_app i (\<lambda>a.
       let n = max 1 (min lns 1000) in
       if \<not> has (pe_host e) ''journalctl'' then lret (Inr (ap_name a, ''journalctl not available''))
       else
         lseq (priv e [''journalctl'', ''-u'', ap_service a, ''-n'', str_int n, ''--no-pager'', ''--no-hostname'']) (\<lambda>r.
           lret (Inr (ap_name a, if cr_stdout r \<noteq> [] then cr_stdout r else if cr_stderr r \<noteq> [] then cr_stderr r else ''-''))))"

definition ignoring_all :: "('s, 'v) lio \<Rightarrow> ('s, unit) lio" where
  \<comment> \<open>\<open>try: m except Exception: pass\<close>\<close>
  "ignoring_all m s = (fst (m s), Inr ())"

definition delete_app :: "'w py_env \<Rightarrow> int \<Rightarrow> bool \<Rightarrow> ('w web, string) lio" where
  "delete_app e i remove_files =
     with_app i (\<lambda>a.
       lseq (priv e [''systemctl'', ''disable'', ''--now'', ap_service a]) (\<lambda>_.
       lseq (priv e [''rm'', ''-f'', ''/etc/systemd/system/'' @ ap_service a]) (\<lambda>_.
       lseq (priv e [''systemctl'', ''daemon-reload'']) (\<lambda>_.
       lseq (if ap_domain a \<noteq> [] then ignoring_all (delete_site (pe_sh e) (pe_site e) (ap_domain a) True False) else lret (Inr ())) (\<lambda>_.
       lseq (if remove_files \<and> startswith (ap_dir a) (pe_base e) then quietly (priv e [''rm'', ''-rf'', ap_dir a]) else lret (Inr ())) (\<lambda>_.
       lseq (on_db (\<lambda>d. d\<lparr>pyapps := delete_where (\<lambda>r. ap_id r = i) (pyapps d)\<rparr>)) (\<lambda>_.
       lseq (on_db (laudit None ''pyapp.delete'' (ap_name a))) (\<lambda>_. lret (Inr (ap_name a))))))))))"

section \<open>Webhooks\<close>

record webhook_info =
  wi_name :: string
  wi_branch :: string
  wi_path :: string
  wi_secret :: string

definition get_webhook_info :: "int \<Rightarrow> (ldb \<times> 'w, webhook_info) lio" where
  "get_webhook_info i =
     with_app i (\<lambda>a. lret (Inr \<lparr>wi_name = ap_name a, wi_branch = ap_branch a, wi_path = ''/api/pyapps/'' @ str_int i @ ''/webhook'',
       wi_secret = unless_given (ap_secret a) []\<rparr>))"

definition regenerate_secret :: "int \<Rightarrow> string \<Rightarrow> (ldb \<times> 'w, string) lio" where
  "regenerate_secret i tok =
     with_app i (\<lambda>a.
       lseq (on_db (\<lambda>d. d\<lparr>pyapps := update_where (\<lambda>r. ap_id r = i) (\<lambda>r. r\<lparr>ap_secret := Some tok\<rparr>) (pyapps d)\<rparr>)) (\<lambda>_.
       lseq (on_db (laudit None ''pyapp.regen_secret'' (ap_name a))) (\<lambda>_. lret (Inr tok))))"

type_synonym hex_mac = "nat list \<Rightarrow> nat list \<Rightarrow> string"
  \<comment> \<open>\<open>hmac.new(key, body, sha256).hexdigest()\<close>\<close>

definition verify_signature :: "hex_mac \<Rightarrow> string option \<Rightarrow> nat list \<Rightarrow> string option \<Rightarrow> bool lres" where
  "verify_signature hm key body header =
     (let k = unless_given key []; h = unless_given header [] in
      if k = [] \<or> h = [] \<or> \<not> startswith h ''sha256='' then Inr False
      else case compare_digest_str (hm (utf8 k) body) (drop 7 h) of Inl x \<Rightarrow> Inl (Other x) | Inr b \<Rightarrow> Inr b)"

datatype hook_answer = Pong string | IgnoredEvent string | IgnoredRef string string | Deploying string

definition ref_matches :: "json \<Rightarrow> string \<Rightarrow> bool lres" where
  \<comment> \<open>a ref that is no text has no \<open>endswith\<close>\<close>
  "ref_matches ref branch =
     (if \<not> truthy ref then Inr True
      else case ref of JStr s \<Rightarrow> Inr (s = branch \<or> endswith s (''/'' @ branch)) | _ \<Rightarrow> Inl (Other AttributeError))"

definition handle_webhook :: "hex_mac \<Rightarrow> (json \<Rightarrow> string) \<Rightarrow> int \<Rightarrow> nat list \<Rightarrow> string option \<Rightarrow> string option \<Rightarrow> json \<Rightarrow> (ldb \<times> 'w, hook_answer) lio" where
  \<comment> \<open>with \<open>Deploying\<close> a thread has been started that runs \<open>safe_deploy\<close>\<close>
  "handle_webhook hm rp i body signature event ref =
     with_app i (\<lambda>a.
       lseq (lret (verify_signature hm (ap_secret a) body signature)) (\<lambda>ok.
       if \<not> ok then lret (Inl (AppError ''invalid webhook signature''))
       else
         let ev = unless_given event [] in
         if ev = ''ping'' then lret (Inr (Pong (ap_name a)))
         else if ev \<noteq> [] \<and> ev \<noteq> ''push'' then lret (Inr (IgnoredEvent ev))
         else
           let branch = (if ap_branch a = [] then ''main'' else ap_branch a) in
           lseq (lret (ref_matches ref branch)) (\<lambda>m.
             if \<not> m then lret (Inr (IgnoredRef (py_str rp ref) branch))
             else
               lseq (on_db (set_app_status i ''deploy queued (webhook)'')) (\<lambda>_.
               lseq (on_db (laudit None ''pyapp.webhook'' (ap_name a @ '' ref='' @ py_str rp ref))) (\<lambda>_.
                 lret (Inr (Deploying (ap_name a))))))))"

definition safe_deploy :: "'w py_env \<Rightarrow> int \<Rightarrow> ('w web, unit) lio" where
  "safe_deploy e i = ignoring_all (deploy e i)"

section \<open>Routes\<close>

definition route_list_apps :: "caller lres \<Rightarrow> (ldb \<times> 'w, app_row list) lio" where
  "route_list_apps who = lseq (lret who) (\<lambda>_. seeing (\<lambda>d. lret (Inr (list_apps d))))"

definition route_templates :: "caller lres \<Rightarrow> (ldb \<times> 'w, (string \<times> string \<times> string \<times> string) list) lio" where
  "route_templates who = lseq (lret who) (\<lambda>_. lret (Inr TEMPLATES))"

definition route_create_app ::
  "'w py_env \<Rightarrow> int \<Rightarrow> string \<Rightarrow> caller lres \<Rightarrow> string \<Rightarrow> string \<Rightarrow> string \<Rightarrow> string \<Rightarrow> string \<Rightarrow> string \<Rightarrow> string \<Rightarrow> string option \<Rightarrow> bool \<Rightarrow> ('w web, app_plan) lio"
where
  "route_create_app e now tok who name domain repo branch app_type entry env_vars version dry =
     as_manager who (app_http 400 (create_app e now tok name domain repo branch app_type entry env_vars version (\<not> dry)))"

definition route_from_template ::
  "'w py_env \<Rightarrow> int \<Rightarrow> string \<Rightarrow> caller lres \<Rightarrow> string \<Rightarrow> string \<Rightarrow> string \<Rightarrow> string \<Rightarrow> string option \<Rightarrow> bool \<Rightarrow> ('w web, app_plan) lio"
where
  "route_from_template e now tok who name domain tname env_vars version dry =
     as_manager who (app_http 400 (create_from_template e now tok name domain tname env_vars version (\<not> dry)))"

definition route_webhook_info :: "caller lres \<Rightarrow> int \<Rightarrow> (ldb \<times> 'w, webhook_info) lio" where
  "route_webhook_info who i = as_manager who (app_http 404 (get_webhook_info i))"

definition route_regenerate :: "caller lres \<Rightarrow> int \<Rightarrow> string \<Rightarrow> (ldb \<times> 'w, string) lio" where
  "route_regenerate who i tok = as_manager who (app_http 404 (regenerate_secret i tok))"

definition body_ref :: "(nat list \<Rightarrow> json res) \<Rightarrow> nat list \<Rightarrow> json" where
  \<comment> \<open>\<open>(json.loads(body or b"{}") or {}).get("ref")\<close>, or \<open>None\<close> where that raises\<close>
  "body_ref jl body =
     (case jl (if body = [] then utf8 ''{}'' else body) of
        Inr (JObj kvs) \<Rightarrow> (case map_of kvs ''ref'' of None \<Rightarrow> JNull | Some v \<Rightarrow> v)
      | _ \<Rightarrow> JNull)"

definition route_webhook :: "hex_mac \<Rightarrow> (nat list \<Rightarrow> json res) \<Rightarrow> (json \<Rightarrow> string) \<Rightarrow> int \<Rightarrow> nat list \<Rightarrow> string option \<Rightarrow> string option \<Rightarrow> (ldb \<times> 'w, hook_answer) lio" where
  \<comment> \<open>without a token\<close>
  "route_webhook hm jl rp i body signature event = app_http 403 (handle_webhook hm rp i body signature event (body_ref jl body))"

definition route_deploy :: "'w py_env \<Rightarrow> caller lres \<Rightarrow> int \<Rightarrow> ('w web, string list) lio" where
  "route_deploy e who i = as_manager who (app_http 400 (deploy e i))"

definition route_control :: "'w py_env \<Rightarrow> caller lres \<Rightarrow> int \<Rightarrow> string \<Rightarrow> ('w web, control_answer) lio" where
  "route_control e who i action = as_manager who (app_http 400 (control e i action))"

definition route_app_logs :: "'w py_env \<Rightarrow> caller lres \<Rightarrow> int \<Rightarrow> int \<Rightarrow> ('w web, string \<times> string) lio" where
  "route_app_logs e who i lns = lseq (lret who) (\<lambda>_. app_http 400 (app_logs e i lns))"

definition route_delete_app :: "'w py_env \<Rightarrow> caller lres \<Rightarrow> int \<Rightarrow> bool \<Rightarrow> ('w web, string) lio" where
  "route_delete_app e who i remove_files = as_manager who (app_http 400 (delete_app e i remove_files))"

section \<open>Names and ports\<close>

datatype app_request =
    CreateApp string string string string string string string "string option" bool string
  | FromTemplate string string string string "string option" bool string
  | Deploy int | Control int string | DeleteApp int bool | Regenerate int string
  | Webhook int "nat list" "string option" "string option"
  | Thread int \<comment> \<open>a thread that a webhook started\<close>

fun app_serve :: "'w py_env \<Rightarrow> hex_mac \<Rightarrow> (nat list \<Rightarrow> json res) \<Rightarrow> (json \<Rightarrow> string) \<Rightarrow> int \<Rightarrow> caller lres \<Rightarrow> app_request \<Rightarrow> ('w web, unit) lio" where
  "app_serve e hm jl rp now who (CreateApp n dn r b t en vs v dry tok) = quietly (route_create_app e now tok who n dn r b t en vs v dry)"
| "app_serve e hm jl rp now who (FromTemplate n dn t vs v dry tok) = quietly (route_from_template e now tok who n dn t vs v dry)"
| "app_serve e hm jl rp now who (Deploy i) = quietly (route_deploy e who i)"
| "app_serve e hm jl rp now who (Control i a) = quietly (route_control e who i a)"
| "app_serve e hm jl rp now who (DeleteApp i rf) = quietly (route_delete_app e who i rf)"
| "app_serve e hm jl rp now who (Regenerate i tok) = quietly (route_regenerate who i tok)"
| "app_serve e hm jl rp now who (Webhook i body sg ev) = quietly (route_webhook hm jl rp i body sg ev)"
| "app_serve e hm jl rp now who (Thread i) = safe_deploy e i"

definition apps_ok :: "ldb \<Rightarrow> bool" where
  "apps_ok d =
     (distinct (map ap_name (pyapps d)) \<and> distinct (map ap_port (pyapps d)) \<and> distinct (map ap_id (pyapps d))
      \<and> (\<forall>r \<in> set (pyapps d). ap_id r \<le> app_seq d \<and> PORT_MIN \<le> ap_port r \<and> ap_port r \<le> PORT_MAX \<and> app_name_ok (ap_name r)
           \<and> ap_service r = ''icsd-pyapp-'' @ ap_name r @ ''.service''))"

lemma pick_port_free:
  assumes "pick_port d = Inr p"
  shows "PORT_MIN \<le> p \<and> p \<le> PORT_MAX \<and> p \<notin> ap_port ` set (pyapps d)"
proof -
  have ports: "set (map ap_port (list_apps d)) = ap_port ` set (pyapps d)" by (auto simp: list_apps_def image_image)
  obtain ps where "filter (\<lambda>p. p \<notin> set (map ap_port (list_apps d))) [PORT_MIN .. PORT_MAX] = p # ps"
    using assms by (auto simp: pick_port_def split: list.splits)
  then have "p \<in> set (filter (\<lambda>p. p \<notin> set (map ap_port (list_apps d))) [PORT_MIN .. PORT_MAX])" by simp
  then show ?thesis unfolding ports by simp
qed

text \<open>
  A port is found exactly as long as one is free: the search ends, gives the smallest port of the range that no application has, and fails only if all of the 999
  ports are taken.
\<close>

theorem free_port_found:
  "case pick_port d of
     Inr p \<Rightarrow> PORT_MIN \<le> p \<and> p \<le> PORT_MAX \<and> p \<notin> ap_port ` set (pyapps d) \<and> {PORT_MIN ..< p} \<subseteq> ap_port ` set (pyapps d)
   | Inl e \<Rightarrow> {PORT_MIN .. PORT_MAX} \<subseteq> ap_port ` set (pyapps d)"
proof -
  have ports: "set (map ap_port (list_apps d)) = ap_port ` set (pyapps d)" by (auto simp: list_apps_def image_image)
  show ?thesis
  proof (cases "filter (\<lambda>p. p \<notin> set (map ap_port (list_apps d))) [PORT_MIN .. PORT_MAX]")
    case Nil
    then have "\<forall>p \<in> set [PORT_MIN .. PORT_MAX]. p \<in> ap_port ` set (pyapps d)" unfolding filter_empty_conv ports by blast
    then show ?thesis using Nil by (auto simp: pick_port_def)
  next
    case (Cons p ps)
    have p: "pick_port d = Inr p" using Cons by (simp add: pick_port_def)
    obtain us vs where v: "[PORT_MIN .. PORT_MAX] = us @ p # vs" "\<forall>u \<in> set us. u \<in> ap_port ` set (pyapps d)"
      using Cons unfolding filter_eq_Cons_iff ports by blast
    have "sorted (us @ p # vs)" using v(1) by (metis sorted_upto)
    then have "q \<in> set us" if "PORT_MIN \<le> q" "q < p" for q
    proof -
      have "p \<in> set [PORT_MIN .. PORT_MAX]" using v(1) by simp
      then have "q \<in> set [PORT_MIN .. PORT_MAX]" using that by simp
      then show ?thesis using v(1) \<open>sorted (us @ p # vs)\<close> that by (auto simp: sorted_append)
    qed
    then show ?thesis using pick_port_free [OF p] v(2) p by auto
  qed
qed

lemma keeps_cond: "holds_over P m \<Longrightarrow> holds_over P (\<lambda>s. if c s then (s, r s) else m s)"
  by (simp add: holds_over_def)

lemma create_site_blind:
  assumes "log_free P" "\<And>d l. P (d\<lparr>sites := l\<rparr>) = P d"
  shows "holds_over P (create_site sh e now dn ty al php px wr app)"
  unfolding create_site_def Let_def
  by (intro keeps_rules keeps_cond keeps_on_db keeps_laudit assms keeps_test_and_reload) (simp add: assms(2))

lemma delete_site_blind:
  assumes "log_free P" "\<And>d l. P (d\<lparr>sites := l\<rparr>) = P d"
  shows "holds_over P (delete_site sh e dn app rw)"
  unfolding delete_site_def by (intro site_keeps keeps_on_db assms(1)) (simp add: assms(2))

definition blind :: "(ldb \<Rightarrow> bool) \<Rightarrow> bool" where
  \<comment> \<open>a condition that looks neither at the log nor at the sites\<close>
  "blind P = (log_free P \<and> (\<forall>d l. P (d\<lparr>sites := l\<rparr>) = P d))"

lemma keeps_looking: "(\<And>f. holds_over P (k f)) \<Longrightarrow> holds_over P (looking k)"
  by (simp add: holds_over_def looking_def)

lemma keeps_priv: "holds_over P (priv e args)"
  unfolding priv_def by (rule keeps_on_world)

lemma keeps_run_in: "holds_over P (run_in e dir args)"
  unfolding run_in_def by (rule keeps_on_world)

lemma keeps_write_in: "holds_over P (write_in e s text)"
  unfolding write_in_def by (rule keeps_on_fs)

lemmas keeps_calls = keeps_looking keeps_priv keeps_run_in keeps_write_in keeps_rules

lemma keeps_ensure_base: "holds_over P (ensure_base e)"
  unfolding ensure_base_def by (intro keeps_calls)

lemma keeps_install_deps: "holds_over P (install_deps e dir venv ty)"
  unfolding install_deps_def Let_def by (intro keeps_calls)

lemma keeps_django_steps: "holds_over P (django_steps e dir venv)"
  unfolding django_steps_def by (intro keeps_calls)

lemma keeps_make_venv: "holds_over P (make_venv e dir b)"
  unfolding make_venv_def by (intro keeps_calls)

lemma keeps_write_env: "holds_over P (write_env e dir v)"
  unfolding write_env_def by (intro keeps_calls)

lemma keeps_start_service: "holds_over P (start_service e s t)"
  unfolding start_service_def write_unit_def by (intro keeps_calls)

lemma keeps_clone_repo: "holds_over P (clone_repo e b r n)"
  unfolding clone_repo_def by (intro keeps_calls)

lemma keeps_patch_settings: "holds_over P (patch_settings e dir proj)"
proof (rule keeps_same)
  fix s
  have "fst (fst (append_in e (os_join (os_join dir proj) ''settings.py'') DJANGO_SETTINGS s)) = fst s"
    using keepsD [OF keeps_on_fs, of "\<lambda>x. x = fst s" s] unfolding append_in_def by blast
  then show "fst (fst (patch_settings e dir proj s)) = fst s"
    by (auto simp: patch_settings_def split: prod.split sum.split)
qed

lemma keeps_scaffold: "holds_over P (scaffold e t k)"
  by (cases t) (auto intro!: keeps_calls keeps_install_deps keeps_patch_settings keeps_django_steps)

lemma keeps_try_site:
  assumes "blind P" shows "holds_over P (try_site e now domain port dir)"
proof (rule keepsI)
  fix s :: "'a web" assume s: "P (fst s)"
  let ?c = "create_site (pe_sh e) (pe_site e) now domain ''proxy'' [] None (Some (''http://127.0.0.1:'' @ str_int port)) (Some dir) True s"
  have "P (fst (fst ?c))" using create_site_blind [of P] assms s unfolding blind_def by (blast intro: keepsD)
  then show "P (fst (fst (try_site e now domain port dir s)))" using s by (auto simp: try_site_def split: prod.split sum.split)
qed

lemma keeps_ignoring: "holds_over P m \<Longrightarrow> holds_over P (ignoring_all m)"
  by (simp add: holds_over_def ignoring_all_def)

lemma keeps_with_app: "(\<And>a. holds_over P (m a)) \<Longrightarrow> holds_over P (with_app i m)"
  unfolding with_app_def by (rule keeps_seeing) (simp add: keeps_lret split: option.split)

lemmas keeps_apps = keeps_calls keeps_ensure_base keeps_install_deps keeps_django_steps keeps_make_venv keeps_write_env keeps_start_service keeps_clone_repo
  keeps_scaffold keeps_ignoring keeps_with_app keeps_Let

definition brings :: "(ldb \<Rightarrow> bool) \<Rightarrow> (ldb \<Rightarrow> bool) \<Rightarrow> (ldb \<times> 'w, 'v) lio \<Rightarrow> bool" where
  "brings P Q m = (\<forall>s. P (fst s) \<longrightarrow> Q (fst (fst (m s))))"

lemma brings_lret: "(\<And>d. P d \<Longrightarrow> Q d) \<Longrightarrow> brings P Q (lret r)"
  by (simp add: brings_def lret_def)

lemma brings_lseq:
  fixes m :: "(ldb \<times> 'w, 'v) lio"
  assumes "holds_over P m" "\<And>d. P d \<Longrightarrow> Q d" "\<And>x. brings P Q (k x)"
  shows "brings P Q (lseq m k)"
  unfolding brings_def
proof (intro allI impI)
  fix s :: "ldb \<times> 'w" assume "P (fst s)"
  then have "P (fst (fst (m s)))" by (rule keepsD [OF assms(1)])
  then show "Q (fst (fst (lseq m k s)))" using assms(2,3) by (auto simp: brings_def lseq_def split: prod.splits sum.splits)
qed

lemma brings_looking: "(\<And>f. brings P Q (k f)) \<Longrightarrow> brings P Q (looking k)"
  by (simp add: brings_def looking_def)

lemma brings_if: "(b \<Longrightarrow> brings P Q m) \<Longrightarrow> (\<not> b \<Longrightarrow> brings P Q n) \<Longrightarrow> brings P Q (if b then m else n)"
  by simp

lemma brings_on_db: "(\<And>d. P d \<Longrightarrow> Q (f d)) \<Longrightarrow> (\<And>x. holds_over Q (k x)) \<Longrightarrow> brings P Q (lseq (on_db f) k)"
  by (simp add: brings_def holds_over_def lseq_def on_db_def)

lemma seeing_brings: "(\<And>d. Q d \<Longrightarrow> brings (P d) Q (k d)) \<Longrightarrow> (\<And>d. P d d) \<Longrightarrow> holds_over Q (seeing k)"
  by (simp add: brings_def holds_over_def seeing_def)

definition same_apps :: "ldb \<Rightarrow> ldb \<Rightarrow> bool" where
  "same_apps d x = (pyapps x = pyapps d \<and> app_seq x = app_seq d)"

lemma blind_same: "blind (same_apps d)"
  by (simp add: blind_def log_free_def same_apps_def)

lemma blind_apps_ok: "blind apps_ok"
  by (simp add: blind_def log_free_def apps_ok_def)

lemma apps_ok_same: "apps_ok d \<Longrightarrow> same_apps d x \<Longrightarrow> apps_ok x"
  by (simp add: apps_ok_def same_apps_def)

definition new_app :: "ldb \<Rightarrow> app_plan \<Rightarrow> bool" where
  "new_app d k = (app_by_name (ak_name k) d = None \<and> PORT_MIN \<le> ak_port k \<and> ak_port k \<le> PORT_MAX \<and> ak_port k \<notin> ap_port ` set (pyapps d)
     \<and> app_name_ok (ak_name k) \<and> ak_service k = ''icsd-pyapp-'' @ ak_name k @ ''.service'')"

lemma insert_app_ok:
  assumes ok: "apps_ok d" and s: "same_apps d x" and n: "new_app d k" shows "apps_ok (insert_app now tok k x)"
proof -
  have free: "ak_name k \<notin> ap_name ` set (pyapps d)" using n by (auto simp: new_app_def app_by_name_def select_one_None)
  have "\<forall>r \<in> set (pyapps d). ap_id r \<le> app_seq d" using ok by (simp add: apps_ok_def)
  then have ids: "app_seq d + 1 \<notin> ap_id ` set (pyapps d)" by fastforce
  show ?thesis using ok s n free ids by (auto simp: insert_app_def apps_ok_def same_apps_def new_app_def)
qed

lemma log_free_apps: "log_free apps_ok"
  by (simp add: log_free_def apps_ok_def)

lemma finish_brings:
  assumes "apps_ok d" "new_app d k" shows "brings (same_apps d) apps_ok (finish_app e now tok he what src k)"
proof -
  note same = apps_ok_same [OF assms(1)]
  have "brings (same_apps d) apps_ok (lseq (on_db (insert_app now tok k)) (\<lambda>_. lseq (on_db (laudit None what t)) (\<lambda>_. lret r)) :: (ldb \<times> 'b \<times> fs, app_plan) lio)" for t r
    by (rule brings_on_db, erule insert_app_ok [OF assms(1) _ assms(2)]) (intro keeps_lseq keeps_laudit keeps_lret log_free_apps)
  then show ?thesis unfolding finish_app_def
    by (intro brings_lseq [OF keeps_start_service same] brings_lseq [OF keeps_try_site [OF blind_same] same])
qed

lemma new_app_log [simp]: "new_app d (k\<lparr>ak_log := l\<rparr>) = new_app d k"
  by (simp add: new_app_def)

lemma fresh_brings: "(\<And>x. P x \<Longrightarrow> Q x) \<Longrightarrow> brings P Q m \<Longrightarrow> brings P Q (fresh_dir e dir m)"
  unfolding fresh_dir_def by (intro brings_lseq brings_looking brings_if brings_lret keeps_ensure_base)

lemma build_app_brings: "apps_ok d \<Longrightarrow> new_app d k \<Longrightarrow> brings (same_apps d) apps_ok (build_app e now tok vs v k)"
  unfolding build_app_def
  by (intro fresh_brings brings_lseq [OF keeps_clone_repo] brings_lseq [OF keeps_make_venv] brings_lseq [OF keeps_write_env] brings_lseq [OF keeps_install_deps]
      brings_lseq [OF keeps_if [OF keeps_django_steps keeps_lret]] finish_brings) (auto intro: apps_ok_same)

lemma build_template_brings: "apps_ok d \<Longrightarrow> new_app d k \<Longrightarrow> brings (same_apps d) apps_ok (build_template e now tok vs v tn t k)"
  unfolding build_template_def
  by (intro fresh_brings brings_lseq [OF keeps_on_fs] brings_lseq [OF keeps_make_venv] brings_lseq [OF keeps_write_env] brings_lseq [OF keeps_scaffold] finish_brings)
    (auto intro: apps_ok_same)

lemma planned_new:
  "validate_app_name n0 = Inr n \<Longrightarrow> app_by_name n d = None \<Longrightarrow> pick_port d = Inr p \<Longrightarrow> new_app d (plan_for e n dn src b ty ent p)"
  using pick_port_free [of d p] by (auto simp: new_app_def plan_for_def validate_app_name_def Let_def split: if_splits)

lemma brings_valid: "(\<And>v. r = Inr v \<Longrightarrow> brings P Q (k v)) \<Longrightarrow> (\<And>d. P d \<Longrightarrow> Q d) \<Longrightarrow> brings P Q (lseq (lret r) k)"
  by (cases r) (auto simp: brings_def lseq_def lret_def)

lemma same_apps_refl: "same_apps d d"
  by (simp add: same_apps_def)

lemma create_app_keeps: "holds_over apps_ok (create_app e now tok n dn r b ty ent vs v app)"
  unfolding create_app_def Let_def
  by (intro keeps_valid keeps_if keeps_lret seeing_brings [where P = same_apps] same_apps_refl brings_if brings_lret brings_valid build_app_brings)
    (auto intro: apps_ok_same planned_new)

lemma create_from_template_keeps: "holds_over apps_ok (create_from_template e now tok n dn t vs v app)"
  unfolding create_from_template_def Let_def
  by (intro keeps_valid seeing_brings [where P = same_apps] same_apps_refl brings_if brings_lret brings_valid build_template_brings)
    (auto intro: apps_ok_same planned_new)

lemma apps_ok_update:
  assumes "apps_ok d" "\<And>r. ap_name (f r) = ap_name r \<and> ap_port (f r) = ap_port r \<and> ap_id (f r) = ap_id r \<and> ap_service (f r) = ap_service r"
  shows "apps_ok (d\<lparr>pyapps := update_where p f (pyapps d)\<rparr>)"
proof -
  have m: "map ap_name (update_where p f (pyapps d)) = map ap_name (pyapps d)" "map ap_port (update_where p f (pyapps d)) = map ap_port (pyapps d)"
    "map ap_id (update_where p f (pyapps d)) = map ap_id (pyapps d)" using assms(2) by (simp_all add: update_where_def)
  have "\<forall>r \<in> set (update_where p f (pyapps d)). ap_id r \<le> app_seq d \<and> PORT_MIN \<le> ap_port r \<and> ap_port r \<le> PORT_MAX \<and> app_name_ok (ap_name r)
      \<and> ap_service r = ''icsd-pyapp-'' @ ap_name r @ ''.service''"
    using assms by (auto simp: apps_ok_def update_where_def)
  then show ?thesis using assms(1) unfolding apps_ok_def by (simp add: m)
qed

lemma set_status_ok: "apps_ok d \<Longrightarrow> apps_ok (set_app_status i st d)"
  unfolding set_app_status_def by (rule apps_ok_update) simp_all

lemma delete_ok: "apps_ok d \<Longrightarrow> apps_ok (d\<lparr>pyapps := delete_where p (pyapps d)\<rparr>)"
  by (auto simp: apps_ok_def delete_where_def distinct_map_filter)

lemma deploy_keeps: "holds_over apps_ok (deploy e i)"
  unfolding deploy_def by (intro keeps_apps keeps_on_db keeps_laudit log_free_apps set_status_ok)

lemma control_keeps: "holds_over apps_ok (control e i a)"
  unfolding control_def by (intro keeps_apps keeps_on_db set_status_ok)

lemma delete_app_keeps: "holds_over apps_ok (delete_app e i rf)"
  unfolding delete_app_def
  by (intro keeps_apps keeps_on_db keeps_laudit log_free_apps delete_ok delete_site_blind) (simp_all add: apps_ok_def)

lemma regenerate_keeps: "holds_over apps_ok (regenerate_secret i tok)"
  unfolding regenerate_secret_def by (intro keeps_apps keeps_on_db keeps_laudit log_free_apps apps_ok_update) simp_all

lemma webhook_keeps: "holds_over apps_ok (handle_webhook hm rp i body sg ev ref)"
  unfolding handle_webhook_def by (intro keeps_apps keeps_on_db keeps_laudit log_free_apps set_status_ok)

lemma app_serve_keeps: "holds_over apps_ok (app_serve e hm jl rp now who q)"
  by (cases q) (auto simp: route_create_app_def route_from_template_def route_deploy_def route_control_def route_delete_app_def route_regenerate_def
    route_webhook_def safe_deploy_def intro!: keeps_rules keeps_ignoring create_app_keeps create_from_template_keeps deploy_keeps control_keeps delete_app_keeps
    regenerate_keeps webhook_keeps)

interpretation apps_run: machine "\<lambda>(now, who, q) s. fst (app_serve e hm jl rp now who q s)" "\<lambda>s. apps_ok (fst s)" for e hm jl rp
  by unfold_locales (auto simp: keepsD [OF app_serve_keeps] split: prod.split)

text \<open>
  C39. Applications do not get in each other's way: whatever requests, webhooks and deployments run one after another, and however commands, files and sites behave, every
  application has a name, a unit and a port of its own, and the port is one of the 999 set aside for them.
\<close>

theorem apps_have_own_ports:
  assumes "pyapps (fst s) = []" and "d = fst (fold (\<lambda>(now, who, q) s. fst (app_serve e hm jl rp now who q s)) qs s)"
  shows "distinct (map ap_port (pyapps d)) \<and> distinct (map ap_name (pyapps d)) \<and> distinct (map ap_service (pyapps d))
     \<and> (\<forall>r \<in> set (pyapps d). 8001 \<le> ap_port r \<and> ap_port r \<le> 8999)"
proof -
  have "apps_ok (fst s)" using assms(1) by (simp add: apps_ok_def)
  from apps_run.run_inv [OF this, of e hm jl rp qs] have ok: "apps_ok d" unfolding assms(2) by (simp only:)
  then have "map ap_service (pyapps d) = map (\<lambda>n. ''icsd-pyapp-'' @ n @ ''.service'') (map ap_name (pyapps d))" by (auto simp: apps_ok_def)
  moreover have "inj (\<lambda>n. ''icsd-pyapp-'' @ n @ ''.service'')" by (rule injI) (simp only: append_same_eq same_append_eq)
  moreover have "distinct (map ap_name (pyapps d))" using ok by (simp add: apps_ok_def)
  ultimately have "distinct (map ap_service (pyapps d))" by (simp only: distinct_map [of _ "map ap_name _"] simp_thms inj_on_subset [OF _ subset_UNIV])
  then show ?thesis using ok by (simp add: apps_ok_def PORT_MIN_def PORT_MAX_def)
qed

section \<open>Who may deploy\<close>

text \<open>
  C38. A webhook without the right signature does nothing: either the request carries exactly the digest of its body under the application's own secret, which is set, or it is
  refused with an error and leaves everything as it was.
\<close>

theorem webhook_needs_signature:
  "(\<exists>a k. app_by_id i (fst s) = Some a \<and> ap_secret a = Some k \<and> k \<noteq> [] \<and> sg = Some (''sha256='' @ hm (utf8 k) body))
   \<or> (\<exists>x. route_webhook hm jl rp i body sg ev s = (s, Inl x))"
proof (cases "app_by_id i (fst s)")
  case None
  then show ?thesis by (simp add: route_webhook_def app_http_def handle_webhook_def with_app_def seeing_def lret_def)
next
  case (Some a)
  let ?v = "verify_signature hm (ap_secret a) body sg"
  show ?thesis
  proof (cases "?v = Inr True")
    case True
    then obtain k h where k: "ap_secret a = Some k" "k \<noteq> []" and h: "sg = Some h" "startswith h ''sha256=''" "hm (utf8 k) body = drop 7 h"
      by (auto simp: verify_signature_def unless_given_def Let_def compare_digest_str_def split: option.splits if_splits sum.splits)
    have "h = ''sha256='' @ drop 7 h" using h(2) by (auto simp: startswith_iff)
    then show ?thesis using Some k h by metis
  next
    case False
    have "\<exists>x. handle_webhook hm rp i body sg ev (body_ref jl body) s = (s, Inl x)"
      using False by (cases ?v) (auto simp: handle_webhook_def with_app_def seeing_def Some lseq_def lret_def)
    then obtain x where "handle_webhook hm rp i body sg ev (body_ref jl body) s = (s, Inl x)" by blast
    then have "\<exists>x. route_webhook hm jl rp i body sg ev s = (s, Inl x)" by (cases x) (simp_all add: route_webhook_def app_http_def)
    then show ?thesis by blast
  qed
qed

definition aftermath :: "ldb \<Rightarrow> (ldb \<Rightarrow> bool) \<Rightarrow> (ldb \<Rightarrow> bool) \<Rightarrow> (ldb \<times> 'w, 'v) lio \<Rightarrow> bool" where
  \<comment> \<open>started on these tables: what holds of them after a result, and after an error\<close>
  "aftermath d P E m = (\<forall>w. case m (d, w) of (s', Inr v) \<Rightarrow> P (fst s') | (s', Inl x) \<Rightarrow> E (fst s'))"

lemma aftermath_lseq:
  assumes "\<And>P. holds_over P m" "E d" "\<And>x. aftermath d P E (k x)"
  shows "aftermath d P E (lseq m k)"
  unfolding aftermath_def
proof
  fix w
  have "fst (fst (m (d, w))) = d" using keepsD [OF assms(1) [of "\<lambda>x. x = d"], of "(d, w)"] by simp
  then obtain w' r where "m (d, w) = ((d, w'), r)" by (metis prod.collapse)
  then show "case lseq m k (d, w) of (s', Inr v) \<Rightarrow> P (fst s') | (s', Inl x) \<Rightarrow> E (fst s')"
    using assms(2,3) by (cases r) (auto simp: aftermath_def lseq_def)
qed

lemma aftermath_on_db: "aftermath (f d) P E (k ()) \<Longrightarrow> aftermath d P E (lseq (on_db f) k)"
  by (simp add: aftermath_def lseq_def on_db_def)

lemma aftermath_lret: "aftermath d P E (lret r) = (case r of Inr v \<Rightarrow> P d | Inl x \<Rightarrow> E d)"
  by (simp add: aftermath_def lret_def split: sum.split)

text \<open>
  Cn. What a deployment leaves behind: one that ends well is audited and its status is that of the restart; one that fails in the pull stores just that status; and one that fails
  later, in the installation of the requirements, stores nothing at all, so the application keeps the status it had, such as \<open>deploy queued\<close>.
\<close>

theorem deploy_outcome:
  "case deploy e i s of
     (s', Inr l) \<Rightarrow> \<exists>a st. app_by_id i (fst s) = Some a \<and> st \<in> {''deployed'', ''restart failed''} \<and> fst s' = laudit None ''pyapp.deploy'' (ap_name a) (set_app_status i st (fst s))
   | (s', Inl x) \<Rightarrow> fst s' = fst s \<or> fst s' = set_app_status i ''pull failed'' (fst s)"
proof -
  let ?P = "\<lambda>x. \<exists>a st. app_by_id i (fst s) = Some a \<and> st \<in> {''deployed'', ''restart failed''} \<and> x = laudit None ''pyapp.deploy'' (ap_name a) (set_app_status i st (fst s))"
  let ?E = "\<lambda>x. x = fst s \<or> x = set_app_status i ''pull failed'' (fst s)"
  have "aftermath (fst s) ?P ?E (deploy e i)"
  proof (cases "app_by_id i (fst s)")
    case None
    then show ?thesis by (simp add: aftermath_def deploy_def with_app_def seeing_def lret_def)
  next
    case (Some a)
    have "aftermath (fst s) ?P ?E (lseq (run_in e (ap_dir a) [''git'', ''pull'', ''--ff-only'']) (\<lambda>r.
       let l0 = ''git pull: '' @ (if cr_ok r then take 120 (cr_stdout r) else take 160 (cr_stderr r)) in
       if \<not> cr_ok r then
         lseq (on_db (set_app_status i ''pull failed'')) (\<lambda>_. lret (Inl (AppError (''pull failed: '' @ take 200 (cr_stderr r)))))
       else
         lseq (install_deps e (ap_dir a) (ap_venv a) (ap_type a)) (\<lambda>l1.
         lseq (if ap_type a = ''django'' then django_steps e (ap_dir a) (ap_venv a) else lret (Inr [])) (\<lambda>l2.
         lseq (priv e [''systemctl'', ''restart'', ap_service a]) (\<lambda>res.
         lseq (on_db (set_app_status i (if cr_ok res then ''deployed'' else ''restart failed''))) (\<lambda>_.
         lseq (on_db (laudit None ''pyapp.deploy'' (ap_name a))) (\<lambda>_.
           lret (Inr ([l0] @ l1 @ l2 @ [told ''restart'' 160 res])))))))) :: ('a web, string list) lio)"
      unfolding Let_def using Some
      by (auto intro!: aftermath_lseq [OF keeps_run_in] aftermath_lseq [OF keeps_install_deps] aftermath_lseq [OF keeps_django_steps] aftermath_lseq [OF keeps_lret]
        aftermath_lseq [OF keeps_priv] aftermath_on_db simp: aftermath_lret) blast+
    then show ?thesis using Some by (simp add: aftermath_def deploy_def with_app_def seeing_def)
  qed
  from this [unfolded aftermath_def, THEN spec, of "snd s"] show ?thesis by (simp only: prod.collapse)
qed

section \<open>Units\<close>

definition unit_setting :: "string \<Rightarrow> string \<Rightarrow> string option" where
  \<comment> \<open>what systemd reads for a setting that has one value: the last line that assigns it\<close>
  "unit_setting key text =
     (case filter (\<lambda>l. startswith l (key @ ''='')) (split_on NL text) of [] \<Rightarrow> None | ls \<Rightarrow> Some (drop (length key + 1) (last ls)))"

lemma split_text_lines: "\<forall>l \<in> set ls. NL \<notin> set l \<Longrightarrow> split_on NL (concat (map (\<lambda>l. l @ [NL]) ls)) = ls @ [[]]"
proof (induction ls)
  case (Cons l ls)
  then show ?case using split_on_first [of NL l "concat (map (\<lambda>l. l @ [NL]) ls)"] by simp
qed simp

lemma exec_nl: "NL \<notin> set venv \<Longrightarrow> NL \<notin> set entry \<Longrightarrow> NL \<notin> set (unit_exec venv ty entry port)"
  using str_int_no_tab [of port] str_int_chars [of _ port] by (auto simp: unit_exec_def)

text \<open>
  The service runs as the panel's own user: when no part of a unit contains a line feed, systemd reads as its user and its group the user of the panel.
\<close>

theorem unit_runs_as_panel_user:
  assumes "NL \<notin> set name" "NL \<notin> set dir" "NL \<notin> set venv" "NL \<notin> set entry" "NL \<notin> set user"
  shows "unit_setting ''User'' (render_unit name dir venv ty entry port user he) = Some user \<and> unit_setting ''Group'' (render_unit name dir venv ty entry port user he) = Some user"
proof -
  have "\<forall>l \<in> set (unit_lines name dir venv ty entry port user he). NL \<notin> set l"
    using assms exec_nl [OF assms(3,4)] by (auto simp: unit_lines_def)
  moreover have "filter (\<lambda>l. startswith l ''User='') (unit_lines name dir venv ty entry port user he) = [''User='' @ user]"
    "filter (\<lambda>l. startswith l ''Group='') (unit_lines name dir venv ty entry port user he) = [''Group='' @ user]"
    by (cases he; simp add: unit_lines_def startswith_def)+
  ultimately show ?thesis by (simp add: unit_setting_def render_unit_def split_text_lines) (simp add: startswith_def)
qed

text \<open>
  The entry point is not checked and can choose another user: a line feed in it puts lines of its own into the unit, and systemd takes the last line that sets the user.
\<close>

theorem entry_chooses_user:
  assumes "NL \<notin> set name" "NL \<notin> set dir" "NL \<notin> set venv" "NL \<notin> set user" "NL \<notin> set en" "NL \<notin> set other" "ty \<noteq> ''asgi''"
  shows "unit_setting ''User'' (render_unit name dir venv ty (en @ [NL] @ ''User='' @ other @ [NL] @ ''#'') port user he) = Some other"
proof -
  let ?tail = "''#'' @ '' --bind 127.0.0.1:'' @ str_int port @ '' --workers 3 --timeout 60''"
  let ?ls = "take (9 + (if he then 1 else 0)) (unit_lines name dir venv ty [] port user he) @ [''ExecStart='' @ venv @ ''/bin/gunicorn '' @ en, ''User='' @ other, ?tail,
      ''Restart=on-failure'', ''RestartSec=5'', [], ''[Install]'', ''WantedBy=multi-user.target'']"
  have "render_unit name dir venv ty (en @ [NL] @ ''User='' @ other @ [NL] @ ''#'') port user he = concat (map (\<lambda>l. l @ [NL]) ?ls)"
    using assms(7) by (simp add: render_unit_def unit_lines_def unit_exec_def)
  moreover have "\<forall>l \<in> set ?ls. NL \<notin> set l"
    using assms str_int_no_tab [of port] str_int_chars [of _ port] by (auto simp: unit_lines_def)
  moreover have "filter (\<lambda>l. startswith l ''User='') ?ls = [''User='' @ user, ''User='' @ other]"
    by (cases he; simp add: unit_lines_def startswith_def)
  moreover have "\<not> startswith [] ''User=''" by (simp add: startswith_def)
  ultimately show ?thesis by (simp only: unit_setting_def split_text_lines append.append_Cons append.append_Nil filter_append filter.simps if_False) simp
qed

section \<open>Concrete requests\<close>

definition demo_pyenv :: "unit py_env" where
  "demo_pyenv = \<lparr>pe_sh = \<lambda>args inp w. (w, Ended 0 [] []), pe_in = \<lambda>dir args inp w. (w, Ended 0 [] []),
     pe_site = \<lparr>se_modes = demo_modes, se_host = demo_host, se_platform = ''Linux'', se_drop = \<lambda>bs. bs, se_cwd = []\<rparr>,
     pe_base = ''/srv/pyapps'', pe_user = ''panel'', pe_exc_text = \<lambda>x. ''error''\<rparr>"

definition demo_app_requests :: "(int \<times> caller lres \<times> app_request) list" where
  "demo_app_requests =
     [(1, demo_manager, CreateApp ''shop'' [] ''https://x/y'' ''main'' ''wsgi'' [] [] None False ''a1''),
      (2, demo_manager, FromTemplate ''blog'' [] ''flask'' [] None False ''b2''), (3, demo_manager, DeleteApp 1 False)]"

theorem apps_have_own_ports_witness:
  "\<exists>d. d = fst (fold (\<lambda>(now, who, q) s. fst (app_serve demo_pyenv (\<lambda>k b. []) (\<lambda>b. Inr JNull) (\<lambda>j. []) now who q s)) demo_app_requests (demo_ldb, (), []))
     \<and> distinct (map ap_port (pyapps d))"
  using apps_have_own_ports [of "(demo_ldb, (), [])", OF _ refl, of demo_pyenv "\<lambda>k b. []" "\<lambda>b. Inr JNull" "\<lambda>j. []" demo_app_requests]
  by (simp add: demo_ldb_def)

theorem unit_runs_as_panel_user_witness:
  "unit_setting ''User'' (render_unit ''shop'' ''/srv/pyapps/shop'' ''/srv/pyapps/shop/venv'' ''wsgi'' ''app:app'' 8001 ''panel'' True) = Some ''panel''"
  using unit_runs_as_panel_user [of "''shop''" "''/srv/pyapps/shop''" "''/srv/pyapps/shop/venv''" "''app:app''" "''panel''" "''wsgi''" 8001 True] by simp

theorem entry_chooses_user_witness:
  "unit_setting ''User'' (render_unit ''shop'' ''/srv/pyapps/shop'' ''/srv/pyapps/shop/venv'' ''wsgi'' (''app:app'' @ [NL] @ ''User='' @ ''root'' @ [NL] @ ''#'') 8001 ''panel'' False) = Some ''root''"
  using entry_chooses_user [of "''shop''" "''/srv/pyapps/shop''" "''/srv/pyapps/shop/venv''" "''panel''" "''app:app''" "''root''" "''wsgi''" 8001 False] by simp

end
