(* ===== verification/Copies.thy ===== *)
theory Copies
  imports Hostfs
begin

text \<open>
  Copying in the file manager of the first panel (\<open>copy_items\<close> of \<open>legacy/v1/backend/app/services/filemanager.py\<close> and its route in \<open>api/files.py\<close>), with what the code takes
  from \<open>shutil\<close>: \<open>copy2\<close> and \<open>copytree\<close>, which follow links. How deep a path the system can follow is the number \<open>depth\<close>; beyond it a call fails.
\<close>

section \<open>shutil\<close>

definition copy_file :: "fmodes \<Rightarrow> path \<Rightarrow> path \<Rightarrow> (fs, unit) lio" where
  \<comment> \<open>\<open>copy2\<close>: the bytes, then the mode, through links on both sides\<close>
  "copy_file mo src dst f =
     (case follow f src of
        Some (FFile bs m) \<Rightarrow>
          lseq (os_write mo dst bs) (\<lambda>_ g. case realpath g [] [] dst of None \<Rightarrow> (g, os_error) | Some q \<Rightarrow> (dput q (FFile bs m) g, Inr ())) f
      | _ \<Rightarrow> (f, os_error))"

definition new_dir :: "fmodes \<Rightarrow> path \<Rightarrow> (fs, path) lio" where
  \<comment> \<open>\<open>os.makedirs(dst)\<close> where the parent exists: anything in the way, a link too, is an error\<close>
  "new_dir mo p f =
     (case place f p of
        None \<Rightarrow> (f, os_error)
      | Some q \<Rightarrow> if node_at f q \<noteq> None \<or> \<not> is_dir_at f (butlast q) then (f, os_error) else (dput q (FDir (fm_dir mo)) f, Inr q))"

definition collecting :: "('a \<Rightarrow> (fs, unit) lio) \<Rightarrow> 'a \<Rightarrow> fs \<times> bool \<Rightarrow> fs \<times> bool" where
  \<comment> \<open>an error is kept for the end, the next entry is tried\<close>
  "collecting act x s = (let (g, r) = act x (fst s) in (g, snd s \<and> (case r of Inl e \<Rightarrow> False | Inr u \<Rightarrow> True)))"

lemma collecting_cong [fundef_cong]: "x = y \<Longrightarrow> s = t \<Longrightarrow> (act y (fst t) = act' y (fst t)) \<Longrightarrow> collecting act x s = collecting act' y t"
  by (simp add: collecting_def)

fun copy_tree :: "fmodes \<Rightarrow> nat \<Rightarrow> path \<Rightarrow> path \<Rightarrow> (fs, unit) lio" where
  \<comment> \<open>\<open>copytree\<close>\<close>
  "copy_tree mo 0 src dst f = (f, os_error)"
| "copy_tree mo (Suc n) src dst f =
     (case realpath f [] [] src of
        None \<Rightarrow> (f, os_error)
      | Some s \<Rightarrow>
          (case node_at f s of
             Some (FDir m) \<Rightarrow>
               (case new_dir mo dst f of
                  (f1, Inl x) \<Rightarrow> (f1, Inl x)
                | (f1, Inr d) \<Rightarrow>
                    (case fold (collecting (\<lambda>name g. if leads_to_dir g (src @ [name]) then copy_tree mo n (src @ [name]) (dst @ [name]) g
                                                     else copy_file mo (src @ [name]) (dst @ [name]) g)) (map last (children f s)) (f1, True) of
                       (f2, ok) \<Rightarrow> (dput d (FDir m) f2, if ok then Inr () else os_error)))
           | _ \<Rightarrow> (f, os_error)))"

section \<open>copy_items\<close>

definition copy_one :: "fmodes \<Rightarrow> nat \<Rightarrow> path \<Rightarrow> string \<Rightarrow> (fs, nat) lio" where
  "copy_one mo depth dst raw =
     at_path raw (\<lambda>src f.
       if node_at f src = None then (f, Inr 0)
       else case (unique_target f dst (pname src), realpath f [] [] dst) of
              (Some target, Some d) \<Rightarrow>
                if is_dir_at f src then
                  if startswith (path_str d) (path_str src) then (f, Inl (AppError ''cannot copy a folder into itself''))
                  else lseq (copy_tree mo depth src target) (\<lambda>_. lret (Inr 1)) f
                else lseq (copy_file mo src target) (\<lambda>_. lret (Inr 1)) f
            | _ \<Rightarrow> (f, Inl (RuntimeError ''symlink loop'')))"

fun copy_all :: "fmodes \<Rightarrow> nat \<Rightarrow> path \<Rightarrow> string list \<Rightarrow> nat \<Rightarrow> (fs, nat) lio" where
  "copy_all mo depth dst [] n = lret (Inr n)"
| "copy_all mo depth dst (raw # raws) n = lseq (copy_one mo depth dst raw) (\<lambda>k. copy_all mo depth dst raws (n + k))"

definition copy_items :: "fmodes \<Rightarrow> nat \<Rightarrow> string list \<Rightarrow> string \<Rightarrow> (fs, nat \<times> path) lio" where
  "copy_items mo depth raws dest =
     at_path dest (\<lambda>dst f. if \<not> is_dir_at f dst then (f, Inl (AppError ''destination not a directory''))
                           else lseq (copy_all mo depth dst raws 0) (\<lambda>n. lret (Inr (n, dst))) f)"

definition fm_copy_items :: "fmodes \<Rightarrow> nat \<Rightarrow> string list \<Rightarrow> string \<Rightarrow> (ldb \<times> fs, nat \<times> path) lio" where
  "fm_copy_items mo depth raws dest = recorded ''files.copy'' (\<lambda>(n, dst). str_int (int n) @ '' -> '' @ path_str dst) (copy_items mo depth raws dest)"

definition route_copy_paths :: "fmodes \<Rightarrow> nat \<Rightarrow> caller lres \<Rightarrow> string list \<Rightarrow> string \<Rightarrow> (ldb \<times> fs, nat \<times> path) lio" where
  "route_copy_paths mo depth who raws dest = files_change who (fm_copy_items mo depth raws dest)"

section \<open>What a copy changes\<close>

definition plain_names :: "fs \<Rightarrow> bool" where
  "plain_names f = (\<forall>p \<in> fst ` set f. ''..'' \<notin> set p)"

definition well_rooted :: "fs \<Rightarrow> bool" where
  \<comment> \<open>what is there has its parent there\<close>
  "well_rooted f = (\<forall>p. node_at f p \<noteq> None \<longrightarrow> node_at f (butlast p) \<noteq> None)"

definition grown :: "path \<Rightarrow> fs \<Rightarrow> fs \<Rightarrow> bool" where
  \<comment> \<open>what differs is below a place, where there is no link before or after, and nothing is removed\<close>
  "grown t f g = ((\<forall>p. \<not> above t p \<longrightarrow> node_at g p = node_at f p) \<and> (\<forall>p. above t p \<longrightarrow> link_target g p = None) \<and> (\<forall>p. node_at g p = None \<longrightarrow> node_at f p = None)
     \<and> (plain_names f \<longrightarrow> plain_names g) \<and> (well_rooted f \<longrightarrow> well_rooted g))"

lemma grown_links: "grown t f g \<Longrightarrow> (\<And>p. above t p \<Longrightarrow> link_target f p = None) \<Longrightarrow> link_target g p = link_target f p"
  by (cases "above t p") (auto simp: grown_def link_target_def)

lemma grown_refl: "(\<And>p. above t p \<Longrightarrow> link_target f p = None) \<Longrightarrow> grown t f f"
  by (simp add: grown_def)

lemma grownI:
  assumes "\<And>p. \<not> above t p \<Longrightarrow> node_at g p = node_at f p" "\<And>p. above t p \<Longrightarrow> link_target g p = None" "\<And>p. node_at g p = None \<Longrightarrow> node_at f p = None"
    "plain_names f \<Longrightarrow> plain_names g" "well_rooted f \<Longrightarrow> well_rooted g"
  shows "grown t f g"
  using assms by (simp add: grown_def)

lemma grownD:
  assumes "grown t f g"
  shows "\<not> above t p \<Longrightarrow> node_at g p = node_at f p" "above t p \<Longrightarrow> link_target g p = None" "node_at g p = None \<Longrightarrow> node_at f p = None"
    "plain_names f \<Longrightarrow> plain_names g" "well_rooted f \<Longrightarrow> well_rooted g"
  using assms by (simp_all add: grown_def)

lemma grown_trans:
  assumes a: "grown t f g" and b: "grown t g h" shows "grown t f h"
proof (rule grownI)
  fix p assume n: "\<not> above t p"
  show "node_at h p = node_at f p" using grownD(1) [OF a n] grownD(1) [OF b n] by simp
next
  fix p assume "above t p" then show "link_target h p = None" by (rule grownD(2) [OF b])
next
  fix p assume "node_at h p = None" then show "node_at f p = None" by (rule grownD(3) [OF a grownD(3) [OF b]])
next
  assume "plain_names f" then show "plain_names h" by (rule grownD(4) [OF b grownD(4) [OF a]])
next
  assume "well_rooted f" then show "well_rooted h" by (rule grownD(5) [OF b grownD(5) [OF a]])
qed

lemma grown_down:
  assumes u: "above t u" and g: "grown u f g" and free: "\<And>p. above t p \<Longrightarrow> link_target f p = None"
  shows "grown t f g"
proof (rule grownI)
  fix p assume "\<not> above t p"
  then have "\<not> above u p" using above_trans [OF u] by blast
  then show "node_at g p = node_at f p" by (rule grownD(1) [OF g])
next
  fix p assume p: "above t p"
  show "link_target g p = None"
  proof (cases "above u p")
    case False
    then show ?thesis using free [OF p] grownD(1) [OF g False] by (simp add: link_target_def)
  qed (rule grownD(2) [OF g])
next
  fix p assume "node_at g p = None" then show "node_at f p = None" by (rule grownD(3) [OF g])
next
  assume "plain_names f" then show "plain_names g" by (rule grownD(4) [OF g])
next
  assume "well_rooted f" then show "well_rooted g" by (rule grownD(5) [OF g])
qed

lemma plain_dput: "plain_names f \<Longrightarrow> ''..'' \<notin> set p \<Longrightarrow> plain_names (dput p n f)"
  by (simp add: plain_names_def fst_set_dput)

lemma well_rooted_dput: "well_rooted f \<Longrightarrow> node_at f (butlast q) \<noteq> None \<or> node_at f q \<noteq> None \<Longrightarrow> well_rooted (dput q n f)"
  by (auto simp: well_rooted_def node_at_dput)

lemma grown_put:
  assumes "\<And>p. above t p \<Longrightarrow> link_target f p = None" "above t q" "\<forall>s. n \<noteq> FLink s" "''..'' \<notin> set q" "node_at f (butlast q) \<noteq> None \<or> node_at f q \<noteq> None"
  shows "grown t f (dput q n f)"
proof (rule grownI)
  fix p assume "\<not> above t p"
  then show "node_at (dput q n f) p = node_at f p" using assms(2) by (auto simp: node_at_dput)
next
  fix p assume "above t p"
  then show "link_target (dput q n f) p = None" using assms(1) [of p] assms(3) by (cases n) (auto simp: node_at_dput link_target_def)
next
  fix p assume "node_at (dput q n f) p = None" then show "node_at f p = None" by (auto simp: node_at_dput split: if_splits)
qed (rule plain_dput [OF _ assms(4)], assumption, rule well_rooted_dput [OF _ assms(5)])

lemma realpath_entry:
  assumes "realpath f [] [] d = Some q" "c \<noteq> ''..''" "link_target f (q @ [c]) = None"
  shows "realpath f [] [] (d @ [c]) = Some (q @ [c])"
  using assms by (simp add: realpath_snoc)

lemma realpath_no_dots: "realpath f act p cs = Some q \<Longrightarrow> ''..'' \<notin> set p \<Longrightarrow> ''..'' \<notin> set q"
proof (induction f act p cs arbitrary: q rule: realpath.induct)
  case (2 f act p c cs)
  show ?case
  proof (cases "c = ''..''")
    case True
    then show ?thesis using 2(1) [OF True] 2(5,6) by (auto dest: in_set_butlastD)
  next
    case dots: False
    show ?thesis
    proof (cases "link_target f (p @ [c])")
      case None
      then show ?thesis using 2(2) [OF dots None] 2(5,6) dots by simp
    next
      case (Some t)
      then obtain r where act: "p @ [c] \<notin> set act" and r: "realpath f ((p @ [c]) # act) (if startswith t ''/'' then [] else p) (components t) = Some r"
        and q: "realpath f act r cs = Some q" using 2(5) dots by (auto split: if_splits option.splits)
      show ?thesis using 2(4) [OF dots Some act r q] 2(3) [OF dots Some act r] 2(6) by (simp split: if_splits)
    qed
  qed
qed simp

lemma copy_file_grown:
  assumes d: "realpath f [] [] d = Some q" "c \<noteq> ''..''" and free: "\<And>p. above (q @ [c]) p \<Longrightarrow> link_target f p = None"
  shows "grown (q @ [c]) f (fst (copy_file mo src (d @ [c]) f))"
proof -
  have l: "link_target f (q @ [c]) = None" by (rule free) simp
  have r: "realpath f [] [] (d @ [c]) = Some (q @ [c])" by (rule realpath_entry [OF d l])
  have dots: "''..'' \<notin> set (q @ [c])" using realpath_no_dots [OF d(1)] d(2) by simp
  have w: "grown (q @ [c]) f (dput (q @ [c]) (FFile bs m) g)" if "grown (q @ [c]) f g" "node_at g q \<noteq> None" for bs m g
  proof (rule grown_trans [OF that(1)], rule grown_put)
    show "link_target g p = None" if "above (q @ [c]) p" for p using \<open>grown (q @ [c]) f g\<close> that by (simp add: grown_def)
  qed (use dots that(2) in auto)
  note self = grown_refl [OF free]
  have put: "grown (q @ [c]) f (put_file mo (q @ [c]) bs f)" if "is_dir_at f q" for bs
    unfolding put_file_def using that by (intro w [OF self]) (auto simp: is_dir_at_def split: option.splits)
  have there: "node_at (put_file mo (q @ [c]) bs f) q \<noteq> None" if "is_dir_at f q" for bs
    using that by (auto simp: put_file_def node_at_dput is_dir_at_def split: option.splits)
  have w: "grown (q @ [c]) f (dput (q @ [c]) (FFile bs m) (put_file mo (q @ [c]) bs f))" if "is_dir_at f q" for bs m
    by (rule w [OF put [OF that] there [OF that]])
  have r2: "realpath (put_file mo (q @ [c]) bs f) [] [] (d @ [c]) = Some (q @ [c])" if "is_dir_at f q" for bs
    using realpath_cong [OF grown_links [OF put [OF that] free], of bs] r by simp
  show ?thesis
    using self put w r r2 by (auto simp: copy_file_def os_write_def os_error_def lseq_def split: option.splits node.splits prod.splits)
qed

lemma fold_collecting:
  assumes "\<And>x g. x \<in> set xs \<Longrightarrow> I g \<Longrightarrow> I (fst (act x g))" "I (fst s)"
  shows "I (fst (fold (collecting act) xs s))"
  using assms
proof (induction xs arbitrary: s)
  case (Cons x xs)
  have "fst (collecting act x s) = fst (act x (fst s))" by (simp add: collecting_def split: prod.split)
  then show ?case using Cons.IH [of "collecting act x s"] Cons.prems by simp
qed simp

lemma child_names: "plain_names f \<Longrightarrow> name \<in> set (map last (children f s)) \<Longrightarrow> name \<noteq> ''..''"
  unfolding plain_names_def children_def by (auto simp del: in_set_conv_decomp) (metis fst_conv last_in_set)

lemma copy_tree_grown:
  assumes "realpath f [] [] d = Some q" "c \<noteq> ''..''" "\<And>p. above (q @ [c]) p \<Longrightarrow> link_target f p = None" "plain_names f"
  shows "grown (q @ [c]) f (fst (copy_tree mo n src (d @ [c]) f))"
  using assms
proof (induction n arbitrary: src d q c f)
  case 0
  then show ?case by (simp add: grown_refl)
next
  case (Suc n)
  note d = Suc.prems(1) and c = Suc.prems(2) and free = Suc.prems(3)
  note self = grown_refl [OF free]
  have dots: "''..'' \<notin> set (q @ [c])" using realpath_no_dots [OF d] c by simp
  have l: "link_target f (q @ [c]) = None" by (rule free) simp
  have r: "realpath f [] [] (d @ [c]) = Some (q @ [c])" by (rule realpath_entry [OF d c l])
  show ?case
  proof (cases "\<exists>s m f1 d1. realpath f [] [] src = Some s \<and> node_at f s = Some (FDir m) \<and> new_dir mo (d @ [c]) f = (f1, Inr d1)")
    case False
    have "fst (new_dir mo (d @ [c]) f) = f" if "snd (new_dir mo (d @ [c]) f) = Inl x" for x
      using that by (auto simp: new_dir_def split: option.splits if_splits)
    then have "fst (copy_tree mo (Suc n) src (d @ [c]) f) = f"
      using False by (auto split: option.split node.split prod.split sum.split)
    then show ?thesis using self by simp
  next
    case True
    then obtain s m f1 d1 where s: "realpath f [] [] src = Some s" "node_at f s = Some (FDir m)" and nd: "new_dir mo (d @ [c]) f = (f1, Inr d1)" by blast
    have f1: "f1 = dput (q @ [c]) (FDir (fm_dir mo)) f" "d1 = q @ [c]"
      using nd d c by (auto simp: new_dir_def place_def os_error_def split: if_splits option.splits)
    let ?act = "\<lambda>name g. if leads_to_dir g (src @ [name]) then copy_tree mo n (src @ [name]) ((d @ [c]) @ [name]) g
                         else copy_file mo (src @ [name]) ((d @ [c]) @ [name]) g"
    obtain f2 ok where f2: "fold (collecting ?act) (map last (children f s)) (f1, True) = (f2, ok)" by fastforce
    have "is_dir_at f q" using nd d c by (auto simp: new_dir_def place_def os_error_def split: if_splits option.splits)
    then have start: "grown (q @ [c]) f f1" unfolding f1(1) by (intro grown_put [OF free]) (use dots in \<open>auto simp: is_dir_at_def split: option.splits\<close>)
    have step: "grown (q @ [c]) f (fst (?act name g))" if n: "name \<in> set (map last (children f s))" and g: "grown (q @ [c]) f g" for name g
    proof -
      have rg: "realpath g [] [] (d @ [c]) = Some (q @ [c])" using realpath_cong [OF grown_links [OF g free]] r by simp
      have fg: "link_target g p = None" if "above (q @ [c]) p" for p by (rule grownD(2) [OF g that])
      have ab: "above (q @ [c]) ((q @ [c]) @ [name])" by (auto simp: above_iff)
      have fn: "link_target g p = None" if "above ((q @ [c]) @ [name]) p" for p using fg [OF above_trans [OF ab that]] .
      have nm: "name \<noteq> ''..''" using child_names [OF Suc.prems(4) n] .
      have "grown ((q @ [c]) @ [name]) g (fst (?act name g))"
        using Suc.IH [OF rg nm fn grownD(4) [OF g Suc.prems(4)]] copy_file_grown [OF rg nm fn] by simp
      from grown_trans [OF g grown_down [OF ab this fg]] show ?thesis .
    qed
    have "grown (q @ [c]) f (fst (fold (collecting ?act) (map last (children f s)) (f1, True)))"
      by (rule fold_collecting [where I = "grown (q @ [c]) f", OF step]) (use start in simp_all)
    then have g2: "grown (q @ [c]) f f2" by (simp add: f2)
    have "grown (q @ [c]) f (dput (q @ [c]) (FDir m) f2)"
      by (rule grown_trans [OF g2], rule grown_put [OF grownD(2) [OF g2]]) (use dots grownD(3) [OF g2, of q] \<open>is_dir_at f q\<close> in \<open>auto simp: is_dir_at_def split: option.splits\<close>)
    moreover have "fst (copy_tree mo (Suc n) src (d @ [c]) f) = dput (q @ [c]) (FDir m) f2"
      using s nd f1(2) f2 by simp
    ultimately show ?thesis by simp
  qed
qed

section \<open>Copies only add\<close>

definition added :: "path \<Rightarrow> fs \<Rightarrow> fs \<Rightarrow> bool" where
  \<comment> \<open>what was there is as it was, what is new is below a directory and no link\<close>
  "added d f g = ((\<forall>p. node_at f p \<noteq> None \<longrightarrow> node_at g p = node_at f p) \<and> (\<forall>p. node_at g p \<noteq> node_at f p \<longrightarrow> above d p \<and> link_target g p = None)
     \<and> plain_names g \<and> well_rooted g)"

definition tidy :: "path \<Rightarrow> fs \<Rightarrow> bool" where
  \<comment> \<open>a well-formed tree, and the links in the directory lead somewhere\<close>
  "tidy d f = (plain_names f \<and> well_rooted f \<and> (\<forall>c. c \<noteq> ''..'' \<longrightarrow> link_target f (d @ [c]) \<noteq> None \<longrightarrow> follow f (d @ [c]) \<noteq> None))"

lemma added_links: "added d f g \<Longrightarrow> link_target g p = link_target f p"
proof (cases "node_at g p = node_at f p")
  case False
  moreover assume "added d f g"
  ultimately have "node_at f p = None" "link_target g p = None" unfolding added_def by blast+
  then show ?thesis by (simp add: link_target_def)
qed (simp add: link_target_def)

lemma added_trans: "added d f g \<Longrightarrow> added d g h \<Longrightarrow> added d f h"
  unfolding added_def by (metis (no_types, lifting) link_target_def)

lemma added_tidy: "added d f g \<Longrightarrow> tidy d f \<Longrightarrow> tidy d g"
proof -
  assume a: "added d f g" and t: "tidy d f"
  note links = added_links [OF a]
  note same = realpath_cong [of g f, OF links]
  have stays: "follow g p \<noteq> None" if "follow f p \<noteq> None" for p
  proof -
    obtain q where q: "realpath f [] [] p = Some q" "node_at f q \<noteq> None" using \<open>follow f p \<noteq> None\<close> by (auto simp: follow_def split: option.splits)
    then have "node_at g q \<noteq> None" using a unfolding added_def by metis
    then show ?thesis using q(1) by (simp add: follow_def same)
  qed
  show ?thesis using a t stays links unfolding tidy_def added_def by metis
qed

lemma added_refl: "tidy d f \<Longrightarrow> added d f f"
  by (simp add: added_def tidy_def)

lemma below_missing: "well_rooted f \<Longrightarrow> node_at f t = None \<Longrightarrow> node_at f (t @ r) = None"
proof (induction r rule: rev_induct)
  case (snoc c r)
  then have "node_at f (butlast (t @ r @ [c])) = None" by (simp add: butlast_append)
  then show ?case using snoc.prems(1) unfolding well_rooted_def by blast
qed simp

lemma grown_added:
  assumes "grown (d @ [c]) f g" "node_at f (d @ [c]) = None" "plain_names f" "well_rooted f"
  shows "added d f g"
proof -
  have none: "node_at f p = None" if "above (d @ [c]) p" for p using that below_missing [OF assms(4,2)] by (auto simp: above_iff)
  have "node_at g p = node_at f p" if "node_at f p \<noteq> None" for p using that none [of p] grownD(1) [OF assms(1), of p] by metis
  moreover have "above d p \<and> link_target g p = None" if "node_at g p \<noteq> node_at f p" for p
    
  proof -
    have p: "above (d @ [c]) p" using that grownD(1) [OF assms(1), of p] by metis
    moreover have "above d (d @ [c])" by (auto simp: above_iff)
    ultimately show ?thesis using grownD(2) [OF assms(1) p] above_trans by blast
  qed
  ultimately show ?thesis using grownD(4,5) [OF assms(1)] assms(3,4) by (simp add: added_def)
qed

lemma unique_target_entry:
  assumes "unique_target f d n = Some t" "n \<noteq> ''..''" "follow f d \<noteq> None"
  shows "\<exists>c. t = d @ [c] \<and> c \<noteq> ''..'' \<and> follow f t = None"
proof -
  have "free_copy k f d n i = Some t \<Longrightarrow> \<exists>c. t = d @ [c] \<and> c \<noteq> ''..'' \<and> follow f t = None" for k i
    by (induction k f d n i rule: free_copy.induct) (use copy_name_no_dots in \<open>auto split: if_splits\<close>)
  note copy = this
  show ?thesis
  proof (cases "follow f (if n = [] then d else d @ [n]) = None")
    case True
    then show ?thesis using assms by (auto simp: unique_target_def Let_def split: if_splits)
  next
    case False
    then show ?thesis using assms(1) copy unfolding unique_target_def Let_def by (metis (no_types))
  qed
qed

lemma copy_one_added:
  assumes d: "realpath f [] [] d = Some d" "is_dir_at f d" and t: "tidy d f"
  shows "added d f (fst (copy_one mo depth d raw f))"
proof (cases "resolve_path f raw")
  case (Inl e)
  then show ?thesis by (simp add: copy_one_def at_path_def added_refl [OF t])
next
  case (Inr src)
  have "''..'' \<notin> set src" using Inr realpath_no_dots [of f "[]" "[]" _ src] by (auto simp: resolve_path_def resolve_parts_def split: if_splits option.splits)
  then have n: "pname src \<noteq> ''..''" unfolding pname_def by (metis last_in_set list.distinct(1))
  obtain target where u: "unique_target f d (pname src) = Some target" using unique_target_found by blast
  have "follow f d \<noteq> None" using d by (auto simp: follow_def is_dir_at_def split: option.splits)
  from unique_target_entry [OF u n this] obtain c where c: "target = d @ [c]" "c \<noteq> ''..''" "follow f (d @ [c]) = None" by auto
  have l: "link_target f (d @ [c]) = None" using t c by (auto simp: tidy_def)
  then have none: "node_at f (d @ [c]) = None" using c(3) realpath_entry [OF d(1) c(2) l] by (simp add: follow_def)
  have plain: "plain_names f" "well_rooted f" using t by (simp_all add: tidy_def)
  have free: "link_target f p = None" if "above (d @ [c]) p" for p
    using that below_missing [OF plain(2) none] by (auto simp: above_iff link_target_def)
  have "added d f (fst (copy_file mo src (d @ [c]) f))" by (rule grown_added [OF copy_file_grown [OF d(1) c(2) free] none plain])
  moreover have "added d f (fst (copy_tree mo depth src (d @ [c]) f))" by (rule grown_added [OF copy_tree_grown [OF d(1) c(2) free plain(1)] none plain])
  ultimately show ?thesis using added_refl [OF t]
    by (auto simp: copy_one_def at_path_def Inr u c(1) d(1) lseq_def lret_def split: prod.splits sum.splits)
qed

lemma copy_all_added:
  assumes "realpath f [] [] d = Some d" "is_dir_at f d" "tidy d f"
  shows "added d f (fst (copy_all mo depth d raws n f))"
  using assms
proof (induction raws arbitrary: n f)
  case Nil
  then show ?case by (simp add: added_refl lret_def)
next
  case (Cons raw raws)
  obtain g r where g: "copy_one mo depth d raw f = (g, r)" by fastforce
  have a: "added d f g" using copy_one_added [OF Cons.prems, of mo depth raw] g by simp
  have "realpath g [] [] d = Some d" using realpath_cong [OF added_links [OF a]] Cons.prems(1) by simp
  moreover have "is_dir_at g d" using a Cons.prems(2) by (auto simp: added_def is_dir_at_def split: option.splits)
  ultimately have "added d g (fst (copy_all mo depth d raws m g))" for m using Cons.IH added_tidy [OF a Cons.prems(3)] by blast
  from added_trans [OF a this] show ?case using a g by (cases r) (auto simp: lseq_def)
qed

text \<open>
  C28. Copying only adds: in a well-formed tree, where no link in the destination leads nowhere, whatever paths a request names, whether the copy succeeds or
  stops half way, everything that was there is as it was (the copied folders too), and what is new lies below the destination, and so below an allowed root,
  and is no link.
\<close>

theorem copies_only_add:
  assumes "resolve_path f dest = Inr d" "tidy d f" and g: "g = fst (copy_items mo depth raws dest f)"
  shows "(node_at f p \<noteq> None \<longrightarrow> node_at g p = node_at f p) \<and> (node_at g p \<noteq> node_at f p \<longrightarrow> above d p \<and> inside f p \<and> link_target g p = None)"
proof -
  obtain cs where r: "realpath f [] [] cs = Some d" and i: "inside f d"
    using assms(1) resolve_inside(2) [OF assms(1)] by (auto simp: resolve_path_def resolve_parts_def split: if_splits option.splits)
  have c: "clean f d" by (rule realpath_clean [OF r]) (auto simp: clean_def above_iff link_target_def node_at_def)
  have "''..'' \<notin> set d" by (rule realpath_no_dots [OF r]) simp
  moreover have "link_target f (take n d) = None" for n using c by (auto simp: clean_def above_iff) (metis append_take_drop_id)
  ultimately have d: "realpath f [] [] d = Some d" using realpath_dirs [of d f "[]" "[]"] by simp
  have "added d f g"
  proof (cases "is_dir_at f d")
    case True
    from copy_all_added [OF d True assms(2), of mo depth raws 0] show ?thesis
      by (auto simp: g copy_items_def at_path_def assms(1) True lseq_def lret_def split: prod.splits sum.splits)
  qed (simp add: g copy_items_def at_path_def assms(1) added_refl [OF assms(2)])
  then show ?thesis using inside_down [OF i] unfolding added_def by blast
qed

section \<open>Links and copies\<close>

definition copy_fs :: fs where
  "copy_fs = [([''home''], FDir 493), ([''home'', ''a''], FDir 493), ([''home'', ''a'', ''t''], FFile [1, 2] 420), ([''home'', ''a'', ''up''], FLink ''/etc''),
     ([''home'', ''b''], FDir 448), ([''etc''], FDir 493), ([''etc'', ''pw''], FFile [7] 420), ([''home'', ''b'', ''k''], FLink ''/etc/cr''), ([''home'', ''k''], FFile [9] 420)]"

text \<open>
  A link inside a copied folder is followed: the copy holds what the link leads to, so a copy brings files from outside the roots into them, where the file
  manager reads them.
\<close>

lemma copy_brings_outside_in:
  "case copy_items demo_modes 3 [''/home/a''] ''/home/b'' copy_fs of
     (g, r) \<Rightarrow> r = Inr (1, [''home'', ''b'']) \<and> node_at g [''home'', ''b'', ''a'', ''up'', ''pw''] = Some (FFile [7] 420)"
  by code_simp

text \<open>
  A link that leads nowhere counts as a free name, because \<open>exists\<close> follows links: copying a file over it writes where the link points, outside
  the roots, although every path of the request was checked.
\<close>

lemma copy_through_dangling_link:
  "case copy_items demo_modes 3 [''/home/k''] ''/home/b'' copy_fs of
     (g, r) \<Rightarrow> r = Inr (1, [''home'', ''b'']) \<and> node_at g [''etc'', ''cr''] = Some (FFile [9] 420)"
  "node_at copy_fs [''etc'', ''cr''] = None" "\<not> inside copy_fs [''etc'', ''cr'']"
  by code_simp+

definition tidy_fs :: fs where
  "tidy_fs = filter (\<lambda>(p, n). p \<noteq> [''home'', ''b'', ''k'']) copy_fs"

theorem copies_only_add_witness:
  "node_at (fst (copy_items demo_modes 3 [''/home/a''] ''/home/b'' tidy_fs)) [''home'', ''a'', ''t''] = Some (FFile [1, 2] 420)
   \<and> node_at (fst (copy_items demo_modes 3 [''/home/a''] ''/home/b'' tidy_fs)) [''home'', ''b'', ''a'', ''t''] = Some (FFile [1, 2] 420)
   \<and> inside tidy_fs [''home'', ''b'', ''a'', ''t'']"
proof -
  let ?raws = "[''/home/a'']"
  have r: "resolve_path tidy_fs ''/home/b'' = Inr [''home'', ''b'']" by code_simp
  have s: "tidy_fs = [([''home''], FDir 493), ([''home'', ''a''], FDir 493), ([''home'', ''a'', ''t''], FFile [1, 2] 420), ([''home'', ''a'', ''up''], FLink ''/etc''),
     ([''home'', ''b''], FDir 448), ([''etc''], FDir 493), ([''etc'', ''pw''], FFile [7] 420), ([''home'', ''k''], FFile [9] 420)]" by code_simp
  have "plain_names tidy_fs" by (simp add: plain_names_def s)
  moreover have "well_rooted tidy_fs" by (auto simp: well_rooted_def s node_at_def dget_def split: if_splits)
  moreover have "link_target tidy_fs ([''home'', ''b''] @ [c]) = None" for c by (simp add: link_target_def s node_at_def dget_def)
  ultimately have t: "tidy [''home'', ''b''] tidy_fs" by (simp add: tidy_def)
  have a: "node_at tidy_fs [''home'', ''a'', ''t''] = Some (FFile [1, 2] 420)" "node_at tidy_fs [''home'', ''b'', ''a'', ''t''] = None" by code_simp+
  have b: "node_at (fst (copy_items demo_modes 3 ?raws ''/home/b'' tidy_fs)) [''home'', ''b'', ''a'', ''t''] = Some (FFile [1, 2] 420)" by code_simp
  show ?thesis using copies_only_add [OF r t refl, where mo = demo_modes and depth = 3 and raws = ?raws and p = "[''home'', ''a'', ''t'']"]
      copies_only_add [OF r t refl, where mo = demo_modes and depth = 3 and raws = ?raws and p = "[''home'', ''b'', ''a'', ''t'']"] a b by simp
qed

end
