(* ===== verification/Spec2Isabelle.thy ===== *)
theory Spec2Isabelle
  imports System Archives Notices Mail Pyapps Copies
begin

text \<open>
  Verification of the ICSD panel.

  The program has two generations. The hub (\<open>src/hub/icsd_hub\<close>) is one asynchronous Python process that keeps accounts, servers, history,
  alerts, checks and backup plans in SQLite, holds a WebSocket to an agent on every managed server, and serves a JSON API to a browser. The first
  panel (\<open>src/legacy/v1/backend/app\<close>) runs on the managed server itself and changes it with system commands. Both are translated from the
  source function by function, with the names of the source where HOL leaves them free; the hub is complete.

  The hub, from the bottom up:
  \<^item> \<open>Prelude\<close>: what the code takes from Python and SQLite. A \<open>str\<close> is a \<open>string\<close> over U+0000 to U+00FF; a float is a rational,
    with the rounding of \<open>int\<close>, \<open>round\<close> and SQL's \<open>ROUND\<close> written out; a dictionary is an association list in insertion order; a table is a
    list of rows; an exception is the left summand of a result.
  \<^item> \<open>Config\<close> (\<open>config.py\<close>), \<open>Security\<close> (\<open>security.py\<close>), \<open>Db\<close> (\<open>db.py\<close>): settings, passwords and one-time codes, tables and migrations.
  \<^item> \<open>Auth\<close> (\<open>auth.py\<close>), \<open>Accounts\<close> (the account routes of \<open>api.py\<close>, the command line of \<open>__main__.py\<close>): sessions, brute-force limits, the guards
    \<open>current_user\<close>, \<open>admin\<close>, \<open>elevated\<close>, and every operation on accounts as one step of a state machine.
  \<^item> \<open>Jalali\<close>, \<open>Notify\<close> (\<open>notify.py\<close>): dates, the stored settings with hidden secrets, deliveries.
  \<^item> \<open>Live\<close> (\<open>live.py\<close>), \<open>Metrics\<close> (\<open>metrics.py\<close>): samples of agents are cleaned, kept in rings, added up per minute and rolled up per hour.
  \<^item> \<open>Alerts\<close> (\<open>alerts.py\<close>): the alert engine, called by live samples, checks, backups and the ticker.
  \<^item> \<open>Rpc\<close> (\<open>rpc.py\<close>), \<open>Agents\<close> (\<open>agents.py\<close>), \<open>Checks\<close> (\<open>checks.py\<close>), \<open>Backups\<close> (\<open>backups.py\<close>, with \<open>Base64\<close>), \<open>Domains\<close>
    (\<open>domains.py\<close>), \<open>Manage\<close> (\<open>manage.py\<close>): requests to agents and all that is built on them.
  \<^item> \<open>Hub\<close> (\<open>main.py\<close> and the dashboard routes of \<open>api.py\<close>): start, stop and the background turn over all components.
  \<^item> \<open>System\<close>: the hub as one step relation, \<open>hub_step\<close>, whose steps are the requests, messages, turns, runs and restarts of all of these.

  The state grows along this order: \<open>db\<close> holds the tables, \<open>hub_a\<close> adds the alert engine's memory, \<open>hub\<close> the connections, pending requests and the
  memory of the checks. Later components extend the record, so a fact about a component holds in every state that contains it.

  The first panel: \<open>Legacy\<close> (\<open>config.py\<close>, \<open>db.py\<close>, \<open>settings_store.py\<close>, \<open>core/oscmd.py\<close>), \<open>Tokens\<close> (\<open>core/security.py\<close>,
  \<open>core/deps.py\<close>, \<open>services/users.py\<close>, \<open>api/auth.py\<close>), \<open>Cron\<close> (\<open>services/cron.py\<close>), \<open>Dns\<close> (\<open>services/dns.py\<close>, \<open>api/dns.py\<close>), \<open>Files\<close>
  (\<open>services/filemanager.py\<close>, \<open>api/files.py\<close>), \<open>Panel\<close> (\<open>api/cron.py\<close>, roles across services), \<open>Copies\<close> (\<open>copy_items\<close>, links and all), \<open>Hostfs\<close> (the calls of \<open>os\<close> and
  \<open>shutil\<close> on the file tree of \<open>Files\<close>, \<open>core/osdetect.py\<close>), \<open>Sites\<close> (\<open>services/sites.py\<close>, \<open>services/ssl.py\<close>, their routes and
  the nginx templates), \<open>Archives\<close> (\<open>services/backup.py\<close>, \<open>services/scheduler.py\<close>, \<open>api/backup.py\<close>), \<open>Notices\<close> (\<open>services/notify.py\<close>,
  \<open>api/notifications.py\<close>), \<open>Mail\<close> (\<open>services/email.py\<close>, \<open>api/email.py\<close>), \<open>Databases\<close> (\<open>services/databases.py\<close>,
  \<open>services/postgres.py\<close>, \<open>api/databases.py\<close>), \<open>Ftp\<close> (\<open>services/ftp.py\<close>, \<open>api/ftp.py\<close>) and \<open>Pyapps\<close> (\<open>services/pyapp.py\<close>,
  \<open>api/pyapp.py\<close>). An action takes the database and the world
  of the shell, from \<open>Hostfs\<close> on the file tree too, and returns them with a value or an error; \<open>lseq\<close> puts actions in sequence, as statements in a function that may raise.
\<close>

text \<open>
  What the lemmas show.
  \<^item> Access: the guards decide exactly as documented; rights beyond reading need a code given within the last minutes; no code works twice; a
    changed credential ends all sessions; attempts at a password are bounded; one administrator always remains (\<open>Auth\<close>, \<open>Accounts\<close>, \<open>Security\<close>).
    Every request that changes a server passes the guard and is audited when it is answered (\<open>Manage\<close>).
  \<^item> Alerts: the memory of the engine mirrors the open events over every run; the engine refines a three-phase machine (quiet, pending, open); conditions
    shorter than their duration raise nothing; a restart resolves nothing and notifies nobody again (\<open>Alerts\<close>, \<open>Checks\<close>, \<open>Hub\<close>).
  \<^item> The whole: over every run of \<open>hub_step\<close>, crashes included, accounts stay well formed, an administrator exists and the engine's memory names
    exactly the open alerts (\<open>System\<close>). A due backup plan is never overlooked and never run twice at once (\<open>Backups\<close>).
  \<^item> Data: no sample is lost or counted twice between ring, minute and table; a file survives being cut into chunks, encoded, sent and decoded, in
    backups as in the editor; a local backup is deleted only after a verified copy (\<open>Live\<close>, \<open>Backups\<close>, \<open>Manage\<close>).
  \<^item> Agents: an answer reaches only the request it belongs to; an enrolled agent authenticates; a deleted server leaves nothing (\<open>Rpc\<close>, \<open>Agents\<close>).
  \<^item> First panel: only signed, unexpired tokens of active accounts are accepted; changes need a role; the file manager changes nothing outside the allowed
    roots, and a copy changes nothing that is there unless a link leads nowhere; the user's own crontab lines survive; what a zone file says is what the tables say (\<open>Tokens\<close> to \<open>Panel\<close>). An enabled site is linked to its text, the newest archives of a backup job stay, its status
    tells the outcome, warnings are spaced, and the maps of the mail server say what the tables say (\<open>Sites\<close> to \<open>Mail\<close>). What the
    clients of the panel's texts read (the cuts of the MySQL client, the literals of PostgreSQL, the lines of \<open>chpasswd\<close>, the settings of a unit) is written out as
    readers, and the theorems say when a text is read as meant and what a hostile one does instead (\<open>Databases\<close>, \<open>Ftp\<close>, \<open>Pyapps\<close>).

  Interfaces are locales. \<open>machine\<close> (\<open>Prelude\<close>) lifts an invariant kept by each operation to all runs; accounts, alerts, samples, zones, panel
  accounts, sites, mail, databases, FTP accounts and applications are interpretations. \<open>dictionary\<close> states what a lookup returns after a store. \<open>otp_verifier\<close> is what a session of attempts needs of
  a verifier. \<open>account_contract\<close> says what account operations must keep of a predicate so that all routes keep it; it is used for
  well-formed tables, for elevation and for the last administrator. \<open>step_client\<close> does the same for predicates kept by single alert steps, and gives
  it for samples, checks, certificates and offline turns. \<open>state_order\<close> (\<open>Manage\<close>) lifts a preorder on states from calls to whole routes: once for
  the requests sent, once for the audit log, and in \<open>System\<close> for keeping a predicate. \<open>hub_client\<close> (\<open>System\<close>) joins \<open>account_contract\<close>
  and \<open>step_client\<close>: what both sides keep, every step of the hub keeps. Facts that an action leaves something alone are collected by
  \<open>keeps_rules\<close> and \<open>ops_rules\<close> (\<open>Backups\<close>) and \<open>quiet_rules\<close> (\<open>Dns\<close>), and routes are closed by applying them along their structure.

  Bounds and fuel. Loops over data terminate by a measure (\<open>next_loop\<close>, \<open>read_loop\<close>, \<open>write_loop\<close>, \<open>upload_loop\<close>, \<open>realpath\<close>,
  \<open>replace\<close>). The polls of a backup job and the chunks of a copy may go on as long as an agent keeps answering; they take \<open>fuel\<close>, and running out is an error, never a
  result: statements about failures hold for every fuel, and \<open>copy_loop_served\<close> proves that one step per chunk and one for the end suffice for an agent that serves a
  file. Waiting for an agent's job is bounded in the code itself and so in the model. The search for a free file name recurses without bound in the code;
  the model tries as many names as the folder has entries plus one, which \<open>unique_target_found\<close> proves to be enough. How deep \<open>copytree\<close> may go before the system
  refuses the path is the argument \<open>depth\<close> of \<open>copy_tree\<close>; beyond it the copy fails, and \<open>copies_only_add\<close> holds for every depth.

  Parameters. Digests, bcrypt, random bytes, the clock, the network, \<open>json.loads\<close> of foreign text, the resolver, the behaviour of agents and of system
  commands are arguments of the definitions, so the theorems hold for all of their behaviours; where a theorem needs one (that a signature differs for
  different inputs, that a digest of a password verifies), it is a premise, and the theorem after it ending in \<open>_witness\<close> meets it.
\<close>

text \<open>
  Not modelled. The web interface and the agent (\<open>src/agent\<close>, in Go), which the hub knows by its answers only. Of the hub: pictures and static files,
  logging output, and the interleaving within one handler between two \<open>await\<close>s other than those of \<open>rpc.call\<close>, whose registration, answer and
  end are separate steps. Of the first panel: the certificate check, web mail, the installer of applications and
  diagnostics, which put together command lines and configuration texts for programs outside the repository; of its backups the formats of archives and the
  protocols of transfers, which are parameters; of the file manager \<open>compress\<close> and the errors of permissions and disks. Characters above U+00FF occur in messages only and are transliterated there; texts
  of files are lists of code points and have them all. Overflow and rounding of floats are left out: every float is the rational it denotes.
\<close>

end
